(* ===== verification/Prelude.thy ===== *)
theory Prelude
  imports Main "HOL-Library.Word" "HOL-Library.Monad_Syntax"
begin

text \<open>
  What the components share: the reading of Rust's panics and results, the
  arithmetic of a 64-bit \<open>usize\<close>, and the theory of index-linked lists.

  \<^item> A computation that may panic (a slice index out of range, a failed
    \<open>assert!\<close>, an \<open>unreachable!\<close>) or that may loop forever is an \<open>option\<close>:
    \<^term>\<open>None\<close> is "no result", \<^term>\<open>Some x\<close> is a normal return.
  \<^item> A \<open>Result<T, E>\<close> is a sum: \<^term>\<open>Inl e\<close> is \<open>Err(e)\<close> and
    \<^term>\<open>Inr x\<close> is \<open>Ok(x)\<close>.
  \<^item> An operation on \<open>&mut self\<close> returns the state it leaves behind beside its
    result, on the error paths too.
  \<^item> \<open>debug_assert!\<close> is compiled out, as in the release build; where one
    guards an internal invariant, a lemma shows that its condition holds.
\<close>

section \<open>Collections of rewrite rules\<close>

named_theorems chain_rules \<open>facts on index-linked lists\<close>
named_theorems word_bits \<open>bitwise characterisations of word operations\<close>

section \<open>Results and panics\<close>

type_synonym ('s, 'e, 'a) outcome = "('s \<times> ('e + 'a)) option"

definition ok_or :: "'a option \<Rightarrow> 'e \<Rightarrow> 'e + 'a" where
  "ok_or x e = (case x of None \<Rightarrow> Inl e | Some v \<Rightarrow> Inr v)"

definition is_ok :: "'e + 'a \<Rightarrow> bool" where
  "is_ok r = (case r of Inl _ \<Rightarrow> False | Inr _ \<Rightarrow> True)"

lemma is_ok_simps [simp]:
  "is_ok (Inr x)"
  "\<not> is_ok (Inl e)"
  by (simp_all add: is_ok_def)

text \<open>A loop over a list whose body may panic.\<close>

fun fold_opt :: "('a \<Rightarrow> 's \<Rightarrow> 's option) \<Rightarrow> 'a list \<Rightarrow> 's \<Rightarrow> 's option" where
  "fold_opt f [] s = Some s"
| "fold_opt f (x # xs) s = Option.bind (f x s) (fold_opt f xs)"

lemma fold_opt_append: "fold_opt f (xs @ ys) s = Option.bind (fold_opt f xs s) (fold_opt f ys)"
proof (induction xs arbitrary: s)
  case (Cons x xs)
  then show ?case by (cases "f x s") auto
qed simp

text \<open>\<open>xs.get(i)\<close>, and the indexing \<open>xs[i]\<close> whose panic is \<^term>\<open>None\<close>.\<close>

definition nth_opt :: "'a list \<Rightarrow> nat \<Rightarrow> 'a option" where
  "nth_opt xs i = (if i < length xs then Some (xs ! i) else None)"

lemma nth_opt_Some [simp]: "i < length xs \<Longrightarrow> nth_opt xs i = Some (xs ! i)"
  by (simp add: nth_opt_def)

lemma nth_opt_None [simp]: "length xs \<le> i \<Longrightarrow> nth_opt xs i = None"
  by (simp add: nth_opt_def)

lemma nth_opt_eq_Some_iff: "nth_opt xs i = Some x \<longleftrightarrow> i < length xs \<and> xs ! i = x"
  by (simp add: nth_opt_def)

lemma nth_opt_eq_None_iff: "nth_opt xs i = None \<longleftrightarrow> length xs \<le> i"
  by (auto simp: nth_opt_def)

lemma nth_opt_update:
  "nth_opt (xs[j := v]) i = (if i = j \<and> i < length xs then Some v else nth_opt xs i)"
  by (simp add: nth_opt_def)

lemma nth_update_any: "xs[i := v] ! j = (if i = j \<and> i < length xs then v else xs ! j)"
  by (cases "i < length xs") (auto simp: list_update_beyond)

section \<open>Arithmetic of \<open>usize\<close>\<close>

text \<open>
  A \<open>usize\<close> value is a natural number below \<open>2^64\<close>; the operations of the
  source that can leave that range are written out.
\<close>

definition usize_max :: nat where
  "usize_max = 2 ^ 64 - 1"

definition saturating_add :: "nat \<Rightarrow> nat \<Rightarrow> nat" where
  "saturating_add a b = min (a + b) usize_max"

definition saturating_mul :: "nat \<Rightarrow> nat \<Rightarrow> nat" where
  "saturating_mul a b = min (a * b) usize_max"

text \<open>\<open>saturating_sub\<close> is the truncated subtraction of the naturals.\<close>

definition checked_add :: "nat \<Rightarrow> nat \<Rightarrow> nat option" where
  "checked_add a b = (if a + b \<le> usize_max then Some (a + b) else None)"

definition checked_mul :: "nat \<Rightarrow> nat \<Rightarrow> nat option" where
  "checked_mul a b = (if a * b \<le> usize_max then Some (a * b) else None)"

definition wrapping_add :: "nat \<Rightarrow> nat \<Rightarrow> nat" where
  "wrapping_add a b = (a + b) mod 2 ^ 64"

lemma saturating_add_exact: "a + b \<le> usize_max \<Longrightarrow> saturating_add a b = a + b"
  by (simp add: saturating_add_def)

lemma saturating_add_ge: "a \<le> usize_max \<Longrightarrow> a \<le> saturating_add a b"
  by (simp add: saturating_add_def)

lemma saturating_mul_exact: "a * b \<le> usize_max \<Longrightarrow> saturating_mul a b = a * b"
  by (simp add: saturating_mul_def)

lemma checked_add_eq_Some_iff:
  "checked_add a b = Some c \<longleftrightarrow> c = a + b \<and> a + b \<le> usize_max"
  by (auto simp: checked_add_def)

lemma checked_mul_eq_Some_iff:
  "checked_mul a b = Some c \<longleftrightarrow> c = a * b \<and> a * b \<le> usize_max"
  by (auto simp: checked_mul_def)

lemma wrapping_add_exact: "a + b \<le> usize_max \<Longrightarrow> wrapping_add a b = a + b"
  by (simp add: wrapping_add_def usize_max_def)

section \<open>Index-linked lists\<close>

text \<open>
  The tables keep their free lists and their sibling lists as indices into an
  array: a head index and, per slot, the index of the next one.
  \<^term>\<open>chain nx h xs\<close> says that following \<open>nx\<close> from the head \<open>h\<close> visits
  exactly the indices \<open>xs\<close>, in that order, and then ends.
\<close>

fun chain :: "(nat \<Rightarrow> nat option) \<Rightarrow> nat option \<Rightarrow> nat list \<Rightarrow> bool" where
  "chain nx h [] \<longleftrightarrow> h = None"
| "chain nx h (x # xs) \<longleftrightarrow> h = Some x \<and> chain nx (nx x) xs"

lemma chain_None [simp, chain_rules]: "chain nx None xs \<longleftrightarrow> xs = []"
  by (cases xs) auto

lemma chain_Some [chain_rules]:
  "chain nx (Some x) xs \<longleftrightarrow> (\<exists>ys. xs = x # ys \<and> chain nx (nx x) ys)"
  by (cases xs) auto

lemma chain_cong [chain_rules]:
  "\<lbrakk>chain nx h xs; \<And>x. x \<in> set xs \<Longrightarrow> nx' x = nx x\<rbrakk> \<Longrightarrow> chain nx' h xs"
  by (induction xs arbitrary: h) auto

lemma chain_unique [chain_rules]: "\<lbrakk>chain nx h xs; chain nx h ys\<rbrakk> \<Longrightarrow> xs = ys"
proof (induction xs arbitrary: h ys)
  case (Cons x xs)
  then show ?case by (cases ys) auto
qed auto

lemma chain_append [chain_rules]:
  "chain nx h (xs @ y # ys) \<Longrightarrow> chain nx (Some y) (y # ys)"
  by (induction xs arbitrary: h) auto

lemma chain_distinct [chain_rules]: "chain nx h xs \<Longrightarrow> distinct xs"
proof (induction xs arbitrary: h)
  case (Cons x xs)
  have "x \<notin> set xs"
  proof
    assume "x \<in> set xs"
    then obtain as bs where "xs = as @ x # bs"
      by (auto simp: in_set_conv_decomp)
    with Cons.prems have "chain nx (Some x) (x # xs)" "chain nx (Some x) (x # bs)"
      using chain_append [of nx h "x # as" x bs] by auto
    then have "x # xs = x # bs" by (rule chain_unique)
    then show False using \<open>xs = as @ x # bs\<close> by simp
  qed
  with Cons show ?case by auto
qed simp

lemma chain_prepend [chain_rules]:
  "\<lbrakk>chain nx h xs; y \<notin> set xs\<rbrakk> \<Longrightarrow> chain (nx(y := h)) (Some y) (y # xs)"
  by (auto intro: chain_cong)

text \<open>Unlinking an inner element by redirecting its predecessor.\<close>

lemma chain_nx_in:
  "\<lbrakk>chain nx h xs; c \<in> set xs; nx c = Some y\<rbrakk> \<Longrightarrow> y \<in> set xs"
proof (induction xs arbitrary: h)
  case (Cons x xs)
  then show ?case by (cases xs) auto
qed simp

lemma chain_unlink [chain_rules]:
  assumes "chain nx h xs" "c \<in> set xs" "nx c = Some y"
  shows "chain (nx(c := nx y)) h (remove1 y xs)"
  using assms
proof (induction xs arbitrary: h)
  case (Cons x xs)
  have dist: "distinct (x # xs)" using Cons.prems(1) by (rule chain_distinct)
  show ?case
  proof (cases "c = x")
    case True
    with Cons.prems obtain ys where ys: "xs = y # ys" by (cases xs) auto
    have "chain (nx(c := nx y)) (nx y) ys"
      using Cons.prems(1) ys dist True by (auto intro: chain_cong [of nx])
    then show ?thesis using Cons.prems(1) ys dist True by (auto simp: fun_upd_def)
  next
    case False
    with Cons have "c \<in> set xs" "chain nx (nx x) xs" by auto
    then have "y \<in> set xs" using Cons.prems(3) by (blast intro: chain_nx_in)
    then have "x \<noteq> y" using dist by auto
    then show ?thesis using Cons False by auto
  qed
qed simp

lemma chain_pred:
  "\<lbrakk>chain nx h xs; y \<in> set xs; h \<noteq> Some y\<rbrakk> \<Longrightarrow> \<exists>c\<in>set xs. nx c = Some y"
proof (induction xs arbitrary: h)
  case (Cons x xs)
  then show ?case by (cases "nx x = Some y") auto
qed simp

text \<open>
  What the tables promise of such a list is the set of indices it visits: a free
  list visits exactly the empty slots, a sibling list exactly the children of
  its parent.
\<close>

definition linked :: "(nat \<Rightarrow> nat option) \<Rightarrow> nat option \<Rightarrow> nat set \<Rightarrow> bool" where
  "linked nx h E \<longleftrightarrow> (\<exists>fs. chain nx h fs \<and> set fs = E)"

lemma linked_None_iff [simp]: "linked nx None E \<longleftrightarrow> E = {}"
  by (auto simp: linked_def)

lemma linked_head: "linked nx (Some h) E \<Longrightarrow> h \<in> E"
  by (auto simp: linked_def chain_Some)

lemma linked_pop:
  assumes "linked nx (Some h) E"
  shows "linked (nx(h := None)) (nx h) (E - {h})"
proof -
  from assms obtain fs where fs: "chain nx (nx h) fs" "E = insert h (set fs)" "distinct (h # fs)"
    using chain_distinct [of nx "Some h"] by (fastforce simp: linked_def chain_Some)
  have "chain (nx(h := None)) (nx h) fs"
    by (rule chain_cong [OF fs(1)]) (use fs(3) in auto)
  then show ?thesis using fs by (auto simp: linked_def)
qed

lemma linked_push:
  "\<lbrakk>linked nx h E; i \<notin> E\<rbrakk> \<Longrightarrow> linked (nx(i := h)) (Some i) (insert i E)"
  unfolding linked_def by (metis chain_prepend list.simps(15))

lemma linked_nonempty: "\<lbrakk>linked nx h E; h = None\<rbrakk> \<Longrightarrow> E = {}"
  by simp

lemma linked_cong:
  "\<lbrakk>linked nx h E; \<And>x. x \<in> E \<Longrightarrow> nx' x = nx x\<rbrakk> \<Longrightarrow> linked nx' h E"
  unfolding linked_def by (metis chain_cong)

lemma linked_tail:
  assumes "linked nx (Some h) E"
  shows "linked nx (nx h) (E - {h})"
  using linked_cong [OF linked_pop [OF assms], of nx] by simp

lemma linked_unlink:
  assumes "linked nx h E" "c \<in> E" "nx c = Some y"
  shows "linked (nx(c := nx y)) h (E - {y})"
proof -
  from assms obtain fs where fs: "chain nx h fs" "set fs = E" by (auto simp: linked_def)
  then have "chain (nx(c := nx y)) h (remove1 y fs)" "distinct fs"
    using assms chain_unlink chain_distinct by blast+
  then show ?thesis using fs(2) unfolding linked_def by (metis set_remove1_eq)
qed

lemma linked_pred:
  "\<lbrakk>linked nx h E; y \<in> E; h \<noteq> Some y\<rbrakk> \<Longrightarrow> \<exists>c\<in>E. nx c = Some y"
  unfolding linked_def using chain_pred by blast

lemma linked_upt:
  "linked (\<lambda>i. if i < n \<and> Suc i < n then Some (Suc i) else None)
     (if k < n then Some k else None) {k..<n}"
proof -
  have "k \<le> n \<Longrightarrow> chain (\<lambda>i. if i < n \<and> Suc i < n then Some (Suc i) else None)
    (if k < n then Some k else None) [k..<n]" for k
  proof (induction "n - k" arbitrary: k)
    case (Suc d)
    then have "k < n" by simp
    then show ?case using Suc by (simp add: upt_conv_Cons)
  qed simp
  from this [of k] show ?thesis
    by (cases "k \<le> n") (auto simp: linked_def intro!: exI [of _ "[k..<n]"])
qed

text \<open>Bounded index sets, for the counting arguments.\<close>

lemma distinct_subset_length: "\<lbrakk>distinct xs; set xs \<subseteq> {..<n}\<rbrakk> \<Longrightarrow> length xs \<le> n"
  using card_mono [of "{..<n}" "set xs"] by (simp add: distinct_card)

end
