(* ===== verification/Store_Spec.thy ===== *)
theory Store_Spec
  imports Prelude
begin

text \<open>
  The contract of a generational object store, as its clients use it: values
  are put in under a fresh handle, read through the handle, and taken out again,
  after which the handle is stale. \<open>gen_store\<close> is the part the capability table
  and the kernel-object arenas share; a store may refuse to remove a live value
  (the capability table refuses while descendants exist). \<open>total_store\<close> adds that
  every live value can be removed, which the arenas promise.

  The client lemmas are proved here once: a put followed by a take gives the
  store back, and a value moved from one store to another is afterwards in the
  second and not in the first, with every other handle of both unaffected.
\<close>

section \<open>Interface\<close>

locale gen_store =
  fixes inv :: "'s \<Rightarrow> bool"
    and get :: "'s \<Rightarrow> 'h \<Rightarrow> 'v option"
    and put :: "'s \<Rightarrow> 'v \<Rightarrow> ('s \<times> 'h) option"
    and take_out :: "'s \<Rightarrow> 'h \<Rightarrow> ('s \<times> 'v) option"
    and full :: "'s \<Rightarrow> bool"
  assumes put_inv: "\<lbrakk>inv s; put s v = Some (s', h)\<rbrakk> \<Longrightarrow> inv s'"
    and put_get: "\<lbrakk>inv s; put s v = Some (s', h)\<rbrakk> \<Longrightarrow> get s h = None \<and> get s' = (get s)(h \<mapsto> v)"
    and put_full: "inv s \<Longrightarrow> put s v = None \<longleftrightarrow> full s"
    and take_inv: "\<lbrakk>inv s; take_out s h = Some (s', v)\<rbrakk> \<Longrightarrow> inv s'"
    and take_get: "\<lbrakk>inv s; take_out s h = Some (s', v)\<rbrakk> \<Longrightarrow> get s h = Some v \<and> get s' = (get s)(h := None)"
    and take_room: "\<lbrakk>inv s; take_out s h = Some (s', v)\<rbrakk> \<Longrightarrow> \<not> full s'"
begin

lemma put_then_get: "\<lbrakk>inv s; put s v = Some (s', h)\<rbrakk> \<Longrightarrow> get s' h = Some v"
  by (simp add: put_get)

lemma put_keeps: "\<lbrakk>inv s; put s v = Some (s', h); get s k = Some w\<rbrakk> \<Longrightarrow> get s' k = Some w"
  using put_get by fastforce

lemma take_stale: "\<lbrakk>inv s; take_out s h = Some (s', v)\<rbrakk> \<Longrightarrow> get s' h = None"
  by (simp add: take_get)

lemma take_keeps:
  "\<lbrakk>inv s; take_out s h = Some (s', v); k \<noteq> h\<rbrakk> \<Longrightarrow> get s' k = get s k"
  using take_get by fastforce

lemma put_take:
  assumes "inv s" "put s v = Some (s', h)" "take_out s' h = Some (s'', w)"
  shows "w = v \<and> get s'' = get s"
proof -
  have inv': "inv s'" using assms put_inv by blast
  note t = take_get [OF inv' assms(3)] and p = put_get [OF assms(1,2)]
  have "get s' h = Some v" using p by simp
  then show ?thesis using t p by (simp add: fun_upd_idem)
qed

lemma reput_after_take:
  "\<lbrakk>inv s; take_out s h = Some (s', v)\<rbrakk> \<Longrightarrow> \<exists>s'' k. put s' w = Some (s'', k)"
  using take_inv [of s h s' v] take_room [of s h s' v] put_full [of s' w]
  by (cases "put s' w") auto

text \<open>A move between two stores: the value leaves one and enters the other.\<close>

lemma move_exclusive:
  assumes "inv a" "inv b" "take_out a h = Some (a', v)" "put b v = Some (b', k)"
  shows "get a' = (get a)(h := None)" "get b' = (get b)(k \<mapsto> v)" "get b k = None"
    and "get a h = Some v" "inv a'" "inv b'"
  using assms put_get take_get put_inv take_inv by blast+

lemma move_possible:
  assumes "inv a" "inv b" "take_out a h = Some (a', v)" "\<not> full b"
  shows "\<exists>b' k. put b v = Some (b', k)"
  using assms put_full [of b v] by fastforce

end

locale total_store = gen_store +
  assumes take_live: "\<lbrakk>inv s; get s h = Some v\<rbrakk> \<Longrightarrow> \<exists>s'. take_out s h = Some (s', v)"
begin

lemma take_iff_live: "inv s \<Longrightarrow> (\<exists>s' v. take_out s h = Some (s', v)) \<longleftrightarrow> get s h \<noteq> None"
  using take_live take_get by fastforce

lemma double_take: "\<lbrakk>inv s; take_out s h = Some (s', v)\<rbrakk> \<Longrightarrow> take_out s' h = None"
  using take_get take_inv by (metis fun_upd_same not_None_eq option.distinct(1) surj_pair)

end

text \<open>An operation's successful result, with errors and panics read as refusal.\<close>

definition ok_part :: "('s, 'e, 'a) outcome \<Rightarrow> ('s \<times> 'a) option" where
  "ok_part r = (case r of Some (s, Inr x) \<Rightarrow> Some (s, x) | _ \<Rightarrow> None)"

lemma ok_part_eq_Some_iff [simp]: "ok_part r = Some (s, x) \<longleftrightarrow> r = Some (s, Inr x)"
  by (auto simp: ok_part_def split: option.splits sum.splits)

definition some_part :: "'s \<times> 'a option \<Rightarrow> ('s \<times> 'a) option" where
  "some_part r = (case r of (s, Some x) \<Rightarrow> Some (s, x) | _ \<Rightarrow> None)"

lemma some_part_eq_Some_iff [simp]: "some_part r = Some (s, x) \<longleftrightarrow> r = (s, Some x)"
  by (auto simp: some_part_def split: prod.splits option.splits)

end
