(* ===== verification/Arena.thy ===== *)
theory Arena
  imports Store_Spec
begin

text \<open>
  The generic bounded arena of kernel objects (\<open>kernel/src/obj/arena.rs\<close>): an
  array of slots, each empty or holding a value, the empty ones threaded into a
  free list. A slot is named by its index and its generation, and every free
  bumps the generation, so that the names of freed objects go stale.

  The theory states the contract of such a store as the locale
  \<open>gen_store\<close> and its extension \<open>total_store\<close>, shows that the arena satisfies
  it, and bounds how long a stale name stays stale: a name resolves again only
  after \<open>2^32\<close> frees of its slot.
\<close>

section \<open>Data\<close>

record slot_id =
  si_index :: nat
  si_generation :: "32 word"

record 'a arena_slot =
  as_entry :: "'a option"
  as_generation :: "32 word"
  as_next_free :: "nat option"

record 'a arena =
  ar_slots :: "'a arena_slot list"
  ar_free_head :: "nat option"

definition first_slot :: slot_id where
  "first_slot = \<lparr>si_index = 0, si_generation = 0\<rparr>"

section \<open>Operations\<close>

definition arena_new :: "nat \<Rightarrow> 'a arena" where
  "arena_new n =
     \<lparr>ar_slots = map (\<lambda>i. \<lparr>as_entry = None, as_generation = 0,
                            as_next_free = (if Suc i < n then Some (Suc i) else None)\<rparr>) [0..<n],
      ar_free_head = (if 0 < n then Some 0 else None)\<rparr>"

definition arena_allocate :: "'a arena \<Rightarrow> 'a \<Rightarrow> 'a arena \<times> slot_id option" where
  "arena_allocate a v =
     (case ar_free_head a of
        None \<Rightarrow> (a, None)
      | Some h \<Rightarrow>
          (case nth_opt (ar_slots a) h of
             None \<Rightarrow> (a, None)
           | Some s \<Rightarrow>
               (a\<lparr>ar_slots := (ar_slots a)[h := s\<lparr>as_entry := Some v, as_next_free := None\<rparr>],
                  ar_free_head := as_next_free s\<rparr>,
                Some \<lparr>si_index = h, si_generation = as_generation s\<rparr>)))"

definition arena_free :: "'a arena \<Rightarrow> slot_id \<Rightarrow> 'a arena \<times> 'a option" where
  "arena_free a sid =
     (case nth_opt (ar_slots a) (si_index sid) of
        None \<Rightarrow> (a, None)
      | Some s \<Rightarrow>
          if as_generation s \<noteq> si_generation sid then (a, None)
          else
            (case as_entry s of
               None \<Rightarrow> (a, None)
             | Some v \<Rightarrow>
                 (a\<lparr>ar_slots := (ar_slots a)[si_index sid :=
                        s\<lparr>as_entry := None, as_generation := as_generation s + 1,
                          as_next_free := ar_free_head a\<rparr>],
                    ar_free_head := Some (si_index sid)\<rparr>,
                  Some v)))"

definition arena_get :: "'a arena \<Rightarrow> slot_id \<Rightarrow> 'a option" where
  "arena_get a sid =
     (case nth_opt (ar_slots a) (si_index sid) of
        None \<Rightarrow> None
      | Some s \<Rightarrow> if as_generation s \<noteq> si_generation sid then None else as_entry s)"

text \<open>
  \<open>get_mut\<close> hands out a mutable reference; here it takes the update that the
  holder of the reference performs and returns the arena after it.
\<close>

definition arena_get_mut :: "'a arena \<Rightarrow> slot_id \<Rightarrow> ('a \<Rightarrow> 'a) \<Rightarrow> 'a arena option" where
  "arena_get_mut a sid f =
     (case nth_opt (ar_slots a) (si_index sid) of
        None \<Rightarrow> None
      | Some s \<Rightarrow>
          if as_generation s \<noteq> si_generation sid then None
          else
            (case as_entry s of
               None \<Rightarrow> None
             | Some v \<Rightarrow>
                 Some (a\<lparr>ar_slots := (ar_slots a)[si_index sid := s\<lparr>as_entry := Some (f v)\<rparr>]\<rparr>)))"

definition arena_contains :: "'a arena \<Rightarrow> slot_id \<Rightarrow> bool" where
  "arena_contains a sid \<longleftrightarrow> arena_get a sid \<noteq> None"

definition arena_is_full :: "'a arena \<Rightarrow> bool" where
  "arena_is_full a \<longleftrightarrow> ar_free_head a = None"

section \<open>Well-formedness\<close>

text \<open>The free list visits exactly the empty slots, each once.\<close>

definition ar_next :: "'a arena \<Rightarrow> nat \<Rightarrow> nat option" where
  "ar_next a i = (case nth_opt (ar_slots a) i of None \<Rightarrow> None | Some s \<Rightarrow> as_next_free s)"

definition ar_empty :: "'a arena \<Rightarrow> nat set" where
  "ar_empty a = {i. i < length (ar_slots a) \<and> as_entry (ar_slots a ! i) = None}"

definition arena_wf :: "nat \<Rightarrow> 'a arena \<Rightarrow> bool" where
  "arena_wf n a \<longleftrightarrow>
     length (ar_slots a) = n \<and> linked (ar_next a) (ar_free_head a) (ar_empty a)"

lemma ar_next_new:
  "ar_next (arena_new n) = (\<lambda>i. if i < n \<and> Suc i < n then Some (Suc i) else None)"
  by (auto simp: ar_next_def arena_new_def nth_opt_def fun_eq_iff)

lemma arena_new_wf: "arena_wf n (arena_new n :: 'a arena)"
proof -
  have "ar_empty (arena_new n :: 'a arena) = {0..<n}" "length (ar_slots (arena_new n :: 'a arena)) = n"
       "ar_free_head (arena_new n :: 'a arena) = (if 0 < n then Some 0 else None)"
    by (auto simp: ar_empty_def arena_new_def)
  then show ?thesis
    using linked_upt [of n 0] by (simp only: arena_wf_def ar_next_new simp_thms)
qed

lemma arena_allocate_wf:
  assumes "arena_wf n a"
  shows "arena_wf n (fst (arena_allocate a v))"
proof (cases "ar_free_head a")
  case None
  then show ?thesis using assms by (simp add: arena_allocate_def)
next
  case (Some h)
  let ?a = "fst (arena_allocate a v)"
  have fl: "linked (ar_next a) (Some h) (ar_empty a)" "length (ar_slots a) = n"
    using assms Some by (simp_all add: arena_wf_def)
  then have h: "h < length (ar_slots a)" by (auto simp: ar_empty_def dest: linked_head)
  have "ar_next ?a = (ar_next a)(h := None)" "ar_free_head ?a = ar_next a h"
    using h Some by (auto simp: arena_allocate_def ar_next_def nth_opt_update)
  moreover have "ar_empty ?a = ar_empty a - {h}" "length (ar_slots ?a) = n"
    using h Some fl(2) by (auto simp: arena_allocate_def ar_empty_def nth_list_update split: if_splits)
  ultimately show ?thesis
    using linked_pop [OF fl(1)] by (simp add: arena_wf_def)
qed

lemma arena_get_iff:
  "arena_get a sid = Some v \<longleftrightarrow>
     si_index sid < length (ar_slots a) \<and>
     as_generation (ar_slots a ! si_index sid) = si_generation sid \<and>
     as_entry (ar_slots a ! si_index sid) = Some v"
  by (auto simp: arena_get_def nth_opt_def)

lemma arena_free_stale: "arena_get a sid = None \<Longrightarrow> arena_free a sid = (a, None)"
  by (auto simp: arena_get_def arena_free_def split: option.splits if_splits)

lemma arena_free_live:
  "arena_get a sid = Some v \<Longrightarrow>
   arena_free a sid =
     (a\<lparr>ar_slots := (ar_slots a)[si_index sid :=
          (ar_slots a ! si_index sid)\<lparr>as_entry := None, as_generation := si_generation sid + 1,
            as_next_free := ar_free_head a\<rparr>],
        ar_free_head := Some (si_index sid)\<rparr>, Some v)"
  by (simp add: arena_get_iff arena_free_def)

lemma arena_free_wf:
  assumes "arena_wf n a"
  shows "arena_wf n (fst (arena_free a sid))"
proof (cases "arena_get a sid")
  case None
  then show ?thesis using assms by (simp add: arena_free_stale)
next
  case (Some v)
  let ?i = "si_index sid" and ?a = "fst (arena_free a sid)"
  have fl: "linked (ar_next a) (ar_free_head a) (ar_empty a)" "length (ar_slots a) = n"
    using assms by (simp_all add: arena_wf_def)
  have live: "?i < length (ar_slots a)" "as_entry (ar_slots a ! ?i) = Some v"
    using Some by (auto simp: arena_get_iff)
  have "ar_next ?a = (ar_next a)(?i := ar_free_head a)" "ar_free_head ?a = Some ?i"
    using live by (auto simp: arena_free_live [OF Some] ar_next_def nth_opt_update)
  moreover have "ar_empty ?a = insert ?i (ar_empty a)" "?i \<notin> ar_empty a"
       "length (ar_slots ?a) = n"
    using live fl(2)
    by (auto simp: arena_free_live [OF Some] ar_empty_def nth_list_update split: if_splits)
  ultimately show ?thesis
    using linked_push [OF fl(1)] by (simp add: arena_wf_def)
qed

lemma arena_get_mut_wf:
  "\<lbrakk>arena_wf n a; arena_get_mut a sid f = Some a'\<rbrakk> \<Longrightarrow> arena_wf n a'"
proof -
  assume wf: "arena_wf n a" and m: "arena_get_mut a sid f = Some a'"
  have "ar_next a' = ar_next a" "ar_empty a' = ar_empty a" "ar_free_head a' = ar_free_head a"
       "length (ar_slots a') = length (ar_slots a)"
    using m by (auto simp: arena_get_mut_def ar_next_def ar_empty_def nth_opt_def fun_eq_iff
        nth_list_update split: option.splits if_splits)
  then show ?thesis using wf by (simp add: arena_wf_def)
qed

section \<open>The arena is a generational store\<close>

lemma arena_allocate_iff:
  assumes "arena_wf n a"
  shows "arena_allocate a v = (a', Some sid) \<longleftrightarrow>
    ar_free_head a = Some (si_index sid) \<and>
    sid = \<lparr>si_index = si_index sid, si_generation = as_generation (ar_slots a ! si_index sid)\<rparr> \<and>
    a' = a\<lparr>ar_slots := (ar_slots a)[si_index sid :=
            (ar_slots a ! si_index sid)\<lparr>as_entry := Some v, as_next_free := None\<rparr>],
          ar_free_head := as_next_free (ar_slots a ! si_index sid)\<rparr>"
proof -
  have "h < length (ar_slots a)" if "ar_free_head a = Some h" for h
    using assms that by (auto simp: arena_wf_def ar_empty_def dest: linked_head)
  then show ?thesis by (auto simp: arena_allocate_def split: option.split)
qed

lemma arena_allocate_empty_slot:
  assumes "arena_wf n a" "ar_free_head a = Some i"
  shows "i < length (ar_slots a)" "as_entry (ar_slots a ! i) = None"
  using assms by (auto simp: arena_wf_def ar_empty_def dest: linked_head)

lemma arena_get_update_slot:
  assumes "i < length (ar_slots a)"
  shows "arena_get (a\<lparr>ar_slots := (ar_slots a)[i := s], ar_free_head := fh\<rparr>) k =
    (if si_index k = i then (if as_generation s = si_generation k then as_entry s else None)
     else arena_get a k)"
  using assms by (auto simp: arena_get_def nth_opt_update)

lemma slot_id_eq_iff: "(k :: slot_id) = k' \<longleftrightarrow> si_index k = si_index k' \<and> si_generation k = si_generation k'"
  by (cases k; cases k') simp

lemma arena_allocate_get:
  assumes "arena_wf n a" "arena_allocate a v = (a', Some sid)"
  shows "arena_get a sid = None" "arena_get a' = (arena_get a)(sid \<mapsto> v)"
proof -
  from assms have fh: "ar_free_head a = Some (si_index sid)"
    and gen: "si_generation sid = as_generation (ar_slots a ! si_index sid)"
    and a': "a' = a\<lparr>ar_slots := (ar_slots a)[si_index sid :=
            (ar_slots a ! si_index sid)\<lparr>as_entry := Some v, as_next_free := None\<rparr>],
          ar_free_head := as_next_free (ar_slots a ! si_index sid)\<rparr>"
    by (auto simp: arena_allocate_iff [OF assms(1)] slot_id_eq_iff)
  note slot = arena_allocate_empty_slot [OF assms(1) fh]
  have "arena_get a k = None" if "si_index k = si_index sid" for k
    using slot that by (simp add: arena_get_def)
  then show "arena_get a sid = None" "arena_get a' = (arena_get a)(sid \<mapsto> v)"
    unfolding a' using slot gen by (auto simp: arena_get_update_slot slot_id_eq_iff fun_eq_iff)
qed

lemma arena_free_get:
  assumes "arena_free a sid = (a', Some v)"
  shows "arena_get a sid = Some v" "arena_get a' = (arena_get a)(sid := None)"
proof -
  show live: "arena_get a sid = Some v"
    using assms by (cases "arena_get a sid") (auto simp: arena_free_stale arena_free_live)
  have "arena_get a k = None" if "si_index k = si_index sid" "k \<noteq> sid" for k
    using live that by (auto simp: arena_get_def nth_opt_def slot_id_eq_iff split: if_splits)
  moreover have "si_index sid < length (ar_slots a)" using live by (simp add: arena_get_iff)
  ultimately show "arena_get a' = (arena_get a)(sid := None)"
    using assms by (auto simp: arena_free_live [OF live] arena_get_update_slot fun_eq_iff)
qed

lemma arena_allocate_full_iff:
  assumes "arena_wf n a"
  shows "snd (arena_allocate a v) = None \<longleftrightarrow> arena_is_full a"
  using arena_allocate_empty_slot [OF assms]
  by (auto simp: arena_allocate_def arena_is_full_def split: option.splits)

lemma arena_get_mut_get:
  assumes "arena_get a sid = Some v"
  shows "\<exists>a'. arena_get_mut a sid f = Some a' \<and> arena_get a' = (arena_get a)(sid \<mapsto> f v)"
proof -
  let ?i = "si_index sid"
  let ?a = "a\<lparr>ar_slots := (ar_slots a)[?i := (ar_slots a ! ?i)\<lparr>as_entry := Some (f v)\<rparr>]\<rparr>"
  have i: "?i < length (ar_slots a)" "as_generation (ar_slots a ! ?i) = si_generation sid"
      "as_entry (ar_slots a ! ?i) = Some v"
    using assms by (simp_all add: arena_get_iff)
  have "arena_get_mut a sid f = Some ?a" using i by (simp add: arena_get_mut_def)
  moreover have "arena_get ?a = (arena_get a)(sid \<mapsto> f v)"
    using i by (auto simp: arena_get_def nth_opt_update slot_id_eq_iff fun_eq_iff)
  ultimately show ?thesis by blast
qed

interpretation arena: total_store "arena_wf n" arena_get
  "\<lambda>a v. some_part (arena_allocate a v)" "\<lambda>a sid. some_part (arena_free a sid)" arena_is_full
proof (unfold_locales, goal_cases)
  case (1 s v s' h)
  then show ?case using arena_allocate_wf [of n s v] by simp
next
  case (2 s v s' h)
  then show ?case using arena_allocate_get by fastforce
next
  case (3 s v)
  then show ?case
    using arena_allocate_full_iff [of n s v]
    by (auto simp: some_part_def split: prod.splits option.splits)
next
  case (4 s h s' v)
  then show ?case using arena_free_wf [of n s h] by simp
next
  case (5 s h s' v)
  then show ?case using arena_free_get by fastforce
next
  case (6 s h s' v)
  then have "ar_free_head s' = Some (si_index h)"
    using arena_free_get(1) [of s h s' v] by (auto simp: arena_free_live)
  then show ?case by (simp add: arena_is_full_def)
next
  case (7 s h v)
  then show ?case by (simp add: arena_free_live)
qed

section \<open>How long a stale name stays stale\<close>

datatype 'a arena_op =
    Allocate 'a
  | Free slot_id
  | Get_mut slot_id "'a \<Rightarrow> 'a"

fun arena_step :: "'a arena \<Rightarrow> 'a arena_op \<Rightarrow> 'a arena" where
  "arena_step a (Allocate v) = fst (arena_allocate a v)"
| "arena_step a (Free sid) = fst (arena_free a sid)"
| "arena_step a (Get_mut sid f) = (case arena_get_mut a sid f of None \<Rightarrow> a | Some a' \<Rightarrow> a')"

definition arena_run :: "'a arena \<Rightarrow> 'a arena_op list \<Rightarrow> 'a arena" where
  "arena_run = foldl arena_step"

definition frees_of :: "nat \<Rightarrow> 'a arena_op list \<Rightarrow> nat" where
  "frees_of i ops = length (filter (\<lambda>w. case w of Free sid \<Rightarrow> si_index sid = i | _ \<Rightarrow> False) ops)"

text \<open>The generation of a slot, and how an operation moves it.\<close>

definition gen_at :: "'a arena \<Rightarrow> nat \<Rightarrow> 32 word" where
  "gen_at a i = as_generation (ar_slots a ! i)"

lemma arena_step_length [simp]: "length (ar_slots (arena_step a w)) = length (ar_slots a)"
  by (cases w) (auto simp: arena_allocate_def arena_free_def arena_get_mut_def
      split: option.splits if_splits)

lemma arena_step_gen:
  assumes "i < length (ar_slots a)"
  shows "\<exists>k \<le> frees_of i [w]. gen_at (arena_step a w) i = gen_at a i + of_nat k"
proof (cases w)
  case (Free sid)
  show ?thesis
  proof (cases "arena_get a sid")
    case None
    then show ?thesis using Free by (auto simp: arena_free_stale intro!: exI [of _ 0])
  next
    case (Some v)
    then have "gen_at (arena_step a w) i = gen_at a i + of_nat (if si_index sid = i then 1 else 0)"
      using Free assms by (auto simp: arena_free_live gen_at_def arena_get_iff nth_list_update)
    then show ?thesis
      using Free by (auto simp: frees_of_def intro!: exI [of _ "if si_index sid = i then 1 else 0"])
  qed
qed (use assms in \<open>auto simp: arena_allocate_def arena_get_mut_def gen_at_def nth_opt_def
      nth_list_update intro!: exI [of _ 0] split: option.splits\<close>)

lemma arena_run_gen:
  assumes "i < length (ar_slots a)"
  shows "\<exists>k \<le> frees_of i ops. gen_at (arena_run a ops) i = gen_at a i + of_nat k"
  using assms
proof (induction ops arbitrary: a)
  case (Cons w ops)
  obtain k where k: "k \<le> frees_of i [w]" "gen_at (arena_step a w) i = gen_at a i + of_nat k"
    using arena_step_gen Cons.prems by blast
  obtain m where "m \<le> frees_of i ops" "gen_at (arena_run (arena_step a w) ops) i = gen_at (arena_step a w) i + of_nat m"
    using Cons.IH [of "arena_step a w"] Cons.prems by auto
  with k show ?case
    by (intro exI [of _ "k + m"]) (auto simp: arena_run_def frees_of_def)
qed (auto simp: arena_run_def intro: exI [of _ 0])

lemma arena_run_wf: "arena_wf n a \<Longrightarrow> arena_wf n (arena_run a ops)"
proof (induction ops arbitrary: a)
  case (Cons w ops)
  have "arena_wf n (arena_step a w)"
    using Cons.prems arena_get_mut_wf
    by (cases w) (auto simp: arena_allocate_wf arena_free_wf split: option.split)
  then show ?case using Cons.IH [of "arena_step a w"] by (simp add: arena_run_def)
qed (simp add: arena_run_def)

text \<open>
  After a slot is freed, its old name does not resolve again, whatever
  allocations, frees and updates follow, as long as fewer than \<open>2^32 - 1\<close> of
  them are frees of that slot (the point at which the 32-bit generation would
  come round).
\<close>

theorem stale_id_never_resolves:
  assumes "arena_free a sid = (a', Some v)"
    and "frees_of (si_index sid) ops < 2 ^ 32 - 1"
  shows "arena_get (arena_run a' ops) sid = None"
proof -
  let ?i = "si_index sid"
  have live: "arena_get a sid = Some v" using assms(1) by (rule arena_free_get)
  then have i: "?i < length (ar_slots a')" "gen_at a' ?i = si_generation sid + 1"
    using assms(1) by (auto simp: arena_free_live arena_get_iff gen_at_def)
  obtain k where k: "k \<le> frees_of ?i ops" "gen_at (arena_run a' ops) ?i = si_generation sid + 1 + of_nat k"
    using arena_run_gen [OF i(1), of ops] i(2) by auto
  have "(of_nat (Suc k) :: 32 word) \<noteq> 0"
    using k(1) assms(2) by (auto simp: word_of_nat_eq_0_iff simp del: of_nat_Suc dest!: dvd_imp_le)
  then have "gen_at (arena_run a' ops) ?i \<noteq> si_generation sid"
    by (simp add: k(2) algebra_simps)
  then show ?thesis by (auto simp: arena_get_def gen_at_def nth_opt_def)
qed

theorem stale_id_never_resolves_witness:
  "\<exists>a'. arena_free (fst (arena_allocate (arena_new 2) (7::nat))) first_slot = (a', Some 7) \<and>
     arena_get (arena_run a' [Allocate 8, Free first_slot, Allocate 9]) first_slot = None"
proof -
  let ?a = "fst (arena_allocate (arena_new 2) (7::nat))"
  have get: "arena_get ?a first_slot = Some 7"
    by (simp add: arena_new_def arena_allocate_def arena_get_def first_slot_def nth_opt_def)
  obtain a' where a': "arena_free ?a first_slot = (a', Some 7)"
    using arena_free_live [OF get] by blast
  have "frees_of (si_index first_slot) [Allocate (8::nat), Free first_slot, Allocate 9] < 2 ^ 32 - 1"
    by (simp add: frees_of_def)
  then show ?thesis using stale_id_never_resolves [OF a'] a' by blast
qed

end
