(* ===== verification/Rights.thy ===== *)
theory Rights
  imports Prelude
begin

text \<open>
  Capability rights (\<open>kernel/src/cap/rights.rs\<close>): a 32-bit flag set with
  union, intersection, difference and the subset test \<open>contains\<close> on which every
  authority check of the kernel rests. The lemmas show that \<open>contains\<close> is the
  subset order on the flags and that rights built from untrusted bits stay
  inside the known flags.
\<close>

unbundle bit_operations_syntax

type_synonym cap_rights = "32 word"

section \<open>The flags\<close>

definition rights_EMPTY :: cap_rights where
  "rights_EMPTY = 0"

definition rights_DUPLICATE :: cap_rights where
  "rights_DUPLICATE = push_bit 0 1"

definition rights_DERIVE :: cap_rights where
  "rights_DERIVE = push_bit 1 1"

definition rights_REVOKE :: cap_rights where
  "rights_REVOKE = push_bit 2 1"

definition rights_TRANSFER :: cap_rights where
  "rights_TRANSFER = push_bit 3 1"

definition rights_SEND :: cap_rights where
  "rights_SEND = push_bit 4 1"

definition rights_RECV :: cap_rights where
  "rights_RECV = push_bit 5 1"

definition rights_NOTIFY :: cap_rights where
  "rights_NOTIFY = push_bit 6 1"

definition rights_CONSOLE_WRITE :: cap_rights where
  "rights_CONSOLE_WRITE = push_bit 7 1"

definition rights_KNOWN_BITS :: cap_rights where
  "rights_KNOWN_BITS =
     rights_DUPLICATE OR rights_DERIVE OR rights_REVOKE OR rights_TRANSFER OR
     rights_SEND OR rights_RECV OR rights_NOTIFY OR rights_CONSOLE_WRITE"

lemmas rights_consts =
  rights_EMPTY_def rights_DUPLICATE_def rights_DERIVE_def rights_REVOKE_def
  rights_TRANSFER_def rights_SEND_def rights_RECV_def rights_NOTIFY_def
  rights_CONSOLE_WRITE_def rights_KNOWN_BITS_def

section \<open>Operations\<close>

definition rights_empty :: cap_rights where
  "rights_empty = rights_EMPTY"

definition rights_from_raw :: "32 word \<Rightarrow> cap_rights" where
  "rights_from_raw bits = bits AND rights_KNOWN_BITS"

definition rights_raw :: "cap_rights \<Rightarrow> 32 word" where
  "rights_raw r = r"

definition rights_contains :: "cap_rights \<Rightarrow> cap_rights \<Rightarrow> bool" where
  "rights_contains self other \<longleftrightarrow> (self AND other) = other"

definition rights_union :: "cap_rights \<Rightarrow> cap_rights \<Rightarrow> cap_rights" where
  "rights_union self other = self OR other"

definition rights_intersection :: "cap_rights \<Rightarrow> cap_rights \<Rightarrow> cap_rights" where
  "rights_intersection self other = self AND other"

definition rights_difference :: "cap_rights \<Rightarrow> cap_rights \<Rightarrow> cap_rights" where
  "rights_difference self other = self AND (NOT other)"

definition rights_is_empty :: "cap_rights \<Rightarrow> bool" where
  "rights_is_empty r \<longleftrightarrow> r = 0"

section \<open>\<open>contains\<close> is the subset order\<close>

lemma contains_iff_bits [word_bits]:
  "rights_contains a b \<longleftrightarrow> (\<forall>n. bit b n \<longrightarrow> bit a n)"
proof -
  have "bit a n" if "a AND b = b" "bit b n" for n
    using that by (metis bit_and_iff)
  moreover have "a AND b = b" if "\<forall>n. bit b n \<longrightarrow> bit a n"
    using that by (auto intro!: bit_eqI simp: bit_and_iff)
  ultimately show ?thesis unfolding rights_contains_def by blast
qed

lemma contains_refl [simp, intro]: "rights_contains a a"
  by (simp add: word_bits)

lemma contains_trans [trans]:
  "\<lbrakk>rights_contains a b; rights_contains b c\<rbrakk> \<Longrightarrow> rights_contains a c"
  by (simp add: word_bits)

lemma contains_antisym: "\<lbrakk>rights_contains a b; rights_contains b a\<rbrakk> \<Longrightarrow> a = b"
  by (auto simp: word_bits bit_eq_iff)

lemma contains_empty [simp]: "rights_contains a rights_EMPTY"
  by (simp add: word_bits rights_EMPTY_def)

lemma contains_union_iff:
  "rights_contains a (rights_union b c) \<longleftrightarrow> rights_contains a b \<and> rights_contains a c"
  by (auto simp: word_bits rights_union_def bit_or_iff)

lemma contains_intersection_iff:
  "rights_contains (rights_intersection a b) c \<longleftrightarrow> rights_contains a c \<and> rights_contains b c"
  by (auto simp: word_bits rights_intersection_def bit_and_iff)

lemma difference_disjoint:
  "rights_is_empty (rights_intersection (rights_difference a b) b)"
  by (simp add: rights_is_empty_def rights_intersection_def rights_difference_def
      bit_eq_iff bit_and_iff bit_not_iff)

lemma difference_narrows: "rights_contains a (rights_difference a b)"
  by (simp add: word_bits rights_difference_def bit_and_iff)

lemma from_raw_known: "rights_contains rights_KNOWN_BITS (rights_from_raw b)"
  by (simp add: word_bits rights_from_raw_def bit_and_iff)

lemma from_raw_idem: "rights_from_raw (rights_raw (rights_from_raw b)) = rights_from_raw b"
  by (simp add: rights_from_raw_def rights_raw_def bit_eq_iff bit_and_iff)

lemma from_raw_keeps_known:
  "rights_contains rights_KNOWN_BITS k \<Longrightarrow> rights_contains (rights_from_raw b) k = rights_contains b k"
  by (auto simp: word_bits rights_from_raw_def bit_and_iff)

end
