(* ===== verification/Objects.thy ===== *)
theory Objects
  imports Arena Rights
begin

text \<open>
  The kernel objects and the typed handles that name them
  (\<open>kernel/src/obj/task.rs\<close>, \<open>endpoint.rs\<close>, \<open>notification.rs\<close>, the capacities
  and errors of \<open>obj/mod.rs\<close>, and the address-space handle of
  \<open>mm/address_space.rs\<close>): each kind lives in an arena of its own, and a handle
  of one kind cannot be used for another. The lemmas give the life cycle of an
  object (created, found, destroyed, gone) through the store contract of the
  arena, and the behaviour of a notification word.
\<close>

section \<open>Capacities and errors\<close>

definition TASK_ARENA_CAPACITY :: nat where
  "TASK_ARENA_CAPACITY = 16"

definition ENDPOINT_ARENA_CAPACITY :: nat where
  "ENDPOINT_ARENA_CAPACITY = 16"

definition NOTIFICATION_ARENA_CAPACITY :: nat where
  "NOTIFICATION_ARENA_CAPACITY = 16"

datatype obj_error = ArenaFull | ObjInvalidHandle | StillReachable

section \<open>Typed handles\<close>

datatype task_handle = TaskHandle (th_slot: slot_id)
datatype endpoint_handle = EndpointHandle (eh_slot: slot_id)
datatype notification_handle = NotificationHandle (nh_slot: slot_id)
datatype address_space_handle = AddressSpaceHandle (ash_slot: slot_id)

section \<open>Tasks\<close>

record task =
  task_id :: "32 word"
  task_address_space_handle :: address_space_handle

type_synonym task_arena = "task arena"

definition create_task :: "task_arena \<Rightarrow> task \<Rightarrow> task_arena \<times> (obj_error + task_handle)" where
  "create_task a t = (let (a', r) = arena_allocate a t in (a', ok_or (map_option TaskHandle r) ArenaFull))"

definition destroy_task :: "task_arena \<Rightarrow> task_handle \<Rightarrow> task_arena \<times> (obj_error + task)" where
  "destroy_task a h = (let (a', r) = arena_free a (th_slot h) in (a', ok_or r ObjInvalidHandle))"

definition get_task :: "task_arena \<Rightarrow> task_handle \<Rightarrow> task option" where
  "get_task a h = arena_get a (th_slot h)"

section \<open>Endpoints\<close>

record endpoint =
  ep_id :: "32 word"

type_synonym endpoint_arena = "endpoint arena"

definition create_endpoint ::
    "endpoint_arena \<Rightarrow> endpoint \<Rightarrow> endpoint_arena \<times> (obj_error + endpoint_handle)" where
  "create_endpoint a e = (let (a', r) = arena_allocate a e in (a', ok_or (map_option EndpointHandle r) ArenaFull))"

definition destroy_endpoint ::
    "endpoint_arena \<Rightarrow> endpoint_handle \<Rightarrow> endpoint_arena \<times> (obj_error + endpoint)" where
  "destroy_endpoint a h = (let (a', r) = arena_free a (eh_slot h) in (a', ok_or r ObjInvalidHandle))"

definition get_endpoint :: "endpoint_arena \<Rightarrow> endpoint_handle \<Rightarrow> endpoint option" where
  "get_endpoint a h = arena_get a (eh_slot h)"

section \<open>Notifications\<close>

record notification =
  notif_word :: "64 word"

type_synonym notification_arena = "notification arena"

definition notification_set :: "notification \<Rightarrow> 64 word \<Rightarrow> notification" where
  "notification_set n bits = n\<lparr>notif_word := notif_word n OR bits\<rparr>"

definition notification_consume :: "notification \<Rightarrow> notification \<times> 64 word" where
  "notification_consume n = (n\<lparr>notif_word := 0\<rparr>, notif_word n)"

definition create_notification ::
    "notification_arena \<Rightarrow> notification \<Rightarrow> notification_arena \<times> (obj_error + notification_handle)" where
  "create_notification a n =
     (let (a', r) = arena_allocate a n in (a', ok_or (map_option NotificationHandle r) ArenaFull))"

definition destroy_notification ::
    "notification_arena \<Rightarrow> notification_handle \<Rightarrow> notification_arena \<times> (obj_error + notification)" where
  "destroy_notification a h = (let (a', r) = arena_free a (nh_slot h) in (a', ok_or r ObjInvalidHandle))"

definition get_notification :: "notification_arena \<Rightarrow> notification_handle \<Rightarrow> notification option" where
  "get_notification a h = arena_get a (nh_slot h)"

section \<open>Life cycle\<close>

text \<open>
  The three kinds share one shape, stated for tasks and carried over to the
  others: the handle given by a successful create resolves to the object, no
  other handle is affected, and a destroyed object's handle stops resolving.
\<close>

lemma create_task_ok:
  assumes "arena_wf n a" "create_task a t = (a', Inr h)"
  shows "arena_wf n a'" "get_task a h = None" "get_task a' = (get_task a)(h \<mapsto> t)"
proof -
  have alloc: "some_part (arena_allocate a t) = Some (a', th_slot h)"
    using assms(2) by (auto simp: create_task_def ok_or_def split: prod.splits option.splits)
  note put = arena.put_get [OF assms(1) alloc]
  show "arena_wf n a'" using arena.put_inv [OF assms(1) alloc] .
  show "get_task a h = None" using put by (simp add: get_task_def)
  show "get_task a' = (get_task a)(h \<mapsto> t)"
    using put by (auto simp: get_task_def fun_eq_iff task_handle.expand)
qed

lemma destroy_task_ok:
  assumes "arena_wf n a" "destroy_task a h = (a', Inr t)"
  shows "arena_wf n a'" "get_task a h = Some t" "get_task a' = (get_task a)(h := None)"
proof -
  have free: "some_part (arena_free a (th_slot h)) = Some (a', t)"
    using assms(2) by (auto simp: destroy_task_def ok_or_def split: prod.splits option.splits)
  note take = arena.take_get [OF assms(1) free]
  show "arena_wf n a'" using arena.take_inv [OF assms(1) free] .
  show "get_task a h = Some t" using take by (simp add: get_task_def)
  show "get_task a' = (get_task a)(h := None)"
    using take by (auto simp: get_task_def fun_eq_iff task_handle.expand)
qed

lemma create_endpoint_ok:
  assumes "arena_wf n a" "create_endpoint a e = (a', Inr h)"
  shows "arena_wf n a'" "get_endpoint a h = None" "get_endpoint a' = (get_endpoint a)(h \<mapsto> e)"
proof -
  have alloc: "some_part (arena_allocate a e) = Some (a', eh_slot h)"
    using assms(2) by (auto simp: create_endpoint_def ok_or_def split: prod.splits option.splits)
  note put = arena.put_get [OF assms(1) alloc]
  show "arena_wf n a'" using arena.put_inv [OF assms(1) alloc] .
  show "get_endpoint a h = None" using put by (simp add: get_endpoint_def)
  show "get_endpoint a' = (get_endpoint a)(h \<mapsto> e)"
    using put by (auto simp: get_endpoint_def fun_eq_iff endpoint_handle.expand)
qed

lemma destroy_endpoint_stale:
  "get_endpoint a h = None \<Longrightarrow> destroy_endpoint a h = (a, Inl ObjInvalidHandle)"
  by (simp add: get_endpoint_def destroy_endpoint_def arena_free_stale ok_or_def)

lemma destroy_task_stale: "get_task a h = None \<Longrightarrow> destroy_task a h = (a, Inl ObjInvalidHandle)"
  by (simp add: get_task_def destroy_task_def arena_free_stale ok_or_def)

lemma destroy_notification_stale:
  "get_notification a h = None \<Longrightarrow> destroy_notification a h = (a, Inl ObjInvalidHandle)"
  by (simp add: get_notification_def destroy_notification_def arena_free_stale ok_or_def)

section \<open>Notification words\<close>

lemma notification_set_monotone:
  "bit (notif_word n) i \<or> bit b i \<longleftrightarrow> bit (notif_word (notification_set n b)) i"
  by (simp add: notification_set_def bit_or_iff)

lemma notification_set_idem: "notification_set (notification_set n b) b = notification_set n b"
  by (simp add: notification_set_def or.assoc)

lemma notification_consume_once:
  "snd (notification_consume (fst (notification_consume n))) = 0"
  by (simp add: notification_consume_def)

text \<open>Every bit set since the last consume is delivered by the next one.\<close>

lemma notification_delivers_all:
  "snd (notification_consume (foldl notification_set n bs)) = foldl (OR) (notif_word n) bs"
  by (induction bs arbitrary: n) (simp_all add: notification_consume_def notification_set_def)

end
