(* ===== verification/CapTable.thy ===== *)
theory CapTable
  imports Store_Spec Objects
begin

text \<open>
  The capability table (\<open>kernel/src/cap/table.rs\<close>) and the capability data
  (\<open>cap/mod.rs\<close>), operation by operation. The table is an array of slots; a live
  slot holds a capability and its place in the derivation tree (parent, first
  child, next sibling, depth), the others form the free list. Slot indices are
  naturals (a \<open>u16\<close> in the source, never computed with), generations are 32-bit
  words that wrap.

  The operations are the code's, including the branches that only a corrupted
  table would reach. That these are not reached, and what the operations do to
  the derivation tree, is shown in \<open>CapTree\<close> and \<open>CapTable_Props\<close>.
\<close>

section \<open>Capabilities\<close>

datatype cap_kind =
    KindTask | KindEndpoint | KindNotification | KindAddressSpace | KindDebugConsole
  | KindMemoryRegion

datatype cap_object =
    CapTask task_handle
  | CapEndpoint endpoint_handle
  | CapNotification notification_handle
  | CapAddressSpace address_space_handle
  | CapDebugConsole

fun cap_object_kind :: "cap_object \<Rightarrow> cap_kind" where
  "cap_object_kind (CapTask _) = KindTask"
| "cap_object_kind (CapEndpoint _) = KindEndpoint"
| "cap_object_kind (CapNotification _) = KindNotification"
| "cap_object_kind (CapAddressSpace _) = KindAddressSpace"
| "cap_object_kind CapDebugConsole = KindDebugConsole"

record capability =
  cap_rights :: cap_rights
  cap_object :: cap_object

definition cap_kind :: "capability \<Rightarrow> cap_kind" where
  "cap_kind c = cap_object_kind (cap_object c)"

datatype cap_error =
    CapsExhausted | InvalidHandle | WidenedRights | InsufficientRights
  | DerivationTooDeep | HasChildren | WrongKind

section \<open>The table\<close>

definition CAP_TABLE_CAPACITY :: nat where
  "CAP_TABLE_CAPACITY = 64"

definition MAX_DERIVATION_DEPTH :: nat where
  "MAX_DERIVATION_DEPTH = 16"

record cap_handle =
  ch_index :: nat
  ch_generation :: "32 word"

record slot_entry =
  se_capability :: capability
  se_parent :: "nat option"
  se_first_child :: "nat option"
  se_next_sibling :: "nat option"
  se_depth :: nat

record cap_slot =
  cs_entry :: "slot_entry option"
  cs_generation :: "32 word"
  cs_next_free :: "nat option"

record cap_table =
  ct_slots :: "cap_slot list"
  ct_free_head :: "nat option"

definition cap_table_new :: cap_table where
  "cap_table_new =
     \<lparr>ct_slots = map (\<lambda>i. \<lparr>cs_entry = None, cs_generation = 0,
        cs_next_free = (if Suc i < CAP_TABLE_CAPACITY then Some (Suc i) else None)\<rparr>)
          [0..<CAP_TABLE_CAPACITY],
      ct_free_head = Some 0\<rparr>"

section \<open>Internals\<close>

definition resolve_handle :: "cap_table \<Rightarrow> cap_handle \<Rightarrow> cap_error + nat" where
  "resolve_handle t h =
     (case nth_opt (ct_slots t) (ch_index h) of
        None \<Rightarrow> Inl InvalidHandle
      | Some s \<Rightarrow>
          if cs_generation s \<noteq> ch_generation h then Inl InvalidHandle
          else if cs_entry s = None then Inl InvalidHandle
          else Inr (ch_index h))"

text \<open>
  The index a successful \<open>resolve_handle\<close> returns is in range, so the indexing
  that follows it in the code cannot panic.
\<close>

definition entry_of :: "cap_table \<Rightarrow> cap_handle \<Rightarrow> cap_error + slot_entry" where
  "entry_of t h =
     (case resolve_handle t h of
        Inl e \<Rightarrow> Inl e
      | Inr i \<Rightarrow>
          (case cs_entry (ct_slots t ! i) of
             Some e \<Rightarrow> Inr e
           | None \<Rightarrow> Inl InvalidHandle))"

definition set_entry :: "cap_table \<Rightarrow> nat \<Rightarrow> slot_entry option \<Rightarrow> cap_table" where
  "set_entry t i e = t\<lparr>ct_slots := (ct_slots t)[i := (ct_slots t ! i)\<lparr>cs_entry := e\<rparr>]\<rparr>"

definition pop_free :: "cap_table \<Rightarrow> (cap_table \<times> nat option) option" where
  "pop_free t =
     (case ct_free_head t of
        None \<Rightarrow> Some (t, None)
      | Some h \<Rightarrow> do {
          s \<leftarrow> nth_opt (ct_slots t) h;
          Some (t\<lparr>ct_slots := (ct_slots t)[h := s\<lparr>cs_next_free := None\<rparr>],
                  ct_free_head := cs_next_free s\<rparr>, Some h)
        })"

definition link_child :: "cap_table \<Rightarrow> nat option \<Rightarrow> nat \<Rightarrow> (cap_table, cap_error, nat option) outcome" where
  "link_child t parent new_index =
     (case parent of
        None \<Rightarrow> Some (t, Inr None)
      | Some p \<Rightarrow> do {
          s \<leftarrow> nth_opt (ct_slots t) p;
          Some (case cs_entry s of
                  None \<Rightarrow> (t, Inl InvalidHandle)
                | Some pe \<Rightarrow>
                    (set_entry t p (Some (pe\<lparr>se_first_child := Some new_index\<rparr>)),
                     Inr (se_first_child pe)))
        })"

definition free_slot :: "cap_table \<Rightarrow> nat \<Rightarrow> cap_table" where
  "free_slot t i =
     (case nth_opt (ct_slots t) i of
        None \<Rightarrow> t
      | Some s \<Rightarrow>
          t\<lparr>ct_slots := (ct_slots t)[i := s\<lparr>cs_entry := None,
              cs_generation := cs_generation s + 1, cs_next_free := ct_free_head t\<rparr>],
            ct_free_head := Some i\<rparr>)"

text \<open>
  The walk along the parent's child list: the slot whose next sibling is
  \<open>index\<close>, where the loop performs its write and returns, or the end of the
  list. Nothing in the loop bounds it, so on a cyclic list it would not end
  (\<^term>\<open>None\<close>).
\<close>

partial_function (option) unlink_walk :: "cap_table \<Rightarrow> nat \<Rightarrow> nat option \<Rightarrow> nat option option" where
  [code]: "unlink_walk t index cursor =
     (case cursor of
        None \<Rightarrow> Some None
      | Some c \<Rightarrow> do {
          s \<leftarrow> nth_opt (ct_slots t) c;
          if Option.bind (cs_entry s) se_next_sibling = Some index
          then Some (Some c)
          else unlink_walk t index (Option.bind (cs_entry s) se_next_sibling)
        })"

definition unlink_from_siblings :: "cap_table \<Rightarrow> nat \<Rightarrow> (cap_table, cap_error, unit) outcome" where
  "unlink_from_siblings t index = do {
     s \<leftarrow> nth_opt (ct_slots t) index;
     case cs_entry s of
       None \<Rightarrow> Some (t, Inl InvalidHandle)
     | Some e \<Rightarrow>
         (case se_parent e of
            None \<Rightarrow> Some (t, Inr ())
          | Some p \<Rightarrow> do {
              ps \<leftarrow> nth_opt (ct_slots t) p;
              case cs_entry ps of
                None \<Rightarrow> Some (t, Inl InvalidHandle)
              | Some pe \<Rightarrow>
                  if se_first_child pe = Some index
                  then Some (set_entry t p (Some (pe\<lparr>se_first_child := se_next_sibling e\<rparr>)), Inr ())
                  else do {
                    r \<leftarrow> unlink_walk t index (se_first_child pe);
                    case r of
                      None \<Rightarrow> Some (t, Inl InvalidHandle)
                    | Some c \<Rightarrow>
                        Some (case cs_entry (ct_slots t ! c) of
                                None \<Rightarrow> (t, Inr ())
                              | Some ce \<Rightarrow>
                                  (set_entry t c (Some (ce\<lparr>se_next_sibling := se_next_sibling e\<rparr>)), Inr ()))
                  }
            })
   }"

section \<open>Operations\<close>

definition insert_root :: "cap_table \<Rightarrow> capability \<Rightarrow> (cap_table, cap_error, cap_handle) outcome" where
  "insert_root t c = do {
     (t1, r) \<leftarrow> pop_free t;
     case r of
       None \<Rightarrow> Some (t1, Inl CapsExhausted)
     | Some i \<Rightarrow> do {
         s \<leftarrow> nth_opt (ct_slots t1) i;
         Some (set_entry t1 i (Some \<lparr>se_capability = c, se_parent = None, se_first_child = None,
                                     se_next_sibling = None, se_depth = 0\<rparr>),
               Inr \<lparr>ch_index = i, ch_generation = cs_generation s\<rparr>)
       }
   }"

definition cap_copy ::
    "cap_table \<Rightarrow> cap_handle \<Rightarrow> cap_rights \<Rightarrow> (cap_table, cap_error, cap_handle) outcome" where
  "cap_copy t src new_rights =
     (case entry_of t src of
        Inl e \<Rightarrow> Some (t, Inl e)
      | Inr entry \<Rightarrow>
          let rights = cap_rights (se_capability entry); object = cap_object (se_capability entry)
          in if \<not> rights_contains rights rights_DUPLICATE then Some (t, Inl InsufficientRights)
             else if \<not> rights_contains rights new_rights then Some (t, Inl WidenedRights)
             else do {
               (t1, r) \<leftarrow> pop_free t;
               case r of
                 None \<Rightarrow> Some (t1, Inl CapsExhausted)
               | Some new_index \<Rightarrow> do {
                   s \<leftarrow> nth_opt (ct_slots t1) new_index;
                   (t2, l) \<leftarrow> link_child t1 (se_parent entry) new_index;
                   case l of
                     Inl e \<Rightarrow> Some (t2, Inl e)
                   | Inr former_first_child \<Rightarrow>
                       Some (set_entry t2 new_index (Some
                               \<lparr>se_capability = \<lparr>cap_rights = new_rights, cap_object = object\<rparr>,
                                se_parent = se_parent entry, se_first_child = None,
                                se_next_sibling = former_first_child, se_depth = se_depth entry\<rparr>),
                             Inr \<lparr>ch_index = new_index, ch_generation = cs_generation s\<rparr>)
                 }
             })"

definition cap_derive ::
    "cap_table \<Rightarrow> cap_handle \<Rightarrow> cap_rights \<Rightarrow> cap_object \<Rightarrow>
       (cap_table, cap_error, cap_handle) outcome" where
  "cap_derive t src new_rights new_object =
     (case entry_of t src of
        Inl e \<Rightarrow> Some (t, Inl e)
      | Inr entry \<Rightarrow>
          let rights = cap_rights (se_capability entry);
              parent_index = ch_index src;
              new_depth = saturating_add (se_depth entry) 1
          in if \<not> rights_contains rights rights_DERIVE then Some (t, Inl InsufficientRights)
             else if \<not> rights_contains rights new_rights then Some (t, Inl WidenedRights)
             else if new_depth > MAX_DERIVATION_DEPTH then Some (t, Inl DerivationTooDeep)
             else do {
               (t1, r) \<leftarrow> pop_free t;
               case r of
                 None \<Rightarrow> Some (t1, Inl CapsExhausted)
               | Some new_index \<Rightarrow> do {
                   s \<leftarrow> nth_opt (ct_slots t1) new_index;
                   (t2, l) \<leftarrow> link_child t1 (Some parent_index) new_index;
                   case l of
                     Inl e \<Rightarrow> Some (t2, Inl e)
                   | Inr former_first_child \<Rightarrow>
                       Some (set_entry t2 new_index (Some
                               \<lparr>se_capability = \<lparr>cap_rights = new_rights, cap_object = new_object\<rparr>,
                                se_parent = Some parent_index, se_first_child = None,
                                se_next_sibling = former_first_child, se_depth = new_depth\<rparr>),
                             Inr \<lparr>ch_index = new_index, ch_generation = cs_generation s\<rparr>)
                 }
             })"

text \<open>
  The breadth-first collection of \<open>cap_revoke\<close>. The code keeps the queue in a
  fixed array with a length; here it is the list of the entries in use. Both
  inner loops of the source are the same walk along a sibling list, which stops
  when the queue is full.
\<close>

function collect_siblings :: "cap_table \<Rightarrow> nat option \<Rightarrow> nat list \<Rightarrow> nat list option" where
  "collect_siblings t child desc =
     (case child of
        None \<Rightarrow> Some desc
      | Some c \<Rightarrow>
          if length desc \<ge> CAP_TABLE_CAPACITY then Some desc
          else
            (case nth_opt (ct_slots t) c of
               None \<Rightarrow> None
             | Some s \<Rightarrow>
                 collect_siblings t (Option.bind (cs_entry s) se_next_sibling) (desc @ [c])))"
  by pat_completeness auto
termination
  by (relation "measure (\<lambda>(t, child, desc). CAP_TABLE_CAPACITY - length desc)") auto

declare collect_siblings.simps [simp del]

lemma collect_siblings_length:
  "collect_siblings t child desc = Some desc' \<Longrightarrow>
   length desc \<le> length desc' \<and> length desc' \<le> max CAP_TABLE_CAPACITY (length desc)"
proof (induction t child desc rule: collect_siblings.induct)
  case (1 t child desc)
  show ?case
    using 1(2)
    by (subst (asm) collect_siblings.simps)
      (auto dest!: 1(1) split: option.splits if_splits)
qed

function collect_expand :: "cap_table \<Rightarrow> nat \<Rightarrow> nat list \<Rightarrow> nat list option" where
  "collect_expand t scan desc =
     (if scan < length desc then
        (case nth_opt (ct_slots t) (desc ! scan) of
           None \<Rightarrow> None
         | Some s \<Rightarrow>
             (case collect_siblings t (Option.bind (cs_entry s) se_first_child) desc of
                None \<Rightarrow> None
              | Some desc' \<Rightarrow> collect_expand t (Suc scan) desc'))
      else Some desc)"
  by pat_completeness auto
termination
  by (relation "measure (\<lambda>(t, scan, desc). max CAP_TABLE_CAPACITY (length desc) - scan)")
    (auto dest!: collect_siblings_length)

declare collect_expand.simps [simp del]

definition cap_revoke :: "cap_table \<Rightarrow> cap_handle \<Rightarrow> (cap_table, cap_error, unit) outcome" where
  "cap_revoke t src =
     (case resolve_handle t src of
        Inl e \<Rightarrow> Some (t, Inl e)
      | Inr src_index \<Rightarrow>
          (case cs_entry (ct_slots t ! src_index) of
             None \<Rightarrow> Some (t, Inl InvalidHandle)
           | Some entry \<Rightarrow>
               if \<not> rights_contains (cap_rights (se_capability entry)) rights_REVOKE
               then Some (t, Inl InsufficientRights)
               else do {
                 seeds \<leftarrow> collect_siblings t (se_first_child entry) [];
                 descendants \<leftarrow> collect_expand t 0 seeds;
                 let t1 = foldl free_slot t descendants;
                 s \<leftarrow> nth_opt (ct_slots t1) src_index;
                 Some (case cs_entry s of
                         None \<Rightarrow> (t1, Inr ())
                       | Some e \<Rightarrow> (set_entry t1 src_index (Some (e\<lparr>se_first_child := None\<rparr>)), Inr ()))
               }))"

definition cap_drop :: "cap_table \<Rightarrow> cap_handle \<Rightarrow> (cap_table, cap_error, unit) outcome" where
  "cap_drop t h =
     (case resolve_handle t h of
        Inl e \<Rightarrow> Some (t, Inl e)
      | Inr index \<Rightarrow>
          (case cs_entry (ct_slots t ! index) of
             None \<Rightarrow> Some (t, Inl InvalidHandle)
           | Some entry \<Rightarrow>
               if se_first_child entry \<noteq> None then Some (t, Inl HasChildren)
               else do {
                 (t1, r) \<leftarrow> unlink_from_siblings t index;
                 case r of
                   Inl e \<Rightarrow> Some (t1, Inl e)
                 | Inr _ \<Rightarrow> Some (free_slot t1 index, Inr ())
               }))"

definition cap_take :: "cap_table \<Rightarrow> cap_handle \<Rightarrow> (cap_table, cap_error, capability) outcome" where
  "cap_take t h =
     (case resolve_handle t h of
        Inl e \<Rightarrow> Some (t, Inl e)
      | Inr index \<Rightarrow>
          (case cs_entry (ct_slots t ! index) of
             None \<Rightarrow> Some (t, Inl InvalidHandle)
           | Some entry \<Rightarrow>
               if se_first_child entry \<noteq> None then Some (t, Inl HasChildren)
               else do {
                 (t1, r) \<leftarrow> unlink_from_siblings t index;
                 case r of
                   Inl e \<Rightarrow> Some (t1, Inl e)
                 | Inr _ \<Rightarrow> do {
                     s \<leftarrow> nth_opt (ct_slots t1) index;
                     case cs_entry s of
                       None \<Rightarrow> Some (t1, Inl InvalidHandle)
                     | Some e \<Rightarrow> Some (free_slot (set_entry t1 index None) index, Inr (se_capability e))
                   }
               }))"

definition cap_table_is_full :: "cap_table \<Rightarrow> bool" where
  "cap_table_is_full t \<longleftrightarrow> ct_free_head t = None"

definition cap_lookup :: "cap_table \<Rightarrow> cap_handle \<Rightarrow> cap_error + capability" where
  "cap_lookup t h =
     (case entry_of t h of Inl e \<Rightarrow> Inl e | Inr entry \<Rightarrow> Inr (se_capability entry))"

definition depth_of :: "cap_table \<Rightarrow> cap_handle \<Rightarrow> cap_error + nat" where
  "depth_of t h = (case entry_of t h of Inl e \<Rightarrow> Inl e | Inr entry \<Rightarrow> Inr (se_depth entry))"

definition references_object :: "cap_table \<Rightarrow> cap_object \<Rightarrow> bool" where
  "references_object t target \<longleftrightarrow>
     list_ex (\<lambda>s. case cs_entry s of
                    None \<Rightarrow> False
                  | Some e \<Rightarrow> cap_object (se_capability e) = target) (ct_slots t)"

end
