(* ===== verification/CapTree.thy ===== *)
theory CapTree
  imports CapTable
begin

text \<open>
  The derivation tree inside the capability table. Two views of the slots are
  related here: \<open>ent t\<close>, the live entries with the links the code walks, and
  \<open>forest\<close> of it, the abstract derivation forest in which a node knows its
  capability, its parent and its depth and nothing else. The invariant
  \<open>cap_wf\<close> says that the free list visits exactly the empty slots, that every
  sibling list visits exactly the children of its parent, and that the forest is
  well founded, bounded in depth, and never widens rights from parent to child.
\<close>

section \<open>Views of the table\<close>

definition ent :: "cap_table \<Rightarrow> nat \<Rightarrow> slot_entry option" where
  "ent t i = Option.bind (nth_opt (ct_slots t) i) cs_entry"

definition cgen :: "cap_table \<Rightarrow> nat \<Rightarrow> 32 word" where
  "cgen t i = cs_generation (ct_slots t ! i)"

definition ct_next :: "cap_table \<Rightarrow> nat \<Rightarrow> nat option" where
  "ct_next t i = Option.bind (nth_opt (ct_slots t) i) cs_next_free"

definition nsib :: "(nat \<rightharpoonup> slot_entry) \<Rightarrow> nat \<Rightarrow> nat option" where
  "nsib E i = Option.bind (E i) se_next_sibling"

definition kids :: "(nat \<rightharpoonup> slot_entry) \<Rightarrow> nat \<Rightarrow> nat set" where
  "kids E p = {i. \<exists>e. E i = Some e \<and> se_parent e = Some p}"

definition links_ok :: "(nat \<rightharpoonup> slot_entry) \<Rightarrow> bool" where
  "links_ok E \<longleftrightarrow> (\<forall>p e. E p = Some e \<longrightarrow> linked (nsib E) (se_first_child e) (kids E p))"

record cap_node =
  cn_cap :: capability
  cn_parent :: "nat option"
  cn_depth :: nat

type_synonym cap_forest = "nat \<rightharpoonup> cap_node"

definition node_of :: "slot_entry \<Rightarrow> cap_node" where
  "node_of e = \<lparr>cn_cap = se_capability e, cn_parent = se_parent e, cn_depth = se_depth e\<rparr>"

definition forest :: "(nat \<rightharpoonup> slot_entry) \<Rightarrow> cap_forest" where
  "forest E i = map_option node_of (E i)"

definition node_ok :: "cap_forest \<Rightarrow> cap_node \<Rightarrow> bool" where
  "node_ok F n \<longleftrightarrow>
     cn_depth n \<le> MAX_DERIVATION_DEPTH \<and>
     (case cn_parent n of
        None \<Rightarrow> cn_depth n = 0
      | Some p \<Rightarrow> \<exists>m. F p = Some m \<and> cn_depth n = Suc (cn_depth m) \<and>
                       rights_contains (cap_rights (cn_cap m)) (cap_rights (cn_cap n)))"

definition forest_ok :: "cap_forest \<Rightarrow> bool" where
  "forest_ok F \<longleftrightarrow> (\<forall>i n. F i = Some n \<longrightarrow> node_ok F n)"

lemma forest_parentD:
  "\<lbrakk>forest_ok F; F i = Some n; cn_parent n = Some p\<rbrakk> \<Longrightarrow>
   \<exists>m. F p = Some m \<and> cn_depth n = Suc (cn_depth m) \<and>
       rights_contains (cap_rights (cn_cap m)) (cap_rights (cn_cap n))"
  unfolding forest_ok_def node_ok_def by fastforce

lemma node_ok_mono:
  "\<lbrakk>node_ok F n; \<And>p. cn_parent n = Some p \<Longrightarrow> F' p = F p\<rbrakk> \<Longrightarrow> node_ok F' n"
  by (cases "cn_parent n") (auto simp: node_ok_def)

text \<open>The free list, with a set of empty slots that have left it already.\<close>

definition free_part :: "cap_table \<Rightarrow> nat set \<Rightarrow> bool" where
  "free_part t X \<longleftrightarrow>
     length (ct_slots t) = CAP_TABLE_CAPACITY \<and>
     linked (ct_next t) (ct_free_head t) ({i. i < CAP_TABLE_CAPACITY \<and> ent t i = None} - X)"

definition cap_wf :: "cap_table \<Rightarrow> bool" where
  "cap_wf t \<longleftrightarrow> free_part t {} \<and> links_ok (ent t) \<and> forest_ok (forest (ent t))"

section \<open>Descendants\<close>

definition child_rel :: "cap_forest \<Rightarrow> (nat \<times> nat) set" where
  "child_rel F = {(i, p). \<exists>n. F i = Some n \<and> cn_parent n = Some p}"

definition descendants :: "cap_forest \<Rightarrow> nat \<Rightarrow> nat set" where
  "descendants F p = {i. (i, p) \<in> (child_rel F)\<^sup>+}"

lemma kids_forest: "i \<in> kids E p \<longleftrightarrow> (i, p) \<in> child_rel (forest E)"
  by (auto simp: kids_def child_rel_def forest_def node_of_def)

lemma kids_descendants: "kids E p \<subseteq> descendants (forest E) p"
  by (auto simp: descendants_def kids_forest)

lemma descendants_step:
  "\<lbrakk>i \<in> descendants F p; (k, i) \<in> child_rel F\<rbrakk> \<Longrightarrow> k \<in> descendants F p"
  unfolding descendants_def by (auto intro: trancl_into_trancl2)

lemma descendants_parent:
  assumes "i \<in> descendants F p" "F i = Some n"
  shows "\<exists>q. cn_parent n = Some q \<and> (q = p \<or> q \<in> descendants F p)"
proof -
  from assms(1) obtain q where "(i, q) \<in> child_rel F" "q = p \<or> (q, p) \<in> (child_rel F)\<^sup>+"
    by (auto simp: descendants_def elim: converse_tranclE)
  then show ?thesis using assms(2) by (auto simp: child_rel_def descendants_def)
qed

lemma descendants_live: "i \<in> descendants F p \<Longrightarrow> F i \<noteq> None"
  unfolding descendants_def by (auto elim: converse_tranclE simp: child_rel_def)

lemma descendants_least:
  assumes "\<And>i. (i, p) \<in> child_rel F \<Longrightarrow> i \<in> D"
    and "\<And>i k. \<lbrakk>i \<in> D; (k, i) \<in> child_rel F\<rbrakk> \<Longrightarrow> k \<in> D"
  shows "descendants F p \<subseteq> D"
proof
  fix i assume "i \<in> descendants F p"
  then have "(i, p) \<in> (child_rel F)\<^sup>+" by (simp add: descendants_def)
  then show "i \<in> D"
    by (induction rule: converse_trancl_induct) (use assms in blast)+
qed

lemma descendants_deeper:
  assumes "forest_ok F" "i \<in> descendants F p" "F p = Some m" "F i = Some n"
  shows "cn_depth m < cn_depth n"
proof -
  from assms(2) have "(i, p) \<in> (child_rel F)\<^sup>+" by (simp add: descendants_def)
  then show ?thesis using assms(4)
  proof (induction arbitrary: n rule: converse_trancl_induct)
    case (base y)
    then show ?case
      using assms(1,3) forest_parentD [OF assms(1)] by (fastforce simp: child_rel_def)
  next
    case (step y z)
    then obtain k where k: "F z = Some k" "cn_depth n = Suc (cn_depth k)"
      using forest_parentD [OF assms(1)] by (fastforce simp: child_rel_def)
    then show ?case using step.IH by fastforce
  qed
qed

lemma not_own_descendant:
  "\<lbrakk>forest_ok F; F p = Some m\<rbrakk> \<Longrightarrow> p \<notin> descendants F p"
  using descendants_deeper by blast

text \<open>Authority only narrows along the tree: the kernel's no-amplification law.\<close>

lemma descendants_narrow:
  assumes "forest_ok F" "i \<in> descendants F p" "F p = Some m" "F i = Some n"
  shows "rights_contains (cap_rights (cn_cap m)) (cap_rights (cn_cap n))"
proof -
  from assms(2) have "(i, p) \<in> (child_rel F)\<^sup>+" by (simp add: descendants_def)
  then show ?thesis using assms(4)
  proof (induction arbitrary: n rule: converse_trancl_induct)
    case (base y)
    then show ?case
      using assms(1,3) forest_parentD [OF assms(1)] by (fastforce simp: child_rel_def)
  next
    case (step y z)
    then obtain k where k: "F z = Some k" "rights_contains (cap_rights (cn_cap k)) (cap_rights (cn_cap n))"
      using forest_parentD [OF assms(1)] by (fastforce simp: child_rel_def)
    then show ?case using step.IH contains_trans by blast
  qed
qed

section \<open>The forest under updates\<close>

lemma forest_upd [simp]: "forest (E(i := x)) = (forest E)(i := map_option node_of x)"
  by (auto simp: forest_def)

lemma forest_None [simp]: "forest E i = None \<longleftrightarrow> E i = None"
  by (simp add: forest_def)

lemma forest_Some: "E i = Some e \<Longrightarrow> forest E i = Some (node_of e)"
  by (simp add: forest_def)

lemma forest_restrict [simp]: "forest (E |` A) = forest E |` A"
  by (auto simp: forest_def restrict_map_def)

lemma node_of_links [simp]:
  "node_of (e\<lparr>se_first_child := a\<rparr>) = node_of e"
  "node_of (e\<lparr>se_next_sibling := b\<rparr>) = node_of e"
  by (simp_all add: node_of_def)

lemma forest_links_only [simp]:
  "E i = Some e \<Longrightarrow> node_of e' = node_of e \<Longrightarrow> (forest E)(i \<mapsto> node_of e') = forest E"
  by (auto simp: forest_def)

lemma forest_add:
  assumes "forest_ok F" "F i = None" "node_ok F n"
  shows "forest_ok (F(i \<mapsto> n))"
proof -
  have "node_ok (F(i \<mapsto> n)) m" if "node_ok F m" for m
    using that
  proof (rule node_ok_mono)
    fix p assume "cn_parent m = Some p"
    with that have "F p \<noteq> None" by (auto simp: node_ok_def)
    then show "(F(i \<mapsto> n)) p = F p" using assms(2) by auto
  qed
  then show ?thesis using assms by (auto simp: forest_ok_def)
qed

lemma forest_remove:
  assumes "forest_ok F" "\<And>k. (k, i) \<notin> child_rel F"
  shows "forest_ok (F(i := None))"
  unfolding forest_ok_def
proof (intro allI impI)
  fix k n assume k: "(F(i := None)) k = Some n"
  then have n: "node_ok F n" "cn_parent n \<noteq> Some i"
    using assms by (auto simp: forest_ok_def child_rel_def split: if_splits)
  show "node_ok (F(i := None)) n" by (rule node_ok_mono [OF n(1)]) (use n(2) in auto)
qed

lemma forest_prune:
  assumes "forest_ok F"
  shows "forest_ok (F |` (- descendants F p))"
  unfolding forest_ok_def
proof (intro allI impI)
  fix k n assume k: "(F |` (- descendants F p)) k = Some n"
  then have kn: "F k = Some n" "k \<notin> descendants F p"
    by (auto simp: restrict_map_def split: if_splits)
  then have "node_ok F n" using assms by (auto simp: forest_ok_def)
  then show "node_ok (F |` (- descendants F p)) n"
  proof (rule node_ok_mono)
    fix q assume "cn_parent n = Some q"
    then have "q \<notin> descendants F p"
      using kn descendants_step [of q F p k] by (auto simp: child_rel_def)
    then show "(F |` (- descendants F p)) q = F q" by simp
  qed
qed

lemma no_kids_of_empty:
  assumes "forest_ok (forest E)" "E n = None"
  shows "kids E n = {}"
proof -
  have "(i, n) \<notin> child_rel (forest E)" for i
  proof
    assume "(i, n) \<in> child_rel (forest E)"
    then obtain k where "forest E i = Some k" "cn_parent k = Some n"
      by (auto simp: child_rel_def)
    then have "forest E n \<noteq> None" using forest_parentD [OF assms(1)] by fastforce
    then show False using assms(2) by simp
  qed
  then show ?thesis by (auto simp: kids_forest)
qed

lemma kids_parent_live:
  assumes "forest_ok (forest E)" "E i = Some e" "se_parent e = Some p"
  shows "\<exists>pe. E p = Some pe \<and> p \<noteq> i \<and> se_depth e = Suc (se_depth pe) \<and>
    rights_contains (cap_rights (se_capability pe)) (cap_rights (se_capability e))"
proof -
  have "forest E i = Some (node_of e)" using assms(2) by (rule forest_Some)
  from forest_parentD [OF assms(1) this, of p] show ?thesis
    using assms(2,3) by (auto simp: node_of_def forest_def)
qed

section \<open>The sibling lists under updates\<close>

lemma links_okI:
  assumes "\<And>p e. E p = Some e \<Longrightarrow> linked nx (se_first_child e) (kids E p)"
    and "\<And>p x. x \<in> kids E p \<Longrightarrow> nsib E x = nx x"
  shows "links_ok E"
  unfolding links_ok_def
proof (intro allI impI)
  fix p e assume "E p = Some e"
  then show "linked (nsib E) (se_first_child e) (kids E p)"
    using linked_cong [OF assms(1), of p e "nsib E"] assms(2) by blast
qed

lemma links_okD: "\<lbrakk>links_ok E; E p = Some e\<rbrakk> \<Longrightarrow> linked (nsib E) (se_first_child e) (kids E p)"
  by (simp add: links_ok_def)

lemma links_add_root:
  assumes "links_ok E" "E n = None" "kids E n = {}"
    and "se_parent e = None" "se_first_child e = None"
  shows "links_ok (E(n \<mapsto> e))"
proof -
  have k: "kids (E(n \<mapsto> e)) p = kids E p" for p
    using assms by (auto simp: kids_def)
  show ?thesis
  proof (rule links_okI [of _ "nsib E"], unfold k)
    fix p f assume "(E(n \<mapsto> e)) p = Some f"
    then show "linked (nsib E) (se_first_child f) (kids E p)"
      using assms by (auto dest: links_okD split: if_splits)
  next
    fix p x assume "x \<in> kids E p"
    then show "nsib (E(n \<mapsto> e)) x = nsib E x" using assms(2) by (auto simp: nsib_def kids_def)
  qed
qed

lemma links_add_child:
  assumes "links_ok E" "E n = None" "kids E n = {}" "E p = Some pe"
    and "se_parent e = Some p" "se_first_child e = None" "se_next_sibling e = se_first_child pe"
  shows "links_ok (E(p \<mapsto> pe\<lparr>se_first_child := Some n\<rparr>, n \<mapsto> e))"
    (is "links_ok ?E")
proof -
  have pn: "p \<noteq> n" using assms by auto
  have k: "kids ?E q = (if q = p then insert n (kids E p) else kids E q)" for q
    using assms pn by (auto simp: kids_def)
  have ns: "nsib ?E = (nsib E)(n := se_first_child pe)"
    using assms pn by (auto simp: nsib_def fun_eq_iff)
  have nk: "n \<notin> kids E q" for q using assms(2) by (simp add: kids_def)
  show ?thesis
  proof (rule links_okI [of _ "nsib ?E"])
    fix q f assume f: "?E q = Some f"
    have new: "linked (nsib ?E) (Some n) (insert n (kids E p))"
      unfolding ns using links_okD [OF assms(1,4)] nk by (rule linked_push)
    have old: "linked (nsib ?E) h (kids E q)" if "linked (nsib E) h (kids E q)" for h
      using that by (rule linked_cong) (use nk [of q] ns in auto)
    consider "q = n" | "q = p" | "q \<noteq> n" "q \<noteq> p" by blast
    then show "linked (nsib ?E) (se_first_child f) (kids ?E q)"
    proof cases
      case 1
      then show ?thesis using f assms(3,6) k [of q] pn by simp
    next
      case 2
      then show ?thesis using f new k [of q] pn by auto
    next
      case 3
      then show ?thesis using f old links_okD [OF assms(1), of q f] k [of q] by simp
    qed
  qed simp
qed

lemma links_remove_root:
  assumes "links_ok E" "E i = Some e" "se_parent e = None" "kids E i = {}"
  shows "links_ok (E(i := None))"
proof -
  have k: "kids (E(i := None)) p = kids E p" for p
    using assms by (auto simp: kids_def)
  show ?thesis
  proof (rule links_okI [of _ "nsib E"], unfold k)
    fix p f assume "(E(i := None)) p = Some f"
    then show "linked (nsib E) (se_first_child f) (kids E p)"
      using assms(1) by (auto dest: links_okD split: if_splits)
  next
    fix p x assume "x \<in> kids E p"
    then show "nsib (E(i := None)) x = nsib E x" using assms by (auto simp: nsib_def kids_def)
  qed
qed

lemma links_remove_head:
  assumes "links_ok E" "E i = Some e" "se_parent e = Some p" "kids E i = {}" "p \<noteq> i"
    and "E p = Some pe" "se_first_child pe = Some i"
  shows "links_ok (E(p \<mapsto> pe\<lparr>se_first_child := se_next_sibling e\<rparr>, i := None))"
    (is "links_ok ?E")
proof -
  have k: "kids ?E q = kids E q - {i}" for q
    using assms by (auto simp: kids_def)
  have ns: "nsib ?E j = nsib E j" if "j \<noteq> i" for j
    using assms that by (auto simp: nsib_def)
  have p: "linked (nsib E) (se_next_sibling e) (kids E p - {i})"
    using linked_tail [of "nsib E" i "kids E p"] links_okD [OF assms(1,6)] assms(2,7)
    by (auto simp: nsib_def)
  have other: "kids E q - {i} = kids E q" if "q \<noteq> p" for q
    using assms(2,3) that by (auto simp: kids_def)
  have "linked (nsib E) (se_first_child f) (kids E q - {i})" if "?E q = Some f" for q f
    using that assms p other [of q] by (auto dest: links_okD split: if_splits)
  then show ?thesis
    by (intro links_okI [of _ "nsib E"]) (auto simp: k ns simp del: fun_upd_apply)
qed

lemma links_remove_inner:
  assumes "links_ok E" "E i = Some e" "se_parent e = Some p" "kids E i = {}" "c \<noteq> i"
    and "c \<in> kids E p" "E c = Some ce" "se_next_sibling ce = Some i" "E p = Some pe"
  shows "links_ok (E(c \<mapsto> ce\<lparr>se_next_sibling := se_next_sibling e\<rparr>, i := None))"
    (is "links_ok ?E")
proof -
  have k: "kids ?E q = kids E q - {i}" for q
    using assms by (auto simp: kids_def)
  let ?ns = "(nsib E)(c := nsib E i)"
  have ns: "nsib ?E j = ?ns j" if "j \<noteq> i" for j
    using assms that by (auto simp: nsib_def)
  have p: "linked ?ns (se_first_child pe) (kids E p - {i})"
    using links_okD [OF assms(1,9)] assms(6) by (rule linked_unlink) (use assms(7,8) in \<open>simp add: nsib_def\<close>)
  have other: "kids E q - {i} = kids E q" "c \<notin> kids E q" if "q \<noteq> p" for q
    using assms that by (auto simp: kids_def)
  have fc: "\<exists>f'. E q = Some f' \<and> se_first_child f' = se_first_child f" if "?E q = Some f" for q f
    using that assms by (auto split: if_splits)
  have "linked ?ns (se_first_child f) (kids E q - {i})" if f: "?E q = Some f" for q f
  proof (cases "q = p")
    case True
    then show ?thesis using p fc [OF f] assms(9) by (auto simp del: fun_upd_apply)
  next
    case False
    obtain f' where "E q = Some f'" "se_first_child f' = se_first_child f"
      using fc [OF f] by blast
    then have "linked (nsib E) (se_first_child f) (kids E q)"
      using links_okD [OF assms(1)] by metis
    then have "linked ?ns (se_first_child f) (kids E q)"
      by (rule linked_cong) (use other(2) [OF False] in auto)
    then show ?thesis using other(1) [OF False] by simp
  qed
  then show ?thesis
    by (intro links_okI [of _ ?ns]) (auto simp: k ns simp del: fun_upd_apply)
qed

lemma links_prune:
  assumes "links_ok E" "E x = Some xe" "x \<notin> D" "kids E x \<subseteq> D"
    and "\<And>q. \<lbrakk>q \<notin> D; q \<noteq> x\<rbrakk> \<Longrightarrow> kids E q \<inter> D = {}"
  shows "links_ok ((E |` (- D))(x \<mapsto> xe\<lparr>se_first_child := None\<rparr>))"
    (is "links_ok ?E")
proof -
  have k: "kids ?E q = kids E q - D" for q
    using assms(2,3) by (auto simp: kids_def restrict_map_def split: if_splits)
  have ns: "nsib ?E j = nsib E j" if "j \<notin> D" for j
    using assms that by (auto simp: nsib_def)
  have "linked (nsib E) (se_first_child f) (kids E q - D)" if "?E q = Some f" for q f
  proof (cases "q = x")
    case True
    then show ?thesis using that assms(4) by auto
  next
    case False
    then have "E q = Some f" "q \<notin> D" using that by (auto simp: restrict_map_def split: if_splits)
    moreover then have "kids E q - D = kids E q" using assms(5) False by blast
    ultimately show ?thesis using assms(1) by (auto dest: links_okD)
  qed
  then show ?thesis
    by (intro links_okI [of _ "nsib E"]) (auto simp: k ns simp del: fun_upd_apply)
qed

end
