(* ===== verification/CapTable_Props.thy ===== *)
theory CapTable_Props
  imports CapTree
begin

text \<open>
  What the operations of the capability table do to a well-formed table, on
  every branch: none of them panics or loops, errors leave the table untouched,
  and a success changes the abstract derivation forest by exactly the node or
  the subtree the operation is about. The table is then a generational store in
  the sense of \<open>Store_Spec\<close>, which is what the IPC layer relies on.
\<close>

section \<open>Effects of the internal steps\<close>

lemma set_entry_simps [simp]:
  "length (ct_slots (set_entry t i e)) = length (ct_slots t)"
  "ct_free_head (set_entry t i e) = ct_free_head t"
  by (simp_all add: set_entry_def)

lemma ent_set_entry [simp]: "i < length (ct_slots t) \<Longrightarrow> ent (set_entry t i e) = (ent t)(i := e)"
  by (auto simp: ent_def set_entry_def fun_eq_iff nth_opt_def nth_list_update)

lemma cgen_set_entry [simp]: "cgen (set_entry t i e) = cgen t"
  by (auto simp: cgen_def set_entry_def fun_eq_iff nth_update_any)

lemma ct_next_set_entry [simp]: "ct_next (set_entry t i e) = ct_next t"
  by (auto simp: ct_next_def set_entry_def fun_eq_iff nth_opt_def nth_update_any)

lemma ent_bound: "ent t i = Some e \<Longrightarrow> i < length (ct_slots t)"
  by (auto simp: ent_def nth_opt_def split: if_splits)

lemma ent_nth: "i < length (ct_slots t) \<Longrightarrow> ent t i = cs_entry (ct_slots t ! i)"
  by (simp add: ent_def)

lemma free_part_length [simp]: "free_part t X \<Longrightarrow> length (ct_slots t) = CAP_TABLE_CAPACITY"
  unfolding free_part_def by blast

lemma cap_wf_length [simp]: "cap_wf t \<Longrightarrow> length (ct_slots t) = CAP_TABLE_CAPACITY"
  unfolding cap_wf_def using free_part_length by blast

lemma wf_ent_bound: "\<lbrakk>cap_wf t; ent t i = Some e\<rbrakk> \<Longrightarrow> i < CAP_TABLE_CAPACITY"
  using ent_bound by fastforce

lemma free_part_relink:
  assumes "free_part t X" "ent t i = Some e"
  shows "free_part (set_entry t i (Some e')) X"
proof -
  have "i < length (ct_slots t)" using assms(2) by (rule ent_bound)
  moreover have "{j. j < CAP_TABLE_CAPACITY \<and> ((ent t)(i \<mapsto> e')) j = None} =
      {j. j < CAP_TABLE_CAPACITY \<and> ent t j = None}"
    using assms(2) by auto
  ultimately show ?thesis using assms(1) by (simp add: free_part_def)
qed

lemma free_part_fill:
  assumes "free_part t {i}" "i < CAP_TABLE_CAPACITY"
  shows "free_part (set_entry t i (Some e)) {}"
proof -
  have "{j. j < CAP_TABLE_CAPACITY \<and> ((ent t)(i \<mapsto> e)) j = None} =
      {j. j < CAP_TABLE_CAPACITY \<and> ent t j = None} - {i}"
    by auto
  then show ?thesis using assms by (simp add: free_part_def)
qed

lemma pop_free_full: "ct_free_head t = None \<Longrightarrow> pop_free t = Some (t, None)"
  by (simp add: pop_free_def)

lemma pop_free_some:
  assumes "free_part t {}" "ct_free_head t = Some h"
  obtains t1 where "pop_free t = Some (t1, Some h)" "h < CAP_TABLE_CAPACITY" "ent t h = None"
    "ent t1 = ent t" "cgen t1 = cgen t" "free_part t1 {h}"
proof -
  have fl: "linked (ct_next t) (Some h) {i. i < CAP_TABLE_CAPACITY \<and> ent t i = None}"
    and len: "length (ct_slots t) = CAP_TABLE_CAPACITY"
    using assms by (simp_all add: free_part_def)
  have h: "h < CAP_TABLE_CAPACITY" "ent t h = None" using linked_head [OF fl] by simp_all
  define t1 where "t1 = t\<lparr>ct_slots := (ct_slots t)[h := (ct_slots t ! h)\<lparr>cs_next_free := None\<rparr>],
                  ct_free_head := cs_next_free (ct_slots t ! h)\<rparr>"
  have "ent t1 = ent t" "cgen t1 = cgen t"
    by (auto simp: t1_def ent_def cgen_def fun_eq_iff nth_opt_def nth_update_any)
  moreover have "ct_next t1 = (ct_next t)(h := None)" "ct_free_head t1 = ct_next t h"
      "length (ct_slots t1) = CAP_TABLE_CAPACITY"
    using h len by (auto simp: t1_def ct_next_def fun_eq_iff nth_opt_update)
  ultimately have "free_part t1 {h}"
    using linked_pop [OF fl] by (simp add: free_part_def)
  moreover have "pop_free t = Some (t1, Some h)"
    using assms(2) h(1) len by (simp add: pop_free_def t1_def)
  ultimately show ?thesis using that h \<open>ent t1 = ent t\<close> \<open>cgen t1 = cgen t\<close> by blast
qed

lemma wf_full_iff:
  assumes "cap_wf t"
  shows "cap_table_is_full t \<longleftrightarrow> (\<forall>i < CAP_TABLE_CAPACITY. ent t i \<noteq> None)"
proof (cases "ct_free_head t")
  case None
  have "linked (ct_next t) (ct_free_head t) ({i. i < CAP_TABLE_CAPACITY \<and> ent t i = None} - {})"
    using assms by (simp only: cap_wf_def free_part_def)
  then have empty: "{i. i < CAP_TABLE_CAPACITY \<and> ent t i = None} = {}"
    by (simp only: None linked_None_iff Diff_empty)
  have "ent t i \<noteq> None" if "i < CAP_TABLE_CAPACITY" for i
  proof -
    have "i \<notin> {i. i < CAP_TABLE_CAPACITY \<and> ent t i = None}" by (simp only: empty empty_iff not_False_eq_True)
    then show ?thesis using that by simp
  qed
  then show ?thesis using None by (simp add: cap_table_is_full_def)
next
  case (Some h)
  have "linked (ct_next t) (Some h) ({i. i < CAP_TABLE_CAPACITY \<and> ent t i = None} - {})"
    using assms unfolding Some [symmetric] by (simp only: cap_wf_def free_part_def)
  then have "h \<in> {i. i < CAP_TABLE_CAPACITY \<and> ent t i = None} - {}" by (rule linked_head)
  then have h: "h < CAP_TABLE_CAPACITY" "ent t h = None" by simp_all
  then have "\<not> (\<forall>i < CAP_TABLE_CAPACITY. ent t i \<noteq> None)" by metis
  then show ?thesis using Some by (simp only: cap_table_is_full_def) simp
qed

lemma ent_free_slot: "ent (free_slot t i) = (ent t)(i := None)"
  by (auto simp: ent_def free_slot_def fun_eq_iff nth_opt_def nth_list_update split: option.split)

lemma cgen_free_slot:
  "i < length (ct_slots t) \<Longrightarrow> cgen (free_slot t i) = (cgen t)(i := cgen t i + 1)"
  by (auto simp: cgen_def free_slot_def fun_eq_iff)

lemma free_slot_length [simp]: "length (ct_slots (free_slot t i)) = length (ct_slots t)"
  by (auto simp: free_slot_def split: option.split)

lemma free_slot_set_entry: "free_slot (set_entry t i e) i = free_slot t i"
  by (cases "i < length (ct_slots t)") (auto simp: free_slot_def set_entry_def nth_opt_def list_update_beyond)

lemma free_part_free_slot:
  assumes "free_part t {}" "ent t i = Some e"
  shows "free_part (free_slot t i) {}"
proof -
  have i: "i < length (ct_slots t)" using assms(2) by (rule ent_bound)
  have "ct_next (free_slot t i) = (ct_next t)(i := ct_free_head t)" "ct_free_head (free_slot t i) = Some i"
    using i by (auto simp: ct_next_def free_slot_def fun_eq_iff nth_opt_update)
  moreover have "{j. j < CAP_TABLE_CAPACITY \<and> ent (free_slot t i) j = None} =
      insert i {j. j < CAP_TABLE_CAPACITY \<and> ent t j = None}"
    using i assms(1) by (auto simp: ent_free_slot)
  ultimately show ?thesis
    using assms linked_push [of "ct_next t" "ct_free_head t" _ i] by (simp add: free_part_def)
qed

section \<open>Handles\<close>

definition node_at :: "cap_table \<Rightarrow> cap_handle \<Rightarrow> cap_node option" where
  "node_at t h = (if cgen t (ch_index h) = ch_generation h then forest (ent t) (ch_index h) else None)"

lemma entry_of_cases:
  "entry_of t h =
     (case ent t (ch_index h) of
        None \<Rightarrow> Inl InvalidHandle
      | Some e \<Rightarrow> if cgen t (ch_index h) = ch_generation h then Inr e else Inl InvalidHandle)"
  by (auto simp: entry_of_def resolve_handle_def ent_def cgen_def nth_opt_def split: option.split)

lemma entry_of_live:
  "entry_of t h = Inr e \<longleftrightarrow> ent t (ch_index h) = Some e \<and> cgen t (ch_index h) = ch_generation h"
  by (simp add: entry_of_cases split: option.split)

lemma entry_of_Inl: "entry_of t h = Inl x \<longleftrightarrow> x = InvalidHandle \<and> node_at t h = None"
  by (auto simp: entry_of_cases node_at_def forest_def split: option.split)

lemma entry_of_node: "entry_of t h = Inr e \<Longrightarrow> node_at t h = Some (node_of e)"
  by (simp add: entry_of_live node_at_def forest_def)

lemma node_at_entry: "node_at t h = Some n \<Longrightarrow> \<exists>e. entry_of t h = Inr e \<and> n = node_of e"
  by (auto simp: entry_of_live node_at_def forest_def split: if_splits)

lemma resolve_handle_entry:
  "resolve_handle t h = (case entry_of t h of Inl e \<Rightarrow> Inl e | Inr _ \<Rightarrow> Inr (ch_index h))"
  by (auto simp: entry_of_def resolve_handle_def nth_opt_def split: option.split)

lemma entry_of_slot: "entry_of t h = Inr e \<Longrightarrow> cs_entry (ct_slots t ! ch_index h) = Some e"
  by (auto simp: entry_of_live ent_def nth_opt_def split: if_splits)

lemma lookup_node: "cap_lookup t h = (case node_at t h of None \<Rightarrow> Inl InvalidHandle | Some n \<Rightarrow> Inr (cn_cap n))"
  by (auto simp: cap_lookup_def node_at_def forest_def node_of_def entry_of_cases split: option.split)

lemma depth_of_node: "depth_of t h = (case node_at t h of None \<Rightarrow> Inl InvalidHandle | Some n \<Rightarrow> Inr (cn_depth n))"
  by (auto simp: depth_of_def node_at_def forest_def node_of_def entry_of_cases split: option.split)

text \<open>The two ways an operation changes the forest.\<close>

definition adds_node :: "cap_table \<Rightarrow> cap_table \<Rightarrow> cap_handle \<Rightarrow> cap_node \<Rightarrow> bool" where
  "adds_node t t' h n \<longleftrightarrow>
     cap_wf t' \<and> ch_index h < CAP_TABLE_CAPACITY \<and> ent t (ch_index h) = None \<and>
     ch_generation h = cgen t (ch_index h) \<and> cgen t' = cgen t \<and>
     forest (ent t') = (forest (ent t))(ch_index h \<mapsto> n)"

definition removes_nodes :: "cap_table \<Rightarrow> cap_table \<Rightarrow> nat set \<Rightarrow> bool" where
  "removes_nodes t t' D \<longleftrightarrow>
     cap_wf t' \<and> (\<forall>i\<in>D. ent t i \<noteq> None) \<and>
     forest (ent t') = forest (ent t) |` (- D) \<and>
     cgen t' = (\<lambda>i. if i \<in> D then cgen t i + 1 else cgen t i)"

lemma cap_handle_eq_iff:
  "(h :: cap_handle) = k \<longleftrightarrow> ch_index h = ch_index k \<and> ch_generation h = ch_generation k"
  by (cases h; cases k) simp

lemma adds_node_at:
  "adds_node t t' h n \<Longrightarrow> node_at t h = None \<and> node_at t' = (node_at t)(h \<mapsto> n)"
  by (auto simp: adds_node_def node_at_def fun_eq_iff cap_handle_eq_iff)

lemma removes_node_at:
  "removes_nodes t t' D \<Longrightarrow> node_at t' h = (if ch_index h \<in> D then None else node_at t h)"
  by (auto simp: removes_nodes_def node_at_def restrict_map_def)

section \<open>Adding nodes\<close>

lemma link_child_live:
  assumes "ent t p = Some pe"
  shows "link_child t (Some p) i =
    Some (set_entry t p (Some (pe\<lparr>se_first_child := Some i\<rparr>)), Inr (se_first_child pe))"
  using ent_bound [OF assms] assms by (simp add: link_child_def ent_nth)

lemma add_root_effect:
  assumes wf: "cap_wf t" and h: "ct_free_head t = Some h"
    and e: "e = \<lparr>se_capability = c, se_parent = None, se_first_child = None,
                 se_next_sibling = None, se_depth = 0\<rparr>"
  obtains t1 where "pop_free t = Some (t1, Some h)" "cs_generation (ct_slots t1 ! h) = cgen t h"
    "h < length (ct_slots t1)"
    "adds_node t (set_entry t1 h (Some e)) \<lparr>ch_index = h, ch_generation = cgen t h\<rparr>
       \<lparr>cn_cap = c, cn_parent = None, cn_depth = 0\<rparr>"
proof -
  obtain t1 where t1: "pop_free t = Some (t1, Some h)" "h < CAP_TABLE_CAPACITY" "ent t h = None"
    "ent t1 = ent t" "cgen t1 = cgen t" "free_part t1 {h}"
    using pop_free_some [of t h] wf h by (auto simp: cap_wf_def)
  let ?t = "set_entry t1 h (Some e)"
  have E: "ent ?t = (ent t)(h \<mapsto> e)" using t1 by simp
  have nk: "kids (ent t) h = {}" using no_kids_of_empty wf t1(3) by (simp add: cap_wf_def)
  have "free_part ?t {}" using t1 by (intro free_part_fill) auto
  moreover have "links_ok (ent ?t)"
    unfolding E using wf t1(3) nk e by (intro links_add_root) (auto simp: cap_wf_def)
  moreover have "forest_ok (forest (ent ?t))"
    unfolding E using wf t1(3) e
    by (auto intro!: forest_add simp: cap_wf_def node_ok_def node_of_def)
  ultimately have "cap_wf ?t" by (simp add: cap_wf_def)
  then have "adds_node t ?t \<lparr>ch_index = h, ch_generation = cgen t h\<rparr>
       \<lparr>cn_cap = c, cn_parent = None, cn_depth = 0\<rparr>"
    using t1 E e by (simp add: adds_node_def node_of_def)
  moreover have "cs_generation (ct_slots t1 ! h) = cgen t h"
    using t1(5) by (metis cgen_def)
  ultimately show ?thesis using that t1 by simp
qed

lemma add_child_effect:
  assumes wf: "cap_wf t" and h: "ct_free_head t = Some h" and p: "ent t p = Some pe"
    and c: "rights_contains (cap_rights (se_capability pe)) (cap_rights c)"
    and d: "Suc (se_depth pe) \<le> MAX_DERIVATION_DEPTH"
    and e: "e = \<lparr>se_capability = c, se_parent = Some p, se_first_child = None,
                 se_next_sibling = se_first_child pe, se_depth = Suc (se_depth pe)\<rparr>"
  obtains t1 where "pop_free t = Some (t1, Some h)" "cs_generation (ct_slots t1 ! h) = cgen t h"
    "h < length (ct_slots t1)" "ent t1 p = Some pe"
    "adds_node t (set_entry (set_entry t1 p (Some (pe\<lparr>se_first_child := Some h\<rparr>))) h (Some e))
       \<lparr>ch_index = h, ch_generation = cgen t h\<rparr>
       \<lparr>cn_cap = c, cn_parent = Some p, cn_depth = Suc (se_depth pe)\<rparr>"
proof -
  obtain t1 where t1: "pop_free t = Some (t1, Some h)" "h < CAP_TABLE_CAPACITY" "ent t h = None"
    "ent t1 = ent t" "cgen t1 = cgen t" "free_part t1 {h}"
    using pop_free_some [of t h] wf h by (auto simp: cap_wf_def)
  let ?t2 = "set_entry t1 p (Some (pe\<lparr>se_first_child := Some h\<rparr>))"
  let ?t = "set_entry ?t2 h (Some e)"
  have p': "p < CAP_TABLE_CAPACITY" using wf p by (rule wf_ent_bound)
  have E: "ent ?t = (ent t)(p \<mapsto> pe\<lparr>se_first_child := Some h\<rparr>, h \<mapsto> e)" using t1 p' by simp
  have nk: "kids (ent t) h = {}" using no_kids_of_empty wf t1(3) by (simp add: cap_wf_def)
  have "free_part ?t2 {h}" using t1 p by (intro free_part_relink) auto
  then have "free_part ?t {}" using t1(2) by (rule free_part_fill)
  moreover have "links_ok (ent ?t)"
    unfolding E using wf t1(3) nk p e by (intro links_add_child) (auto simp: cap_wf_def)
  moreover have F: "forest (ent ?t) = (forest (ent t))(h \<mapsto> node_of e)"
    unfolding E using p by simp
  moreover have "forest_ok (forest (ent ?t))"
    unfolding F using wf t1(3) p c d e
    by (intro forest_add) (auto simp: cap_wf_def node_ok_def node_of_def forest_def)
  ultimately have "cap_wf ?t" by (simp add: cap_wf_def)
  then have "adds_node t ?t \<lparr>ch_index = h, ch_generation = cgen t h\<rparr>
       \<lparr>cn_cap = c, cn_parent = Some p, cn_depth = Suc (se_depth pe)\<rparr>"
    using t1 F e by (simp add: adds_node_def node_of_def)
  moreover have "cs_generation (ct_slots t1 ! h) = cgen t h"
    using t1(5) by (metis cgen_def)
  ultimately show ?thesis using that t1 p by simp
qed

section \<open>Insert, copy and derive\<close>

lemma insert_root_full: "cap_table_is_full t \<Longrightarrow> insert_root t c = Some (t, Inl CapsExhausted)"
  by (simp add: insert_root_def pop_free_full cap_table_is_full_def)

lemma insert_root_room:
  assumes "cap_wf t" "\<not> cap_table_is_full t"
  shows "\<exists>t' h. insert_root t c = Some (t', Inr h) \<and>
    adds_node t t' h \<lparr>cn_cap = c, cn_parent = None, cn_depth = 0\<rparr>"
proof -
  obtain i where i: "ct_free_head t = Some i"
    using assms(2) by (auto simp: cap_table_is_full_def)
  obtain t1 where "pop_free t = Some (t1, Some i)" "cs_generation (ct_slots t1 ! i) = cgen t i"
    "i < length (ct_slots t1)"
    "adds_node t (set_entry t1 i (Some \<lparr>se_capability = c, se_parent = None, se_first_child = None,
                 se_next_sibling = None, se_depth = 0\<rparr>)) \<lparr>ch_index = i, ch_generation = cgen t i\<rparr>
       \<lparr>cn_cap = c, cn_parent = None, cn_depth = 0\<rparr>"
    using add_root_effect [OF assms(1) i refl] by metis
  then show ?thesis by (simp add: insert_root_def)
qed

text \<open>What copy and derive check on the source node, in the order they check it.\<close>

definition copy_verdict :: "cap_node option \<Rightarrow> cap_rights \<Rightarrow> bool \<Rightarrow> cap_error option" where
  "copy_verdict src new_rights is_full =
     (case src of
        None \<Rightarrow> Some InvalidHandle
      | Some n \<Rightarrow>
          if \<not> rights_contains (cap_rights (cn_cap n)) rights_DUPLICATE then Some InsufficientRights
          else if \<not> rights_contains (cap_rights (cn_cap n)) new_rights then Some WidenedRights
          else if is_full then Some CapsExhausted
          else None)"

definition derive_verdict :: "cap_node option \<Rightarrow> cap_rights \<Rightarrow> bool \<Rightarrow> cap_error option" where
  "derive_verdict src new_rights is_full =
     (case src of
        None \<Rightarrow> Some InvalidHandle
      | Some n \<Rightarrow>
          if \<not> rights_contains (cap_rights (cn_cap n)) rights_DERIVE then Some InsufficientRights
          else if \<not> rights_contains (cap_rights (cn_cap n)) new_rights then Some WidenedRights
          else if cn_depth n \<ge> MAX_DERIVATION_DEPTH then Some DerivationTooDeep
          else if is_full then Some CapsExhausted
          else None)"

lemma saturating_add_small: "d \<le> 1000 \<Longrightarrow> saturating_add d 1 = Suc d"
  by (simp add: saturating_add_def usize_max_def)

lemma wf_depth: "\<lbrakk>cap_wf t; ent t i = Some e\<rbrakk> \<Longrightarrow> se_depth e \<le> MAX_DERIVATION_DEPTH"
  using forest_Some [of "ent t" i e]
  unfolding cap_wf_def forest_ok_def node_ok_def node_of_def by fastforce

lemma wf_root_depth: "\<lbrakk>cap_wf t; ent t i = Some e; se_parent e = None\<rbrakk> \<Longrightarrow> se_depth e = 0"
  using forest_Some [of "ent t" i e]
  unfolding cap_wf_def forest_ok_def node_ok_def node_of_def by fastforce

lemma cap_copy_spec:
  assumes wf: "cap_wf t"
  shows "case copy_verdict (node_at t src) r (cap_table_is_full t) of
      Some e \<Rightarrow> cap_copy t src r = Some (t, Inl e)
    | None \<Rightarrow> \<exists>n t' h. node_at t src = Some n \<and> cap_copy t src r = Some (t', Inr h) \<and>
        adds_node t t' h \<lparr>cn_cap = \<lparr>cap_rights = r, cap_object = cap_object (cn_cap n)\<rparr>,
                          cn_parent = cn_parent n, cn_depth = cn_depth n\<rparr>"
proof (cases "copy_verdict (node_at t src) r (cap_table_is_full t)")
  case (Some err)
  show ?thesis
  proof (cases "entry_of t src")
    case (Inl x)
    then show ?thesis using entry_of_Inl [of t src x] by (simp add: copy_verdict_def cap_copy_def)
  next
    case (Inr e)
    then show ?thesis
      using Some by (auto simp: copy_verdict_def entry_of_node node_of_def cap_copy_def Let_def
          cap_table_is_full_def pop_free_full split: if_splits)
  qed
next
  case None
  then obtain n where n: "node_at t src = Some n" by (auto simp: copy_verdict_def split: option.splits)
  then obtain e where e: "entry_of t src = Inr e" "n = node_of e" using node_at_entry by blast
  have ok: "rights_contains (cap_rights (se_capability e)) rights_DUPLICATE"
      "rights_contains (cap_rights (se_capability e)) r" "\<not> cap_table_is_full t"
    using None n e by (auto simp: copy_verdict_def node_of_def split: if_splits)
  then obtain i where i: "ct_free_head t = Some i" by (auto simp: cap_table_is_full_def)
  have live: "ent t (ch_index src) = Some e" using e by (simp add: entry_of_live)
  let ?c = "\<lparr>cap_rights = r, cap_object = cap_object (se_capability e)\<rparr>"
  show ?thesis
  proof (cases "se_parent e")
    case None
    then have d: "se_depth e = 0" using wf live wf_root_depth by blast
    obtain t1 where "pop_free t = Some (t1, Some i)" "cs_generation (ct_slots t1 ! i) = cgen t i"
      "i < length (ct_slots t1)"
      "adds_node t (set_entry t1 i (Some \<lparr>se_capability = ?c, se_parent = None, se_first_child = None,
                   se_next_sibling = None, se_depth = 0\<rparr>)) \<lparr>ch_index = i, ch_generation = cgen t i\<rparr>
         \<lparr>cn_cap = ?c, cn_parent = None, cn_depth = 0\<rparr>"
      using add_root_effect [OF wf i refl] by metis
    then show ?thesis
      using ok e n d None \<open>copy_verdict _ _ _ = None\<close>
      by (simp add: cap_copy_def link_child_def node_of_def)
  next
    case (Some p)
    then obtain pe where pe: "ent t p = Some pe" "se_depth e = Suc (se_depth pe)"
        "rights_contains (cap_rights (se_capability pe)) (cap_rights (se_capability e))"
      using kids_parent_live wf live unfolding cap_wf_def by blast
    have r: "rights_contains (cap_rights (se_capability pe)) (cap_rights ?c)"
      using pe(3) ok(2) contains_trans by simp
    have d: "Suc (se_depth pe) \<le> MAX_DERIVATION_DEPTH"
      using wf_depth [OF wf live] pe(2) by simp
    obtain t1 where "pop_free t = Some (t1, Some i)" "cs_generation (ct_slots t1 ! i) = cgen t i"
      "i < length (ct_slots t1)" "ent t1 p = Some pe"
      "adds_node t (set_entry (set_entry t1 p (Some (pe\<lparr>se_first_child := Some i\<rparr>))) i
          (Some \<lparr>se_capability = ?c, se_parent = Some p, se_first_child = None,
                 se_next_sibling = se_first_child pe, se_depth = Suc (se_depth pe)\<rparr>))
         \<lparr>ch_index = i, ch_generation = cgen t i\<rparr>
         \<lparr>cn_cap = ?c, cn_parent = Some p, cn_depth = Suc (se_depth pe)\<rparr>"
      using add_child_effect [OF wf i pe(1) r d refl] by metis
    then show ?thesis
      using ok e n Some pe(2) \<open>copy_verdict _ _ _ = None\<close>
      by (simp add: cap_copy_def link_child_live node_of_def)
  qed
qed

lemma cap_derive_spec:
  assumes wf: "cap_wf t"
  shows "case derive_verdict (node_at t src) r (cap_table_is_full t) of
      Some e \<Rightarrow> cap_derive t src r obj = Some (t, Inl e)
    | None \<Rightarrow> \<exists>n t' h. node_at t src = Some n \<and> cap_derive t src r obj = Some (t', Inr h) \<and>
        adds_node t t' h \<lparr>cn_cap = \<lparr>cap_rights = r, cap_object = obj\<rparr>,
                          cn_parent = Some (ch_index src), cn_depth = Suc (cn_depth n)\<rparr>"
proof (cases "entry_of t src")
  case (Inl x)
  then show ?thesis using entry_of_Inl [of t src x] by (simp add: derive_verdict_def cap_derive_def)
next
  case (Inr e)
  have live: "ent t (ch_index src) = Some e" using Inr by (simp add: entry_of_live)
  have depth: "se_depth e \<le> 16" using wf_depth [OF wf live] by (simp add: MAX_DERIVATION_DEPTH_def)
  then have sat: "saturating_add (se_depth e) 1 = Suc (se_depth e)" using saturating_add_small [of "se_depth e"] by simp
  show ?thesis
  proof (cases "derive_verdict (node_at t src) r (cap_table_is_full t)")
    case (Some err)
    then show ?thesis
      using Inr sat by (auto simp: derive_verdict_def entry_of_node node_of_def cap_derive_def Let_def
          cap_table_is_full_def pop_free_full split: if_splits)
  next
    case None
    then have ok: "rights_contains (cap_rights (se_capability e)) rights_DERIVE"
        "rights_contains (cap_rights (se_capability e)) r" "\<not> cap_table_is_full t"
        "Suc (se_depth e) \<le> MAX_DERIVATION_DEPTH"
      using Inr by (auto simp: derive_verdict_def entry_of_node node_of_def split: if_splits)
    then obtain i where i: "ct_free_head t = Some i" by (auto simp: cap_table_is_full_def)
    let ?c = "\<lparr>cap_rights = r, cap_object = obj\<rparr>"
    have rc: "rights_contains (cap_rights (se_capability e)) (cap_rights ?c)" using ok by simp
    obtain t1 where "pop_free t = Some (t1, Some i)" "cs_generation (ct_slots t1 ! i) = cgen t i"
      "i < length (ct_slots t1)" "ent t1 (ch_index src) = Some e"
      "adds_node t (set_entry (set_entry t1 (ch_index src) (Some (e\<lparr>se_first_child := Some i\<rparr>))) i
          (Some \<lparr>se_capability = ?c, se_parent = Some (ch_index src), se_first_child = None,
                 se_next_sibling = se_first_child e, se_depth = Suc (se_depth e)\<rparr>))
         \<lparr>ch_index = i, ch_generation = cgen t i\<rparr>
         \<lparr>cn_cap = ?c, cn_parent = Some (ch_index src), cn_depth = Suc (se_depth e)\<rparr>"
      using add_child_effect [OF wf i live rc ok(4) refl] by metis
    then show ?thesis
      using ok None Inr sat by (simp add: cap_derive_def Let_def link_child_live entry_of_node node_of_def)
  qed
qed

section \<open>Drop and take\<close>

lemma unlink_walk_finds:
  assumes "chain (nsib (ent t)) cursor cs" "set cs \<subseteq> {..<length (ct_slots t)}"
    and "index \<in> set cs" "cursor \<noteq> Some index"
  shows "\<exists>c \<in> set cs. unlink_walk t index cursor = Some (Some c) \<and> nsib (ent t) c = Some index"
  using assms
proof (induction cs arbitrary: cursor)
  case (Cons c cs)
  then have c: "cursor = Some c" "c < length (ct_slots t)" "chain (nsib (ent t)) (nsib (ent t) c) cs"
    by auto
  have ns: "Option.bind (cs_entry (ct_slots t ! c)) se_next_sibling = nsib (ent t) c"
    using c(2) by (simp add: nsib_def ent_nth)
  show ?case
  proof (cases "nsib (ent t) c = Some index")
    case True
    then show ?thesis using c ns by (simp add: unlink_walk.simps)
  next
    case False
    have "index \<in> set cs" using Cons.prems c by auto
    from Cons.IH [OF c(3) _ this False] obtain d where
      "d \<in> set cs" "unlink_walk t index (nsib (ent t) c) = Some (Some d)" "nsib (ent t) d = Some index"
      using Cons.prems(2) by auto
    then show ?thesis using c ns False by (subst unlink_walk.simps) auto
  qed
qed simp

text \<open>
  Unlinking a leaf and then freeing its slot, from the state before the unlink:
  the two steps together remove the leaf from the forest.
\<close>

lemma unlink_free_leaf:
  assumes wf: "cap_wf t" and e: "ent t i = Some e" and leaf: "se_first_child e = None"
  obtains t1 where "unlink_from_siblings t i = Some (t1, Inr ())"
    "removes_nodes t (free_slot t1 i) {i}" "\<exists>e'. ent t1 i = Some e' \<and> se_capability e' = se_capability e"
proof -
  have links: "links_ok (ent t)" and fo: "forest_ok (forest (ent t))" and fp: "free_part t {}"
    using wf by (simp_all add: cap_wf_def)
  have len: "length (ct_slots t) = CAP_TABLE_CAPACITY" using wf by simp
  have i: "i < CAP_TABLE_CAPACITY" using wf e by (rule wf_ent_bound)
  have nokids: "kids (ent t) i = {}" using links_okD [OF links e] leaf by simp
  have rm: "forest_ok ((forest (ent t))(i := None))"
    using fo by (rule forest_remove) (use nokids in \<open>auto simp: kids_forest [symmetric]\<close>)
  have restrict: "forest (ent t) |` (- {i}) = (forest (ent t))(i := None)"
    by (auto simp: restrict_map_def)
  have finish: "removes_nodes t (free_slot t1 i) {i}"
    if "free_part t1 {}" "\<exists>e'. ent t1 i = Some e'" "links_ok ((ent t1)(i := None))"
      "forest ((ent t1)(i := None)) = (forest (ent t))(i := None)" "cgen t1 = cgen t" for t1
  proof -
    have "free_part (free_slot t1 i) {}" using that free_part_free_slot by blast
    moreover have "cgen (free_slot t1 i) = (\<lambda>j. if j \<in> {i} then cgen t j + 1 else cgen t j)"
      using that i cgen_free_slot [of i t1] by (auto simp: fun_eq_iff)
    ultimately show ?thesis
      using that rm e unfolding removes_nodes_def cap_wf_def ent_free_slot restrict by simp
  qed
  have slot: "nth_opt (ct_slots t) i = Some (ct_slots t ! i)" "cs_entry (ct_slots t ! i) = Some e"
    using i len e by (simp_all add: ent_nth)
  show ?thesis
  proof (cases "se_parent e")
    case None
    then have "unlink_from_siblings t i = Some (t, Inr ())"
      using slot by (simp add: unlink_from_siblings_def)
    moreover have "removes_nodes t (free_slot t i) {i}"
      using e fp links_remove_root [OF links e None nokids] by (intro finish) auto
    ultimately show ?thesis using that e by blast
  next
    case (Some p)
    then obtain pe where pe: "ent t p = Some pe" "p \<noteq> i"
      using kids_parent_live [OF fo e] by blast
    then have p: "p < CAP_TABLE_CAPACITY" "cs_entry (ct_slots t ! p) = Some pe"
      using wf_ent_bound [OF wf pe(1)] len pe(1) by (simp_all add: ent_nth)
    have sibs: "linked (nsib (ent t)) (se_first_child pe) (kids (ent t) p)"
      using links pe(1) by (rule links_okD)
    have ik: "i \<in> kids (ent t) p" using e Some by (simp add: kids_def)
    show ?thesis
    proof (cases "se_first_child pe = Some i")
      case True
      let ?t1 = "set_entry t p (Some (pe\<lparr>se_first_child := se_next_sibling e\<rparr>))"
      have E: "ent ?t1 = (ent t)(p \<mapsto> pe\<lparr>se_first_child := se_next_sibling e\<rparr>)"
        using p(1) len by simp
      have "unlink_from_siblings t i = Some (?t1, Inr ())"
        using slot Some p len True by (simp add: unlink_from_siblings_def)
      moreover have "removes_nodes t (free_slot ?t1 i) {i}"
        using free_part_relink [OF fp pe(1)] e pe
          links_remove_head [OF links e Some nokids pe(2,1) True]
        by (intro finish) (auto simp: E)
      ultimately show ?thesis using that e pe(2) E by auto
    next
      case False
      obtain cs where cs: "chain (nsib (ent t)) (se_first_child pe) cs" "set cs = kids (ent t) p"
        using sibs by (auto simp: linked_def)
      have "set cs \<subseteq> {..<length (ct_slots t)}"
        unfolding cs(2) by (auto simp: kids_def dest: ent_bound)
      then obtain c where c: "c \<in> kids (ent t) p" "nsib (ent t) c = Some i"
          "unlink_walk t i (se_first_child pe) = Some (Some c)"
        using unlink_walk_finds [OF cs(1), of i] ik False cs(2) by auto
      then obtain ce where ce: "ent t c = Some ce" "se_next_sibling ce = Some i"
        by (auto simp: kids_def nsib_def)
      have ci: "c \<noteq> i"
      proof
        assume "c = i"
        then have "chain (nsib (ent t)) (Some i) (i # ys) \<longleftrightarrow> False" for ys
          using c(2) chain_distinct [of "nsib (ent t)" "Some i" "i # ys"] by (cases ys) auto
        moreover obtain as bs where "cs = as @ i # bs"
          using ik cs(2) by (metis in_set_conv_decomp)
        ultimately show False using cs(1) chain_append by metis
      qed
      let ?t1 = "set_entry t c (Some (ce\<lparr>se_next_sibling := se_next_sibling e\<rparr>))"
      have cl: "c < CAP_TABLE_CAPACITY" "cs_entry (ct_slots t ! c) = Some ce"
        using wf_ent_bound [OF wf ce(1)] len ce(1) by (auto simp: ent_nth)
      have E: "ent ?t1 = (ent t)(c \<mapsto> ce\<lparr>se_next_sibling := se_next_sibling e\<rparr>)"
        using cl(1) len by simp
      have "unlink_from_siblings t i = Some (?t1, Inr ())"
        using slot Some p len False c(3) cl by (simp add: unlink_from_siblings_def)
      moreover have "removes_nodes t (free_slot ?t1 i) {i}"
        using free_part_relink [OF fp ce(1)] e ce ci
          links_remove_inner [OF links e Some nokids ci c(1) ce pe(1)]
        by (intro finish) (auto simp: E)
      ultimately show ?thesis using that e ci E by auto
    qed
  qed
qed

definition has_children :: "cap_table \<Rightarrow> cap_handle \<Rightarrow> bool" where
  "has_children t h \<longleftrightarrow> descendants (forest (ent t)) (ch_index h) \<noteq> {}"

lemma has_children_iff:
  assumes "cap_wf t" "entry_of t h = Inr e"
  shows "has_children t h \<longleftrightarrow> se_first_child e \<noteq> None"
proof -
  have "linked (nsib (ent t)) (se_first_child e) (kids (ent t) (ch_index h))"
    using assms by (intro links_okD) (auto simp: cap_wf_def entry_of_live)
  then have "se_first_child e = None \<longleftrightarrow> kids (ent t) (ch_index h) = {}"
    by (cases "se_first_child e") (auto dest: linked_head)
  moreover have "descendants (forest (ent t)) (ch_index h) = {}" if "kids (ent t) (ch_index h) = {}"
    using descendants_least [of "ch_index h" "forest (ent t)" "{}"] that
    by (auto simp: kids_forest [symmetric])
  then have "kids (ent t) (ch_index h) = {} \<longleftrightarrow> descendants (forest (ent t)) (ch_index h) = {}"
    using kids_descendants [of "ent t" "ch_index h"] by blast
  ultimately show ?thesis by (simp add: has_children_def)
qed

lemma cap_drop_spec:
  assumes wf: "cap_wf t"
  shows "if node_at t h = None then cap_drop t h = Some (t, Inl InvalidHandle)
     else if has_children t h then cap_drop t h = Some (t, Inl HasChildren)
     else \<exists>t'. cap_drop t h = Some (t', Inr ()) \<and> removes_nodes t t' {ch_index h}"
proof (cases "entry_of t h")
  case (Inl x)
  then show ?thesis
    using entry_of_Inl [of t h x] by (simp add: cap_drop_def resolve_handle_entry)
next
  case (Inr e)
  have slot: "cs_entry (ct_slots t ! ch_index h) = Some e" using Inr by (rule entry_of_slot)
  show ?thesis
  proof (cases "se_first_child e")
    case None
    have live: "ent t (ch_index h) = Some e" using Inr by (simp add: entry_of_live)
    obtain t1 where "unlink_from_siblings t (ch_index h) = Some (t1, Inr ())"
        "removes_nodes t (free_slot t1 (ch_index h)) {ch_index h}"
      using unlink_free_leaf [OF wf live None] by blast
    then show ?thesis
      using Inr slot None has_children_iff [OF wf Inr]
      by (simp add: cap_drop_def resolve_handle_entry entry_of_node)
  next
    case (Some c)
    then show ?thesis
      using Inr slot has_children_iff [OF wf Inr]
      by (simp add: cap_drop_def resolve_handle_entry entry_of_node)
  qed
qed

lemma cap_take_spec:
  assumes wf: "cap_wf t"
  shows "case node_at t h of
      None \<Rightarrow> cap_take t h = Some (t, Inl InvalidHandle)
    | Some n \<Rightarrow>
        if has_children t h then cap_take t h = Some (t, Inl HasChildren)
        else \<exists>t'. cap_take t h = Some (t', Inr (cn_cap n)) \<and> removes_nodes t t' {ch_index h}"
proof (cases "entry_of t h")
  case (Inl x)
  then show ?thesis
    using entry_of_Inl [of t h x] by (simp add: cap_take_def resolve_handle_entry)
next
  case (Inr e)
  have slot: "cs_entry (ct_slots t ! ch_index h) = Some e" using Inr by (rule entry_of_slot)
  show ?thesis
  proof (cases "se_first_child e")
    case None
    have live: "ent t (ch_index h) = Some e" using Inr by (simp add: entry_of_live)
    obtain t1 e' where t1: "unlink_from_siblings t (ch_index h) = Some (t1, Inr ())"
        "removes_nodes t (free_slot t1 (ch_index h)) {ch_index h}"
        "ent t1 (ch_index h) = Some e'" "se_capability e' = se_capability e"
      using unlink_free_leaf [OF wf live None] by blast
    have "cs_entry (ct_slots t1 ! ch_index h) = Some e'" "ch_index h < length (ct_slots t1)"
      using t1(3) ent_bound [OF t1(3)] by (auto simp: ent_nth)
    then show ?thesis
      using Inr slot None t1 has_children_iff [OF wf Inr]
      by (simp add: cap_take_def resolve_handle_entry entry_of_node free_slot_set_entry node_of_def)
  next
    case (Some c)
    then show ?thesis
      using Inr slot has_children_iff [OF wf Inr]
      by (simp add: cap_take_def resolve_handle_entry entry_of_node)
  qed
qed

end
