(* ===== verification/CapRevoke.thy ===== *)
theory CapRevoke
  imports CapTable_Props
begin

text \<open>
  Revocation and whole histories of the capability table. The breadth-first
  walk of \<open>cap_revoke\<close> is shown to collect the descendants of the source, each
  once, within its fixed array; freeing them removes exactly the subtree. Then:
  the table as an instance of the store contract, the invariant over every
  sequence of operations from the empty table, and how long a revoked handle
  stays dead.
\<close>

section \<open>The breadth-first walk\<close>

lemma collect_siblings_chain:
  assumes "chain (nsib (ent t)) child cs" "set cs \<subseteq> {..<length (ct_slots t)}"
    and "length desc + length cs \<le> CAP_TABLE_CAPACITY"
  shows "collect_siblings t child desc = Some (desc @ cs)"
  using assms
proof (induction cs arbitrary: child desc)
  case Nil
  then show ?case by (simp add: collect_siblings.simps)
next
  case (Cons c cs)
  then have c: "child = Some c" "c < length (ct_slots t)" "chain (nsib (ent t)) (nsib (ent t) c) cs"
    by auto
  have "Option.bind (cs_entry (ct_slots t ! c)) se_next_sibling = nsib (ent t) c"
    using c(2) by (simp add: nsib_def ent_nth)
  moreover have "collect_siblings t (nsib (ent t) c) (desc @ [c]) = Some ((desc @ [c]) @ cs)"
    using Cons.prems c(3) by (intro Cons.IH) auto
  ultimately show ?case
    using c Cons.prems(3) by (subst collect_siblings.simps) auto
qed

text \<open>The queue between two steps of the expansion.\<close>

definition bfs_inv :: "cap_table \<Rightarrow> nat \<Rightarrow> nat \<Rightarrow> nat list \<Rightarrow> bool" where
  "bfs_inv t x scan desc \<longleftrightarrow>
     distinct desc \<and> set desc \<subseteq> descendants (forest (ent t)) x \<and> scan \<le> length desc \<and>
     kids (ent t) x \<subseteq> set desc \<and>
     (\<forall>d \<in> set (take scan desc). kids (ent t) d \<subseteq> set desc) \<and>
     (\<forall>d \<in> set desc. d \<in> kids (ent t) x \<or> (\<exists>q \<in> set (take scan desc). d \<in> kids (ent t) q))"

lemma kids_unique: "\<lbrakk>d \<in> kids E p; d \<in> kids E q\<rbrakk> \<Longrightarrow> p = q"
  by (auto simp: kids_def)

lemma descendants_ent: "i \<in> descendants (forest E) x \<Longrightarrow> \<exists>e. E i = Some e"
  by (drule descendants_live) simp

lemma descendants_bound:
  "cap_wf t \<Longrightarrow> descendants (forest (ent t)) x \<subseteq> {..<CAP_TABLE_CAPACITY}"
proof
  fix i assume "cap_wf t" "i \<in> descendants (forest (ent t)) x"
  then show "i \<in> {..<CAP_TABLE_CAPACITY}"
    by (auto dest!: descendants_ent wf_ent_bound)
qed

lemma bfs_step:
  assumes wf: "cap_wf t" and x: "ent t x = Some xe" and inv: "bfs_inv t x scan desc"
    and lt: "scan < length desc"
  obtains cs where "bfs_inv t x (Suc scan) (desc @ cs)"
    "collect_siblings t (Option.bind (ent t (desc ! scan)) se_first_child) desc = Some (desc @ cs)"
proof -
  let ?d = "desc ! scan" and ?F = "forest (ent t)"
  have dist: "distinct desc" and sub: "set desc \<subseteq> descendants ?F x"
    using inv by (simp_all add: bfs_inv_def)
  have dd: "?d \<in> descendants ?F x" using sub lt by auto
  then obtain de where de: "ent t ?d = Some de"
    using descendants_ent by blast
  then have "linked (nsib (ent t)) (se_first_child de) (kids (ent t) ?d)"
    using wf by (intro links_okD) (auto simp: cap_wf_def)
  then obtain cs where cs: "chain (nsib (ent t)) (se_first_child de) cs" "set cs = kids (ent t) ?d"
    by (auto simp: linked_def)
  have kd: "kids (ent t) ?d \<subseteq> descendants ?F x"
    using descendants_step [OF dd] by (auto simp: kids_forest)
  have "x \<notin> descendants ?F x"
    using wf x by (intro not_own_descendant [of _ _ "node_of xe"]) (auto simp: cap_wf_def forest_def)
  then have dx: "?d \<noteq> x" using dd by auto
  have dtake: "?d \<notin> set (take scan desc)"
    using dist lt by (auto simp: in_set_conv_nth nth_eq_iff_index_eq)
  have new: "kids (ent t) ?d \<inter> set desc = {}"
  proof (rule ccontr)
    assume "kids (ent t) ?d \<inter> set desc \<noteq> {}"
    then obtain y where y: "y \<in> kids (ent t) ?d" "y \<in> set desc" by blast
    then have "y \<in> kids (ent t) x \<or> (\<exists>q \<in> set (take scan desc). y \<in> kids (ent t) q)"
      using inv by (simp add: bfs_inv_def)
    then show False using kids_unique y(1) dx dtake by metis
  qed
  have distinct: "distinct (desc @ cs)"
    using dist new cs chain_distinct [OF cs(1)] by auto
  have sub': "set (desc @ cs) \<subseteq> descendants ?F x" using sub kd cs(2) by simp
  have bound: "set (desc @ cs) \<subseteq> {..<CAP_TABLE_CAPACITY}"
    using sub' descendants_bound [OF wf] by blast
  then have "length (desc @ cs) \<le> CAP_TABLE_CAPACITY"
    using distinct by (intro distinct_subset_length)
  then have "collect_siblings t (se_first_child de) desc = Some (desc @ cs)"
    using cs(1) bound wf by (intro collect_siblings_chain) auto
  moreover have "take (Suc scan) (desc @ cs) = take scan desc @ [?d]"
    using lt by (simp add: take_Suc_conv_app_nth)
  then have "bfs_inv t x (Suc scan) (desc @ cs)"
    using inv distinct sub' lt cs(2) unfolding bfs_inv_def by (auto 0 3)
  ultimately show ?thesis using that de by simp
qed

lemma collect_expand_descendants:
  assumes "cap_wf t" "ent t x = Some xe" "bfs_inv t x scan desc"
  shows "\<exists>D. collect_expand t scan desc = Some D \<and> distinct D \<and>
    set D = descendants (forest (ent t)) x"
  using assms
proof (induction t scan desc rule: collect_expand.induct)
  case (1 t scan desc)
  show ?case
  proof (cases "scan < length desc")
    case True
    obtain cs where cs: "bfs_inv t x (Suc scan) (desc @ cs)"
      "collect_siblings t (Option.bind (ent t (desc ! scan)) se_first_child) desc = Some (desc @ cs)"
      using bfs_step [OF "1.prems" True] by blast
    have "desc ! scan \<in> descendants (forest (ent t)) x"
      using "1.prems"(3) True by (auto simp: bfs_inv_def)
    then have b: "desc ! scan < length (ct_slots t)"
      using descendants_bound [OF "1.prems"(1)] "1.prems"(1) by auto
    then have s: "nth_opt (ct_slots t) (desc ! scan) = Some (ct_slots t ! (desc ! scan))" by simp
    have cs': "collect_siblings t (Option.bind (cs_entry (ct_slots t ! (desc ! scan))) se_first_child) desc =
        Some (desc @ cs)"
      using cs(2) b by (simp add: ent_nth)
    show ?thesis
      using "1.IH" [OF True s cs' "1.prems"(1,2) cs(1)] True s cs'
      by (subst collect_expand.simps) simp
  next
    case False
    then have all: "take scan desc = desc" using "1.prems"(3) by (simp add: bfs_inv_def)
    have "descendants (forest (ent t)) x \<subseteq> set desc"
      using "1.prems"(3) unfolding bfs_inv_def all
      by (intro descendants_least) (auto simp: kids_forest [symmetric])
    then show ?thesis
      using False "1.prems"(3) by (subst collect_expand.simps) (auto simp: bfs_inv_def)
  qed
qed

lemma collect_all_descendants:
  assumes wf: "cap_wf t" and x: "ent t x = Some xe"
  obtains seeds D where "collect_siblings t (se_first_child xe) [] = Some seeds"
    "collect_expand t 0 seeds = Some D" "distinct D" "set D = descendants (forest (ent t)) x"
proof -
  have "linked (nsib (ent t)) (se_first_child xe) (kids (ent t) x)"
    using wf x by (intro links_okD) (auto simp: cap_wf_def)
  then obtain cs where cs: "chain (nsib (ent t)) (se_first_child xe) cs" "set cs = kids (ent t) x"
    by (auto simp: linked_def)
  have kd: "kids (ent t) x \<subseteq> descendants (forest (ent t)) x" by (rule kids_descendants)
  then have bound: "set cs \<subseteq> {..<CAP_TABLE_CAPACITY}"
    using descendants_bound [OF wf] cs(2) by blast
  then have "length cs \<le> CAP_TABLE_CAPACITY"
    using chain_distinct [OF cs(1)] by (intro distinct_subset_length)
  then have "collect_siblings t (se_first_child xe) [] = Some ([] @ cs)"
    using cs(1) bound wf by (intro collect_siblings_chain) auto
  moreover have "bfs_inv t x 0 cs"
    using cs kd chain_distinct [OF cs(1)] by (simp add: bfs_inv_def)
  ultimately show ?thesis using collect_expand_descendants [OF wf x] that by fastforce
qed

lemma free_all:
  assumes "free_part t {}" "distinct D" "\<forall>i\<in>set D. ent t i \<noteq> None"
  shows "free_part (foldl free_slot t D) {} \<and> ent (foldl free_slot t D) = ent t |` (- set D) \<and>
    cgen (foldl free_slot t D) = (\<lambda>i. if i \<in> set D then cgen t i + 1 else cgen t i)"
  using assms
proof (induction D arbitrary: t)
  case (Cons d D)
  obtain e where e: "ent t d = Some e" using Cons.prems(3) by auto
  let ?t = "free_slot t d"
  have "free_part ?t {}" using Cons.prems(1) e by (rule free_part_free_slot)
  moreover have "\<forall>i\<in>set D. ent ?t i \<noteq> None"
    using Cons.prems(2,3) by (auto simp: ent_free_slot)
  ultimately have IH: "free_part (foldl free_slot ?t D) {}"
      "ent (foldl free_slot ?t D) = ent ?t |` (- set D)"
      "cgen (foldl free_slot ?t D) = (\<lambda>i. if i \<in> set D then cgen ?t i + 1 else cgen ?t i)"
    using Cons.IH [of ?t] Cons.prems(2) by auto
  have "ent ?t |` (- set D) = ent t |` (- set (d # D))"
    by (auto simp: ent_free_slot restrict_map_def fun_eq_iff)
  moreover have "cgen ?t = (cgen t)(d := cgen t d + 1)"
    using ent_bound [OF e] by (rule cgen_free_slot)
  then have "(\<lambda>i. if i \<in> set D then cgen ?t i + 1 else cgen ?t i) =
      (\<lambda>i. if i \<in> set (d # D) then cgen t i + 1 else cgen t i)"
    using Cons.prems(2) by (auto simp: fun_eq_iff)
  ultimately show ?case using IH by simp
qed (auto simp: restrict_map_def)

lemma cap_revoke_spec:
  assumes wf: "cap_wf t"
  shows "case node_at t src of
      None \<Rightarrow> cap_revoke t src = Some (t, Inl InvalidHandle)
    | Some n \<Rightarrow>
        if \<not> rights_contains (cap_rights (cn_cap n)) rights_REVOKE
        then cap_revoke t src = Some (t, Inl InsufficientRights)
        else \<exists>t'. cap_revoke t src = Some (t', Inr ()) \<and>
             removes_nodes t t' (descendants (forest (ent t)) (ch_index src)) \<and>
             node_at t' src = Some n"
proof (cases "entry_of t src")
  case (Inl x)
  then show ?thesis
    using entry_of_Inl [of t src x] by (simp add: cap_revoke_def resolve_handle_entry)
next
  case (Inr e)
  let ?x = "ch_index src" and ?F = "forest (ent t)"
  let ?D = "descendants ?F ?x"
  have slot: "cs_entry (ct_slots t ! ?x) = Some e" using Inr by (rule entry_of_slot)
  have live: "ent t ?x = Some e" using Inr by (simp add: entry_of_live)
  have x: "?x < CAP_TABLE_CAPACITY" using wf live by (rule wf_ent_bound)
  show ?thesis
  proof (cases "rights_contains (cap_rights (se_capability e)) rights_REVOKE")
    case False
    then show ?thesis
      using Inr slot by (simp add: cap_revoke_def resolve_handle_entry entry_of_node node_of_def)
  next
    case True
    obtain seeds D where D: "collect_siblings t (se_first_child e) [] = Some seeds"
      "collect_expand t 0 seeds = Some D" "distinct D" "set D = ?D"
      using collect_all_descendants [OF wf live] by blast
    let ?t1 = "foldl free_slot t D"
    have xD: "?x \<notin> ?D"
      using wf live by (intro not_own_descendant [of _ _ "node_of e"]) (auto simp: cap_wf_def forest_def)
    have t1: "free_part ?t1 {}" "ent ?t1 = ent t |` (- ?D)"
        "cgen ?t1 = (\<lambda>i. if i \<in> ?D then cgen t i + 1 else cgen t i)"
      using free_all [of t D] wf D(3,4) descendants_ent [of _ "ent t" ?x] by (auto simp: cap_wf_def)
    have live1: "ent ?t1 ?x = Some e" using live xD t1(2) by simp
    let ?t2 = "set_entry ?t1 ?x (Some (e\<lparr>se_first_child := None\<rparr>))"
    have E: "ent ?t2 = (ent t |` (- ?D))(?x \<mapsto> e\<lparr>se_first_child := None\<rparr>)"
      using x t1 by (simp add: free_part_length [OF t1(1)])
    have F: "forest (ent ?t2) = ?F |` (- ?D)"
      unfolding E using live xD by (auto simp: forest_def restrict_map_def fun_eq_iff)
    have links: "links_ok (ent ?t2)"
      unfolding E
    proof (rule links_prune)
      show "links_ok (ent t)" using wf by (simp add: cap_wf_def)
      show "kids (ent t) ?x \<subseteq> ?D" by (rule kids_descendants)
      show "kids (ent t) q \<inter> ?D = {}" if "q \<notin> ?D" "q \<noteq> ?x" for q
      proof (rule ccontr)
        assume "kids (ent t) q \<inter> ?D \<noteq> {}"
        then obtain c ce where c: "c \<in> ?D" "ent t c = Some ce" "se_parent ce = Some q"
          by (auto simp: kids_def)
        then show False
          using descendants_parent [OF c(1) forest_Some [of "ent t", OF c(2)]] that
          by (auto simp: node_of_def)
      qed
    qed (use live xD in auto)
    have "cap_wf ?t2"
      unfolding cap_wf_def F
      using free_part_relink [OF t1(1) live1] links forest_prune wf by (simp add: cap_wf_def)
    then have rem: "removes_nodes t ?t2 ?D"
      using F t1(3) descendants_ent [of _ "ent t" ?x] by (auto simp: removes_nodes_def)
    have "nth_opt (ct_slots ?t1) ?x = Some (ct_slots ?t1 ! ?x)" "cs_entry (ct_slots ?t1 ! ?x) = Some e"
      using ent_bound [OF live1] live1 by (simp_all add: ent_nth)
    then have "cap_revoke t src = Some (?t2, Inr ())"
      using Inr slot True D by (simp add: cap_revoke_def resolve_handle_entry)
    moreover have "node_at ?t2 src = node_at t src"
      using removes_node_at [OF rem] xD by simp
    ultimately show ?thesis
      using rem Inr True by (simp add: entry_of_node node_of_def)
  qed
qed

section \<open>The empty table\<close>

lemma cap_table_new_views:
  "ent cap_table_new = Map.empty" "length (ct_slots cap_table_new) = CAP_TABLE_CAPACITY"
  by (auto simp: ent_def cap_table_new_def nth_opt_def fun_eq_iff)

lemma cap_table_new_wf: "cap_wf cap_table_new"
proof -
  have nx: "ct_next cap_table_new =
      (\<lambda>i. if i < CAP_TABLE_CAPACITY \<and> Suc i < CAP_TABLE_CAPACITY then Some (Suc i) else None)"
    by (auto simp: ct_next_def cap_table_new_def nth_opt_def fun_eq_iff)
  have "ct_free_head cap_table_new = (if 0 < CAP_TABLE_CAPACITY then Some 0 else None)"
    by (simp add: cap_table_new_def CAP_TABLE_CAPACITY_def)
  moreover have "{i. i < CAP_TABLE_CAPACITY \<and> ent cap_table_new i = None} - {} = {0..<CAP_TABLE_CAPACITY}"
    by (auto simp: cap_table_new_views)
  ultimately have "free_part cap_table_new {}"
    unfolding free_part_def nx using linked_upt [of CAP_TABLE_CAPACITY 0]
    by (simp only: cap_table_new_views simp_thms)
  moreover have "links_ok (ent cap_table_new)" "forest_ok (forest (ent cap_table_new))"
    by (simp_all add: links_ok_def forest_ok_def cap_table_new_views forest_def)
  ultimately show ?thesis by (simp add: cap_wf_def)
qed

section \<open>The table as a generational store\<close>

definition cap_get :: "cap_table \<Rightarrow> cap_handle \<Rightarrow> capability option" where
  "cap_get t h = (case cap_lookup t h of Inl _ \<Rightarrow> None | Inr c \<Rightarrow> Some c)"

lemma cap_get_node: "cap_get t h = map_option cn_cap (node_at t h)"
  by (auto simp: cap_get_def lookup_node split: option.split)

lemma insert_root_cases:
  assumes "cap_wf t"
  shows "if cap_table_is_full t then insert_root t c = Some (t, Inl CapsExhausted)
    else \<exists>t' h. insert_root t c = Some (t', Inr h) \<and>
      adds_node t t' h \<lparr>cn_cap = c, cn_parent = None, cn_depth = 0\<rparr>"
  using insert_root_full [of t c] insert_root_room [OF assms, of c] by auto

lemma insert_root_adds:
  assumes "cap_wf t" "insert_root t c = Some (t', Inr h)"
  shows "adds_node t t' h \<lparr>cn_cap = c, cn_parent = None, cn_depth = 0\<rparr>"
  using insert_root_cases [OF assms(1), of c] assms(2) by (auto split: if_splits)

lemma cap_take_removes:
  assumes "cap_wf t" "cap_take t h = Some (t', Inr c)"
  shows "\<exists>n. node_at t h = Some n \<and> c = cn_cap n \<and> removes_nodes t t' {ch_index h}"
  using cap_take_spec [OF assms(1), of h] assms(2) by (auto split: option.splits if_splits)

lemma removes_leaf_get:
  assumes "removes_nodes t t' {ch_index h}" "node_at t h = Some n"
  shows "cap_get t' = (cap_get t)(h := None)"
proof
  fix k
  have "node_at t k = None" if "ch_index k = ch_index h" "k \<noteq> h"
    using assms(2) that by (auto simp: node_at_def cap_handle_eq_iff split: if_splits)
  then show "cap_get t' k = ((cap_get t)(h := None)) k"
    using removes_node_at [OF assms(1), of k] by (auto simp: cap_get_node)
qed

lemma removes_some_room:
  assumes "cap_wf t" "removes_nodes t t' D" "i \<in> D"
  shows "\<not> cap_table_is_full t'"
proof
  assume full: "cap_table_is_full t'"
  have wf': "cap_wf t'" using assms(2) by (simp add: removes_nodes_def)
  obtain e where "ent t i = Some e" using assms(2,3) by (auto simp: removes_nodes_def)
  then have "i < CAP_TABLE_CAPACITY" using assms(1) wf_ent_bound by blast
  then have "ent t' i \<noteq> None" using full wf_full_iff [OF wf'] by simp
  moreover have "forest (ent t') i = None" using assms(2,3) by (simp add: removes_nodes_def)
  ultimately show False by simp
qed

interpretation caps: gen_store cap_wf cap_get "\<lambda>t c. ok_part (insert_root t c)"
  "\<lambda>t h. ok_part (cap_take t h)" cap_table_is_full
proof (unfold_locales, goal_cases)
  case (1 s v s' h)
  then show ?case using insert_root_adds [of s v s' h] by (simp add: adds_node_def)
next
  case (2 s v s' h)
  then show ?case
    using insert_root_adds [of s v s' h] adds_node_at [of s s' h]
    by (auto simp: cap_get_node fun_eq_iff)
next
  case (3 s v)
  then show ?case
    using insert_root_cases [of s v] by (auto simp: ok_part_def split: if_splits)
next
  case (4 s h s' v)
  then show ?case using cap_take_removes [of s h s' v] by (auto simp: removes_nodes_def)
next
  case (5 s h s' v)
  then obtain n where n: "node_at s h = Some n" "v = cn_cap n" "removes_nodes s s' {ch_index h}"
    using cap_take_removes [of s h s' v] by auto
  then show ?case using removes_leaf_get [OF n(3,1)] by (simp add: cap_get_node)
next
  case (6 s h s' v)
  then show ?case using cap_take_removes [of s h s' v] removes_some_room [of s s' "{ch_index h}"] by auto
qed

section \<open>Histories\<close>

datatype cap_op =
    Op_insert_root capability
  | Op_copy cap_handle cap_rights
  | Op_derive cap_handle cap_rights cap_object
  | Op_revoke cap_handle
  | Op_drop cap_handle
  | Op_take cap_handle

fun cap_step :: "cap_table \<Rightarrow> cap_op \<Rightarrow> cap_table option" where
  "cap_step t (Op_insert_root c) = map_option fst (insert_root t c)"
| "cap_step t (Op_copy h r) = map_option fst (cap_copy t h r)"
| "cap_step t (Op_derive h r obj) = map_option fst (cap_derive t h r obj)"
| "cap_step t (Op_revoke h) = map_option fst (cap_revoke t h)"
| "cap_step t (Op_drop h) = map_option fst (cap_drop t h)"
| "cap_step t (Op_take h) = map_option fst (cap_take t h)"

fun cap_run :: "cap_table \<Rightarrow> cap_op list \<Rightarrow> cap_table option" where
  "cap_run t [] = Some t"
| "cap_run t (w # ws) = Option.bind (cap_step t w) (\<lambda>t'. cap_run t' ws)"

text \<open>Every step adds one node, removes some, or changes nothing.\<close>

lemma cap_step_cases:
  assumes "cap_wf t"
  obtains (same) "cap_step t w = Some t"
  | (add) t' h n where "cap_step t w = Some t'" "adds_node t t' h n"
  | (remove) t' D where "cap_step t w = Some t'" "removes_nodes t t' D"
proof (cases w)
  case (Op_insert_root c)
  then show ?thesis
    using insert_root_cases [OF assms, of c] that by (fastforce split: if_splits)
next
  case (Op_copy h r)
  then show ?thesis
    using cap_copy_spec [OF assms, of h r] that by (fastforce split: option.splits)
next
  case (Op_derive h r obj)
  then show ?thesis
    using cap_derive_spec [OF assms, of h r obj] that by (fastforce split: option.splits)
next
  case (Op_revoke h)
  then show ?thesis
    using cap_revoke_spec [OF assms, of h] that by (fastforce split: option.splits if_splits)
next
  case (Op_drop h)
  then show ?thesis
    using cap_drop_spec [OF assms, of h] that by (fastforce split: option.splits if_splits)
next
  case (Op_take h)
  then show ?thesis
    using cap_take_spec [OF assms, of h] that by (fastforce split: option.splits if_splits)
qed

lemma cap_step_wf:
  assumes "cap_wf t"
  shows "\<exists>t'. cap_step t w = Some t' \<and> cap_wf t'"
  using assms by (rule cap_step_cases [of t w]) (use assms in \<open>auto simp: adds_node_def removes_nodes_def\<close>)

lemma cap_run_wf: "cap_wf t \<Longrightarrow> \<exists>t'. cap_run t ws = Some t' \<and> cap_wf t'"
proof (induction ws arbitrary: t)
  case (Cons w ws)
  obtain t1 where "cap_step t w = Some t1" "cap_wf t1" using cap_step_wf [OF Cons.prems] by blast
  then show ?case using Cons.IH [of t1] by simp
qed simp

lemma cap_step_gen:
  assumes "cap_wf t" "cap_step t w = Some t'"
  shows "\<exists>k \<le> 1. cgen t' i = cgen t i + of_nat k"
  using assms(1)
proof (rule cap_step_cases [of t w])
  assume "cap_step t w = Some t"
  then show ?thesis using assms(2) by (auto intro: exI [of _ 0])
next
  fix t1 h n assume "cap_step t w = Some t1" "adds_node t t1 h n"
  then show ?thesis using assms(2) by (auto simp: adds_node_def intro: exI [of _ 0])
next
  fix t1 D assume "cap_step t w = Some t1" "removes_nodes t t1 D"
  then have "cgen t' i = cgen t i + of_nat (if i \<in> D then 1 else 0)"
    using assms(2) by (simp add: removes_nodes_def)
  then show ?thesis by (metis le_refl zero_le)
qed

lemma cap_run_gen:
  assumes "cap_wf t" "cap_run t ws = Some t'"
  shows "\<exists>k \<le> length ws. cgen t' i = cgen t i + of_nat k"
  using assms
proof (induction ws arbitrary: t)
  case (Cons w ws)
  obtain t1 where t1: "cap_step t w = Some t1" "cap_wf t1" using cap_step_wf [OF Cons.prems(1)] by blast
  obtain k where k: "k \<le> 1" "cgen t1 i = cgen t i + of_nat k"
    using cap_step_gen [OF Cons.prems(1) t1(1)] by blast
  obtain m where "m \<le> length ws" "cgen t' i = cgen t1 i + of_nat m"
    using Cons.IH [OF t1(2)] Cons.prems(2) t1(1) by auto
  with k show ?case by (intro exI [of _ "k + m"]) auto
qed (auto intro: exI [of _ 0])

lemma removed_never_resolves:
  assumes rem: "removes_nodes t t' D" and "ch_index h \<in> D" "node_at t h \<noteq> None"
    and run: "cap_run t' ws = Some t''" and few: "length ws < 2 ^ 32 - 1"
  shows "node_at t'' h = None"
proof -
  let ?i = "ch_index h"
  have g: "cgen t' ?i = ch_generation h + 1"
    using assms(1-3) by (auto simp: removes_nodes_def node_at_def split: if_splits)
  obtain k where k: "k \<le> length ws" "cgen t'' ?i = cgen t' ?i + of_nat k"
    using cap_run_gen [OF _ run] rem by (auto simp: removes_nodes_def)
  have "(of_nat (Suc k) :: 32 word) \<noteq> 0"
    using k(1) few by (auto simp: word_of_nat_eq_0_iff simp del: of_nat_Suc dest!: dvd_imp_le)
  then have "cgen t'' ?i \<noteq> ch_generation h"
    by (simp add: k(2) g algebra_simps)
  then show ?thesis by (simp add: node_at_def)
qed

end
