(* ===== verification/Ipc.thy ===== *)
theory Ipc
  imports CapRevoke
begin

text \<open>
  Inter-process communication (\<open>kernel/src/ipc/mod.rs\<close>): the per-endpoint
  rendezvous state machine, kept in \<open>IpcQueues\<close> beside the endpoint arena, and
  the operations send, receive, cancel and notify. The operations thread the
  queues and the caller's capability table; the endpoint arena is only read.
\<close>

section \<open>Data\<close>

record message =
  msg_label :: "64 word"
  msg_params :: "64 word \<times> 64 word \<times> 64 word"

datatype ipc_error =
    StaleHandle | WrongObjectKind | MissingRight | QueueFull | InvalidTransferCap
  | ReceiverTableFull | PendingAfterResume

datatype send_outcome = Delivered | Enqueued

datatype recv_outcome = Received message "cap_handle option" | Pending

datatype endpoint_state =
    Idle
  | SendPending message "capability option"
  | RecvWaiting
  | RecvComplete message "capability option"

record ipc_queues =
  iq_states :: "endpoint_state list"
  iq_generations :: "32 word list"

definition ipc_queues_new :: ipc_queues where
  "ipc_queues_new =
     \<lparr>iq_states = replicate ENDPOINT_ARENA_CAPACITY Idle,
      iq_generations = replicate ENDPOINT_ARENA_CAPACITY 0\<rparr>"

section \<open>Waiter state\<close>

text \<open>
  The lookups of the waiter state first reset a slot that a previous endpoint
  left behind; indexing past the arrays would panic.
\<close>

definition reset_if_stale_generation :: "ipc_queues \<Rightarrow> endpoint_handle \<Rightarrow> (ipc_queues \<times> nat) option" where
  "reset_if_stale_generation q h =
     (let idx = si_index (eh_slot h); gen = si_generation (eh_slot h) in do {
        g \<leftarrow> nth_opt (iq_generations q) idx;
        if g \<noteq> gen then do {
          _ \<leftarrow> nth_opt (iq_states q) idx;
          Some (\<lparr>iq_states = (iq_states q)[idx := Idle],
                 iq_generations = (iq_generations q)[idx := gen]\<rparr>, idx)
        } else Some (q, idx)
      })"

text \<open>
  \<open>state_of\<close> hands out a mutable reference and \<open>peek_state\<close> a shared one; both
  are the state found there and the index at which a write goes.
\<close>

definition state_of :: "ipc_queues \<Rightarrow> endpoint_handle \<Rightarrow> (ipc_queues \<times> nat \<times> endpoint_state) option" where
  "state_of q h = do {
     (q', idx) \<leftarrow> reset_if_stale_generation q h;
     st \<leftarrow> nth_opt (iq_states q') idx;
     Some (q', idx, st)
   }"

definition peek_state :: "ipc_queues \<Rightarrow> endpoint_handle \<Rightarrow> (ipc_queues \<times> endpoint_state) option" where
  "peek_state q h = do {
     (q', idx) \<leftarrow> reset_if_stale_generation q h;
     st \<leftarrow> nth_opt (iq_states q') idx;
     Some (q', st)
   }"

definition put_state :: "ipc_queues \<Rightarrow> nat \<Rightarrow> endpoint_state \<Rightarrow> ipc_queues" where
  "put_state q idx st = q\<lparr>iq_states := (iq_states q)[idx := st]\<rparr>"

section \<open>Helpers\<close>

definition validate_ep_cap :: "cap_table \<Rightarrow> cap_handle \<Rightarrow> cap_rights \<Rightarrow> ipc_error + endpoint_handle" where
  "validate_ep_cap t ep_cap required =
     (case cap_lookup t ep_cap of
        Inl _ \<Rightarrow> Inl StaleHandle
      | Inr c \<Rightarrow>
          (case cap_object c of
             CapEndpoint h \<Rightarrow>
               if \<not> rights_contains (cap_rights c) required then Inl MissingRight else Inr h
           | _ \<Rightarrow> Inl WrongObjectKind))"

definition validate_notif_cap :: "cap_table \<Rightarrow> cap_handle \<Rightarrow> ipc_error + notification_handle" where
  "validate_notif_cap t notif_cap =
     (case cap_lookup t notif_cap of
        Inl _ \<Rightarrow> Inl StaleHandle
      | Inr c \<Rightarrow>
          (case cap_object c of
             CapNotification h \<Rightarrow>
               if \<not> rights_contains (cap_rights c) rights_NOTIFY then Inl MissingRight else Inr h
           | _ \<Rightarrow> Inl WrongObjectKind))"

definition take_cap_if_some ::
    "cap_table \<Rightarrow> cap_handle option \<Rightarrow> (cap_table, ipc_error, capability option) outcome" where
  "take_cap_if_some t handle =
     (case handle of
        None \<Rightarrow> Some (t, Inr None)
      | Some h \<Rightarrow> do {
          (t', r) \<leftarrow> cap_take t h;
          Some (t', case r of Inl _ \<Rightarrow> Inl InvalidTransferCap | Inr c \<Rightarrow> Inr (Some c))
        })"

definition install_cap_if_some ::
    "cap_table \<Rightarrow> capability option \<Rightarrow> (cap_table, ipc_error, cap_handle option) outcome" where
  "install_cap_if_some t cap =
     (case cap of
        None \<Rightarrow> Some (t, Inr None)
      | Some c \<Rightarrow> do {
          (t', r) \<leftarrow> insert_root t c;
          Some (t', case r of Inl _ \<Rightarrow> Inl ReceiverTableFull | Inr h \<Rightarrow> Inr (Some h))
        })"

section \<open>Operations\<close>

text \<open>The pre-flight check of the transferred capability in \<open>ipc_send\<close>.\<close>

definition transfer_ok :: "cap_table \<Rightarrow> cap_handle option \<Rightarrow> bool" where
  "transfer_ok t transfer =
     (case transfer of
        None \<Rightarrow> True
      | Some x \<Rightarrow>
          (case cap_lookup t x of
             Inl _ \<Rightarrow> False
           | Inr c \<Rightarrow> rights_contains (cap_rights c) rights_TRANSFER))"

definition queue_occupied :: "endpoint_state \<Rightarrow> bool" where
  "queue_occupied st = (case st of SendPending _ _ \<Rightarrow> True | RecvComplete _ _ \<Rightarrow> True | _ \<Rightarrow> False)"

definition ipc_send ::
    "endpoint_arena \<Rightarrow> ipc_queues \<Rightarrow> cap_handle \<Rightarrow> cap_table \<Rightarrow> message \<Rightarrow> cap_handle option \<Rightarrow>
       (ipc_queues \<times> cap_table, ipc_error, send_outcome) outcome" where
  "ipc_send arena q ep_cap t msg transfer =
     (case validate_ep_cap t ep_cap rights_SEND of
        Inl e \<Rightarrow> Some ((q, t), Inl e)
      | Inr h \<Rightarrow>
          if \<not> transfer_ok t transfer then Some ((q, t), Inl InvalidTransferCap)
          else if arena_get arena (eh_slot h) = None then Some ((q, t), Inl StaleHandle)
          else do {
            (q1, peeked) \<leftarrow> peek_state q h;
            if queue_occupied peeked then Some ((q1, t), Inl QueueFull)
            else do {
              (t1, owned) \<leftarrow> take_cap_if_some t transfer;
              case owned of
                Inl e \<Rightarrow> Some ((q1, t1), Inl e)
              | Inr cap \<Rightarrow> do {
                  (q2, idx, st) \<leftarrow> state_of q1 h;
                  case st of
                    RecvWaiting \<Rightarrow> Some ((put_state q2 idx (RecvComplete msg cap), t1), Inr Delivered)
                  | Idle \<Rightarrow> Some ((put_state q2 idx (SendPending msg cap), t1), Inr Enqueued)
                  | SendPending _ _ \<Rightarrow> None
                  | RecvComplete _ _ \<Rightarrow> None
                }
            }
          })"

definition pending_has_cap :: "endpoint_state \<Rightarrow> bool" where
  "pending_has_cap st =
     (case st of SendPending _ c \<Rightarrow> c \<noteq> None | RecvComplete _ c \<Rightarrow> c \<noteq> None | _ \<Rightarrow> False)"

definition ipc_recv ::
    "endpoint_arena \<Rightarrow> ipc_queues \<Rightarrow> cap_handle \<Rightarrow> cap_table \<Rightarrow>
       (ipc_queues \<times> cap_table, ipc_error, recv_outcome) outcome" where
  "ipc_recv arena q ep_cap t =
     (case validate_ep_cap t ep_cap rights_RECV of
        Inl e \<Rightarrow> Some ((q, t), Inl e)
      | Inr h \<Rightarrow>
          if arena_get arena (eh_slot h) = None then Some ((q, t), Inl StaleHandle)
          else do {
            (q1, peeked) \<leftarrow> peek_state q h;
            if pending_has_cap peeked \<and> cap_table_is_full t
            then Some ((q1, t), Inl ReceiverTableFull)
            else do {
              (q2, idx, old) \<leftarrow> state_of q1 h;
              let q3 = put_state q2 idx Idle;
              let deliver = (\<lambda>msg cap. do {
                (t1, xfer) \<leftarrow> install_cap_if_some t cap;
                Some ((q3, t1), case xfer of Inl e \<Rightarrow> Inl e | Inr x \<Rightarrow> Inr (Received msg x))
              });
              case old of
                SendPending msg cap \<Rightarrow> deliver msg cap
              | RecvComplete msg cap \<Rightarrow> deliver msg cap
              | Idle \<Rightarrow> Some ((put_state q3 idx RecvWaiting, t), Inr Pending)
              | RecvWaiting \<Rightarrow> Some ((put_state q3 idx RecvWaiting, t), Inl QueueFull)
            }
          })"

definition ipc_notify ::
    "notification_arena \<Rightarrow> cap_handle \<Rightarrow> cap_table \<Rightarrow> 64 word \<Rightarrow> notification_arena \<times> (ipc_error + unit)" where
  "ipc_notify arena notif_cap t bits =
     (case validate_notif_cap t notif_cap of
        Inl e \<Rightarrow> (arena, Inl e)
      | Inr h \<Rightarrow>
          (case arena_get_mut arena (nh_slot h) (\<lambda>n. notification_set n bits) of
             None \<Rightarrow> (arena, Inl StaleHandle)
           | Some arena' \<Rightarrow> (arena', Inr ())))"

definition ipc_cancel_recv ::
    "endpoint_arena \<Rightarrow> ipc_queues \<Rightarrow> cap_handle \<Rightarrow> cap_table \<Rightarrow> (ipc_queues, ipc_error, unit) outcome" where
  "ipc_cancel_recv arena q ep_cap t =
     (case validate_ep_cap t ep_cap rights_RECV of
        Inl e \<Rightarrow> Some (q, Inl e)
      | Inr h \<Rightarrow>
          if arena_get arena (eh_slot h) = None then Some (q, Inl StaleHandle)
          else do {
            (q1, idx, st) \<leftarrow> state_of q h;
            Some (if st = RecvWaiting then put_state q1 idx Idle else q1, Inr ())
          })"

end
