(* ===== verification/Memory.thy ===== *)
theory Memory
  imports Prelude
begin

text \<open>
  Addresses and memory (\<open>hal/src/mmu/mod.rs\<close>, the address types and the
  high-half direct map; \<open>kernel/src/mm/mod.rs\<close>, frame ranges). Addresses are
  naturals below \<open>2^64\<close>. The constants are those of the kernel build
  (\<open>target_os = "none"\<close> on aarch64), where the direct map is at
  \<open>0xFFFF_FFFF_0000_0000\<close> and asserts that the address is below 4 GiB.

  Memory is a function from kernel virtual addresses to bytes. Raw pointer
  writes of the source (\<open>write_bytes\<close>, \<open>copy_nonoverlapping\<close>, the volatile
  accesses to page tables) are functions on it; 64-bit cells are little-endian.
\<close>

unbundle bit_operations_syntax

section \<open>Addresses\<close>

definition PAGE_SIZE :: nat where
  "PAGE_SIZE = 4096"

definition KERNEL_HIGH_HALF_OFFSET :: nat where
  "KERNEL_HIGH_HALF_OFFSET = 0xFFFFFFFF00000000"

text \<open>\<^term>\<open>None\<close> is the failed \<open>assert!\<close>.\<close>

definition phys_to_kernel_va :: "nat \<Rightarrow> nat option" where
  "phys_to_kernel_va pa =
     (if KERNEL_HIGH_HALF_OFFSET = 0 \<or> pa < 0x100000000
      then Some (wrapping_add KERNEL_HIGH_HALF_OFFSET pa) else None)"

definition wrapping_sub :: "nat \<Rightarrow> nat \<Rightarrow> nat" where
  "wrapping_sub a b = nat ((int a - int b) mod 2 ^ 64)"

definition kernel_va_to_phys :: "nat \<Rightarrow> nat option" where
  "kernel_va_to_phys va =
     (if KERNEL_HIGH_HALF_OFFSET = 0 \<or> wrapping_sub va KERNEL_HIGH_HALF_OFFSET < 0x100000000
      then Some (wrapping_sub va KERNEL_HIGH_HALF_OFFSET) else None)"

text \<open>A frame is the physical address of its base, built only from an aligned one.\<close>

datatype phys_frame = PhysFrame (frame_addr: nat)

definition frame_from_aligned :: "nat \<Rightarrow> phys_frame option" where
  "frame_from_aligned pa = (if pa mod PAGE_SIZE = 0 then Some (PhysFrame pa) else None)"

lemma phys_to_kernel_va_eq:
  "pa < 0x100000000 \<Longrightarrow> phys_to_kernel_va pa = Some (0xFFFFFFFF00000000 + pa)"
  by (simp add: phys_to_kernel_va_def KERNEL_HIGH_HALF_OFFSET_def wrapping_add_def)

lemma phys_to_kernel_va_None: "phys_to_kernel_va pa = None \<longleftrightarrow> 0x100000000 \<le> pa"
  by (simp add: phys_to_kernel_va_def KERNEL_HIGH_HALF_OFFSET_def)

lemma direct_map_roundtrip:
  "phys_to_kernel_va pa = Some va \<Longrightarrow> kernel_va_to_phys va = Some pa"
  by (cases "pa < 0x100000000")
    (auto simp: phys_to_kernel_va_eq phys_to_kernel_va_None [THEN iffD2] kernel_va_to_phys_def
      wrapping_sub_def KERNEL_HIGH_HALF_OFFSET_def)

lemma direct_map_inj:
  "\<lbrakk>phys_to_kernel_va a = Some va; phys_to_kernel_va b = Some va\<rbrakk> \<Longrightarrow> a = b"
  by (drule direct_map_roundtrip)+ simp

section \<open>Frame ranges\<close>

record phys_frame_range =
  pr_start :: nat
  pr_end :: nat

definition range_is_aligned :: "phys_frame_range \<Rightarrow> bool" where
  "range_is_aligned r \<longleftrightarrow> pr_start r mod PAGE_SIZE = 0 \<and> pr_end r mod PAGE_SIZE = 0"

definition range_len_bytes :: "phys_frame_range \<Rightarrow> nat" where
  "range_len_bytes r = pr_end r - pr_start r"

definition range_frame_count :: "phys_frame_range \<Rightarrow> nat" where
  "range_frame_count r = range_len_bytes r div PAGE_SIZE"

definition range_contains :: "phys_frame_range \<Rightarrow> nat \<Rightarrow> bool" where
  "range_contains r pa \<longleftrightarrow> pr_start r \<le> pa \<and> pa < pr_end r"

section \<open>Bytes and cells\<close>

type_synonym memory = "nat \<Rightarrow> 8 word"

definition write_bytes :: "memory \<Rightarrow> nat \<Rightarrow> 8 word \<Rightarrow> nat \<Rightarrow> memory" where
  "write_bytes m p v n = (\<lambda>a. if p \<le> a \<and> a < p + n then v else m a)"

definition copy_bytes :: "memory \<Rightarrow> nat \<Rightarrow> 8 word list \<Rightarrow> memory" where
  "copy_bytes m p bs = (\<lambda>a. if p \<le> a \<and> a < p + length bs then bs ! (a - p) else m a)"

definition read_u64 :: "memory \<Rightarrow> nat \<Rightarrow> 64 word" where
  "read_u64 m p = foldr (\<lambda>i w. push_bit (8 * i) (ucast (m (p + i))) OR w) [0..<8] 0"

definition write_u64 :: "memory \<Rightarrow> nat \<Rightarrow> 64 word \<Rightarrow> memory" where
  "write_u64 m p v = (\<lambda>a. if p \<le> a \<and> a < p + 8 then ucast (drop_bit (8 * (a - p)) v) else m a)"

lemma bit_fold_or:
  "bit (foldr (\<lambda>i w. f i OR w) xs (0 :: 64 word)) n \<longleftrightarrow> (\<exists>i\<in>set xs. bit (f i) n)"
  by (induction xs) (auto simp: bit_or_iff)

lemma bit_read_u64: "n < 64 \<Longrightarrow> bit (read_u64 m p) n \<longleftrightarrow> bit (m (p + n div 8)) (n mod 8)"
proof -
  assume n: "n < 64"
  have "bit (push_bit (8 * i) (ucast (m (p + i)) :: 64 word)) n \<longleftrightarrow>
      i = n div 8 \<and> bit (m (p + n div 8)) (n mod 8)" for i
  proof -
    have "bit (push_bit (8 * i) (ucast (m (p + i)) :: 64 word)) n \<longleftrightarrow>
        8 * i \<le> n \<and> bit (m (p + i)) (n - 8 * i)"
      using n by (auto simp: bit_push_bit_iff bit_ucast_iff dest: bit_imp_le_length)
    also have "\<dots> \<longleftrightarrow> 8 * i \<le> n \<and> n - 8 * i < 8 \<and> bit (m (p + i)) (n - 8 * i)"
      by (auto dest: bit_imp_le_length)
    also have "\<dots> \<longleftrightarrow> i = n div 8 \<and> bit (m (p + n div 8)) (n mod 8)"
    proof -
      have "8 * i \<le> n \<and> n - 8 * i < 8 \<longleftrightarrow> i = n div 8" by auto
      moreover have "n - 8 * (n div 8) = n mod 8" by (simp add: minus_mult_div_eq_mod)
      ultimately show ?thesis by (auto dest: bit_imp_le_length)
    qed
    finally show ?thesis .
  qed
  moreover have "n div 8 \<in> set [0..<8]" using n by auto
  ultimately show ?thesis unfolding read_u64_def bit_fold_or by auto
qed

lemma read_write_u64_same [simp]: "read_u64 (write_u64 m p v) p = v"
proof (rule bit_eqI)
  fix n assume "possible_bit TYPE(64 word) n"
  then have n: "n < 64" by simp
  then have "n div 8 < 8" by auto
  then show "bit (read_u64 (write_u64 m p v) p) n = bit v n"
    using n by (simp add: bit_read_u64 write_u64_def bit_ucast_iff bit_drop_bit_eq)
qed

lemma read_u64_cong:
  "(\<And>a. p \<le> a \<Longrightarrow> a < p + 8 \<Longrightarrow> m a = m' a) \<Longrightarrow> read_u64 m p = read_u64 m' p"
  unfolding read_u64_def by (rule foldr_cong) auto

lemma read_write_u64_other:
  "\<lbrakk>p + 8 \<le> q \<or> q + 8 \<le> p\<rbrakk> \<Longrightarrow> read_u64 (write_u64 m p v) q = read_u64 m q"
  by (rule read_u64_cong) (auto simp: write_u64_def)

lemma read_u64_zeroed: "\<lbrakk>p \<le> q; q + 8 \<le> p + n\<rbrakk> \<Longrightarrow> read_u64 (write_bytes m p 0 n) q = 0"
  by (rule bit_eqI) (simp add: bit_read_u64 write_bytes_def, auto)

lemma read_u64_write_bytes_other:
  "q + 8 \<le> p \<or> p + n \<le> q \<Longrightarrow> read_u64 (write_bytes m p v n) q = read_u64 m q"
  by (rule read_u64_cong) (auto simp: write_bytes_def)

end
