(* ===== verification/Vmsav8.thy ===== *)
theory Vmsav8
  imports Memory
begin

text \<open>
  Mapping flags and page-table descriptors (\<open>hal/src/mmu/mod.rs\<close>, the flags
  and the errors; \<open>hal/src/mmu/vmsav8.rs\<close>, the encoders and the decoder of
  VMSAv8-64 descriptors). The lemmas give every bit of an encoded leaf, from
  which the round trips follow: a leaf decodes to the flags it was built from,
  a page or table descriptor gives back its address.
\<close>

unbundle bit_operations_syntax

section \<open>Mapping flags\<close>

datatype mapping_flags = MappingFlags (mf_raw: "32 word")

definition mf_EMPTY :: mapping_flags where "mf_EMPTY = MappingFlags 0"
definition mf_WRITE :: mapping_flags where "mf_WRITE = MappingFlags (push_bit 0 1)"
definition mf_EXECUTE :: mapping_flags where "mf_EXECUTE = MappingFlags (push_bit 1 1)"
definition mf_USER :: mapping_flags where "mf_USER = MappingFlags (push_bit 2 1)"
definition mf_DEVICE :: mapping_flags where "mf_DEVICE = MappingFlags (push_bit 3 1)"
definition mf_GLOBAL :: mapping_flags where "mf_GLOBAL = MappingFlags (push_bit 4 1)"

definition mf_contains :: "mapping_flags \<Rightarrow> mapping_flags \<Rightarrow> bool" where
  "mf_contains a b \<longleftrightarrow> mf_raw a AND mf_raw b = mf_raw b"

definition mf_union :: "mapping_flags \<Rightarrow> mapping_flags \<Rightarrow> mapping_flags" where
  "mf_union a b = MappingFlags (mf_raw a OR mf_raw b)"

definition mf_intersection :: "mapping_flags \<Rightarrow> mapping_flags \<Rightarrow> mapping_flags" where
  "mf_intersection a b = MappingFlags (mf_raw a AND mf_raw b)"

definition mf_difference :: "mapping_flags \<Rightarrow> mapping_flags \<Rightarrow> mapping_flags" where
  "mf_difference a b = MappingFlags (mf_raw a AND NOT (mf_raw b))"

definition mf_is_empty :: "mapping_flags \<Rightarrow> bool" where
  "mf_is_empty a \<longleftrightarrow> mf_raw a = 0"

datatype mmu_error =
    AlreadyMapped | NotMapped | MisalignedAddress | MmuOutOfFrames | InvalidFlags | BlockMapped

section \<open>Descriptors\<close>

definition ATTR_IDX_DEVICE :: "8 word" where "ATTR_IDX_DEVICE = 0"
definition ATTR_IDX_NORMAL :: "8 word" where "ATTR_IDX_NORMAL = 1"
definition SH_NON_SHAREABLE :: "8 word" where "SH_NON_SHAREABLE = 0"
definition SH_INNER_SHAREABLE :: "8 word" where "SH_INNER_SHAREABLE = 3"
definition AP_KERNEL_RW :: "8 word" where "AP_KERNEL_RW = 0"
definition AP_USER_RW :: "8 word" where "AP_USER_RW = 1"
definition AP_KERNEL_RO :: "8 word" where "AP_KERNEL_RO = 2"
definition AP_USER_RO :: "8 word" where "AP_USER_RO = 3"

definition DESC_VALID_BIT :: "64 word" where "DESC_VALID_BIT = push_bit 0 1"
definition DESC_TABLE_OR_PAGE_BIT :: "64 word" where "DESC_TABLE_OR_PAGE_BIT = push_bit 1 1"
definition DESC_AF_BIT :: "64 word" where "DESC_AF_BIT = push_bit 10 1"
definition DESC_NG_BIT :: "64 word" where "DESC_NG_BIT = push_bit 11 1"
definition DESC_PXN_BIT :: "64 word" where "DESC_PXN_BIT = push_bit 53 1"
definition DESC_UXN_BIT :: "64 word" where "DESC_UXN_BIT = push_bit 54 1"

definition BLOCK_OA_MASK_L2 :: "64 word" where "BLOCK_OA_MASK_L2 = 0x0000FFFFFFE00000"
definition PAGE_OA_MASK_L3 :: "64 word" where "PAGE_OA_MASK_L3 = 0x0000FFFFFFFFF000"
definition TABLE_NLA_MASK :: "64 word" where "TABLE_NLA_MASK = 0x0000FFFFFFFFF000"

record descriptor_bits =
  db_attr_idx :: "8 word"
  db_ap :: "8 word"
  db_sh :: "8 word"
  db_pxn :: bool
  db_uxn :: bool
  db_ng :: bool

definition flags_to_descriptor_bits :: "mapping_flags \<Rightarrow> descriptor_bits" where
  "flags_to_descriptor_bits flags =
     (let device = mf_contains flags mf_DEVICE; write = mf_contains flags mf_WRITE;
          execute = mf_contains flags mf_EXECUTE; user = mf_contains flags mf_USER;
          global = mf_contains flags mf_GLOBAL;
          (pxn, uxn) = (if device then (True, True)
                        else if execute \<and> \<not> user then (False, True)
                        else if execute \<and> user then (True, False)
                        else (True, True))
      in \<lparr>db_attr_idx = (if device then ATTR_IDX_DEVICE else ATTR_IDX_NORMAL),
          db_ap = (case (user, write) of
                     (False, True) \<Rightarrow> AP_KERNEL_RW
                   | (False, False) \<Rightarrow> AP_KERNEL_RO
                   | (True, True) \<Rightarrow> AP_USER_RW
                   | (True, False) \<Rightarrow> AP_USER_RO),
          db_sh = (if device then SH_NON_SHAREABLE else SH_INNER_SHAREABLE),
          db_pxn = pxn, db_uxn = uxn, db_ng = (\<not> global)\<rparr>)"

definition descriptor_bits_to_flags :: "64 word \<Rightarrow> mapping_flags" where
  "descriptor_bits_to_flags desc =
     (let attr_idx = (ucast (drop_bit 2 desc AND 0x7) :: 8 word);
          ap = (ucast (drop_bit 6 desc AND 0x3) :: 8 word);
          device = (attr_idx = ATTR_IDX_DEVICE);
          user = (ap AND 1 \<noteq> 0);
          write = (ap AND 2 = 0);
          pxn = (desc AND DESC_PXN_BIT \<noteq> 0);
          uxn = (desc AND DESC_UXN_BIT \<noteq> 0);
          execute = (if user then \<not> uxn else \<not> pxn);
          global = (desc AND DESC_NG_BIT = 0);
          f0 = mf_EMPTY;
          f1 = (if write then mf_union f0 mf_WRITE else f0);
          f2 = (if execute then mf_union f1 mf_EXECUTE else f1);
          f3 = (if user then mf_union f2 mf_USER else f2);
          f4 = (if device then mf_union f3 mf_DEVICE else f3)
      in if global then mf_union f4 mf_GLOBAL else f4)"

definition block_descriptor :: "64 word \<Rightarrow> descriptor_bits \<Rightarrow> 64 word" where
  "block_descriptor pa b =
     DESC_VALID_BIT
       OR push_bit 2 (ucast (db_attr_idx b) AND 0x7)
       OR push_bit 6 (ucast (db_ap b) AND 0x3)
       OR push_bit 8 (ucast (db_sh b) AND 0x3)
       OR DESC_AF_BIT
       OR (if db_ng b then DESC_NG_BIT else 0)
       OR (pa AND BLOCK_OA_MASK_L2)
       OR (if db_pxn b then DESC_PXN_BIT else 0)
       OR (if db_uxn b then DESC_UXN_BIT else 0)"

definition page_descriptor :: "64 word \<Rightarrow> descriptor_bits \<Rightarrow> 64 word" where
  "page_descriptor pa b =
     DESC_VALID_BIT
       OR DESC_TABLE_OR_PAGE_BIT
       OR push_bit 2 (ucast (db_attr_idx b) AND 0x7)
       OR push_bit 6 (ucast (db_ap b) AND 0x3)
       OR push_bit 8 (ucast (db_sh b) AND 0x3)
       OR DESC_AF_BIT
       OR (if db_ng b then DESC_NG_BIT else 0)
       OR (pa AND PAGE_OA_MASK_L3)
       OR (if db_pxn b then DESC_PXN_BIT else 0)
       OR (if db_uxn b then DESC_UXN_BIT else 0)"

definition table_descriptor :: "64 word \<Rightarrow> 64 word" where
  "table_descriptor next_level_pa =
     DESC_VALID_BIT OR DESC_TABLE_OR_PAGE_BIT OR (next_level_pa AND TABLE_NLA_MASK)"

section \<open>Bits of flags and descriptors\<close>

lemma bit_and_single [word_bits]:
  fixes w :: "'a::len word"
  assumes "i < LENGTH('a)"
  shows "w AND push_bit i 1 = push_bit i 1 \<longleftrightarrow> bit w i"
    and "w AND push_bit i 1 = 0 \<longleftrightarrow> \<not> bit w i"
proof -
  have single: "bit (push_bit i 1 :: 'a word) n \<longleftrightarrow> n = i" for n
    using assms by (auto simp: bit_push_bit_iff bit_exp_iff push_bit_of_1)
  have "w AND push_bit i 1 = (if bit w i then push_bit i 1 else 0)"
    by (rule bit_eqI) (auto simp: bit_and_iff bit_exp_iff)
  moreover have "(push_bit i 1 :: 'a word) \<noteq> 0"
    using single [of i] by (metis bit_0_eq bot_apply bot_bool_def)
  ultimately show "w AND push_bit i 1 = push_bit i 1 \<longleftrightarrow> bit w i"
    and "w AND push_bit i 1 = 0 \<longleftrightarrow> \<not> bit w i" by simp_all
qed

lemmas mf_consts = mf_EMPTY_def mf_WRITE_def mf_EXECUTE_def mf_USER_def mf_DEVICE_def mf_GLOBAL_def

lemma mf_contains_bits [word_bits]:
  "mf_contains f mf_WRITE \<longleftrightarrow> bit (mf_raw f) 0"
  "mf_contains f mf_EXECUTE \<longleftrightarrow> bit (mf_raw f) 1"
  "mf_contains f mf_USER \<longleftrightarrow> bit (mf_raw f) 2"
  "mf_contains f mf_DEVICE \<longleftrightarrow> bit (mf_raw f) 3"
  "mf_contains f mf_GLOBAL \<longleftrightarrow> bit (mf_raw f) 4"
  unfolding mf_contains_def mf_consts mapping_flags.sel by (rule bit_and_single, simp)+

lemma bit_single [word_bits]:
  "i < LENGTH('a) \<Longrightarrow> bit (push_bit i 1 :: 'a::len word) n \<longleftrightarrow> n = i"
  by (auto simp: bit_exp_iff push_bit_of_1)

lemma oa_masks: "PAGE_OA_MASK_L3 = push_bit 12 (mask 36)" "TABLE_NLA_MASK = push_bit 12 (mask 36)"
    "BLOCK_OA_MASK_L2 = push_bit 21 (mask 27)"
  by (simp_all add: PAGE_OA_MASK_L3_def TABLE_NLA_MASK_def BLOCK_OA_MASK_L2_def mask_eq_exp_minus_1 push_bit_eq_mult)

lemma bit_oa_masks [word_bits]:
  "bit PAGE_OA_MASK_L3 n \<longleftrightarrow> 12 \<le> n \<and> n < 48"
  "bit TABLE_NLA_MASK n \<longleftrightarrow> 12 \<le> n \<and> n < 48"
  "bit BLOCK_OA_MASK_L2 n \<longleftrightarrow> 21 \<le> n \<and> n < 48"
  unfolding oa_masks by (auto simp: bit_push_bit_iff bit_mask_iff)

lemma field_masks: "(0x7 :: 64 word) = mask 3" "(0x3 :: 64 word) = mask 2"
  by (simp_all add: mask_eq_exp_minus_1)

lemma bit_field [word_bits]:
  fixes v :: "8 word"
  assumes "k + s < 64" "k \<le> 8"
  shows "bit (push_bit s (ucast v AND mask k) :: 64 word) n \<longleftrightarrow> s \<le> n \<and> n < s + k \<and> bit v (n - s)"
  using assms by (auto simp: bit_push_bit_iff bit_and_iff bit_mask_iff bit_ucast_iff)

lemmas desc_consts =
  DESC_VALID_BIT_def DESC_TABLE_OR_PAGE_BIT_def DESC_AF_BIT_def DESC_NG_BIT_def
  DESC_PXN_BIT_def DESC_UXN_BIT_def

lemma bit_desc_consts [word_bits]:
  "bit DESC_VALID_BIT n \<longleftrightarrow> n = 0"
  "bit DESC_TABLE_OR_PAGE_BIT n \<longleftrightarrow> n = 1"
  "bit DESC_AF_BIT n \<longleftrightarrow> n = 10"
  "bit DESC_NG_BIT n \<longleftrightarrow> n = 11"
  "bit DESC_PXN_BIT n \<longleftrightarrow> n = 53"
  "bit DESC_UXN_BIT n \<longleftrightarrow> n = 54"
  unfolding desc_consts by (rule bit_single, simp)+

lemma and_desc_consts [word_bits]:
  "d AND DESC_VALID_BIT = 0 \<longleftrightarrow> \<not> bit d 0"
  "d AND DESC_TABLE_OR_PAGE_BIT = 0 \<longleftrightarrow> \<not> bit d 1"
  "d AND DESC_NG_BIT = 0 \<longleftrightarrow> \<not> bit d 11"
  "d AND DESC_PXN_BIT = 0 \<longleftrightarrow> \<not> bit d 53"
  "d AND DESC_UXN_BIT = 0 \<longleftrightarrow> \<not> bit d 54"
  unfolding desc_consts by (rule bit_and_single, simp)+

lemma bit_fields [word_bits]:
  fixes v :: "8 word"
  shows "bit (push_bit 2 (ucast v AND mask 3) :: 64 word) n \<longleftrightarrow> 2 \<le> n \<and> n < 5 \<and> bit v (n - 2)"
    and "bit (push_bit 6 (ucast v AND mask 2) :: 64 word) n \<longleftrightarrow> 6 \<le> n \<and> n < 8 \<and> bit v (n - 6)"
    and "bit (push_bit 8 (ucast v AND mask 2) :: 64 word) n \<longleftrightarrow> 8 \<le> n \<and> n < 10 \<and> bit v (n - 8)"
  using bit_field [of 3 2 v n] bit_field [of 2 6 v n] bit_field [of 2 8 v n] by simp_all

definition leaf_bit :: "descriptor_bits \<Rightarrow> nat \<Rightarrow> bool" where
  "leaf_bit b n \<longleftrightarrow>
     n = 0 \<or> 2 \<le> n \<and> n < 5 \<and> bit (db_attr_idx b) (n - 2) \<or> 6 \<le> n \<and> n < 8 \<and> bit (db_ap b) (n - 6) \<or>
     8 \<le> n \<and> n < 10 \<and> bit (db_sh b) (n - 8) \<or> n = 10 \<or> n = 11 \<and> db_ng b \<or>
     n = 53 \<and> db_pxn b \<or> n = 54 \<and> db_uxn b"

lemma bit_if_zero: "bit (if c then w else 0 :: 64 word) n \<longleftrightarrow> c \<and> bit w n"
  by simp

lemmas leaf_bits = bit_or_iff bit_and_iff bit_if_zero bit_fields bit_desc_consts bit_oa_masks

lemma bit_page_descriptor:
  "bit (page_descriptor pa b) n \<longleftrightarrow> leaf_bit b n \<or> n = 1 \<or> 12 \<le> n \<and> n < 48 \<and> bit pa n"
  unfolding page_descriptor_def field_masks leaf_bits leaf_bit_def by blast

lemma bit_block_descriptor:
  "bit (block_descriptor pa b) n \<longleftrightarrow> leaf_bit b n \<or> 21 \<le> n \<and> n < 48 \<and> bit pa n"
  unfolding block_descriptor_def field_masks leaf_bits leaf_bit_def by blast

lemma bit_table_descriptor:
  "bit (table_descriptor pa) n \<longleftrightarrow> n = 0 \<or> n = 1 \<or> 12 \<le> n \<and> n < 48 \<and> bit pa n"
  unfolding table_descriptor_def leaf_bits by blast

text \<open>The address comes back from a page, a block and a table descriptor.\<close>

lemma leaf_bit_address: "leaf_bit b n \<Longrightarrow> n < 12 \<or> 48 \<le> n"
  by (auto simp: leaf_bit_def)

lemma page_address: "page_descriptor pa b AND PAGE_OA_MASK_L3 = pa AND PAGE_OA_MASK_L3"
  by (rule bit_eqI) (auto simp: bit_and_iff bit_oa_masks bit_page_descriptor dest: leaf_bit_address)

lemma table_address: "table_descriptor pa AND TABLE_NLA_MASK = pa AND TABLE_NLA_MASK"
  by (rule bit_eqI) (auto simp: bit_and_iff bit_oa_masks bit_table_descriptor)

lemma block_address: "block_descriptor pa b AND BLOCK_OA_MASK_L2 = pa AND BLOCK_OA_MASK_L2"
  by (rule bit_eqI) (auto simp: bit_and_iff bit_oa_masks bit_block_descriptor dest: leaf_bit_address)

section \<open>Decoding\<close>

lemma ap_bits:
  "(ucast (drop_bit 6 d AND 0x3) :: 8 word) AND 1 \<noteq> 0 \<longleftrightarrow> bit (d :: 64 word) 6"
  "(ucast (drop_bit 6 d AND 0x3) :: 8 word) AND 2 = 0 \<longleftrightarrow> \<not> bit (d :: 64 word) 7"
proof -
  have b: "bit (ucast (drop_bit 6 d AND 0x3) :: 8 word) n \<longleftrightarrow> n < 2 \<and> bit d (6 + n)" for n
    unfolding field_masks by (auto simp: bit_ucast_iff bit_and_iff bit_mask_iff bit_drop_bit_eq)
  show "(ucast (drop_bit 6 d AND 0x3) :: 8 word) AND 1 \<noteq> 0 \<longleftrightarrow> bit d 6"
    using bit_and_single(2) [of 0 "ucast (drop_bit 6 d AND 0x3) :: 8 word"] b [of 0] by simp
  show "(ucast (drop_bit 6 d AND 0x3) :: 8 word) AND 2 = 0 \<longleftrightarrow> \<not> bit d 7"
    using bit_and_single(2) [of 1 "ucast (drop_bit 6 d AND 0x3) :: 8 word"] b [of 1] by simp
qed

lemma attr_device:
  "(ucast (drop_bit 2 d AND 0x7) :: 8 word) = ATTR_IDX_DEVICE \<longleftrightarrow>
     \<not> bit (d :: 64 word) 2 \<and> \<not> bit d 3 \<and> \<not> bit d 4"
proof -
  have b: "bit (ucast (drop_bit 2 d AND 0x7) :: 8 word) n \<longleftrightarrow> n < 3 \<and> bit d (2 + n)" for n
    unfolding field_masks by (auto simp: bit_ucast_iff bit_and_iff bit_mask_iff bit_drop_bit_eq)
  have "(ucast (drop_bit 2 d AND 0x7) :: 8 word) = 0 \<longleftrightarrow> (\<forall>n<3. \<not> bit d (2 + n))"
    unfolding bit_eq_iff b by auto
  also have "\<dots> \<longleftrightarrow> \<not> bit d 2 \<and> \<not> bit d 3 \<and> \<not> bit d 4"
    by (simp add: numeral_3_eq_3 All_less_Suc numeral_eq_Suc conj_ac)
  finally show ?thesis by (simp add: ATTR_IDX_DEVICE_def)
qed

lemma bit_mf_consts [word_bits]:
  "bit (mf_raw mf_WRITE) n \<longleftrightarrow> n = 0"
  "bit (mf_raw mf_EXECUTE) n \<longleftrightarrow> n = 1"
  "bit (mf_raw mf_USER) n \<longleftrightarrow> n = 2"
  "bit (mf_raw mf_DEVICE) n \<longleftrightarrow> n = 3"
  "bit (mf_raw mf_GLOBAL) n \<longleftrightarrow> n = 4"
  unfolding mf_consts mapping_flags.sel by (rule bit_single, simp)+

lemma bit_mf_empty: "\<not> bit (mf_raw mf_EMPTY) n"
  by (simp add: mf_EMPTY_def)

lemma bit_mf_union: "bit (mf_raw (mf_union f g)) n \<longleftrightarrow> bit (mf_raw f) n \<or> bit (mf_raw g) n"
  by (simp add: mf_union_def bit_or_iff)

lemma bit_mf_add:
  "bit (mf_raw (if c then mf_union f g else f)) n \<longleftrightarrow> bit (mf_raw f) n \<or> c \<and> bit (mf_raw g) n"
  by (simp add: bit_mf_union)

lemma bit_decoded:
  "bit (mf_raw (descriptor_bits_to_flags d)) n \<longleftrightarrow>
     n = 0 \<and> \<not> bit d 7 \<or>
     n = 1 \<and> (if bit d 6 then \<not> bit d 54 else \<not> bit d 53) \<or>
     n = 2 \<and> bit d 6 \<or>
     n = 3 \<and> \<not> bit d 2 \<and> \<not> bit d 3 \<and> \<not> bit d 4 \<or>
     n = 4 \<and> \<not> bit d 11"
  unfolding descriptor_bits_to_flags_def Let_def ap_bits attr_device and_desc_consts
    bit_mf_add bit_mf_consts
  by (simp only: bit_mf_empty not_not) blast

text \<open>What a leaf built from \<open>flags\<close> decodes to: the five known flags, except
  that a device mapping is never executable.\<close>

definition mf_ALL :: mapping_flags where
  "mf_ALL = mf_union mf_WRITE (mf_union mf_EXECUTE (mf_union mf_USER (mf_union mf_DEVICE mf_GLOBAL)))"

definition mf_effective :: "mapping_flags \<Rightarrow> mapping_flags" where
  "mf_effective f =
     (let g = mf_intersection f mf_ALL in if mf_contains g mf_DEVICE then mf_difference g mf_EXECUTE else g)"

lemma bit_mf_ALL: "bit (mf_raw mf_ALL) n \<longleftrightarrow> n < 5"
  unfolding mf_ALL_def bit_mf_union bit_mf_consts by auto

lemma bit_mf_effective:
  "bit (mf_raw (mf_effective f)) n \<longleftrightarrow> n < 5 \<and> bit (mf_raw f) n \<and> \<not> (n = 1 \<and> bit (mf_raw f) 3)"
  unfolding mf_effective_def Let_def mf_contains_bits mf_intersection_def mf_difference_def
  by (auto simp: bit_and_iff bit_not_iff bit_mf_ALL bit_mf_consts simp del: bit_0
      dest: bit_imp_le_length)

lemma leaf_bit_fields:
  "leaf_bit (flags_to_descriptor_bits f) 2 \<longleftrightarrow> \<not> mf_contains f mf_DEVICE"
  "\<not> leaf_bit (flags_to_descriptor_bits f) 3"
  "\<not> leaf_bit (flags_to_descriptor_bits f) 4"
  "leaf_bit (flags_to_descriptor_bits f) 6 \<longleftrightarrow> mf_contains f mf_USER"
  "leaf_bit (flags_to_descriptor_bits f) 7 \<longleftrightarrow> \<not> mf_contains f mf_WRITE"
  "leaf_bit (flags_to_descriptor_bits f) 11 \<longleftrightarrow> \<not> mf_contains f mf_GLOBAL"
  "leaf_bit (flags_to_descriptor_bits f) 53 \<longleftrightarrow>
     \<not> (mf_contains f mf_EXECUTE \<and> \<not> mf_contains f mf_USER \<and> \<not> mf_contains f mf_DEVICE)"
  "leaf_bit (flags_to_descriptor_bits f) 54 \<longleftrightarrow>
     \<not> (mf_contains f mf_EXECUTE \<and> mf_contains f mf_USER \<and> \<not> mf_contains f mf_DEVICE)"
  by (cases "mf_contains f mf_USER"; cases "mf_contains f mf_WRITE"; cases "mf_contains f mf_DEVICE";
      simp add: leaf_bit_def flags_to_descriptor_bits_def Let_def ATTR_IDX_DEVICE_def
      ATTR_IDX_NORMAL_def AP_KERNEL_RW_def AP_USER_RW_def AP_KERNEL_RO_def AP_USER_RO_def
      bit_1_iff bit_numeral_rec del: bit_0)+

lemma decode_leaf:
  assumes "\<And>n. n \<in> {2, 3, 4, 6, 7, 11, 53, 54} \<Longrightarrow> bit d n = leaf_bit (flags_to_descriptor_bits f) n"
  shows "descriptor_bits_to_flags d = mf_effective f"
proof (rule mapping_flags.expand, rule bit_eqI)
  fix n :: nat
  have l: "bit d 2 \<longleftrightarrow> \<not> bit (mf_raw f) 3" "\<not> bit d 3" "\<not> bit d 4"
    "bit d 6 \<longleftrightarrow> bit (mf_raw f) 2" "bit d 7 \<longleftrightarrow> \<not> bit (mf_raw f) 0" "bit d 11 \<longleftrightarrow> \<not> bit (mf_raw f) 4"
    "bit d 53 \<longleftrightarrow> \<not> (bit (mf_raw f) 1 \<and> \<not> bit (mf_raw f) 2 \<and> \<not> bit (mf_raw f) 3)"
    "bit d 54 \<longleftrightarrow> \<not> (bit (mf_raw f) 1 \<and> bit (mf_raw f) 2 \<and> \<not> bit (mf_raw f) 3)"
    by (simp_all only: assms insert_iff simp_thms leaf_bit_fields mf_contains_bits)
  consider "n = 0" | "n = 1" | "n = 2" | "n = 3" | "n = 4" | "5 \<le> n" by linarith
  then show "bit (mf_raw (descriptor_bits_to_flags d)) n = bit (mf_raw (mf_effective f)) n"
    unfolding bit_decoded bit_mf_effective l
    by cases (simp_all add: l(2,3) del: One_nat_def bit_0 split: if_split)
qed

lemma decode_page: "descriptor_bits_to_flags (page_descriptor pa (flags_to_descriptor_bits f)) = mf_effective f"
  by (rule decode_leaf) (auto simp: bit_page_descriptor)

lemma decode_block: "descriptor_bits_to_flags (block_descriptor pa (flags_to_descriptor_bits f)) = mf_effective f"
  by (rule decode_leaf) (auto simp: bit_block_descriptor)

text \<open>The kind of a descriptor, as the walker tests it.\<close>

definition desc_kind :: "64 word \<Rightarrow> bool \<times> bool" where
  "desc_kind d = (bit d 0, bit d 1)"

text \<open>
  C30: An encoded leaf decodes to what was asked for. For every address and
  every flag word, a page and a block built from the flags decode to exactly
  the five known flags that were set, except that a device mapping loses
  EXECUTE; the output address is the requested one rounded to the leaf size
  inside the 48-bit range; a page and a table descriptor are marked
  valid/table-or-page, a block valid/block.
\<close>

theorem descriptor_roundtrip:
  "descriptor_bits_to_flags (page_descriptor pa (flags_to_descriptor_bits f)) = mf_effective f \<and>
   descriptor_bits_to_flags (block_descriptor pa (flags_to_descriptor_bits f)) = mf_effective f \<and>
   page_descriptor pa (flags_to_descriptor_bits f) AND PAGE_OA_MASK_L3 = pa AND PAGE_OA_MASK_L3 \<and>
   block_descriptor pa (flags_to_descriptor_bits f) AND BLOCK_OA_MASK_L2 = pa AND BLOCK_OA_MASK_L2 \<and>
   table_descriptor pa AND TABLE_NLA_MASK = pa AND TABLE_NLA_MASK \<and>
   desc_kind (page_descriptor pa (flags_to_descriptor_bits f)) = (True, True) \<and>
   desc_kind (block_descriptor pa (flags_to_descriptor_bits f)) = (True, False) \<and>
   desc_kind (table_descriptor pa) = (True, True)"
  unfolding decode_page decode_block page_address block_address table_address desc_kind_def
    bit_page_descriptor bit_block_descriptor bit_table_descriptor
  by (simp add: leaf_bit_def)

text \<open>
  No leaf the encoder builds is executable at both exception levels: a page
  mapped for user code is never executable by the kernel, a page without the
  USER flag is never executable by user code, and a device or non-executable
  mapping is executable by neither.
\<close>

theorem descriptor_execute_never:
  "let d = page_descriptor pa (flags_to_descriptor_bits f);
       kernel_exec = (d AND DESC_PXN_BIT = 0); user_exec = (d AND DESC_UXN_BIT = 0)
   in (kernel_exec \<longleftrightarrow> mf_contains f mf_EXECUTE \<and> \<not> mf_contains f mf_USER \<and> \<not> mf_contains f mf_DEVICE) \<and>
      (user_exec \<longleftrightarrow> mf_contains f mf_EXECUTE \<and> mf_contains f mf_USER \<and> \<not> mf_contains f mf_DEVICE) \<and>
      \<not> (kernel_exec \<and> user_exec)"
  unfolding Let_def and_desc_consts bit_page_descriptor leaf_bit_fields by auto

end
