(* ===== verification/SyscallAbi.thy ===== *)
theory SyscallAbi
  imports Ipc Vmsav8
begin

text \<open>
  The register ABI of system calls (\<open>kernel/src/syscall/abi.rs\<close>) and the status
  words of its errors (\<open>kernel/src/syscall/error.rs\<close>). The lemmas are about the
  words: which handles and outcomes survive the trip through a register, and
  that distinct results are distinct words.
\<close>

unbundle bit_operations_syntax

section \<open>Errors and their status words\<close>

datatype syscall_error =
    BadSyscallNumber | BadArgument | FaultAddress | SysCap cap_error | SysIpc ipc_error

definition OK_STATUS :: "64 word" where "OK_STATUS = 0"
definition CAP_STATUS_BASE :: "64 word" where "CAP_STATUS_BASE = 0x100"
definition IPC_STATUS_BASE :: "64 word" where "IPC_STATUS_BASE = 0x200"

fun cap_error_code :: "cap_error \<Rightarrow> 64 word" where
  "cap_error_code CapsExhausted = 1"
| "cap_error_code InvalidHandle = 2"
| "cap_error_code WidenedRights = 3"
| "cap_error_code InsufficientRights = 4"
| "cap_error_code DerivationTooDeep = 5"
| "cap_error_code HasChildren = 6"
| "cap_error_code WrongKind = 7"

fun ipc_error_code :: "ipc_error \<Rightarrow> 64 word" where
  "ipc_error_code StaleHandle = 1"
| "ipc_error_code WrongObjectKind = 2"
| "ipc_error_code MissingRight = 3"
| "ipc_error_code QueueFull = 4"
| "ipc_error_code InvalidTransferCap = 5"
| "ipc_error_code ReceiverTableFull = 6"
| "ipc_error_code PendingAfterResume = 7"

fun as_status :: "syscall_error \<Rightarrow> 64 word" where
  "as_status BadSyscallNumber = 1"
| "as_status BadArgument = 2"
| "as_status FaultAddress = 3"
| "as_status (SysCap e) = CAP_STATUS_BASE OR cap_error_code e"
| "as_status (SysIpc e) = IPC_STATUS_BASE OR ipc_error_code e"

section \<open>Numbers, arguments and returns\<close>

datatype syscall_number = SysSend | SysRecv | SysTaskYield | SysTaskExit | SysConsoleWrite

text \<open>\<open>debug\<close> is \<open>cfg!(debug_assertions)\<close>.\<close>

definition syscall_decode :: "bool \<Rightarrow> 64 word \<Rightarrow> syscall_number option" where
  "syscall_decode debug raw =
     (if raw = 1 then Some SysSend
      else if raw = 2 then Some SysRecv
      else if raw = 3 then Some SysTaskYield
      else if raw = 4 then Some SysTaskExit
      else if raw = 5 \<and> debug then Some SysConsoleWrite
      else None)"

fun syscall_as_u64 :: "syscall_number \<Rightarrow> 64 word" where
  "syscall_as_u64 SysSend = 1"
| "syscall_as_u64 SysRecv = 2"
| "syscall_as_u64 SysTaskYield = 3"
| "syscall_as_u64 SysTaskExit = 4"
| "syscall_as_u64 SysConsoleWrite = 5"

text \<open>The arrays \<open>[u64; 6]\<close> and \<open>[u64; 7]\<close> are lists of that length.\<close>

record syscall_args =
  sa_number :: "64 word"
  sa_args :: "64 word list"

record syscall_return =
  sr_status :: "64 word"
  sr_payload :: "64 word list"

definition syscall_ok :: syscall_return where
  "syscall_ok = \<lparr>sr_status = OK_STATUS, sr_payload = replicate 7 0\<rparr>"

definition syscall_err :: "syscall_error \<Rightarrow> syscall_return" where
  "syscall_err e = \<lparr>sr_status = as_status e, sr_payload = replicate 7 0\<rparr>"

definition with_payload :: "nat \<Rightarrow> 64 word \<Rightarrow> syscall_return \<Rightarrow> syscall_return" where
  "with_payload i v r = r\<lparr>sr_payload := (sr_payload r)[i := v]\<rparr>"

datatype syscall_effect = Resume syscall_return | Reschedule | Terminate "64 word"

section \<open>Handles and outcomes in registers\<close>

definition NULL_CAP_HANDLE :: "64 word" where
  "NULL_CAP_HANDLE = 0xFFFFFFFFFFFFFFFF"

definition encode_cap_handle :: "cap_handle option \<Rightarrow> 64 word" where
  "encode_cap_handle handle =
     (case handle of
        None \<Rightarrow> NULL_CAP_HANDLE
      | Some h \<Rightarrow> push_bit 16 (ucast (ch_generation h)) OR of_nat (ch_index h))"

definition decode_required_cap_handle :: "64 word \<Rightarrow> cap_handle" where
  "decode_required_cap_handle w =
     \<lparr>ch_index = unat (ucast w :: 16 word), ch_generation = ucast (drop_bit 16 w)\<rparr>"

definition decode_cap_handle :: "64 word \<Rightarrow> cap_handle option" where
  "decode_cap_handle w =
     (if w = NULL_CAP_HANDLE then None
      else Some \<lparr>ch_index = unat (ucast w :: 16 word), ch_generation = ucast (drop_bit 16 w)\<rparr>)"

definition SEND_OUTCOME_DELIVERED :: "64 word" where "SEND_OUTCOME_DELIVERED = 0"
definition SEND_OUTCOME_ENQUEUED :: "64 word" where "SEND_OUTCOME_ENQUEUED = 1"
definition RECV_OUTCOME_RECEIVED :: "64 word" where "RECV_OUTCOME_RECEIVED = 0"
definition RECV_OUTCOME_PENDING :: "64 word" where "RECV_OUTCOME_PENDING = 1"

fun encode_send_outcome :: "send_outcome \<Rightarrow> 64 word" where
  "encode_send_outcome Delivered = SEND_OUTCOME_DELIVERED"
| "encode_send_outcome Enqueued = SEND_OUTCOME_ENQUEUED"

definition encode_recv_outcome :: "recv_outcome \<Rightarrow> syscall_return" where
  "encode_recv_outcome r =
     (case r of
        Received msg cap \<Rightarrow>
          (let (p0, p1, p2) = msg_params msg
           in with_payload 5 (encode_cap_handle cap)
                (with_payload 4 p2
                  (with_payload 3 p1
                    (with_payload 2 p0
                      (with_payload 1 (msg_label msg)
                        (with_payload 0 RECV_OUTCOME_RECEIVED syscall_ok))))))
      | Pending \<Rightarrow> with_payload 0 RECV_OUTCOME_PENDING syscall_ok)"

definition decode_send_message :: "64 word list \<Rightarrow> message" where
  "decode_send_message args = \<lparr>msg_label = args ! 1, msg_params = (args ! 2, args ! 3, args ! 4)\<rparr>"

section \<open>Status words\<close>

text \<open>The client's reading of a status word: the table that \<open>as_status\<close> encodes.\<close>

definition all_errors :: "syscall_error list" where
  "all_errors =
     [BadSyscallNumber, BadArgument, FaultAddress] @
     map SysCap [CapsExhausted, InvalidHandle, WidenedRights, InsufficientRights, DerivationTooDeep,
       HasChildren, WrongKind] @
     map SysIpc [StaleHandle, WrongObjectKind, MissingRight, QueueFull, InvalidTransferCap,
       ReceiverTableFull, PendingAfterResume]"

definition error_of_status :: "64 word \<Rightarrow> syscall_error option" where
  "error_of_status w = find (\<lambda>e. as_status e = w) all_errors"

lemma all_errors_complete: "e \<in> set all_errors"
proof (cases e)
  case (SysCap c)
  then show ?thesis by (cases c) (simp_all add: all_errors_def)
next
  case (SysIpc c)
  then show ?thesis by (cases c) (simp_all add: all_errors_def)
qed (simp_all add: all_errors_def)

lemma status_words_distinct: "distinct (OK_STATUS # map as_status all_errors)"
  by (simp add: all_errors_def OK_STATUS_def CAP_STATUS_BASE_def IPC_STATUS_BASE_def)

lemma as_status_inj: "as_status e = as_status e' \<longleftrightarrow> e = e'"
  using status_words_distinct all_errors_complete by (auto simp: distinct_map inj_on_def)

lemma as_status_nonzero: "as_status e \<noteq> OK_STATUS"
  using status_words_distinct all_errors_complete [of e] by (auto simp: image_iff)

lemma error_of_as_status: "error_of_status (as_status e) = Some e"
proof -
  have "find (\<lambda>x. x = e) xs = Some e" if "e \<in> set xs" for xs
    using that by (induction xs) auto
  then show ?thesis using all_errors_complete [of e] by (simp add: error_of_status_def as_status_inj)
qed

section \<open>Handles\<close>

lemma null_handle_mask: "NULL_CAP_HANDLE = - 1"
  by (simp add: NULL_CAP_HANDLE_def)

lemma bit_encode_handle:
  "ch_index h < 2 ^ 16 \<Longrightarrow> bit (encode_cap_handle (Some h)) n \<longleftrightarrow>
     (if n < 16 then bit (ch_index h) n else n < 48 \<and> bit (ch_generation h) (n - 16))"
proof -
  assume i: "ch_index h < 2 ^ 16"
  have idx: "bit (of_nat (ch_index h) :: 64 word) n \<longleftrightarrow> n < 16 \<and> bit (ch_index h) n"
  proof -
    have "take_bit 16 (ch_index h) = ch_index h" using i by (simp add: take_bit_nat_eq_self_iff)
    then have "bit (ch_index h) n \<longleftrightarrow> n < 16 \<and> bit (ch_index h) n" by (metis bit_take_bit_iff)
    then show ?thesis by (auto simp: bit_of_nat_iff)
  qed
  show ?thesis
    by (auto simp: encode_cap_handle_def bit_or_iff bit_push_bit_iff bit_ucast_iff idx
        simp del: bit_0 dest: bit_imp_le_length)
qed

lemma encode_handle_not_null: "ch_index h < 2 ^ 16 \<Longrightarrow> encode_cap_handle (Some h) \<noteq> NULL_CAP_HANDLE"
proof
  assume i: "ch_index h < 2 ^ 16" and eq: "encode_cap_handle (Some h) = NULL_CAP_HANDLE"
  have "\<not> bit (encode_cap_handle (Some h)) 63" unfolding bit_encode_handle [OF i] by simp
  then show False unfolding eq null_handle_mask by simp
qed

lemma decode_encode_required:
  assumes "ch_index h < 2 ^ 16"
  shows "decode_required_cap_handle (encode_cap_handle (Some h)) = h"
proof -
  have "(ucast (encode_cap_handle (Some h)) :: 16 word) = of_nat (ch_index h)"
    by (rule bit_eqI)
      (auto simp: bit_ucast_iff bit_encode_handle [OF assms] bit_of_nat_iff simp del: bit_0)
  then have "unat (ucast (encode_cap_handle (Some h)) :: 16 word) = ch_index h"
    using assms by (simp add: unat_of_nat)
  moreover have "ucast (drop_bit 16 (encode_cap_handle (Some h))) = ch_generation h"
    by (rule bit_eqI)
      (auto simp: bit_ucast_iff bit_drop_bit_eq bit_encode_handle [OF assms] simp del: bit_0)
  ultimately show ?thesis by (simp add: decode_required_cap_handle_def)
qed

lemma decode_encode_handle:
  assumes "\<And>h. handle = Some h \<Longrightarrow> ch_index h < 2 ^ 16"
  shows "decode_cap_handle (encode_cap_handle handle) = handle"
proof (cases handle)
  case None
  then show ?thesis by (simp add: decode_cap_handle_def encode_cap_handle_def)
next
  case (Some h)
  have i: "ch_index h < 2 ^ 16" using assms Some by simp
  show ?thesis
    using decode_encode_required [OF i] encode_handle_not_null [OF i] Some
    by (simp add: decode_cap_handle_def decode_required_cap_handle_def)
qed

lemma encode_decode_handle:
  assumes "drop_bit 48 w = 0 \<or> w = NULL_CAP_HANDLE"
  shows "encode_cap_handle (decode_cap_handle w) = w"
proof (cases "w = NULL_CAP_HANDLE")
  case True
  then show ?thesis by (simp add: decode_cap_handle_def encode_cap_handle_def)
next
  case False
  then have high: "drop_bit 48 w = 0" using assms by simp
  have top: "bit w n \<Longrightarrow> n < 48" for n
  proof (rule ccontr)
    assume "bit w n" "\<not> n < 48"
    then have "bit (drop_bit 48 w) (n - 48)" by (simp add: bit_drop_bit_eq)
    then show False using high by simp
  qed
  define h where "h = decode_required_cap_handle w"
  have d: "decode_cap_handle w = Some h"
    using False by (simp add: decode_cap_handle_def decode_required_cap_handle_def h_def)
  have i: "ch_index h < 2 ^ 16"
  proof -
    have "unat (ucast w :: 16 word) < 2 ^ LENGTH(16)" by (rule unsigned_less)
    then show ?thesis by (simp add: h_def decode_required_cap_handle_def)
  qed
  show ?thesis unfolding d
  proof (rule bit_eqI)
    fix n assume "possible_bit TYPE(64 word) n"
    show "bit (encode_cap_handle (Some h)) n = bit w n"
      unfolding bit_encode_handle [OF i]
      using top [of n]
      by (auto simp: h_def decode_required_cap_handle_def bit_unsigned_iff bit_ucast_iff bit_drop_bit_eq
          simp del: bit_0)
  qed
qed

section \<open>Outcomes\<close>

lemma syscall_decode_iff: "syscall_decode debug w = Some n \<longleftrightarrow> w = syscall_as_u64 n \<and> (n = SysConsoleWrite \<longrightarrow> debug)"
  by (cases n) (auto simp: syscall_decode_def)

text \<open>The registers of an outcome, one by one.\<close>

lemma encode_recv_registers:
  "encode_recv_outcome (Received msg cap) =
     \<lparr>sr_status = OK_STATUS,
      sr_payload = [RECV_OUTCOME_RECEIVED, msg_label msg, fst (msg_params msg), fst (snd (msg_params msg)),
                    snd (snd (msg_params msg)), encode_cap_handle cap, 0]\<rparr>"
  "encode_recv_outcome Pending = \<lparr>sr_status = OK_STATUS, sr_payload = [RECV_OUTCOME_PENDING, 0, 0, 0, 0, 0, 0]\<rparr>"
  by (simp_all add: encode_recv_outcome_def with_payload_def syscall_ok_def numeral_eq_Suc split: prod.splits)

definition handle_fits :: "cap_handle option \<Rightarrow> bool" where
  "handle_fits handle = (case handle of None \<Rightarrow> True | Some h \<Rightarrow> ch_index h < 2 ^ 16)"

lemma encode_cap_handle_inj:
  "\<lbrakk>handle_fits a; handle_fits b; encode_cap_handle a = encode_cap_handle b\<rbrakk> \<Longrightarrow> a = b"
  using decode_encode_handle [of a] decode_encode_handle [of b]
  by (cases a; cases b) (auto simp: handle_fits_def)

text \<open>
  Status words are unambiguous. The word of an error is never the success
  word, no two errors share a word, and the table of all errors finds back the
  error from its word.
\<close>

theorem status_words_unambiguous:
  "as_status e \<noteq> OK_STATUS \<and> (as_status e = as_status e' \<longleftrightarrow> e = e') \<and> error_of_status (as_status e) = Some e"
  using as_status_nonzero as_status_inj error_of_as_status by blast

text \<open>
  Capability handles survive the trip through a register. A handle whose
  index fits the 16-bit field is encoded to a word that is not the null
  sentinel and decodes back to it, both as an optional and as a required
  argument; "no handle" is the sentinel and decodes to "no handle"; a word with
  the upper 16 bits clear is the encoding of what it decodes to.
\<close>

theorem handle_word_roundtrip:
  assumes "ch_index h < 2 ^ 16" "drop_bit 48 w = 0"
  shows "decode_cap_handle (encode_cap_handle (Some h)) = Some h \<and>
    decode_required_cap_handle (encode_cap_handle (Some h)) = h \<and>
    encode_cap_handle (Some h) \<noteq> NULL_CAP_HANDLE \<and>
    decode_cap_handle (encode_cap_handle None) = None \<and>
    encode_cap_handle (decode_cap_handle w) = w"
  using decode_encode_handle [of "Some h"] decode_encode_required [OF assms(1)]
    encode_handle_not_null [OF assms(1)] decode_encode_handle [of None] encode_decode_handle [of w] assms
  by simp

theorem handle_word_roundtrip_witness:
  "decode_cap_handle (encode_cap_handle (Some \<lparr>ch_index = 63, ch_generation = 0xFFFFFFFF\<rparr>)) =
     Some \<lparr>ch_index = 63, ch_generation = 0xFFFFFFFF\<rparr> \<and>
   encode_cap_handle (decode_cap_handle 0x50003) = 0x50003"
  using handle_word_roundtrip [of "\<lparr>ch_index = 63, ch_generation = 0xFFFFFFFF\<rparr>" "0x50003"]
  by (simp add: drop_bit_eq_div)

text \<open>
  The registers of a receive tell its outcome. Two outcomes of a receive
  whose handles fit the register have the same return registers only when they
  are the same outcome: the message label, the three parameters and the
  transferred handle, or "pending".
\<close>

theorem recv_registers_unambiguous:
  assumes "\<And>msg cap. r = Received msg cap \<Longrightarrow> handle_fits cap"
    and "\<And>msg cap. r' = Received msg cap \<Longrightarrow> handle_fits cap"
    and "encode_recv_outcome r = encode_recv_outcome r'"
  shows "r = r'"
proof (cases r)
  case r: (Received m c)
  show ?thesis
  proof (cases r')
    case (Received m' c')
    with r assms show ?thesis
      by (auto simp: encode_recv_registers prod_eq_iff intro: encode_cap_handle_inj)
  next
    case Pending
    with r assms(3) show ?thesis
      by (simp add: encode_recv_registers RECV_OUTCOME_RECEIVED_def RECV_OUTCOME_PENDING_def)
  qed
next
  case r: Pending
  show ?thesis
  proof (cases r')
    case (Received m' c')
    with r assms(3) show ?thesis
      by (simp add: encode_recv_registers RECV_OUTCOME_RECEIVED_def RECV_OUTCOME_PENDING_def)
  qed (simp add: r)
qed

theorem recv_registers_unambiguous_witness:
  "Received \<lparr>msg_label = 7, msg_params = (1, 2, 3)\<rparr> (decode_cap_handle 0x50002) =
   Received \<lparr>msg_label = 7, msg_params = (1, 2, 3)\<rparr> (Some \<lparr>ch_index = 2, ch_generation = 5\<rparr>)"
  by (rule recv_registers_unambiguous)
    (auto simp: handle_fits_def decode_cap_handle_def NULL_CAP_HANDLE_def drop_bit_eq_div)

end
