(* ===== verification/Mmu.thy ===== *)
theory Mmu
  imports Vmsav8
begin

text \<open>
  The translation interface (\<open>hal/src/mmu/mod.rs\<close>: \<open>FrameProvider\<close>,
  \<open>MapperFlush\<close>, the \<open>Mmu\<close> trait) and its implementation for the QEMU virt
  board (\<open>bsp-qemu-virt/src/mmu.rs\<close>): the four-level walk that installs,
  removes and reads 4 KiB pages, on the bytes of the translation tables.

  A frame provider is its state and its \<open>alloc_frame\<close>, which may write memory
  (the zero-fill) and may panic. The trait is a record of its methods, so that
  the kernel code above it is written once for any implementation, as the
  generic \<open>M: Mmu\<close> of the source. TLB invalidations are hardware; the kernel's
  requests for them are collected in a log by the code that discharges a flush
  token.
\<close>

unbundle bit_operations_syntax

section \<open>The interface\<close>

type_synonym 'p frame_provider = "'p \<Rightarrow> memory \<Rightarrow> (('p \<times> memory) \<times> phys_frame option) option"

datatype mapper_flush = MapperFlush (mfl_virt_addr: nat)

text \<open>\<open>flush\<close> asks for the invalidation of its address; \<open>ignore\<close> asks for nothing.\<close>

type_synonym tlb_log = "nat list"

definition mapper_flush_flush :: "mapper_flush \<Rightarrow> tlb_log \<Rightarrow> tlb_log" where
  "mapper_flush_flush tok tlb = tlb @ [mfl_virt_addr tok]"

definition mapper_flush_ignore :: "mapper_flush \<Rightarrow> tlb_log \<Rightarrow> tlb_log" where
  "mapper_flush_ignore tok tlb = tlb"

type_synonym translation = "mmu_error + phys_frame \<times> mapping_flags"

record ('a, 'p) mmu =
  mmu_create_address_space :: "phys_frame \<Rightarrow> 'a"
  mmu_address_space_root :: "'a \<Rightarrow> phys_frame"
  mmu_map :: "'p frame_provider \<Rightarrow> 'p \<Rightarrow> memory \<Rightarrow> 'a \<Rightarrow> nat \<Rightarrow> phys_frame \<Rightarrow> mapping_flags \<Rightarrow>
                ('p \<times> memory \<times> 'a, mmu_error, mapper_flush) outcome"
  mmu_unmap :: "memory \<Rightarrow> 'a \<Rightarrow> nat \<Rightarrow> (memory \<times> 'a, mmu_error, mapper_flush \<times> phys_frame) outcome"
  mmu_translate :: "memory \<Rightarrow> 'a \<Rightarrow> nat \<Rightarrow> translation option"

text \<open>The operator \<open>?\<close> on a stateful result: an error returns at once.\<close>

definition try_bind ::
    "('s, 'e, 'a) outcome \<Rightarrow> ('s \<Rightarrow> 'a \<Rightarrow> ('s, 'e, 'b) outcome) \<Rightarrow> ('s, 'e, 'b) outcome" where
  "try_bind x f = do { (s, r) \<leftarrow> x; case r of Inl e \<Rightarrow> Some (s, Inl e) | Inr a \<Rightarrow> f s a }"

lemma try_bind_simps [simp]:
  "try_bind (Some (s, Inl e)) f = Some (s, Inl e)"
  "try_bind (Some (s, Inr a)) f = f s a"
  "try_bind None f = None"
  by (simp_all add: try_bind_def)

section \<open>Indices\<close>

definition VA_L0_SHIFT :: nat where "VA_L0_SHIFT = 39"
definition VA_L1_SHIFT :: nat where "VA_L1_SHIFT = 30"
definition VA_L2_SHIFT :: nat where "VA_L2_SHIFT = 21"
definition VA_L3_SHIFT :: nat where "VA_L3_SHIFT = 12"
definition VA_INDEX_MASK :: "64 word" where "VA_INDEX_MASK = 0x1FF"
definition ENTRIES_PER_TABLE :: nat where "ENTRIES_PER_TABLE = PAGE_SIZE div 8"

definition va_index :: "nat \<Rightarrow> nat \<Rightarrow> nat" where
  "va_index va shift = unat (drop_bit shift (of_nat va :: 64 word) AND VA_INDEX_MASK)"

section \<open>The walk\<close>

record qemu_address_space =
  qa_root :: phys_frame

definition from_existing_root :: "phys_frame \<Rightarrow> qemu_address_space" where
  "from_existing_root root = \<lparr>qa_root = root\<rparr>"

definition null_alloc_frame :: "unit frame_provider" where
  "null_alloc_frame p m = Some ((p, m), None)"

text \<open>The address of an entry of a table, through the direct map.\<close>

definition entry_ptr :: "phys_frame \<Rightarrow> nat \<Rightarrow> nat option" where
  "entry_ptr table idx = do { va \<leftarrow> phys_to_kernel_va (frame_addr table); Some (va + 8 * idx) }"

definition walk_or_alloc_table ::
    "'p frame_provider \<Rightarrow> phys_frame \<Rightarrow> nat \<Rightarrow> bool \<Rightarrow> 'p \<times> memory \<Rightarrow>
       ('p \<times> memory, mmu_error, phys_frame) outcome" where
  "walk_or_alloc_table alloc parent_table idx unmap st = do {
     let (p, m) = st;
     slot_ptr \<leftarrow> entry_ptr parent_table idx;
     let existing = read_u64 m slot_ptr;
     if existing AND DESC_VALID_BIT \<noteq> 0 then
       (if existing AND DESC_TABLE_OR_PAGE_BIT = 0
        then Some ((p, m), Inl (if unmap then BlockMapped else AlreadyMapped))
        else Some ((p, m), ok_or (frame_from_aligned (unat (existing AND TABLE_NLA_MASK))) MisalignedAddress))
     else if unmap then Some ((p, m), Inl NotMapped)
     else do {
       ((p', m'), r) \<leftarrow> alloc p m;
       case r of
         None \<Rightarrow> Some ((p', m'), Inl MmuOutOfFrames)
       | Some new_table \<Rightarrow>
           Some ((p', write_u64 m' slot_ptr (table_descriptor (of_nat (frame_addr new_table)))), Inr new_table)
     }
   }"

definition walk_and_install_leaf ::
    "'p frame_provider \<Rightarrow> phys_frame \<Rightarrow> nat \<Rightarrow> phys_frame \<Rightarrow> mapping_flags \<Rightarrow> bool \<Rightarrow> 'p \<times> memory \<Rightarrow>
       ('p \<times> memory, mmu_error, phys_frame) outcome" where
  "walk_and_install_leaf alloc root va pa flags unmap st =
     try_bind (walk_or_alloc_table alloc root (va_index va VA_L0_SHIFT) unmap st) (\<lambda>st l1_table.
     try_bind (walk_or_alloc_table alloc l1_table (va_index va VA_L1_SHIFT) unmap st) (\<lambda>st l2_table.
     try_bind (walk_or_alloc_table alloc l2_table (va_index va VA_L2_SHIFT) unmap st) (\<lambda>(p, m) l3_table. do {
       leaf_slot \<leftarrow> entry_ptr l3_table (va_index va VA_L3_SHIFT);
       let existing = read_u64 m leaf_slot;
       if unmap then
         (if existing AND DESC_VALID_BIT = 0 then Some ((p, m), Inl NotMapped)
          else Some ((p, write_u64 m leaf_slot 0),
                     ok_or (frame_from_aligned (unat (existing AND PAGE_OA_MASK_L3))) MisalignedAddress))
       else
         (if existing AND DESC_VALID_BIT \<noteq> 0 then Some ((p, m), Inl AlreadyMapped)
          else Some ((p, write_u64 m leaf_slot
                           (page_descriptor (of_nat (frame_addr pa)) (flags_to_descriptor_bits flags))), Inr pa))
     })))"

section \<open>The methods\<close>

definition qemu_create_address_space :: "phys_frame \<Rightarrow> qemu_address_space" where
  "qemu_create_address_space root = \<lparr>qa_root = root\<rparr>"

definition qemu_address_space_root :: "qemu_address_space \<Rightarrow> phys_frame" where
  "qemu_address_space_root as = qa_root as"

definition qemu_map ::
    "'p frame_provider \<Rightarrow> 'p \<Rightarrow> memory \<Rightarrow> qemu_address_space \<Rightarrow> nat \<Rightarrow> phys_frame \<Rightarrow> mapping_flags \<Rightarrow>
       ('p \<times> memory \<times> qemu_address_space, mmu_error, mapper_flush) outcome" where
  "qemu_map alloc p m as va pa flags =
     (if va mod PAGE_SIZE \<noteq> 0 then Some ((p, m, as), Inl MisalignedAddress)
      else if mf_contains flags mf_DEVICE \<and> mf_contains flags mf_EXECUTE
      then Some ((p, m, as), Inl InvalidFlags)
      else do {
        ((p', m'), r) \<leftarrow> walk_and_install_leaf alloc (qa_root as) va pa flags False (p, m);
        Some ((p', m', as), map_sum id (\<lambda>_. MapperFlush va) r)
      })"

definition qemu_unmap ::
    "memory \<Rightarrow> qemu_address_space \<Rightarrow> nat \<Rightarrow>
       (memory \<times> qemu_address_space, mmu_error, mapper_flush \<times> phys_frame) outcome" where
  "qemu_unmap m as va =
     (if va mod PAGE_SIZE \<noteq> 0 then Some ((m, as), Inl MisalignedAddress)
      else do {
        ((_, m'), r) \<leftarrow> walk_and_install_leaf null_alloc_frame (qa_root as) va (qa_root as) mf_EMPTY True ((), m);
        Some ((m', as), map_sum id (\<lambda>pa. (MapperFlush va, pa)) r)
      })"

definition qemu_translate :: "memory \<Rightarrow> qemu_address_space \<Rightarrow> nat \<Rightarrow> translation option" where
  "qemu_translate m as va =
     map_option snd
       (try_bind (walk_or_alloc_table null_alloc_frame (qa_root as) (va_index va VA_L0_SHIFT) True ((), m)) (\<lambda>st l1.
        try_bind (walk_or_alloc_table null_alloc_frame l1 (va_index va VA_L1_SHIFT) True st) (\<lambda>st l2.
        try_bind (walk_or_alloc_table null_alloc_frame l2 (va_index va VA_L2_SHIFT) True st) (\<lambda>st l3_table. do {
          l3_ptr \<leftarrow> entry_ptr l3_table (va_index va VA_L3_SHIFT);
          let leaf = read_u64 m l3_ptr;
          Some (st,
            if leaf AND DESC_VALID_BIT = 0 then Inl NotMapped
            else if leaf AND DESC_TABLE_OR_PAGE_BIT = 0 then Inl NotMapped
            else if leaf AND DESC_AF_BIT = 0 then Inl NotMapped
            else (case frame_from_aligned (unat (leaf AND PAGE_OA_MASK_L3)) of
                    None \<Rightarrow> Inl MisalignedAddress
                  | Some frame \<Rightarrow> Inr (frame, descriptor_bits_to_flags leaf)))
        }))))"

definition qemu_mmu :: "(qemu_address_space, 'p) mmu" where
  "qemu_mmu =
     \<lparr>mmu_create_address_space = qemu_create_address_space,
      mmu_address_space_root = qemu_address_space_root,
      mmu_map = qemu_map, mmu_unmap = qemu_unmap, mmu_translate = qemu_translate\<rparr>"

end
