(* ===== verification/UserAccess_Props.thy ===== *)
theory UserAccess_Props
  imports UserAccess
begin

text \<open>
  Facts on user accesses: pages and runs, the meaning of the window check and
  of the probe, and the byte-by-byte effect of the two copy loops.
\<close>

section \<open>Pages\<close>

lemma page_base_le: "page_base a \<le> a"
  by (simp add: page_base_def)

lemma page_base_offset: "a = page_base a + a mod PAGE_SIZE"
  by (simp add: page_base_def)

lemma page_offset: "a - page_base a = a mod PAGE_SIZE"
  by (simp add: page_base_def minus_div_mult_eq_mod)

lemma page_run_le: "cur < e \<Longrightarrow> cur + page_run cur e \<le> e"
  by (simp add: page_run_def)

lemma in_page_run:
  assumes "cur \<le> a" "a < cur + page_run cur e"
  shows "page_base a = page_base cur" "a mod PAGE_SIZE = cur mod PAGE_SIZE + (a - cur)" "a < e"
proof -
  let ?P = PAGE_SIZE
  have P: "0 < ?P" by (simp add: PAGE_SIZE_def)
  have lt: "a - cur < ?P - cur mod ?P" and e: "a < e"
    using assms by (auto simp: page_run_def page_offset)
  show "a < e" by (rule e)
  have a: "a = cur div ?P * ?P + (cur mod ?P + (a - cur))" using assms(1) by simp
  have b: "cur mod ?P + (a - cur) < ?P" using lt by simp
  have "(q * ?P + r) div ?P = q" if "r < ?P" for q r using that by simp
  from this [OF b, of "cur div ?P"] have "a div ?P = cur div ?P" unfolding a [symmetric] .
  then show "page_base a = page_base cur" by (simp add: page_base_def)
  have "(q * ?P + r) mod ?P = r" if "r < ?P" for q r using that by simp
  from this [OF b, of "cur div ?P"] show "a mod ?P = cur mod ?P + (a - cur)" unfolding a [symmetric] .
qed

section \<open>The window\<close>

lemma window_validate_ok:
  "user_window_validate w ptr n = Inr () \<longleftrightarrow>
     n = 0 \<or> ptr + n \<le> usize_max \<and> uw_base w + uw_len w \<le> usize_max \<and>
             uw_base w \<le> ptr \<and> ptr + n \<le> uw_base w + uw_len w"
  by (auto simp: user_window_validate_def checked_add_def)

lemma window_validate_error:
  "user_window_validate w ptr n = Inl e \<Longrightarrow> e = FaultAddress"
  by (auto simp: user_window_validate_def split: if_splits option.splits)

section \<open>The probe\<close>

definition page_ok :: "(nat \<Rightarrow> translation) \<Rightarrow> bool \<Rightarrow> nat \<Rightarrow> bool" where
  "page_ok tr rw p =
     (case tr p of
        Inl _ \<Rightarrow> False
      | Inr (f, fl) \<Rightarrow> mf_contains fl mf_USER \<and> (rw \<longrightarrow> mf_contains fl mf_WRITE))"

definition span_ok :: "(nat \<Rightarrow> translation) \<Rightarrow> bool \<Rightarrow> nat \<Rightarrow> nat \<Rightarrow> bool" where
  "span_ok tr rw lo hi \<longleftrightarrow> (\<forall>a. lo \<le> a \<and> a < hi \<longrightarrow> page_ok tr rw (page_base a))"

lemma span_okD: "\<lbrakk>span_ok tr rw lo hi; lo \<le> a; a < hi\<rbrakk> \<Longrightarrow> page_ok tr rw (page_base a)"
  by (simp add: span_ok_def)

lemma probe_loop_spec:
  assumes "e \<le> usize_max"
  shows "probe_loop tr rw (p, e) =
    Some (if \<forall>k. p + k * PAGE_SIZE < e \<longrightarrow> page_ok tr rw (p + k * PAGE_SIZE) then Inr () else Inl FaultAddress)"
proof (induction "e - p" arbitrary: p rule: less_induct)
  case less
  show ?case
  proof (cases "p < e")
    case False
    then show ?thesis by (subst probe_loop.simps) simp
  next
    case True
    show ?thesis
    proof (cases "page_ok tr rw p")
      case False
      then have "\<not> (\<forall>k. p + k * PAGE_SIZE < e \<longrightarrow> page_ok tr rw (p + k * PAGE_SIZE))"
        using True by (metis add.right_neutral mult_0)
      then show ?thesis
        using True False
        by (subst probe_loop.simps) (auto simp: page_ok_def split: sum.splits prod.splits)
    next
      case ok: True
      let ?p = "saturating_add p PAGE_SIZE"
      have step: "probe_loop tr rw (p, e) = probe_loop tr rw (?p, e)"
        using True ok by (subst probe_loop.simps) (auto simp: page_ok_def split: sum.splits prod.splits)
      have "p < ?p" using True assms by (simp add: saturating_add_def PAGE_SIZE_def)
      then have "e - ?p < e - p" using True by simp
      note IH = less.hyps [OF this]
      have "(\<forall>k. ?p + k * PAGE_SIZE < e \<longrightarrow> page_ok tr rw (?p + k * PAGE_SIZE)) \<longleftrightarrow>
          (\<forall>k. p + k * PAGE_SIZE < e \<longrightarrow> page_ok tr rw (p + k * PAGE_SIZE))"
      proof (cases "p + PAGE_SIZE \<le> usize_max")
        case True
        then have "?p + k * PAGE_SIZE = p + Suc k * PAGE_SIZE" for k
          by (simp add: saturating_add_exact)
        then show ?thesis using ok by (metis add.right_neutral mult_0 not0_implies_Suc)
      next
        case False
        then have big: "e < p + PAGE_SIZE" "e \<le> ?p" using assms by (auto simp: saturating_add_def)
        then have zero: "p + k * PAGE_SIZE < e \<Longrightarrow> k = 0" for k by (cases k) auto
        have "\<forall>k. p + k * PAGE_SIZE < e \<longrightarrow> page_ok tr rw (p + k * PAGE_SIZE)"
        proof (intro allI impI)
          fix k assume "p + k * PAGE_SIZE < e"
          from zero [OF this] show "page_ok tr rw (p + k * PAGE_SIZE)" using ok by simp
        qed
        then show ?thesis using big(2) by simp
      qed
      then show ?thesis unfolding step IH by simp
    qed
  qed
qed

lemma span_ok_pages:
  assumes "ptr < e"
  shows "span_ok tr rw ptr e \<longleftrightarrow>
    (\<forall>k. page_base ptr + k * PAGE_SIZE < e \<longrightarrow> page_ok tr rw (page_base ptr + k * PAGE_SIZE))"
    (is "_ \<longleftrightarrow> ?pages")
proof
  assume span: "span_ok tr rw ptr e"
  show ?pages
  proof (intro allI impI)
    fix k assume k: "page_base ptr + k * PAGE_SIZE < e"
    let ?a = "if k = 0 then ptr else page_base ptr + k * PAGE_SIZE"
    have "ptr < page_base ptr + PAGE_SIZE"
      using page_base_offset [of ptr] by (metis PAGE_SIZE_def mod_less_divisor nat_add_left_cancel_less zero_less_numeral)
    then have "ptr \<le> ?a" by (cases k) auto
    moreover have "?a < e" using assms k by simp
    moreover have "page_base ?a = page_base ptr + k * PAGE_SIZE"
      by (auto simp: page_base_def PAGE_SIZE_def algebra_simps)
    ultimately show "page_ok tr rw (page_base ptr + k * PAGE_SIZE)"
      using span unfolding span_ok_def by metis
  qed
next
  assume ?pages
  show "span_ok tr rw ptr e"
    unfolding span_ok_def
  proof (intro allI impI, elim conjE)
    fix a assume a: "ptr \<le> a" "a < e"
    have "page_base a = page_base ptr + (a div PAGE_SIZE - ptr div PAGE_SIZE) * PAGE_SIZE"
      using div_le_mono [OF a(1), of PAGE_SIZE] by (simp add: page_base_def flip: add_mult_distrib)
    then show "page_ok tr rw (page_base a)"
      using \<open>?pages\<close> a(2) page_base_le [of a] by simp
  qed
qed

lemma probe_user_pages_spec:
  assumes "ptr + n \<le> usize_max" "0 < n"
  shows "probe_user_pages tr ptr n rw =
    Some (if span_ok tr rw ptr (ptr + n) then Inr () else Inl FaultAddress)"
  using assms span_ok_pages [of ptr "ptr + n" tr rw]
  by (simp add: probe_user_pages_def checked_add_def probe_loop_spec)

section \<open>The copies\<close>

text \<open>The kernel address of the byte that a user address names, and the byte.\<close>

definition user_loc :: "(nat \<Rightarrow> translation) \<Rightarrow> nat \<Rightarrow> nat" where
  "user_loc tr a =
     (case tr (page_base a) of
        Inl _ \<Rightarrow> 0
      | Inr (f, _) \<Rightarrow> KERNEL_HIGH_HALF_OFFSET + frame_addr f + a mod PAGE_SIZE)"

text \<open>Every translated frame lies in the direct map, below 4 GiB.\<close>

definition frames_reachable :: "(nat \<Rightarrow> translation) \<Rightarrow> bool" where
  "frames_reachable tr \<longleftrightarrow> (\<forall>p f fl. tr p = Inr (f, fl) \<longrightarrow> frame_addr f < 0x100000000)"

lemma frame_ptr:
  "frame_addr f < 0x100000000 \<Longrightarrow> phys_frame_kernel_ptr f = Some (KERNEL_HIGH_HALF_OFFSET + frame_addr f)"
  by (simp add: phys_frame_kernel_ptr_def phys_to_kernel_va_eq KERNEL_HIGH_HALF_OFFSET_def)

lemma page_okE:
  assumes "page_ok tr rw p" "frames_reachable tr"
  obtains f fl where "tr p = Inr (f, fl)" "mf_contains fl mf_USER" "rw \<longrightarrow> mf_contains fl mf_WRITE"
    "phys_frame_kernel_ptr f = Some (KERNEL_HIGH_HALF_OFFSET + frame_addr f)"
proof -
  obtain f fl where t: "tr p = Inr (f, fl)" "mf_contains fl mf_USER" "rw \<longrightarrow> mf_contains fl mf_WRITE"
    using assms(1) by (auto simp: page_ok_def split: sum.splits)
  moreover have "frame_addr f < 0x100000000" using assms(2) t(1) unfolding frames_reachable_def by blast
  ultimately show thesis using that frame_ptr by blast
qed

lemma user_loc_run:
  assumes "tr (page_base cur) = Inr (f, fl)" "i < page_run cur e"
  shows "user_loc tr (cur + i) = KERNEL_HIGH_HALF_OFFSET + frame_addr f + (cur - page_base cur) + i"
  using in_page_run [of cur "cur + i" e] assms by (simp add: user_loc_def page_offset)

lemma nth_splice:
  assumes "off + length bs \<le> length dst"
  shows "length (splice dst off bs) = length dst"
    and "i < length dst \<Longrightarrow>
      splice dst off bs ! i = (if off \<le> i \<and> i < off + length bs then bs ! (i - off) else dst ! i)"
  using assms by (auto simp: splice_def nth_append min_def)

lemma copy_from_loop_spec:
  assumes "user_ptr \<le> cur" "cur \<le> e" "e \<le> usize_max" "e = user_ptr + length dst"
    and "span_ok tr False cur e" "frames_reachable tr"
  shows "\<exists>dst'. copy_from_loop tr m user_ptr e cur dst = Some (dst', Inr ()) \<and> length dst' = length dst \<and>
    (\<forall>i<length dst. dst' ! i = (if cur \<le> user_ptr + i then m (user_loc tr (user_ptr + i)) else dst ! i))"
  using assms
proof (induction "e - cur" arbitrary: cur dst rule: less_induct)
  case less
  show ?case
  proof (cases "cur < e")
    case False
    then show ?thesis using less.prems by (subst copy_from_loop.simps) auto
  next
    case True
    let ?run = "page_run cur e"
    have ok: "page_ok tr False (page_base cur)" using less.prems(5) True by (simp add: span_ok_def)
    then obtain f fl where f: "tr (page_base cur) = Inr (f, fl)" "mf_contains fl mf_USER"
        "phys_frame_kernel_ptr f = Some (KERNEL_HIGH_HALF_OFFSET + frame_addr f)"
      using page_okE less.prems(6) by metis
    have run: "cur + ?run \<le> e" "e - (cur + ?run) < e - cur"
      using page_run_le [OF True] page_run_progress [OF True] by auto
    let ?bs = "read_run m (KERNEL_HIGH_HALF_OFFSET + frame_addr f + (cur - page_base cur)) ?run"
    let ?dst = "splice dst (cur - user_ptr) ?bs"
    have len: "length ?bs = ?run" by (simp add: read_run_def)
    have fits: "cur - user_ptr + length ?bs \<le> length dst"
      using run less.prems unfolding len by simp
    note spl = nth_splice [OF fits]
    have step: "copy_from_loop tr m user_ptr e cur dst = copy_from_loop tr m user_ptr e (cur + ?run) ?dst"
      using True f run less.prems(3) by (subst copy_from_loop.simps) (simp add: checked_add_def Let_def)
    have "span_ok tr False (cur + ?run) e" using less.prems(5) by (simp add: span_ok_def)
    then obtain dst' where IH: "copy_from_loop tr m user_ptr e (cur + ?run) ?dst = Some (dst', Inr ())"
        "length dst' = length dst"
        "\<And>i. i < length dst \<Longrightarrow>
          dst' ! i = (if cur + ?run \<le> user_ptr + i then m (user_loc tr (user_ptr + i)) else ?dst ! i)"
      using less.hyps [OF run(2), of ?dst] less.prems run(1) spl(1) by auto
    have "dst' ! i = (if cur \<le> user_ptr + i then m (user_loc tr (user_ptr + i)) else dst ! i)"
      if i: "i < length dst" for i
    proof (cases "cur \<le> user_ptr + i \<and> user_ptr + i < cur + ?run")
      case True
      then have "?dst ! i = ?bs ! (i - (cur - user_ptr))"
        using spl(2) [OF i] less.prems(1) unfolding len by auto
      also have "\<dots> = m (user_loc tr (user_ptr + i))"
      proof -
        define j where "j = i - (cur - user_ptr)"
        have j: "j < ?run" "user_ptr + i = cur + j" using True less.prems(1) by (auto simp: j_def)
        then show ?thesis
          unfolding j(2) user_loc_run [where tr = tr, OF f(1) j(1)] j_def [symmetric]
          by (simp add: read_run_def)
      qed
      finally show ?thesis using IH(3) [OF i] True by simp
    next
      case False
      then show ?thesis using IH(3) [OF i] spl(2) [OF i] less.prems(1) unfolding len by auto
    qed
    then show ?thesis using IH(1,2) step by auto
  qed
qed

text \<open>
  The locations a user range covers, and a translation that does not change
  when bytes at those locations do.
\<close>

definition user_locs :: "(nat \<Rightarrow> translation) \<Rightarrow> nat \<Rightarrow> nat \<Rightarrow> nat set" where
  "user_locs tr lo hi = user_loc tr ` {lo..<hi}"

definition stable_translation :: "translator \<Rightarrow> memory \<Rightarrow> nat set \<Rightarrow> bool" where
  "stable_translation tr m L \<longleftrightarrow> (\<forall>m'. (\<forall>x. x \<notin> L \<longrightarrow> m' x = m x) \<longrightarrow> tr m' = tr m)"

lemma stable_translation_step:
  assumes "stable_translation tr m L" "\<And>x. x \<notin> L \<Longrightarrow> m' x = m x"
  shows "tr m' = tr m" "stable_translation tr m' L"
  using assms unfolding stable_translation_def by metis+

lemma copy_run_locs:
  assumes "tr (page_base cur) = Inr (f, fl)" "length bs = page_run cur e"
  shows "x \<notin> user_loc tr ` {cur..<cur + page_run cur e} \<Longrightarrow>
      copy_bytes m (KERNEL_HIGH_HALF_OFFSET + frame_addr f + (cur - page_base cur)) bs x = m x"
    and "i < page_run cur e \<Longrightarrow>
      copy_bytes m (KERNEL_HIGH_HALF_OFFSET + frame_addr f + (cur - page_base cur)) bs (user_loc tr (cur + i)) = bs ! i"
proof -
  let ?k = "KERNEL_HIGH_HALF_OFFSET + frame_addr f + (cur - page_base cur)"
  have loc: "user_loc tr (cur + i) = ?k + i" if "i < page_run cur e" for i
    using user_loc_run [where tr = tr, OF assms(1) that] .
  show "copy_bytes m ?k bs x = m x" if x: "x \<notin> user_loc tr ` {cur..<cur + page_run cur e}"
  proof -
    have "\<not> (?k \<le> x \<and> x < ?k + page_run cur e)"
    proof
      assume r: "?k \<le> x \<and> x < ?k + page_run cur e"
      then have "x - ?k < page_run cur e" "?k + (x - ?k) = x" by auto
      then have "x = user_loc tr (cur + (x - ?k))" using loc [of "x - ?k"] by metis
      moreover have "cur + (x - ?k) \<in> {cur..<cur + page_run cur e}" using r by auto
      ultimately show False using x by blast
    qed
    then show ?thesis by (auto simp: copy_bytes_def assms(2))
  qed
  show "copy_bytes m ?k bs (user_loc tr (cur + i)) = bs ! i" if "i < page_run cur e"
    using loc [OF that] that by (simp add: copy_bytes_def assms(2))
qed

lemma copy_to_loop_spec:
  assumes "user_ptr \<le> cur" "cur \<le> e" "e \<le> usize_max" "e = user_ptr + length src"
    and "span_ok (tr m) True cur e" "frames_reachable (tr m)"
    and "user_locs (tr m) cur e \<subseteq> L" "stable_translation tr m L"
  shows "\<exists>m'. copy_to_loop tr src user_ptr e cur m = Some (m', Inr ()) \<and>
    (\<forall>x. x \<notin> user_locs (tr m) cur e \<longrightarrow> m' x = m x) \<and>
    (inj_on (user_loc (tr m)) {cur..<e} \<longrightarrow>
       (\<forall>a. cur \<le> a \<longrightarrow> a < e \<longrightarrow> m' (user_loc (tr m) a) = src ! (a - user_ptr)))"
  using assms
proof (induction "e - cur" arbitrary: cur m rule: less_induct)
  case less
  show ?case
  proof (cases "cur < e")
    case False
    then show ?thesis using less.prems(2) by (subst copy_to_loop.simps) auto
  next
    case True
    let ?run = "page_run cur e"
    have ok: "page_ok (tr m) True (page_base cur)" using less.prems(5) True by (simp add: span_ok_def)
    then obtain f fl where f: "tr m (page_base cur) = Inr (f, fl)" "mf_contains fl mf_USER"
        "mf_contains fl mf_WRITE" "phys_frame_kernel_ptr f = Some (KERNEL_HIGH_HALF_OFFSET + frame_addr f)"
      using page_okE less.prems(6) by metis
    have run: "cur + ?run \<le> e" "e - (cur + ?run) < e - cur" "0 < ?run"
      using page_run_le [OF True] page_run_progress [OF True] page_run_pos [OF True] by auto
    let ?bs = "take ?run (drop (cur - user_ptr) src)"
    let ?m = "copy_bytes m (KERNEL_HIGH_HALF_OFFSET + frame_addr f + (cur - page_base cur)) ?bs"
    have len: "length ?bs = ?run" using less.prems(1,4) run(1) by simp
    note eff = copy_run_locs [where tr = "tr m" and m = m, OF f(1) len]
    have step: "copy_to_loop tr src user_ptr e cur m = copy_to_loop tr src user_ptr e (cur + ?run) ?m"
      using True f run less.prems(3) by (subst copy_to_loop.simps) (simp add: checked_add_def Let_def)
    have sub: "user_loc (tr m) ` {cur..<cur + ?run} \<subseteq> user_locs (tr m) cur e"
        "user_locs (tr m) (cur + ?run) e \<subseteq> user_locs (tr m) cur e"
      using run(1) by (auto simp: user_locs_def)
    have frame: "?m x = m x" if "x \<notin> user_locs (tr m) cur e" for x
      using eff(1) sub(1) that by blast
    have same: "tr ?m = tr m" "stable_translation tr ?m L"
      using stable_translation_step [OF less.prems(8), of ?m] frame less.prems(7) by blast+
    have "span_ok (tr m) True (cur + ?run) e" using less.prems(5) by (simp add: span_ok_def)
    then obtain m' where IH: "copy_to_loop tr src user_ptr e (cur + ?run) ?m = Some (m', Inr ())"
        "\<And>x. x \<notin> user_locs (tr m) (cur + ?run) e \<Longrightarrow> m' x = ?m x"
        "inj_on (user_loc (tr m)) {cur + ?run..<e} \<longrightarrow>
           (\<forall>a. cur + ?run \<le> a \<longrightarrow> a < e \<longrightarrow> m' (user_loc (tr m) a) = src ! (a - user_ptr))"
      using less.hyps [OF run(2), of ?m] less.prems run(1) same sub(2) by auto
    have "m' x = m x" if "x \<notin> user_locs (tr m) cur e" for x
      using IH(2) [of x] frame [OF that] sub(2) that by auto
    moreover have "m' (user_loc (tr m) a) = src ! (a - user_ptr)"
      if inj: "inj_on (user_loc (tr m)) {cur..<e}" and a: "cur \<le> a" "a < e" for a
    proof (cases "a < cur + ?run")
      case True
      have "user_loc (tr m) a \<notin> user_locs (tr m) (cur + ?run) e"
        using inj a True by (auto simp: user_locs_def dest!: inj_onD)
      then have "m' (user_loc (tr m) a) = ?bs ! (a - cur)"
        using IH(2) eff(2) [of "a - cur"] a True by simp
      then show ?thesis using True a less.prems(1,4) run(1) by simp
    next
      case False
      have "inj_on (user_loc (tr m)) {cur + ?run..<e}" using inj by (rule inj_on_subset) auto
      then show ?thesis using IH(3) False a by auto
    qed
    ultimately show ?thesis using IH(1) step by auto
  qed
qed

section \<open>The operations\<close>

definition in_window :: "user_access_window \<Rightarrow> nat \<Rightarrow> nat \<Rightarrow> bool" where
  "in_window w ptr n \<longleftrightarrow>
     uw_base w \<le> ptr \<and> ptr + n \<le> uw_base w + uw_len w \<and> uw_base w + uw_len w \<le> usize_max"

lemma window_validate_eq:
  "0 < n \<Longrightarrow> user_window_validate w ptr n = (if in_window w ptr n then Inr () else Inl FaultAddress)"
  by (auto simp: user_window_validate_def in_window_def checked_add_def)

lemma copy_from_user_cases:
  assumes "frames_reachable (tr m)" "0 < length dst"
  shows "copy_from_user tr m w ptr dst =
    (if in_window w ptr (length dst) \<and> span_ok (tr m) False ptr (ptr + length dst)
     then Some (map (\<lambda>i. m (user_loc (tr m) (ptr + i))) [0..<length dst], Inr ())
     else Some (dst, Inl FaultAddress))"
proof (cases "in_window w ptr (length dst)")
  case False
  then show ?thesis using assms(2) by (simp add: copy_from_user_def Let_def window_validate_eq)
next
  case True
  then have fits: "ptr + length dst \<le> usize_max" by (simp add: in_window_def)
  note probe = probe_user_pages_spec [OF fits assms(2)]
  show ?thesis
  proof (cases "span_ok (tr m) False ptr (ptr + length dst)")
    case False
    then show ?thesis
      using True assms(2) by (simp add: copy_from_user_def Let_def window_validate_eq probe)
  next
    case span: True
    obtain dst' where "copy_from_loop (tr m) m ptr (ptr + length dst) ptr dst = Some (dst', Inr ())"
        "length dst' = length dst" "\<And>i. i < length dst \<Longrightarrow> dst' ! i = m (user_loc (tr m) (ptr + i))"
      using copy_from_loop_spec [OF order_refl _ fits refl span assms(1), of m] by auto
    moreover from this have "dst' = map (\<lambda>i. m (user_loc (tr m) (ptr + i))) [0..<length dst]"
      by (intro nth_equalityI) auto
    ultimately show ?thesis
      using True span assms(2) fits
      by (simp add: copy_from_user_def Let_def window_validate_eq probe checked_add_def)
  qed
qed

lemma copy_from_user_empty: "copy_from_user tr m w ptr [] = Some ([], Inr ())"
  by (simp add: copy_from_user_def user_window_validate_def)

lemma copy_to_user_cases:
  assumes "frames_reachable (tr m)" "0 < length src"
    and "stable_translation tr m (user_locs (tr m) ptr (ptr + length src))"
  shows "if in_window w ptr (length src) \<and> span_ok (tr m) True ptr (ptr + length src)
    then \<exists>m'. copy_to_user tr m w ptr src = Some (m', Inr ()) \<and>
      (\<forall>x. x \<notin> user_locs (tr m) ptr (ptr + length src) \<longrightarrow> m' x = m x) \<and>
      (inj_on (user_loc (tr m)) {ptr..<ptr + length src} \<longrightarrow>
        (\<forall>i<length src. m' (user_loc (tr m) (ptr + i)) = src ! i))
    else copy_to_user tr m w ptr src = Some (m, Inl FaultAddress)"
proof (cases "in_window w ptr (length src)")
  case False
  then show ?thesis using assms(2) by (simp add: copy_to_user_def Let_def window_validate_eq)
next
  case True
  then have fits: "ptr + length src \<le> usize_max" by (simp add: in_window_def)
  note probe = probe_user_pages_spec [OF fits assms(2)]
  show ?thesis
  proof (cases "span_ok (tr m) True ptr (ptr + length src)")
    case False
    then show ?thesis
      using True assms(2) by (simp add: copy_to_user_def Let_def window_validate_eq probe)
  next
    case span: True
    have "copy_to_user tr m w ptr src = copy_to_loop tr src ptr (ptr + length src) ptr m"
      using True span assms(2) fits
      by (simp add: copy_to_user_def Let_def window_validate_eq probe checked_add_def)
    then show ?thesis
      using copy_to_loop_spec [OF order_refl _ fits refl span assms(1) subset_refl assms(3)] True span by auto
  qed
qed

lemma user_window_grants:
  assumes "in_window w ptr n" "ptr \<le> a" "a < ptr + n"
  shows "uw_base w \<le> a" "a < uw_base w + uw_len w"
  using assms by (auto simp: in_window_def)

end
