(* ===== verification/Ipc_Props.thy ===== *)
theory Ipc_Props
  imports Ipc "HOL-Library.Multiset"
begin

text \<open>
  What the IPC operations do. The queues are read through \<open>ep_state\<close>, the state
  an endpoint handle sees (a slot left behind by an earlier endpoint counts as
  idle). Each operation is then one step of the four-state rendezvous machine on
  one endpoint, and the capability it moves is at every moment in exactly one
  place: a table or the endpoint.
\<close>

section \<open>Reading and writing an endpoint's state\<close>

definition ep_index :: "endpoint_handle \<Rightarrow> nat" where
  "ep_index h = si_index (eh_slot h)"

definition ep_live :: "endpoint_arena \<Rightarrow> endpoint_handle \<Rightarrow> bool" where
  "ep_live arena h \<longleftrightarrow> arena_get arena (eh_slot h) \<noteq> None"

definition ep_state :: "ipc_queues \<Rightarrow> endpoint_handle \<Rightarrow> endpoint_state" where
  "ep_state q h =
     (if iq_generations q ! ep_index h = si_generation (eh_slot h)
      then iq_states q ! ep_index h else Idle)"

definition sync :: "ipc_queues \<Rightarrow> endpoint_handle \<Rightarrow> ipc_queues" where
  "sync q h =
     (if iq_generations q ! ep_index h = si_generation (eh_slot h) then q
      else \<lparr>iq_states = (iq_states q)[ep_index h := Idle],
            iq_generations = (iq_generations q)[ep_index h := si_generation (eh_slot h)]\<rparr>)"

definition set_ep :: "ipc_queues \<Rightarrow> endpoint_handle \<Rightarrow> endpoint_state \<Rightarrow> ipc_queues" where
  "set_ep q h st = put_state (sync q h) (ep_index h) st"

text \<open>
  The queues fit the arena: the arrays have its size, and a capability in flight
  belongs to the endpoint that is live in the slot (what an endpoint's
  destruction has to ensure by draining it first).
\<close>

definition queues_ok :: "endpoint_arena \<Rightarrow> ipc_queues \<Rightarrow> bool" where
  "queues_ok arena q \<longleftrightarrow>
     arena_wf ENDPOINT_ARENA_CAPACITY arena \<and>
     length (iq_states q) = ENDPOINT_ARENA_CAPACITY \<and>
     length (iq_generations q) = ENDPOINT_ARENA_CAPACITY \<and>
     (\<forall>h. ep_live arena h \<longrightarrow> iq_generations q ! ep_index h \<noteq> si_generation (eh_slot h) \<longrightarrow>
        \<not> pending_has_cap (iq_states q ! ep_index h))"

lemma ep_live_bound:
  "\<lbrakk>queues_ok arena q; ep_live arena h\<rbrakk> \<Longrightarrow> ep_index h < ENDPOINT_ARENA_CAPACITY"
  by (auto simp: queues_ok_def ep_live_def ep_index_def arena_wf_def arena_get_iff)

lemma ep_live_unique:
  "\<lbrakk>ep_live arena h; ep_live arena k; ep_index h = ep_index k\<rbrakk> \<Longrightarrow> h = k"
  by (cases h; cases k) (auto simp: ep_live_def ep_index_def arena_get_iff slot_id_eq_iff)

lemma reset_eq:
  assumes "queues_ok arena q" "ep_live arena h"
  shows "reset_if_stale_generation q h = Some (sync q h, ep_index h)"
  using ep_live_bound [OF assms] assms(1)
  by (simp add: reset_if_stale_generation_def sync_def queues_ok_def ep_index_def Let_def)

lemma sync_state:
  assumes "queues_ok arena q" "ep_live arena h"
  shows "iq_states (sync q h) ! ep_index h = ep_state q h"
    "iq_generations (sync q h) ! ep_index h = si_generation (eh_slot h)"
    "length (iq_states (sync q h)) = ENDPOINT_ARENA_CAPACITY"
    "length (iq_generations (sync q h)) = ENDPOINT_ARENA_CAPACITY"
  using ep_live_bound [OF assms] assms(1) by (auto simp: sync_def ep_state_def queues_ok_def)

lemma ep_state_sync:
  assumes "queues_ok arena q" "ep_live arena h" "ep_live arena k"
  shows "ep_state (sync q h) k = ep_state q k"
proof (cases "h = k")
  case True
  then show ?thesis using sync_state [OF assms(1,2)] by (simp add: ep_state_def)
next
  case False
  then have "ep_index h \<noteq> ep_index k" using ep_live_unique assms by blast
  then show ?thesis by (simp add: ep_state_def sync_def)
qed

lemma sync_ok:
  assumes "queues_ok arena q" "ep_live arena h"
  shows "queues_ok arena (sync q h)"
proof -
  have "\<not> pending_has_cap (iq_states (sync q h) ! ep_index k)"
    if "ep_live arena k" "iq_generations (sync q h) ! ep_index k \<noteq> si_generation (eh_slot k)" for k
  proof -
    have "h \<noteq> k" using that(2) sync_state(2) [OF assms] by auto
    then have "ep_index h \<noteq> ep_index k" using ep_live_unique assms(2) that(1) by blast
    then show ?thesis using that assms(1) by (auto simp: queues_ok_def sync_def split: if_splits)
  qed
  then show ?thesis using sync_state [OF assms] assms(1) by (simp add: queues_ok_def)
qed

lemma sync_sync [simp]: "ep_index h < length (iq_generations q) \<Longrightarrow> sync (sync q h) h = sync q h"
  by (simp add: sync_def)

lemma peek_eq:
  assumes "queues_ok arena q" "ep_live arena h"
  shows "peek_state q h = Some (sync q h, ep_state q h)"
  using reset_eq [OF assms] sync_state [OF assms] ep_live_bound [OF assms]
  by (simp add: peek_state_def)

lemma state_of_eq:
  assumes "queues_ok arena q" "ep_live arena h"
  shows "state_of q h = Some (sync q h, ep_index h, ep_state q h)"
  using reset_eq [OF assms] sync_state [OF assms] ep_live_bound [OF assms]
  by (simp add: state_of_def)

lemma state_of_sync_eq:
  assumes "queues_ok arena q" "ep_live arena h"
  shows "state_of (sync q h) h = Some (sync q h, ep_index h, ep_state q h)"
proof -
  have "sync (sync q h) h = sync q h"
    using ep_live_bound [OF assms] assms(1) by (simp add: queues_ok_def)
  then show ?thesis
    using state_of_eq [OF sync_ok [OF assms] assms(2)] ep_state_sync [OF assms assms(2)] by simp
qed

lemma set_ep_ok:
  assumes "queues_ok arena q" "ep_live arena h"
  shows "queues_ok arena (set_ep q h st)"
proof -
  have ok: "queues_ok arena (sync q h)" using assms by (rule sync_ok)
  have "\<not> pending_has_cap (iq_states (set_ep q h st) ! ep_index k)"
    if "ep_live arena k" "iq_generations (set_ep q h st) ! ep_index k \<noteq> si_generation (eh_slot k)" for k
  proof -
    have "iq_generations (sync q h) ! ep_index k \<noteq> si_generation (eh_slot k)"
      using that(2) by (simp add: set_ep_def put_state_def)
    moreover then have "h \<noteq> k" using sync_state(2) [OF assms] by auto
    then have "ep_index h \<noteq> ep_index k" using ep_live_unique assms(2) that(1) by blast
    ultimately show ?thesis using that(1) ok by (auto simp: queues_ok_def set_ep_def put_state_def)
  qed
  then show ?thesis using ok by (simp add: queues_ok_def set_ep_def put_state_def)
qed

lemma ep_state_set_ep:
  assumes "queues_ok arena q" "ep_live arena h" "ep_live arena k"
  shows "ep_state (set_ep q h st) k = (if k = h then st else ep_state q k)"
proof (cases "h = k")
  case True
  then show ?thesis
    using sync_state [OF assms(1,2)] ep_live_bound [OF assms(1,2)]
    by (simp add: ep_state_def set_ep_def put_state_def)
next
  case False
  then have "ep_index h \<noteq> ep_index k" using ep_live_unique assms by blast
  then have "ep_state (set_ep q h st) k = ep_state (sync q h) k"
    by (simp add: ep_state_def set_ep_def put_state_def)
  then show ?thesis using ep_state_sync [OF assms] False by simp
qed

definition same_states :: "endpoint_arena \<Rightarrow> ipc_queues \<Rightarrow> ipc_queues \<Rightarrow> bool" where
  "same_states arena q q' \<longleftrightarrow>
     queues_ok arena q' \<and> (\<forall>k. ep_live arena k \<longrightarrow> ep_state q' k = ep_state q k) \<and>
     (\<forall>i. (\<forall>k. ep_live arena k \<longrightarrow> ep_index k \<noteq> i) \<longrightarrow> iq_states q' ! i = iq_states q ! i)"

lemma same_states_refl: "queues_ok arena q \<Longrightarrow> same_states arena q q"
  by (simp add: same_states_def)

lemma same_states_sync:
  "\<lbrakk>queues_ok arena q; ep_live arena h\<rbrakk> \<Longrightarrow> same_states arena q (sync q h)"
  using sync_ok [of arena q h] ep_state_sync [of arena q h]
  by (auto simp: same_states_def sync_def)

section \<open>Send\<close>

text \<open>The checks of a send, in the order the code makes them.\<close>

definition send_verdict ::
    "endpoint_arena \<Rightarrow> ipc_queues \<Rightarrow> cap_handle \<Rightarrow> cap_table \<Rightarrow> cap_handle option \<Rightarrow>
       ipc_error + endpoint_handle" where
  "send_verdict arena q ep_cap t transfer =
     (case validate_ep_cap t ep_cap rights_SEND of
        Inl e \<Rightarrow> Inl e
      | Inr h \<Rightarrow>
          if \<not> transfer_ok t transfer then Inl InvalidTransferCap
          else if \<not> ep_live arena h then Inl StaleHandle
          else if queue_occupied (ep_state q h) then Inl QueueFull
          else if \<exists>x. transfer = Some x \<and> has_children t x then Inl InvalidTransferCap
          else Inr h)"

definition send_state :: "endpoint_state \<Rightarrow> message \<Rightarrow> capability option \<Rightarrow> endpoint_state \<times> send_outcome" where
  "send_state st msg cap =
     (if st = RecvWaiting then (RecvComplete msg cap, Delivered) else (SendPending msg cap, Enqueued))"

text \<open>What became of the transferred capability: it left the sender's table.\<close>

definition cap_left :: "cap_table \<Rightarrow> cap_table \<Rightarrow> cap_handle option \<Rightarrow> capability option \<Rightarrow> bool" where
  "cap_left t t' transfer cap \<longleftrightarrow>
     (case transfer of
        None \<Rightarrow> t' = t \<and> cap = None
      | Some x \<Rightarrow> \<exists>n. node_at t x = Some n \<and> cap = Some (cn_cap n) \<and>
                       rights_contains (cap_rights (cn_cap n)) rights_TRANSFER \<and>
                       cap_take t x = Some (t', Inr (cn_cap n)) \<and>
                       removes_nodes t t' {ch_index x})"

lemma take_cap_spec:
  assumes "cap_wf t" "transfer_ok t transfer"
  shows "if \<exists>x. transfer = Some x \<and> has_children t x
     then take_cap_if_some t transfer = Some (t, Inl InvalidTransferCap)
     else \<exists>t' cap. take_cap_if_some t transfer = Some (t', Inr cap) \<and> cap_left t t' transfer cap"
proof (cases transfer)
  case None
  then show ?thesis by (simp add: take_cap_if_some_def cap_left_def)
next
  case (Some x)
  then obtain n where n: "node_at t x = Some n" "rights_contains (cap_rights (cn_cap n)) rights_TRANSFER"
    using assms(2) by (auto simp: transfer_ok_def lookup_node split: option.splits)
  then show ?thesis
    using cap_take_spec [OF assms(1), of x] Some
    by (auto simp: take_cap_if_some_def cap_left_def split: if_splits)
qed

lemma ipc_send_spec:
  assumes "cap_wf t" "queues_ok arena q"
  shows "case send_verdict arena q ep_cap t transfer of
      Inl e \<Rightarrow> \<exists>q'. ipc_send arena q ep_cap t msg transfer = Some ((q', t), Inl e) \<and> same_states arena q q'
    | Inr h \<Rightarrow> \<exists>t' cap. cap_left t t' transfer cap \<and>
        (case send_state (ep_state q h) msg cap of (st, outcome) \<Rightarrow>
           ipc_send arena q ep_cap t msg transfer = Some ((set_ep q h st, t'), Inr outcome))"
proof (cases "validate_ep_cap t ep_cap rights_SEND")
  case (Inl e)
  then show ?thesis
    using same_states_refl [OF assms(2)] by (simp add: send_verdict_def ipc_send_def)
next
  case (Inr h)
  show ?thesis
  proof (cases "transfer_ok t transfer \<and> ep_live arena h")
    case False
    then show ?thesis
      using Inr same_states_refl [OF assms(2)]
      by (auto simp: send_verdict_def ipc_send_def ep_live_def)
  next
    case True
    note peek = peek_eq [OF assms(2), of h] and st = state_of_sync_eq [OF assms(2), of h]
      and same = same_states_sync [OF assms(2), of h]
      and take = take_cap_spec [OF assms(1), of transfer]
    show ?thesis
    proof (cases "queue_occupied (ep_state q h)")
      case occupied: True
      then show ?thesis
        using True Inr peek same by (simp add: send_verdict_def ipc_send_def ep_live_def)
    next
      case free: False
      show ?thesis
      proof (cases "\<exists>x. transfer = Some x \<and> has_children t x")
        case busy: True
        then show ?thesis
          using True free Inr peek same take
          by (auto simp: send_verdict_def ipc_send_def ep_live_def)
      next
        case False
        have "\<exists>t' cap. take_cap_if_some t transfer = Some (t', Inr cap) \<and> cap_left t t' transfer cap"
          using take [OF True [THEN conjunct1]] unfolding if_not_P [OF False] .
        then obtain t' cap where t': "take_cap_if_some t transfer = Some (t', Inr cap)"
            "cap_left t t' transfer cap"
          by blast
        have v: "send_verdict arena q ep_cap t transfer = Inr h"
          using True free False Inr by (simp add: send_verdict_def)
        have "ipc_send arena q ep_cap t msg transfer =
           (case send_state (ep_state q h) msg cap of (st, outcome) \<Rightarrow>
              Some ((set_ep q h st, t'), Inr outcome))"
          using True free Inr peek st t'
          by (cases "ep_state q h")
            (simp_all add: ipc_send_def ep_live_def send_state_def set_ep_def queue_occupied_def)
        then have "cap_left t t' transfer cap \<and>
          (case send_state (ep_state q h) msg cap of (st, outcome) \<Rightarrow>
             ipc_send arena q ep_cap t msg transfer = Some ((set_ep q h st, t'), Inr outcome))"
          using t'(2) by (simp split: prod.splits)
        then show ?thesis unfolding v sum.case by (intro exI)
      qed
    qed
  qed
qed

section \<open>Receive and cancel\<close>

definition recv_verdict ::
    "endpoint_arena \<Rightarrow> ipc_queues \<Rightarrow> cap_handle \<Rightarrow> cap_table \<Rightarrow> ipc_error + endpoint_handle" where
  "recv_verdict arena q ep_cap t =
     (case validate_ep_cap t ep_cap rights_RECV of
        Inl e \<Rightarrow> Inl e
      | Inr h \<Rightarrow>
          if \<not> ep_live arena h then Inl StaleHandle
          else if pending_has_cap (ep_state q h) \<and> cap_table_is_full t then Inl ReceiverTableFull
          else if ep_state q h = RecvWaiting then Inl QueueFull
          else Inr h)"

definition parked :: "endpoint_state \<Rightarrow> (message \<times> capability option) option" where
  "parked st =
     (case st of SendPending m c \<Rightarrow> Some (m, c) | RecvComplete m c \<Rightarrow> Some (m, c) | _ \<Rightarrow> None)"

text \<open>What became of the capability in flight: it is a root of the receiver's table.\<close>

definition cap_arrived :: "cap_table \<Rightarrow> cap_table \<Rightarrow> capability option \<Rightarrow> cap_handle option \<Rightarrow> bool" where
  "cap_arrived t t' cap x \<longleftrightarrow>
     (case cap of
        None \<Rightarrow> t' = t \<and> x = None
      | Some c \<Rightarrow> \<exists>k. x = Some k \<and> insert_root t c = Some (t', Inr k) \<and>
                       adds_node t t' k \<lparr>cn_cap = c, cn_parent = None, cn_depth = 0\<rparr>)"

lemma install_cap_spec:
  assumes "cap_wf t" "cap = None \<or> \<not> cap_table_is_full t"
  shows "\<exists>t' x. install_cap_if_some t cap = Some (t', Inr x) \<and> cap_arrived t t' cap x"
proof (cases cap)
  case None
  then show ?thesis by (simp add: install_cap_if_some_def cap_arrived_def)
next
  case (Some c)
  then show ?thesis
    using insert_root_room [OF assms(1), of c] assms(2)
    by (auto simp: install_cap_if_some_def cap_arrived_def)
qed

lemma put_state_twice: "put_state (put_state q i a) i b = put_state q i b"
  by (simp add: put_state_def)

lemma ipc_recv_spec:
  assumes "cap_wf t" "queues_ok arena q"
  shows "case recv_verdict arena q ep_cap t of
      Inl e \<Rightarrow> \<exists>q'. ipc_recv arena q ep_cap t = Some ((q', t), Inl e) \<and> same_states arena q q'
    | Inr h \<Rightarrow>
        (case parked (ep_state q h) of
           None \<Rightarrow> ipc_recv arena q ep_cap t = Some ((set_ep q h RecvWaiting, t), Inr Pending)
         | Some (msg, cap) \<Rightarrow> \<exists>t' x. cap_arrived t t' cap x \<and>
             ipc_recv arena q ep_cap t = Some ((set_ep q h Idle, t'), Inr (Received msg x)))"
proof (cases "validate_ep_cap t ep_cap rights_RECV")
  case (Inl e)
  then show ?thesis
    using same_states_refl [OF assms(2)] by (simp add: recv_verdict_def ipc_recv_def)
next
  case (Inr h)
  show ?thesis
  proof (cases "ep_live arena h")
    case False
    then show ?thesis
      using Inr same_states_refl [OF assms(2)] by (simp add: recv_verdict_def ipc_recv_def ep_live_def)
  next
    case True
    note peek = peek_eq [OF assms(2) True] and st = state_of_sync_eq [OF assms(2) True]
      and same = same_states_sync [OF assms(2) True]
    show ?thesis
    proof (cases "pending_has_cap (ep_state q h) \<and> cap_table_is_full t")
      case full: True
      then show ?thesis
        using True Inr peek same by (auto simp: recv_verdict_def ipc_recv_def ep_live_def)
    next
      case room: False
      have waiting: "same_states arena q (set_ep q h RecvWaiting)" if "ep_state q h = RecvWaiting"
        using that set_ep_ok [OF assms(2) True] ep_state_set_ep [OF assms(2) True] True
        by (auto simp: same_states_def set_ep_def put_state_def sync_def)
      show ?thesis
      proof (cases "parked (ep_state q h)")
        case None
        then show ?thesis
          using True Inr peek st room waiting
          by (cases "ep_state q h")
            (auto simp: recv_verdict_def ipc_recv_def ep_live_def parked_def set_ep_def put_state_twice)
      next
        case (Some mc)
        obtain msg cap where mc: "mc = (msg, cap)" by (cases mc)
        have "cap = None \<or> \<not> cap_table_is_full t"
          using Some mc room by (cases "ep_state q h") (auto simp: parked_def pending_has_cap_def)
        then obtain t' x where "install_cap_if_some t cap = Some (t', Inr x)" "cap_arrived t t' cap x"
          using install_cap_spec [OF assms(1)] by blast
        then show ?thesis
          using True Inr peek st room Some mc
          by (cases "ep_state q h")
            (auto simp: recv_verdict_def ipc_recv_def ep_live_def parked_def set_ep_def Let_def)
      qed
    qed
  qed
qed

definition cancel_verdict ::
    "endpoint_arena \<Rightarrow> cap_handle \<Rightarrow> cap_table \<Rightarrow> ipc_error + endpoint_handle" where
  "cancel_verdict arena ep_cap t =
     (case validate_ep_cap t ep_cap rights_RECV of
        Inl e \<Rightarrow> Inl e
      | Inr h \<Rightarrow> if \<not> ep_live arena h then Inl StaleHandle else Inr h)"

lemma ipc_cancel_recv_spec:
  assumes "queues_ok arena q"
  shows "case cancel_verdict arena ep_cap t of
      Inl e \<Rightarrow> ipc_cancel_recv arena q ep_cap t = Some (q, Inl e)
    | Inr h \<Rightarrow> \<exists>q'. ipc_cancel_recv arena q ep_cap t = Some (q', Inr ()) \<and>
        (if ep_state q h = RecvWaiting then q' = set_ep q h Idle else same_states arena q q')"
proof (cases "validate_ep_cap t ep_cap rights_RECV")
  case (Inl e)
  then show ?thesis by (simp add: cancel_verdict_def ipc_cancel_recv_def)
next
  case (Inr h)
  then show ?thesis
    using state_of_eq [OF assms, of h] same_states_sync [OF assms, of h]
    by (auto simp: cancel_verdict_def ipc_cancel_recv_def ep_live_def set_ep_def)
qed

lemma cap_left_wf: "\<lbrakk>cap_wf t; cap_left t t' x c\<rbrakk> \<Longrightarrow> cap_wf t'"
  by (auto simp: cap_left_def removes_nodes_def split: option.splits)

lemma cap_arrived_wf: "\<lbrakk>cap_wf t; cap_arrived t t' c x\<rbrakk> \<Longrightarrow> cap_wf t'"
  by (auto simp: cap_arrived_def adds_node_def split: option.splits)

end
