(* ===== verification/Dispatch.thy ===== *)
theory Dispatch
  imports UserAccess_Props Ipc_Props
begin

text \<open>
  The system-call dispatcher (\<open>kernel/src/syscall/dispatch.rs\<close>): the decoding of
  a call, the five handlers and the debug-console check. The context is the
  kernel state a call may reach, as the trap entry assembles it: the endpoint
  arena and queues, the calling task's own capability table, its window and its
  translation (the \<open>mmu\<close> and \<open>task_as\<close> fields together), and the console, kept
  as the bytes written to it so far.
\<close>

record syscall_context =
  sc_ep_arena :: endpoint_arena
  sc_queues :: ipc_queues
  sc_caller_table :: cap_table
  sc_console :: "8 word list"
  sc_user_window :: user_access_window
  sc_translate :: translator
  sc_memory :: memory
  sc_has_current_task :: bool

definition CONSOLE_WRITE_CHUNK :: nat where
  "CONSOLE_WRITE_CHUNK = 256"

section \<open>Send and receive\<close>

definition sys_send ::
    "syscall_context \<Rightarrow> 64 word list \<Rightarrow> (syscall_context \<times> syscall_return) option" where
  "sys_send ctx args =
     (let ep_cap = decode_required_cap_handle (args ! 0);
          msg = decode_send_message args;
          transfer = decode_cap_handle (args ! 5)
      in do {
        ((q, t), r) \<leftarrow> ipc_send (sc_ep_arena ctx) (sc_queues ctx) ep_cap (sc_caller_table ctx) msg transfer;
        Some (ctx\<lparr>sc_queues := q, sc_caller_table := t\<rparr>,
              case r of
                Inr outcome \<Rightarrow> with_payload 0 (encode_send_outcome outcome) syscall_ok
              | Inl e \<Rightarrow> syscall_err (SysIpc e))
      })"

definition sys_recv ::
    "syscall_context \<Rightarrow> 64 word list \<Rightarrow> (syscall_context \<times> syscall_return) option" where
  "sys_recv ctx args =
     (let ep_cap = decode_required_cap_handle (args ! 0)
      in do {
        ((q, t), r) \<leftarrow> ipc_recv (sc_ep_arena ctx) (sc_queues ctx) ep_cap (sc_caller_table ctx);
        Some (ctx\<lparr>sc_queues := q, sc_caller_table := t\<rparr>,
              case r of
                Inr outcome \<Rightarrow> encode_recv_outcome outcome
              | Inl e \<Rightarrow> syscall_err (SysIpc e))
      })"

section \<open>Console write\<close>

definition validate_debug_console_cap :: "cap_table \<Rightarrow> cap_handle \<Rightarrow> cap_error + unit" where
  "validate_debug_console_cap t cons_cap =
     (case cap_lookup t cons_cap of
        Inl e \<Rightarrow> Inl e
      | Inr c \<Rightarrow>
          if cap_kind c \<noteq> KindDebugConsole then Inl WrongKind
          else if \<not> rights_contains (cap_rights c) rights_CONSOLE_WRITE then Inl InsufficientRights
          else Inr ())"

text \<open>
  The copy loop. \<open>buf\<close> is the stack buffer that all chunks share: a chunk is
  copied into its first bytes and emitted from there.
\<close>

function console_write_loop ::
    "syscall_context \<Rightarrow> nat \<Rightarrow> nat \<Rightarrow> nat \<Rightarrow> 8 word list \<Rightarrow> (syscall_context, syscall_error, unit) outcome" where
  "console_write_loop ctx ptr n offset buf =
     (if offset < n then
        (let chunk = min (n - offset) CONSOLE_WRITE_CHUNK
         in case checked_add ptr offset of
              None \<Rightarrow> Some (ctx, Inl FaultAddress)
            | Some chunk_ptr \<Rightarrow>
                (case copy_from_user (sc_translate ctx) (sc_memory ctx) (sc_user_window ctx) chunk_ptr
                        (take chunk buf) of
                   None \<Rightarrow> None
                 | Some (bytes, r) \<Rightarrow>
                     (case r of
                        Inl e \<Rightarrow> Some (ctx, Inl e)
                      | Inr _ \<Rightarrow>
                          (let ctx' = ctx\<lparr>sc_console := sc_console ctx @ bytes\<rparr>
                           in case checked_add offset chunk of
                                None \<Rightarrow> Some (ctx', Inl FaultAddress)
                              | Some next \<Rightarrow> console_write_loop ctx' ptr n next (bytes @ drop chunk buf)))))
      else Some (ctx, Inr ()))"
  by pat_completeness auto
termination
  by (relation "measure (\<lambda>(_, _, n, offset, _). n - offset)")
    (auto simp: checked_add_eq_Some_iff CONSOLE_WRITE_CHUNK_def)

declare console_write_loop.simps [simp del]

definition sys_console_write ::
    "syscall_context \<Rightarrow> 64 word list \<Rightarrow> (syscall_context \<times> syscall_return) option" where
  "sys_console_write ctx args =
     (let cons_cap = decode_required_cap_handle (args ! 0);
          ptr = unat (args ! 1);
          n = unat (args ! 2)
      in case validate_debug_console_cap (sc_caller_table ctx) cons_cap of
           Inl e \<Rightarrow> Some (ctx, syscall_err (SysCap e))
         | Inr _ \<Rightarrow>
             (case user_window_validate (sc_user_window ctx) ptr n of
                Inl e \<Rightarrow> Some (ctx, syscall_err e)
              | Inr _ \<Rightarrow> do {
                  probe \<leftarrow> (if 0 < n then probe_user_pages (sc_translate ctx (sc_memory ctx)) ptr n False
                           else Some (Inr ()));
                  case probe of
                    Inl e \<Rightarrow> Some (ctx, syscall_err e)
                  | Inr _ \<Rightarrow> do {
                      (ctx', r) \<leftarrow> console_write_loop ctx ptr n 0 (replicate CONSOLE_WRITE_CHUNK 0);
                      Some (ctx', case r of
                                    Inl e \<Rightarrow> syscall_err e
                                  | Inr _ \<Rightarrow> with_payload 0 (of_nat n) syscall_ok)
                    }
                }))"

section \<open>Dispatch\<close>

definition dispatch :: "bool \<Rightarrow> syscall_context \<Rightarrow> syscall_args \<Rightarrow> (syscall_context \<times> syscall_effect) option" where
  "dispatch debug ctx args =
     (case syscall_decode debug (sa_number args) of
        None \<Rightarrow> Some (ctx, Resume (syscall_err BadSyscallNumber))
      | Some SysSend \<Rightarrow> map_option (map_prod id Resume) (sys_send ctx (sa_args args))
      | Some SysRecv \<Rightarrow> map_option (map_prod id Resume) (sys_recv ctx (sa_args args))
      | Some SysTaskYield \<Rightarrow>
          Some (ctx, if sc_has_current_task ctx then Reschedule
                     else Resume (syscall_err (SysCap InvalidHandle)))
      | Some SysTaskExit \<Rightarrow>
          Some (ctx, if sc_has_current_task ctx then Terminate (sa_args args ! 0)
                     else Resume (syscall_err (SysCap InvalidHandle)))
      | Some SysConsoleWrite \<Rightarrow> map_option (map_prod id Resume) (sys_console_write ctx (sa_args args)))"

end
