(* ===== verification/Sched.thy ===== *)
theory Sched
  imports UserAccess
begin

text \<open>
  The cooperative scheduler (\<open>kernel/src/sched/mod.rs\<close>): the ring buffer of
  ready tasks, the per-task arrays, registration, dispatch and the bridge that
  blocks and wakes tasks around IPC.

  The architecture's \<open>ContextSwitch\<close> trait is a parameter: \<open>cpu\<close> holds its
  context initialisers over an abstract context type. A function that ends in
  \<open>cpu.context_switch\<close> is modelled up to the switch and returns the switch it
  makes: the slot whose context is saved, the slot that is restored and the
  address space to activate. What runs after the switch, when the task is
  resumed, is a definition of its own. Capability-table pointers are addresses;
  0 is null.
\<close>

section \<open>The ready queue\<close>

record sched_queue =
  sq_buf :: "task_handle option list"
  sq_head :: nat
  sq_len :: nat

definition sq_new :: "nat \<Rightarrow> sched_queue" where
  "sq_new n = \<lparr>sq_buf = replicate n None, sq_head = 0, sq_len = 0\<rparr>"

text \<open>\<open>xs[i] = v\<close>, which panics out of range.\<close>

definition put_at :: "'a list \<Rightarrow> nat \<Rightarrow> 'a \<Rightarrow> 'a list option" where
  "put_at xs i v = (if i < length xs then Some (xs[i := v]) else None)"

definition sq_enqueue :: "sched_queue \<Rightarrow> task_handle \<Rightarrow> (sched_queue, task_handle, unit) outcome" where
  "sq_enqueue q h =
     (let n = length (sq_buf q)
      in if sq_len q = n then Some (q, Inl h)
         else do {
           buf \<leftarrow> put_at (sq_buf q) (wrapping_add (sq_head q) (sq_len q) mod n) (Some h);
           Some (q\<lparr>sq_buf := buf, sq_len := wrapping_add (sq_len q) 1\<rparr>, Inr ())
         })"

definition sq_dequeue :: "sched_queue \<Rightarrow> (sched_queue \<times> task_handle option) option" where
  "sq_dequeue q =
     (let n = length (sq_buf q)
      in if sq_len q = 0 then Some (q, None)
         else do {
           h \<leftarrow> nth_opt (sq_buf q) (sq_head q);
           buf \<leftarrow> put_at (sq_buf q) (sq_head q) None;
           Some (\<lparr>sq_buf = buf, sq_head = wrapping_add (sq_head q) 1 mod n,
                  sq_len = wrapping_sub (sq_len q) 1\<rparr>, h)
         })"

definition sq_length :: "sched_queue \<Rightarrow> nat" where
  "sq_length q = sq_len q"

definition sq_is_empty :: "sched_queue \<Rightarrow> bool" where
  "sq_is_empty q \<longleftrightarrow> sq_len q = 0"

section \<open>The scheduler\<close>

datatype task_state = TaskIdle | TaskReady | TaskBlocked endpoint_handle

datatype sched_error = NoCurrentTask | SchedQueueFull | SchedIpc ipc_error | Deadlock

record 'c cpu =
  cpu_default :: 'c
  cpu_init_context :: "'c \<Rightarrow> nat \<Rightarrow> nat \<Rightarrow> 'c"
  cpu_init_user_context :: "'c \<Rightarrow> nat \<Rightarrow> nat \<Rightarrow> nat \<Rightarrow> 'c"

record 'c scheduler =
  sd_ready :: sched_queue
  sd_task_states :: "task_state list"
  sd_task_handles :: "task_handle option list"
  sd_as_handles :: "address_space_handle option list"
  sd_cap_tables :: "nat option list"
  sd_user_windows :: "user_access_window option list"
  sd_current :: "task_handle option"
  sd_idle :: "task_handle option"
  sd_contexts :: "'c list"

definition sched_new :: "'c cpu \<Rightarrow> 'c scheduler" where
  "sched_new cpu =
     \<lparr>sd_ready = sq_new TASK_ARENA_CAPACITY,
      sd_task_states = replicate TASK_ARENA_CAPACITY TaskIdle,
      sd_task_handles = replicate TASK_ARENA_CAPACITY None,
      sd_as_handles = replicate TASK_ARENA_CAPACITY None,
      sd_cap_tables = replicate TASK_ARENA_CAPACITY None,
      sd_user_windows = replicate TASK_ARENA_CAPACITY None,
      sd_current = None, sd_idle = None,
      sd_contexts = replicate TASK_ARENA_CAPACITY (cpu_default cpu)\<rparr>"

definition th_index :: "task_handle \<Rightarrow> nat" where
  "th_index h = si_index (th_slot h)"

section \<open>Registration\<close>

text \<open>The three array writes that registration ends with.\<close>

definition bind_task :: "'c scheduler \<Rightarrow> task_handle \<Rightarrow> address_space_handle \<Rightarrow> 'c scheduler option" where
  "bind_task s h ash = do {
     states \<leftarrow> put_at (sd_task_states s) (th_index h) TaskReady;
     handles \<leftarrow> put_at (sd_task_handles s) (th_index h) (Some h);
     spaces \<leftarrow> put_at (sd_as_handles s) (th_index h) (Some ash);
     Some (s\<lparr>sd_task_states := states, sd_task_handles := handles, sd_as_handles := spaces\<rparr>)
   }"

definition add_task ::
    "'c cpu \<Rightarrow> 'c scheduler \<Rightarrow> task_handle \<Rightarrow> address_space_handle \<Rightarrow> nat \<Rightarrow> nat \<Rightarrow>
       ('c scheduler, sched_error, unit) outcome" where
  "add_task cpu s h ash entry stack_top = do {
     ctx \<leftarrow> nth_opt (sd_contexts s) (th_index h);
     contexts \<leftarrow> put_at (sd_contexts s) (th_index h) (cpu_init_context cpu ctx entry stack_top);
     (ready, r) \<leftarrow> sq_enqueue (sd_ready s) h;
     let s1 = s\<lparr>sd_contexts := contexts, sd_ready := ready\<rparr>;
     case r of
       Inl _ \<Rightarrow> Some (s1, Inl SchedQueueFull)
     | Inr _ \<Rightarrow> do { s2 \<leftarrow> bind_task s1 h ash; Some (s2, Inr ()) }
   }"

definition add_user_task ::
    "'c cpu \<Rightarrow> 'c scheduler \<Rightarrow> task_handle \<Rightarrow> address_space_handle \<Rightarrow> nat \<Rightarrow> nat \<Rightarrow> nat \<Rightarrow> nat \<Rightarrow>
       ('c scheduler, sched_error, unit) outcome" where
  "add_user_task cpu s h ash user_entry user_sp kernel_stack_top table_ptr = do {
     ctx \<leftarrow> nth_opt (sd_contexts s) (th_index h);
     contexts \<leftarrow> put_at (sd_contexts s) (th_index h)
                   (cpu_init_user_context cpu ctx user_entry user_sp kernel_stack_top);
     (ready, r) \<leftarrow> sq_enqueue (sd_ready s) h;
     let s1 = s\<lparr>sd_contexts := contexts, sd_ready := ready\<rparr>;
     case r of
       Inl _ \<Rightarrow> Some (s1, Inl SchedQueueFull)
     | Inr _ \<Rightarrow> do {
         s2 \<leftarrow> bind_task s1 h ash;
         tables \<leftarrow> put_at (sd_cap_tables s2) (th_index h) (if table_ptr = 0 then None else Some table_ptr);
         windows \<leftarrow> put_at (sd_user_windows s2) (th_index h)
                      (Some (user_window_new user_entry (user_sp - user_entry)));
         Some (s2\<lparr>sd_cap_tables := tables, sd_user_windows := windows\<rparr>, Inr ())
       }
   }"

definition register_idle ::
    "'c cpu \<Rightarrow> 'c scheduler \<Rightarrow> task_handle \<Rightarrow> address_space_handle \<Rightarrow> nat \<Rightarrow> nat \<Rightarrow> 'c scheduler option" where
  "register_idle cpu s h ash entry stack_top =
     (if sd_idle s \<noteq> None then None
      else do {
        ctx \<leftarrow> nth_opt (sd_contexts s) (th_index h);
        contexts \<leftarrow> put_at (sd_contexts s) (th_index h) (cpu_init_context cpu ctx entry stack_top);
        s1 \<leftarrow> bind_task (s\<lparr>sd_contexts := contexts\<rparr>) h ash;
        Some (s1\<lparr>sd_idle := Some h\<rparr>)
      })"

section \<open>The running task's bindings\<close>

text \<open>\<^term>\<open>None\<close> outside is the panic of an index out of range.\<close>

definition current_user_table :: "'c scheduler \<Rightarrow> nat option option" where
  "current_user_table s =
     (case sd_current s of None \<Rightarrow> Some None | Some h \<Rightarrow> nth_opt (sd_cap_tables s) (th_index h))"

definition current_address_space_handle :: "'c scheduler \<Rightarrow> address_space_handle option option" where
  "current_address_space_handle s =
     (case sd_current s of None \<Rightarrow> Some None | Some h \<Rightarrow> nth_opt (sd_as_handles s) (th_index h))"

definition current_user_window :: "'c scheduler \<Rightarrow> user_access_window option option" where
  "current_user_window s =
     (case sd_current s of None \<Rightarrow> Some None | Some h \<Rightarrow> nth_opt (sd_user_windows s) (th_index h))"

section \<open>Helpers\<close>

definition resolve_ep_cap :: "cap_table \<Rightarrow> cap_handle \<Rightarrow> sched_error + endpoint_handle" where
  "resolve_ep_cap t ep_cap =
     (case cap_lookup t ep_cap of
        Inl _ \<Rightarrow> Inl (SchedIpc StaleHandle)
      | Inr c \<Rightarrow>
          (case cap_object c of
             CapEndpoint h \<Rightarrow> Inr h
           | _ \<Rightarrow> Inl (SchedIpc WrongObjectKind)))"

definition enqueue_ready :: "'c scheduler \<Rightarrow> task_handle \<Rightarrow> 'c scheduler option" where
  "enqueue_ready s h = do {
     (ready, r) \<leftarrow> sq_enqueue (sd_ready s) h;
     case r of Inl _ \<Rightarrow> None | Inr _ \<Rightarrow> Some (s\<lparr>sd_ready := ready\<rparr>)
   }"

fun unblock_scan :: "'c scheduler \<Rightarrow> endpoint_handle \<Rightarrow> nat list \<Rightarrow> 'c scheduler option" where
  "unblock_scan s ep [] = Some s"
| "unblock_scan s ep (i # rest) = do {
     st \<leftarrow> nth_opt (sd_task_states s) i;
     if st = TaskBlocked ep then do {
       handle \<leftarrow> nth_opt (sd_task_handles s) i;
       case handle of
         None \<Rightarrow> unblock_scan s ep rest
       | Some h \<Rightarrow> do {
           states \<leftarrow> put_at (sd_task_states s) i TaskReady;
           enqueue_ready (s\<lparr>sd_task_states := states\<rparr>) h
         }
     } else unblock_scan s ep rest
   }"

definition unblock_receiver_on :: "'c scheduler \<Rightarrow> endpoint_handle \<Rightarrow> 'c scheduler option" where
  "unblock_receiver_on s ep = unblock_scan s ep [0..<TASK_ARENA_CAPACITY]"

section \<open>Dispatch\<close>

text \<open>The context switch a function ends in.\<close>

record switch =
  sw_save :: "nat option"
  sw_restore :: nat
  sw_activate :: "address_space_handle option"

definition make_current :: "'c scheduler \<Rightarrow> task_handle \<Rightarrow> 'c scheduler option" where
  "make_current s h = do {
     states \<leftarrow> put_at (sd_task_states s) (th_index h) TaskReady;
     Some (s\<lparr>sd_task_states := states, sd_current := Some h\<rparr>)
   }"

definition start_prelude :: "'c scheduler \<Rightarrow> ('c scheduler \<times> nat) option" where
  "start_prelude s = do {
     (ready, next) \<leftarrow> sq_dequeue (sd_ready s);
     h \<leftarrow> (case next of Some h \<Rightarrow> Some h | None \<Rightarrow> sd_idle s);
     s1 \<leftarrow> make_current (s\<lparr>sd_ready := ready\<rparr>) h;
     Some (s1, th_index h)
   }"

text \<open>The caller's frame is abandoned: nothing is saved, and the address space
  of the dispatched task is activated whatever was active before.\<close>

definition run_dispatched :: "'c scheduler \<Rightarrow> nat \<Rightarrow> switch option" where
  "run_dispatched s next_idx = do {
     next_as \<leftarrow> nth_opt (sd_as_handles s) next_idx;
     Some \<lparr>sw_save = None, sw_restore = next_idx, sw_activate = next_as\<rparr>
   }"

definition sched_start :: "'c scheduler \<Rightarrow> ('c scheduler \<times> switch) option" where
  "sched_start s = do {
     (s1, next_idx) \<leftarrow> start_prelude s;
     sw \<leftarrow> run_dispatched s1 next_idx;
     Some (s1, sw)
   }"

definition task_exit_current :: "'c scheduler \<Rightarrow> ('c scheduler \<times> switch) option" where
  "task_exit_current s = do {
     (s1, next_idx) \<leftarrow> start_prelude s;
     sw \<leftarrow> run_dispatched s1 next_idx;
     Some (s1, sw)
   }"

definition address_space_activation_target ::
    "address_space_handle option \<Rightarrow> address_space_handle option \<Rightarrow> address_space_handle option" where
  "address_space_activation_target current_as next_as =
     (case (current_as, next_as) of
        (Some c, Some n) \<Rightarrow> if c \<noteq> n then Some n else None
      | _ \<Rightarrow> None)"

text \<open>The switch from one slot to another; \<open>next\<close> has just become current.\<close>

definition switch_between :: "'c scheduler \<Rightarrow> nat \<Rightarrow> nat \<Rightarrow> switch option" where
  "switch_between s current_idx next_idx = do {
     current_as \<leftarrow> nth_opt (sd_as_handles s) current_idx;
     next_as \<leftarrow> nth_opt (sd_as_handles s) next_idx;
     Some \<lparr>sw_save = Some current_idx, sw_restore = next_idx,
           sw_activate = address_space_activation_target current_as next_as\<rparr>
   }"

text \<open>\<^term>\<open>Inr None\<close> is the early \<open>Ok(())\<close> without a switch.\<close>

definition yield_now :: "'c scheduler \<Rightarrow> ('c scheduler, sched_error, switch option) outcome" where
  "yield_now s =
     (case sd_current s of
        None \<Rightarrow> Some (s, Inl NoCurrentTask)
      | Some current_handle \<Rightarrow> do {
          let current_idx = th_index current_handle;
          states \<leftarrow> put_at (sd_task_states s) current_idx TaskReady;
          let s1 = s\<lparr>sd_task_states := states\<rparr>;
          s2 \<leftarrow> (if sd_idle s = Some current_handle then Some s1 else enqueue_ready s1 current_handle);
          (ready, next) \<leftarrow> sq_dequeue (sd_ready s2);
          let s3 = s2\<lparr>sd_ready := ready\<rparr>;
          let target = (case next of
                          Some h \<Rightarrow> if h \<noteq> current_handle then Some h else None
                        | None \<Rightarrow>
                            (case sd_idle s3 of
                               Some idle_h \<Rightarrow> if idle_h \<noteq> current_handle then Some idle_h else None
                             | None \<Rightarrow> None));
          case target of
            None \<Rightarrow> Some (s3, Inr None)
          | Some next_handle \<Rightarrow> do {
              s4 \<leftarrow> make_current s3 next_handle;
              sw \<leftarrow> switch_between s4 current_idx (th_index next_handle);
              Some (s4, Inr (Some sw))
            }
        })"

section \<open>The IPC bridge\<close>

definition ipc_send_and_yield ::
    "'c scheduler \<Rightarrow> endpoint_arena \<Rightarrow> ipc_queues \<Rightarrow> cap_table \<Rightarrow> cap_handle \<Rightarrow> message \<Rightarrow> cap_handle option \<Rightarrow>
       ('c scheduler \<times> ipc_queues \<times> cap_table, sched_error, send_outcome \<times> switch option) outcome" where
  "ipc_send_and_yield s arena q t ep_cap msg transfer =
     (case resolve_ep_cap t ep_cap of
        Inl e \<Rightarrow> Some ((s, q, t), Inl e)
      | Inr ep \<Rightarrow> do {
          ((q1, t1), r) \<leftarrow> ipc_send arena q ep_cap t msg transfer;
          case r of
            Inl e \<Rightarrow> Some ((s, q1, t1), Inl (SchedIpc e))
          | Inr outcome \<Rightarrow>
              (if outcome = Delivered then do {
                 s1 \<leftarrow> unblock_receiver_on s ep;
                 (s2, y) \<leftarrow> yield_now s1;
                 Some ((s2, q1, t1), case y of Inl e \<Rightarrow> Inl e | Inr sw \<Rightarrow> Inr (outcome, sw))
               } else Some ((s, q1, t1), Inr (outcome, None)))
        })"

text \<open>
  A receive either completes at once or ends in a switch; \<open>ipc_recv_resume\<close> is
  what runs when the task is switched back to.
\<close>

datatype recv_progress = RecvDone recv_outcome | RecvSwitch switch

definition ipc_recv_and_yield ::
    "'c scheduler \<Rightarrow> endpoint_arena \<Rightarrow> ipc_queues \<Rightarrow> cap_table \<Rightarrow> cap_handle \<Rightarrow>
       ('c scheduler \<times> ipc_queues \<times> cap_table, sched_error, recv_progress) outcome" where
  "ipc_recv_and_yield s arena q t ep_cap =
     (case sd_current s of
        None \<Rightarrow> Some ((s, q, t), Inl NoCurrentTask)
      | Some current_handle \<Rightarrow>
          (case resolve_ep_cap t ep_cap of
             Inl e \<Rightarrow> Some ((s, q, t), Inl e)
           | Inr ep \<Rightarrow> do {
               ((q1, t1), r) \<leftarrow> ipc_recv arena q ep_cap t;
               case r of
                 Inl e \<Rightarrow> Some ((s, q1, t1), Inl (SchedIpc e))
               | Inr (Received m c) \<Rightarrow> Some ((s, q1, t1), Inr (RecvDone (Received m c)))
               | Inr Pending \<Rightarrow> do {
                   let current_idx = th_index current_handle;
                   prior_state \<leftarrow> nth_opt (sd_task_states s) current_idx;
                   states \<leftarrow> put_at (sd_task_states s) current_idx (TaskBlocked ep);
                   let s1 = s\<lparr>sd_task_states := states, sd_current := None\<rparr>;
                   (ready, next) \<leftarrow> sq_dequeue (sd_ready s1);
                   let s2 = s1\<lparr>sd_ready := ready\<rparr>;
                   let target = (case next of
                                   Some h \<Rightarrow> Some h
                                 | None \<Rightarrow>
                                     (case sd_idle s2 of
                                        Some idle_h \<Rightarrow> if idle_h \<noteq> current_handle then Some idle_h else None
                                      | None \<Rightarrow> None));
                   case target of
                     Some next_handle \<Rightarrow> do {
                       s3 \<leftarrow> make_current s2 next_handle;
                       sw \<leftarrow> switch_between s3 current_idx (th_index next_handle);
                       Some ((s3, q1, t1), Inr (RecvSwitch sw))
                     }
                   | None \<Rightarrow> do {
                       restored \<leftarrow> put_at (sd_task_states s2) current_idx prior_state;
                       (q2, _) \<leftarrow> ipc_cancel_recv arena q1 ep_cap t1;
                       Some ((s2\<lparr>sd_task_states := restored, sd_current := Some current_handle\<rparr>, q2, t1),
                             Inl Deadlock)
                     }
                 }
             }))"

definition ipc_recv_resume ::
    "endpoint_arena \<Rightarrow> ipc_queues \<Rightarrow> cap_table \<Rightarrow> cap_handle \<Rightarrow>
       (ipc_queues \<times> cap_table, sched_error, recv_outcome) outcome" where
  "ipc_recv_resume arena q t ep_cap = do {
     ((q1, t1), r) \<leftarrow> ipc_recv arena q ep_cap t;
     Some ((q1, t1),
           case r of
             Inr Pending \<Rightarrow> Inl (SchedIpc PendingAfterResume)
           | Inr (Received m c) \<Rightarrow> Inr (Received m c)
           | Inl e \<Rightarrow> Inl (SchedIpc e))
   }"

end
