(* ===== verification/AddressSpace.thy ===== *)
theory AddressSpace
  imports Mmu CapTable
begin

text \<open>
  Address spaces as kernel objects (\<open>kernel/src/mm/address_space.rs\<close>): the arena
  they live in, and the capability-gated wrappers through which the kernel
  creates them and changes their mappings. Generic in the translation
  implementation, as the source is in \<open>M: Mmu\<close>. What the wrappers thread
  through by reference is one record: the frame provider, memory, the arena of
  address spaces and the log of requested TLB invalidations.
\<close>

section \<open>Objects and errors\<close>

definition ADDRESS_SPACE_ARENA_CAPACITY :: nat where
  "ADDRESS_SPACE_ARENA_CAPACITY = 8"

definition BOOTSTRAP_ADDRESS_SPACE_HANDLE :: address_space_handle where
  "BOOTSTRAP_ADDRESS_SPACE_HANDLE = AddressSpaceHandle first_slot"

record 'a address_space =
  as_inner :: 'a

type_synonym 'a address_space_arena = "'a address_space arena"

definition wrap_bootstrap :: "'a \<Rightarrow> 'a address_space" where
  "wrap_bootstrap inner = \<lparr>as_inner = inner\<rparr>"

definition from_mmu_address_space :: "'a \<Rightarrow> 'a address_space" where
  "from_mmu_address_space inner = \<lparr>as_inner = inner\<rparr>"

definition as_root_frame :: "('a, 'p) mmu \<Rightarrow> 'a address_space \<Rightarrow> phys_frame" where
  "as_root_frame mmu s = mmu_address_space_root mmu (as_inner s)"

datatype address_space_error =
    AsArenaFull | AsStaleHandle | AsOutOfFrames | AsCapError cap_error
  | MmuMapError mmu_error | MmuUnmapError mmu_error

definition create_address_space ::
    "'a address_space_arena \<Rightarrow> 'a address_space \<Rightarrow>
       'a address_space_arena \<times> (address_space_error + address_space_handle)" where
  "create_address_space arena s =
     (let (arena', r) = arena_allocate arena s in (arena', ok_or (map_option AddressSpaceHandle r) AsArenaFull))"

definition destroy_address_space ::
    "'a address_space_arena \<Rightarrow> address_space_handle \<Rightarrow>
       'a address_space_arena \<times> (address_space_error + 'a address_space)" where
  "destroy_address_space arena h = (let (arena', r) = arena_free arena (ash_slot h) in (arena', ok_or r AsStaleHandle))"

definition get_address_space :: "'a address_space_arena \<Rightarrow> address_space_handle \<Rightarrow> 'a address_space option" where
  "get_address_space arena h = arena_get arena (ash_slot h)"

definition get_address_space_mut ::
    "'a address_space_arena \<Rightarrow> address_space_handle \<Rightarrow> ('a address_space \<Rightarrow> 'a address_space) \<Rightarrow>
       'a address_space_arena option" where
  "get_address_space_mut arena h f = arena_get_mut arena (ash_slot h) f"

text \<open>The address space that becomes active, if any; a stale handle leaves the active one.\<close>

definition activate_address_space_handle :: "'a address_space_arena \<Rightarrow> address_space_handle \<Rightarrow> 'a option" where
  "activate_address_space_handle arena h = map_option as_inner (get_address_space arena h)"

section \<open>The wrappers\<close>

record ('a, 'p) vm =
  vm_frames :: 'p
  vm_memory :: memory
  vm_spaces :: "'a address_space_arena"
  vm_tlb :: tlb_log

definition resolve_address_space_cap :: "cap_table \<Rightarrow> cap_handle \<Rightarrow> address_space_error + address_space_handle" where
  "resolve_address_space_cap t h =
     (case cap_lookup t h of
        Inl e \<Rightarrow> Inl (AsCapError e)
      | Inr c \<Rightarrow>
          (case cap_object c of
             CapAddressSpace ash \<Rightarrow> Inr ash
           | _ \<Rightarrow> Inl (AsCapError WrongKind)))"

definition cap_create_address_space ::
    "('a, 'p) mmu \<Rightarrow> 'p frame_provider \<Rightarrow> cap_table \<Rightarrow> ('a, 'p) vm \<Rightarrow> cap_handle \<Rightarrow> cap_rights \<Rightarrow>
       (cap_table \<times> ('a, 'p) vm, address_space_error, cap_handle) outcome" where
  "cap_create_address_space mmu alloc t v parent new_rights =
     (case cap_lookup t parent of
        Inl e \<Rightarrow> Some ((t, v), Inl (AsCapError e))
      | Inr parent_cap \<Rightarrow>
          if cap_kind parent_cap \<noteq> KindAddressSpace then Some ((t, v), Inl (AsCapError WrongKind))
          else if \<not> rights_contains (cap_rights parent_cap) rights_DERIVE
          then Some ((t, v), Inl (AsCapError InsufficientRights))
          else if \<not> rights_contains (cap_rights parent_cap) new_rights
          then Some ((t, v), Inl (AsCapError WidenedRights))
          else
            (case depth_of t parent of
               Inl e \<Rightarrow> Some ((t, v), Inl (AsCapError e))
             | Inr parent_depth \<Rightarrow>
                 if saturating_add parent_depth 1 > MAX_DERIVATION_DEPTH
                 then Some ((t, v), Inl (AsCapError DerivationTooDeep))
                 else if arena_is_full (vm_spaces v) then Some ((t, v), Inl AsArenaFull)
                 else if cap_table_is_full t then Some ((t, v), Inl (AsCapError CapsExhausted))
                 else do {
                   ((p, m), root) \<leftarrow> alloc (vm_frames v) (vm_memory v);
                   let v1 = v\<lparr>vm_frames := p, vm_memory := m\<rparr>;
                   case root of
                     None \<Rightarrow> Some ((t, v1), Inl AsOutOfFrames)
                   | Some root \<Rightarrow>
                       (let inner = mmu_create_address_space mmu root;
                            (arena, r) = create_address_space (vm_spaces v1) (from_mmu_address_space inner);
                            v2 = v1\<lparr>vm_spaces := arena\<rparr>
                        in case r of
                             Inl e \<Rightarrow> Some ((t, v2), Inl e)
                           | Inr handle \<Rightarrow> do {
                               (t', c) \<leftarrow> cap_derive t parent new_rights (CapAddressSpace handle);
                               case c of
                                 Inr cap \<Rightarrow> Some ((t', v2), Inr cap)
                               | Inl e \<Rightarrow>
                                   Some ((t', v2\<lparr>vm_spaces := fst (destroy_address_space (vm_spaces v2) handle)\<rparr>),
                                         Inl (AsCapError e))
                             })
                 }))"

definition cap_map ::
    "('a, 'p) mmu \<Rightarrow> 'p frame_provider \<Rightarrow> cap_table \<Rightarrow> ('a, 'p) vm \<Rightarrow> cap_handle \<Rightarrow> nat \<Rightarrow> phys_frame \<Rightarrow> mapping_flags \<Rightarrow>
       (('a, 'p) vm, address_space_error, unit) outcome" where
  "cap_map mmu alloc t v h va pa flags =
     (case resolve_address_space_cap t h of
        Inl e \<Rightarrow> Some (v, Inl e)
      | Inr ash \<Rightarrow>
          (case get_address_space (vm_spaces v) ash of
             None \<Rightarrow> Some (v, Inl AsStaleHandle)
           | Some s \<Rightarrow> do {
               ((p, m, inner), r) \<leftarrow> mmu_map mmu alloc (vm_frames v) (vm_memory v) (as_inner s) va pa flags;
               arena \<leftarrow> get_address_space_mut (vm_spaces v) ash (\<lambda>s. s\<lparr>as_inner := inner\<rparr>);
               let v' = v\<lparr>vm_frames := p, vm_memory := m, vm_spaces := arena\<rparr>;
               case r of
                 Inl e \<Rightarrow> Some (v', Inl (MmuMapError e))
               | Inr token \<Rightarrow> Some (v'\<lparr>vm_tlb := mapper_flush_flush token (vm_tlb v')\<rparr>, Inr ())
             }))"

definition cap_unmap ::
    "('a, 'p) mmu \<Rightarrow> cap_table \<Rightarrow> ('a, 'p) vm \<Rightarrow> cap_handle \<Rightarrow> nat \<Rightarrow>
       (('a, 'p) vm, address_space_error, phys_frame) outcome" where
  "cap_unmap mmu t v h va =
     (case resolve_address_space_cap t h of
        Inl e \<Rightarrow> Some (v, Inl e)
      | Inr ash \<Rightarrow>
          (case get_address_space (vm_spaces v) ash of
             None \<Rightarrow> Some (v, Inl AsStaleHandle)
           | Some s \<Rightarrow> do {
               ((m, inner), r) \<leftarrow> mmu_unmap mmu (vm_memory v) (as_inner s) va;
               arena \<leftarrow> get_address_space_mut (vm_spaces v) ash (\<lambda>s. s\<lparr>as_inner := inner\<rparr>);
               let v' = v\<lparr>vm_memory := m, vm_spaces := arena\<rparr>;
               case r of
                 Inl e \<Rightarrow> Some (v', Inl (MmuUnmapError e))
               | Inr (token, pa) \<Rightarrow> Some (v'\<lparr>vm_tlb := mapper_flush_flush token (vm_tlb v')\<rparr>, Inr pa)
             }))"

end
