(* ===== verification/SyscallEntry.thy ===== *)
theory SyscallEntry
  imports Dispatch Sched AddressSpace
begin

text \<open>
  The entry point of a system call (\<open>bsp-qemu-virt/src/syscall.rs\<close>), where the
  components meet: it reads the trapped registers, assembles the dispatch context
  from the running task's bindings or falls back to an empty one, dispatches, and
  applies the effect to the registers or the scheduler. The statics of the board
  are one record. A capability table is reached through the pointer the scheduler
  holds, so the tables are a map from addresses.
\<close>

section \<open>The trap frame\<close>

record syscall_trap_frame =
  x0_x1 :: "64 word \<times> 64 word"
  x2_x3 :: "64 word \<times> 64 word"
  x4_x5 :: "64 word \<times> 64 word"
  x6_x7 :: "64 word \<times> 64 word"
  x8_x9 :: "64 word \<times> 64 word"
  x10_x11 :: "64 word \<times> 64 word"
  x12_x13 :: "64 word \<times> 64 word"
  x14_x15 :: "64 word \<times> 64 word"
  x16_x17 :: "64 word \<times> 64 word"
  x18_x19 :: "64 word \<times> 64 word"
  x20_x21 :: "64 word \<times> 64 word"
  x22_x23 :: "64 word \<times> 64 word"
  x24_x25 :: "64 word \<times> 64 word"
  x26_x27 :: "64 word \<times> 64 word"
  x28_x29 :: "64 word \<times> 64 word"
  x30_sp_el0 :: "64 word \<times> 64 word"
  elr_spsr :: "64 word \<times> 64 word"

definition frame_args :: "syscall_trap_frame \<Rightarrow> syscall_args" where
  "frame_args f =
     \<lparr>sa_number = fst (x8_x9 f),
      sa_args = [fst (x0_x1 f), snd (x0_x1 f), fst (x2_x3 f), snd (x2_x3 f), fst (x4_x5 f), snd (x4_x5 f)]\<rparr>"

definition frame_resume :: "syscall_return \<Rightarrow> syscall_trap_frame \<Rightarrow> syscall_trap_frame" where
  "frame_resume r f =
     f\<lparr>x0_x1 := (sr_status r, sr_payload r ! 0),
       x2_x3 := (sr_payload r ! 1, sr_payload r ! 2),
       x4_x5 := (sr_payload r ! 3, sr_payload r ! 4),
       x6_x7 := (sr_payload r ! 5, sr_payload r ! 6)\<rparr>"

definition frame_yielded :: "syscall_trap_frame \<Rightarrow> syscall_trap_frame" where
  "frame_yielded f = f\<lparr>x0_x1 := (OK_STATUS, snd (x0_x1 f))\<rparr>"

section \<open>The statics of the board\<close>

record ('c, 'a) board =
  bd_sched :: "'c scheduler"
  bd_ep_arena :: endpoint_arena
  bd_queues :: ipc_queues
  bd_tables :: "nat \<rightharpoonup> cap_table"
  bd_failclosed_table :: cap_table
  bd_as_arena :: "'a address_space_arena"
  bd_bootstrap_as :: 'a
  bd_active_as :: 'a
  bd_memory :: memory
  bd_console :: "8 word list"

text \<open>The callback the scheduler activates an address space with, at a switch.\<close>

definition board_activate :: "address_space_handle option \<Rightarrow> ('c, 'a) board \<Rightarrow> ('c, 'a) board" where
  "board_activate target b =
     (case target of
        None \<Rightarrow> b
      | Some h \<Rightarrow>
          (case activate_address_space_handle (bd_as_arena b) h of
             None \<Rightarrow> b
           | Some inner \<Rightarrow> b\<lparr>bd_active_as := inner\<rparr>))"

text \<open>
  How a call ends: back in the trapped task, in another task with the frame kept
  for the return, or in another task for good.
\<close>

datatype entry_exit =
    ReturnToTask syscall_trap_frame
  | SwitchedAway switch syscall_trap_frame
  | TaskGone switch

section \<open>The context of a call\<close>

definition board_context ::
    "('a \<Rightarrow> translator) \<Rightarrow> ('c, 'a) board \<Rightarrow> cap_table \<Rightarrow> user_access_window \<Rightarrow> 'a \<Rightarrow> bool \<Rightarrow> syscall_context" where
  "board_context translate b table window task_as running =
     \<lparr>sc_ep_arena = bd_ep_arena b, sc_queues = bd_queues b, sc_caller_table = table,
      sc_console = bd_console b, sc_user_window = window, sc_translate = translate task_as,
      sc_memory = bd_memory b, sc_has_current_task = running\<rparr>"

text \<open>What the call changed through its references.\<close>

definition board_update :: "syscall_context \<Rightarrow> ('c, 'a) board \<Rightarrow> ('c, 'a) board" where
  "board_update ctx b =
     b\<lparr>bd_ep_arena := sc_ep_arena ctx, bd_queues := sc_queues ctx, bd_console := sc_console ctx,
       bd_memory := sc_memory ctx\<rparr>"

text \<open>\<open>b"tyrne: userspace task exited\n"\<close>\<close>

definition exit_banner :: "8 word list" where
  "exit_banner =
     [116, 121, 114, 110, 101, 58, 32, 117, 115, 101, 114, 115, 112, 97, 99, 101, 32,
      116, 97, 115, 107, 32, 101, 120, 105, 116, 101, 100, 10]"

definition apply_effect ::
    "('c, 'a) board \<Rightarrow> syscall_trap_frame \<Rightarrow> syscall_effect \<Rightarrow> (('c, 'a) board \<times> entry_exit) option" where
  "apply_effect b frame effect =
     (case effect of
        Resume r \<Rightarrow> Some (b, ReturnToTask (frame_resume r frame))
      | Reschedule \<Rightarrow> do {
          (s, r) \<leftarrow> yield_now (bd_sched b);
          let b1 = b\<lparr>bd_sched := s\<rparr>;
          (case r of
             Inr (Some sw) \<Rightarrow> Some (board_activate (sw_activate sw) b1, SwitchedAway sw (frame_yielded frame))
           | _ \<Rightarrow> Some (b1, ReturnToTask (frame_yielded frame)))
        }
      | Terminate _ \<Rightarrow> do {
          let b1 = b\<lparr>bd_console := bd_console b @ exit_banner\<rparr>;
          (s, sw) \<leftarrow> task_exit_current (bd_sched b1);
          Some (board_activate (sw_activate sw) (b1\<lparr>bd_sched := s\<rparr>), TaskGone sw)
        })"

definition syscall_entry ::
    "bool \<Rightarrow> ('a \<Rightarrow> translator) \<Rightarrow> ('c, 'a) board \<Rightarrow> syscall_trap_frame \<Rightarrow> (('c, 'a) board \<times> entry_exit) option" where
  "syscall_entry debug translate b frame = do {
     let args = frame_args frame;
     current_table \<leftarrow> current_user_table (bd_sched b);
     current_as \<leftarrow> current_address_space_handle (bd_sched b);
     current_window \<leftarrow> current_user_window (bd_sched b);
     let resolved_task_as = Option.bind current_as (get_address_space (bd_as_arena b));
     (case (current_table, current_window, resolved_task_as) of
        (Some table_ptr, Some window, Some asp) \<Rightarrow> do {
          table \<leftarrow> bd_tables b table_ptr;
          (ctx, effect) \<leftarrow> dispatch debug (board_context translate b table window (as_inner asp) True) args;
          apply_effect ((board_update ctx b)\<lparr>bd_tables := (bd_tables b)(table_ptr \<mapsto> sc_caller_table ctx)\<rparr>)
            frame effect
        }
      | _ \<Rightarrow> do {
          (ctx, effect) \<leftarrow>
            dispatch debug (board_context translate b (bd_failclosed_table b) user_window_empty (bd_bootstrap_as b) False)
              args;
          apply_effect ((board_update ctx b)\<lparr>bd_failclosed_table := sc_caller_table ctx\<rparr>) frame effect
        })
   }"

end
