(* ===== verification/CapTable_Claims.thy ===== *)
theory CapTable_Claims
  imports CapRevoke
begin

text \<open>
  The properties of the capability table, each with a concrete instance: a table
  in which a task holds a full-rights endpoint capability with a child and a
  grandchild, built by the operations themselves.
\<close>

definition demo_handle :: "nat \<Rightarrow> cap_handle" where
  "demo_handle i = \<lparr>ch_index = i, ch_generation = 0\<rparr>"

definition demo_object :: cap_object where
  "demo_object = CapEndpoint (EndpointHandle first_slot)"

definition demo_ops :: "cap_op list" where
  "demo_ops =
     [Op_insert_root \<lparr>cap_rights = 0xFF, cap_object = demo_object\<rparr>,
      Op_derive (demo_handle 0) 0xFF demo_object,
      Op_derive (demo_handle 1) 0x18 demo_object]"

definition demo_table :: cap_table where
  "demo_table = (case cap_run cap_table_new demo_ops of Some t \<Rightarrow> t | None \<Rightarrow> cap_table_new)"

lemma demo_run: "cap_run cap_table_new demo_ops = Some demo_table"
  using cap_run_wf [OF cap_table_new_wf, of demo_ops] by (auto simp: demo_table_def)

lemma demo_table_wf: "cap_wf demo_table"
  using cap_run_wf [OF cap_table_new_wf, of demo_ops] by (auto simp: demo_table_def)

lemmas cap_eval =
  demo_table_def demo_ops_def demo_handle_def demo_object_def first_slot_def cap_table_new_def
  CAP_TABLE_CAPACITY_def MAX_DERIVATION_DEPTH_def insert_root_def cap_derive_def pop_free_def
  link_child_def set_entry_def entry_of_def resolve_handle_def nth_opt_def nth_update_any
  saturating_add_def usize_max_def rights_contains_def rights_consts
  node_at_def ent_def cgen_def forest_def node_of_def cap_table_is_full_def

lemma demo_nodes:
  "node_at demo_table (demo_handle 0) =
     Some \<lparr>cn_cap = \<lparr>cap_rights = 0xFF, cap_object = demo_object\<rparr>, cn_parent = None, cn_depth = 0\<rparr>"
  "node_at demo_table (demo_handle 1) =
     Some \<lparr>cn_cap = \<lparr>cap_rights = 0xFF, cap_object = demo_object\<rparr>, cn_parent = Some 0, cn_depth = 1\<rparr>"
  "node_at demo_table (demo_handle 2) =
     Some \<lparr>cn_cap = \<lparr>cap_rights = 0x18, cap_object = demo_object\<rparr>, cn_parent = Some 1, cn_depth = 2\<rparr>"
  "\<not> cap_table_is_full demo_table"
  by (simp_all add: cap_eval Let_def)

lemma demo_children:
  "ch_index (demo_handle i) = i"
  "has_children demo_table (demo_handle 1)"
  "\<not> has_children demo_table (demo_handle 2)"
proof -
  show "ch_index (demo_handle i) = i" by (simp add: demo_handle_def)
  have "entry_of demo_table (demo_handle 1) =
      Inr \<lparr>se_capability = \<lparr>cap_rights = 0xFF, cap_object = demo_object\<rparr>, se_parent = Some 0,
           se_first_child = Some 2, se_next_sibling = None, se_depth = 1\<rparr>"
    by (simp add: cap_eval Let_def)
  then show "has_children demo_table (demo_handle 1)"
    using has_children_iff [OF demo_table_wf] by fastforce
  have "entry_of demo_table (demo_handle 2) =
      Inr \<lparr>se_capability = \<lparr>cap_rights = 0x18, cap_object = demo_object\<rparr>, se_parent = Some 1,
           se_first_child = None, se_next_sibling = None, se_depth = 2\<rparr>"
    by (simp add: cap_eval Let_def)
  then show "\<not> has_children demo_table (demo_handle 2)"
    using has_children_iff [OF demo_table_wf] by fastforce
qed

lemma demo_descendants:
  "ch_index (demo_handle 1) \<in> descendants (forest (ent demo_table)) (ch_index (demo_handle 0))"
  "ch_index (demo_handle 2) \<in> descendants (forest (ent demo_table)) (ch_index (demo_handle 0))"
proof -
  have "forest (ent demo_table) 1 =
      Some \<lparr>cn_cap = \<lparr>cap_rights = 0xFF, cap_object = demo_object\<rparr>, cn_parent = Some 0, cn_depth = 1\<rparr>"
    "forest (ent demo_table) 2 =
      Some \<lparr>cn_cap = \<lparr>cap_rights = 0x18, cap_object = demo_object\<rparr>, cn_parent = Some 1, cn_depth = 2\<rparr>"
    using demo_nodes(2,3) by (auto simp: node_at_def demo_handle_def split: if_splits)
  then have r: "(1, 0) \<in> child_rel (forest (ent demo_table))" "(2, 1) \<in> child_rel (forest (ent demo_table))"
    by (auto simp: child_rel_def)
  then show "ch_index (demo_handle 1) \<in> descendants (forest (ent demo_table)) (ch_index (demo_handle 0))"
    by (auto simp: descendants_def demo_handle_def)
  show "ch_index (demo_handle 2) \<in> descendants (forest (ent demo_table)) (ch_index (demo_handle 0))"
    using r by (auto simp: descendants_def demo_handle_def intro: trancl_into_trancl2)
qed

text \<open>
  Copying a capability. On a well-formed table \<open>cap_copy\<close> never panics. It
  refuses, in this order, a stale handle, a source without \<open>DUPLICATE\<close>, rights the
  source does not have, and a full table, leaving the table as it was. Otherwise
  the table stays well formed and its derivation forest gains exactly one node:
  the same object with the requested rights, at the source's place in the tree
  (the same parent and depth), under a handle that did not resolve before.
\<close>

theorem cap_copy_refines:
  assumes wf: "cap_wf t"
  shows "case copy_verdict (node_at t src) r (cap_table_is_full t) of
      Some e \<Rightarrow> cap_copy t src r = Some (t, Inl e)
    | None \<Rightarrow> \<exists>n t' h. node_at t src = Some n \<and> cap_copy t src r = Some (t', Inr h) \<and>
        adds_node t t' h \<lparr>cn_cap = \<lparr>cap_rights = r, cap_object = cap_object (cn_cap n)\<rparr>,
                          cn_parent = cn_parent n, cn_depth = cn_depth n\<rparr>"
  using assms by (rule cap_copy_spec)

theorem cap_copy_refines_witness:
  "\<exists>t' h. cap_copy demo_table (demo_handle 1) 0x30 = Some (t', Inr h) \<and>
     adds_node demo_table t' h
       \<lparr>cn_cap = \<lparr>cap_rights = 0x30, cap_object = demo_object\<rparr>, cn_parent = Some 0, cn_depth = 1\<rparr>"
  using cap_copy_refines [OF demo_table_wf, of "demo_handle 1" "0x30"]
  by (simp add: demo_nodes copy_verdict_def rights_contains_def rights_consts del: One_nat_def)

text \<open>
  Deriving a child capability. On a well-formed table \<open>cap_derive\<close> never
  panics. It refuses, in this order, a stale handle, a source without \<open>DERIVE\<close>,
  rights the source does not have, a source at the depth limit, and a full
  table, leaving the table as it was. Otherwise the table stays well formed and
  its derivation forest gains exactly one node, a child of the source one level
  deeper that holds the requested rights and object, under a fresh handle.
\<close>

theorem cap_derive_refines:
  assumes wf: "cap_wf t"
  shows "case derive_verdict (node_at t src) r (cap_table_is_full t) of
      Some e \<Rightarrow> cap_derive t src r obj = Some (t, Inl e)
    | None \<Rightarrow> \<exists>n t' h. node_at t src = Some n \<and> cap_derive t src r obj = Some (t', Inr h) \<and>
        adds_node t t' h \<lparr>cn_cap = \<lparr>cap_rights = r, cap_object = obj\<rparr>,
                          cn_parent = Some (ch_index src), cn_depth = Suc (cn_depth n)\<rparr>"
  using assms by (rule cap_derive_spec)

theorem cap_derive_refines_witness:
  "\<exists>t' h. cap_derive demo_table (demo_handle 1) 0x10 demo_object = Some (t', Inr h) \<and>
     adds_node demo_table t' h
       \<lparr>cn_cap = \<lparr>cap_rights = 0x10, cap_object = demo_object\<rparr>, cn_parent = Some 1, cn_depth = 2\<rparr>"
  using cap_derive_refines [OF demo_table_wf, of "demo_handle 1" "0x10" demo_object]
  by (simp add: demo_nodes derive_verdict_def rights_contains_def rights_consts
      MAX_DERIVATION_DEPTH_def demo_children(1) Suc_1 del: One_nat_def)

text \<open>
  Dropping a capability. On a well-formed table \<open>cap_drop\<close> returns (its walk
  along the sibling list always ends) and never panics: a stale handle and a
  capability with descendants are refused with the table unchanged; otherwise
  exactly that node leaves the derivation forest, its slot's generation is
  bumped, and the table stays well formed.
\<close>

theorem cap_drop_refines:
  assumes wf: "cap_wf t"
  shows "if node_at t h = None then cap_drop t h = Some (t, Inl InvalidHandle)
     else if has_children t h then cap_drop t h = Some (t, Inl HasChildren)
     else \<exists>t'. cap_drop t h = Some (t', Inr ()) \<and> removes_nodes t t' {ch_index h}"
  using assms by (rule cap_drop_spec)

theorem cap_drop_refines_witness:
  "cap_drop demo_table (demo_handle 1) = Some (demo_table, Inl HasChildren) \<and>
   (\<exists>t'. cap_drop demo_table (demo_handle 2) = Some (t', Inr ()) \<and> removes_nodes demo_table t' {2})"
  using cap_drop_refines [OF demo_table_wf, of "demo_handle 1"]
    cap_drop_refines [OF demo_table_wf, of "demo_handle 2"]
  by (simp add: demo_nodes demo_children del: One_nat_def)

text \<open>
  Taking a capability out of a table, the step an IPC transfer starts with.
  It refuses as \<open>cap_drop\<close> does; otherwise it returns the very capability the
  handle named and removes exactly that node, so the capability is in the
  caller's hands and no longer in the table.
\<close>

theorem cap_take_refines:
  assumes wf: "cap_wf t"
  shows "case node_at t h of
      None \<Rightarrow> cap_take t h = Some (t, Inl InvalidHandle)
    | Some n \<Rightarrow>
        if has_children t h then cap_take t h = Some (t, Inl HasChildren)
        else \<exists>t'. cap_take t h = Some (t', Inr (cn_cap n)) \<and> removes_nodes t t' {ch_index h}"
  using assms by (rule cap_take_spec)

theorem cap_take_refines_witness:
  "\<exists>t'. cap_take demo_table (demo_handle 2) =
       Some (t', Inr \<lparr>cap_rights = 0x18, cap_object = demo_object\<rparr>) \<and> removes_nodes demo_table t' {2}"
  using cap_take_refines [OF demo_table_wf, of "demo_handle 2"]
  by (simp add: demo_nodes demo_children del: One_nat_def)

text \<open>
  C2: revocation is exact. On a well-formed table \<open>cap_revoke\<close> returns and never
  panics. A stale handle and a capability without \<open>REVOKE\<close> are refused with the
  table unchanged. Otherwise the derivation forest loses all descendants of the
  source, at any depth, and nothing else: the source itself, its ancestors and
  every other subtree stay, with the same handles; the slots of the revoked
  capabilities get a new generation, so that their handles are stale.
\<close>

theorem cap_revoke_refines:
  assumes wf: "cap_wf t"
  shows "case node_at t src of
      None \<Rightarrow> cap_revoke t src = Some (t, Inl InvalidHandle)
    | Some n \<Rightarrow>
        if \<not> rights_contains (cap_rights (cn_cap n)) rights_REVOKE
        then cap_revoke t src = Some (t, Inl InsufficientRights)
        else \<exists>t'. cap_revoke t src = Some (t', Inr ()) \<and>
             removes_nodes t t' (descendants (forest (ent t)) (ch_index src)) \<and>
             node_at t' src = Some n"
  using assms by (rule cap_revoke_spec)

theorem cap_revoke_refines_witness:
  "\<exists>t'. cap_revoke demo_table (demo_handle 0) = Some (t', Inr ()) \<and>
     node_at t' (demo_handle 0) = node_at demo_table (demo_handle 0) \<and>
     node_at t' (demo_handle 1) = None \<and> node_at t' (demo_handle 2) = None"
  using cap_revoke_refines [OF demo_table_wf, of "demo_handle 0"] demo_descendants
  by (auto simp: demo_nodes rights_contains_def rights_consts removes_node_at simp del: One_nat_def)

text \<open>
  C1: every history is safe. Whatever sequence of inserts, copies, derivations,
  revocations, drops and takes is run from the empty table, with whatever
  handles and rights, no step panics or fails to return, and the table ends well
  formed: free list and sibling lists intact, depths at most 16, and no child
  with a right its parent lacks.
\<close>

theorem cap_history_safe: "\<exists>t. cap_run cap_table_new ws = Some t \<and> cap_wf t"
  using cap_table_new_wf by (rule cap_run_wf)

text \<open>
  C3: authority is never amplified. In every table reached from the empty one, a
  capability derived, in any number of steps, from another holds no right the
  other lacks.
\<close>

theorem cap_authority_confined:
  assumes "cap_run cap_table_new ws = Some t"
    and "node_at t h = Some n" "node_at t k = Some m"
    and "ch_index k \<in> descendants (forest (ent t)) (ch_index h)"
  shows "rights_contains (cap_rights (cn_cap n)) (cap_rights (cn_cap m)) \<and> cn_depth n < cn_depth m"
proof -
  have "cap_wf t" using cap_run_wf [OF cap_table_new_wf, of ws] assms(1) by simp
  then have "forest_ok (forest (ent t))" by (simp add: cap_wf_def)
  moreover have "forest (ent t) (ch_index h) = Some n" "forest (ent t) (ch_index k) = Some m"
    using assms(2,3) by (auto simp: node_at_def split: if_splits)
  ultimately show ?thesis using assms(4) descendants_narrow descendants_deeper by metis
qed

theorem cap_authority_confined_witness:
  "\<exists>n m. cap_run cap_table_new demo_ops = Some demo_table \<and>
     node_at demo_table (demo_handle 0) = Some n \<and> node_at demo_table (demo_handle 2) = Some m \<and>
     cn_parent m = Some 1 \<and> cap_rights (cn_cap m) = 0x18 \<and>
     rights_contains (cap_rights (cn_cap n)) (cap_rights (cn_cap m)) \<and> cn_depth n < cn_depth m"
  using cap_authority_confined [OF demo_run demo_nodes(1,3) demo_descendants(2)] demo_run demo_nodes(1,3) by auto

text \<open>
  C20: a revoked handle stays dead. After a successful revocation no handle to a
  descendant of the source resolves, and none resolves again after any further
  sequence of fewer than \<open>2^32 - 1\<close> table operations.
\<close>

theorem revoked_never_resolves:
  assumes "cap_wf t" "cap_revoke t src = Some (t', Inr ())"
    and "node_at t h \<noteq> None" "ch_index h \<in> descendants (forest (ent t)) (ch_index src)"
    and "cap_run t' ws = Some t''" "length ws < 2 ^ 32 - 1"
  shows "cap_lookup t'' h = Inl InvalidHandle"
proof -
  have "removes_nodes t t' (descendants (forest (ent t)) (ch_index src))"
    using cap_revoke_spec [OF assms(1), of src] assms(2) by (auto split: option.splits if_splits)
  then have "node_at t'' h = None" using removed_never_resolves assms(3-6) by blast
  then show ?thesis by (simp add: lookup_node)
qed

theorem revoked_never_resolves_witness:
  "\<exists>t' t''. cap_revoke demo_table (demo_handle 0) = Some (t', Inr ()) \<and>
     cap_run t' demo_ops = Some t'' \<and> cap_lookup t'' (demo_handle 2) = Inl InvalidHandle"
proof -
  obtain t' where t': "cap_revoke demo_table (demo_handle 0) = Some (t', Inr ())" "cap_wf t'"
    using cap_revoke_spec [OF demo_table_wf, of "demo_handle 0"]
    by (auto simp: demo_nodes rights_contains_def rights_consts removes_nodes_def)
  then obtain t'' where "cap_run t' demo_ops = Some t''" using cap_run_wf by blast
  then show ?thesis
    using revoked_never_resolves [OF demo_table_wf t'(1), of "demo_handle 2" demo_ops t'']
      demo_descendants(2) demo_nodes(3) t'(1) by (auto simp: demo_ops_def)
qed

end
