(* ===== verification/Ipc_Claims.thy ===== *)
theory Ipc_Claims
  imports Ipc_Props CapTable_Claims
begin

text \<open>
  The properties of IPC: what each operation does on every branch, the end-to-end
  transfer of a capability between two tables, and two laws of whole systems of
  tasks that send, receive and cancel in any order: no capability is lost or
  duplicated, and an endpoint delivers the accepted messages in order, each once.
\<close>

section \<open>Counting capabilities\<close>

definition node_caps :: "cap_forest \<Rightarrow> nat \<Rightarrow> capability multiset" where
  "node_caps F i = (case F i of None \<Rightarrow> {#} | Some n \<Rightarrow> {#cn_cap n#})"

definition table_caps :: "cap_table \<Rightarrow> capability multiset" where
  "table_caps t = (\<Sum>i < CAP_TABLE_CAPACITY. node_caps (forest (ent t)) i)"

definition state_caps :: "endpoint_state \<Rightarrow> capability multiset" where
  "state_caps st = (case parked st of Some (_, Some c) \<Rightarrow> {#c#} | _ \<Rightarrow> {#})"

definition queue_caps :: "ipc_queues \<Rightarrow> capability multiset" where
  "queue_caps q = (\<Sum>i < ENDPOINT_ARENA_CAPACITY. state_caps (iq_states q ! i))"

lemma sum_update:
  fixes f :: "nat \<Rightarrow> 'a multiset"
  assumes "i < n" "\<And>j. j < n \<Longrightarrow> j \<noteq> i \<Longrightarrow> g j = f j"
  shows "(\<Sum>j<n. g j) + f i = (\<Sum>j<n. f j) + g i"
proof -
  have "(\<Sum>j<n. f j) = f i + (\<Sum>j\<in>{..<n} - {i}. f j)" "(\<Sum>j<n. g j) = g i + (\<Sum>j\<in>{..<n} - {i}. g j)"
    using assms(1) by (simp_all add: sum.remove)
  moreover have "(\<Sum>j\<in>{..<n} - {i}. g j) = (\<Sum>j\<in>{..<n} - {i}. f j)"
    using assms(2) by (intro sum.cong) auto
  ultimately show ?thesis by simp
qed

lemma adds_node_caps:
  assumes "adds_node t t' h n"
  shows "table_caps t' = add_mset (cn_cap n) (table_caps t)"
proof -
  have "node_caps (forest (ent t)) (ch_index h) = {#}" "node_caps (forest (ent t')) (ch_index h) = {#cn_cap n#}"
    using assms by (auto simp: adds_node_def node_caps_def forest_def)
  moreover have "node_caps (forest (ent t')) j = node_caps (forest (ent t)) j" if "j \<noteq> ch_index h" for j
    using assms that by (simp add: adds_node_def node_caps_def)
  ultimately show ?thesis
    using sum_update [of "ch_index h" CAP_TABLE_CAPACITY "node_caps (forest (ent t'))"
        "node_caps (forest (ent t))"] assms
    by (simp add: table_caps_def adds_node_def)
qed

lemma removes_leaf_caps:
  assumes "cap_wf t" "removes_nodes t t' {ch_index h}" "node_at t h = Some n"
  shows "table_caps t = add_mset (cn_cap n) (table_caps t')"
proof -
  have F: "forest (ent t) (ch_index h) = Some n" using assms(3) by (auto simp: node_at_def split: if_splits)
  then obtain e where "ent t (ch_index h) = Some e" by (auto simp: forest_def)
  then have "ch_index h < CAP_TABLE_CAPACITY" using assms(1) wf_ent_bound by blast
  moreover have "node_caps (forest (ent t)) (ch_index h) = {#cn_cap n#}"
      "node_caps (forest (ent t')) (ch_index h) = {#}"
    using F assms(2) by (auto simp: removes_nodes_def node_caps_def)
  moreover have "node_caps (forest (ent t')) j = node_caps (forest (ent t)) j" if "j \<noteq> ch_index h" for j
    using assms(2) that by (simp add: removes_nodes_def node_caps_def)
  ultimately show ?thesis
    using sum_update [of "ch_index h" CAP_TABLE_CAPACITY "node_caps (forest (ent t'))"
        "node_caps (forest (ent t))"]
    by (simp add: table_caps_def)
qed

lemma state_caps_none: "\<not> pending_has_cap st \<Longrightarrow> state_caps st = {#}"
  by (cases st) (auto simp: pending_has_cap_def state_caps_def parked_def)

lemma state_caps_ep:
  assumes "queues_ok arena q" "ep_live arena h"
  shows "state_caps (iq_states q ! ep_index h) = state_caps (ep_state q h)"
proof (cases "iq_generations q ! ep_index h = si_generation (eh_slot h)")
  case False
  then have "\<not> pending_has_cap (iq_states q ! ep_index h)" using assms by (simp add: queues_ok_def)
  then show ?thesis using False by (simp add: ep_state_def state_caps_none pending_has_cap_def)
qed (simp add: ep_state_def)

lemma sync_caps:
  assumes "queues_ok arena q" "ep_live arena h"
  shows "queue_caps (sync q h) = queue_caps q"
proof -
  have "state_caps (iq_states (sync q h) ! i) = state_caps (iq_states q ! i)" for i
  proof (cases "i = ep_index h")
    case True
    then show ?thesis using state_caps_ep [OF assms] sync_state(1) [OF assms] by simp
  next
    case False
    then show ?thesis by (simp add: sync_def)
  qed
  then show ?thesis by (simp add: queue_caps_def)
qed

lemma set_ep_caps:
  assumes "queues_ok arena q" "ep_live arena h"
  shows "queue_caps (set_ep q h st) + state_caps (ep_state q h) = queue_caps q + state_caps st"
proof -
  let ?f = "\<lambda>i. state_caps (iq_states (sync q h) ! i)" and ?g = "\<lambda>i. state_caps (iq_states (set_ep q h st) ! i)"
  have b: "ep_index h < ENDPOINT_ARENA_CAPACITY" using assms by (rule ep_live_bound)
  have "?g j = ?f j" if "j \<noteq> ep_index h" for j
    using that by (simp add: set_ep_def put_state_def)
  moreover have "?g (ep_index h) = state_caps st" "?f (ep_index h) = state_caps (ep_state q h)"
    using b sync_state [OF assms] by (simp_all add: set_ep_def put_state_def)
  ultimately show ?thesis
    using sum_update [OF b, of ?g ?f] sync_caps [OF assms] by (simp add: queue_caps_def)
qed

lemma same_states_caps:
  assumes "queues_ok arena q" "same_states arena q q'"
  shows "queue_caps q' = queue_caps q"
proof -
  have "state_caps (iq_states q' ! i) = state_caps (iq_states q ! i)" for i
  proof (cases "\<exists>k. ep_live arena k \<and> ep_index k = i")
    case True
    then show ?thesis
      using state_caps_ep [OF assms(1)] state_caps_ep [of arena q'] assms(2)
      by (auto simp: same_states_def)
  next
    case False
    then show ?thesis using assms(2) by (auto simp: same_states_def)
  qed
  then show ?thesis by (simp add: queue_caps_def)
qed

lemma same_states_ok: "same_states arena q q' \<Longrightarrow> queues_ok arena q'"
  by (simp add: same_states_def)

section \<open>Each operation conserves capabilities\<close>

lemma cap_left_caps:
  assumes "cap_wf t" "cap_left t t' transfer cap"
  shows "cap_wf t'" "table_caps t' + (case cap of None \<Rightarrow> {#} | Some c \<Rightarrow> {#c#}) = table_caps t"
proof -
  show "cap_wf t'"
    using assms by (auto simp: cap_left_def removes_nodes_def split: option.splits)
  show "table_caps t' + (case cap of None \<Rightarrow> {#} | Some c \<Rightarrow> {#c#}) = table_caps t"
    using assms(2) removes_leaf_caps [OF assms(1), of t']
    by (auto simp: cap_left_def split: option.splits)
qed

lemma cap_arrived_caps:
  assumes "cap_wf t" "cap_arrived t t' cap x"
  shows "cap_wf t'" "table_caps t' = table_caps t + (case cap of None \<Rightarrow> {#} | Some c \<Rightarrow> {#c#})"
proof -
  show "cap_wf t'"
    using assms by (auto simp: cap_arrived_def adds_node_def split: option.splits)
  show "table_caps t' = table_caps t + (case cap of None \<Rightarrow> {#} | Some c \<Rightarrow> {#c#})"
    using assms(2) adds_node_caps by (fastforce simp: cap_arrived_def split: option.splits)
qed

lemma state_caps_simps [simp]:
  "state_caps (SendPending m cap) = (case cap of None \<Rightarrow> {#} | Some c \<Rightarrow> {#c#})"
  "state_caps (RecvComplete m cap) = (case cap of None \<Rightarrow> {#} | Some c \<Rightarrow> {#c#})"
  "state_caps Idle = {#}" "state_caps RecvWaiting = {#}"
  by (simp_all add: state_caps_def parked_def)

lemma parked_caps:
  "state_caps st = (case parked st of None \<Rightarrow> {#} | Some (m, None) \<Rightarrow> {#} | Some (m, Some c) \<Rightarrow> {#c#})"
  by (auto simp: state_caps_def split: option.splits)

lemma send_verdict_Inr:
  "send_verdict arena q ep_cap t transfer = Inr h \<Longrightarrow>
     validate_ep_cap t ep_cap rights_SEND = Inr h \<and> ep_live arena h \<and> \<not> queue_occupied (ep_state q h)"
  by (auto simp: send_verdict_def split: sum.splits if_splits)

lemma recv_verdict_Inr:
  "recv_verdict arena q ep_cap t = Inr h \<Longrightarrow>
     validate_ep_cap t ep_cap rights_RECV = Inr h \<and> ep_live arena h \<and> ep_state q h \<noteq> RecvWaiting"
  by (auto simp: recv_verdict_def split: sum.splits if_splits)

lemma unoccupied_caps: "\<not> queue_occupied st \<Longrightarrow> state_caps st = {#} \<and> parked st = None"
  by (cases st) (auto simp: queue_occupied_def parked_def)

lemma ipc_send_ok:
  assumes "cap_wf t" "queues_ok arena q" "send_verdict arena q ep_cap t transfer = Inr h"
  obtains t' cap st out where "cap_left t t' transfer cap"
    "send_state (ep_state q h) msg cap = (st, out)"
    "ipc_send arena q ep_cap t msg transfer = Some ((set_ep q h st, t'), Inr out)"
proof -
  obtain t' cap where "cap_left t t' transfer cap"
      "case send_state (ep_state q h) msg cap of (st, outcome) \<Rightarrow>
         ipc_send arena q ep_cap t msg transfer = Some ((set_ep q h st, t'), Inr outcome)"
    using ipc_send_spec [OF assms(1,2), where ep_cap = ep_cap and transfer = transfer and msg = msg]
    unfolding assms(3) sum.case by (elim exE conjE)
  then show ?thesis using that by (cases "send_state (ep_state q h) msg cap") simp
qed

lemma ipc_recv_ok:
  assumes "cap_wf t" "queues_ok arena q" "recv_verdict arena q ep_cap t = Inr h"
  shows "parked (ep_state q h) = None \<Longrightarrow>
      ipc_recv arena q ep_cap t = Some ((set_ep q h RecvWaiting, t), Inr Pending)"
    and "parked (ep_state q h) = Some (msg, cap) \<Longrightarrow> \<exists>t' x. cap_arrived t t' cap x \<and>
      ipc_recv arena q ep_cap t = Some ((set_ep q h Idle, t'), Inr (Received msg x))"
  using ipc_recv_spec [OF assms(1,2), where ep_cap = ep_cap] unfolding assms(3) sum.case by simp_all

lemma ipc_send_conserves:
  assumes "cap_wf t" "queues_ok arena q"
  shows "\<exists>q' t' r. ipc_send arena q ep_cap t msg transfer = Some ((q', t'), r) \<and>
    cap_wf t' \<and> queues_ok arena q' \<and> table_caps t' + queue_caps q' = table_caps t + queue_caps q"
proof (cases "send_verdict arena q ep_cap t transfer")
  case (Inl e)
  then show ?thesis
    using ipc_send_spec [OF assms, where ep_cap = ep_cap and transfer = transfer and msg = msg] same_states_caps [OF assms(2)]
      same_states_ok assms(1) by fastforce
next
  case (Inr h)
  obtain t' cap st out where t': "cap_left t t' transfer cap"
      "send_state (ep_state q h) msg cap = (st, out)"
      "ipc_send arena q ep_cap t msg transfer = Some ((set_ep q h st, t'), Inr out)"
    using ipc_send_ok [OF assms Inr] by blast
  note h = send_verdict_Inr [OF Inr]
  have "state_caps st = (case cap of None \<Rightarrow> {#} | Some c \<Rightarrow> {#c#})" "state_caps (ep_state q h) = {#}"
    using t'(2) h unoccupied_caps by (auto simp: send_state_def split: if_splits)
  then have "table_caps t' + queue_caps (set_ep q h st) = table_caps t + queue_caps q"
    using set_ep_caps [OF assms(2), of h st] h
    by (simp add: cap_left_caps(2) [OF assms(1) t'(1), symmetric] ac_simps)
  moreover have "queues_ok arena (set_ep q h st)" using set_ep_ok [OF assms(2)] h by simp
  ultimately show ?thesis using t'(3) cap_left_caps(1) [OF assms(1) t'(1)] by (intro exI conjI)
qed

lemma ipc_recv_conserves:
  assumes "cap_wf t" "queues_ok arena q"
  shows "\<exists>q' t' r. ipc_recv arena q ep_cap t = Some ((q', t'), r) \<and>
    cap_wf t' \<and> queues_ok arena q' \<and> table_caps t' + queue_caps q' = table_caps t + queue_caps q"
proof (cases "recv_verdict arena q ep_cap t")
  case (Inl e)
  then show ?thesis
    using ipc_recv_spec [OF assms, where ep_cap = ep_cap] same_states_caps [OF assms(2)]
      same_states_ok assms(1) by fastforce
next
  case (Inr h)
  note h = recv_verdict_Inr [OF Inr]
  note ok = set_ep_ok [OF assms(2), of h] and caps = set_ep_caps [OF assms(2), of h]
  show ?thesis
  proof (cases "parked (ep_state q h)")
    case None
    then have "state_caps (ep_state q h) = {#}" by (simp add: parked_caps)
    then have "queue_caps (set_ep q h RecvWaiting) = queue_caps q" using caps [of RecvWaiting] h by simp
    moreover have "ipc_recv arena q ep_cap t = Some ((set_ep q h RecvWaiting, t), Inr Pending)"
      using ipc_recv_ok(1) [OF assms Inr None] .
    ultimately show ?thesis using ok [of RecvWaiting] h assms(1) by simp
  next
    case (Some mc)
    obtain msg cap where mc: "mc = (msg, cap)" by (cases mc)
    then obtain t' x where t': "cap_arrived t t' cap x"
        "ipc_recv arena q ep_cap t = Some ((set_ep q h Idle, t'), Inr (Received msg x))"
      using ipc_recv_ok(2) [OF assms Inr] Some by blast
    have "state_caps (ep_state q h) = (case cap of None \<Rightarrow> {#} | Some c \<Rightarrow> {#c#})"
      using Some mc by (simp add: parked_caps split: option.splits)
    then have "table_caps t' + queue_caps (set_ep q h Idle) = table_caps t + queue_caps q"
      using caps [of Idle] h by (simp add: cap_arrived_caps(2) [OF assms(1) t'(1)] ac_simps)
    moreover have "queues_ok arena (set_ep q h Idle)" using ok h by simp
    ultimately show ?thesis using t'(2) cap_arrived_caps(1) [OF assms(1) t'(1)] by (intro exI conjI)
  qed
qed

lemma ipc_cancel_conserves:
  assumes "queues_ok arena q"
  shows "\<exists>q' r. ipc_cancel_recv arena q ep_cap t = Some (q', r) \<and>
    queues_ok arena q' \<and> queue_caps q' = queue_caps q"
proof (cases "cancel_verdict arena ep_cap t")
  case (Inl e)
  then show ?thesis using ipc_cancel_recv_spec [OF assms, of ep_cap t] assms by auto
next
  case (Inr h)
  then have "ep_live arena h" by (auto simp: cancel_verdict_def split: sum.splits if_splits)
  note ok = set_ep_ok [OF assms this, of Idle] and caps = set_ep_caps [OF assms this, of Idle]
  obtain q' where q': "ipc_cancel_recv arena q ep_cap t = Some (q', Inr ())"
      "if ep_state q h = RecvWaiting then q' = set_ep q h Idle else same_states arena q q'"
    using ipc_cancel_recv_spec [OF assms, of ep_cap t] Inr by auto
  show ?thesis
  proof (cases "ep_state q h = RecvWaiting")
    case True
    then show ?thesis using q' ok caps by simp
  next
    case False
    then show ?thesis using q' same_states_caps [OF assms] same_states_ok by simp
  qed
qed

section \<open>Systems of tasks\<close>

record ipc_sys =
  sys_queues :: ipc_queues
  sys_tables :: "cap_table list"

datatype sys_op =
    Sys_send nat cap_handle message "cap_handle option"
  | Sys_recv nat cap_handle
  | Sys_cancel nat cap_handle

datatype sys_event = Sent endpoint_handle message | Got endpoint_handle message

definition endpoint_named :: "cap_table \<Rightarrow> cap_handle \<Rightarrow> endpoint_handle option" where
  "endpoint_named t c =
     (case cap_lookup t c of
        Inl _ \<Rightarrow> None
      | Inr cap \<Rightarrow> (case cap_object cap of CapEndpoint h \<Rightarrow> Some h | _ \<Rightarrow> None))"

definition send_events :: "cap_table \<Rightarrow> cap_handle \<Rightarrow> message \<Rightarrow> ipc_error + send_outcome \<Rightarrow> sys_event list" where
  "send_events t c m r =
     (case r of Inl _ \<Rightarrow> [] | Inr _ \<Rightarrow> (case endpoint_named t c of None \<Rightarrow> [] | Some h \<Rightarrow> [Sent h m]))"

definition recv_events :: "cap_table \<Rightarrow> cap_handle \<Rightarrow> ipc_error + recv_outcome \<Rightarrow> sys_event list" where
  "recv_events t c r =
     (case r of
        Inr (Received m _) \<Rightarrow> (case endpoint_named t c of None \<Rightarrow> [] | Some h \<Rightarrow> [Got h m])
      | _ \<Rightarrow> [])"

text \<open>Task \<open>i\<close> makes one IPC call with its own capability table.\<close>

fun sys_step :: "endpoint_arena \<Rightarrow> ipc_sys \<Rightarrow> sys_op \<Rightarrow> (ipc_sys \<times> sys_event list) option" where
  "sys_step arena s (Sys_send i c m x) =
     (if i < length (sys_tables s) then do {
        ((q, t), r) \<leftarrow> ipc_send arena (sys_queues s) c (sys_tables s ! i) m x;
        Some (\<lparr>sys_queues = q, sys_tables = (sys_tables s)[i := t]\<rparr>, send_events (sys_tables s ! i) c m r)
      } else Some (s, []))"
| "sys_step arena s (Sys_recv i c) =
     (if i < length (sys_tables s) then do {
        ((q, t), r) \<leftarrow> ipc_recv arena (sys_queues s) c (sys_tables s ! i);
        Some (\<lparr>sys_queues = q, sys_tables = (sys_tables s)[i := t]\<rparr>, recv_events (sys_tables s ! i) c r)
      } else Some (s, []))"
| "sys_step arena s (Sys_cancel i c) =
     (if i < length (sys_tables s) then do {
        (q, _) \<leftarrow> ipc_cancel_recv arena (sys_queues s) c (sys_tables s ! i);
        Some (s\<lparr>sys_queues := q\<rparr>, [])
      } else Some (s, []))"

fun sys_run :: "endpoint_arena \<Rightarrow> ipc_sys \<Rightarrow> sys_op list \<Rightarrow> (ipc_sys \<times> sys_event list) option" where
  "sys_run arena s [] = Some (s, [])"
| "sys_run arena s (w # ws) = do {
     (s1, ev) \<leftarrow> sys_step arena s w;
     (s2, evs) \<leftarrow> sys_run arena s1 ws;
     Some (s2, ev @ evs)
   }"

definition sys_ok :: "endpoint_arena \<Rightarrow> ipc_sys \<Rightarrow> bool" where
  "sys_ok arena s \<longleftrightarrow> queues_ok arena (sys_queues s) \<and> (\<forall>t \<in> set (sys_tables s). cap_wf t)"

definition total_caps :: "ipc_sys \<Rightarrow> capability multiset" where
  "total_caps s = sum_list (map table_caps (sys_tables s)) + queue_caps (sys_queues s)"

definition parked_msgs :: "endpoint_state \<Rightarrow> message list" where
  "parked_msgs st = (case parked st of None \<Rightarrow> [] | Some (m, _) \<Rightarrow> [m])"

definition sent_on :: "endpoint_handle \<Rightarrow> sys_event list \<Rightarrow> message list" where
  "sent_on h evs = concat (map (\<lambda>e. case e of Sent k m \<Rightarrow> if k = h then [m] else [] | Got _ _ \<Rightarrow> []) evs)"

definition got_on :: "endpoint_handle \<Rightarrow> sys_event list \<Rightarrow> message list" where
  "got_on h evs = concat (map (\<lambda>e. case e of Got k m \<Rightarrow> if k = h then [m] else [] | Sent _ _ \<Rightarrow> []) evs)"

text \<open>The balance of one endpoint over a piece of history.\<close>

definition balanced :: "endpoint_arena \<Rightarrow> ipc_queues \<Rightarrow> sys_event list \<Rightarrow> ipc_queues \<Rightarrow> bool" where
  "balanced arena q evs q' \<longleftrightarrow>
     (\<forall>h. ep_live arena h \<longrightarrow>
        parked_msgs (ep_state q h) @ sent_on h evs = got_on h evs @ parked_msgs (ep_state q' h))"

lemma balanced_same: "same_states arena q q' \<Longrightarrow> balanced arena q [] q'"
  by (simp add: balanced_def same_states_def sent_on_def got_on_def)

lemma balanced_append:
  assumes "balanced arena q ev q1" "balanced arena q1 evs q2"
  shows "balanced arena q (ev @ evs) q2"
  unfolding balanced_def
proof (intro allI impI)
  fix h assume h: "ep_live arena h"
  have "parked_msgs (ep_state q h) @ sent_on h ev @ sent_on h evs =
      (parked_msgs (ep_state q h) @ sent_on h ev) @ sent_on h evs" by simp
  also have "\<dots> = got_on h ev @ (parked_msgs (ep_state q1 h) @ sent_on h evs)"
    using assms(1) h by (simp add: balanced_def)
  also have "\<dots> = got_on h ev @ got_on h evs @ parked_msgs (ep_state q2 h)"
    using assms(2) h by (simp add: balanced_def)
  finally show "parked_msgs (ep_state q h) @ sent_on h (ev @ evs) =
      got_on h (ev @ evs) @ parked_msgs (ep_state q2 h)"
    by (simp add: sent_on_def got_on_def)
qed

lemma validate_names: "validate_ep_cap t c r = Inr h \<Longrightarrow> endpoint_named t c = Some h"
  by (auto simp: validate_ep_cap_def endpoint_named_def split: sum.splits cap_object.splits if_splits)

lemma ipc_send_balanced:
  assumes "cap_wf t" "queues_ok arena q"
    and "ipc_send arena q c t m x = Some ((q', t'), r)"
  shows "balanced arena q (send_events t c m r) q'"
proof (cases "send_verdict arena q c t x")
  case (Inl e)
  then obtain q1 where "ipc_send arena q c t m x = Some ((q1, t), Inl e)" "same_states arena q q1"
    using ipc_send_spec [OF assms(1,2), where ep_cap = c and transfer = x and msg = m]
    unfolding Inl sum.case by (elim exE conjE)
  then show ?thesis using assms(3) balanced_same by (simp add: send_events_def)
next
  case (Inr h)
  obtain t1 cap st out where "send_state (ep_state q h) m cap = (st, out)"
      "ipc_send arena q c t m x = Some ((set_ep q h st, t1), Inr out)"
    by (rule ipc_send_ok [OF assms(1,2) Inr, where msg = m]) (rule that)
  then have q': "q' = set_ep q h st" "r = Inr out" "parked_msgs st = [m]"
    using assms(3) by (auto simp: send_state_def parked_msgs_def parked_def split: if_splits)
  note h = send_verdict_Inr [OF Inr]
  have "parked_msgs (ep_state q h) = []" using h unoccupied_caps by (simp add: parked_msgs_def)
  then show ?thesis
    using h q' ep_state_set_ep [OF assms(2), of h]
    by (auto simp: balanced_def send_events_def validate_names sent_on_def got_on_def)
qed

lemma ipc_recv_balanced:
  assumes "cap_wf t" "queues_ok arena q"
    and "ipc_recv arena q c t = Some ((q', t'), r)"
  shows "balanced arena q (recv_events t c r) q'"
proof (cases "recv_verdict arena q c t")
  case (Inl e)
  then obtain q1 where "ipc_recv arena q c t = Some ((q1, t), Inl e)" "same_states arena q q1"
    using ipc_recv_spec [OF assms(1,2), where ep_cap = c]
    unfolding Inl sum.case by (elim exE conjE)
  then show ?thesis using assms(3) balanced_same by (simp add: recv_events_def)
next
  case (Inr h)
  note h = recv_verdict_Inr [OF Inr]
  note set = ep_state_set_ep [OF assms(2), of h]
  show ?thesis
  proof (cases "parked (ep_state q h)")
    case None
    then have "q' = set_ep q h RecvWaiting" "r = Inr Pending"
      using ipc_recv_ok(1) [OF assms(1,2) Inr None] assms(3) by simp_all
    then show ?thesis
      using h set None
      by (auto simp: balanced_def recv_events_def sent_on_def got_on_def parked_msgs_def parked_def)
  next
    case (Some mc)
    obtain m cap where mc: "mc = (m, cap)" by (cases mc)
    then obtain t1 y where "ipc_recv arena q c t = Some ((set_ep q h Idle, t1), Inr (Received m y))"
      using ipc_recv_ok(2) [OF assms(1,2) Inr] Some by blast
    then have "q' = set_ep q h Idle" "r = Inr (Received m y)" using assms(3) by simp_all
    then show ?thesis
      using h set Some mc
      by (auto simp: balanced_def recv_events_def validate_names sent_on_def got_on_def
          parked_msgs_def parked_def)
  qed
qed

lemma ipc_cancel_balanced:
  assumes "queues_ok arena q" "ipc_cancel_recv arena q c t = Some (q', r)"
  shows "balanced arena q [] q'"
proof (cases "cancel_verdict arena c t")
  case (Inl e)
  then show ?thesis
    using ipc_cancel_recv_spec [OF assms(1), of c t] assms balanced_same same_states_refl by simp
next
  case (Inr h)
  then have h: "ep_live arena h" by (auto simp: cancel_verdict_def split: sum.splits if_splits)
  have q': "if ep_state q h = RecvWaiting then q' = set_ep q h Idle else same_states arena q q'"
    using ipc_cancel_recv_spec [OF assms(1), of c t] Inr assms(2) by auto
  show ?thesis
  proof (cases "ep_state q h = RecvWaiting")
    case True
    then show ?thesis
      using q' ep_state_set_ep [OF assms(1) h]
      by (auto simp: balanced_def sent_on_def got_on_def parked_msgs_def parked_def)
  next
    case False
    then show ?thesis using q' balanced_same by simp
  qed
qed

lemma sum_list_update_add:
  fixes f :: "'b \<Rightarrow> 'a multiset"
  shows "i < length xs \<Longrightarrow> sum_list (map f (xs[i := y])) + f (xs ! i) = sum_list (map f xs) + f y"
proof (induction xs arbitrary: i)
  case (Cons x xs)
  show ?case
  proof (cases i)
    case (Suc j)
    then show ?thesis using Cons.IH [of j] Cons.prems by (simp add: ac_simps)
  qed (simp add: ac_simps)
qed simp

lemma sys_tables_update_ok:
  "\<lbrakk>sys_ok arena s; cap_wf t; queues_ok arena q\<rbrakk> \<Longrightarrow>
   sys_ok arena \<lparr>sys_queues = q, sys_tables = (sys_tables s)[i := t]\<rparr>"
  by (auto simp: sys_ok_def dest!: set_update_subset_insert [THEN subsetD])

lemma sys_update_total:
  assumes "i < length (sys_tables s)"
    and "table_caps t + queue_caps q = table_caps (sys_tables s ! i) + queue_caps (sys_queues s)"
  shows "total_caps \<lparr>sys_queues = q, sys_tables = (sys_tables s)[i := t]\<rparr> = total_caps s"
proof -
  let ?S = "sum_list (map table_caps (sys_tables s))"
    and ?S' = "sum_list (map table_caps ((sys_tables s)[i := t]))"
  have a: "?S' + table_caps (sys_tables s ! i) = ?S + table_caps t"
    using sum_list_update_add [OF assms(1)] .
  have "(?S' + queue_caps q) + table_caps (sys_tables s ! i) + table_caps t =
      (?S' + table_caps (sys_tables s ! i)) + (table_caps t + queue_caps q)"
    by (simp only: ac_simps)
  also have "\<dots> = (?S + queue_caps (sys_queues s)) + table_caps (sys_tables s ! i) + table_caps t"
    unfolding a assms(2) by (simp only: ac_simps)
  finally show ?thesis by (simp add: total_caps_def)
qed

lemma sys_step_spec:
  assumes ok: "sys_ok arena s"
  shows "\<exists>s' ev. sys_step arena s w = Some (s', ev) \<and> sys_ok arena s' \<and> total_caps s' = total_caps s \<and>
    balanced arena (sys_queues s) ev (sys_queues s')"
proof -
  have q: "queues_ok arena (sys_queues s)" using ok by (simp add: sys_ok_def)
  have idle: "balanced arena (sys_queues s) [] (sys_queues s)"
    using same_states_refl [OF q] by (rule balanced_same)
  have t: "cap_wf (sys_tables s ! i)" if "i < length (sys_tables s)" for i
    using ok that by (simp add: sys_ok_def)
  show ?thesis
  proof (cases w)
    case (Sys_send i c m x)
    show ?thesis
    proof (cases "i < length (sys_tables s)")
      case True
      obtain q' t' r where r: "ipc_send arena (sys_queues s) c (sys_tables s ! i) m x = Some ((q', t'), r)"
          "cap_wf t'" "queues_ok arena q'"
          "table_caps t' + queue_caps q' = table_caps (sys_tables s ! i) + queue_caps (sys_queues s)"
        using ipc_send_conserves [OF t [OF True] q] by metis
      then show ?thesis
        using True Sys_send ipc_send_balanced [OF t [OF True] q r(1)]
          sys_tables_update_ok [OF ok r(2,3)] sys_update_total [OF True r(4)] by simp
    qed (use Sys_send ok idle in simp)
  next
    case (Sys_recv i c)
    show ?thesis
    proof (cases "i < length (sys_tables s)")
      case True
      obtain q' t' r where r: "ipc_recv arena (sys_queues s) c (sys_tables s ! i) = Some ((q', t'), r)"
          "cap_wf t'" "queues_ok arena q'"
          "table_caps t' + queue_caps q' = table_caps (sys_tables s ! i) + queue_caps (sys_queues s)"
        using ipc_recv_conserves [OF t [OF True] q] by metis
      then show ?thesis
        using True Sys_recv ipc_recv_balanced [OF t [OF True] q r(1)]
          sys_tables_update_ok [OF ok r(2,3)] sys_update_total [OF True r(4)] by simp
    qed (use Sys_recv ok idle in simp)
  next
    case (Sys_cancel i c)
    show ?thesis
    proof (cases "i < length (sys_tables s)")
      case True
      obtain q' r where r: "ipc_cancel_recv arena (sys_queues s) c (sys_tables s ! i) = Some (q', r)"
          "queues_ok arena q'" "queue_caps q' = queue_caps (sys_queues s)"
        using ipc_cancel_conserves [OF q] by metis
      then show ?thesis
        using True Sys_cancel ipc_cancel_balanced [OF q r(1)] ok
        by (simp add: sys_ok_def total_caps_def)
    qed (use Sys_cancel ok idle in simp)
  qed
qed

lemma sys_run_spec:
  assumes "sys_ok arena s"
  shows "\<exists>s' evs. sys_run arena s ws = Some (s', evs) \<and> sys_ok arena s' \<and> total_caps s' = total_caps s \<and>
    balanced arena (sys_queues s) evs (sys_queues s')"
  using assms
proof (induction ws arbitrary: s)
  case Nil
  then show ?case using balanced_same [OF same_states_refl] by (simp add: sys_ok_def)
next
  case (Cons w ws)
  obtain s1 ev where s1: "sys_step arena s w = Some (s1, ev)" "sys_ok arena s1"
      "total_caps s1 = total_caps s" "balanced arena (sys_queues s) ev (sys_queues s1)"
    using sys_step_spec [OF Cons.prems] by metis
  obtain s2 evs where "sys_run arena s1 ws = Some (s2, evs)" "sys_ok arena s2"
      "total_caps s2 = total_caps s1" "balanced arena (sys_queues s1) evs (sys_queues s2)"
    using Cons.IH [OF s1(2)] by metis
  then show ?case using s1 balanced_append [OF s1(4)] by simp
qed

section \<open>Properties\<close>

text \<open>
  The concrete system of the instances below: one endpoint, idle queues, and two
  tasks that hold the capabilities of the demonstration table.
\<close>

definition demo_arena :: endpoint_arena where
  "demo_arena = fst (arena_allocate (arena_new ENDPOINT_ARENA_CAPACITY) \<lparr>ep_id = 7\<rparr>)"

definition demo_ep :: endpoint_handle where
  "demo_ep = EndpointHandle first_slot"

definition demo_msg :: message where
  "demo_msg = \<lparr>msg_label = 5, msg_params = (1, 2, 3)\<rparr>"

definition demo_sys :: ipc_sys where
  "demo_sys = \<lparr>sys_queues = ipc_queues_new, sys_tables = [demo_table, demo_table]\<rparr>"

lemma demo_ep_live: "ep_live demo_arena demo_ep"
  by (simp add: ep_live_def demo_arena_def demo_ep_def first_slot_def arena_new_def arena_allocate_def
      arena_get_def nth_opt_def ENDPOINT_ARENA_CAPACITY_def)

lemma demo_queues_ok: "queues_ok demo_arena ipc_queues_new"
proof -
  have wf: "arena_wf ENDPOINT_ARENA_CAPACITY demo_arena"
    unfolding demo_arena_def using arena_new_wf by (rule arena_allocate_wf)
  then have "ep_index h < ENDPOINT_ARENA_CAPACITY" if "ep_live demo_arena h" for h
    using that by (auto simp: ep_live_def ep_index_def arena_wf_def arena_get_iff)
  then show ?thesis using wf by (auto simp: queues_ok_def ipc_queues_new_def pending_has_cap_def)
qed

lemma demo_sys_ok: "sys_ok demo_arena demo_sys"
  using demo_queues_ok demo_table_wf by (simp add: sys_ok_def demo_sys_def)

lemma demo_send_verdict:
  "send_verdict demo_arena ipc_queues_new (demo_handle 0) demo_table (Some (demo_handle 2)) = Inr demo_ep"
proof -
  have "ep_state ipc_queues_new demo_ep = Idle"
    by (simp add: ep_state_def ipc_queues_new_def ep_index_def demo_ep_def first_slot_def
        ENDPOINT_ARENA_CAPACITY_def)
  moreover have "validate_ep_cap demo_table (demo_handle 0) rights_SEND = Inr demo_ep"
    by (simp add: validate_ep_cap_def lookup_node demo_nodes demo_object_def demo_ep_def
        rights_contains_def rights_consts)
  moreover have "transfer_ok demo_table (Some (demo_handle 2))"
    by (simp add: transfer_ok_def lookup_node demo_nodes rights_contains_def rights_consts)
  ultimately show ?thesis
    using demo_ep_live demo_children(3) by (simp add: send_verdict_def queue_occupied_def)
qed

lemma demo_recv_verdict:
  "ep_state q demo_ep \<noteq> RecvWaiting \<Longrightarrow>
   recv_verdict demo_arena q (demo_handle 0) demo_table = Inr demo_ep"
  using demo_ep_live demo_nodes(4)
  by (simp add: recv_verdict_def validate_ep_cap_def lookup_node demo_nodes demo_object_def demo_ep_def
      rights_contains_def rights_consts)

lemma demo_idle: "ep_state ipc_queues_new demo_ep = Idle"
  by (simp add: ep_state_def ipc_queues_new_def ep_index_def demo_ep_def first_slot_def
      ENDPOINT_ARENA_CAPACITY_def)

text \<open>
  C4: IPC neither loses nor duplicates authority. However many tasks, each with
  its own capability table, send (with or without a capability), receive and
  cancel, in whatever order and with whatever handles, every call returns
  without a panic, the tables and queues stay well formed, and the multiset of
  all capabilities, in the tables and in flight together, is unchanged.
\<close>

theorem ipc_conserves_capabilities:
  assumes "sys_ok arena s"
  shows "\<exists>s' evs. sys_run arena s ws = Some (s', evs) \<and> sys_ok arena s' \<and> total_caps s' = total_caps s"
  using sys_run_spec [OF assms, of ws] by metis

theorem ipc_conserves_capabilities_witness:
  "\<exists>s' evs. sys_run demo_arena demo_sys
       [Sys_send 0 (demo_handle 0) demo_msg (Some (demo_handle 2)), Sys_recv 1 (demo_handle 0)] = Some (s', evs) \<and>
     total_caps s' = total_caps demo_sys"
  using ipc_conserves_capabilities [OF demo_sys_ok] by metis

text \<open>
  C19: an endpoint is a reliable one-place channel. Over any history of any number
  of tasks, the messages received on a live endpoint are exactly the messages
  whose send was accepted, in the same order and each once, except for the at
  most one still parked in the endpoint (and starting with the one parked when
  the history began).
\<close>

theorem ipc_delivers_in_order:
  assumes "sys_ok arena s" "ep_live arena h" "sys_run arena s ws = Some (s', evs)"
  shows "parked_msgs (ep_state (sys_queues s) h) @ sent_on h evs =
    got_on h evs @ parked_msgs (ep_state (sys_queues s') h)"
  using sys_run_spec [OF assms(1), of ws] assms(2,3) by (auto simp: balanced_def)

theorem ipc_delivers_in_order_witness:
  "\<exists>s' evs. sys_run demo_arena demo_sys
       [Sys_send 0 (demo_handle 0) demo_msg (Some (demo_handle 2)), Sys_recv 1 (demo_handle 0)] = Some (s', evs) \<and>
     sent_on demo_ep evs = got_on demo_ep evs @ parked_msgs (ep_state (sys_queues s') demo_ep)"
proof -
  obtain s' evs where run: "sys_run demo_arena demo_sys
      [Sys_send 0 (demo_handle 0) demo_msg (Some (demo_handle 2)), Sys_recv 1 (demo_handle 0)] = Some (s', evs)"
    using sys_run_spec [OF demo_sys_ok] by metis
  then show ?thesis
    using ipc_delivers_in_order [OF demo_sys_ok demo_ep_live run] demo_idle
    by (simp add: demo_sys_def parked_msgs_def parked_def)
qed

text \<open>
  C28: sending. On a well-formed table and matching queues \<open>ipc_send\<close> never
  panics (its \<open>unreachable!\<close> arm is not reached). A refused send reports the
  first failed check, in the order handle, kind, right, transferred capability,
  endpoint liveness, queue, children of the transferred capability, and leaves
  the caller's table and the state of every live endpoint as they were. An
  accepted send moves the endpoint from waiting to complete or from idle to
  pending with the message, and the transferred capability out of the table.
\<close>

theorem ipc_send_refines:
  assumes "cap_wf t" "queues_ok arena q"
  shows "case send_verdict arena q ep_cap t transfer of
      Inl e \<Rightarrow> \<exists>q'. ipc_send arena q ep_cap t msg transfer = Some ((q', t), Inl e) \<and> same_states arena q q'
    | Inr h \<Rightarrow> \<exists>t' cap. cap_left t t' transfer cap \<and>
        (case send_state (ep_state q h) msg cap of (st, outcome) \<Rightarrow>
           ipc_send arena q ep_cap t msg transfer = Some ((set_ep q h st, t'), Inr outcome))"
  using assms by (rule ipc_send_spec)

theorem ipc_send_refines_witness:
  "\<exists>t' cap. cap_left demo_table t' (Some (demo_handle 2)) cap \<and>
     ipc_send demo_arena ipc_queues_new (demo_handle 0) demo_table demo_msg (Some (demo_handle 2)) =
       Some ((set_ep ipc_queues_new demo_ep (SendPending demo_msg cap), t'), Inr Enqueued)"
  using ipc_send_refines [OF demo_table_wf demo_queues_ok, where ep_cap = "demo_handle 0" and
      transfer = "Some (demo_handle 2)" and msg = demo_msg]
  by (simp add: demo_send_verdict demo_idle send_state_def)

text \<open>
  C29: receiving. \<open>ipc_recv\<close> never panics. A refused receive (handle, kind, right,
  endpoint liveness, no room for the parked capability, another receiver
  waiting) changes neither the table nor any live endpoint, so a parked message
  and its capability survive. Otherwise a parked message is delivered, its
  capability becomes a root of the receiver's table and the endpoint goes idle;
  with nothing parked the endpoint records the waiting receiver.
\<close>

theorem ipc_recv_refines:
  assumes "cap_wf t" "queues_ok arena q"
  shows "case recv_verdict arena q ep_cap t of
      Inl e \<Rightarrow> \<exists>q'. ipc_recv arena q ep_cap t = Some ((q', t), Inl e) \<and> same_states arena q q'
    | Inr h \<Rightarrow>
        (case parked (ep_state q h) of
           None \<Rightarrow> ipc_recv arena q ep_cap t = Some ((set_ep q h RecvWaiting, t), Inr Pending)
         | Some (msg, cap) \<Rightarrow> \<exists>t' x. cap_arrived t t' cap x \<and>
             ipc_recv arena q ep_cap t = Some ((set_ep q h Idle, t'), Inr (Received msg x)))"
  using assms by (rule ipc_recv_spec)

theorem ipc_recv_refines_witness:
  "ipc_recv demo_arena ipc_queues_new (demo_handle 0) demo_table =
     Some ((set_ep ipc_queues_new demo_ep RecvWaiting, demo_table), Inr Pending)"
  using ipc_recv_refines [OF demo_table_wf demo_queues_ok, where ep_cap = "demo_handle 0"]
  by (simp add: demo_recv_verdict demo_idle parked_def)

text \<open>
  The transfer of a capability is a move. When a send that nominates \<open>x\<close> is
  accepted and a task holding \<open>RECV\<close> on the same endpoint then receives, it gets
  the sent message and, under a fresh handle of its own table, the capability
  the sender had at \<open>x\<close> with the same object and rights; that handle is dead in
  the sender's table, and every other handle of both tables is as before.
\<close>

theorem ipc_transfer_moves_capability:
  assumes "cap_wf ta" "cap_wf tb" "queues_ok arena q"
    and send: "ipc_send arena q ca ta msg (Some x) = Some ((q1, ta'), Inr out)"
    and same: "endpoint_named tb cb = endpoint_named ta ca"
    and recv: "ipc_recv arena q1 cb tb = Some ((q2, tb'), Inr (Received m y))"
  shows "\<exists>k c. m = msg \<and> y = Some k \<and> cap_get ta x = Some c \<and>
    rights_contains (cap_rights c) rights_TRANSFER \<and> cap_get ta' = (cap_get ta)(x := None) \<and>
    cap_get tb k = None \<and> cap_get tb' = (cap_get tb)(k \<mapsto> c)"
proof -
  obtain h where h: "send_verdict arena q ca ta (Some x) = Inr h"
  proof (cases "send_verdict arena q ca ta (Some x)")
    case (Inl e)
    then show ?thesis
      using ipc_send_spec [OF assms(1,3), where ep_cap = ca and transfer = "Some x" and msg = msg] send
      by simp
  qed (rule that)
  obtain t1 cap st o1 where s: "cap_left ta t1 (Some x) cap" "send_state (ep_state q h) msg cap = (st, o1)"
      "ipc_send arena q ca ta msg (Some x) = Some ((set_ep q h st, t1), Inr o1)"
    by (rule ipc_send_ok [OF assms(1,3) h, where msg = msg]) (rule that)
  then have q1: "q1 = set_ep q h st" and left: "cap_left ta ta' (Some x) cap" using send by simp_all
  note hs = send_verdict_Inr [OF h]
  have live: "ep_live arena h" using hs by simp
  have ok1: "queues_ok arena q1" unfolding q1 using assms(3) live by (rule set_ep_ok)
  have parked: "parked (ep_state q1 h) = Some (msg, cap)"
    using s(2) ep_state_set_ep [OF assms(3) live live] unfolding q1
    by (auto simp: send_state_def parked_def split: if_splits)
  obtain h' where h': "recv_verdict arena q1 cb tb = Inr h'"
  proof (cases "recv_verdict arena q1 cb tb")
    case (Inl e)
    then show ?thesis using ipc_recv_spec [OF assms(2) ok1, where ep_cap = cb] recv by simp
  qed (rule that)
  have "h' = h"
    using recv_verdict_Inr [OF h'] hs same by (auto dest!: validate_names)
  then obtain t2 z where r: "cap_arrived tb t2 cap z"
      "ipc_recv arena q1 cb tb = Some ((set_ep q1 h Idle, t2), Inr (Received msg z))"
    using ipc_recv_ok(2) [OF assms(2) ok1 h'] parked by metis
  then have arrived: "cap_arrived tb tb' cap y" "m = msg" using recv by simp_all
  obtain n :: cap_node where n: "cap = Some (cn_cap n)" "rights_contains (cap_rights (cn_cap n)) rights_TRANSFER"
      "ok_part (cap_take ta x) = Some (ta', cn_cap n)"
    using left unfolding cap_left_def option.case ok_part_eq_Some_iff by metis
  obtain k where k: "y = Some k" "ok_part (insert_root tb (cn_cap n)) = Some (tb', k)"
    using arrived(1) n(1) by (auto simp: cap_arrived_def)
  note move = caps.move_exclusive [OF assms(1,2) n(3) k(2)]
  show ?thesis
    using arrived(2) k(1) n(2) move(1-4) by metis
qed

theorem ipc_transfer_moves_capability_witness:
  "\<exists>q1 ta' q2 tb' k.
     ipc_send demo_arena ipc_queues_new (demo_handle 0) demo_table demo_msg (Some (demo_handle 2)) =
       Some ((q1, ta'), Inr Enqueued) \<and>
     ipc_recv demo_arena q1 (demo_handle 0) demo_table = Some ((q2, tb'), Inr (Received demo_msg (Some k))) \<and>
     cap_get ta' (demo_handle 2) = None \<and>
     cap_get tb' k = Some \<lparr>cap_rights = 0x18, cap_object = demo_object\<rparr>"
proof -
  obtain ta' cap where send: "ipc_send demo_arena ipc_queues_new (demo_handle 0) demo_table demo_msg (Some (demo_handle 2)) =
       Some ((set_ep ipc_queues_new demo_ep (SendPending demo_msg cap), ta'), Inr Enqueued)"
    using ipc_send_spec [OF demo_table_wf demo_queues_ok, where ep_cap = "demo_handle 0" and
        transfer = "Some (demo_handle 2)" and msg = demo_msg]
    by (auto simp: demo_send_verdict demo_idle send_state_def)
  let ?q = "set_ep ipc_queues_new demo_ep (SendPending demo_msg cap)"
  have st: "ep_state ?q demo_ep = SendPending demo_msg cap"
    using ep_state_set_ep [OF demo_queues_ok demo_ep_live demo_ep_live] by simp
  have ok: "queues_ok demo_arena ?q" using demo_queues_ok demo_ep_live by (rule set_ep_ok)
  have v: "recv_verdict demo_arena ?q (demo_handle 0) demo_table = Inr demo_ep"
    using st by (intro demo_recv_verdict) simp
  obtain tb' y where recv: "ipc_recv demo_arena ?q (demo_handle 0) demo_table =
      Some ((set_ep ?q demo_ep Idle, tb'), Inr (Received demo_msg y))"
    using ipc_recv_ok(2) [OF demo_table_wf ok v] st by (auto simp: parked_def)
  have get: "cap_get demo_table (demo_handle 2) = Some \<lparr>cap_rights = 0x18, cap_object = demo_object\<rparr>"
    by (simp add: cap_get_node demo_nodes)
  show ?thesis
    using ipc_transfer_moves_capability [OF demo_table_wf demo_table_wf demo_queues_ok send refl recv]
      send recv get by auto
qed

text \<open>Cancelling right after a receive registered the caller.\<close>

lemma cancel_after_recv:
  assumes "queues_ok arena q" "recv_verdict arena q c t = Inr h" "parked (ep_state q h) = None"
  shows "ipc_cancel_recv arena (set_ep q h RecvWaiting) c t = Some (set_ep (set_ep q h RecvWaiting) h Idle, Inr ())"
    and "queues_ok arena (set_ep (set_ep q h RecvWaiting) h Idle)"
    and "ep_live arena k \<Longrightarrow> ep_state (set_ep (set_ep q h RecvWaiting) h Idle) k = ep_state q k"
proof -
  note hs = recv_verdict_Inr [OF assms(2)]
  have live: "ep_live arena h" using hs by simp
  have idle: "ep_state q h = Idle" using hs assms(3) by (cases "ep_state q h") (auto simp: parked_def)
  let ?q = "set_ep q h RecvWaiting"
  have ok: "queues_ok arena ?q" using assms(1) live by (rule set_ep_ok)
  show "queues_ok arena (set_ep ?q h Idle)" using ok live by (rule set_ep_ok)
  have v: "cancel_verdict arena c t = Inr h" using hs by (simp add: cancel_verdict_def)
  have w: "ep_state ?q h = RecvWaiting" using ep_state_set_ep [OF assms(1) live live] by simp
  then show "ipc_cancel_recv arena ?q c t = Some (set_ep ?q h Idle, Inr ())"
    using ipc_cancel_recv_spec [OF ok, of c t] v by auto
  show "ep_state (set_ep ?q h Idle) k = ep_state q k" if "ep_live arena k"
    using ep_state_set_ep [OF ok live that] ep_state_set_ep [OF assms(1) live that] idle by simp
qed

text \<open>
  Cancelling undoes a registration. When a receive found nothing and
  registered the caller, cancelling it with the same capability leaves the
  caller's table and the state of every live endpoint exactly as before the
  receive.
\<close>

theorem ipc_cancel_undoes_recv:
  assumes "cap_wf t" "queues_ok arena q"
    and "ipc_recv arena q c t = Some ((q1, t1), Inr Pending)"
  shows "t1 = t \<and> (\<exists>q2. ipc_cancel_recv arena q1 c t1 = Some (q2, Inr ()) \<and>
    (\<forall>k. ep_live arena k \<longrightarrow> ep_state q2 k = ep_state q k))"
proof -
  obtain h where h: "recv_verdict arena q c t = Inr h"
  proof (cases "recv_verdict arena q c t")
    case (Inl e)
    then show ?thesis using ipc_recv_spec [OF assms(1,2), where ep_cap = c] assms(3) by simp
  qed (rule that)
  have none: "parked (ep_state q h) = None"
  proof (cases "parked (ep_state q h)")
    case (Some mc)
    then show ?thesis
      using ipc_recv_ok(2) [OF assms(1,2) h, of "fst mc" "snd mc"] assms(3) by simp
  qed
  have "q1 = set_ep q h RecvWaiting" "t1 = t"
    using ipc_recv_ok(1) [OF assms(1,2) h none] assms(3) by simp_all
  then show ?thesis using cancel_after_recv [OF assms(2) h none] by blast
qed

theorem ipc_cancel_undoes_recv_witness:
  "\<exists>q1 q2. ipc_recv demo_arena ipc_queues_new (demo_handle 0) demo_table = Some ((q1, demo_table), Inr Pending) \<and>
     ipc_cancel_recv demo_arena q1 (demo_handle 0) demo_table = Some (q2, Inr ()) \<and>
     ep_state q2 demo_ep = Idle"
proof -
  have recv: "ipc_recv demo_arena ipc_queues_new (demo_handle 0) demo_table =
      Some ((set_ep ipc_queues_new demo_ep RecvWaiting, demo_table), Inr Pending)"
    using ipc_recv_ok(1) [OF demo_table_wf demo_queues_ok demo_recv_verdict]
    by (simp add: demo_idle parked_def)
  show ?thesis
    using ipc_cancel_undoes_recv [OF demo_table_wf demo_queues_ok recv] recv demo_ep_live demo_idle by auto
qed

text \<open>
  Notifying. With a live notification capability that carries \<open>NOTIFY\<close> the
  bits are added to the notification's word and no other notification changes;
  in every other case the arena is untouched and the error names the first
  failed check.
\<close>

theorem ipc_notify_sets_bits:
  "case validate_notif_cap t c of
     Inl e \<Rightarrow> ipc_notify arena c t bits = (arena, Inl e)
   | Inr h \<Rightarrow>
       (case get_notification arena h of
          None \<Rightarrow> ipc_notify arena c t bits = (arena, Inl StaleHandle)
        | Some n \<Rightarrow> \<exists>arena'. ipc_notify arena c t bits = (arena', Inr ()) \<and>
            get_notification arena' = (get_notification arena)(h \<mapsto> notification_set n bits))"
proof (cases "validate_notif_cap t c")
  case (Inr h)
  show ?thesis
  proof (cases "get_notification arena h")
    case None
    then have "arena_get_mut arena (nh_slot h) f = None" for f
      by (auto simp: get_notification_def arena_get_def arena_get_mut_def split: option.splits if_splits)
    then show ?thesis using Inr None by (simp add: ipc_notify_def)
  next
    case (Some n)
    then have live: "arena_get arena (nh_slot h) = Some n" by (simp add: get_notification_def)
    then obtain a' where a': "arena_get_mut arena (nh_slot h) (\<lambda>n. notification_set n bits) = Some a'"
        "arena_get a' = (arena_get arena)(nh_slot h \<mapsto> notification_set n bits)"
      using arena_get_mut_get [OF live] by blast
    then have "get_notification a' = (get_notification arena)(h \<mapsto> notification_set n bits)"
      by (auto simp: get_notification_def fun_eq_iff notification_handle.expand)
    then show ?thesis using Inr Some a'(1) by (simp add: ipc_notify_def)
  qed
qed (simp add: ipc_notify_def)

end
