(* ===== verification/UserAccess_Claims.thy ===== *)
theory UserAccess_Claims
  imports UserAccess_Props
begin

text \<open>
  The properties of user accesses: the copies are exact and all-or-nothing, and
  they are confined to the user pages of the window.
\<close>

section \<open>A concrete address space\<close>

text \<open>Two user pages, the second read-only, backed by frames that are not
  adjacent, and a kernel page above them.\<close>

definition demo_translator :: translator where
  "demo_translator m p =
     (if p = 0x10000 then Inr (PhysFrame 0x48000, MappingFlags 5)
      else if p = 0x11000 then Inr (PhysFrame 0x40000, MappingFlags 4)
      else if p = 0x12000 then Inr (PhysFrame 0x30000, MappingFlags 1)
      else Inl NotMapped)"

definition demo_window :: user_access_window where
  "demo_window = user_window_new 0x10000 0x3000"

definition demo_memory :: memory where
  "demo_memory x = (if x = 0xFFFFFFFF00048FFF then 7 else if x = 0xFFFFFFFF00040000 then 9 else 0)"

lemma demo_reachable: "frames_reachable (demo_translator m)"
  by (auto simp: frames_reachable_def demo_translator_def split: if_splits)

lemma demo_stable: "stable_translation demo_translator m L"
  by (auto simp: stable_translation_def demo_translator_def fun_eq_iff)

lemmas demo_access =
  demo_window_def user_window_new_def in_window_def usize_max_def user_loc_def demo_translator_def
  page_base_def PAGE_SIZE_def KERNEL_HIGH_HALF_OFFSET_def

lemma demo_page: "page_base 0x10FFF = 0x10000" "page_base 0x11000 = 0x11000"
  by (simp_all add: page_base_def PAGE_SIZE_def)

section \<open>Properties\<close>

text \<open>
  Reading user memory is exact and all-or-nothing. When the address space's
  frames lie in the direct map, copy_from_user never panics; it fills the whole
  buffer with the bytes that the task's own translation gives for the range
  exactly when the range lies in the task's window without wrapping and every
  page of it is mapped with the USER flag, and otherwise it reports a fault and
  leaves the buffer as it was.
\<close>

theorem copy_from_user_exact:
  assumes "frames_reachable (tr m)" "0 < length dst"
  shows "copy_from_user tr m w ptr dst =
    (if in_window w ptr (length dst) \<and> span_ok (tr m) False ptr (ptr + length dst)
     then Some (map (\<lambda>i. m (user_loc (tr m) (ptr + i))) [0..<length dst], Inr ())
     else Some (dst, Inl FaultAddress))"
  by (rule copy_from_user_cases [where tr = tr and m = m, OF assms])

theorem copy_from_user_exact_witness:
  "copy_from_user demo_translator demo_memory demo_window 0x10FFF [1, 1] = Some ([7, 9], Inr ()) \<and>
   copy_from_user demo_translator demo_memory demo_window 0x11FFF [1, 1] = Some ([1, 1], Inl FaultAddress)"
proof -
  have pages: "span_ok (demo_translator demo_memory) False 0x10FFF 0x11001"
    unfolding span_ok_def
  proof (intro allI impI, elim conjE)
    fix a :: nat assume "0x10FFF \<le> a" "a < 0x11001"
    then have "a = 0x10FFF \<or> a = 0x11000" by linarith
    then show "page_ok (demo_translator demo_memory) False (page_base a)"
      using demo_page by (auto simp: page_ok_def demo_translator_def mf_contains_def mf_USER_def)
  qed
  have fault: "\<not> span_ok (demo_translator demo_memory) False 0x11FFF 0x12001"
    using span_okD [of "demo_translator demo_memory" False "0x11FFF" "0x12001" "0x12000"]
    by (auto simp: page_ok_def demo_translator_def page_base_def PAGE_SIZE_def mf_contains_def mf_USER_def)
  have copy: "copy_from_user demo_translator demo_memory demo_window ptr [1, 1] =
      (if in_window demo_window ptr 2 \<and> span_ok (demo_translator demo_memory) False ptr (ptr + 2)
       then Some ([demo_memory (user_loc (demo_translator demo_memory) ptr),
                   demo_memory (user_loc (demo_translator demo_memory) (ptr + 1))], Inr ())
       else Some ([1, 1], Inl FaultAddress))" for ptr
    using copy_from_user_exact [where tr = demo_translator and m = demo_memory and w = demo_window
        and ptr = ptr, OF demo_reachable, of "[1, 1]"]
    by (simp add: upt_rec [of 0] upt_rec [of "Suc _"] numeral_2_eq_2)
  show ?thesis
    unfolding copy using pages fault by (simp add: demo_access demo_memory_def)
qed

text \<open>
  Writing user memory is exact, all-or-nothing and confined. When the
  frames lie in the direct map and writing the range does not change the
  translation, copy_to_user never panics; when the range lies in the task's
  window and every page of it is mapped USER and WRITE, it succeeds, changes no
  byte outside the range's own frames, and (when no two addresses of the range
  share a byte) stores the source at it; otherwise it reports a fault and
  memory is as it was.
\<close>

theorem copy_to_user_exact:
  assumes "frames_reachable (tr m)" "0 < length src"
    and "stable_translation tr m (user_locs (tr m) ptr (ptr + length src))"
  shows "if in_window w ptr (length src) \<and> span_ok (tr m) True ptr (ptr + length src)
    then \<exists>m'. copy_to_user tr m w ptr src = Some (m', Inr ()) \<and>
      (\<forall>x. x \<notin> user_locs (tr m) ptr (ptr + length src) \<longrightarrow> m' x = m x) \<and>
      (inj_on (user_loc (tr m)) {ptr..<ptr + length src} \<longrightarrow>
        (\<forall>i<length src. m' (user_loc (tr m) (ptr + i)) = src ! i))
    else copy_to_user tr m w ptr src = Some (m, Inl FaultAddress)"
  by (rule copy_to_user_cases [where tr = tr and m = m, OF assms])

lemma demo_span_write: "span_ok (demo_translator demo_memory) True 0x10FFE 0x11000"
  unfolding span_ok_def
proof (intro allI impI, elim conjE)
  fix a :: nat assume "0x10FFE \<le> a" "a < 0x11000"
  then have "page_base a = 0x10000" by (simp add: page_base_def PAGE_SIZE_def)
  then show "page_ok (demo_translator demo_memory) True (page_base a)"
    by (simp add: page_ok_def demo_translator_def mf_contains_def mf_USER_def mf_WRITE_def)
qed

lemma demo_no_span_write: "\<not> span_ok (demo_translator demo_memory) True 0x10FFF 0x11001"
  using span_okD [of "demo_translator demo_memory" True "0x10FFF" "0x11001" "0x11000"] demo_page
  by (auto simp: page_ok_def demo_translator_def mf_contains_def mf_WRITE_def mf_USER_def)

theorem copy_to_user_exact_witness:
  "(\<exists>m'. copy_to_user demo_translator demo_memory demo_window 0x10FFE [5, 6] = Some (m', Inr ()) \<and>
      m' 0xFFFFFFFF00048FFE = 5 \<and> m' 0xFFFFFFFF00048FFF = 6 \<and> m' 0xFFFFFFFF00040000 = 9) \<and>
   copy_to_user demo_translator demo_memory demo_window 0x10FFF [5, 6] = Some (demo_memory, Inl FaultAddress)"
proof -
  let ?tr = "demo_translator demo_memory"
  have loc: "user_loc ?tr (0x10FFE + i) = 0xFFFFFFFF00048FFE + i" if "i < 2" for i
  proof -
    have "i = 0 \<or> i = 1" using that by auto
    then have "page_base (0x10FFE + i) = 0x10000" "(0x10FFE + i) mod PAGE_SIZE = 0xFFE + i"
      by (auto simp: page_base_def PAGE_SIZE_def)
    then show ?thesis by (simp add: user_loc_def demo_translator_def KERNEL_HIGH_HALF_OFFSET_def)
  qed
  have shift: "\<exists>i<2. a = 0x10FFE + i" if "a \<in> {0x10FFE..<0x10FFE + 2}" for a :: nat
    using that by (intro exI [of _ "a - 0x10FFE"]) auto
  have inj: "inj_on (user_loc ?tr) {0x10FFE..<0x10FFE + 2}"
  proof (rule inj_onI)
    fix a b assume "a \<in> {0x10FFE..<0x10FFE + 2}" "b \<in> {0x10FFE..<0x10FFE + 2}" "user_loc ?tr a = user_loc ?tr b"
    then show "a = b" using shift [of a] shift [of b] loc by auto
  qed
  have out: "0xFFFFFFFF00040000 \<notin> user_locs ?tr 0x10FFE (0x10FFE + 2)"
  proof
    assume "0xFFFFFFFF00040000 \<in> user_locs ?tr 0x10FFE (0x10FFE + 2)"
    then obtain a where "a \<in> {0x10FFE..<0x10FFE + 2}" "0xFFFFFFFF00040000 = user_loc ?tr a"
      unfolding user_locs_def by blast
    then show False using shift [of a] loc by auto
  qed
  have window: "in_window demo_window 0x10FFE 2" "in_window demo_window 0x10FFF 2"
    by (simp_all add: demo_access)
  have two: "length [5 :: 8 word, 6] = 2" "0 < length [5 :: 8 word, 6]" by simp_all
  have ok: "span_ok ?tr True 0x10FFE (0x10FFE + 2)" "\<not> span_ok ?tr True 0x10FFF (0x10FFF + 2)"
    using demo_span_write demo_no_span_write by simp_all
  have good: "\<exists>m'. copy_to_user demo_translator demo_memory demo_window 0x10FFE [5, 6] = Some (m', Inr ()) \<and>
      (\<forall>x. x \<notin> user_locs ?tr 0x10FFE (0x10FFE + 2) \<longrightarrow> m' x = demo_memory x) \<and>
      (\<forall>i<2. m' (user_loc ?tr (0x10FFE + i)) = [5, 6] ! i)"
    using copy_to_user_exact [where tr = demo_translator and m = demo_memory and w = demo_window
        and ptr = "0x10FFE", OF demo_reachable two(2) demo_stable]
    unfolding two(1) using window ok inj by simp
  have bad: "copy_to_user demo_translator demo_memory demo_window 0x10FFF [5, 6] =
      Some (demo_memory, Inl FaultAddress)"
    using copy_to_user_exact [where tr = demo_translator and m = demo_memory and w = demo_window
        and ptr = "0x10FFF", OF demo_reachable two(2) demo_stable]
    unfolding two(1) using ok by simp
  from good obtain m' where m': "copy_to_user demo_translator demo_memory demo_window 0x10FFE [5, 6] = Some (m', Inr ())"
      "m' 0xFFFFFFFF00040000 = demo_memory 0xFFFFFFFF00040000"
      "\<And>i. i < 2 \<Longrightarrow> m' (0xFFFFFFFF00048FFE + i) = [5, 6] ! i"
    using out loc by metis
  then show ?thesis using m'(3) [of 0] m'(3) [of 1] bad by (auto simp: demo_memory_def)
qed

text \<open>
  C31: A read of user memory cannot disclose kernel memory. If two memories
  agree on every byte that some USER page of the task's window maps (whatever
  else they hold), and give the task the same translation, then copy_from_user
  has the same result and leaves the same buffer in both, for every pointer and
  length the caller may choose.
\<close>

theorem copy_from_user_confined:
  assumes "tr m' = tr m" "frames_reachable (tr m)"
    and "\<forall>a. uw_base w \<le> a \<and> a < uw_base w + uw_len w \<and> page_ok (tr m) False (page_base a) \<longrightarrow>
           m' (user_loc (tr m) a) = m (user_loc (tr m) a)"
  shows "copy_from_user tr m' w ptr dst = copy_from_user tr m w ptr dst"
proof (cases "dst = []")
  case True
  then show ?thesis by (simp add: copy_from_user_empty)
next
  case False
  then have pos: "0 < length dst" by simp
  have "m' (user_loc (tr m) (ptr + i)) = m (user_loc (tr m) (ptr + i))"
    if "in_window w ptr (length dst)" "span_ok (tr m) False ptr (ptr + length dst)" "i < length dst" for i
    using assms(3) user_window_grants [OF that(1), of "ptr + i"] span_okD [OF that(2), of "ptr + i"] that(3)
    by auto
  then show ?thesis
    using copy_from_user_cases [where tr = tr and m = m and w = w and ptr = ptr, OF assms(2) pos]
      copy_from_user_cases [where tr = tr and m = m' and w = w and ptr = ptr and dst = dst] assms(1,2) pos
    by auto
qed

theorem copy_from_user_confined_witness:
  "copy_from_user demo_translator (demo_memory(0xFFFFFFFF00030000 := 1)) demo_window 0x11F00 [0, 0] =
   copy_from_user demo_translator demo_memory demo_window 0x11F00 [0, 0]"
  by (rule copy_from_user_confined)
    (auto simp: demo_reachable demo_translator_def fun_eq_iff page_ok_def user_loc_def
      KERNEL_HIGH_HALF_OFFSET_def mf_contains_def mf_USER_def split: if_splits)

end
