(* ===== verification/Dispatch_Claims.thy ===== *)
theory Dispatch_Claims
  imports Dispatch Ipc_Claims UserAccess_Claims
begin

text \<open>
  The properties of the dispatcher: a call is total and keeps the kernel state
  well formed, an error word means that nothing happened, a console write emits
  the whole user buffer or nothing, and a message sent through the registers of
  one task arrives in the registers of another.
\<close>

section \<open>The chunked console write\<close>

lemma in_window_sub:
  "\<lbrakk>in_window w ptr n; offset + k \<le> n\<rbrakk> \<Longrightarrow> in_window w (ptr + offset) k"
  by (auto simp: in_window_def)

lemma span_ok_sub:
  "\<lbrakk>span_ok tr rw ptr (ptr + n); offset + k \<le> n\<rbrakk> \<Longrightarrow> span_ok tr rw (ptr + offset) (ptr + offset + k)"
  by (auto simp: span_ok_def)

definition user_bytes :: "syscall_context \<Rightarrow> nat \<Rightarrow> nat \<Rightarrow> nat \<Rightarrow> 8 word list" where
  "user_bytes ctx ptr lo hi =
     map (\<lambda>i. sc_memory ctx (user_loc (sc_translate ctx (sc_memory ctx)) (ptr + i))) [lo..<hi]"

lemma user_bytes_shift:
  "map (\<lambda>i. sc_memory ctx (user_loc (sc_translate ctx (sc_memory ctx)) (ptr + lo + i))) [0..<k] =
     user_bytes ctx ptr lo (lo + k)"
  by (rule nth_equalityI) (auto simp: user_bytes_def add.assoc)

lemma user_bytes_split: "\<lbrakk>lo \<le> mid; mid \<le> hi\<rbrakk> \<Longrightarrow> user_bytes ctx ptr lo mid @ user_bytes ctx ptr mid hi = user_bytes ctx ptr lo hi"
  using upt_add_eq_append [of lo mid "hi - mid"] by (simp add: user_bytes_def flip: map_append)

lemma console_write_loop_spec:
  assumes "frames_reachable (sc_translate ctx (sc_memory ctx))" "offset \<le> n" "length buf = CONSOLE_WRITE_CHUNK"
    and "0 < n \<Longrightarrow> in_window (sc_user_window ctx) ptr n"
    and "span_ok (sc_translate ctx (sc_memory ctx)) False ptr (ptr + n)"
  shows "console_write_loop ctx ptr n offset buf =
    Some (ctx\<lparr>sc_console := sc_console ctx @ user_bytes ctx ptr offset n\<rparr>, Inr ())"
  using assms
proof (induction "n - offset" arbitrary: ctx offset buf rule: less_induct)
  case less
  show ?case
  proof (cases "offset < n")
    case False
    then show ?thesis
      using less.prems(2) by (subst console_write_loop.simps) (simp add: user_bytes_def)
  next
    case True
    let ?k = "min (n - offset) CONSOLE_WRITE_CHUNK"
    let ?ctx = "ctx\<lparr>sc_console := sc_console ctx @ user_bytes ctx ptr offset (offset + ?k)\<rparr>"
    have k: "0 < ?k" "offset + ?k \<le> n" "n - (offset + ?k) < n - offset" "length (take ?k buf) = ?k"
      using True less.prems(3) by (auto simp: CONSOLE_WRITE_CHUNK_def)
    have window: "in_window (sc_user_window ctx) ptr n" using True less.prems(4) by simp
    then have fits: "ptr + offset \<le> usize_max" "offset + ?k \<le> usize_max"
      using k(2) by (auto simp: in_window_def)
    have copy: "copy_from_user (sc_translate ctx) (sc_memory ctx) (sc_user_window ctx) (ptr + offset) (take ?k buf) =
        Some (user_bytes ctx ptr offset (offset + ?k), Inr ())"
      using copy_from_user_cases [where tr = "sc_translate ctx" and m = "sc_memory ctx" and w = "sc_user_window ctx"
          and ptr = "ptr + offset" and dst = "take ?k buf", OF less.prems(1)]
        in_window_sub [OF window k(2)] span_ok_sub [OF less.prems(5) k(2)] k(1)
      unfolding k(4) user_bytes_shift by simp
    have len: "length (user_bytes ctx ptr offset (offset + ?k) @ drop ?k buf) = CONSOLE_WRITE_CHUNK"
      using less.prems(3) by (simp add: user_bytes_def)
    have "console_write_loop ctx ptr n offset buf =
        console_write_loop ?ctx ptr n (offset + ?k) (user_bytes ctx ptr offset (offset + ?k) @ drop ?k buf)"
      using True fits copy by (subst console_write_loop.simps) (simp add: Let_def checked_add_def)
    also have "\<dots> = Some (?ctx\<lparr>sc_console := sc_console ?ctx @ user_bytes ?ctx ptr (offset + ?k) n\<rparr>, Inr ())"
      by (rule less.hyps [OF k(3)]) (use less.prems len k(2) in simp_all)
    also have "user_bytes ?ctx ptr (offset + ?k) n = user_bytes ctx ptr (offset + ?k) n"
      by (simp add: user_bytes_def)
    finally show ?thesis
      using user_bytes_split [of offset "offset + ?k" n ctx ptr] k(2) by simp
  qed
qed

text \<open>The checks of a console write, in the order of the code.\<close>

definition console_verdict :: "syscall_context \<Rightarrow> 64 word list \<Rightarrow> syscall_error + nat" where
  "console_verdict ctx args =
     (let ptr = unat (args ! 1); n = unat (args ! 2)
      in case validate_debug_console_cap (sc_caller_table ctx) (decode_required_cap_handle (args ! 0)) of
           Inl e \<Rightarrow> Inl (SysCap e)
         | Inr _ \<Rightarrow>
             if n = 0 \<or> in_window (sc_user_window ctx) ptr n \<and>
                         span_ok (sc_translate ctx (sc_memory ctx)) False ptr (ptr + n)
             then Inr n else Inl FaultAddress)"

lemma sys_console_write_spec:
  assumes "frames_reachable (sc_translate ctx (sc_memory ctx))"
  shows "sys_console_write ctx args =
    (case console_verdict ctx args of
       Inl e \<Rightarrow> Some (ctx, syscall_err e)
     | Inr n \<Rightarrow> Some (ctx\<lparr>sc_console := sc_console ctx @ user_bytes ctx (unat (args ! 1)) 0 n\<rparr>,
                     with_payload 0 (of_nat n) syscall_ok))"
proof (cases "validate_debug_console_cap (sc_caller_table ctx) (decode_required_cap_handle (args ! 0))")
  case (Inl e)
  then show ?thesis by (simp add: sys_console_write_def console_verdict_def)
next
  case (Inr u)
  define ptr where "ptr = unat (args ! 1)"
  define n where "n = unat (args ! 2)"
  define ok where "ok = (n = 0 \<or> in_window (sc_user_window ctx) ptr n \<and>
      span_ok (sc_translate ctx (sc_memory ctx)) False ptr (ptr + n))"
  have v: "console_verdict ctx args = (if ok then Inr n else Inl FaultAddress)"
    using Inr by (simp add: console_verdict_def ok_def ptr_def n_def Let_def)
  show ?thesis
  proof (cases "0 < n \<and> \<not> in_window (sc_user_window ctx) ptr n")
    case True
    then have "user_window_validate (sc_user_window ctx) ptr n = Inl FaultAddress" "\<not> ok"
      by (simp_all add: window_validate_eq ok_def)
    then show ?thesis
      using Inr unfolding v sys_console_write_def Let_def ptr_def [symmetric] n_def [symmetric] by simp
  next
    case False
    then have w: "user_window_validate (sc_user_window ctx) ptr n = Inr ()"
      unfolding window_validate_ok by (auto simp: in_window_def)
    have p: "(if 0 < n then probe_user_pages (sc_translate ctx (sc_memory ctx)) ptr n False else Some (Inr ())) =
        Some (if ok then Inr () else Inl FaultAddress)"
    proof (cases "n = 0")
      case n: False
      then have "ptr + n \<le> usize_max" using False by (simp add: in_window_def)
      from probe_user_pages_spec [OF this] n False show ?thesis by (simp add: ok_def)
    qed (simp add: ok_def)
    show ?thesis
    proof (cases ok)
      case True
      have "console_write_loop ctx ptr n 0 (replicate CONSOLE_WRITE_CHUNK 0) =
          Some (ctx\<lparr>sc_console := sc_console ctx @ user_bytes ctx ptr 0 n\<rparr>, Inr ())"
        by (rule console_write_loop_spec)
          (use True False assms in \<open>auto simp: ok_def span_ok_def\<close>)
      then show ?thesis
        using Inr w p True unfolding v sys_console_write_def Let_def ptr_def [symmetric] n_def [symmetric]
        by simp
    next
      case False
      then show ?thesis
        using Inr w p unfolding v sys_console_write_def Let_def ptr_def [symmetric] n_def [symmetric]
        by simp
    qed
  qed
qed

section \<open>The state a call leaves\<close>

definition context_ok :: "syscall_context \<Rightarrow> bool" where
  "context_ok ctx \<longleftrightarrow>
     cap_wf (sc_caller_table ctx) \<and> queues_ok (sc_ep_arena ctx) (sc_queues ctx) \<and>
     frames_reachable (sc_translate ctx (sc_memory ctx))"

text \<open>What no call changes: the arena, the window, the address space and memory.\<close>

definition same_frame :: "syscall_context \<Rightarrow> syscall_context \<Rightarrow> bool" where
  "same_frame ctx ctx' \<longleftrightarrow>
     sc_ep_arena ctx' = sc_ep_arena ctx \<and> sc_user_window ctx' = sc_user_window ctx \<and>
     sc_translate ctx' = sc_translate ctx \<and> sc_memory ctx' = sc_memory ctx \<and>
     sc_has_current_task ctx' = sc_has_current_task ctx"

text \<open>What a refused call leaves: nothing a task can observe has changed.\<close>

definition untouched :: "syscall_context \<Rightarrow> syscall_context \<Rightarrow> bool" where
  "untouched ctx ctx' \<longleftrightarrow>
     sc_caller_table ctx' = sc_caller_table ctx \<and> sc_console ctx' = sc_console ctx \<and>
     same_states (sc_ep_arena ctx) (sc_queues ctx) (sc_queues ctx')"

definition call_ok :: "syscall_context \<Rightarrow> syscall_context \<Rightarrow> syscall_return \<Rightarrow> bool" where
  "call_ok ctx ctx' r \<longleftrightarrow>
     context_ok ctx' \<and> same_frame ctx ctx' \<and> length (sr_payload r) = 7 \<and>
     (sr_status r \<noteq> OK_STATUS \<longrightarrow> untouched ctx ctx' \<and> sr_payload r = replicate 7 0)"

lemma return_status [simp]:
  "sr_status (syscall_err e) = as_status e" "sr_status syscall_ok = OK_STATUS"
  "sr_status (with_payload i v r) = sr_status r" "sr_payload (syscall_err e) = replicate 7 0"
  "length (sr_payload (with_payload i v r)) = length (sr_payload r)" "length (sr_payload syscall_ok) = 7"
  by (simp_all add: syscall_err_def syscall_ok_def with_payload_def)

lemma one_payload: "with_payload 0 v syscall_ok = \<lparr>sr_status = 0, sr_payload = [v, 0, 0, 0, 0, 0, 0]\<rparr>"
  by (simp add: with_payload_def syscall_ok_def OK_STATUS_def numeral_eq_Suc)

lemma recv_return_status:
  "sr_status (encode_recv_outcome r) = OK_STATUS" "length (sr_payload (encode_recv_outcome r)) = 7"
  by (cases r; simp add: encode_recv_registers)+

lemma sys_send_ok:
  assumes "context_ok ctx"
  shows "\<exists>ctx' r. sys_send ctx args = Some (ctx', r) \<and> call_ok ctx ctx' r"
proof -
  let ?t = "sc_caller_table ctx" and ?q = "sc_queues ctx" and ?a = "sc_ep_arena ctx"
  let ?c = "decode_required_cap_handle (args ! 0)" and ?x = "decode_cap_handle (args ! 5)"
  have ok: "cap_wf ?t" "queues_ok ?a ?q" using assms by (simp_all add: context_ok_def)
  show ?thesis
  proof (cases "send_verdict ?a ?q ?c ?t ?x")
    case (Inl e)
    then obtain q' where "ipc_send ?a ?q ?c ?t (decode_send_message args) ?x = Some ((q', ?t), Inl e)"
        "same_states ?a ?q q'"
      using ipc_send_spec [OF ok, where ep_cap = ?c and transfer = ?x and msg = "decode_send_message args"]
      by auto
    then show ?thesis
      using assms same_states_ok
      by (auto simp: sys_send_def Let_def call_ok_def context_ok_def same_frame_def untouched_def)
  next
    case (Inr h)
    obtain t' cap st out where s: "cap_left ?t t' ?x cap"
        "ipc_send ?a ?q ?c ?t (decode_send_message args) ?x = Some ((set_ep ?q h st, t'), Inr out)"
      by (rule ipc_send_ok [OF ok Inr, where msg = "decode_send_message args"]) (rule that)
    have "queues_ok ?a (set_ep ?q h st)" using ok(2) send_verdict_Inr [OF Inr] by (intro set_ep_ok) auto
    then show ?thesis
      using s(2) cap_left_wf [OF ok(1) s(1)] assms
      by (auto simp: sys_send_def Let_def call_ok_def context_ok_def same_frame_def)
  qed
qed

lemma sys_recv_ok:
  assumes "context_ok ctx"
  shows "\<exists>ctx' r. sys_recv ctx args = Some (ctx', r) \<and> call_ok ctx ctx' r"
proof -
  let ?t = "sc_caller_table ctx" and ?q = "sc_queues ctx" and ?a = "sc_ep_arena ctx"
  let ?c = "decode_required_cap_handle (args ! 0)"
  have ok: "cap_wf ?t" "queues_ok ?a ?q" using assms by (simp_all add: context_ok_def)
  show ?thesis
  proof (cases "recv_verdict ?a ?q ?c ?t")
    case (Inl e)
    then obtain q' where "ipc_recv ?a ?q ?c ?t = Some ((q', ?t), Inl e)" "same_states ?a ?q q'"
      using ipc_recv_spec [OF ok, where ep_cap = ?c] by auto
    then show ?thesis
      using assms same_states_ok
      by (auto simp: sys_recv_def Let_def call_ok_def context_ok_def same_frame_def untouched_def)
  next
    case (Inr h)
    have set: "queues_ok ?a (set_ep ?q h st)" for st
      using ok(2) recv_verdict_Inr [OF Inr] by (intro set_ep_ok) auto
    obtain st t' r where r: "ipc_recv ?a ?q ?c ?t = Some ((set_ep ?q h st, t'), Inr r)" "cap_wf t'"
    proof (cases "parked (ep_state ?q h)")
      case None
      then show ?thesis using ipc_recv_ok(1) [OF ok Inr] ok(1) that by blast
    next
      case (Some mc)
      then obtain t' x where "cap_arrived ?t t' (snd mc) x"
          "ipc_recv ?a ?q ?c ?t = Some ((set_ep ?q h Idle, t'), Inr (Received (fst mc) x))"
        using ipc_recv_ok(2) [OF ok Inr, of "fst mc" "snd mc"] by auto
      then show ?thesis using cap_arrived_wf [OF ok(1)] that by blast
    qed
    then show ?thesis
      using set assms
      by (auto simp: sys_recv_def Let_def call_ok_def context_ok_def same_frame_def recv_return_status)
  qed
qed

lemma sys_console_write_ok:
  assumes "context_ok ctx"
  shows "\<exists>ctx' r. sys_console_write ctx args = Some (ctx', r) \<and> call_ok ctx ctx' r"
proof -
  have reach: "frames_reachable (sc_translate ctx (sc_memory ctx))" using assms by (simp add: context_ok_def)
  have "same_states (sc_ep_arena ctx) (sc_queues ctx) (sc_queues ctx)"
    using assms by (intro same_states_refl) (simp add: context_ok_def)
  then show ?thesis
    unfolding sys_console_write_spec [OF reach]
    using assms
    by (cases "console_verdict ctx args") (simp_all add: call_ok_def context_ok_def same_frame_def untouched_def)
qed

lemma dispatch_ok:
  assumes "context_ok ctx"
  shows "\<exists>ctx' eff. dispatch debug ctx args = Some (ctx', eff) \<and>
    (case eff of
       Resume r \<Rightarrow> call_ok ctx ctx' r
     | Reschedule \<Rightarrow> sc_has_current_task ctx \<and> ctx' = ctx
     | Terminate code \<Rightarrow> sc_has_current_task ctx \<and> ctx' = ctx \<and> code = sa_args args ! 0)"
proof -
  have err: "call_ok ctx ctx (syscall_err e)" for e
    using assms same_states_refl
    by (simp add: call_ok_def same_frame_def untouched_def context_ok_def)
  have lift: "\<exists>ctx' eff. map_option (map_prod id Resume) f = Some (ctx', eff) \<and>
      (case eff of Resume r \<Rightarrow> call_ok ctx ctx' r | _ \<Rightarrow> P eff ctx')"
    if "\<exists>ctx' r. f = Some (ctx', r) \<and> call_ok ctx ctx' r" for f P
    using that by fastforce
  show ?thesis
  proof (cases "syscall_decode debug (sa_number args)")
    case None
    then show ?thesis using err by (simp add: dispatch_def)
  next
    case (Some n)
    show ?thesis
    proof (cases n)
      case SysSend
      obtain ctx' r where "sys_send ctx (sa_args args) = Some (ctx', r)" "call_ok ctx ctx' r"
        using sys_send_ok [OF assms] by blast
      then show ?thesis using Some SysSend by (simp add: dispatch_def)
    next
      case SysRecv
      obtain ctx' r where "sys_recv ctx (sa_args args) = Some (ctx', r)" "call_ok ctx ctx' r"
        using sys_recv_ok [OF assms] by blast
      then show ?thesis using Some SysRecv by (simp add: dispatch_def)
    next
      case SysConsoleWrite
      obtain ctx' r where "sys_console_write ctx (sa_args args) = Some (ctx', r)" "call_ok ctx ctx' r"
        using sys_console_write_ok [OF assms] by blast
      then show ?thesis using Some SysConsoleWrite by (simp add: dispatch_def)
    next
      case SysTaskYield
      then show ?thesis using Some err by (cases "sc_has_current_task ctx") (simp_all add: dispatch_def)
    next
      case SysTaskExit
      then show ?thesis using Some err by (cases "sc_has_current_task ctx") (simp_all add: dispatch_def)
    qed
  qed
qed

section \<open>Properties\<close>

text \<open>
  C32: Every system call is total and an error means nothing happened. In a
  well-formed context, whatever the number and the six argument words, dispatch
  returns without a panic and leaves the context well formed; it never changes
  the endpoint arena, the window, the address space or memory. A status word
  other than success comes with the caller's table, the console and the state
  of every live endpoint unchanged and with a zero payload; a reschedule or a
  termination is directed only at a running task and changes nothing itself.
\<close>

theorem dispatch_total_and_fail_safe:
  assumes "context_ok ctx"
  shows "\<exists>ctx' eff. dispatch debug ctx args = Some (ctx', eff) \<and>
    (case eff of
       Resume r \<Rightarrow> call_ok ctx ctx' r
     | Reschedule \<Rightarrow> sc_has_current_task ctx \<and> ctx' = ctx
     | Terminate code \<Rightarrow> sc_has_current_task ctx \<and> ctx' = ctx \<and> code = sa_args args ! 0)"
  by (rule dispatch_ok [OF assms])

text \<open>The context of the instances: the IPC demonstration seen by one task.\<close>

definition demo_context :: syscall_context where
  "demo_context =
     \<lparr>sc_ep_arena = demo_arena, sc_queues = ipc_queues_new, sc_caller_table = demo_table,
      sc_console = [], sc_user_window = demo_window, sc_translate = demo_translator,
      sc_memory = demo_memory, sc_has_current_task = False\<rparr>"

lemma demo_context_ok: "context_ok demo_context"
  by (simp add: context_ok_def demo_context_def demo_table_wf demo_queues_ok demo_reachable)

theorem dispatch_total_and_fail_safe_witness:
  "\<exists>ctx' r. dispatch True demo_context \<lparr>sa_number = 1, sa_args = [0, 0, 0, 0, 0, NULL_CAP_HANDLE]\<rparr> =
     Some (ctx', Resume r) \<and> call_ok demo_context ctx' r"
proof -
  obtain ctx' eff where d: "dispatch True demo_context \<lparr>sa_number = 1, sa_args = [0, 0, 0, 0, 0, NULL_CAP_HANDLE]\<rparr> =
      Some (ctx', eff)"
    "case eff of Resume r \<Rightarrow> call_ok demo_context ctx' r
     | Reschedule \<Rightarrow> sc_has_current_task demo_context \<and> ctx' = demo_context
     | Terminate code \<Rightarrow> sc_has_current_task demo_context \<and> ctx' = demo_context \<and>
         code = sa_args \<lparr>sa_number = 1, sa_args = [0, 0, 0, 0, 0, NULL_CAP_HANDLE]\<rparr> ! 0"
    using dispatch_total_and_fail_safe [OF demo_context_ok] by blast
  then show ?thesis by (cases eff) (auto simp: demo_context_def)
qed

text \<open>
  A console write emits the whole user buffer or nothing. A caller without a
  debug-console capability carrying CONSOLE_WRITE gets the capability error; a
  buffer outside the window or touching a page without the USER flag gets a
  fault; in both cases the console is untouched. Otherwise exactly the bytes of
  the user buffer are appended to the console, however many chunks that takes,
  and the call reports their number; nothing else changes.
\<close>

theorem console_write_all_or_nothing:
  assumes "frames_reachable (sc_translate ctx (sc_memory ctx))"
  shows "sys_console_write ctx args =
    (case console_verdict ctx args of
       Inl e \<Rightarrow> Some (ctx, syscall_err e)
     | Inr n \<Rightarrow> Some (ctx\<lparr>sc_console := sc_console ctx @ user_bytes ctx (unat (args ! 1)) 0 n\<rparr>,
                     with_payload 0 (of_nat n) syscall_ok))"
  by (rule sys_console_write_spec [OF assms])

text \<open>A table with one console capability, and a task that writes two bytes
  across its page boundary.\<close>

definition console_table :: cap_table where
  "console_table =
     cap_table_new\<lparr>ct_slots := (ct_slots cap_table_new)[0 :=
        \<lparr>cs_entry = Some \<lparr>se_capability = \<lparr>cap_rights = rights_CONSOLE_WRITE, cap_object = CapDebugConsole\<rparr>,
                         se_parent = None, se_first_child = None, se_next_sibling = None, se_depth = 0\<rparr>,
         cs_generation = 0, cs_next_free = None\<rparr>]\<rparr>"

lemma console_table_lookup:
  "cap_lookup console_table \<lparr>ch_index = 0, ch_generation = 0\<rparr> =
     Inr \<lparr>cap_rights = rights_CONSOLE_WRITE, cap_object = CapDebugConsole\<rparr>"
  by (simp add: cap_lookup_def entry_of_def resolve_handle_def console_table_def cap_table_new_def
      CAP_TABLE_CAPACITY_def nth_opt_def)

theorem console_write_all_or_nothing_witness:
  "sys_console_write (demo_context\<lparr>sc_caller_table := console_table\<rparr>) [0, 0x10FFF, 2] =
     Some (demo_context\<lparr>sc_caller_table := console_table, sc_console := [7, 9]\<rparr>,
           \<lparr>sr_status = 0, sr_payload = [2, 0, 0, 0, 0, 0, 0]\<rparr>)"
proof -
  let ?ctx = "demo_context\<lparr>sc_caller_table := console_table\<rparr>"
  have reach: "frames_reachable (sc_translate ?ctx (sc_memory ?ctx))"
    by (simp add: demo_context_def demo_reachable)
  have span: "span_ok (demo_translator demo_memory) False 0x10FFF 0x11001"
    unfolding span_ok_def
  proof (intro allI impI, elim conjE)
    fix a :: nat assume "0x10FFF \<le> a" "a < 0x11001"
    then have "a = 0x10FFF \<or> a = 0x11000" by linarith
    then show "page_ok (demo_translator demo_memory) False (page_base a)"
      using demo_page by (auto simp: page_ok_def demo_translator_def mf_contains_def mf_USER_def)
  qed
  have cap: "validate_debug_console_cap console_table (decode_required_cap_handle 0) = Inr ()"
    by (simp add: validate_debug_console_cap_def decode_required_cap_handle_def console_table_lookup
        cap_kind_def rights_contains_def)
  have v: "console_verdict ?ctx [0, 0x10FFF, 2] = Inr 2"
    using span cap by (simp add: console_verdict_def demo_context_def demo_access)
  have "user_bytes ?ctx 0x10FFF 0 2 = [7, 9]"
    by (simp add: user_bytes_def demo_context_def demo_access demo_memory_def upt_rec [of 0]
        upt_rec [of "Suc _"] numeral_2_eq_2)
  then show ?thesis
    using console_write_all_or_nothing [OF reach, of "[0, 0x10FFF, 2]"] v
    by (simp add: demo_context_def one_payload)
qed

text \<open>
  A message crosses the kernel through registers alone. When a task's SEND
  call succeeds and the next call on the queues is a RECV by a task whose handle
  names the same endpoint, and it succeeds too, the receiver's return registers
  are the received marker, the sender's four message words, and a word that
  decodes to no handle exactly when the sender named none, and otherwise to a
  live handle of the receiver's table whose capability is the one the sender
  named; the sender's own handle is then dead.
\<close>

theorem message_crosses_registers:
  assumes ok: "context_ok snd_ctx" "context_ok rcv_ctx"
    and send: "sys_send snd_ctx sargs = Some (snd_ctx', sr)" "sr_status sr = OK_STATUS"
    and shared: "sc_ep_arena rcv_ctx = sc_ep_arena snd_ctx" "sc_queues rcv_ctx = sc_queues snd_ctx'"
    and same: "endpoint_named (sc_caller_table rcv_ctx) (decode_required_cap_handle (rargs ! 0)) =
               endpoint_named (sc_caller_table snd_ctx) (decode_required_cap_handle (sargs ! 0))"
    and recv: "sys_recv rcv_ctx rargs = Some (rcv_ctx', rr)" "sr_status rr = OK_STATUS"
  shows "\<exists>w. sr_payload rr = [RECV_OUTCOME_RECEIVED, sargs ! 1, sargs ! 2, sargs ! 3, sargs ! 4, w, 0] \<and>
    (case decode_cap_handle (sargs ! 5) of
       None \<Rightarrow> decode_cap_handle w = None \<and> sc_caller_table rcv_ctx' = sc_caller_table rcv_ctx
     | Some x \<Rightarrow> \<exists>k c. decode_cap_handle w = Some k \<and> cap_get (sc_caller_table snd_ctx) x = Some c \<and>
         cap_get (sc_caller_table snd_ctx') x = None \<and> cap_get (sc_caller_table rcv_ctx') k = Some c)"
proof -
  let ?a = "sc_ep_arena snd_ctx" and ?q = "sc_queues snd_ctx" and ?t = "sc_caller_table snd_ctx"
  let ?c = "decode_required_cap_handle (sargs ! 0)" and ?x = "decode_cap_handle (sargs ! 5)"
  let ?msg = "decode_send_message sargs"
  let ?u = "sc_caller_table rcv_ctx" and ?d = "decode_required_cap_handle (rargs ! 0)"
  have wf: "cap_wf ?t" "queues_ok ?a ?q" "cap_wf ?u" "queues_ok ?a (sc_queues snd_ctx')"
    using ok shared by (simp_all add: context_ok_def)
  obtain h where h: "send_verdict ?a ?q ?c ?t ?x = Inr h"
  proof (cases "send_verdict ?a ?q ?c ?t ?x")
    case (Inl e)
    then show ?thesis
      using ipc_send_spec [OF wf(1,2), where ep_cap = ?c and transfer = ?x and msg = ?msg] send
        as_status_nonzero [of "SysIpc e"]
      by (auto simp: sys_send_def Let_def)
  qed (rule that)
  obtain t' cap st out where s: "cap_left ?t t' ?x cap" "send_state (ep_state ?q h) ?msg cap = (st, out)"
      "ipc_send ?a ?q ?c ?t ?msg ?x = Some ((set_ep ?q h st, t'), Inr out)"
    by (rule ipc_send_ok [OF wf(1,2) h, where msg = ?msg]) (rule that)
  have snd': "sc_queues snd_ctx' = set_ep ?q h st" "sc_caller_table snd_ctx' = t'"
    using send(1) s(3) by (auto simp: sys_send_def Let_def)
  note hs = send_verdict_Inr [OF h]
  have live: "ep_live ?a h" using hs by simp
  have parked: "parked (ep_state (sc_queues snd_ctx') h) = Some (?msg, cap)"
    using s(2) ep_state_set_ep [OF wf(2) live live] unfolding snd'
    by (auto simp: send_state_def parked_def split: if_splits)
  obtain h' where h': "recv_verdict ?a (sc_queues snd_ctx') ?d ?u = Inr h'"
  proof (cases "recv_verdict ?a (sc_queues snd_ctx') ?d ?u")
    case (Inl e)
    then show ?thesis
      using ipc_recv_spec [OF wf(3,4), where ep_cap = ?d] recv shared as_status_nonzero [of "SysIpc e"]
      by (auto simp: sys_recv_def Let_def)
  qed (rule that)
  have "h' = h" using recv_verdict_Inr [OF h'] hs same by (auto dest!: validate_names)
  then obtain u' y where r: "cap_arrived ?u u' cap y"
      "ipc_recv ?a (sc_queues snd_ctx') ?d ?u = Some ((set_ep (sc_queues snd_ctx') h Idle, u'), Inr (Received ?msg y))"
    using ipc_recv_ok(2) [OF wf(3,4) h'] parked by metis
  have rcv': "sc_caller_table rcv_ctx' = u'" "rr = encode_recv_outcome (Received ?msg y)"
    using recv(1) r(2) shared by (auto simp: sys_recv_def Let_def)
  have words: "sr_payload rr = [RECV_OUTCOME_RECEIVED, sargs ! 1, sargs ! 2, sargs ! 3, sargs ! 4, encode_cap_handle y, 0]"
    unfolding rcv'(2) encode_recv_registers by (simp add: decode_send_message_def)
  show ?thesis
  proof (cases ?x)
    case None
    then have "y = None" "u' = ?u" using s(1) r(1) by (auto simp: cap_left_def cap_arrived_def)
    then show ?thesis using words None rcv'(1) decode_encode_handle [of None] by auto
  next
    case (Some x)
    obtain n :: cap_node where n: "cap = Some (cn_cap n)" "ok_part (cap_take ?t x) = Some (t', cn_cap n)"
      using s(1) unfolding Some cap_left_def option.case ok_part_eq_Some_iff by metis
    obtain k where k: "y = Some k" "ok_part (insert_root ?u (cn_cap n)) = Some (u', k)" "ch_index k < CAP_TABLE_CAPACITY"
      using r(1) n(1) by (auto simp: cap_arrived_def adds_node_def)
    note move = caps.move_exclusive [OF wf(1,3) n(2) k(2)]
    have "decode_cap_handle (encode_cap_handle y) = y"
      by (rule decode_encode_handle) (use k in \<open>auto simp: CAP_TABLE_CAPACITY_def\<close>)
    then show ?thesis
      using words move k(1) Some unfolding rcv'(1) snd'(2) by auto
  qed
qed

lemma demo_words:
  "decode_required_cap_handle 0 = demo_handle 0" "decode_cap_handle 2 = Some (demo_handle 2)"
  by (simp_all add: decode_required_cap_handle_def decode_cap_handle_def demo_handle_def
      NULL_CAP_HANDLE_def drop_bit_eq_div)

theorem message_crosses_registers_witness:
  "\<exists>ctx' sr rcv' rr w k.
     sys_send demo_context [0, 5, 1, 2, 3, 2] = Some (ctx', sr) \<and>
     sys_recv (demo_context\<lparr>sc_queues := sc_queues ctx'\<rparr>) [0, 0, 0, 0, 0, 0] = Some (rcv', rr) \<and>
     sr_payload rr = [0, 5, 1, 2, 3, w, 0] \<and> decode_cap_handle w = Some k \<and>
     cap_get (sc_caller_table ctx') (demo_handle 2) = None \<and>
     cap_get (sc_caller_table rcv') k = Some \<lparr>cap_rights = 0x18, cap_object = demo_object\<rparr>"
proof -
  let ?s = "[0, 5, 1, 2, 3, 2] :: 64 word list" and ?r = "[0, 0, 0, 0, 0, 0] :: 64 word list"
  have msg: "decode_send_message ?s = demo_msg" by (simp add: decode_send_message_def demo_msg_def)
  obtain t' cap where ipc: "ipc_send demo_arena ipc_queues_new (demo_handle 0) demo_table demo_msg (Some (demo_handle 2)) =
       Some ((set_ep ipc_queues_new demo_ep (SendPending demo_msg cap), t'), Inr Enqueued)"
    using ipc_send_spec [OF demo_table_wf demo_queues_ok, where ep_cap = "demo_handle 0" and
        transfer = "Some (demo_handle 2)" and msg = demo_msg]
    by (auto simp: demo_send_verdict demo_idle send_state_def)
  let ?q = "set_ep ipc_queues_new demo_ep (SendPending demo_msg cap)"
  let ?ctx = "demo_context\<lparr>sc_queues := ?q, sc_caller_table := t'\<rparr>"
  let ?rcv = "demo_context\<lparr>sc_queues := sc_queues ?ctx\<rparr>"
  have send: "sys_send demo_context ?s = Some (?ctx, with_payload 0 (encode_send_outcome Enqueued) syscall_ok)"
    using ipc by (simp add: sys_send_def demo_words msg demo_context_def)
  have qok: "queues_ok demo_arena ?q" using demo_queues_ok demo_ep_live by (rule set_ep_ok)
  have st: "ep_state ?q demo_ep = SendPending demo_msg cap"
    using ep_state_set_ep [OF demo_queues_ok demo_ep_live demo_ep_live] by simp
  have v: "recv_verdict demo_arena ?q (demo_handle 0) demo_table = Inr demo_ep"
    using st by (intro demo_recv_verdict) simp
  obtain t'' y where "ipc_recv demo_arena ?q (demo_handle 0) demo_table =
      Some ((set_ep ?q demo_ep Idle, t''), Inr (Received demo_msg y))"
    using ipc_recv_ok(2) [OF demo_table_wf qok v] st by (auto simp: parked_def)
  then obtain rcv' where recv: "sys_recv ?rcv ?r = Some (rcv', encode_recv_outcome (Received demo_msg y))"
    by (auto simp: sys_recv_def demo_words demo_context_def)
  have rok: "context_ok ?rcv"
    using qok by (simp add: context_ok_def demo_context_def demo_table_wf demo_reachable)
  have get: "cap_get demo_table (demo_handle 2) = Some \<lparr>cap_rights = 0x18, cap_object = demo_object\<rparr>"
    by (simp add: cap_get_node demo_nodes)
  have "\<exists>w. sr_payload (encode_recv_outcome (Received demo_msg y)) = [RECV_OUTCOME_RECEIVED, ?s ! 1, ?s ! 2, ?s ! 3, ?s ! 4, w, 0] \<and>
    (case decode_cap_handle (?s ! 5) of
       None \<Rightarrow> decode_cap_handle w = None \<and> sc_caller_table rcv' = sc_caller_table ?rcv
     | Some x \<Rightarrow> \<exists>k c. decode_cap_handle w = Some k \<and> cap_get (sc_caller_table demo_context) x = Some c \<and>
         cap_get (sc_caller_table ?ctx) x = None \<and> cap_get (sc_caller_table rcv') k = Some c)"
    by (rule message_crosses_registers [OF demo_context_ok rok send _ _ _ _ recv])
      (simp_all add: recv_return_status demo_context_def)
  then obtain w k where "sr_payload (encode_recv_outcome (Received demo_msg y)) = [0, 5, 1, 2, 3, w, 0]"
      "decode_cap_handle w = Some k" "cap_get t' (demo_handle 2) = None"
      "cap_get (sc_caller_table rcv') k = Some \<lparr>cap_rights = 0x18, cap_object = demo_object\<rparr>"
    using get by (auto simp: demo_words demo_context_def RECV_OUTCOME_RECEIVED_def)
  then show ?thesis using send recv by auto
qed

end
