(* ===== verification/Sched_Queue.thy ===== *)
theory Sched_Queue
  imports Sched
begin

text \<open>
  The interface of a bounded FIFO queue, what its clients may rely on, and the
  scheduler's ring buffer as an implementation of it.
\<close>

section \<open>Bounded FIFO queues\<close>

datatype 'a queue_op = Enq 'a | Deq
datatype 'a queue_out = Accepted | Rejected 'a | Front "'a option"

fun queue_run ::
    "('q \<Rightarrow> 'a \<Rightarrow> ('q \<times> ('a + unit)) option) \<Rightarrow> ('q \<Rightarrow> ('q \<times> 'a option) option) \<Rightarrow> 'q \<Rightarrow>
       'a queue_op list \<Rightarrow> ('q \<times> 'a queue_out list) option" where
  "queue_run enq deq q [] = Some (q, [])"
| "queue_run enq deq q (Enq x # ops) = do {
     (q1, r) \<leftarrow> enq q x;
     (q2, outs) \<leftarrow> queue_run enq deq q1 ops;
     Some (q2, (case r of Inl y \<Rightarrow> Rejected y | Inr _ \<Rightarrow> Accepted) # outs)
   }"
| "queue_run enq deq q (Deq # ops) = do {
     (q1, r) \<leftarrow> deq q;
     (q2, outs) \<leftarrow> queue_run enq deq q1 ops;
     Some (q2, Front r # outs)
   }"

text \<open>The specification: a list that never exceeds \<open>cap\<close>.\<close>

fun list_run :: "nat \<Rightarrow> 'a list \<Rightarrow> 'a queue_op list \<Rightarrow> 'a list \<times> 'a queue_out list" where
  "list_run cap xs [] = (xs, [])"
| "list_run cap xs (Enq x # ops) =
     (if length xs < cap then map_prod id (Cons Accepted) (list_run cap (xs @ [x]) ops)
      else map_prod id (Cons (Rejected x)) (list_run cap xs ops))"
| "list_run cap xs (Deq # ops) =
     (case xs of
        [] \<Rightarrow> map_prod id (Cons (Front None)) (list_run cap [] ops)
      | x # ys \<Rightarrow> map_prod id (Cons (Front (Some x))) (list_run cap ys ops))"

locale bounded_fifo =
  fixes items :: "'q \<Rightarrow> 'a list"
    and inv :: "'q \<Rightarrow> bool"
    and cap :: nat
    and enq :: "'q \<Rightarrow> 'a \<Rightarrow> ('q \<times> ('a + unit)) option"
    and deq :: "'q \<Rightarrow> ('q \<times> 'a option) option"
  assumes bound: "inv q \<Longrightarrow> length (items q) \<le> cap"
    and enq_room: "\<lbrakk>inv q; length (items q) < cap\<rbrakk> \<Longrightarrow>
      \<exists>q'. enq q x = Some (q', Inr ()) \<and> inv q' \<and> items q' = items q @ [x]"
    and enq_full: "\<lbrakk>inv q; length (items q) = cap\<rbrakk> \<Longrightarrow> enq q x = Some (q, Inl x)"
    and deq_empty: "\<lbrakk>inv q; items q = []\<rbrakk> \<Longrightarrow> deq q = Some (q, None)"
    and deq_front: "\<lbrakk>inv q; items q = x # xs\<rbrakk> \<Longrightarrow>
      \<exists>q'. deq q = Some (q', Some x) \<and> inv q' \<and> items q' = xs"
begin

lemma deq_cases:
  assumes "inv q"
  obtains (empty) "items q = []" "deq q = Some (q, None)"
    | (front) x q' where "items q = x # items q'" "deq q = Some (q', Some x)" "inv q'"
  using deq_empty [OF assms] deq_front [OF assms] by (cases "items q") force+

lemma enq_cases:
  assumes "inv q"
  obtains (room) q' where "length (items q) < cap" "enq q x = Some (q', Inr ())" "inv q'" "items q' = items q @ [x]"
    | (full) "length (items q) = cap" "enq q x = Some (q, Inl x)"
  using bound [OF assms] enq_room [OF assms, of x] enq_full [OF assms, of x] by (metis le_neq_implies_less)

lemma run_refines:
  assumes "inv q"
  shows "\<exists>q'. queue_run enq deq q ops = Some (q', snd (list_run cap (items q) ops)) \<and> inv q' \<and>
    items q' = fst (list_run cap (items q) ops)"
  using assms
proof (induction ops arbitrary: q)
  case (Cons w ops)
  show ?case
  proof (cases w)
    case (Enq x)
    from Cons.prems show ?thesis
    proof (cases rule: enq_cases [where x = x])
      case (room q')
      then show ?thesis using Enq Cons.IH [OF room(3)] by auto
    next
      case full
      then show ?thesis using Enq Cons.IH [OF Cons.prems] by auto
    qed
  next
    case Deq
    from Cons.prems show ?thesis
    proof (cases rule: deq_cases)
      case empty
      then show ?thesis using Deq Cons.IH [OF Cons.prems] by auto
    next
      case (front x q')
      then show ?thesis using Deq Cons.IH [OF front(3)] by auto
    qed
  qed
qed auto

end

section \<open>The ring buffer\<close>

definition ring_wf :: "nat \<Rightarrow> sched_queue \<Rightarrow> bool" where
  "ring_wf n q \<longleftrightarrow>
     0 < n \<and> n < 2 ^ 63 \<and> length (sq_buf q) = n \<and> sq_head q < n \<and> sq_len q \<le> n \<and>
     (\<forall>i < sq_len q. sq_buf q ! ((sq_head q + i) mod n) \<noteq> None)"

definition ring_items :: "sched_queue \<Rightarrow> task_handle list" where
  "ring_items q = map (\<lambda>i. the (sq_buf q ! ((sq_head q + i) mod length (sq_buf q)))) [0..<sq_len q]"

lemma length_ring_items [simp]: "length (ring_items q) = sq_len q"
  by (simp add: ring_items_def)

lemma nth_ring_items:
  "i < sq_len q \<Longrightarrow> ring_items q ! i = the (sq_buf q ! ((sq_head q + i) mod length (sq_buf q)))"
  by (simp add: ring_items_def)

lemma ring_index_inj:
  assumes "(h + i) mod n = (h + j) mod n" "i < n" "j < (n :: nat)"
  shows "i = j"
proof -
  have "i = j" if "(h + i) mod n = (h + j) mod n" "i \<le> j" "j < n" for i j :: nat
  proof -
    have "n dvd (h + j) - (h + i)" using that mod_eq_dvd_iff_nat [of "h + i" "h + j" n] by simp
    then have "n dvd j - i" by simp
    then show ?thesis using that by (auto dest: dvd_imp_le)
  qed
  from this [of i j] this [of j i] assms show ?thesis by (cases "i \<le> j") auto
qed

lemma ring_new: "\<lbrakk>0 < n; n < 2 ^ 63\<rbrakk> \<Longrightarrow> ring_wf n (sq_new n) \<and> ring_items (sq_new n) = []"
  by (simp add: ring_wf_def sq_new_def ring_items_def)

lemma ring_enqueue_full:
  assumes "ring_wf n q" "length (ring_items q) = n"
  shows "sq_enqueue q h = Some (q, Inl h)"
  using assms by (simp add: sq_enqueue_def ring_wf_def)

lemma ring_enqueue_room:
  assumes wf: "ring_wf n q" and room: "length (ring_items q) < n"
  shows "\<exists>q'. sq_enqueue q h = Some (q', Inr ()) \<and> ring_wf n q' \<and> ring_items q' = ring_items q @ [h]"
proof -
  let ?tail = "(sq_head q + sq_len q) mod n"
  let ?q = "q\<lparr>sq_buf := (sq_buf q)[?tail := Some h], sq_len := sq_len q + 1\<rparr>"
  have b: "0 < n" "n < 2 ^ 63" "length (sq_buf q) = n" "sq_head q < n" "sq_len q < n"
    using wf room by (auto simp: ring_wf_def)
  then have wrap: "wrapping_add (sq_head q) (sq_len q) = sq_head q + sq_len q"
      "wrapping_add (sq_len q) 1 = sq_len q + 1"
    by (simp_all add: wrapping_add_def)
  have tail: "?tail < n" using b by simp
  have eq: "sq_enqueue q h = Some (?q, Inr ())"
    using b tail by (simp add: sq_enqueue_def wrap put_at_def Let_def del: One_nat_def)
  have old: "(sq_buf ?q) ! ((sq_head q + i) mod n) = sq_buf q ! ((sq_head q + i) mod n)" if "i < sq_len q" for i
  proof -
    have "(sq_head q + i) mod n \<noteq> ?tail"
      using ring_index_inj [of "sq_head q" i n "sq_len q"] that b by auto
    then show ?thesis by simp
  qed
  have new: "(sq_buf ?q) ! ((sq_head q + sq_len q) mod n) = Some h" using tail b by simp
  have "ring_wf n ?q"
    using wf b old new by (auto simp: ring_wf_def less_Suc_eq)
  moreover have "ring_items ?q = ring_items q @ [h]"
    using old new b by (auto simp: ring_items_def)
  ultimately show ?thesis using eq by blast
qed

lemma ring_dequeue_empty: "ring_items q = [] \<Longrightarrow> sq_dequeue q = Some (q, None)"
  by (simp add: sq_dequeue_def ring_items_def)

lemma ring_dequeue_front:
  assumes wf: "ring_wf n q" and items: "ring_items q = h # hs"
  shows "\<exists>q'. sq_dequeue q = Some (q', Some h) \<and> ring_wf n q' \<and> ring_items q' = hs"
proof -
  let ?head = "(sq_head q + 1) mod n"
  let ?q = "\<lparr>sq_buf = (sq_buf q)[sq_head q := None], sq_head = ?head, sq_len = sq_len q - 1\<rparr>"
  have b: "0 < n" "n < 2 ^ 63" "length (sq_buf q) = n" "sq_head q < n" "sq_len q \<le> n"
    using wf by (auto simp: ring_wf_def)
  have pos: "0 < sq_len q" using items length_ring_items [of q] by auto
  have wrap: "wrapping_add (sq_head q) 1 = sq_head q + 1" "wrapping_sub (sq_len q) 1 = sq_len q - 1"
    using b pos by (simp_all add: wrapping_add_def wrapping_sub_def nat_diff_distrib)
  have h: "sq_buf q ! sq_head q = Some h"
    using wf pos b items nth_ring_items [OF pos] by (auto simp: ring_wf_def)
  have eq: "sq_dequeue q = Some (?q, Some h)"
    using b pos h by (simp add: sq_dequeue_def wrap put_at_def Let_def del: One_nat_def)
  have shift: "sq_buf ?q ! ((?head + i) mod n) = sq_buf q ! ((sq_head q + Suc i) mod n)"
    if "Suc i < sq_len q" for i
  proof -
    have "(?head + i) mod n = (sq_head q + Suc i) mod n" by (simp add: mod_simps)
    moreover have "(sq_head q + Suc i) mod n \<noteq> sq_head q"
      using ring_index_inj [of "sq_head q" "Suc i" n 0] that b by auto
    ultimately show ?thesis by simp
  qed
  have live: "sq_buf q ! ((sq_head q + Suc i) mod n) \<noteq> None" if "Suc i < sq_len q" for i
    using wf that unfolding ring_wf_def by blast
  have "sq_buf ?q ! ((sq_head ?q + i) mod n) \<noteq> None" if "i < sq_len ?q" for i
  proof -
    from that have "Suc i < sq_len q" by simp
    from shift [OF this] live [OF this] show ?thesis by simp
  qed
  then have "ring_wf n ?q" using b pos by (simp add: ring_wf_def)
  moreover have "ring_items ?q = hs"
  proof (rule nth_equalityI)
    show len: "length (ring_items ?q) = length hs" using items length_ring_items [of q] by simp
    fix i assume "i < length (ring_items ?q)"
    then have i: "Suc i < sq_len q" by simp
    have "ring_items ?q ! i = the (sq_buf q ! ((sq_head q + Suc i) mod n))"
      using shift [OF i] i b by (subst nth_ring_items) auto
    also have "\<dots> = ring_items q ! Suc i" using nth_ring_items [OF i] b by simp
    finally show "ring_items ?q ! i = hs ! i" using items by simp
  qed
  ultimately show ?thesis using eq by blast
qed

text \<open>The ready queue of the scheduler: the ring at its capacity.\<close>

interpretation ready: bounded_fifo ring_items "ring_wf TASK_ARENA_CAPACITY" TASK_ARENA_CAPACITY sq_enqueue sq_dequeue
proof
  fix q :: sched_queue and x xs
  show "ring_wf TASK_ARENA_CAPACITY q \<Longrightarrow> length (ring_items q) \<le> TASK_ARENA_CAPACITY"
    by (simp add: ring_wf_def)
  show "\<lbrakk>ring_wf TASK_ARENA_CAPACITY q; length (ring_items q) < TASK_ARENA_CAPACITY\<rbrakk> \<Longrightarrow>
      \<exists>q'. sq_enqueue q x = Some (q', Inr ()) \<and> ring_wf TASK_ARENA_CAPACITY q' \<and>
        ring_items q' = ring_items q @ [x]"
    by (rule ring_enqueue_room)
  show "\<lbrakk>ring_wf TASK_ARENA_CAPACITY q; length (ring_items q) = TASK_ARENA_CAPACITY\<rbrakk> \<Longrightarrow>
      sq_enqueue q x = Some (q, Inl x)"
    by (rule ring_enqueue_full)
  show "\<lbrakk>ring_wf TASK_ARENA_CAPACITY q; ring_items q = []\<rbrakk> \<Longrightarrow> sq_dequeue q = Some (q, None)"
    by (simp add: ring_dequeue_empty)
  show "\<lbrakk>ring_wf TASK_ARENA_CAPACITY q; ring_items q = x # xs\<rbrakk> \<Longrightarrow>
      \<exists>q'. sq_dequeue q = Some (q', Some x) \<and> ring_wf TASK_ARENA_CAPACITY q' \<and> ring_items q' = xs"
    by (rule ring_dequeue_front)
qed

text \<open>
  The ready queue is a bounded FIFO queue. Whatever sequence of enqueues and
  dequeues is applied to a fresh queue, no call panics, the answers are those
  of a list that rejects (and hands back) an element exactly when it holds
  sixteen, and the queue holds that list at the end; the ring's wrap-around is
  not observable.
\<close>

theorem ready_queue_is_fifo:
  "\<exists>q. queue_run sq_enqueue sq_dequeue (sq_new TASK_ARENA_CAPACITY) ops =
     Some (q, snd (list_run TASK_ARENA_CAPACITY [] ops)) \<and>
     ring_items q = fst (list_run TASK_ARENA_CAPACITY [] ops) \<and> sq_length q = length (ring_items q)"
proof -
  have new: "ring_wf TASK_ARENA_CAPACITY (sq_new TASK_ARENA_CAPACITY)"
      "ring_items (sq_new TASK_ARENA_CAPACITY) = []"
    using ring_new [of TASK_ARENA_CAPACITY] by (simp_all add: TASK_ARENA_CAPACITY_def)
  show ?thesis using ready.run_refines [OF new(1), of ops] unfolding new(2) by (auto simp: sq_length_def)
qed

end
