(* ===== verification/Sched_Props.thy ===== *)
theory Sched_Props
  imports Sched_Queue Ipc_Claims
begin

text \<open>
  The scheduler's invariant and what each operation does to it. A task is where
  its state says: queued exactly once, running, the idle fallback, blocked on an
  endpoint, or in none of these (exited or never registered). From it follow the
  facts the code asserts or relies on: a re-enqueue always finds room, the two
  slots of a context switch differ, and the Deadlock path undoes its own writes.
\<close>

section \<open>The invariant\<close>

definition queued :: "'c scheduler \<Rightarrow> task_handle list" where
  "queued s = ring_items (sd_ready s)"

definition bound_task :: "'c scheduler \<Rightarrow> task_handle \<Rightarrow> bool" where
  "bound_task s h \<longleftrightarrow> th_index h < TASK_ARENA_CAPACITY \<and> sd_task_handles s ! th_index h = Some h"

definition runnable :: "'c scheduler \<Rightarrow> task_handle \<Rightarrow> bool" where
  "runnable s h \<longleftrightarrow> bound_task s h \<and> sd_task_states s ! th_index h = TaskReady"

definition sized :: "'c scheduler \<Rightarrow> bool" where
  "sized s \<longleftrightarrow>
     length (sd_task_states s) = TASK_ARENA_CAPACITY \<and> length (sd_task_handles s) = TASK_ARENA_CAPACITY \<and>
     length (sd_as_handles s) = TASK_ARENA_CAPACITY \<and> length (sd_cap_tables s) = TASK_ARENA_CAPACITY \<and>
     length (sd_user_windows s) = TASK_ARENA_CAPACITY \<and> length (sd_contexts s) = TASK_ARENA_CAPACITY"

definition sched_wf :: "'c scheduler \<Rightarrow> bool" where
  "sched_wf s \<longleftrightarrow>
     sized s \<and> ring_wf TASK_ARENA_CAPACITY (sd_ready s) \<and> distinct (queued s) \<and>
     (\<forall>h \<in> set (queued s). runnable s h) \<and>
     (\<forall>h. sd_current s = Some h \<longrightarrow> runnable s h \<and> h \<notin> set (queued s)) \<and>
     (\<forall>h. sd_idle s = Some h \<longrightarrow> runnable s h \<and> h \<notin> set (queued s)) \<and>
     (\<forall>i ep. i < TASK_ARENA_CAPACITY \<longrightarrow> sd_task_states s ! i = TaskBlocked ep \<longrightarrow>
        (\<exists>h. sd_task_handles s ! i = Some h \<and> th_index h = i))"

lemma sched_new_wf: "sched_wf (sched_new cpu)"
  using ring_new [of TASK_ARENA_CAPACITY]
  by (simp add: sched_wf_def sched_new_def sized_def queued_def TASK_ARENA_CAPACITY_def)

lemma bound_task_inj: "\<lbrakk>bound_task s h; bound_task s k; th_index h = th_index k\<rbrakk> \<Longrightarrow> h = k"
  by (simp add: bound_task_def)

lemma sched_wfD:
  assumes "sched_wf s"
  shows "sized s" "ring_wf TASK_ARENA_CAPACITY (sd_ready s)" "distinct (queued s)"
    and "h \<in> set (queued s) \<Longrightarrow> runnable s h"
    and "sd_current s = Some h \<Longrightarrow> runnable s h \<and> h \<notin> set (queued s)"
    and "sd_idle s = Some h \<Longrightarrow> runnable s h \<and> h \<notin> set (queued s)"
    and "\<lbrakk>i < TASK_ARENA_CAPACITY; sd_task_states s ! i = TaskBlocked ep\<rbrakk> \<Longrightarrow>
      \<exists>h. sd_task_handles s ! i = Some h \<and> th_index h = i"
  using assms by (auto simp: sched_wf_def)

lemma sched_wfI:
  assumes "sized s" "ring_wf TASK_ARENA_CAPACITY (sd_ready s)" "distinct (queued s)"
    and "\<And>h. h \<in> set (queued s) \<Longrightarrow> runnable s h"
    and "\<And>h. sd_current s = Some h \<Longrightarrow> runnable s h \<and> h \<notin> set (queued s)"
    and "\<And>h. sd_idle s = Some h \<Longrightarrow> runnable s h \<and> h \<notin> set (queued s)"
    and "\<And>i ep. \<lbrakk>i < TASK_ARENA_CAPACITY; sd_task_states s ! i = TaskBlocked ep\<rbrakk> \<Longrightarrow>
      \<exists>h. sd_task_handles s ! i = Some h \<and> th_index h = i"
  shows "sched_wf s"
  using assms unfolding sched_wf_def by blast

lemma queued_simps [simp]:
  "queued (s\<lparr>sd_ready := q\<rparr>) = ring_items q" "queued (s\<lparr>sd_current := c\<rparr>) = queued s"
  "queued (s\<lparr>sd_idle := c\<rparr>) = queued s" "queued (s\<lparr>sd_task_states := xs\<rparr>) = queued s"
  "queued (s\<lparr>sd_task_handles := hs\<rparr>) = queued s" "queued (s\<lparr>sd_as_handles := as\<rparr>) = queued s"
  "queued (s\<lparr>sd_cap_tables := ts\<rparr>) = queued s" "queued (s\<lparr>sd_user_windows := ws\<rparr>) = queued s"
  "queued (s\<lparr>sd_contexts := cs\<rparr>) = queued s"
  by (simp_all add: queued_def)

lemma runnable_simps [simp]:
  "runnable (s\<lparr>sd_ready := q\<rparr>) = runnable s" "runnable (s\<lparr>sd_current := c\<rparr>) = runnable s"
  "runnable (s\<lparr>sd_idle := c\<rparr>) = runnable s" "runnable (s\<lparr>sd_contexts := cs\<rparr>) = runnable s"
  "runnable (s\<lparr>sd_as_handles := as\<rparr>) = runnable s" "runnable (s\<lparr>sd_cap_tables := ts\<rparr>) = runnable s"
  "runnable (s\<lparr>sd_user_windows := ws\<rparr>) = runnable s"
  by (simp_all add: runnable_def bound_task_def fun_eq_iff)

lemma sized_simps [simp]:
  "sized (s\<lparr>sd_ready := q\<rparr>) = sized s" "sized (s\<lparr>sd_current := c\<rparr>) = sized s"
  "sized (s\<lparr>sd_idle := c\<rparr>) = sized s" "sized (s\<lparr>sd_task_states := (sd_task_states s)[i := st]\<rparr>) = sized s"
  by (simp_all add: sized_def)

lemma runnable_index: "runnable s h \<Longrightarrow> th_index h < TASK_ARENA_CAPACITY"
  by (simp add: runnable_def bound_task_def)

text \<open>A bound task that is not queued leaves a free place in the queue.\<close>

lemma room_for:
  assumes "distinct hs" "\<forall>k \<in> set hs. bound_task s k" "bound_task s h" "h \<notin> set hs"
  shows "length hs < TASK_ARENA_CAPACITY"
proof -
  have inj: "inj_on th_index (set (h # hs))"
    by (rule inj_onI) (use assms in \<open>auto dest: bound_task_inj\<close>)
  have "length (h # hs) = card (set (h # hs))" using assms by (simp add: distinct_card)
  also have "\<dots> = card (th_index ` set (h # hs))" by (rule card_image [OF inj, symmetric])
  also have "\<dots> \<le> card {..<TASK_ARENA_CAPACITY}"
    by (rule card_mono) (use assms in \<open>auto simp: bound_task_def\<close>)
  finally show ?thesis by simp
qed

section \<open>Helpers\<close>

lemma put_at_ok: "i < length xs \<Longrightarrow> put_at xs i v = Some (xs[i := v])"
  by (simp add: put_at_def)

lemma make_current_eq:
  assumes "sized s" "runnable s h"
  shows "make_current s h = Some (s\<lparr>sd_current := Some h\<rparr>)"
proof -
  have "th_index h < length (sd_task_states s)" "sd_task_states s ! th_index h = TaskReady"
    using assms by (simp_all add: sized_def runnable_def bound_task_def)
  then have "make_current s h = Some (s\<lparr>sd_task_states := sd_task_states s, sd_current := Some h\<rparr>)"
    using list_update_id [of "sd_task_states s" "th_index h"]
    by (simp add: make_current_def put_at_ok)
  then show ?thesis by simp
qed

lemma enqueue_ready_eq:
  assumes "ring_wf TASK_ARENA_CAPACITY (sd_ready s)" "length (queued s) < TASK_ARENA_CAPACITY"
  shows "\<exists>q. enqueue_ready s h = Some (s\<lparr>sd_ready := q\<rparr>) \<and> ring_wf TASK_ARENA_CAPACITY q \<and>
    ring_items q = queued s @ [h]"
  using ready.enq_room [OF assms(1), of h] assms(2) by (auto simp: enqueue_ready_def queued_def)

lemma switch_between_eq:
  assumes "sized s" "i < TASK_ARENA_CAPACITY" "j < TASK_ARENA_CAPACITY"
  shows "switch_between s i j = Some \<lparr>sw_save = Some i, sw_restore = j,
    sw_activate = address_space_activation_target (sd_as_handles s ! i) (sd_as_handles s ! j)\<rparr>"
  using assms by (simp add: switch_between_def sized_def)

text \<open>Changing the queue and the running task among runnable tasks keeps the invariant.\<close>

lemma sched_wf_requeue:
  assumes "sched_wf s" "ring_wf TASK_ARENA_CAPACITY q" "distinct (ring_items q)"
    and "\<forall>h \<in> set (ring_items q). runnable s h \<and> sd_idle s \<noteq> Some h"
    and "\<forall>h. c = Some h \<longrightarrow> runnable s h \<and> h \<notin> set (ring_items q)"
  shows "sched_wf (s\<lparr>sd_ready := q, sd_current := c\<rparr>)"
  by (rule sched_wfI) (use assms sched_wfD [OF assms(1)] in auto)

section \<open>Yielding\<close>

lemma yield_now_spec:
  assumes wf: "sched_wf s" and c: "sd_current s = Some c"
  shows "\<exists>q. ring_wf TASK_ARENA_CAPACITY q \<and>
    (case queued s of
       [] \<Rightarrow> ring_items q = [] \<and> yield_now s = Some (s\<lparr>sd_ready := q\<rparr>, Inr None)
     | h # hs \<Rightarrow> ring_items q = hs @ (if sd_idle s = Some c then [] else [c]) \<and>
         yield_now s = Some (s\<lparr>sd_ready := q, sd_current := Some h\<rparr>,
           Inr (Some \<lparr>sw_save = Some (th_index c), sw_restore = th_index h,
             sw_activate = address_space_activation_target (sd_as_handles s ! th_index c)
                             (sd_as_handles s ! th_index h)\<rparr>)))"
proof -
  note D = sched_wfD [OF wf]
  have run: "runnable s c" "c \<notin> set (queued s)" using D(5) [OF c] by auto
  have idx: "th_index c < length (sd_task_states s)" "sd_task_states s ! th_index c = TaskReady"
    using run(1) D(1) by (simp_all add: runnable_def bound_task_def sized_def)
  have same: "s\<lparr>sd_task_states := (sd_task_states s)[th_index c := TaskReady]\<rparr> = s"
    using list_update_id [of "sd_task_states s" "th_index c"] unfolding idx(2) by simp
  have switch: "make_current (s\<lparr>sd_ready := q\<rparr>) h = Some (s\<lparr>sd_ready := q, sd_current := Some h\<rparr>)"
      "switch_between (s\<lparr>sd_ready := q, sd_current := Some h\<rparr>) (th_index c) (th_index h) =
        Some \<lparr>sw_save = Some (th_index c), sw_restore = th_index h,
          sw_activate = address_space_activation_target (sd_as_handles s ! th_index c) (sd_as_handles s ! th_index h)\<rparr>"
    if "runnable s h" for q h
  proof -
    have "sized (s\<lparr>sd_ready := q\<rparr>)" "runnable (s\<lparr>sd_ready := q\<rparr>) h"
      using D(1) that by (simp_all add: sized_def runnable_def bound_task_def)
    from make_current_eq [OF this]
    show "make_current (s\<lparr>sd_ready := q\<rparr>) h = Some (s\<lparr>sd_ready := q, sd_current := Some h\<rparr>)" by simp
    have "sized (s\<lparr>sd_ready := q, sd_current := Some h\<rparr>)" using D(1) by (simp add: sized_def)
    from switch_between_eq [OF this runnable_index [OF run(1)] runnable_index [OF that]]
    show "switch_between (s\<lparr>sd_ready := q, sd_current := Some h\<rparr>) (th_index c) (th_index h) =
        Some \<lparr>sw_save = Some (th_index c), sw_restore = th_index h,
          sw_activate = address_space_activation_target (sd_as_handles s ! th_index c) (sd_as_handles s ! th_index h)\<rparr>"
      by simp
  qed
  show ?thesis
  proof (cases "sd_idle s = Some c")
    case idle: True
    from D(2) show ?thesis
    proof (cases rule: ready.deq_cases)
      case empty
      then have "yield_now s = Some (s\<lparr>sd_ready := sd_ready s\<rparr>, Inr None)"
        using c idle idx(1) same by (simp add: yield_now_def put_at_ok Let_def)
      then show ?thesis using empty D(2) by (intro exI [of _ "sd_ready s"]) (simp add: queued_def)
    next
      case (front h q')
      then have h: "runnable s h" "h \<noteq> c" using D(4) [of h] run(2) by (auto simp: queued_def)
      have "yield_now s = Some (s\<lparr>sd_ready := q', sd_current := Some h\<rparr>,
           Inr (Some \<lparr>sw_save = Some (th_index c), sw_restore = th_index h,
             sw_activate = address_space_activation_target (sd_as_handles s ! th_index c)
                             (sd_as_handles s ! th_index h)\<rparr>))"
        using c idle idx(1) same front(2) h(2) switch [OF h(1)]
        by (simp add: yield_now_def put_at_ok Let_def)
      then show ?thesis using front idle by (intro exI [of _ q']) (simp add: queued_def)
    qed
  next
    case regular: False
    have room: "length (queued s) < TASK_ARENA_CAPACITY"
      by (rule room_for [of _ s c]) (use D(3,4) run in \<open>auto simp: runnable_def\<close>)
    obtain q1 where q1: "enqueue_ready s c = Some (s\<lparr>sd_ready := q1\<rparr>)" "ring_wf TASK_ARENA_CAPACITY q1"
        "ring_items q1 = queued s @ [c]"
      using enqueue_ready_eq [OF D(2) room] by blast
    from q1(2) show ?thesis
    proof (cases rule: ready.deq_cases)
      case empty
      then show ?thesis using q1(3) by simp
    next
      case (front h q')
      show ?thesis
      proof (cases "queued s")
        case Nil
        then have "h = c" "ring_items q' = []" using front(1) q1(3) by auto
        then have "yield_now s = Some (s\<lparr>sd_ready := q'\<rparr>, Inr None)"
          using c regular idx(1) same q1(1) front(2) by (simp add: yield_now_def put_at_ok Let_def)
        then show ?thesis using Nil front(3) \<open>ring_items q' = []\<close> by auto
      next
        case (Cons k ks)
        then have h: "h = k" "ring_items q' = ks @ [c]" using front(1) q1(3) by auto
        then have k: "runnable s h" "h \<noteq> c" using D(4) [of h] run(2) Cons by auto
        have "yield_now s = Some (s\<lparr>sd_ready := q', sd_current := Some h\<rparr>,
           Inr (Some \<lparr>sw_save = Some (th_index c), sw_restore = th_index h,
             sw_activate = address_space_activation_target (sd_as_handles s ! th_index c)
                             (sd_as_handles s ! th_index h)\<rparr>))"
          using c regular idx(1) same q1(1) front(2) k(2) switch [OF k(1)]
          by (simp add: yield_now_def put_at_ok Let_def)
        then show ?thesis using Cons front(3) h regular by (intro exI [of _ q']) simp
      qed
    qed
  qed
qed

text \<open>Yielding is total, keeps the invariant, and never switches to itself.\<close>

lemma yield_now_ok:
  assumes wf: "sched_wf s"
  shows "\<exists>q c r. yield_now s = Some (s\<lparr>sd_ready := q, sd_current := c\<rparr>, r) \<and>
    sched_wf (s\<lparr>sd_ready := q, sd_current := c\<rparr>) \<and> (c = None \<longleftrightarrow> sd_current s = None) \<and>
    (case r of
       Inl e \<Rightarrow> e = NoCurrentTask \<and> sd_current s = None
     | Inr None \<Rightarrow> c = sd_current s
     | Inr (Some sw) \<Rightarrow> \<exists>i h. sw_save sw = Some i \<and> c = Some h \<and> sw_restore sw = th_index h \<and> i \<noteq> th_index h)"
proof (cases "sd_current s")
  case None
  then have "yield_now s = Some (s\<lparr>sd_ready := sd_ready s, sd_current := None\<rparr>, Inl NoCurrentTask)"
    by (simp add: yield_now_def)
  moreover have same: "s\<lparr>sd_ready := sd_ready s, sd_current := None\<rparr> = s" using None by (cases s) simp
  ultimately show ?thesis
    using wf None
    by (intro exI [of _ "sd_ready s"] exI [of _ None] exI [of _ "Inl NoCurrentTask"]) (simp only: same, simp)
next
  case (Some c)
  note D = sched_wfD [OF wf]
  have run: "runnable s c" "c \<notin> set (queued s)" using D(5) [OF Some] by auto
  obtain q where q: "ring_wf TASK_ARENA_CAPACITY q"
    "case queued s of
       [] \<Rightarrow> ring_items q = [] \<and> yield_now s = Some (s\<lparr>sd_ready := q\<rparr>, Inr None)
     | h # hs \<Rightarrow> ring_items q = hs @ (if sd_idle s = Some c then [] else [c]) \<and>
         yield_now s = Some (s\<lparr>sd_ready := q, sd_current := Some h\<rparr>,
           Inr (Some \<lparr>sw_save = Some (th_index c), sw_restore = th_index h,
             sw_activate = address_space_activation_target (sd_as_handles s ! th_index c)
                             (sd_as_handles s ! th_index h)\<rparr>))"
    using yield_now_spec [OF wf Some] by blast
  show ?thesis
  proof (cases "queued s")
    case Nil
    then have y: "ring_items q = []" "yield_now s = Some (s\<lparr>sd_ready := q, sd_current := Some c\<rparr>, Inr None)"
      using q(2) Some by auto
    have "sched_wf (s\<lparr>sd_ready := q, sd_current := Some c\<rparr>)"
      by (rule sched_wf_requeue [OF wf q(1)]) (use y(1) run in auto)
    then show ?thesis using y(2) Some by (intro exI [of _ q] exI [of _ "Some c"] exI [of _ "Inr None"]) simp
  next
    case (Cons h hs)
    then have y: "ring_items q = hs @ (if sd_idle s = Some c then [] else [c])"
        "yield_now s = Some (s\<lparr>sd_ready := q, sd_current := Some h\<rparr>,
           Inr (Some \<lparr>sw_save = Some (th_index c), sw_restore = th_index h,
             sw_activate = address_space_activation_target (sd_as_handles s ! th_index c)
                             (sd_as_handles s ! th_index h)\<rparr>))"
      using q(2) by auto
    have h: "runnable s h" using D(4) Cons by simp
    have ne: "th_index c \<noteq> th_index h"
      using run h Cons by (auto simp: runnable_def dest: bound_task_inj)
    have "sched_wf (s\<lparr>sd_ready := q, sd_current := Some h\<rparr>)"
    proof (rule sched_wf_requeue [OF wf q(1)])
      show "distinct (ring_items q)" using y(1) D(3) Cons run(2) by auto
      show "\<forall>k \<in> set (ring_items q). runnable s k \<and> sd_idle s \<noteq> Some k"
        using y(1) D(4,6) Cons run by (auto split: if_splits)
      show "\<forall>k. Some h = Some k \<longrightarrow> runnable s k \<and> k \<notin> set (ring_items q)"
        using y(1) D(3) h Cons run(2) by (auto split: if_splits)
    qed
    then show ?thesis
      using y(2) ne Some
      by (intro exI [of _ q] exI [of _ "Some h"]
          exI [of _ "Inr (Some \<lparr>sw_save = Some (th_index c), sw_restore = th_index h,
             sw_activate = address_space_activation_target (sd_as_handles s ! th_index c)
                             (sd_as_handles s ! th_index h)\<rparr>)"]) simp
  qed
qed

section \<open>Waking a receiver\<close>

definition blocked_on :: "'c scheduler \<Rightarrow> endpoint_handle \<Rightarrow> nat \<Rightarrow> bool" where
  "blocked_on s ep i \<longleftrightarrow> i < TASK_ARENA_CAPACITY \<and> sd_task_states s ! i = TaskBlocked ep"

lemma wake_wf:
  assumes wf: "sched_wf s" and b: "blocked_on s ep i"
  shows "\<exists>h q. sd_task_handles s ! i = Some h \<and> th_index h = i \<and>
    enqueue_ready (s\<lparr>sd_task_states := (sd_task_states s)[i := TaskReady]\<rparr>) h =
      Some (s\<lparr>sd_task_states := (sd_task_states s)[i := TaskReady], sd_ready := q\<rparr>) \<and>
    ring_items q = queued s @ [h] \<and>
    sched_wf (s\<lparr>sd_task_states := (sd_task_states s)[i := TaskReady], sd_ready := q\<rparr>)"
proof -
  note D = sched_wfD [OF wf]
  have i: "i < TASK_ARENA_CAPACITY" "sd_task_states s ! i = TaskBlocked ep" using b by (auto simp: blocked_on_def)
  obtain h where h: "sd_task_handles s ! i = Some h" "th_index h = i" using D(7) i by blast
  let ?s = "s\<lparr>sd_task_states := (sd_task_states s)[i := TaskReady]\<rparr>"
  have bound: "bound_task s h" using h i(1) by (simp add: bound_task_def)
  have not_run: "\<not> runnable s h" using h i(2) by (simp add: runnable_def)
  then have fresh: "h \<notin> set (queued s)" "sd_current s \<noteq> Some h" "sd_idle s \<noteq> Some h"
    using D(4,5,6) by blast+
  have room: "length (queued s) < TASK_ARENA_CAPACITY"
  proof (rule room_for [OF D(3) _ bound fresh(1)])
    show "\<forall>k \<in> set (queued s). bound_task s k" using D(4) by (auto simp: runnable_def)
  qed
  obtain q where q: "enqueue_ready ?s h = Some (?s\<lparr>sd_ready := q\<rparr>)" "ring_wf TASK_ARENA_CAPACITY q"
      "ring_items q = queued s @ [h]"
    using enqueue_ready_eq [of ?s h] D(2) room by (auto simp: queued_def)
  have run: "runnable ?s k" if "runnable s k \<or> k = h" for k
  proof (cases "k = h")
    case True
    then show ?thesis using bound D(1) h i(1) by (simp add: runnable_def bound_task_def sized_def)
  next
    case False
    then have "th_index k \<noteq> i" "runnable s k" using that bound h by (auto simp: runnable_def dest: bound_task_inj)
    then show ?thesis by (simp add: runnable_def bound_task_def)
  qed
  have blocked: "\<exists>k. sd_task_handles s ! j = Some k \<and> th_index k = j"
    if "j < TASK_ARENA_CAPACITY" "sd_task_states ?s ! j = TaskBlocked e" for j e
    using that D(7) [of j e] D(1) i(1) by (auto simp: nth_update_any sized_def split: if_splits)
  have "sched_wf (?s\<lparr>sd_ready := q\<rparr>)"
  proof (rule sched_wfI)
    show "k \<in> set (queued (?s\<lparr>sd_ready := q\<rparr>)) \<Longrightarrow> runnable (?s\<lparr>sd_ready := q\<rparr>) k" for k
      using q(3) D(4) [of k] run [of k] by auto
    show "sd_current (?s\<lparr>sd_ready := q\<rparr>) = Some k \<Longrightarrow>
        runnable (?s\<lparr>sd_ready := q\<rparr>) k \<and> k \<notin> set (queued (?s\<lparr>sd_ready := q\<rparr>))" for k
      using q(3) D(5) [of k] run [of k] fresh by auto
    show "sd_idle (?s\<lparr>sd_ready := q\<rparr>) = Some k \<Longrightarrow>
        runnable (?s\<lparr>sd_ready := q\<rparr>) k \<and> k \<notin> set (queued (?s\<lparr>sd_ready := q\<rparr>))" for k
      using q(3) D(6) [of k] run [of k] fresh by auto
  qed (use D(1,2,3) q(2,3) fresh blocked in auto)
  then show ?thesis using h q by auto
qed

lemma unblock_scan_spec:
  assumes wf: "sched_wf s" and idx: "\<forall>i \<in> set js. i < TASK_ARENA_CAPACITY"
  shows "case find (\<lambda>i. sd_task_states s ! i = TaskBlocked ep) js of
      None \<Rightarrow> unblock_scan s ep js = Some s
    | Some i \<Rightarrow> \<exists>h q. sd_task_handles s ! i = Some h \<and> th_index h = i \<and>
        ring_items q = queued s @ [h] \<and>
        unblock_scan s ep js = Some (s\<lparr>sd_task_states := (sd_task_states s)[i := TaskReady], sd_ready := q\<rparr>) \<and>
        sched_wf (s\<lparr>sd_task_states := (sd_task_states s)[i := TaskReady], sd_ready := q\<rparr>)"
  using idx
proof (induction js)
  case (Cons i js)
  have i: "i < length (sd_task_states s)" "i < length (sd_task_handles s)" "i < TASK_ARENA_CAPACITY"
    using Cons.prems sched_wfD(1) [OF wf] by (auto simp: sized_def)
  show ?case
  proof (cases "sd_task_states s ! i = TaskBlocked ep")
    case True
    then have "blocked_on s ep i" using i(3) by (simp add: blocked_on_def)
    then obtain h q where "sd_task_handles s ! i = Some h" "th_index h = i"
        "enqueue_ready (s\<lparr>sd_task_states := (sd_task_states s)[i := TaskReady]\<rparr>) h =
          Some (s\<lparr>sd_task_states := (sd_task_states s)[i := TaskReady], sd_ready := q\<rparr>)"
        "ring_items q = queued s @ [h]"
        "sched_wf (s\<lparr>sd_task_states := (sd_task_states s)[i := TaskReady], sd_ready := q\<rparr>)"
      using wake_wf [OF wf] by blast
    then show ?thesis using True i by (auto simp: put_at_ok)
  next
    case False
    then have "unblock_scan s ep (i # js) = unblock_scan s ep js"
        "find (\<lambda>i. sd_task_states s ! i = TaskBlocked ep) (i # js) = find (\<lambda>i. sd_task_states s ! i = TaskBlocked ep) js"
      using i by simp_all
    moreover have "\<forall>i \<in> set js. i < TASK_ARENA_CAPACITY" using Cons.prems by simp
    ultimately show ?thesis using Cons.IH by (simp only: )
  qed
qed simp

lemma unblock_none:
  assumes "sched_wf s" "\<forall>i. \<not> blocked_on s ep i"
  shows "unblock_receiver_on s ep = Some s"
proof -
  have "find (\<lambda>i. sd_task_states s ! i = TaskBlocked ep) [0..<TASK_ARENA_CAPACITY] = None"
    using assms(2) by (auto simp: find_None_iff blocked_on_def)
  then show ?thesis
    using unblock_scan_spec [OF assms(1), where js = "[0..<TASK_ARENA_CAPACITY]" and ep = ep]
    by (simp add: unblock_receiver_on_def)
qed

text \<open>Some task is woken when one is blocked; with one waiter, it is that one.\<close>

lemma unblock_some:
  assumes "sched_wf s" "blocked_on s ep j"
  shows "\<exists>i h q. blocked_on s ep i \<and> sd_task_handles s ! i = Some h \<and> th_index h = i \<and>
    ring_items q = queued s @ [h] \<and>
    unblock_receiver_on s ep = Some (s\<lparr>sd_task_states := (sd_task_states s)[i := TaskReady], sd_ready := q\<rparr>) \<and>
    sched_wf (s\<lparr>sd_task_states := (sd_task_states s)[i := TaskReady], sd_ready := q\<rparr>)"
proof -
  obtain i where i: "find (\<lambda>i. sd_task_states s ! i = TaskBlocked ep) [0..<TASK_ARENA_CAPACITY] = Some i"
    using assms(2) by (cases "find (\<lambda>i. sd_task_states s ! i = TaskBlocked ep) [0..<TASK_ARENA_CAPACITY]")
      (auto simp: find_None_iff blocked_on_def)
  then have b: "blocked_on s ep i" by (auto simp: find_Some_iff blocked_on_def)
  show ?thesis
    using unblock_scan_spec [OF assms(1), where js = "[0..<TASK_ARENA_CAPACITY]" and ep = ep] i b
    by (auto simp: unblock_receiver_on_def)
qed

section \<open>Registration and start\<close>

text \<open>A slot that no queued, running or idle task occupies may be registered.\<close>

definition slot_free :: "'c scheduler \<Rightarrow> nat \<Rightarrow> bool" where
  "slot_free s i \<longleftrightarrow>
     i < TASK_ARENA_CAPACITY \<and>
     (\<forall>h. (h \<in> set (queued s) \<or> sd_current s = Some h \<or> sd_idle s = Some h) \<longrightarrow> th_index h \<noteq> i)"

lemma bind_task_eq:
  assumes "sized s" "th_index h < TASK_ARENA_CAPACITY"
  shows "bind_task s h ash =
    Some (s\<lparr>sd_task_states := (sd_task_states s)[th_index h := TaskReady],
            sd_task_handles := (sd_task_handles s)[th_index h := Some h],
            sd_as_handles := (sd_as_handles s)[th_index h := Some ash]\<rparr>)"
  using assms by (simp add: bind_task_def put_at_ok sized_def)

text \<open>The invariant after a registration, whatever it does to the fields that the
  invariant does not mention.\<close>

lemma bound_wf:
  assumes wf: "sched_wf s" and free: "slot_free s (th_index h)" and sized: "sized s'"
    and st: "sd_task_states s' = (sd_task_states s)[th_index h := TaskReady]"
    and hd: "sd_task_handles s' = (sd_task_handles s)[th_index h := Some h]"
    and ring: "ring_wf TASK_ARENA_CAPACITY (sd_ready s')"
    and who: "queued s' = queued s @ [h] \<and> sd_idle s' = sd_idle s \<or> queued s' = queued s \<and> sd_idle s' = Some h"
    and cur: "sd_current s' = sd_current s"
  shows "sched_wf s'"
proof -
  note D = sched_wfD [OF wf]
  have idx: "th_index h < TASK_ARENA_CAPACITY" using free by (simp add: slot_free_def)
  have old: "runnable s' k" if "runnable s k" "th_index k \<noteq> th_index h" for k
    using that by (simp add: runnable_def bound_task_def st hd)
  have new: "runnable s' h"
    using idx D(1) by (simp add: runnable_def bound_task_def st hd sized_def)
  have fresh: "k \<noteq> h" "th_index k \<noteq> th_index h"
    if "k \<in> set (queued s) \<or> sd_current s = Some k \<or> sd_idle s = Some k" for k
    using free that by (auto simp: slot_free_def)
  show ?thesis
  proof (rule sched_wfI [OF sized ring])
    show "distinct (queued s')" using who D(3) fresh(1) [of h] by auto
    show "k \<in> set (queued s') \<Longrightarrow> runnable s' k" for k
      using who old [of k] new D(4) [of k] fresh [of k] by auto
    show "sd_current s' = Some k \<Longrightarrow> runnable s' k \<and> k \<notin> set (queued s')" for k
      using who old [of k] new D(5) [of k] fresh [of k] cur by auto
    show "sd_idle s' = Some k \<Longrightarrow> runnable s' k \<and> k \<notin> set (queued s')" for k
      using who old [of k] new D(6) [of k] fresh [of k] by auto
    show "\<exists>k. sd_task_handles s' ! i = Some k \<and> th_index k = i"
      if "i < TASK_ARENA_CAPACITY" "sd_task_states s' ! i = TaskBlocked ep" for i ep
      using that D(7) [of i ep] D(1) idx by (cases "i = th_index h") (auto simp: st hd sized_def)
  qed
qed

text \<open>In a free slot a registration always finds room.\<close>

lemma slot_free_room:
  assumes "sched_wf s" "slot_free s (th_index h)"
  shows "length (queued s) < TASK_ARENA_CAPACITY"
proof -
  note D = sched_wfD [OF assms(1)]
  let ?s = "s\<lparr>sd_task_handles := (sd_task_handles s)[th_index h := Some h]\<rparr>"
  have free: "th_index h < TASK_ARENA_CAPACITY" "\<And>k. k \<in> set (queued s) \<Longrightarrow> th_index k \<noteq> th_index h"
    using assms(2) by (auto simp: slot_free_def)
  show ?thesis
  proof (rule room_for [OF D(3)])
    show "\<forall>k \<in> set (queued s). bound_task ?s k"
    proof
      fix k assume k: "k \<in> set (queued s)"
      then show "bound_task ?s k"
        using D(4) [OF k] free(2) [OF k] by (simp add: runnable_def bound_task_def)
    qed
    show "bound_task ?s h" using free D(1) by (simp add: bound_task_def sized_def)
    show "h \<notin> set (queued s)" using free(2) by blast
  qed
qed

lemma add_task_ok:
  assumes wf: "sched_wf s" and free: "slot_free s (th_index h)"
  shows "\<exists>s'. add_task cpu s h ash entry stack_top = Some (s', Inr ()) \<and> sched_wf s' \<and>
    queued s' = queued s @ [h] \<and> sd_current s' = sd_current s \<and> sd_idle s' = sd_idle s \<and>
    sd_task_states s' = (sd_task_states s)[th_index h := TaskReady]"
proof -
  note D = sched_wfD [OF wf]
  have idx: "th_index h < TASK_ARENA_CAPACITY" using free by (simp add: slot_free_def)
  have sz: "th_index h < length (sd_contexts s)" using idx D(1) by (simp add: sized_def)
  obtain q where q: "sq_enqueue (sd_ready s) h = Some (q, Inr ())" "ring_wf TASK_ARENA_CAPACITY q"
      "ring_items q = queued s @ [h]"
    using ready.enq_room [OF D(2), of h] slot_free_room [OF assms] by (auto simp: queued_def)
  let ?cs = "(sd_contexts s)[th_index h := cpu_init_context cpu (sd_contexts s ! th_index h) entry stack_top]"
  let ?s1 = "s\<lparr>sd_contexts := ?cs, sd_ready := q\<rparr>"
  have sz1: "sized ?s1" using D(1) by (simp add: sized_def)
  let ?s2 = "?s1\<lparr>sd_task_states := (sd_task_states s)[th_index h := TaskReady],
            sd_task_handles := (sd_task_handles s)[th_index h := Some h],
            sd_as_handles := (sd_as_handles s)[th_index h := Some ash]\<rparr>"
  have "add_task cpu s h ash entry stack_top = Some (?s2, Inr ())"
    using sz q(1) bind_task_eq [OF sz1 idx] by (simp add: add_task_def put_at_ok Let_def)
  moreover have "sized ?s2" using D(1) by (simp add: sized_def)
  then have "sched_wf ?s2"
    by (rule bound_wf [OF wf free]) (use q in simp_all)
  ultimately show ?thesis using q(3) by auto
qed

lemma add_user_task_ok:
  assumes wf: "sched_wf s" and free: "slot_free s (th_index h)"
  shows "\<exists>s'. add_user_task cpu s h ash user_entry user_sp kernel_stack_top ptr = Some (s', Inr ()) \<and> sched_wf s' \<and>
    queued s' = queued s @ [h] \<and> sd_current s' = sd_current s \<and> sd_idle s' = sd_idle s \<and>
    sd_task_states s' = (sd_task_states s)[th_index h := TaskReady] \<and>
    sd_as_handles s' ! th_index h = Some ash \<and>
    sd_cap_tables s' ! th_index h = (if ptr = 0 then None else Some ptr) \<and>
    sd_user_windows s' ! th_index h = Some (user_window_new user_entry (user_sp - user_entry))"
proof -
  note D = sched_wfD [OF wf]
  have idx: "th_index h < TASK_ARENA_CAPACITY" using free by (simp add: slot_free_def)
  have sz: "th_index h < length (sd_contexts s)" "th_index h < length (sd_cap_tables s)"
      "th_index h < length (sd_user_windows s)" "th_index h < length (sd_as_handles s)"
    using idx D(1) by (simp_all add: sized_def)
  obtain q where q: "sq_enqueue (sd_ready s) h = Some (q, Inr ())" "ring_wf TASK_ARENA_CAPACITY q"
      "ring_items q = queued s @ [h]"
    using ready.enq_room [OF D(2), of h] slot_free_room [OF assms] by (auto simp: queued_def)
  let ?cs = "(sd_contexts s)[th_index h :=
    cpu_init_user_context cpu (sd_contexts s ! th_index h) user_entry user_sp kernel_stack_top]"
  let ?s1 = "s\<lparr>sd_contexts := ?cs, sd_ready := q\<rparr>"
  have sz1: "sized ?s1" using D(1) by (simp add: sized_def)
  let ?s2 = "?s1\<lparr>sd_task_states := (sd_task_states s)[th_index h := TaskReady],
            sd_task_handles := (sd_task_handles s)[th_index h := Some h],
            sd_as_handles := (sd_as_handles s)[th_index h := Some ash]\<rparr>"
  let ?s3 = "?s2\<lparr>sd_cap_tables := (sd_cap_tables s)[th_index h := (if ptr = 0 then None else Some ptr)],
            sd_user_windows := (sd_user_windows s)[th_index h := Some (user_window_new user_entry (user_sp - user_entry))]\<rparr>"
  have "add_user_task cpu s h ash user_entry user_sp kernel_stack_top ptr = Some (?s3, Inr ())"
    using sz q(1) bind_task_eq [OF sz1 idx] by (simp add: add_user_task_def put_at_ok Let_def)
  moreover have "sized ?s3" using D(1) by (simp add: sized_def)
  then have "sched_wf ?s3"
    by (rule bound_wf [OF wf free]) (use q in simp_all)
  ultimately show ?thesis using q(3) sz by auto
qed

lemma register_idle_ok:
  assumes wf: "sched_wf s" and free: "slot_free s (th_index h)" and none: "sd_idle s = None"
  shows "\<exists>s'. register_idle cpu s h ash entry stack_top = Some s' \<and> sched_wf s' \<and>
    queued s' = queued s \<and> sd_current s' = sd_current s \<and> sd_idle s' = Some h \<and>
    sd_task_states s' = (sd_task_states s)[th_index h := TaskReady]"
proof -
  note D = sched_wfD [OF wf]
  have idx: "th_index h < TASK_ARENA_CAPACITY" using free by (simp add: slot_free_def)
  have sz: "th_index h < length (sd_contexts s)" using idx D(1) by (simp add: sized_def)
  let ?cs = "(sd_contexts s)[th_index h := cpu_init_context cpu (sd_contexts s ! th_index h) entry stack_top]"
  let ?s1 = "s\<lparr>sd_contexts := ?cs\<rparr>"
  have sz1: "sized ?s1" using D(1) by (simp add: sized_def)
  let ?s2 = "?s1\<lparr>sd_task_states := (sd_task_states s)[th_index h := TaskReady],
            sd_task_handles := (sd_task_handles s)[th_index h := Some h],
            sd_as_handles := (sd_as_handles s)[th_index h := Some ash], sd_idle := Some h\<rparr>"
  have "register_idle cpu s h ash entry stack_top = Some ?s2"
    using sz none bind_task_eq [OF sz1 idx] by (simp add: register_idle_def put_at_ok)
  moreover have "sized ?s2" using D(1) by (simp add: sized_def)
  then have "sched_wf ?s2"
    by (rule bound_wf [OF wf free]) (use D(2) in simp_all)
  ultimately show ?thesis by auto
qed

text \<open>The task that start and exit dispatch: the front of the queue, else idle.\<close>

definition next_task :: "'c scheduler \<Rightarrow> task_handle option" where
  "next_task s = (case queued s of h # _ \<Rightarrow> Some h | [] \<Rightarrow> sd_idle s)"

lemma next_task_dequeue:
  assumes wf: "sched_wf s" and nx: "next_task s = Some h"
  shows "\<exists>q. ring_wf TASK_ARENA_CAPACITY q \<and> ring_items q = tl (queued s) \<and> runnable s h \<and> h \<notin> set (tl (queued s)) \<and>
    sq_dequeue (sd_ready s) = Some (q, if queued s = [] then None else Some h) \<and> (queued s = [] \<longrightarrow> sd_idle s = Some h)"
proof -
  note D = sched_wfD [OF wf]
  from D(2) show ?thesis
  proof (cases rule: ready.deq_cases)
    case empty
    then show ?thesis using nx D(2,6) by (auto simp: queued_def next_task_def)
  next
    case (front k q')
    then have "queued s = k # ring_items q'" "h = k" using nx by (auto simp: queued_def next_task_def)
    then show ?thesis using front D(3) D(4) [of h] by auto
  qed
qed

lemma take_next_wf:
  assumes wf: "sched_wf s" and nx: "next_task s = Some h"
    and q: "ring_wf TASK_ARENA_CAPACITY q" "ring_items q = tl (queued s)"
  shows "sched_wf (s\<lparr>sd_ready := q, sd_current := Some h\<rparr>)"
proof (rule sched_wf_requeue [OF wf q(1)])
  note D = sched_wfD [OF wf]
  show "distinct (ring_items q)" using D(3) q(2) by (simp add: distinct_tl)
  show "\<forall>k \<in> set (ring_items q). runnable s k \<and> sd_idle s \<noteq> Some k"
    using D(4,6) q(2) list.set_sel(2) [of "queued s"] by (cases "queued s") auto
  show "\<forall>k. Some h = Some k \<longrightarrow> runnable s k \<and> k \<notin> set (ring_items q)"
    using next_task_dequeue [OF wf nx] q(2) by auto
qed

lemma start_prelude_spec:
  assumes wf: "sched_wf s"
  shows "case next_task s of
      None \<Rightarrow> start_prelude s = None
    | Some h \<Rightarrow> \<exists>q. start_prelude s = Some (s\<lparr>sd_ready := q, sd_current := Some h\<rparr>, th_index h) \<and>
        ring_items q = tl (queued s) \<and> sched_wf (s\<lparr>sd_ready := q, sd_current := Some h\<rparr>)"
proof (cases "next_task s")
  case None
  then have "queued s = []" "sd_idle s = None" by (auto simp: next_task_def split: list.splits)
  then have "sq_dequeue (sd_ready s) = Some (sd_ready s, None)"
    using ready.deq_empty [OF sched_wfD(2) [OF wf]] by (simp add: queued_def)
  then show ?thesis using None \<open>sd_idle s = None\<close> by (simp add: start_prelude_def)
next
  case (Some h)
  obtain q where q: "ring_wf TASK_ARENA_CAPACITY q" "ring_items q = tl (queued s)" "runnable s h"
      "sq_dequeue (sd_ready s) = Some (q, if queued s = [] then None else Some h)"
      "queued s = [] \<longrightarrow> sd_idle s = Some h"
    using next_task_dequeue [OF wf Some] by blast
  have "make_current (s\<lparr>sd_ready := q\<rparr>) h = Some (s\<lparr>sd_ready := q, sd_current := Some h\<rparr>)"
    using make_current_eq [of "s\<lparr>sd_ready := q\<rparr>" h] sched_wfD(1) [OF wf] q(3) by simp
  then show ?thesis
    using Some q take_next_wf [OF wf Some q(1,2)] by (cases "queued s") (auto simp: start_prelude_def)
qed

lemma dispatch_tail_spec:
  assumes wf: "sched_wf s" and nx: "next_task s = Some h"
  shows "\<exists>q. task_exit_current s = Some (s\<lparr>sd_ready := q, sd_current := Some h\<rparr>,
      \<lparr>sw_save = None, sw_restore = th_index h, sw_activate = sd_as_handles s ! th_index h\<rparr>) \<and>
    sched_start s = task_exit_current s \<and>
    ring_items q = tl (queued s) \<and> sched_wf (s\<lparr>sd_ready := q, sd_current := Some h\<rparr>)"
proof -
  obtain q where q: "start_prelude s = Some (s\<lparr>sd_ready := q, sd_current := Some h\<rparr>, th_index h)"
      "ring_items q = tl (queued s)" "sched_wf (s\<lparr>sd_ready := q, sd_current := Some h\<rparr>)"
    using start_prelude_spec [OF wf] nx by auto
  have "th_index h < length (sd_as_handles s)"
    using sched_wfD(5) [OF q(3), of h] sched_wfD(1) [OF wf] runnable_index [of s h] by (simp add: sized_def)
  then show ?thesis using q by (auto simp: task_exit_current_def sched_start_def run_dispatched_def)
qed

section \<open>Blocking\<close>

text \<open>The task a blocking receive hands over to: never the caller itself.\<close>

definition handover :: "'c scheduler \<Rightarrow> task_handle \<Rightarrow> task_handle option" where
  "handover s c = (case queued s of h # _ \<Rightarrow> Some h | [] \<Rightarrow> if sd_idle s = Some c then None else sd_idle s)"

lemma handover_next: "handover s c = Some h \<Longrightarrow> next_task s = Some h"
  by (auto simp: handover_def next_task_def split: list.splits if_splits)

lemma handover_not_self:
  assumes "sched_wf s" "sd_current s = Some c" "handover s c = Some h"
  shows "h \<noteq> c" "th_index h \<noteq> th_index c"
proof -
  note D = sched_wfD [OF assms(1)]
  have run: "runnable s c" "c \<notin> set (queued s)" using D(5) [OF assms(2)] by auto
  show "h \<noteq> c" using assms(3) run(2) by (auto simp: handover_def split: list.splits if_splits)
  moreover have "runnable s h" using next_task_dequeue [OF assms(1) handover_next [OF assms(3)]] by blast
  ultimately show "th_index h \<noteq> th_index c" using run(1) by (auto simp: runnable_def dest: bound_task_inj)
qed

lemma block_wf:
  assumes wf: "sched_wf s" and c: "sd_current s = Some c" "sd_idle s \<noteq> Some c" and h: "handover s c = Some h"
    and q: "ring_wf TASK_ARENA_CAPACITY q" "ring_items q = tl (queued s)"
  shows "sched_wf (s\<lparr>sd_task_states := (sd_task_states s)[th_index c := TaskBlocked ep],
                     sd_ready := q, sd_current := Some h\<rparr>)"
proof -
  note D = sched_wfD [OF wf] and ne = handover_not_self [OF wf c(1) h]
  have run: "runnable s c" "c \<notin> set (queued s)" using D(5) [OF c(1)] by auto
  let ?s = "s\<lparr>sd_task_states := (sd_task_states s)[th_index c := TaskBlocked ep]\<rparr>"
  have keep: "runnable ?s k" if "runnable s k" "k \<noteq> c" for k
  proof -
    have "th_index k \<noteq> th_index c" using that run(1) by (auto simp: runnable_def dest: bound_task_inj)
    then show ?thesis using that by (simp add: runnable_def bound_task_def)
  qed
  note T = sched_wfD [OF take_next_wf [OF wf handover_next [OF h] q]]
  have tl: "k \<in> set (tl (queued s)) \<Longrightarrow> k \<in> set (queued s)" for k by (cases "queued s") auto
  show ?thesis
  proof (rule sched_wfI)
    show "k \<in> set (queued (s\<lparr>sd_task_states := (sd_task_states s)[th_index c := TaskBlocked ep],
          sd_ready := q, sd_current := Some h\<rparr>)) \<Longrightarrow>
        runnable (s\<lparr>sd_task_states := (sd_task_states s)[th_index c := TaskBlocked ep],
          sd_ready := q, sd_current := Some h\<rparr>) k" for k
      using T(4) [of k] keep [of k] q(2) tl [of k] run(2) by auto
    show "sd_current (s\<lparr>sd_task_states := (sd_task_states s)[th_index c := TaskBlocked ep],
          sd_ready := q, sd_current := Some h\<rparr>) = Some k \<Longrightarrow>
        runnable (s\<lparr>sd_task_states := (sd_task_states s)[th_index c := TaskBlocked ep],
          sd_ready := q, sd_current := Some h\<rparr>) k \<and>
        k \<notin> set (queued (s\<lparr>sd_task_states := (sd_task_states s)[th_index c := TaskBlocked ep],
          sd_ready := q, sd_current := Some h\<rparr>))" for k
      using T(5) [of k] keep [of k] ne by auto
    show "sd_idle (s\<lparr>sd_task_states := (sd_task_states s)[th_index c := TaskBlocked ep],
          sd_ready := q, sd_current := Some h\<rparr>) = Some k \<Longrightarrow>
        runnable (s\<lparr>sd_task_states := (sd_task_states s)[th_index c := TaskBlocked ep],
          sd_ready := q, sd_current := Some h\<rparr>) k \<and>
        k \<notin> set (queued (s\<lparr>sd_task_states := (sd_task_states s)[th_index c := TaskBlocked ep],
          sd_ready := q, sd_current := Some h\<rparr>))" for k
      using T(6) [of k] keep [of k] c(2) by auto
    show "\<exists>k. sd_task_handles (s\<lparr>sd_task_states := (sd_task_states s)[th_index c := TaskBlocked ep],
          sd_ready := q, sd_current := Some h\<rparr>) ! i = Some k \<and> th_index k = i"
      if "i < TASK_ARENA_CAPACITY" "sd_task_states (s\<lparr>sd_task_states := (sd_task_states s)[th_index c := TaskBlocked ep],
          sd_ready := q, sd_current := Some h\<rparr>) ! i = TaskBlocked e" for i e
      using that D(1) D(7) [of i e] run(1)
      by (cases "i = th_index c") (auto simp: sized_def runnable_def bound_task_def)
  qed (use T(1,2,3) D(1) in \<open>auto simp: sized_def\<close>)
qed

end
