(* ===== verification/Sched_Claims.thy ===== *)
theory Sched_Claims
  imports Sched_Props
begin

text \<open>
  The scheduler together with IPC: a system of tasks with their own capability
  tables, the steps it can take, the invariant of its reachable states, and the
  properties of the scheduler.
\<close>

section \<open>The bridge operations\<close>

lemma validate_resolve: "validate_ep_cap t c r = Inr h \<Longrightarrow> resolve_ep_cap t c = Inr h"
  by (auto simp: validate_ep_cap_def resolve_ep_cap_def split: sum.splits cap_object.splits if_splits)

lemma recv_bridge_block:
  assumes wf: "sched_wf s" and c: "sd_current s = Some c"
    and ep: "resolve_ep_cap t ep_cap = Inr ep"
    and recv: "ipc_recv arena q ep_cap t = Some ((q1, t1), Inr Pending)"
    and h: "handover s c = Some h"
  shows "\<exists>rq. ring_wf TASK_ARENA_CAPACITY rq \<and> ring_items rq = tl (queued s) \<and>
    ipc_recv_and_yield s arena q t ep_cap =
      Some ((s\<lparr>sd_task_states := (sd_task_states s)[th_index c := TaskBlocked ep],
               sd_ready := rq, sd_current := Some h\<rparr>, q1, t1),
        Inr (RecvSwitch \<lparr>sw_save = Some (th_index c), sw_restore = th_index h,
             sw_activate = address_space_activation_target (sd_as_handles s ! th_index c)
                             (sd_as_handles s ! th_index h)\<rparr>))"
proof -
  note D = sched_wfD [OF wf] and ne = handover_not_self [OF wf c h]
  have run: "runnable s c" using D(5) [OF c] by simp
  obtain rq where rq: "ring_wf TASK_ARENA_CAPACITY rq" "ring_items rq = tl (queued s)" "runnable s h"
      "sq_dequeue (sd_ready s) = Some (rq, if queued s = [] then None else Some h)"
      "queued s = [] \<longrightarrow> sd_idle s = Some h"
    using next_task_dequeue [OF wf handover_next [OF h]] by blast
  let ?s = "s\<lparr>sd_task_states := (sd_task_states s)[th_index c := TaskBlocked ep], sd_current := None, sd_ready := rq\<rparr>"
  have idx: "th_index c < length (sd_task_states s)" using run D(1) by (simp add: runnable_def bound_task_def sized_def)
  have sz: "sized ?s" using D(1) by simp
  have runh: "runnable ?s h" using rq(3) ne by (simp add: runnable_def bound_task_def)
  have mk: "make_current ?s h = Some (?s\<lparr>sd_current := Some h\<rparr>)" by (rule make_current_eq [OF sz runh])
  have sw: "switch_between (?s\<lparr>sd_current := Some h\<rparr>) (th_index c) (th_index h) =
      Some \<lparr>sw_save = Some (th_index c), sw_restore = th_index h,
        sw_activate = address_space_activation_target (sd_as_handles s ! th_index c) (sd_as_handles s ! th_index h)\<rparr>"
    using switch_between_eq [of "?s\<lparr>sd_current := Some h\<rparr>" "th_index c" "th_index h"] sz
      runnable_index [OF run] runnable_index [OF rq(3)] by simp
  have "ipc_recv_and_yield s arena q t ep_cap =
      Some ((?s\<lparr>sd_current := Some h\<rparr>, q1, t1),
        Inr (RecvSwitch \<lparr>sw_save = Some (th_index c), sw_restore = th_index h,
             sw_activate = address_space_activation_target (sd_as_handles s ! th_index c)
                             (sd_as_handles s ! th_index h)\<rparr>))"
    using c ep recv idx rq(4,5) ne(1) mk sw
    by (cases "queued s = []") (simp_all add: ipc_recv_and_yield_def put_at_ok Let_def)
  then show ?thesis using rq(1,2) by auto
qed

lemma recv_bridge_deadlock:
  assumes wf: "sched_wf s" and c: "sd_current s = Some c"
    and ep: "resolve_ep_cap t ep_cap = Inr ep"
    and recv: "ipc_recv arena q ep_cap t = Some ((q1, t1), Inr Pending)"
    and cancel: "ipc_cancel_recv arena q1 ep_cap t1 = Some (q2, r)"
    and none: "handover s c = None"
  shows "ipc_recv_and_yield s arena q t ep_cap = Some ((s, q2, t1), Inl Deadlock)"
proof -
  note D = sched_wfD [OF wf]
  have run: "runnable s c" using D(5) [OF c] by simp
  have idx: "th_index c < length (sd_task_states s)" using run D(1) by (simp add: runnable_def bound_task_def sized_def)
  have empty: "queued s = []" "sd_idle s = Some c \<or> sd_idle s = None"
    using none by (auto simp: handover_def split: list.splits if_splits)
  then have dq: "sq_dequeue (sd_ready s) = Some (sd_ready s, None)"
    using ready.deq_empty [OF D(2)] by (simp add: queued_def)
  have same: "s\<lparr>sd_ready := sd_ready s, sd_task_states := sd_task_states s, sd_current := Some c\<rparr> = s"
    using c by (cases s) simp
  show ?thesis
    using c ep recv cancel idx empty(2) dq same
    by (auto simp: ipc_recv_and_yield_def put_at_ok Let_def)
qed

section \<open>Systems of tasks\<close>

record 'c system =
  sy_sched :: "'c scheduler"
  sy_queues :: ipc_queues
  sy_table :: "nat \<Rightarrow> cap_table"

text \<open>
  One step: a registration in a free slot, a start or exit, or an operation of
  the running task with its own table. The idle task does not block (its body
  only waits for interrupts and yields). Between steps a table may change in any
  way that keeps it well formed.
\<close>

inductive kernel_step :: "endpoint_arena \<Rightarrow> 'c cpu \<Rightarrow> 'c system \<Rightarrow> 'c system \<Rightarrow> bool" for arena cpu where
  add: "\<lbrakk>slot_free (sy_sched y) (th_index h); add_task cpu (sy_sched y) h ash e sp = Some (s', r)\<rbrakk> \<Longrightarrow>
    kernel_step arena cpu y (y\<lparr>sy_sched := s'\<rparr>)"
| add_user: "\<lbrakk>slot_free (sy_sched y) (th_index h);
      add_user_task cpu (sy_sched y) h ash ue us ks p = Some (s', r)\<rbrakk> \<Longrightarrow>
    kernel_step arena cpu y (y\<lparr>sy_sched := s'\<rparr>)"
| idle: "\<lbrakk>slot_free (sy_sched y) (th_index h); register_idle cpu (sy_sched y) h ash e sp = Some s'\<rbrakk> \<Longrightarrow>
    kernel_step arena cpu y (y\<lparr>sy_sched := s'\<rparr>)"
| start: "sched_start (sy_sched y) = Some (s', sw) \<Longrightarrow> kernel_step arena cpu y (y\<lparr>sy_sched := s'\<rparr>)"
| exit: "task_exit_current (sy_sched y) = Some (s', sw) \<Longrightarrow> kernel_step arena cpu y (y\<lparr>sy_sched := s'\<rparr>)"
| yield: "yield_now (sy_sched y) = Some (s', r) \<Longrightarrow> kernel_step arena cpu y (y\<lparr>sy_sched := s'\<rparr>)"
| send: "\<lbrakk>sd_current (sy_sched y) = Some c;
      ipc_send_and_yield (sy_sched y) arena (sy_queues y) (sy_table y (th_index c)) ep_cap msg x =
        Some ((s', q', t'), r)\<rbrakk> \<Longrightarrow>
    kernel_step arena cpu y (y\<lparr>sy_sched := s', sy_queues := q', sy_table := (sy_table y)(th_index c := t')\<rparr>)"
| recv: "\<lbrakk>sd_current (sy_sched y) = Some c; sd_idle (sy_sched y) \<noteq> Some c;
      ipc_recv_and_yield (sy_sched y) arena (sy_queues y) (sy_table y (th_index c)) ep_cap =
        Some ((s', q', t'), r)\<rbrakk> \<Longrightarrow>
    kernel_step arena cpu y (y\<lparr>sy_sched := s', sy_queues := q', sy_table := (sy_table y)(th_index c := t')\<rparr>)"
| resume: "\<lbrakk>sd_current (sy_sched y) = Some c;
      ipc_recv_resume arena (sy_queues y) (sy_table y (th_index c)) ep_cap = Some ((q', t'), r)\<rbrakk> \<Longrightarrow>
    kernel_step arena cpu y (y\<lparr>sy_queues := q', sy_table := (sy_table y)(th_index c := t')\<rparr>)"
| tables: "\<forall>i. cap_wf (f i) \<Longrightarrow> kernel_step arena cpu y (y\<lparr>sy_table := f\<rparr>)"

inductive reachable_from :: "endpoint_arena \<Rightarrow> 'c cpu \<Rightarrow> 'c system \<Rightarrow> 'c system \<Rightarrow> bool" for arena cpu y0 where
  init: "reachable_from arena cpu y0 y0"
| step: "\<lbrakk>reachable_from arena cpu y0 y; kernel_step arena cpu y y'\<rbrakk> \<Longrightarrow> reachable_from arena cpu y0 y'"

text \<open>Every blocked task waits on a live endpoint that knows of the waiter, and
  no two tasks wait on the same one: no wake-up can be lost.\<close>

definition waiters_ok :: "endpoint_arena \<Rightarrow> 'c scheduler \<Rightarrow> ipc_queues \<Rightarrow> bool" where
  "waiters_ok arena s q \<longleftrightarrow>
     (\<forall>ep i. blocked_on s ep i \<longrightarrow> ep_live arena ep \<and> ep_state q ep = RecvWaiting) \<and>
     (\<forall>ep i j. blocked_on s ep i \<longrightarrow> blocked_on s ep j \<longrightarrow> i = j)"

definition kernel_ok :: "endpoint_arena \<Rightarrow> 'c system \<Rightarrow> bool" where
  "kernel_ok arena y \<longleftrightarrow>
     sched_wf (sy_sched y) \<and> queues_ok arena (sy_queues y) \<and> (\<forall>i. cap_wf (sy_table y i)) \<and>
     waiters_ok arena (sy_sched y) (sy_queues y)"

lemma waitersD:
  assumes "waiters_ok arena s q" "blocked_on s ep i"
  shows "ep_live arena ep" "ep_state q ep = RecvWaiting" "blocked_on s ep j \<Longrightarrow> j = i"
  using assms unfolding waiters_ok_def by blast+

lemma waiters_states: "sd_task_states s' = sd_task_states s \<Longrightarrow> waiters_ok arena s' q = waiters_ok arena s q"
  by (simp add: waiters_ok_def blocked_on_def)

lemma waiters_ready:
  "\<lbrakk>waiters_ok arena s q; sd_task_states s' = (sd_task_states s)[i := TaskReady]\<rbrakk> \<Longrightarrow> waiters_ok arena s' q"
  unfolding waiters_ok_def blocked_on_def
  by (metis nth_list_update_eq nth_list_update_neq list_update_beyond not_le task_state.distinct(5))

lemma waiters_same: "\<lbrakk>waiters_ok arena s q; same_states arena q q'\<rbrakk> \<Longrightarrow> waiters_ok arena s q'"
  unfolding waiters_ok_def same_states_def by metis

lemma waiters_set:
  assumes "waiters_ok arena s q" "queues_ok arena q" "ep_live arena h" "\<forall>i. \<not> blocked_on s h i"
  shows "waiters_ok arena s (set_ep q h st)"
  using assms ep_state_set_ep [OF assms(2,3)] unfolding waiters_ok_def by metis

lemma waiters_not_blocked:
  "\<lbrakk>waiters_ok arena s q; ep_state q h \<noteq> RecvWaiting\<rbrakk> \<Longrightarrow> \<forall>i. \<not> blocked_on s h i"
  by (auto simp: waiters_ok_def)

section \<open>Steps keep the invariant\<close>

lemma yield_waiters:
  assumes "sched_wf s" "waiters_ok arena s q"
  shows "\<exists>s' r. yield_now s = Some (s', r) \<and> sched_wf s' \<and> waiters_ok arena s' q \<and>
    sd_task_states s' = sd_task_states s \<and> sd_task_handles s' = sd_task_handles s \<and>
    (sd_current s \<noteq> None \<longrightarrow> (\<exists>sw. r = Inr sw))"
proof -
  obtain rq c r where y: "yield_now s = Some (s\<lparr>sd_ready := rq, sd_current := c\<rparr>, r)"
      "sched_wf (s\<lparr>sd_ready := rq, sd_current := c\<rparr>)"
      "case r of
         Inl e \<Rightarrow> e = NoCurrentTask \<and> sd_current s = None
       | Inr None \<Rightarrow> c = sd_current s
       | Inr (Some sw) \<Rightarrow> \<exists>i h. sw_save sw = Some i \<and> c = Some h \<and> sw_restore sw = th_index h \<and> i \<noteq> th_index h"
    using yield_now_ok [OF assms(1)] by blast
  have "waiters_ok arena (s\<lparr>sd_ready := rq, sd_current := c\<rparr>) q"
    using assms(2) waiters_states [of "s\<lparr>sd_ready := rq, sd_current := c\<rparr>" s] by simp
  moreover have "sd_current s \<noteq> None \<longrightarrow> (\<exists>sw. r = Inr sw)" using y(3) by (cases r) auto
  ultimately show ?thesis using y(1,2) by auto
qed

text \<open>Yielding keeps every queued task queued or makes it current.\<close>

lemma yield_keeps:
  assumes wf: "sched_wf s" and y: "yield_now s = Some (s', r)" and h: "h \<in> set (queued s)"
  shows "h \<in> set (queued s') \<or> sd_current s' = Some h"
proof (cases "sd_current s")
  case None
  then show ?thesis using y h by (simp add: yield_now_def)
next
  case (Some c)
  obtain q where "case queued s of
       [] \<Rightarrow> ring_items q = [] \<and> yield_now s = Some (s\<lparr>sd_ready := q\<rparr>, Inr None)
     | h # hs \<Rightarrow> ring_items q = hs @ (if sd_idle s = Some c then [] else [c]) \<and>
         yield_now s = Some (s\<lparr>sd_ready := q, sd_current := Some h\<rparr>,
           Inr (Some \<lparr>sw_save = Some (th_index c), sw_restore = th_index h,
             sw_activate = address_space_activation_target (sd_as_handles s ! th_index c)
                             (sd_as_handles s ! th_index h)\<rparr>))"
    using yield_now_spec [OF wf Some] by blast
  then show ?thesis using y h by (cases "queued s") auto
qed

text \<open>A send that is accepted on an endpoint a task is blocked on delivers, and
  that very task becomes runnable.\<close>

lemma send_bridge_wakes:
  assumes wf: "sched_wf s" "queues_ok arena q" "cap_wf t" "waiters_ok arena s q"
    and v: "send_verdict arena q ep_cap t x = Inr ep" and b: "blocked_on s ep i"
  shows "\<exists>s' t' cap r h. ipc_send_and_yield s arena q t ep_cap msg x =
      Some ((s', set_ep q ep (RecvComplete msg cap), t'), r) \<and> cap_left t t' x cap \<and>
    (sd_current s \<noteq> None \<longrightarrow> (\<exists>sw. r = Inr (Delivered, sw))) \<and>
    sched_wf s' \<and> waiters_ok arena s' (set_ep q ep (RecvComplete msg cap)) \<and>
    sd_task_handles s ! i = Some h \<and> runnable s' h \<and> (h \<in> set (queued s') \<or> sd_current s' = Some h)"
proof -
  have ep: "resolve_ep_cap t ep_cap = Inr ep" "ep_live arena ep"
    using send_verdict_Inr [OF v] validate_resolve by blast+
  have st: "ep_state q ep = RecvWaiting" using waitersD(2) [OF wf(4) b] .
  obtain t' cap st' out where sd: "cap_left t t' x cap" "send_state (ep_state q ep) msg cap = (st', out)"
      "ipc_send arena q ep_cap t msg x = Some ((set_ep q ep st', t'), Inr out)"
    by (rule ipc_send_ok [OF wf(3,2) v, where msg = msg]) (rule that)
  have out: "st' = RecvComplete msg cap" "out = Delivered" using sd(2) st by (simp_all add: send_state_def)
  let ?q = "set_ep q ep (RecvComplete msg cap)"
  obtain j h rq where w: "blocked_on s ep j" "sd_task_handles s ! j = Some h" "th_index h = j"
      "ring_items rq = queued s @ [h]"
      "unblock_receiver_on s ep = Some (s\<lparr>sd_task_states := (sd_task_states s)[j := TaskReady], sd_ready := rq\<rparr>)"
      "sched_wf (s\<lparr>sd_task_states := (sd_task_states s)[j := TaskReady], sd_ready := rq\<rparr>)"
    using unblock_some [OF wf(1) b] by blast
  let ?s = "s\<lparr>sd_task_states := (sd_task_states s)[j := TaskReady], sd_ready := rq\<rparr>"
  have ij: "j = i" using waitersD(3) [OF wf(4) b w(1)] .
  have wo: "waiters_ok arena ?s q" by (rule waiters_ready [OF wf(4)]) simp
  have "\<forall>k. \<not> blocked_on ?s ep k"
  proof (intro allI notI)
    fix k assume k: "blocked_on ?s ep k"
    then have "k \<noteq> j" using sched_wfD(1) [OF wf(1)] by (auto simp: blocked_on_def sized_def)
    then have "blocked_on s ep k" using k by (simp add: blocked_on_def)
    then show False using waitersD(3) [OF wf(4) w(1)] \<open>k \<noteq> j\<close> by blast
  qed
  then have wo': "waiters_ok arena ?s ?q" by (rule waiters_set [OF wo wf(2) ep(2)])
  obtain s' r where y: "yield_now ?s = Some (s', r)" "sched_wf s'" "waiters_ok arena s' ?q"
      "sd_current ?s \<noteq> None \<longrightarrow> (\<exists>sw. r = Inr sw)"
    using yield_waiters [OF w(6) wo'] by blast
  have h: "h \<in> set (queued s') \<or> sd_current s' = Some h"
    by (rule yield_keeps [OF w(6) y(1)]) (simp add: w(4))
  then have "runnable s' h" using sched_wfD(4,5) [OF y(2)] by blast
  moreover have "ipc_send_and_yield s arena q t ep_cap msg x =
      Some ((s', ?q, t'), case r of Inl e \<Rightarrow> Inl e | Inr sw \<Rightarrow> Inr (Delivered, sw))"
    using ep(1) sd(3) w(5) y(1) unfolding out by (simp add: ipc_send_and_yield_def)
  ultimately show ?thesis
    using sd(1) y(2,3,4) h w(2) ij by (intro exI conjI) (assumption | auto)+
qed

lemma send_bridge_ok:
  assumes wf: "sched_wf s" "queues_ok arena q" "cap_wf t" "waiters_ok arena s q"
  shows "\<exists>s' q' t' r. ipc_send_and_yield s arena q t ep_cap msg x = Some ((s', q', t'), r) \<and>
    sched_wf s' \<and> queues_ok arena q' \<and> cap_wf t' \<and> waiters_ok arena s' q'"
proof (cases "resolve_ep_cap t ep_cap")
  case (Inl e)
  then show ?thesis using wf by (simp add: ipc_send_and_yield_def)
next
  case (Inr ep)
  show ?thesis
  proof (cases "send_verdict arena q ep_cap t x")
    case (Inl e)
    then obtain q' where q': "ipc_send arena q ep_cap t msg x = Some ((q', t), Inl e)" "same_states arena q q'"
      using ipc_send_spec [OF wf(3,2), where ep_cap = ep_cap and transfer = x and msg = msg] by auto
    then show ?thesis
      using Inr wf same_states_ok [OF q'(2)] waiters_same [OF wf(4) q'(2)]
      by (simp add: ipc_send_and_yield_def)
  next
    case v: (Inr h)
    have h: "h = ep" "ep_live arena ep"
      using send_verdict_Inr [OF v] validate_resolve Inr by fastforce+
    show ?thesis
    proof (cases "\<exists>i. blocked_on s ep i")
      case True
      then obtain i where "blocked_on s ep i" by blast
      from send_bridge_wakes [OF wf v [unfolded h(1)] this, where msg = msg]
      show ?thesis using set_ep_ok [OF wf(2) h(2)] cap_left_wf [OF wf(3)] by metis
    next
      case False
      obtain t' cap st' out where sd: "cap_left t t' x cap" "send_state (ep_state q h) msg cap = (st', out)"
          "ipc_send arena q ep_cap t msg x = Some ((set_ep q h st', t'), Inr out)"
        by (rule ipc_send_ok [OF wf(3,2) v, where msg = msg]) (rule that)
      have wo: "waiters_ok arena s (set_ep q ep st')" using waiters_set [OF wf(4,2) h(2)] False by blast
      have ok: "queues_ok arena (set_ep q ep st')" "cap_wf t'"
        using set_ep_ok [OF wf(2) h(2)] cap_left_wf [OF wf(3) sd(1)] by auto
      show ?thesis
      proof (cases out)
        case Enqueued
        then show ?thesis using Inr sd(3) wf(1) wo ok h(1) by (simp add: ipc_send_and_yield_def)
      next
        case Delivered
        obtain s' r where "yield_now s = Some (s', r)" "sched_wf s'" "waiters_ok arena s' (set_ep q ep st')"
          using yield_waiters [OF wf(1) wo] by blast
        then show ?thesis
          using Inr sd(3) Delivered unblock_none [OF wf(1)] False ok h(1)
          by (simp add: ipc_send_and_yield_def)
      qed
    qed
  qed
qed

lemma recv_bridge_ok:
  assumes wf: "sched_wf s" "queues_ok arena q" "cap_wf t" "waiters_ok arena s q"
    and c: "sd_current s = Some c" "sd_idle s \<noteq> Some c"
  shows "\<exists>s' q' t' r. ipc_recv_and_yield s arena q t ep_cap = Some ((s', q', t'), r) \<and>
    sched_wf s' \<and> queues_ok arena q' \<and> cap_wf t' \<and> waiters_ok arena s' q'"
proof (cases "resolve_ep_cap t ep_cap")
  case (Inl e)
  then show ?thesis using wf c by (simp add: ipc_recv_and_yield_def)
next
  case ep: (Inr ep)
  show ?thesis
  proof (cases "recv_verdict arena q ep_cap t")
    case (Inl e)
    then obtain q' where q': "ipc_recv arena q ep_cap t = Some ((q', t), Inl e)" "same_states arena q q'"
      using ipc_recv_spec [OF wf(3,2), where ep_cap = ep_cap] by auto
    then show ?thesis
      using ep c wf same_states_ok [OF q'(2)] waiters_same [OF wf(4) q'(2)]
      by (simp add: ipc_recv_and_yield_def)
  next
    case v: (Inr h)
    have h: "h = ep" "ep_live arena ep" "ep_state q ep \<noteq> RecvWaiting"
      using recv_verdict_Inr [OF v] validate_resolve ep by fastforce+
    note v = v [unfolded h(1)]
    have nb: "\<forall>i. \<not> blocked_on s ep i" by (rule waiters_not_blocked [OF wf(4) h(3)])
    note set = set_ep_ok [OF wf(2) h(2)] waiters_set [OF wf(4,2) h(2) nb]
    show ?thesis
    proof (cases "parked (ep_state q ep)")
      case (Some mc)
      then obtain t' x where "cap_arrived t t' (snd mc) x"
          "ipc_recv arena q ep_cap t = Some ((set_ep q ep Idle, t'), Inr (Received (fst mc) x))"
        using ipc_recv_ok(2) [OF wf(3,2) v, of "fst mc" "snd mc"] by auto
      then show ?thesis
        using ep c wf(1) set cap_arrived_wf [OF wf(3)] by (auto simp: ipc_recv_and_yield_def)
    next
      case none: None
      note recv = ipc_recv_ok(1) [OF wf(3,2) v none]
      show ?thesis
      proof (cases "handover s c")
        case None
        note undo = cancel_after_recv [OF wf(2) v none]
        have "waiters_ok arena s (set_ep (set_ep q ep RecvWaiting) ep Idle)"
          using wf(4) undo(3) unfolding waiters_ok_def by metis
        then show ?thesis
          using recv_bridge_deadlock [OF wf(1) c(1) ep recv undo(1) None] undo(2) wf(1,3) by auto
      next
        case (Some k)
        obtain rq where rq: "ring_wf TASK_ARENA_CAPACITY rq" "ring_items rq = tl (queued s)"
            "\<exists>r. ipc_recv_and_yield s arena q t ep_cap =
              Some ((s\<lparr>sd_task_states := (sd_task_states s)[th_index c := TaskBlocked ep],
                 sd_ready := rq, sd_current := Some k\<rparr>, set_ep q ep RecvWaiting, t), r)"
          using recv_bridge_block [OF wf(1) c(1) ep recv Some] by auto
        let ?s = "s\<lparr>sd_task_states := (sd_task_states s)[th_index c := TaskBlocked ep],
                 sd_ready := rq, sd_current := Some k\<rparr>"
        have b: "blocked_on ?s e i \<Longrightarrow> blocked_on s e i \<or> e = ep \<and> i = th_index c" for e i
          using sched_wfD(1) [OF wf(1)] by (cases "i = th_index c") (auto simp: blocked_on_def sized_def)
        have live: "ep_live arena e \<Longrightarrow> ep_state (set_ep q ep RecvWaiting) e =
            (if e = ep then RecvWaiting else ep_state q e)" for e
          using ep_state_set_ep [OF wf(2) h(2)] by blast
        have "waiters_ok arena ?s (set_ep q ep RecvWaiting)"
          unfolding waiters_ok_def
        proof (intro conjI allI impI)
          fix e i assume "blocked_on ?s e i"
          then show "ep_live arena e" "ep_state (set_ep q ep RecvWaiting) e = RecvWaiting"
            using b [of e i] waitersD(1,2) [OF wf(4), of e i] h(2) live [of e] by (auto split: if_splits)
        next
          fix e i j assume "blocked_on ?s e i" "blocked_on ?s e j"
          then show "i = j" using b [of e i] b [of e j] nb waitersD(3) [OF wf(4)] by metis
        qed
        then show ?thesis
          using rq block_wf [OF wf(1) c Some rq(1,2)] set(1) wf(3) by auto
      qed
    qed
  qed
qed

lemma resume_ok:
  assumes wf: "queues_ok arena q" "cap_wf t" "waiters_ok arena s q"
  shows "\<exists>q' t' r. ipc_recv_resume arena q t ep_cap = Some ((q', t'), r) \<and>
    queues_ok arena q' \<and> cap_wf t' \<and> waiters_ok arena s q'"
proof (cases "recv_verdict arena q ep_cap t")
  case (Inl e)
  then obtain q' where q': "ipc_recv arena q ep_cap t = Some ((q', t), Inl e)" "same_states arena q q'"
    using ipc_recv_spec [OF wf(2,1), where ep_cap = ep_cap] by auto
  then show ?thesis
    using wf same_states_ok [OF q'(2)] waiters_same [OF wf(3) q'(2)] by (simp add: ipc_recv_resume_def)
next
  case v: (Inr h)
  have h: "ep_live arena h" "ep_state q h \<noteq> RecvWaiting" using recv_verdict_Inr [OF v] by auto
  note set = set_ep_ok [OF wf(1) h(1)] waiters_set [OF wf(3,1) h(1) waiters_not_blocked [OF wf(3) h(2)]]
  show ?thesis
  proof (cases "parked (ep_state q h)")
    case None
    then show ?thesis using ipc_recv_ok(1) [OF wf(2,1) v] set wf(2) by (simp add: ipc_recv_resume_def)
  next
    case (Some mc)
    then obtain t' x where "cap_arrived t t' (snd mc) x"
        "ipc_recv arena q ep_cap t = Some ((set_ep q h Idle, t'), Inr (Received (fst mc) x))"
      using ipc_recv_ok(2) [OF wf(2,1) v, of "fst mc" "snd mc"] by auto
    then show ?thesis using set cap_arrived_wf [OF wf(2)] by (auto simp: ipc_recv_resume_def)
  qed
qed

lemma kernel_okD:
  assumes "kernel_ok arena y"
  shows "sched_wf (sy_sched y)" "queues_ok arena (sy_queues y)" "cap_wf (sy_table y i)"
    and "waiters_ok arena (sy_sched y) (sy_queues y)"
  using assms by (auto simp: kernel_ok_def)

lemma kernel_ok_sched:
  "\<lbrakk>kernel_ok arena y; sched_wf s'; waiters_ok arena s' (sy_queues y)\<rbrakk> \<Longrightarrow> kernel_ok arena (y\<lparr>sy_sched := s'\<rparr>)"
  by (simp add: kernel_ok_def)

lemma dispatch_tail_waiters:
  assumes "sched_wf s" "waiters_ok arena s q" "task_exit_current s = Some (s', sw) \<or> sched_start s = Some (s', sw)"
  shows "sched_wf s' \<and> waiters_ok arena s' q"
proof (cases "next_task s")
  case None
  then show ?thesis
    using start_prelude_spec [OF assms(1)] assms(3) by (auto simp: task_exit_current_def sched_start_def)
next
  case (Some h)
  from dispatch_tail_spec [OF assms(1) Some] obtain rq where
    "s' = s\<lparr>sd_ready := rq, sd_current := Some h\<rparr>" "sched_wf (s\<lparr>sd_ready := rq, sd_current := Some h\<rparr>)"
    using assms(3) by auto
  then show ?thesis using assms(2) waiters_states [of s' s] by simp
qed

lemma kernel_step_ok: "\<lbrakk>kernel_step arena cpu y y'; kernel_ok arena y\<rbrakk> \<Longrightarrow> kernel_ok arena y'"
proof (induction rule: kernel_step.induct)
  case (add y h ash e sp s' r)
  note K = kernel_okD [OF add.prems]
  obtain s1 where "add_task cpu (sy_sched y) h ash e sp = Some (s1, Inr ())" "sched_wf s1"
      "sd_task_states s1 = (sd_task_states (sy_sched y))[th_index h := TaskReady]"
    using add_task_ok [OF K(1) add.hyps(1)] by blast
  then show ?case using add.hyps(2) waiters_ready [OF K(4)] by (auto intro: kernel_ok_sched [OF add.prems])
next
  case (add_user y h ash ue us ks p s' r)
  note K = kernel_okD [OF add_user.prems]
  obtain s1 where "add_user_task cpu (sy_sched y) h ash ue us ks p = Some (s1, Inr ())" "sched_wf s1"
      "sd_task_states s1 = (sd_task_states (sy_sched y))[th_index h := TaskReady]"
    using add_user_task_ok [OF K(1) add_user.hyps(1)] by blast
  then show ?case
    using add_user.hyps(2) waiters_ready [OF K(4)] by (auto intro: kernel_ok_sched [OF add_user.prems])
next
  case (idle y h ash e sp s')
  note K = kernel_okD [OF idle.prems]
  have none: "sd_idle (sy_sched y) = None" using idle.hyps(2) by (auto simp: register_idle_def split: if_splits)
  obtain s1 where "register_idle cpu (sy_sched y) h ash e sp = Some s1" "sched_wf s1"
      "sd_task_states s1 = (sd_task_states (sy_sched y))[th_index h := TaskReady]"
    using register_idle_ok [OF K(1) idle.hyps(1) none] by blast
  then show ?case using idle.hyps(2) waiters_ready [OF K(4)] by (auto intro: kernel_ok_sched [OF idle.prems])
next
  case (start y s' sw)
  note K = kernel_okD [OF start.prems]
  show ?case using dispatch_tail_waiters [OF K(1,4)] start.hyps by (auto intro: kernel_ok_sched [OF start.prems])
next
  case (exit y s' sw)
  note K = kernel_okD [OF exit.prems]
  show ?case using dispatch_tail_waiters [OF K(1,4)] exit.hyps by (auto intro: kernel_ok_sched [OF exit.prems])
next
  case (yield y s' r)
  note K = kernel_okD [OF yield.prems]
  show ?case using yield_waiters [OF K(1,4)] yield.hyps by (auto intro: kernel_ok_sched [OF yield.prems])
next
  case (send y c ep_cap msg x s' q' t' r)
  note K = kernel_okD [OF send.prems]
  show ?case
    using send_bridge_ok [OF K(1,2,3,4), of "th_index c" ep_cap msg x] send.hyps(2) K(3) by (auto simp: kernel_ok_def)
next
  case (recv y c ep_cap s' q' t' r)
  note K = kernel_okD [OF recv.prems]
  show ?case
    using recv_bridge_ok [OF K(1,2,3,4) recv.hyps(1,2), of "th_index c" ep_cap] recv.hyps(3) K(3)
    by (auto simp: kernel_ok_def)
next
  case (resume y c ep_cap q' t' r)
  note K = kernel_okD [OF resume.prems]
  show ?case
    using resume_ok [OF K(2,3,4), of "th_index c" ep_cap] resume.hyps(2) K(1,3) by (auto simp: kernel_ok_def)
next
  case (tables f y)
  then show ?case by (simp add: kernel_ok_def)
qed

lemma reachable_ok:
  "\<lbrakk>reachable_from arena cpu y0 y; kernel_ok arena y0\<rbrakk> \<Longrightarrow> kernel_ok arena y"
  by (induction rule: reachable_from.induct) (auto intro: kernel_step_ok)

text \<open>Neither bridge switches a task to itself.\<close>

lemma yield_switches_away:
  assumes "sched_wf s" "yield_now s = Some (s', Inr (Some sw))"
  shows "sw_save sw \<noteq> Some (sw_restore sw) \<and> sw_restore sw < TASK_ARENA_CAPACITY"
proof -
  obtain rq c r where y: "yield_now s = Some (s\<lparr>sd_ready := rq, sd_current := c\<rparr>, r)"
      "sched_wf (s\<lparr>sd_ready := rq, sd_current := c\<rparr>)"
      "case r of
         Inl e \<Rightarrow> e = NoCurrentTask \<and> sd_current s = None
       | Inr None \<Rightarrow> c = sd_current s
       | Inr (Some sw) \<Rightarrow> \<exists>i h. sw_save sw = Some i \<and> c = Some h \<and> sw_restore sw = th_index h \<and> i \<noteq> th_index h"
    using yield_now_ok [OF assms(1)] by blast
  then have "r = Inr (Some sw)" using assms(2) by simp
  then obtain h where "sw_save sw \<noteq> Some (sw_restore sw)" "c = Some h" "sw_restore sw = th_index h"
    using y(3) by auto
  moreover from this have "runnable (s\<lparr>sd_ready := rq, sd_current := c\<rparr>) h" using sched_wfD(5) [OF y(2)] by simp
  ultimately show ?thesis using runnable_index by metis
qed

lemma recv_switches_away:
  assumes wf: "sched_wf s" "queues_ok arena q" "cap_wf t"
    and r: "ipc_recv_and_yield s arena q t ep_cap = Some (y, Inr (RecvSwitch sw))"
  shows "sw_save sw \<noteq> Some (sw_restore sw) \<and> sw_restore sw < TASK_ARENA_CAPACITY"
proof -
  obtain c ep q1 t1 where c: "sd_current s = Some c" "resolve_ep_cap t ep_cap = Inr ep"
      "ipc_recv arena q ep_cap t = Some ((q1, t1), Inr Pending)"
  proof (cases "sd_current s")
    case None
    then show ?thesis using r by (simp add: ipc_recv_and_yield_def)
  next
    case c: (Some c)
    show ?thesis
    proof (cases "resolve_ep_cap t ep_cap")
      case (Inl e)
      then show ?thesis using r c by (simp add: ipc_recv_and_yield_def)
    next
      case ep: (Inr ep)
      show ?thesis
      proof (cases "ipc_recv arena q ep_cap t")
        case None
        then show ?thesis using r c ep by (simp add: ipc_recv_and_yield_def)
      next
        case (Some z)
        obtain q1 t1 o1 where z: "z = ((q1, t1), o1)" by (cases z) auto
        have "o1 = Inr Pending"
        proof (cases o1)
          case (Inl e)
          then show ?thesis using r c ep Some z by (simp add: ipc_recv_and_yield_def)
        next
          case (Inr u)
          then show ?thesis using r c ep Some z by (cases u) (simp_all add: ipc_recv_and_yield_def)
        qed
        then show ?thesis using that c ep Some z by blast
      qed
    qed
  qed
  show ?thesis
  proof (cases "handover s c")
    case None
    obtain h where v: "recv_verdict arena q ep_cap t = Inr h"
    proof (cases "recv_verdict arena q ep_cap t")
      case (Inl e)
      then show ?thesis using ipc_recv_spec [OF wf(3,2), where ep_cap = ep_cap] c(3) by simp
    qed (rule that)
    have none: "parked (ep_state q h) = None"
    proof (cases "parked (ep_state q h)")
      case (Some mc)
      then show ?thesis using ipc_recv_ok(2) [OF wf(3,2) v, of "fst mc" "snd mc"] c(3) by simp
    qed
    have "q1 = set_ep q h RecvWaiting" "t1 = t" using ipc_recv_ok(1) [OF wf(3,2) v none] c(3) by simp_all
    then show ?thesis
      using recv_bridge_deadlock [OF wf(1) c _ None] cancel_after_recv(1) [OF wf(2) v none] r by simp
  next
    case (Some h)
    obtain rq where "sw = \<lparr>sw_save = Some (th_index c), sw_restore = th_index h,
             sw_activate = address_space_activation_target (sd_as_handles s ! th_index c)
                             (sd_as_handles s ! th_index h)\<rparr>"
      using recv_bridge_block [OF wf(1) c Some] r by auto
    moreover have "th_index h < TASK_ARENA_CAPACITY"
      using next_task_dequeue [OF wf(1) handover_next [OF Some]] runnable_index by blast
    ultimately show ?thesis using handover_not_self(2) [OF wf(1) c(1) Some] by auto
  qed
qed

section \<open>Properties\<close>

text \<open>The system of the instances: two registered tasks, the first running.\<close>

definition demo_cpu :: "nat cpu" where
  "demo_cpu = \<lparr>cpu_default = 0, cpu_init_context = (\<lambda>_ e sp. e), cpu_init_user_context = (\<lambda>_ e us ks. e)\<rparr>"

definition demo_fresh :: "nat system" where
  "demo_fresh = \<lparr>sy_sched = sched_new demo_cpu, sy_queues = ipc_queues_new, sy_table = (\<lambda>_. demo_table)\<rparr>"

definition demo_task :: "nat \<Rightarrow> task_handle" where
  "demo_task i = TaskHandle \<lparr>si_index = i, si_generation = 0\<rparr>"

definition demo_space :: address_space_handle where
  "demo_space = AddressSpaceHandle first_slot"

lemma demo_fresh_ok: "kernel_ok demo_arena demo_fresh"
proof -
  have "\<not> blocked_on (sched_new demo_cpu) ep i" for ep i by (auto simp: blocked_on_def sched_new_def)
  then show ?thesis
    using sched_new_wf [of demo_cpu] demo_queues_ok demo_table_wf
    by (simp add: kernel_ok_def demo_fresh_def waiters_ok_def)
qed

text \<open>
  C10: The scheduler is safe in every history. From a fresh kernel, whatever
  tasks are registered in free slots and however they start, exit, yield, send,
  receive and resume, in any order and with any handles: the invariant holds
  (a ready task is queued once, the running and the idle task are not queued,
  every blocked task waits alone on a live endpoint that records the waiter);
  yielding, sending and receiving return without a panic, a registration finds
  room, an exit finds a successor when an idle task is registered; and a switch
  never saves and restores the same slot.
\<close>

theorem scheduler_history_safe:
  assumes "kernel_ok arena y0" "reachable_from arena cpu y0 y"
  shows "kernel_ok arena y \<and> yield_now (sy_sched y) \<noteq> None \<and>
    (\<forall>c ep_cap msg x. sd_current (sy_sched y) = Some c \<longrightarrow>
       ipc_send_and_yield (sy_sched y) arena (sy_queues y) (sy_table y (th_index c)) ep_cap msg x \<noteq> None) \<and>
    (\<forall>c ep_cap. sd_current (sy_sched y) = Some c \<longrightarrow> sd_idle (sy_sched y) \<noteq> Some c \<longrightarrow>
       ipc_recv_and_yield (sy_sched y) arena (sy_queues y) (sy_table y (th_index c)) ep_cap \<noteq> None) \<and>
    (\<forall>h ash e sp. slot_free (sy_sched y) (th_index h) \<longrightarrow>
       (\<exists>s'. add_task cpu (sy_sched y) h ash e sp = Some (s', Inr ()))) \<and>
    (sd_idle (sy_sched y) \<noteq> None \<longrightarrow> task_exit_current (sy_sched y) \<noteq> None) \<and>
    (\<forall>s' sw. yield_now (sy_sched y) = Some (s', Inr (Some sw)) \<longrightarrow> sw_save sw \<noteq> Some (sw_restore sw)) \<and>
    (\<forall>t ep_cap z sw. cap_wf t \<longrightarrow>
       ipc_recv_and_yield (sy_sched y) arena (sy_queues y) t ep_cap = Some (z, Inr (RecvSwitch sw)) \<longrightarrow>
       sw_save sw \<noteq> Some (sw_restore sw))"
proof -
  have ok: "kernel_ok arena y" using assms(2,1) by (rule reachable_ok)
  note K = kernel_okD [OF ok]
  have "yield_now (sy_sched y) \<noteq> None" using yield_now_ok [OF K(1)] by auto
  moreover have "ipc_send_and_yield (sy_sched y) arena (sy_queues y) (sy_table y i) ep_cap msg x \<noteq> None" for i ep_cap msg x
    using send_bridge_ok [OF K(1,2,3,4), of i ep_cap msg x] by auto
  moreover have "ipc_recv_and_yield (sy_sched y) arena (sy_queues y) (sy_table y i) ep_cap \<noteq> None"
    if "sd_current (sy_sched y) = Some c" "sd_idle (sy_sched y) \<noteq> Some c" for c i ep_cap
    using recv_bridge_ok [OF K(1,2,3,4) that, of i ep_cap] by auto
  moreover have "\<exists>s'. add_task cpu (sy_sched y) h ash e sp = Some (s', Inr ())"
    if "slot_free (sy_sched y) (th_index h)" for h ash e sp
    using add_task_ok [OF K(1) that] by blast
  moreover have "task_exit_current (sy_sched y) \<noteq> None" if idle: "sd_idle (sy_sched y) \<noteq> None"
  proof -
    obtain h where "next_task (sy_sched y) = Some h"
      using idle by (cases "queued (sy_sched y)") (auto simp: next_task_def)
    then show ?thesis using dispatch_tail_spec [OF K(1)] by blast
  qed
  ultimately show ?thesis
    using ok yield_switches_away [OF K(1)] recv_switches_away [OF K(1,2)] by blast
qed

theorem scheduler_history_safe_witness:
  "\<exists>s'. add_task demo_cpu (sched_new demo_cpu) (demo_task 3) demo_space 0 0 = Some (s', Inr ()) \<and>
     kernel_ok demo_arena (demo_fresh\<lparr>sy_sched := s'\<rparr>) \<and> yield_now s' \<noteq> None"
proof -
  have free: "slot_free (sy_sched demo_fresh) (th_index (demo_task 3))"
    using ring_new [of TASK_ARENA_CAPACITY]
    by (simp add: slot_free_def demo_fresh_def sched_new_def queued_def th_index_def demo_task_def TASK_ARENA_CAPACITY_def)
  obtain s' where s': "add_task demo_cpu (sy_sched demo_fresh) (demo_task 3) demo_space 0 0 = Some (s', Inr ())"
    using add_task_ok [OF kernel_okD(1) [OF demo_fresh_ok] free] by blast
  have "reachable_from demo_arena demo_cpu demo_fresh (demo_fresh\<lparr>sy_sched := s'\<rparr>)"
    using kernel_step.add [OF free s'] reachable_from.intros by metis
  from scheduler_history_safe [OF demo_fresh_ok this] s' show ?thesis by (auto simp: demo_fresh_def)
qed

text \<open>
  No wake-up is lost. When a task is blocked receiving on an endpoint and
  any task's send on it is accepted, the send is a delivery: the message and the
  moved capability are waiting at the endpoint, and the blocked task is runnable
  again, queued or already running when the sender's call switches.
\<close>

theorem send_wakes_blocked_receiver:
  assumes "sched_wf s" "queues_ok arena q" "cap_wf t" "waiters_ok arena s q"
    and "send_verdict arena q ep_cap t x = Inr ep" "blocked_on s ep i"
  shows "\<exists>s' t' cap r h. ipc_send_and_yield s arena q t ep_cap msg x =
      Some ((s', set_ep q ep (RecvComplete msg cap), t'), r) \<and> cap_left t t' x cap \<and>
    (sd_current s \<noteq> None \<longrightarrow> (\<exists>sw. r = Inr (Delivered, sw))) \<and>
    sched_wf s' \<and> waiters_ok arena s' (set_ep q ep (RecvComplete msg cap)) \<and>
    sd_task_handles s ! i = Some h \<and> runnable s' h \<and> (h \<in> set (queued s') \<or> sd_current s' = Some h)"
  by (rule send_bridge_wakes [OF assms])

text \<open>Task 0 runs, task 1 is blocked on the demonstration endpoint.\<close>

definition demo_sched :: "nat scheduler" where
  "demo_sched = (sched_new demo_cpu)
     \<lparr>sd_task_states := [TaskReady, TaskBlocked demo_ep] @ replicate 14 TaskIdle,
      sd_task_handles := [Some (demo_task 0), Some (demo_task 1)] @ replicate 14 None,
      sd_current := Some (demo_task 0)\<rparr>"

definition demo_waiting :: ipc_queues where
  "demo_waiting = set_ep ipc_queues_new demo_ep RecvWaiting"

lemma demo_sched_fields:
  "queued demo_sched = []" "sd_current demo_sched = Some (demo_task 0)" "sd_idle demo_sched = None"
  "th_index (demo_task i) = i" "runnable demo_sched (demo_task 0)"
  "blocked_on demo_sched ep i \<longleftrightarrow> ep = demo_ep \<and> i = 1"
proof -
  show "queued demo_sched = []"
    using ring_new [of TASK_ARENA_CAPACITY]
    by (simp add: demo_sched_def sched_new_def queued_def TASK_ARENA_CAPACITY_def)
  show "blocked_on demo_sched ep i \<longleftrightarrow> ep = demo_ep \<and> i = 1"
    by (auto simp: blocked_on_def demo_sched_def nth_Cons nth_append TASK_ARENA_CAPACITY_def split: nat.splits if_splits)
qed (simp_all add: demo_sched_def sched_new_def demo_task_def th_index_def runnable_def bound_task_def TASK_ARENA_CAPACITY_def)

lemma demo_sched_wf: "sched_wf demo_sched"
proof (rule sched_wfI)
  show "\<exists>h. sd_task_handles demo_sched ! i = Some h \<and> th_index h = i"
    if "i < TASK_ARENA_CAPACITY" "sd_task_states demo_sched ! i = TaskBlocked ep" for i ep
  proof -
    have "i = 1" using that demo_sched_fields(6) [of ep i] by (simp add: blocked_on_def)
    then show ?thesis by (simp add: demo_sched_def demo_task_def th_index_def)
  qed
qed (use ring_new [of TASK_ARENA_CAPACITY] demo_sched_fields in
    \<open>simp_all add: demo_sched_def sched_new_def sized_def TASK_ARENA_CAPACITY_def\<close>)

lemma demo_waiting_ok:
  "queues_ok demo_arena demo_waiting" "ep_state demo_waiting demo_ep = RecvWaiting"
  "waiters_ok demo_arena demo_sched demo_waiting"
proof -
  show "queues_ok demo_arena demo_waiting" unfolding demo_waiting_def using demo_queues_ok demo_ep_live by (rule set_ep_ok)
  show st: "ep_state demo_waiting demo_ep = RecvWaiting"
    unfolding demo_waiting_def using ep_state_set_ep [OF demo_queues_ok demo_ep_live demo_ep_live] by simp
  show "waiters_ok demo_arena demo_sched demo_waiting"
    unfolding waiters_ok_def demo_sched_fields(6) using demo_ep_live st by auto
qed

theorem send_wakes_blocked_receiver_witness:
  "\<exists>s' sw. ipc_send_and_yield demo_sched demo_arena demo_waiting demo_table (demo_handle 0) demo_msg None =
      Some ((s', set_ep demo_waiting demo_ep (RecvComplete demo_msg None), demo_table), Inr (Delivered, sw)) \<and>
    (demo_task 1 \<in> set (queued s') \<or> sd_current s' = Some (demo_task 1))"
proof -
  have v: "send_verdict demo_arena demo_waiting (demo_handle 0) demo_table None = Inr demo_ep"
    using send_verdict_Inr [OF demo_send_verdict] demo_waiting_ok(2)
    by (simp add: send_verdict_def transfer_ok_def queue_occupied_def)
  have b: "blocked_on demo_sched demo_ep 1" by (simp add: demo_sched_fields)
  have "sd_task_handles demo_sched ! 1 = Some (demo_task 1)" by (simp add: demo_sched_def)
  then show ?thesis
    using send_wakes_blocked_receiver [OF demo_sched_wf demo_waiting_ok(1) demo_table_wf demo_waiting_ok(3) v b,
        of demo_msg] demo_sched_fields(2)
    by (auto simp: cap_left_def)
qed

text \<open>
  C33: A receive that would deadlock leaves no trace. When no other task can run,
  ipc_recv_and_yield reports Deadlock with the scheduler exactly as it was, the
  caller's table unchanged and the state of every live endpoint as before the
  call, so that a retry behaves like the first attempt.
\<close>

theorem recv_deadlock_rolls_back:
  assumes "sched_wf s" "queues_ok arena q" "cap_wf t" "sd_current s = Some c"
    and "recv_verdict arena q ep_cap t = Inr h" "parked (ep_state q h) = None"
    and "handover s c = None"
  shows "\<exists>q'. ipc_recv_and_yield s arena q t ep_cap = Some ((s, q', t), Inl Deadlock) \<and> queues_ok arena q' \<and>
    (\<forall>k. ep_live arena k \<longrightarrow> ep_state q' k = ep_state q k)"
proof -
  have ep: "resolve_ep_cap t ep_cap = Inr h" using recv_verdict_Inr [OF assms(5)] validate_resolve by blast
  note recv = ipc_recv_ok(1) [OF assms(3,2,5,6)] and undo = cancel_after_recv [OF assms(2,5,6)]
  show ?thesis
    using recv_bridge_deadlock [OF assms(1,4) ep recv undo(1) assms(7)] undo(2,3) by blast
qed

theorem recv_deadlock_rolls_back_witness:
  "\<exists>q'. ipc_recv_and_yield demo_sched demo_arena ipc_queues_new demo_table (demo_handle 0) =
     Some ((demo_sched, q', demo_table), Inl Deadlock) \<and> ep_state q' demo_ep = Idle"
proof -
  have v: "recv_verdict demo_arena ipc_queues_new (demo_handle 0) demo_table = Inr demo_ep"
    by (rule demo_recv_verdict) (simp add: demo_idle)
  have "parked (ep_state ipc_queues_new demo_ep) = None" by (simp add: demo_idle parked_def)
  moreover have "handover demo_sched (demo_task 0) = None" by (simp add: handover_def demo_sched_fields)
  ultimately show ?thesis
    using recv_deadlock_rolls_back [OF demo_sched_wf demo_queues_ok demo_table_wf demo_sched_fields(2) v]
      demo_ep_live demo_idle by auto
qed

text \<open>Yielding in a row, by whichever task then runs.\<close>

fun yields :: "nat \<Rightarrow> 'c scheduler \<Rightarrow> 'c scheduler option" where
  "yields 0 s = Some s"
| "yields (Suc n) s = do { (s', r) \<leftarrow> yield_now s; yields n s' }"

lemma yields_reach:
  "\<lbrakk>sched_wf s; sd_current s \<noteq> None; k < length (queued s)\<rbrakk> \<Longrightarrow>
     \<exists>s'. yields (Suc k) s = Some s' \<and> sched_wf s' \<and> sd_current s' = Some (queued s ! k)"
proof (induction k arbitrary: s)
  case (0 s)
  then obtain c h hs where c: "sd_current s = Some c" "queued s = h # hs" by (cases "queued s") auto
  then obtain q where q: "\<exists>r. yield_now s = Some (s\<lparr>sd_ready := q, sd_current := Some h\<rparr>, r)"
    using yield_now_spec [OF 0(1) c(1)] by auto
  then have "sched_wf (s\<lparr>sd_ready := q, sd_current := Some h\<rparr>)" using yield_now_ok [OF 0(1)] by auto
  then show ?case using q c(2) by auto
next
  case (Suc k s)
  then obtain c h hs where c: "sd_current s = Some c" "queued s = h # hs" by (cases "queued s") auto
  obtain q where q: "ring_items q = hs @ (if sd_idle s = Some c then [] else [c])"
      "\<exists>r. yield_now s = Some (s\<lparr>sd_ready := q, sd_current := Some h\<rparr>, r)"
    using yield_now_spec [OF Suc.prems(1) c(1)] c(2) by auto
  let ?s = "s\<lparr>sd_ready := q, sd_current := Some h\<rparr>"
  have "sched_wf ?s" using yield_now_ok [OF Suc.prems(1)] q(2) by auto
  moreover have "k < length (queued ?s)" "queued ?s ! k = queued s ! Suc k"
    using Suc.prems(3) q(1) c(2) by (auto simp: nth_append)
  ultimately show ?case using Suc.IH [of ?s] q(2) by auto
qed

text \<open>
  C34: Ready tasks run in turn. If the running task yields, and so does every
  task after it, the task at position \<open>k\<close> of the ready queue runs after exactly
  \<open>k + 1\<close> yields: no ready task starves.
\<close>

theorem yield_round_robin:
  assumes "sched_wf s" "sd_current s \<noteq> None" "k < length (queued s)"
  shows "\<exists>s'. yields (Suc k) s = Some s' \<and> sched_wf s' \<and> sd_current s' = Some (queued s ! k)"
  using assms by (rule yields_reach)

theorem yield_round_robin_witness:
  "\<exists>s s'. add_task demo_cpu demo_sched (demo_task 3) demo_space 0 0 = Some (s, Inr ()) \<and>
     yields (Suc 0) s = Some s' \<and> sd_current s' = Some (demo_task 3)"
proof -
  have "slot_free demo_sched (th_index (demo_task 3))"
    by (simp add: slot_free_def demo_sched_fields TASK_ARENA_CAPACITY_def)
  from add_task_ok [OF demo_sched_wf this] obtain s where
    s: "add_task demo_cpu demo_sched (demo_task 3) demo_space 0 0 = Some (s, Inr ())" "sched_wf s"
      "queued s = [demo_task 3]" "sd_current s = Some (demo_task 0)"
    unfolding demo_sched_fields by fastforce
  then show ?thesis using yield_round_robin [OF s(2), of 0] by auto
qed



text \<open>A kernel task registered in a slot keeps the slot's earlier bindings.\<close>

lemma add_task_keeps_bindings:
  assumes "add_task cpu s h ash e sp = Some (s', r)"
  shows "sd_cap_tables s' = sd_cap_tables s \<and> sd_user_windows s' = sd_user_windows s"
proof -
  obtain ctx contexts ready q where q: "nth_opt (sd_contexts s) (th_index h) = Some ctx"
      "put_at (sd_contexts s) (th_index h) (cpu_init_context cpu ctx e sp) = Some contexts"
      "sq_enqueue (sd_ready s) h = Some (ready, q)"
    using assms by (auto simp: add_task_def bind_eq_Some_conv)
  show ?thesis
    using assms q
    by (cases q) (auto simp: add_task_def bind_task_def Let_def bind_eq_Some_conv)
qed

end
