(* ===== verification/PageTables.thy ===== *)
theory PageTables
  imports Mmu
begin

text \<open>
  The translation tables as a tree in memory, the abstraction under which the
  walk of \<open>bsp-qemu-virt/src/mmu.rs\<close> is proved. A path of table indices names a
  table; \<open>descend\<close> follows it. The tables of an address space are well formed
  when they are distinct aligned frames of the direct map and every valid leaf
  is a page. \<open>page_view\<close> is what a walk reads at a page. The lemmas say what one
  write does to the tree: a leaf write changes the view at one page, linking a
  fresh zeroed table changes no view at all.
\<close>

unbundle bit_operations_syntax

section \<open>Arithmetic of indices and addresses\<close>

lemma va_index_eq: "s \<le> 39 \<Longrightarrow> va_index va s = va div 2 ^ s mod 512"
proof -
  assume s: "s \<le> 39"
  have "(0x1FF :: 64 word) = mask 9" by (simp add: mask_eq_exp_minus_1)
  then have "va_index va s = unat (take_bit 9 (drop_bit s (of_nat va :: 64 word)))"
    by (simp add: va_index_def VA_INDEX_MASK_def take_bit_eq_mask)
  also have "\<dots> = take_bit 9 (drop_bit s (take_bit 64 va))"
    by (simp add: unsigned_take_bit_eq unat_drop_bit_eq unsigned_of_nat)
  also have "\<dots> = take_bit 9 (drop_bit s va)"
    using s by (simp add: drop_bit_take_bit min_absorb1)
  finally show ?thesis by (simp add: take_bit_eq_mod drop_bit_eq_div)
qed

lemmas shifts = VA_L0_SHIFT_def VA_L1_SHIFT_def VA_L2_SHIFT_def VA_L3_SHIFT_def

definition table_path :: "nat \<Rightarrow> nat list" where
  "table_path va = [va_index va VA_L0_SHIFT, va_index va VA_L1_SHIFT, va_index va VA_L2_SHIFT]"

definition leaf_index :: "nat \<Rightarrow> nat" where
  "leaf_index va = va_index va VA_L3_SHIFT"

definition page_of :: "nat \<Rightarrow> nat list \<times> nat" where
  "page_of va = (table_path va, leaf_index va)"

text \<open>Two addresses have the same page exactly when bits 47:12 agree.\<close>

definition page_number :: "nat \<Rightarrow> nat" where
  "page_number va = va div 4096 mod 2 ^ 36"

lemma page_number_digits:
  "page_number va = leaf_index va + 512 * (va_index va VA_L2_SHIFT + 512 * (va_index va VA_L1_SHIFT + 512 * va_index va VA_L0_SHIFT))"
proof -
  define q where "q = va div 4096"
  have i: "leaf_index va = q mod 512" "va_index va VA_L2_SHIFT = q div 512 mod 512"
      "va_index va VA_L1_SHIFT = q div 512 div 512 mod 512" "va_index va VA_L0_SHIFT = q div 512 div 512 div 512 mod 512"
    by (simp_all add: leaf_index_def shifts va_index_eq q_def div_mult2_eq [symmetric])
  have "(2 :: nat) ^ 36 = 512 * (512 * (512 * 512))" by simp
  then show ?thesis unfolding i page_number_def q_def [symmetric] by (simp only: mod_mult2_eq) simp
qed

lemma digits_bound: "va_index va VA_L0_SHIFT < 512" "va_index va VA_L1_SHIFT < 512"
    "va_index va VA_L2_SHIFT < 512" "leaf_index va < 512"
  by (simp_all add: leaf_index_def shifts va_index_eq)

lemma digit_eq:
  assumes "a < 512" "b < (512 :: nat)"
  shows "a + 512 * x = b + 512 * y \<longleftrightarrow> a = b \<and> x = y"
proof
  assume e: "a + 512 * x = b + 512 * y"
  have "a = (a + 512 * x) mod 512" "b = (b + 512 * y) mod 512" using assms by simp_all
  with e have "a = b" by metis
  with e show "a = b \<and> x = y" by simp
qed simp

lemma page_of_eq_iff: "page_of va = page_of va' \<longleftrightarrow> page_number va = page_number va'"
  unfolding page_number_digits page_of_def table_path_def digit_eq [OF digits_bound(4) digits_bound(4)]
    digit_eq [OF digits_bound(3) digits_bound(3)] digit_eq [OF digits_bound(2) digits_bound(2)]
    prod.inject list.inject by blast

section \<open>Entries\<close>

text \<open>A frame that the direct map reaches, and the address of its entry.\<close>

definition direct_frame :: "phys_frame \<Rightarrow> bool" where
  "direct_frame t \<longleftrightarrow> frame_addr t mod 4096 = 0 \<and> frame_addr t < 0x100000000"

definition kva :: "phys_frame \<Rightarrow> nat" where
  "kva t = 0xFFFFFFFF00000000 + frame_addr t"

definition entry :: "memory \<Rightarrow> phys_frame \<Rightarrow> nat \<Rightarrow> 64 word" where
  "entry m t i = read_u64 m (kva t + 8 * i)"

definition frame_bytes :: "phys_frame \<Rightarrow> nat set" where
  "frame_bytes t = {kva t..<kva t + 4096}"

lemma entry_ptr_eq: "direct_frame t \<Longrightarrow> entry_ptr t i = Some (kva t + 8 * i)"
  by (simp add: entry_ptr_def direct_frame_def phys_to_kernel_va_eq kva_def)

lemma frames_disjoint:
  assumes "direct_frame s" "direct_frame t" "s \<noteq> t"
  shows "frame_addr s + 4096 \<le> frame_addr t \<or> frame_addr t + 4096 \<le> frame_addr s"
proof -
  obtain a b where ab: "frame_addr s = 4096 * a" "frame_addr t = 4096 * b"
    using assms(1,2) by (auto simp: direct_frame_def elim!: dvdE simp flip: dvd_eq_mod_eq_0)
  moreover have "a \<noteq> b" using assms(3) ab by (cases s; cases t) auto
  ultimately show ?thesis by auto
qed

lemma frame_bytes_disjoint:
  "\<lbrakk>direct_frame s; direct_frame t; s \<noteq> t\<rbrakk> \<Longrightarrow> frame_bytes s \<inter> frame_bytes t = {}"
  using frames_disjoint [of s t] by (auto simp: frame_bytes_def kva_def)

text \<open>Memory agrees on a frame.\<close>

definition same_on :: "phys_frame \<Rightarrow> memory \<Rightarrow> memory \<Rightarrow> bool" where
  "same_on t m m' \<longleftrightarrow> (\<forall>a \<in> frame_bytes t. m' a = m a)"

lemma same_on_refl [simp]: "same_on t m m"
  by (simp add: same_on_def)

lemma same_on_trans: "\<lbrakk>same_on t m m'; same_on t m' m''\<rbrakk> \<Longrightarrow> same_on t m m''"
  by (simp add: same_on_def)

lemma entry_same: "\<lbrakk>same_on t m m'; i < 512\<rbrakk> \<Longrightarrow> entry m' t i = entry m t i"
  unfolding entry_def by (rule read_u64_cong) (auto simp: same_on_def frame_bytes_def)

definition put_entry :: "memory \<Rightarrow> phys_frame \<Rightarrow> nat \<Rightarrow> 64 word \<Rightarrow> memory" where
  "put_entry m t i v = write_u64 m (kva t + 8 * i) v"

lemma put_entry_other:
  assumes "direct_frame s" "direct_frame t" "s \<noteq> t" "i < 512"
  shows "same_on s m (put_entry m t i v)"
  using frames_disjoint [OF assms(1-3)] assms(4)
  by (auto simp: same_on_def put_entry_def write_u64_def frame_bytes_def kva_def)

lemma entry_put:
  assumes "direct_frame s" "direct_frame t" "i < 512" "j < 512"
  shows "entry (put_entry m t i v) s j = (if s = t \<and> j = i then v else entry m s j)"
proof (cases "s = t")
  case True
  then show ?thesis
    by (cases i j rule: linorder_cases) (simp_all add: entry_def put_entry_def read_write_u64_other)
next
  case False
  then show ?thesis using entry_same [OF put_entry_other [OF assms(1,2) False assms(3)] assms(4)] by simp
qed

definition zero_frame :: "memory \<Rightarrow> phys_frame \<Rightarrow> memory" where
  "zero_frame m t = write_bytes m (kva t) 0 4096"

lemma zero_frame_other: "\<lbrakk>direct_frame s; direct_frame t; s \<noteq> t\<rbrakk> \<Longrightarrow> same_on s m (zero_frame m t)"
  using frames_disjoint [of s t] by (auto simp: same_on_def zero_frame_def write_bytes_def frame_bytes_def kva_def)

lemma entry_zero_frame: "i < 512 \<Longrightarrow> entry (zero_frame m t) t i = 0"
  by (simp add: entry_def zero_frame_def read_u64_zeroed)

section \<open>The tree\<close>

definition step :: "memory \<Rightarrow> phys_frame \<Rightarrow> nat \<Rightarrow> mmu_error + phys_frame" where
  "step m t i =
     (let e = entry m t i
      in if \<not> bit e 0 then Inl NotMapped
         else if \<not> bit e 1 then Inl BlockMapped
         else Inr (PhysFrame (unat (e AND TABLE_NLA_MASK))))"

fun descend :: "memory \<Rightarrow> phys_frame \<Rightarrow> nat list \<Rightarrow> mmu_error + phys_frame" where
  "descend m t [] = Inr t"
| "descend m t (i # is) = (case step m t i of Inl e \<Rightarrow> Inl e | Inr t' \<Rightarrow> descend m t' is)"

lemma descend_snoc:
  "descend m t (p @ [i]) = (case descend m t p of Inl e \<Rightarrow> Inl e | Inr t' \<Rightarrow> step m t' i)"
  by (induction p arbitrary: t) (auto split: sum.splits)

definition is_path :: "nat list \<Rightarrow> bool" where
  "is_path p \<longleftrightarrow> length p \<le> 3 \<and> (\<forall>i \<in> set p. i < 512)"

lemma is_path_Nil [simp]: "is_path []"
  by (simp add: is_path_def)

lemma is_path_snoc: "is_path (p @ [i]) \<longleftrightarrow> is_path p \<and> length p < 3 \<and> i < 512"
  by (auto simp: is_path_def)

definition tree_wf :: "memory \<Rightarrow> phys_frame \<Rightarrow> bool" where
  "tree_wf m r \<longleftrightarrow>
     (\<forall>p t. is_path p \<longrightarrow> descend m r p = Inr t \<longrightarrow> direct_frame t) \<and>
     (\<forall>p q t. is_path p \<longrightarrow> is_path q \<longrightarrow> descend m r p = Inr t \<longrightarrow> descend m r q = Inr t \<longrightarrow> p = q) \<and>
     (\<forall>p t i. is_path p \<longrightarrow> length p = 3 \<longrightarrow> descend m r p = Inr t \<longrightarrow> i < 512 \<longrightarrow>
        bit (entry m t i) 0 \<longrightarrow> bit (entry m t i) 1 \<and> bit (entry m t i) 10)"

lemma tree_wfD:
  assumes "tree_wf m r"
  shows "\<lbrakk>is_path p; descend m r p = Inr t\<rbrakk> \<Longrightarrow> direct_frame t"
    and "\<lbrakk>is_path p; is_path q; descend m r p = Inr t; descend m r q = Inr t\<rbrakk> \<Longrightarrow> p = q"
    and "\<lbrakk>is_path p; length p = 3; descend m r p = Inr t; i < 512; bit (entry m t i) 0\<rbrakk> \<Longrightarrow>
           bit (entry m t i) 1 \<and> bit (entry m t i) 10"
  using assms unfolding tree_wf_def by blast+

definition tables :: "memory \<Rightarrow> phys_frame \<Rightarrow> phys_frame set" where
  "tables m r = {t. \<exists>p. is_path p \<and> descend m r p = Inr t}"

text \<open>What a walk reads at a page: the frame and the flags, or why there is none.\<close>

definition leaf_view :: "64 word \<Rightarrow> translation" where
  "leaf_view e =
     (if bit e 0 then Inr (PhysFrame (unat (e AND PAGE_OA_MASK_L3)), descriptor_bits_to_flags e)
      else Inl NotMapped)"

definition page_view :: "memory \<Rightarrow> phys_frame \<Rightarrow> nat list \<times> nat \<Rightarrow> translation" where
  "page_view m r pg =
     (case descend m r (fst pg) of Inl e \<Rightarrow> Inl e | Inr t \<Rightarrow> leaf_view (entry m t (snd pg)))"

definition is_page :: "nat list \<times> nat \<Rightarrow> bool" where
  "is_page pg \<longleftrightarrow> is_path (fst pg) \<and> length (fst pg) = 3 \<and> snd pg < 512"

lemma is_page_page_of [simp]: "is_page (page_of va)"
  using digits_bound [of va] by (simp add: is_page_def page_of_def is_path_def table_path_def)

lemma same_view:
  assumes "\<And>p. is_path p \<Longrightarrow> descend m' r p = descend m r p"
    and "\<And>p t i. \<lbrakk>is_path p; length p = 3; descend m r p = Inr t; i < 512\<rbrakk> \<Longrightarrow> entry m' t i = entry m t i"
    and "is_page pg"
  shows "page_view m' r pg = page_view m r pg"
  using assms by (auto simp: page_view_def is_page_def split: sum.splits)

text \<open>A tree lives in its tables: memory that agrees on them has the same tree.\<close>

lemma descend_same:
  assumes "\<And>t. t \<in> tables m r \<Longrightarrow> same_on t m m'" "is_path p"
  shows "descend m' r p = descend m r p"
  using assms(2)
proof (induction p rule: rev_induct)
  case (snoc i p)
  then have p: "is_path p" "i < 512" and IH: "descend m' r p = descend m r p" by (simp_all add: is_path_snoc)
  show ?case
  proof (cases "descend m r p")
    case (Inr t)
    then have "entry m' t i = entry m t i"
      using assms(1) p by (intro entry_same) (auto simp: tables_def)
    then show ?thesis using IH Inr by (simp add: descend_snoc step_def)
  qed (use IH in \<open>simp add: descend_snoc\<close>)
qed simp

lemma tree_same:
  assumes "\<And>t. t \<in> tables m r \<Longrightarrow> same_on t m m'"
  shows "tree_wf m' r = tree_wf m r" "tables m' r = tables m r"
    "is_page pg \<Longrightarrow> page_view m' r pg = page_view m r pg"
proof -
  note d = descend_same [OF assms]
  have e: "entry m' t i = entry m t i" if "is_path p" "descend m r p = Inr t" "i < 512" for p t i
    using assms that by (intro entry_same) (auto simp: tables_def)
  show "tables m' r = tables m r" using d by (auto simp: tables_def)
  show "is_page pg \<Longrightarrow> page_view m' r pg = page_view m r pg" by (rule same_view) (use d e in auto)
  have "(\<forall>p t i. is_path p \<longrightarrow> length p = 3 \<longrightarrow> descend m' r p = Inr t \<longrightarrow> i < 512 \<longrightarrow>
        bit (entry m' t i) 0 \<longrightarrow> bit (entry m' t i) 1 \<and> bit (entry m' t i) 10) \<longleftrightarrow>
      (\<forall>p t i. is_path p \<longrightarrow> length p = 3 \<longrightarrow> descend m r p = Inr t \<longrightarrow> i < 512 \<longrightarrow>
        bit (entry m t i) 0 \<longrightarrow> bit (entry m t i) 1 \<and> bit (entry m t i) 10)"
    using d e by metis
  moreover have "(\<forall>p t. is_path p \<longrightarrow> descend m' r p = Inr t \<longrightarrow> direct_frame t) \<longleftrightarrow>
      (\<forall>p t. is_path p \<longrightarrow> descend m r p = Inr t \<longrightarrow> direct_frame t)" using d by metis
  moreover have "(\<forall>p q t. is_path p \<longrightarrow> is_path q \<longrightarrow> descend m' r p = Inr t \<longrightarrow> descend m' r q = Inr t \<longrightarrow> p = q) \<longleftrightarrow>
      (\<forall>p q t. is_path p \<longrightarrow> is_path q \<longrightarrow> descend m r p = Inr t \<longrightarrow> descend m r q = Inr t \<longrightarrow> p = q)" using d by metis
  ultimately show "tree_wf m' r = tree_wf m r" unfolding tree_wf_def by simp
qed

section \<open>One step of the walk\<close>

lemma masked_aligned: "unat ((e :: 64 word) AND TABLE_NLA_MASK) mod 4096 = 0"
    "unat ((e :: 64 word) AND PAGE_OA_MASK_L3) mod 4096 = 0"
proof -
  have *: "unat (w :: 64 word) mod 4096 = 0" if "\<And>n. n < 12 \<Longrightarrow> \<not> bit w n" for w
  proof -
    have "take_bit 12 w = 0" by (rule bit_eqI) (use that in \<open>auto simp: bit_take_bit_iff\<close>)
    then have "take_bit 12 (unat w) = 0" by (metis unsigned_0 unsigned_take_bit_eq)
    then show ?thesis by (simp add: take_bit_eq_mod)
  qed
  show "unat (e AND TABLE_NLA_MASK) mod 4096 = 0" "unat (e AND PAGE_OA_MASK_L3) mod 4096 = 0"
    by (rule *, simp add: bit_and_iff bit_oa_masks)+
qed

lemma and_AF: "d AND DESC_AF_BIT = 0 \<longleftrightarrow> \<not> bit d 10"
  unfolding DESC_AF_BIT_def by (rule bit_and_single) simp

lemma walk_read:
  "direct_frame t \<Longrightarrow> walk_or_alloc_table alloc t i True (p, m) = Some ((p, m), step m t i)"
  by (simp add: walk_or_alloc_table_def entry_ptr_eq Let_def and_desc_consts step_def entry_def
      frame_from_aligned_def PAGE_SIZE_def masked_aligned ok_or_def del: bit_0)

lemma walk_table:
  "\<lbrakk>direct_frame t; step m t i = Inr t'\<rbrakk> \<Longrightarrow> walk_or_alloc_table alloc t i False (p, m) = Some ((p, m), Inr t')"
  "\<lbrakk>direct_frame t; step m t i = Inl BlockMapped\<rbrakk> \<Longrightarrow>
     walk_or_alloc_table alloc t i False (p, m) = Some ((p, m), Inl AlreadyMapped)"
  by (auto simp: walk_or_alloc_table_def entry_ptr_eq Let_def and_desc_consts step_def entry_def
      frame_from_aligned_def PAGE_SIZE_def masked_aligned ok_or_def simp del: bit_0 split: if_splits)

lemma walk_alloc:
  "\<lbrakk>direct_frame t; step m t i = Inl NotMapped\<rbrakk> \<Longrightarrow>
     walk_or_alloc_table alloc t i False (p, m) =
       (case alloc p m of
          None \<Rightarrow> None
        | Some (pm, None) \<Rightarrow> Some (pm, Inl MmuOutOfFrames)
        | Some (pm, Some f) \<Rightarrow>
            Some ((fst pm, put_entry (snd pm) t i (table_descriptor (of_nat (frame_addr f)))), Inr f))"
  by (cases "alloc p m")
    (auto simp: walk_or_alloc_table_def entry_ptr_eq Let_def and_desc_consts step_def entry_def put_entry_def
      simp del: bit_0 split: if_splits option.splits)

lemma step_cases:
  obtains (missing) "step m t i = Inl NotMapped" | (block) "step m t i = Inl BlockMapped" | (table) t' where "step m t i = Inr t'"
  unfolding step_def Let_def by metis

section \<open>Writing a leaf\<close>

lemma descend_put_leaf:
  assumes wf: "tree_wf m r" and at: "is_path p" "length p = 3" "descend m r p = Inr t" "i < 512" and q: "is_path q"
  shows "descend (put_entry m t i v) r q = descend m r q"
  using q
proof (induction q rule: rev_induct)
  case (snoc j q)
  then have q: "is_path q" "length q < 3" "j < 512"
    and IH: "descend (put_entry m t i v) r q = descend m r q" by (simp_all add: is_path_snoc)
  show ?case
  proof (cases "descend m r q")
    case (Inr s)
    have "s \<noteq> t" using tree_wfD(2) [OF wf at(1) q(1) at(3)] Inr at(2) q(2) by auto
    then have "entry (put_entry m t i v) s j = entry m s j"
      using tree_wfD(1) [OF wf q(1) Inr] tree_wfD(1) [OF wf at(1,3)] at(4) q(3) by (simp add: entry_put)
    then show ?thesis using IH Inr by (simp add: descend_snoc step_def)
  qed (use IH in \<open>simp add: descend_snoc\<close>)
qed simp

lemma put_leaf:
  assumes wf: "tree_wf m r" and pg: "is_page pg" and at: "descend m r (fst pg) = Inr t"
    and v: "bit v 0 \<Longrightarrow> bit v 1 \<and> bit v 10"
  defines "m' \<equiv> put_entry m t (snd pg) v"
  shows "tree_wf m' r" "tables m' r = tables m r"
    "is_page pg' \<Longrightarrow> page_view m' r pg' = ((page_view m r)(pg := leaf_view v)) pg'"
    "\<lbrakk>direct_frame s; s \<notin> tables m r\<rbrakk> \<Longrightarrow> same_on s m m'"
proof -
  have p: "is_path (fst pg)" "length (fst pg) = 3" "snd pg < 512" using pg by (simp_all add: is_page_def)
  note d = descend_put_leaf [OF wf p(1,2) at p(3), of _ v, folded m'_def]
  have t: "direct_frame t" using tree_wfD(1) [OF wf p(1) at] .
  have e: "entry m' s j = (if s = t \<and> j = snd pg then v else entry m s j)"
    if "is_path q" "descend m r q = Inr s" "j < 512" for q s j
    unfolding m'_def by (rule entry_put [OF tree_wfD(1) [OF wf that(1,2)] t p(3) that(3)])
  show "tables m' r = tables m r" using d by (auto simp: tables_def)
  show "tree_wf m' r" unfolding tree_wf_def
  proof (intro conjI allI impI)
    fix q s j assume q: "is_path q" "length q = 3" "descend m' r q = Inr s" "j < 512" "bit (entry m' s j) 0"
    then have q': "descend m r q = Inr s" using d by metis
    show "bit (entry m' s j) 1" "bit (entry m' s j) 10"
      using tree_wfD(3) [OF wf q(1,2) q' q(4)] q(5) v unfolding e [OF q(1) q' q(4)] by metis+
  qed (use wf d in \<open>metis tree_wfD\<close>)+
  show "page_view m' r pg' = ((page_view m r)(pg := leaf_view v)) pg'" if "is_page pg'"
  proof -
    have p': "is_path (fst pg')" "snd pg' < 512" using that by (simp_all add: is_page_def)
    show ?thesis
    proof (cases "descend m r (fst pg')")
      case (Inl x)
      then have "pg' \<noteq> pg" using at by auto
      then show ?thesis using Inl d [OF p'(1)] by (simp add: page_view_def)
    next
      case (Inr s)
      have "s = t \<and> snd pg' = snd pg \<longleftrightarrow> pg' = pg"
        using tree_wfD(2) [OF wf p'(1) p(1)] Inr at by (auto simp: prod_eq_iff)
      then show ?thesis using Inr d [OF p'(1)] e [OF p'(1) Inr p'(2)] by (simp add: page_view_def)
    qed
  qed
  show "same_on s m m'" if "direct_frame s" "s \<notin> tables m r"
    unfolding m'_def using that t p at by (intro put_entry_other) (auto simp: tables_def)
qed

section \<open>Linking a fresh table\<close>

lemma address_masked:
  assumes "a mod 4096 = 0" "a < 2 ^ 48"
  shows "unat ((of_nat a :: 64 word) AND TABLE_NLA_MASK) = a"
    "unat ((of_nat a :: 64 word) AND PAGE_OA_MASK_L3) = a"
proof -
  have a: "take_bit 48 a = a" "take_bit 12 a = 0" using assms by (simp_all add: take_bit_eq_mod)
  then have "bit a n \<Longrightarrow> 12 \<le> n \<and> n < 48" for n
    using bit_take_bit_iff [of 48 a n] bit_take_bit_iff [of 12 a n] by auto
  then have "(of_nat a :: 64 word) AND TABLE_NLA_MASK = of_nat a"
      "(of_nat a :: 64 word) AND PAGE_OA_MASK_L3 = of_nat a"
    by (auto intro!: bit_eqI simp: bit_and_iff bit_oa_masks bit_of_nat_iff)
  moreover have "unat (of_nat a :: 64 word) = a" using assms(2) by (simp add: unat_of_nat)
  ultimately show "unat ((of_nat a :: 64 word) AND TABLE_NLA_MASK) = a"
    "unat ((of_nat a :: 64 word) AND PAGE_OA_MASK_L3) = a" by simp_all
qed

lemma frame_word_masked:
  "direct_frame f \<Longrightarrow> unat ((of_nat (frame_addr f) :: 64 word) AND TABLE_NLA_MASK) = frame_addr f"
  by (rule address_masked) (simp_all add: direct_frame_def)

lemma leaf_view_page:
  assumes "frame_addr pa mod 4096 = 0" "frame_addr pa < 2 ^ 48"
  shows "leaf_view (page_descriptor (of_nat (frame_addr pa)) (flags_to_descriptor_bits fl)) = Inr (pa, mf_effective fl)"
  using address_masked(2) [OF assms]
  by (simp add: leaf_view_def decode_page page_address bit_page_descriptor leaf_bit_def del: bit_0)

lemma bit_table_descriptor_01: "bit (table_descriptor pa) 0" "bit (table_descriptor pa) 1"
  by (simp_all only: bit_table_descriptor simp_thms)

definition link :: "memory \<Rightarrow> phys_frame \<Rightarrow> nat \<Rightarrow> phys_frame \<Rightarrow> memory" where
  "link m t i f = put_entry (zero_frame m f) t i (table_descriptor (of_nat (frame_addr f)))"

lemma link_entries:
  assumes "direct_frame t" "direct_frame f" "t \<noteq> f" "i < 512" "j < 512"
  shows "entry (link m t i f) f j = 0"
    "step (link m t i f) t i = Inr f"
    "\<lbrakk>direct_frame s; s \<noteq> f; \<not> (s = t \<and> j = i)\<rbrakk> \<Longrightarrow> entry (link m t i f) s j = entry m s j"
proof -
  show "entry (link m t i f) f j = 0"
    using assms by (simp add: link_def entry_put entry_zero_frame)
  show "step (link m t i f) t i = Inr f"
    using assms by (simp add: link_def entry_put step_def bit_table_descriptor_01 table_address frame_word_masked
        del: bit_0 One_nat_def)
  show "entry (link m t i f) s j = entry m s j" if "direct_frame s" "s \<noteq> f" "\<not> (s = t \<and> j = i)"
    using assms that entry_same [OF zero_frame_other [OF that(1) assms(2) that(2)] assms(5)]
    by (auto simp: link_def entry_put)
qed

text \<open>The situation in which the walk links \<open>f\<close>: the entry at the end of a path is missing.\<close>

definition linkable :: "memory \<Rightarrow> phys_frame \<Rightarrow> nat list \<Rightarrow> phys_frame \<Rightarrow> nat \<Rightarrow> phys_frame \<Rightarrow> bool" where
  "linkable m r p t i f \<longleftrightarrow>
     tree_wf m r \<and> is_path (p @ [i]) \<and> descend m r p = Inr t \<and> step m t i = Inl NotMapped \<and>
     direct_frame f \<and> f \<notin> tables m r"

lemma linkableD:
  assumes "linkable m r p t i f"
  shows "tree_wf m r" "is_path (p @ [i])" "descend m r p = Inr t" "step m t i = Inl NotMapped"
    "direct_frame f" "f \<notin> tables m r"
  using assms by (simp_all add: linkable_def)

lemma link_at:
  assumes "linkable m r p t i f"
  shows "is_path p" "length p < 3" "i < 512" "direct_frame t" "t \<noteq> f" "t \<in> tables m r"
  using linkableD [OF assms] by (auto simp: is_path_snoc tables_def intro: tree_wfD(1))

lemma table_direct: "\<lbrakk>linkable m r p t i f; s \<in> tables m r\<rbrakk> \<Longrightarrow> direct_frame s \<and> s \<noteq> f"
  by (auto simp: tables_def linkable_def intro: tree_wfD(1))

lemma link_entry:
  assumes L: "linkable m r p t i f" and "j < 512"
  shows "entry (link m t i f) f j = 0" "step (link m t i f) t i = Inr f"
    "\<lbrakk>s \<in> tables m r; \<not> (s = t \<and> j = i)\<rbrakk> \<Longrightarrow> entry (link m t i f) s j = entry m s j"
    "\<lbrakk>s \<in> tables m r; \<not> (s = t \<and> j = i)\<rbrakk> \<Longrightarrow> step (link m t i f) s j = step m s j"
  using link_entries [OF link_at(4) [OF L] linkableD(5) [OF L] link_at(5) [OF L] link_at(3) [OF L] assms(2)]
    table_direct [OF L, of s] by (simp_all add: step_def)

lemma descend_link:
  assumes L: "linkable m r p t i f" and "is_path q"
  shows "descend (link m t i f) r q = ((descend m r)(p @ [i] := Inr f)) q"
  using assms(2)
proof (induction q rule: rev_induct)
  case (snoc j q)
  then have q: "is_path q" "j < 512"
    and IH: "descend (link m t i f) r q = ((descend m r)(p @ [i] := Inr f)) q" by (simp_all add: is_path_snoc)
  show ?case
  proof (cases "q = p @ [i]")
    case True
    have "step (link m t i f) f j = Inl NotMapped"
      using link_entry(1) [OF L q(2)] by (simp add: step_def)
    moreover have "descend m r (q @ [j]) = Inl NotMapped"
      using linkableD(3,4) [OF L] by (simp add: True descend_snoc [of m r "p @ [i]" j] descend_snoc [of m r p i]
          del: append_assoc)
    ultimately show ?thesis using IH True descend_snoc [of "link m t i f" r q j] by simp
  next
    case False
    then have d: "descend (link m t i f) r q = descend m r q" using IH by simp
    show ?thesis
    proof (cases "descend m r q")
      case (Inl e)
      then show ?thesis using d linkableD(3) [OF L] by (auto simp: descend_snoc)
    next
      case (Inr s)
      then have s: "s \<in> tables m r" using q(1) by (auto simp: tables_def)
      have "s = t \<longleftrightarrow> q = p"
        using tree_wfD(2) [OF linkableD(1) [OF L] q(1) link_at(1) [OF L]] Inr linkableD(3) [OF L] by auto
      then show ?thesis
        using d Inr link_entry(2,4) [OF L q(2)] s by (auto simp: descend_snoc)
    qed
  qed
next
  case Nil
  then show ?case by simp
qed

lemma link_tree_wf:
  assumes L: "linkable m r p t i f"
  shows "tree_wf (link m t i f) r"
  unfolding tree_wf_def
proof (intro conjI allI impI)
  fix q s assume "is_path q" "descend (link m t i f) r q = Inr s"
  then show "direct_frame s" using tree_wfD(1) [OF linkableD(1) [OF L]] linkableD(5) [OF L] by (auto simp: descend_link [OF L] split: if_splits)
next
  fix q q' s assume q: "is_path q" "is_path q'" "descend (link m t i f) r q = Inr s" "descend (link m t i f) r q' = Inr s"
  then show "q = q'"
    using tree_wfD(2) [OF linkableD(1) [OF L] q(1,2)] linkableD(6) [OF L] unfolding descend_link [OF L q(1)] descend_link [OF L q(2)]
    by (auto simp: tables_def split: if_splits)
next
  fix q s j assume q: "is_path q" "length q = 3" "descend (link m t i f) r q = Inr s" "j < 512"
    "bit (entry (link m t i f) s j) 0"
  have "s \<noteq> f" using link_entry(1) [OF L q(4)] q(5) by auto
  then have s: "descend m r q = Inr s" using q(3) unfolding descend_link [OF L q(1)] by (auto split: if_splits)
  have "s \<noteq> t" using tree_wfD(2) [OF linkableD(1) [OF L] q(1) link_at(1) [OF L] s] linkableD(3) [OF L] q(2) link_at(2) [OF L] by auto
  then have e: "entry (link m t i f) s j = entry m s j"
    using link_entry(3) [OF L q(4)] q(1) s by (auto simp: tables_def)
  show "bit (entry (link m t i f) s j) 1" "bit (entry (link m t i f) s j) 10"
    using tree_wfD(3) [OF linkableD(1) [OF L] q(1,2) s q(4)] q(5) unfolding e by blast+
qed

lemma link_tables:
  assumes L: "linkable m r p t i f"
  shows "tables (link m t i f) r = insert f (tables m r)"
proof -
  have none: "descend m r (p @ [i]) \<noteq> Inr s" for s using linkableD(3,4) [OF L] by (simp add: descend_snoc)
  have "s \<in> tables (link m t i f) r \<longleftrightarrow> s = f \<or> s \<in> tables m r" for s
    unfolding tables_def mem_Collect_eq using descend_link [OF L] none linkableD(2) [OF L]
    by (metis (mono_tags, lifting) fun_upd_apply sum.inject(2))
  then show ?thesis by blast
qed

text \<open>The paths to tables, which count them.\<close>

definition table_paths :: "memory \<Rightarrow> phys_frame \<Rightarrow> nat list set" where
  "table_paths m r = {p. is_path p \<and> (\<exists>t. descend m r p = Inr t)}"

lemma link_table_paths:
  assumes L: "linkable m r p t i f"
  shows "table_paths (link m t i f) r = insert (p @ [i]) (table_paths m r)" "p @ [i] \<notin> table_paths m r"
proof -
  have none: "descend m r (p @ [i]) \<noteq> Inr s" for s using linkableD(3,4) [OF L] by (simp add: descend_snoc)
  then show "p @ [i] \<notin> table_paths m r" by (simp add: table_paths_def)
  show "table_paths (link m t i f) r = insert (p @ [i]) (table_paths m r)"
    using linkableD(2) [OF L] none by (auto simp: table_paths_def descend_link [OF L])
qed

lemma link_view:
  assumes L: "linkable m r p t i f" and "is_page pg"
  shows "page_view (link m t i f) r pg = page_view m r pg"
proof -
  have pg: "is_path (fst pg)" "length (fst pg) = 3" "snd pg < 512" using assms(2) by (simp_all add: is_page_def)
  show ?thesis
  proof (cases "fst pg = p @ [i]")
    case True
    have "descend m r (fst pg) = Inl NotMapped" using linkableD(3,4) [OF L] by (simp add: True descend_snoc)
    moreover have "descend (link m t i f) r (fst pg) = Inr f" using descend_link [OF L pg(1)] True by simp
    ultimately show ?thesis
      using link_entry(1) [OF L pg(3)] by (simp add: page_view_def leaf_view_def)
  next
    case False
    then have d: "descend (link m t i f) r (fst pg) = descend m r (fst pg)" using descend_link [OF L pg(1)] by simp
    show ?thesis
    proof (cases "descend m r (fst pg)")
      case (Inr s)
      then have "s \<noteq> t" using tree_wfD(2) [OF linkableD(1) [OF L] pg(1) link_at(1) [OF L] Inr] linkableD(3) [OF L] pg(2) link_at(2) [OF L] by auto
      moreover have "s \<in> tables m r" using Inr pg(1) by (auto simp: tables_def)
      ultimately have "entry (link m t i f) s (snd pg) = entry m s (snd pg)"
        using link_entry(3) [OF L pg(3)] by simp
      then show ?thesis using Inr d by (simp add: page_view_def)
    qed (use d in \<open>simp add: page_view_def\<close>)
  qed
qed

lemma put_leaf_paths:
  assumes "tree_wf m r" "is_page pg" "descend m r (fst pg) = Inr t"
  shows "table_paths (put_entry m t (snd pg) v) r = table_paths m r"
  using descend_put_leaf [OF assms(1) _ _ assms(3)] assms(2) by (auto simp: table_paths_def is_page_def)

lemma descend_prefix: "descend m r (p @ q) = Inr t \<Longrightarrow> \<exists>s. descend m r p = Inr s"
  by (induction p arbitrary: r) (auto split: sum.splits)

section \<open>What the kernel writes\<close>

text \<open>
  Every entry of the tree is empty or is what an encoder of \<open>vmsav8.rs\<close> builds: a
  table descriptor above the last level, a page descriptor for some flags at it.
\<close>

definition written_entry :: "nat \<Rightarrow> 64 word \<Rightarrow> bool" where
  "written_entry l e \<longleftrightarrow>
     e = 0 \<or> l < 3 \<and> (\<exists>a. e = table_descriptor a) \<or>
     l = 3 \<and> (\<exists>a f. e = page_descriptor a (flags_to_descriptor_bits f))"

definition written :: "memory \<Rightarrow> phys_frame \<Rightarrow> bool" where
  "written m r \<longleftrightarrow>
     (\<forall>p t i. is_path p \<longrightarrow> descend m r p = Inr t \<longrightarrow> i < 512 \<longrightarrow> written_entry (length p) (entry m t i))"

lemma writtenD: "\<lbrakk>written m r; is_path p; descend m r p = Inr t; i < 512\<rbrakk> \<Longrightarrow> written_entry (length p) (entry m t i)"
  by (simp add: written_def)

lemma written_zero_root:
  assumes "\<And>i. i < 512 \<Longrightarrow> entry m r i = 0"
  shows "written m r"
proof -
  have "p = [] \<and> t = r" if "is_path p" "descend m r p = Inr t" for p t
    using that assms by (cases p) (auto simp: step_def is_path_def)
  then show ?thesis using assms by (fastforce simp: written_def written_entry_def)
qed

lemma put_leaf_written:
  assumes wf: "tree_wf m r" and pg: "is_page pg" and at: "descend m r (fst pg) = Inr t"
    and w: "written m r" and v: "written_entry 3 v"
  shows "written (put_entry m t (snd pg) v) r"
  unfolding written_def
proof (intro allI impI)
  fix q s and j :: nat assume q: "is_path q" "descend (put_entry m t (snd pg) v) r q = Inr s" "j < 512"
  have p: "is_path (fst pg)" "length (fst pg) = 3" "snd pg < 512" using pg by (simp_all add: is_page_def)
  have s: "descend m r q = Inr s" using descend_put_leaf [OF wf p(1,2) at p(3) q(1)] q(2) by simp
  have e: "entry (put_entry m t (snd pg) v) s j = (if s = t \<and> j = snd pg then v else entry m s j)"
    using tree_wfD(1) [OF wf q(1) s] tree_wfD(1) [OF wf p(1) at] p(3) q(3) by (intro entry_put)
  have "s = t \<Longrightarrow> length q = 3" using tree_wfD(2) [OF wf q(1) p(1)] s at p(2) by auto
  then show "written_entry (length q) (entry (put_entry m t (snd pg) v) s j)"
    unfolding e using v writtenD [OF w q(1) s q(3)] by auto
qed

lemma link_written:
  assumes L: "linkable m r p t i f" and w: "written m r"
  shows "written (link m t i f) r"
  unfolding written_def
proof (intro allI impI)
  fix q s and j :: nat assume q: "is_path q" "descend (link m t i f) r q = Inr s" "j < 512"
  show "written_entry (length q) (entry (link m t i f) s j)"
  proof (cases "s = f")
    case True
    then show ?thesis using link_entry(1) [OF L q(3)] by (simp add: written_entry_def)
  next
    case False
    then have s: "descend m r q = Inr s" using q(2) unfolding descend_link [OF L q(1)] by (auto split: if_splits)
    then have "s \<in> tables m r" using q(1) by (auto simp: tables_def)
    show ?thesis
    proof (cases "s = t \<and> j = i")
      case True
      then have "q = p" using tree_wfD(2) [OF linkableD(1) [OF L] q(1) link_at(1) [OF L]] s linkableD(3) [OF L] by auto
      moreover have "entry (link m t i f) t i = table_descriptor (of_nat (frame_addr f))"
        using link_at(3,4) [OF L] by (simp add: link_def entry_put)
      ultimately show ?thesis using True link_at(2) [OF L] by (auto simp: written_entry_def)
    next
      case False
      then show ?thesis
        using link_entry(3) [OF L q(3) \<open>s \<in> tables m r\<close>] writtenD [OF w q(1) s q(3)] by simp
    qed
  qed
qed

section \<open>Where memory may change\<close>

definition only_in :: "phys_frame set \<Rightarrow> memory \<Rightarrow> memory \<Rightarrow> bool" where
  "only_in F m m' \<longleftrightarrow> (\<forall>a. (\<forall>t \<in> F. a \<notin> frame_bytes t) \<longrightarrow> m' a = m a)"

lemma only_in_refl [simp]: "only_in F m m"
  by (simp add: only_in_def)

lemma only_in_trans: "\<lbrakk>only_in F m m'; only_in G m' m''; F \<subseteq> H; G \<subseteq> H\<rbrakk> \<Longrightarrow> only_in H m m''"
  unfolding only_in_def by (metis subsetD)

lemma only_in_mono: "\<lbrakk>only_in F m m'; F \<subseteq> G\<rbrakk> \<Longrightarrow> only_in G m m'"
  unfolding only_in_def by blast

lemma only_in_put: "i < 512 \<Longrightarrow> only_in {t} m (put_entry m t i v)"
  by (auto simp: only_in_def put_entry_def write_u64_def frame_bytes_def)

lemma only_in_zero: "only_in {t} m (zero_frame m t)"
  by (auto simp: only_in_def zero_frame_def write_bytes_def frame_bytes_def)

lemma only_in_link: "i < 512 \<Longrightarrow> only_in {t, f} m (link m t i f)"
  unfolding link_def by (rule only_in_trans [OF only_in_zero only_in_put]) auto

lemma only_in_same:
  assumes "only_in F m m'" "direct_frame s" "s \<notin> F" "\<And>t. t \<in> F \<Longrightarrow> direct_frame t"
  shows "same_on s m m'"
  using assms(1,3) frame_bytes_disjoint [OF assms(2)] assms(4)
  unfolding only_in_def same_on_def by (metis disjoint_iff)

lemma tables_direct: "\<lbrakk>tree_wf m r; t \<in> tables m r\<rbrakk> \<Longrightarrow> direct_frame t"
  by (auto simp: tables_def intro: tree_wfD(1))

text \<open>Another address space is not touched when no table is shared.\<close>

lemma only_in_other_tree:
  assumes "only_in F m m'" "\<And>t. t \<in> F \<Longrightarrow> direct_frame t" "tree_wf m s" "tables m s \<inter> F = {}"
  shows "tree_wf m' s" "tables m' s = tables m s" "is_page pg \<Longrightarrow> page_view m' s pg = page_view m s pg"
proof -
  have *: "same_on t m m'" if "t \<in> tables m s" for t
    using only_in_same [OF assms(1) tables_direct [OF assms(3) that] _ assms(2)] that assms(4) by blast
  show "tree_wf m' s" "tables m' s = tables m s" "is_page pg \<Longrightarrow> page_view m' s pg = page_view m s pg"
    using tree_same [OF *] assms(3) by auto
qed

section \<open>A fresh root\<close>

lemma descend_zero_root:
  assumes "\<And>i. i < 512 \<Longrightarrow> entry m r i = 0" "is_path p" "p \<noteq> []"
  shows "descend m r p = Inl NotMapped"
  using assms by (cases p) (auto simp: step_def is_path_def)

lemma zero_root:
  assumes "direct_frame r" "\<And>i. i < 512 \<Longrightarrow> entry m r i = 0"
  shows "tree_wf m r" "tables m r = {r}" "table_paths m r = {[]}"
    "is_page pg \<Longrightarrow> page_view m r pg = Inl NotMapped"
proof -
  have d: "descend m r p = Inr t \<longleftrightarrow> p = [] \<and> t = r" if "is_path p" for p t
    using descend_zero_root [OF assms(2) that] by (cases "p = []") auto
  show "tree_wf m r" unfolding tree_wf_def
    by (intro conjI allI impI) (auto simp: d assms(1))
  show "tables m r = {r}" by (auto simp: tables_def d intro!: exI [of _ "[]"])
  show "table_paths m r = {[]}" by (auto simp: table_paths_def d)
  show "page_view m r pg = Inl NotMapped" if "is_page pg"
  proof -
    have "is_path (fst pg)" "fst pg \<noteq> []" using that by (auto simp: is_page_def)
    then show ?thesis using descend_zero_root [OF assms(2)] by (simp add: page_view_def)
  qed
qed

end
