(* ===== verification/PageWalk.thy ===== *)
theory PageWalk
  imports PageTables
begin

text \<open>
  The contract between the page-table walk and the frame provider
  (\<open>FrameProvider\<close> in \<open>hal/src/mmu/mod.rs\<close>) as a locale, the walk of
  \<open>bsp-qemu-virt/src/mmu.rs\<close> proved once over it, and its interpretation by the
  physical memory manager, the provider the kernel passes.
\<close>

unbundle bit_operations_syntax

section \<open>The provider\<close>

text \<open>
  A provider knows the frames it has handed out and how many are left; an
  allocation gives a new frame of the direct map, zeroed, and writes nothing else.
\<close>

locale frame_provider =
  fixes alloc :: "'p frame_provider"
    and inv :: "'p \<Rightarrow> bool"
    and owned :: "'p \<Rightarrow> phys_frame set"
    and avail :: "'p \<Rightarrow> nat"
  assumes alloc_none: "\<lbrakk>inv p; avail p = 0\<rbrakk> \<Longrightarrow> alloc p m = Some ((p, m), None)"
    and alloc_some: "\<lbrakk>inv p; avail p \<noteq> 0\<rbrakk> \<Longrightarrow>
      \<exists>p' f. alloc p m = Some ((p', zero_frame m f), Some f) \<and> inv p' \<and> direct_frame f \<and> f \<notin> owned p \<and>
        owned p' = insert f (owned p) \<and> avail p = Suc (avail p')"

text \<open>
  What a walk that may link tables does: the tree gains only tables the provider
  handed out meanwhile, on paths of \<open>Q\<close>, one frame each; no view changes, memory
  changes only in the tables, and entries written by the kernel stay so.
\<close>

type_synonym walk_state = "phys_frame set \<times> nat \<times> memory"

definition extends :: "nat list set \<Rightarrow> phys_frame \<Rightarrow> walk_state \<Rightarrow> walk_state \<Rightarrow> bool" where
  "extends Q r s s' \<longleftrightarrow>
     (case (s, s') of ((X, n, m), (X', n', m')) \<Rightarrow>
        X \<subseteq> X' \<and> tree_wf m' r \<and> tables m' r = tables m r \<union> (X' - X) \<and> only_in (tables m' r) m m' \<and>
        table_paths m r \<subseteq> table_paths m' r \<and> table_paths m' r \<subseteq> table_paths m r \<union> Q \<and>
        n + card (table_paths m r) = n' + card (table_paths m' r) \<and> (written m r \<longrightarrow> written m' r))"

definition grown :: "nat list set \<Rightarrow> phys_frame \<Rightarrow> walk_state \<Rightarrow> walk_state \<Rightarrow> bool" where
  "grown Q r s s' \<longleftrightarrow> extends Q r s s' \<and>
     (\<forall>pg. is_page pg \<longrightarrow> page_view (snd (snd s')) r pg = page_view (snd (snd s)) r pg)"

lemma grown_refl: "tree_wf m r \<Longrightarrow> grown Q r (X, n, m) (X, n, m)"
  by (simp add: grown_def extends_def)

lemma extends_trans:
  assumes "extends Q r (X, n, m) (X', n', m')" "extends Q r (X', n', m') (X'', n'', m'')"
  shows "extends Q r (X, n, m) (X'', n'', m'')"
proof -
  have "only_in (tables m'' r) m m''"
    using assms unfolding extends_def by (auto intro: only_in_trans)
  then show ?thesis using assms unfolding extends_def by auto
qed

lemma grown_trans:
  assumes "grown Q r (X, n, m) (X', n', m')" "grown Q r (X', n', m') (X'', n'', m'')"
  shows "grown Q r (X, n, m) (X'', n'', m'')"
  using extends_trans [of Q r X n m X' n' m' X'' n'' m''] assms unfolding grown_def by simp

text \<open>The state in which an address space with root \<open>r\<close> can be operated on.\<close>

definition space_ok :: "phys_frame set \<Rightarrow> memory \<Rightarrow> phys_frame \<Rightarrow> bool" where
  "space_ok X m r \<longleftrightarrow> tree_wf m r \<and> tables m r \<subseteq> X"

lemma grown_ok: "\<lbrakk>space_ok X m r; grown Q r (X, n, m) (X', n', m')\<rbrakk> \<Longrightarrow> space_ok X' m' r"
  by (auto simp: space_ok_def grown_def extends_def)

lemma table_paths_finite [simp]: "finite (table_paths m r)"
proof (rule finite_subset)
  show "table_paths m r \<subseteq> {p. set p \<subseteq> {..<512} \<and> length p \<le> 3}"
    by (auto simp: table_paths_def is_path_def)
qed (rule finite_lists_length_le, simp)

lemma grown_link:
  assumes L: "linkable m r q t i f" and Q: "q @ [i] \<in> Q" and X: "f \<notin> X"
  shows "grown Q r (X, Suc n, m) (insert f X, n, link m t i f)"
proof -
  have "only_in (tables (link m t i f) r) m (link m t i f)"
    using only_in_link [OF link_at(3) [OF L], of t f m] link_at(6) [OF L]
    by (auto simp: link_tables [OF L] elim!: only_in_mono)
  moreover have "insert f (tables m r) = tables m r \<union> (insert f X - X)" using X by auto
  ultimately show ?thesis
    using link_tree_wf [OF L] link_tables [OF L] link_view [OF L] link_table_paths [OF L] link_written [OF L] Q
    unfolding grown_def extends_def by auto
qed

section \<open>The walk\<close>

text \<open>What a translation of an address gives, by the page it lies in.\<close>

definition view_at :: "memory \<Rightarrow> qemu_address_space \<Rightarrow> nat \<Rightarrow> translation" where
  "view_at m as va = page_view m (qa_root as) (page_of va)"

lemma grown_view: "grown Q (qa_root as) (X, n, m) (X', n', m') \<Longrightarrow> view_at m' as = view_at m as"
  unfolding grown_def view_at_def by (auto simp: fun_eq_iff simp del: split_paired_All)

lemma try_bind_assoc: "try_bind (try_bind x f) g = try_bind x (\<lambda>s a. try_bind (f s a) g)"
  by (cases x) (auto simp: try_bind_def split: sum.splits)

text \<open>The walk, taken apart: the three steps to the last table, and the leaf.\<close>

definition to_leaf_table ::
    "'p frame_provider \<Rightarrow> phys_frame \<Rightarrow> nat \<Rightarrow> bool \<Rightarrow> 'p \<times> memory \<Rightarrow> ('p \<times> memory, mmu_error, phys_frame) outcome" where
  "to_leaf_table alloc r va unmap st =
     try_bind (walk_or_alloc_table alloc r (va_index va VA_L0_SHIFT) unmap st) (\<lambda>st l1.
     try_bind (walk_or_alloc_table alloc l1 (va_index va VA_L1_SHIFT) unmap st) (\<lambda>st l2.
     walk_or_alloc_table alloc l2 (va_index va VA_L2_SHIFT) unmap st))"

definition at_leaf ::
    "nat \<Rightarrow> phys_frame \<Rightarrow> mapping_flags \<Rightarrow> bool \<Rightarrow> 'p \<times> memory \<Rightarrow> phys_frame \<Rightarrow>
       ('p \<times> memory, mmu_error, phys_frame) outcome" where
  "at_leaf va pa flags unmap = (\<lambda>(p, m) t. do {
     leaf_slot \<leftarrow> entry_ptr t (va_index va VA_L3_SHIFT);
     let existing = read_u64 m leaf_slot;
     if unmap then
       (if existing AND DESC_VALID_BIT = 0 then Some ((p, m), Inl NotMapped)
        else Some ((p, write_u64 m leaf_slot 0),
                   ok_or (frame_from_aligned (unat (existing AND PAGE_OA_MASK_L3))) MisalignedAddress))
     else
       (if existing AND DESC_VALID_BIT \<noteq> 0 then Some ((p, m), Inl AlreadyMapped)
        else Some ((p, write_u64 m leaf_slot
                         (page_descriptor (of_nat (frame_addr pa)) (flags_to_descriptor_bits flags))), Inr pa))
   })"

lemma walk_split: "walk_and_install_leaf alloc r va pa flags unmap st =
    try_bind (to_leaf_table alloc r va unmap st) (at_leaf va pa flags unmap)"
  unfolding walk_and_install_leaf_def to_leaf_table_def at_leaf_def try_bind_assoc ..

lemma at_leaf_map:
  "direct_frame t \<Longrightarrow> at_leaf va pa flags False (p, m) t =
     (if bit (entry m t (leaf_index va)) 0 then Some ((p, m), Inl AlreadyMapped)
      else Some ((p, put_entry m t (leaf_index va)
                       (page_descriptor (of_nat (frame_addr pa)) (flags_to_descriptor_bits flags))), Inr pa))"
  by (simp add: at_leaf_def entry_ptr_eq Let_def and_desc_consts entry_def leaf_index_def put_entry_def del: bit_0)

lemma at_leaf_unmap:
  "direct_frame t \<Longrightarrow> at_leaf va pa flags True (p, m) t =
     (if bit (entry m t (leaf_index va)) 0
      then Some ((p, put_entry m t (leaf_index va) 0),
                 Inr (PhysFrame (unat (entry m t (leaf_index va) AND PAGE_OA_MASK_L3))))
      else Some ((p, m), Inl NotMapped))"
  by (simp add: at_leaf_def entry_ptr_eq Let_def and_desc_consts entry_def leaf_index_def put_entry_def
      frame_from_aligned_def PAGE_SIZE_def masked_aligned ok_or_def del: bit_0)

text \<open>The read-only walk reads what \<open>descend\<close> says.\<close>

lemma read_walk:
  assumes wf: "tree_wf m r"
  shows "to_leaf_table alloc r va True (p, m) = Some ((p, m), descend m r (table_path va))"
proof -
  define i j k where ijk: "i = va_index va VA_L0_SHIFT" "j = va_index va VA_L1_SHIFT" "k = va_index va VA_L2_SHIFT"
  have paths: "is_path []" "is_path [i]" "is_path [i, j]" using digits_bound [of va] by (simp_all add: is_path_def ijk)
  have w0: "walk_or_alloc_table alloc r i True (p, m) = Some ((p, m), step m r i)"
    using tree_wfD(1) [OF wf paths(1)] by (intro walk_read) simp
  show ?thesis
  proof (cases "step m r i")
    case (Inl e)
    then show ?thesis using w0 unfolding to_leaf_table_def table_path_def ijk [symmetric] by simp
  next
    case (Inr s)
    have w1: "walk_or_alloc_table alloc s j True (p, m) = Some ((p, m), step m s j)"
      using tree_wfD(1) [OF wf paths(2)] Inr by (intro walk_read) simp
    show ?thesis
    proof (cases "step m s j")
      case (Inl e)
      then show ?thesis using w0 w1 Inr unfolding to_leaf_table_def table_path_def ijk [symmetric] by simp
    next
      case (Inr t)
      have "walk_or_alloc_table alloc t k True (p, m) = Some ((p, m), step m t k)"
        using tree_wfD(1) [OF wf paths(3)] Inr \<open>step m r i = Inr s\<close> by (intro walk_read) simp
      then show ?thesis
        using w0 w1 Inr \<open>step m r i = Inr s\<close>
        unfolding to_leaf_table_def table_path_def ijk [symmetric] by (simp split: sum.split)
    qed
  qed
qed

lemma translate_spec:
  assumes wf: "tree_wf m (qa_root as)"
  shows "qemu_translate m as va = Some (view_at m as va)"
proof -
  have *: "qemu_translate m as va =
      map_option snd (try_bind (to_leaf_table null_alloc_frame (qa_root as) va True ((), m)) (\<lambda>st l3_table. do {
          l3_ptr \<leftarrow> entry_ptr l3_table (va_index va VA_L3_SHIFT);
          let leaf = read_u64 m l3_ptr;
          Some (st,
            if leaf AND DESC_VALID_BIT = 0 then Inl NotMapped
            else if leaf AND DESC_TABLE_OR_PAGE_BIT = 0 then Inl NotMapped
            else if leaf AND DESC_AF_BIT = 0 then Inl NotMapped
            else (case frame_from_aligned (unat (leaf AND PAGE_OA_MASK_L3)) of
                    None \<Rightarrow> Inl MisalignedAddress
                  | Some frame \<Rightarrow> Inr (frame, descriptor_bits_to_flags leaf)))
        }))"
    unfolding qemu_translate_def to_leaf_table_def try_bind_assoc ..
  have pg: "is_path (table_path va)" "length (table_path va) = 3" "leaf_index va < 512"
    using is_page_page_of [of va] by (simp_all add: is_page_def page_of_def)
  show ?thesis
  proof (cases "descend m (qa_root as) (table_path va)")
    case (Inl e)
    then show ?thesis unfolding * read_walk [OF wf] by (simp add: view_at_def page_view_def page_of_def)
  next
    case (Inr t)
    have t: "direct_frame t" using tree_wfD(1) [OF wf pg(1) Inr] .
    show ?thesis
      using tree_wfD(3) [OF wf pg(1,2) Inr pg(3)]
      unfolding * read_walk [OF wf] Inr
      by (auto simp: view_at_def page_view_def page_of_def Inr entry_ptr_eq [OF t] Let_def and_desc_consts and_AF
          entry_def [symmetric] leaf_index_def [symmetric] leaf_view_def frame_from_aligned_def PAGE_SIZE_def
          masked_aligned simp del: bit_0)
  qed
qed

lemma unmap_spec:
  assumes wf: "tree_wf m (qa_root as)" and al: "va mod PAGE_SIZE = 0"
  shows "case view_at m as va of
      Inl e \<Rightarrow> qemu_unmap m as va = Some ((m, as), Inl e)
    | Inr x \<Rightarrow> \<exists>m'. qemu_unmap m as va = Some ((m', as), Inr (MapperFlush va, fst x)) \<and> tree_wf m' (qa_root as) \<and>
        tables m' (qa_root as) = tables m (qa_root as) \<and> table_paths m' (qa_root as) = table_paths m (qa_root as) \<and>
        only_in (tables m (qa_root as)) m m' \<and> (written m (qa_root as) \<longrightarrow> written m' (qa_root as)) \<and>
        view_at m' as = (\<lambda>a. if page_number a = page_number va then Inl NotMapped else view_at m as a)"
proof -
  let ?r = "qa_root as" and ?pg = "page_of va"
  have unmap: "qemu_unmap m as va = (do {
      ((_, m'), r) \<leftarrow> try_bind (Some (((), m), descend m ?r (table_path va))) (at_leaf va ?r mf_EMPTY True);
      Some ((m', as), map_sum id (\<lambda>pa. (MapperFlush va, pa)) r) })"
    unfolding qemu_unmap_def walk_split read_walk [OF wf] using al by simp
  show ?thesis
  proof (cases "descend m ?r (table_path va)")
    case (Inl e)
    then show ?thesis using unmap by (simp add: view_at_def page_view_def page_of_def)
  next
    case (Inr t)
    then have at: "descend m ?r (fst ?pg) = Inr t" by (simp add: page_of_def)
    have pg: "leaf_index va = snd ?pg" by (simp add: page_of_def)
    have t: "direct_frame t" "t \<in> tables m ?r"
      using tree_wfD(1) [OF wf _ at] is_page_page_of [of va] at by (auto simp: is_page_def tables_def)
    have seen: "view_at m as va = leaf_view (entry m t (leaf_index va))"
      using at by (simp add: view_at_def page_view_def page_of_def)
    show ?thesis
    proof (cases "bit (entry m t (leaf_index va)) 0")
      case False
      then show ?thesis using unmap Inr at_leaf_unmap [OF t(1), of va ?r mf_EMPTY "()" m] seen
        by (simp add: leaf_view_def del: bit_0)
    next
      case True
      let ?m = "put_entry m t (leaf_index va) 0"
      have d: "bit (0 :: 64 word) 0 \<Longrightarrow> bit (0 :: 64 word) 1 \<and> bit (0 :: 64 word) 10" by simp
      note put = put_leaf(1-3) [OF wf is_page_page_of at d, folded pg] put_leaf_paths [OF wf is_page_page_of at, of 0, folded pg]
      have w: "written m ?r \<Longrightarrow> written ?m ?r"
        using put_leaf_written [OF wf is_page_page_of at, of 0, folded pg] by (simp add: written_entry_def)
      have "view_at ?m as = (\<lambda>a. if page_number a = page_number va then Inl NotMapped else view_at m as a)"
        using put(3) [OF _ is_page_page_of] unfolding view_at_def by (auto simp: fun_eq_iff page_of_eq_iff leaf_view_def)
      moreover have "only_in (tables m ?r) m ?m"
        using only_in_put [of "leaf_index va" t m 0] digits_bound(4) [of va] t(2) by (auto elim!: only_in_mono)
      moreover have "tree_wf ?m ?r" "tables ?m ?r = tables m ?r" using put(1,2) by simp_all
      ultimately show ?thesis
        using unmap Inr at_leaf_unmap [OF t(1), of va ?r mf_EMPTY "()" m] True put(4) w unfolding seen
        by (simp add: leaf_view_def del: bit_0)
    qed
  qed
qed

text \<open>The paths a walk to an address follows.\<close>

definition path_prefixes :: "nat \<Rightarrow> nat list set" where
  "path_prefixes va =
     {[va_index va VA_L0_SHIFT], [va_index va VA_L0_SHIFT, va_index va VA_L1_SHIFT], table_path va}"

text \<open>Why the walk of \<open>map\<close> stops before the leaf, in terms of what it finds there.\<close>

definition stopped :: "memory \<Rightarrow> phys_frame \<Rightarrow> nat list \<Rightarrow> mmu_error \<Rightarrow> nat \<Rightarrow> bool" where
  "stopped m r q e n \<longleftrightarrow>
     e = AlreadyMapped \<and> descend m r q = Inl BlockMapped \<or> e = MmuOutOfFrames \<and> n = 0 \<and> descend m r q = Inl NotMapped"

definition arrived :: "memory \<Rightarrow> phys_frame \<Rightarrow> nat list \<Rightarrow> nat \<Rightarrow> mmu_error + phys_frame \<Rightarrow> bool" where
  "arrived m r q n res \<longleftrightarrow> (case res of Inr t \<Rightarrow> descend m r q = Inr t | Inl e \<Rightarrow> stopped m r q e n)"

lemma arrived_simps [simp]:
  "arrived m r q n (Inr t) \<longleftrightarrow> descend m r q = Inr t"
  "arrived m r q n (Inl e) \<longleftrightarrow> stopped m r q e n"
  by (simp_all add: arrived_def)

lemma stopped_longer: "stopped m r q e n \<Longrightarrow> stopped m r (q @ [i]) e n"
  by (auto simp: stopped_def descend_snoc)

lemma map_refused:
  "va mod PAGE_SIZE \<noteq> 0 \<Longrightarrow> qemu_map alloc p m as va pa flags = Some ((p, m, as), Inl MisalignedAddress)"
  "\<lbrakk>va mod PAGE_SIZE = 0; mf_contains flags mf_DEVICE \<and> mf_contains flags mf_EXECUTE\<rbrakk> \<Longrightarrow>
     qemu_map alloc p m as va pa flags = Some ((p, m, as), Inl InvalidFlags)"
  "va mod PAGE_SIZE \<noteq> 0 \<Longrightarrow> qemu_unmap m as va = Some ((m, as), Inl MisalignedAddress)"
  by (simp_all add: qemu_map_def qemu_unmap_def)

context frame_provider
begin

lemma walk_step:
  assumes p: "inv p" and ok: "space_ok (owned p) m r" and q: "is_path (q @ [i])" and at: "descend m r q = Inr t"
    and Q: "q @ [i] \<in> Q"
  shows "\<exists>p' m' res. walk_or_alloc_table alloc t i False (p, m) = Some ((p', m'), res) \<and> inv p' \<and>
    grown Q r (owned p, avail p, m) (owned p', avail p', m') \<and>
    arrived m' r (q @ [i]) (avail p') res"
proof -
  have wf: "tree_wf m r" and sub: "tables m r \<subseteq> owned p" using ok by (simp_all add: space_ok_def)
  have t: "direct_frame t" using tree_wfD(1) [OF wf _ at] q by (simp add: is_path_snoc)
  have d: "descend m r (q @ [i]) = step m t i" using at by (simp add: descend_snoc)
  consider "step m t i = Inl NotMapped" "avail p = 0" | "step m t i = Inl NotMapped" "avail p \<noteq> 0"
    | "step m t i = Inl BlockMapped" | t' where "step m t i = Inr t'"
    using step_cases [of m t i] by metis
  then show ?thesis
  proof cases
    case 1
    then show ?thesis
      using walk_alloc [OF t 1(1), of alloc p] alloc_none [OF p 1(2), of m] p grown_refl [OF wf] d by (simp add: arrived_def stopped_def)
  next
    case 2
    obtain p' f where f: "alloc p m = Some ((p', zero_frame m f), Some f)" "inv p'" "direct_frame f" "f \<notin> owned p"
        "owned p' = insert f (owned p)" "avail p = Suc (avail p')"
      using alloc_some [OF p 2(2)] by blast
    have L: "linkable m r q t i f" using wf q at 2(1) f(3,4) sub by (auto simp: linkable_def)
    have "descend (link m t i f) r (q @ [i]) = Inr f" using descend_link [OF L q] by simp
    moreover have "walk_or_alloc_table alloc t i False (p, m) = Some ((p', link m t i f), Inr f)"
      using walk_alloc [OF t 2(1), of alloc p] f(1) by (simp add: link_def)
    ultimately show ?thesis using grown_link [OF L Q f(4), of "avail p'"] f(2,5,6) by (auto simp: arrived_def)
  next
    case 3
    then show ?thesis using walk_table(2) [OF t 3] p grown_refl [OF wf] d
      by (intro exI [of _ p] exI [of _ m] exI [of _ "Inl AlreadyMapped"]) (simp add: arrived_def stopped_def)
  next
    case 4
    then show ?thesis using walk_table(1) [OF t 4] p grown_refl [OF wf] d
      by (intro exI [of _ p] exI [of _ m] exI [of _ "Inr t'"]) (simp add: arrived_def)
  qed
qed

text \<open>The three steps of a walk that may link tables.\<close>

lemma walk_tables:
  assumes p: "inv p" and ok: "space_ok (owned p) m r"
  shows "\<exists>p' m' res. to_leaf_table alloc r va False (p, m) = Some ((p', m'), res) \<and>
    inv p' \<and> grown (path_prefixes va) r (owned p, avail p, m) (owned p', avail p', m') \<and>
    arrived m' r (table_path va) (avail p') res"
proof -
  define i j k where ijk: "i = va_index va VA_L0_SHIFT" "j = va_index va VA_L1_SHIFT" "k = va_index va VA_L2_SHIFT"
  let ?Q = "path_prefixes va"
  have paths: "is_path ([] @ [i])" "is_path ([i] @ [j])" "is_path ([i, j] @ [k])"
      "[] @ [i] \<in> ?Q" "[i] @ [j] \<in> ?Q" "[i, j] @ [k] \<in> ?Q" "table_path va = [i, j, k]"
    using digits_bound [of va] by (simp_all add: is_path_def ijk path_prefixes_def table_path_def)
  note stop = stopped_longer [of _ _ "[i]" _ _ j] stopped_longer [of _ _ "[i, j]" _ _ k]
  obtain p1 m1 r1 where s1: "walk_or_alloc_table alloc r i False (p, m) = Some ((p1, m1), r1)" "inv p1"
      "grown ?Q r (owned p, avail p, m) (owned p1, avail p1, m1)"
      "arrived m1 r [i] (avail p1) r1"
    using walk_step [OF p ok paths(1) _ paths(4), of r] by auto
  show ?thesis
  proof (cases r1)
    case (Inl e)
    then show ?thesis using s1 stop unfolding to_leaf_table_def ijk [symmetric] paths(7) by simp
  next
    case (Inr l1)
    obtain p2 m2 r2 where s2: "walk_or_alloc_table alloc l1 j False (p1, m1) = Some ((p2, m2), r2)" "inv p2"
        "grown ?Q r (owned p1, avail p1, m1) (owned p2, avail p2, m2)"
        "arrived m2 r [i, j] (avail p2) r2"
      using walk_step [OF s1(2) grown_ok [OF ok s1(3)] paths(2) _ paths(5), of l1] s1(4) Inr by auto
    note g2 = grown_trans [OF s1(3) s2(3)]
    show ?thesis
    proof (cases r2)
      case (Inl e)
      then show ?thesis using s1(1) s2 g2 stop Inr unfolding to_leaf_table_def ijk [symmetric] paths(7) by simp
    next
      case (Inr l2)
      obtain p3 m3 r3 where s3: "walk_or_alloc_table alloc l2 k False (p2, m2) = Some ((p3, m3), r3)" "inv p3"
          "grown ?Q r (owned p2, avail p2, m2) (owned p3, avail p3, m3)"
          "arrived m3 r [i, j, k] (avail p3) r3"
        using walk_step [OF s2(2) grown_ok [OF ok g2] paths(3) _ paths(6), of l2] s2(4) Inr by auto
      then show ?thesis
        using s1(1) s2(1) grown_trans [OF g2 s3(3)] Inr \<open>r1 = Inr l1\<close> unfolding to_leaf_table_def ijk [symmetric] paths(7) by simp
    qed
  qed
qed

text \<open>\<open>map\<close>, for any state of the tables.\<close>

lemma map_spec:
  assumes p: "inv p" and ok: "space_ok (owned p) m (qa_root as)"
    and al: "va mod PAGE_SIZE = 0" and fl: "\<not> (mf_contains flags mf_DEVICE \<and> mf_contains flags mf_EXECUTE)"
    and pa: "frame_addr pa mod PAGE_SIZE = 0" "frame_addr pa < 2 ^ 48"
  shows "\<exists>p' m' res. qemu_map alloc p m as va pa flags = Some ((p', m', as), res) \<and> inv p' \<and>
    extends (path_prefixes va) (qa_root as) (owned p, avail p, m) (owned p', avail p', m') \<and>
    (case res of
       Inr tok \<Rightarrow> tok = MapperFlush va \<and> view_at m as va = Inl NotMapped \<and> path_prefixes va \<subseteq> table_paths m' (qa_root as) \<and>
         view_at m' as = (\<lambda>a. if page_number a = page_number va then Inr (pa, mf_effective flags) else view_at m as a)
     | Inl e \<Rightarrow> view_at m' as = view_at m as \<and>
         (e = AlreadyMapped \<and> view_at m as va \<noteq> Inl NotMapped \<or>
          e = MmuOutOfFrames \<and> avail p' = 0 \<and> view_at m as va = Inl NotMapped \<and>
            \<not> path_prefixes va \<subseteq> table_paths m' (qa_root as)))"
proof -
  let ?r = "qa_root as" and ?pg = "page_of va"
  let ?d = "page_descriptor (of_nat (frame_addr pa)) (flags_to_descriptor_bits flags)"
  obtain p1 m1 r1 where w: "to_leaf_table alloc ?r va False (p, m) = Some ((p1, m1), r1)" "inv p1"
      "grown (path_prefixes va) ?r (owned p, avail p, m) (owned p1, avail p1, m1)"
      "arrived m1 ?r (table_path va) (avail p1) r1"
    using walk_tables [OF p ok] by blast
  have ext: "extends (path_prefixes va) ?r (owned p, avail p, m) (owned p1, avail p1, m1)"
    using w(3) by (simp add: grown_def)
  have wf: "tree_wf m1 ?r" using ext by (simp add: extends_def)
  note view = grown_view [OF w(3)]
  have map: "qemu_map alloc p m as va pa flags = (do {
      ((p', m'), r) \<leftarrow> try_bind (Some ((p1, m1), r1)) (at_leaf va pa flags False);
      Some ((p', m', as), map_sum id (\<lambda>_. MapperFlush va) r) })"
    unfolding qemu_map_def walk_split w(1) if_not_P [OF fl] using al by simp
  show ?thesis
  proof (cases r1)
    case (Inl e)
    then have "stopped m1 ?r (table_path va) e (avail p1)" using w(4) by simp
    then have "e = AlreadyMapped \<and> view_at m as va \<noteq> Inl NotMapped \<or>
        e = MmuOutOfFrames \<and> avail p1 = 0 \<and> view_at m as va = Inl NotMapped \<and>
          \<not> path_prefixes va \<subseteq> table_paths m1 ?r"
      unfolding view [symmetric]
      by (auto simp: stopped_def view_at_def page_view_def page_of_def path_prefixes_def table_paths_def)
    then show ?thesis using map Inl w(2) ext view by auto
  next
    case (Inr t)
    then have at: "descend m1 ?r (fst ?pg) = Inr t" using w(4) by (simp add: page_of_def)
    have t: "direct_frame t" using tree_wfD(1) [OF wf _ at] is_page_page_of [of va] by (simp add: is_page_def)
    have seen: "view_at m as va = leaf_view (entry m1 t (leaf_index va))"
      unfolding view [symmetric] using at by (simp add: view_at_def page_view_def page_of_def)
    show ?thesis
    proof (cases "bit (entry m1 t (leaf_index va)) 0")
      case True
      then have "view_at m as va \<noteq> Inl NotMapped" unfolding seen by (simp add: leaf_view_def)
      moreover have "qemu_map alloc p m as va pa flags = Some ((p1, m1, as), Inl AlreadyMapped)"
        using map Inr at_leaf_map [OF t, of va pa flags p1 m1] True by simp
      ultimately show ?thesis using w(2) ext view by auto
    next
      case False
      let ?m = "put_entry m1 t (leaf_index va) ?d"
      have pg: "leaf_index va = snd ?pg" by (simp add: page_of_def)
      have d: "bit ?d 1 \<and> bit ?d 10" by (simp add: bit_page_descriptor leaf_bit_def)
      have d': "written_entry 3 ?d" by (auto simp: written_entry_def)
      note put = put_leaf [OF wf is_page_page_of at d, folded pg] put_leaf_paths [OF wf is_page_page_of at, of ?d, folded pg]
      have "t \<in> tables m1 ?r" using at is_page_page_of [of va] by (auto simp: tables_def is_page_def)
      then have "only_in (tables ?m ?r) m ?m"
        using ext only_in_put [of "leaf_index va" t m1 ?d] digits_bound(4) [of va] unfolding put(2)
        by (auto simp: extends_def intro: only_in_trans)
      then have "extends (path_prefixes va) ?r (owned p, avail p, m) (owned p1, avail p1, ?m)"
        using ext put(1,2,5) put_leaf_written [OF wf is_page_page_of at _ d', folded pg] by (simp add: extends_def)
      moreover have "path_prefixes va \<subseteq> table_paths ?m ?r"
        unfolding put(5) using at descend_prefix [of m1 ?r "[_]"] descend_prefix [of m1 ?r "[_, _]" "[_]"]
          digits_bound [of va]
        by (fastforce simp: path_prefixes_def table_paths_def page_of_def table_path_def is_path_def)
      moreover have "view_at ?m as = (\<lambda>a. if page_number a = page_number va then Inr (pa, mf_effective flags) else view_at m as a)"
        using put(3) [OF is_page_page_of] leaf_view_page [of pa flags] pa
        unfolding view [symmetric] view_at_def by (auto simp: fun_eq_iff page_of_eq_iff PAGE_SIZE_def)
      moreover have "view_at m as va = Inl NotMapped" using False unfolding seen by (simp add: leaf_view_def)
      moreover have "qemu_map alloc p m as va pa flags = Some ((p1, ?m, as), Inr (MapperFlush va))"
        using map Inr at_leaf_map [OF t, of va pa flags p1 m1] False by simp
      ultimately show ?thesis using w(2) by auto
    qed
  qed
qed

end

end
