(* ===== verification/Mmu_Contract.thy ===== *)
theory Mmu_Contract
  imports PageWalk AddressSpace CapRevoke
begin

text \<open>
  What the kernel relies on in a translation implementation, as a locale over
  the record of its methods (the documented contract of the \<open>Mmu\<close> trait, its
  failure semantics included), and what the capability-gated wrappers of
  \<open>kernel/src/mm/address_space.rs\<close> do, proved once from it: every wrapper keeps
  the address spaces valid and pairwise disjoint, and changes the translations
  exactly as its name says. The implementation of the QEMU virt board with the
  physical memory manager interprets it.
\<close>

section \<open>The contract\<close>

locale translation_unit = frame_provider +
  fixes mmu :: "('a, 'p) mmu"
    and as_ok :: "memory \<Rightarrow> 'a \<Rightarrow> bool"
    and as_frames :: "memory \<Rightarrow> 'a \<Rightarrow> phys_frame set"
    and as_view :: "memory \<Rightarrow> 'a \<Rightarrow> nat \<Rightarrow> translation"
    and as_paths :: "memory \<Rightarrow> 'a \<Rightarrow> 'k set"
    and needs :: "nat \<Rightarrow> 'k set"
  assumes created: "\<lbrakk>direct_frame r; m' = zero_frame m r; a = mmu_create_address_space mmu r\<rbrakk> \<Longrightarrow>
      as_ok m' a \<and> as_frames m' a = {r} \<and> as_view m' a = (\<lambda>_. Inl NotMapped) \<and> as_paths m' a \<inter> needs va = {}"
    and frames_direct: "\<lbrakk>as_ok m a; t \<in> as_frames m a\<rbrakk> \<Longrightarrow> direct_frame t"
    and local: "\<lbrakk>as_ok m a; \<And>t. t \<in> as_frames m a \<Longrightarrow> same_on t m m'\<rbrakk> \<Longrightarrow>
      as_ok m' a \<and> as_frames m' a = as_frames m a \<and> as_view m' a = as_view m a \<and> as_paths m' a = as_paths m a"
    and needs_finite: "finite (needs va)"
    and map: "\<lbrakk>inv p; as_ok m a; as_frames m a \<subseteq> owned p; frame_addr pa mod PAGE_SIZE = 0; frame_addr pa < 2 ^ 48\<rbrakk> \<Longrightarrow>
      \<exists>p' m' a' r. mmu_map mmu alloc p m a va pa flags = Some ((p', m', a'), r) \<and> inv p' \<and> owned p \<subseteq> owned p' \<and>
        as_ok m' a' \<and> as_frames m' a' = as_frames m a \<union> (owned p' - owned p) \<and> only_in (as_frames m' a') m m' \<and>
        as_paths m a \<subseteq> as_paths m' a' \<and> as_paths m' a' \<subseteq> as_paths m a \<union> needs va \<and>
        avail p = avail p' + card (as_paths m' a' - as_paths m a) \<and>
        (case r of
           Inr tok \<Rightarrow> tok = MapperFlush va \<and> as_view m a va = Inl NotMapped \<and> needs va \<subseteq> as_paths m' a' \<and>
             as_view m' a' = (\<lambda>x. if page_number x = page_number va then Inr (pa, mf_effective flags) else as_view m a x)
         | Inl e \<Rightarrow> as_view m' a' = as_view m a \<and>
             (va mod PAGE_SIZE = 0 \<longrightarrow> \<not> (mf_contains flags mf_DEVICE \<and> mf_contains flags mf_EXECUTE) \<longrightarrow>
              as_view m a va = Inl NotMapped \<longrightarrow> avail p' = 0 \<and> \<not> needs va \<subseteq> as_paths m' a'))"
    and unmap: "as_ok m a \<Longrightarrow>
      \<exists>m' a' r. mmu_unmap mmu m a va = Some ((m', a'), r) \<and> as_ok m' a' \<and> as_frames m' a' = as_frames m a \<and>
        as_paths m' a' = as_paths m a \<and> only_in (as_frames m a) m m' \<and>
        (case r of
           Inr x \<Rightarrow> fst x = MapperFlush va \<and> (\<exists>fl. as_view m a va = Inr (snd x, fl)) \<and>
             as_view m' a' = (\<lambda>y. if page_number y = page_number va then Inl NotMapped else as_view m a y)
         | Inl e \<Rightarrow> as_view m' a' = as_view m a \<and> (va mod PAGE_SIZE = 0 \<longrightarrow> as_view m a va = Inl e))"
    and translate: "as_ok m a \<Longrightarrow> mmu_translate mmu m a va = Some (as_view m a va)"
begin

lemma local_only:
  assumes "as_ok m a" "only_in F m m'" "\<And>t. t \<in> F \<Longrightarrow> direct_frame t" "as_frames m a \<inter> F = {}"
  shows "as_ok m' a \<and> as_frames m' a = as_frames m a \<and> as_view m' a = as_view m a \<and> as_paths m' a = as_paths m a"
proof (rule local [OF assms(1)])
  fix t assume "t \<in> as_frames m a"
  then show "same_on t m m'"
    using only_in_same [OF assms(2) frames_direct [OF assms(1)] _ assms(3)] assms(4) by blast
qed

end

section \<open>The state of the wrappers\<close>

text \<open>
  Valid address spaces: the arena and the provider are consistent, and the
  live address spaces keep their tables in frames that are theirs alone.
\<close>

definition vm_ok ::
    "('p \<Rightarrow> bool) \<Rightarrow> ('p \<Rightarrow> phys_frame set) \<Rightarrow> (memory \<Rightarrow> 'a \<Rightarrow> bool) \<Rightarrow> (memory \<Rightarrow> 'a \<Rightarrow> phys_frame set) \<Rightarrow>
       ('a, 'p) vm \<Rightarrow> bool" where
  "vm_ok pinv owned as_ok as_frames v \<longleftrightarrow>
     arena_wf ADDRESS_SPACE_ARENA_CAPACITY (vm_spaces v) \<and> pinv (vm_frames v) \<and>
     (\<forall>h s. get_address_space (vm_spaces v) h = Some s \<longrightarrow>
        as_ok (vm_memory v) (as_inner s) \<and> as_frames (vm_memory v) (as_inner s) \<subseteq> owned (vm_frames v)) \<and>
     (\<forall>h k s u. get_address_space (vm_spaces v) h = Some s \<longrightarrow> get_address_space (vm_spaces v) k = Some u \<longrightarrow> h \<noteq> k \<longrightarrow>
        as_frames (vm_memory v) (as_inner s) \<inter> as_frames (vm_memory v) (as_inner u) = {})"

text \<open>Every live address space with what its translations are.\<close>

definition vm_views ::
    "(memory \<Rightarrow> 'a \<Rightarrow> nat \<Rightarrow> translation) \<Rightarrow> ('a, 'p) vm \<Rightarrow> address_space_handle \<Rightarrow> (nat \<Rightarrow> translation) option" where
  "vm_views as_view v h = map_option (\<lambda>s. as_view (vm_memory v) (as_inner s)) (get_address_space (vm_spaces v) h)"

lemma get_space_mut:
  assumes "get_address_space a h = Some s"
  shows "\<exists>a'. get_address_space_mut a h f = Some a' \<and> get_address_space a' = (get_address_space a)(h \<mapsto> f s) \<and>
    (arena_wf n a \<longrightarrow> arena_wf n a')"
proof -
  obtain a' where a': "arena_get_mut a (ash_slot h) f = Some a'" "arena_get a' = (arena_get a)(ash_slot h \<mapsto> f s)"
    using arena_get_mut_get [of a "ash_slot h" s f] assms by (auto simp: get_address_space_def)
  have "get_address_space a' = (get_address_space a)(h \<mapsto> f s)"
    using a'(2) by (auto simp: get_address_space_def fun_eq_iff address_space_handle.expand)
  then show ?thesis using a'(1) arena_get_mut_wf [OF _ a'(1)] by (auto simp: get_address_space_mut_def)
qed

lemma create_space:
  assumes "arena_wf n a" "\<not> arena_is_full a"
  shows "\<exists>a' h. create_address_space a s = (a', Inr h) \<and> arena_wf n a' \<and> get_address_space a h = None \<and>
    get_address_space a' = (get_address_space a)(h \<mapsto> s)"
proof -
  obtain a' sid where a': "arena_allocate a s = (a', Some sid)"
    using arena_allocate_full_iff [OF assms(1), of s] assms(2) by (cases "arena_allocate a s") auto
  note g = arena_allocate_get [OF assms(1) a']
  have "get_address_space a' = (get_address_space a)(AddressSpaceHandle sid \<mapsto> s)"
    using g(2) by (auto simp: get_address_space_def fun_eq_iff address_space_handle.expand)
  then show ?thesis
    using a' g(1) arena_allocate_wf [OF assms(1), of s]
    by (simp add: create_address_space_def ok_or_def get_address_space_def)
qed

section \<open>Creating an address space\<close>

text \<open>Why creation refuses, in the order of the source's checks; it depends on nothing but
  the parent capability and the room in the arena and the table.\<close>

definition create_verdict :: "cap_table \<Rightarrow> 'a address_space_arena \<Rightarrow> cap_handle \<Rightarrow> cap_rights \<Rightarrow> address_space_error option" where
  "create_verdict t arena parent new_rights =
     (case node_at t parent of
        None \<Rightarrow> Some (AsCapError InvalidHandle)
      | Some n \<Rightarrow>
          if cap_kind (cn_cap n) \<noteq> KindAddressSpace then Some (AsCapError WrongKind)
          else if \<not> rights_contains (cap_rights (cn_cap n)) rights_DERIVE then Some (AsCapError InsufficientRights)
          else if \<not> rights_contains (cap_rights (cn_cap n)) new_rights then Some (AsCapError WidenedRights)
          else if cn_depth n \<ge> MAX_DERIVATION_DEPTH then Some (AsCapError DerivationTooDeep)
          else if arena_is_full arena then Some AsArenaFull
          else if cap_table_is_full t then Some (AsCapError CapsExhausted)
          else None)"

lemma create_verdict_derive: "create_verdict t arena parent r = None \<Longrightarrow> derive_verdict (node_at t parent) r (cap_table_is_full t) = None"
  by (auto simp: create_verdict_def derive_verdict_def split: option.splits if_splits)

lemma node_depth: "\<lbrakk>cap_wf t; node_at t h = Some n\<rbrakk> \<Longrightarrow> cn_depth n \<le> MAX_DERIVATION_DEPTH"
  using node_at_entry [of t h n] wf_depth [of t "ch_index h"] entry_of_live [of t h]
  by (auto simp: node_of_def)

lemma create_refused:
  assumes "cap_wf t" "create_verdict t (vm_spaces v) parent r = Some e"
  shows "cap_create_address_space mmu alloc t v parent r = Some ((t, v), Inl e)"
proof (cases "node_at t parent")
  case None
  then show ?thesis using assms(2) by (simp add: create_verdict_def cap_create_address_space_def lookup_node)
next
  case (Some n)
  have "saturating_add (cn_depth n) 1 = Suc (cn_depth n)"
    using node_depth [OF assms(1) Some] by (intro saturating_add_small) (simp add: MAX_DERIVATION_DEPTH_def)
  then have d: "saturating_add (cn_depth n) 1 > MAX_DERIVATION_DEPTH \<longleftrightarrow> cn_depth n \<ge> MAX_DERIVATION_DEPTH" by auto
  show ?thesis
    using assms(2) Some unfolding create_verdict_def cap_create_address_space_def lookup_node depth_of_node
    by (simp only: option.case sum.case d) (auto split: if_splits)
qed

lemma create_accepted:
  assumes "cap_wf t" "create_verdict t (vm_spaces v) parent r = None"
  shows "cap_create_address_space mmu alloc t v parent r = (do {
      ((p, m), root) \<leftarrow> alloc (vm_frames v) (vm_memory v);
      let v1 = v\<lparr>vm_frames := p, vm_memory := m\<rparr>;
      case root of
        None \<Rightarrow> Some ((t, v1), Inl AsOutOfFrames)
      | Some root \<Rightarrow>
          (let inner = mmu_create_address_space mmu root;
               (arena, r') = create_address_space (vm_spaces v1) (from_mmu_address_space inner);
               v2 = v1\<lparr>vm_spaces := arena\<rparr>
           in case r' of
                Inl e \<Rightarrow> Some ((t, v2), Inl e)
              | Inr handle \<Rightarrow> do {
                  (t', c) \<leftarrow> cap_derive t parent r (CapAddressSpace handle);
                  case c of
                    Inr cap \<Rightarrow> Some ((t', v2), Inr cap)
                  | Inl e \<Rightarrow>
                      Some ((t', v2\<lparr>vm_spaces := fst (destroy_address_space (vm_spaces v2) handle)\<rparr>),
                            Inl (AsCapError e))
                })
    })"
proof -
  obtain n where n: "node_at t parent = Some n" "\<not> cap_kind (cn_cap n) \<noteq> KindAddressSpace"
      "\<not> \<not> rights_contains (cap_rights (cn_cap n)) rights_DERIVE" "\<not> \<not> rights_contains (cap_rights (cn_cap n)) r"
      "\<not> cn_depth n \<ge> MAX_DERIVATION_DEPTH" "\<not> arena_is_full (vm_spaces v)" "\<not> cap_table_is_full t"
    using assms(2) by (auto simp: create_verdict_def split: option.splits if_splits)
  have d: "\<not> saturating_add (cn_depth n) 1 > MAX_DERIVATION_DEPTH"
    using n(5) saturating_add_small [of "cn_depth n"] by (simp add: MAX_DERIVATION_DEPTH_def)
  have l: "cap_lookup t parent = Inr (cn_cap n)" "depth_of t parent = Inr (cn_depth n)"
    using n(1) by (simp_all add: lookup_node depth_of_node)
  show ?thesis
    unfolding cap_create_address_space_def l sum.case if_not_P [OF n(2)] if_not_P [OF n(3)] if_not_P [OF n(4)]
      if_not_P [OF d] if_not_P [OF n(6)] if_not_P [OF n(7)] ..
qed

context translation_unit
begin

abbreviation "vm_valid \<equiv> vm_ok inv owned as_ok as_frames"
abbreviation "views \<equiv> vm_views as_view"

lemma vm_okD:
  assumes "vm_valid v"
  shows "arena_wf ADDRESS_SPACE_ARENA_CAPACITY (vm_spaces v)" "inv (vm_frames v)"
    "get_address_space (vm_spaces v) h = Some s \<Longrightarrow> as_ok (vm_memory v) (as_inner s)"
    "get_address_space (vm_spaces v) h = Some s \<Longrightarrow> as_frames (vm_memory v) (as_inner s) \<subseteq> owned (vm_frames v)"
    "\<lbrakk>get_address_space (vm_spaces v) h = Some s; get_address_space (vm_spaces v) k = Some u; h \<noteq> k\<rbrakk> \<Longrightarrow>
       as_frames (vm_memory v) (as_inner s) \<inter> as_frames (vm_memory v) (as_inner u) = {}"
  using assms unfolding vm_ok_def by blast+

text \<open>
  The one step all wrappers share: an address space replaced, memory changed only
  in its own tables, which grow only by frames the provider handed out.
\<close>

lemma replace_space:
  assumes ok: "vm_valid v" and v': "arena_wf ADDRESS_SPACE_ARENA_CAPACITY (vm_spaces v')" "inv (vm_frames v')"
      "get_address_space (vm_spaces v') = (get_address_space (vm_spaces v))(h \<mapsto> s)"
    and new: "as_ok (vm_memory v') (as_inner s)" "only_in (as_frames (vm_memory v') (as_inner s)) (vm_memory v) (vm_memory v')"
      "as_frames (vm_memory v') (as_inner s) \<subseteq> F \<union> (owned (vm_frames v') - owned (vm_frames v))"
      "as_frames (vm_memory v') (as_inner s) \<subseteq> owned (vm_frames v')" "owned (vm_frames v) \<subseteq> owned (vm_frames v')"
    and F: "\<And>k u. \<lbrakk>get_address_space (vm_spaces v) k = Some u; k \<noteq> h\<rbrakk> \<Longrightarrow> as_frames (vm_memory v) (as_inner u) \<inter> F = {}"
  shows "vm_valid v'" "views v' = (views v)(h \<mapsto> as_view (vm_memory v') (as_inner s))"
    "\<And>k u. \<lbrakk>get_address_space (vm_spaces v) k = Some u; k \<noteq> h\<rbrakk> \<Longrightarrow>
       as_frames (vm_memory v') (as_inner u) = as_frames (vm_memory v) (as_inner u)"
proof -
  have other: "as_ok (vm_memory v') (as_inner u) \<and> as_frames (vm_memory v') (as_inner u) = as_frames (vm_memory v) (as_inner u) \<and>
      as_view (vm_memory v') (as_inner u) = as_view (vm_memory v) (as_inner u)"
    if "get_address_space (vm_spaces v) k = Some u" "k \<noteq> h" for k u
  proof -
    have "as_frames (vm_memory v) (as_inner u) \<inter> as_frames (vm_memory v') (as_inner s) = {}"
      using F [OF that] new(3) vm_okD(4) [OF ok that(1)] by blast
    then show ?thesis
      using local_only [OF vm_okD(3) [OF ok that(1)] new(2) frames_direct [OF new(1)]] by blast
  qed
  show "vm_valid v'" unfolding vm_ok_def
  proof (intro conjI allI impI)
    fix k u assume k: "get_address_space (vm_spaces v') k = Some u"
    show "as_ok (vm_memory v') (as_inner u)"
      using other [of k u] k new(1) unfolding v'(3) by (auto split: if_splits)
    show "as_frames (vm_memory v') (as_inner u) \<subseteq> owned (vm_frames v')"
      using other [of k u] k new(4,5) vm_okD(4) [OF ok, of k u] unfolding v'(3) by (auto split: if_splits)
  next
    fix j k x u assume j: "get_address_space (vm_spaces v') j = Some x" "get_address_space (vm_spaces v') k = Some u" "j \<noteq> k"
    have *: "as_frames (vm_memory v') (as_inner y) \<inter> as_frames (vm_memory v') (as_inner s) = {}"
      if "get_address_space (vm_spaces v) i = Some y" "i \<noteq> h" for i y
      using other [OF that] F [OF that] new(3) vm_okD(4) [OF ok that(1)] by blast
    show "as_frames (vm_memory v') (as_inner x) \<inter> as_frames (vm_memory v') (as_inner u) = {}"
    proof (cases "j = h \<or> k = h")
      case True
      then show ?thesis using j *[of k u] *[of j x] unfolding v'(3) by (auto split: if_splits)
    next
      case False
      then show ?thesis using j other [of j x] other [of k u] vm_okD(5) [OF ok, of j x k u] unfolding v'(3) by simp
    qed
  qed (use v' in auto)
  show "views v' = (views v)(h \<mapsto> as_view (vm_memory v') (as_inner s))"
    using other unfolding vm_views_def v'(3) by (auto simp: fun_eq_iff map_option_case split: option.split)
  show "\<And>k u. \<lbrakk>get_address_space (vm_spaces v) k = Some u; k \<noteq> h\<rbrakk> \<Longrightarrow>
       as_frames (vm_memory v') (as_inner u) = as_frames (vm_memory v) (as_inner u)" using other by blast
qed

lemma created_frame:
  assumes "inv p" "avail p \<noteq> 0"
  obtains p' f where "alloc p m = Some ((p', zero_frame m f), Some f)" "inv p'" "direct_frame f" "f \<notin> owned p"
    "owned p' = insert f (owned p)" "avail p = Suc (avail p')"
  using alloc_some [OF assms, of m] by blast

lemma create_ok:
  assumes ok: "vm_valid v" and t: "cap_wf t" and go: "create_verdict t (vm_spaces v) parent r = None"
    and room: "avail (vm_frames v) \<noteq> 0"
  shows "\<exists>n t' v' c h root. node_at t parent = Some n \<and>
    cap_create_address_space mmu alloc t v parent r = Some ((t', v'), Inr c) \<and>
    adds_node t t' c \<lparr>cn_cap = \<lparr>cap_rights = r, cap_object = CapAddressSpace h\<rparr>,
                      cn_parent = Some (ch_index parent), cn_depth = Suc (cn_depth n)\<rparr> \<and>
    vm_valid v' \<and> views v h = None \<and> views v' = (views v)(h \<mapsto> (\<lambda>_. Inl NotMapped)) \<and>
    root \<notin> owned (vm_frames v) \<and> owned (vm_frames v') = insert root (owned (vm_frames v)) \<and> direct_frame root \<and>
    avail (vm_frames v) = Suc (avail (vm_frames v')) \<and> vm_tlb v' = vm_tlb v \<and>
    vm_memory v' = zero_frame (vm_memory v) root \<and>
    get_address_space (vm_spaces v') = (get_address_space (vm_spaces v))(h \<mapsto> \<lparr>as_inner = mmu_create_address_space mmu root\<rparr>)"
proof -
  obtain p f where f: "alloc (vm_frames v) (vm_memory v) = Some ((p, zero_frame (vm_memory v) f), Some f)" "inv p"
      "direct_frame f" "f \<notin> owned (vm_frames v)" "owned p = insert f (owned (vm_frames v))"
      "avail (vm_frames v) = Suc (avail p)"
    using created_frame [OF vm_okD(2) [OF ok] room] by blast
  let ?s = "\<lparr>as_inner = mmu_create_address_space mmu f\<rparr>"
  have "\<not> arena_is_full (vm_spaces v)" using go by (auto simp: create_verdict_def split: option.splits if_splits)
  from create_space [OF vm_okD(1) [OF ok] this, of ?s] obtain a h where
    a: "create_address_space (vm_spaces v) ?s = (a, Inr h)" "arena_wf ADDRESS_SPACE_ARENA_CAPACITY a"
      "get_address_space (vm_spaces v) h = None" "get_address_space a = (get_address_space (vm_spaces v))(h \<mapsto> ?s)" by blast
  obtain n t' c where n: "node_at t parent = Some n" "cap_derive t parent r (CapAddressSpace h) = Some (t', Inr c)"
      "adds_node t t' c \<lparr>cn_cap = \<lparr>cap_rights = r, cap_object = CapAddressSpace h\<rparr>,
                      cn_parent = Some (ch_index parent), cn_depth = Suc (cn_depth n)\<rparr>"
    using cap_derive_spec [OF t, of parent r "CapAddressSpace h"] unfolding create_verdict_derive [OF go] by auto
  let ?v = "v\<lparr>vm_frames := p, vm_memory := zero_frame (vm_memory v) f, vm_spaces := a\<rparr>"
  have "cap_create_address_space mmu alloc t v parent r = Some ((t', ?v), Inr c)"
    unfolding create_accepted [OF t go] using f(1) a(1) n(2) by (simp add: from_mmu_address_space_def)
  moreover have new: "as_ok (vm_memory ?v) (as_inner ?s)" "as_frames (vm_memory ?v) (as_inner ?s) = {f}"
      "as_view (vm_memory ?v) (as_inner ?s) = (\<lambda>_. Inl NotMapped)"
    using created [OF f(3) refl refl] by simp_all
  have "only_in {f} (vm_memory v) (vm_memory ?v)" using only_in_zero by simp
  then have "vm_valid ?v" "views ?v = (views v)(h \<mapsto> (\<lambda>_. Inl NotMapped))"
    using replace_space [OF ok, of ?v h ?s "{}"] a(2,4) f new subset_insertI [of "owned (vm_frames v)" f] by simp_all
  moreover have "views v h = None" using a(3) by (simp add: vm_views_def)
  ultimately show ?thesis using n f a(4)
    by (intro exI [of _ n] exI [of _ t'] exI [of _ ?v] exI [of _ c] exI [of _ h] exI [of _ f]) simp
qed

lemma create_out_of_frames:
  assumes ok: "vm_valid v" and t: "cap_wf t" and go: "create_verdict t (vm_spaces v) parent r = None"
    and none: "avail (vm_frames v) = 0"
  shows "cap_create_address_space mmu alloc t v parent r = Some ((t, v), Inl AsOutOfFrames)"
  unfolding create_accepted [OF t go] using alloc_none [OF vm_okD(2) [OF ok] none] by simp

section \<open>Mapping and unmapping\<close>

lemma cap_map_ok:
  assumes ok: "vm_valid v" and cap: "resolve_address_space_cap t c = Inr h" "get_address_space (vm_spaces v) h = Some s"
    and pa: "frame_addr pa mod PAGE_SIZE = 0" "frame_addr pa < 2 ^ 48"
  shows "\<exists>v' s' r. cap_map mmu alloc t v c va pa flags = Some (v', r) \<and> vm_valid v' \<and>
    get_address_space (vm_spaces v') = (get_address_space (vm_spaces v))(h \<mapsto> s') \<and>
    owned (vm_frames v) \<subseteq> owned (vm_frames v') \<and>
    as_frames (vm_memory v') (as_inner s') =
      as_frames (vm_memory v) (as_inner s) \<union> (owned (vm_frames v') - owned (vm_frames v)) \<and>
    only_in (as_frames (vm_memory v') (as_inner s')) (vm_memory v) (vm_memory v') \<and>
    as_paths (vm_memory v) (as_inner s) \<subseteq> as_paths (vm_memory v') (as_inner s') \<and>
    as_paths (vm_memory v') (as_inner s') \<subseteq> as_paths (vm_memory v) (as_inner s) \<union> needs va \<and>
    avail (vm_frames v) = avail (vm_frames v') +
      card (as_paths (vm_memory v') (as_inner s') - as_paths (vm_memory v) (as_inner s)) \<and>
    views v' = (views v)(h \<mapsto> as_view (vm_memory v') (as_inner s')) \<and>
    (case r of
       Inr _ \<Rightarrow> vm_tlb v' = vm_tlb v @ [va] \<and> as_view (vm_memory v) (as_inner s) va = Inl NotMapped \<and>
         needs va \<subseteq> as_paths (vm_memory v') (as_inner s') \<and>
         as_view (vm_memory v') (as_inner s') =
           (\<lambda>x. if page_number x = page_number va then Inr (pa, mf_effective flags) else as_view (vm_memory v) (as_inner s) x)
     | Inl e \<Rightarrow> vm_tlb v' = vm_tlb v \<and> as_view (vm_memory v') (as_inner s') = as_view (vm_memory v) (as_inner s) \<and>
         (va mod PAGE_SIZE = 0 \<longrightarrow> \<not> (mf_contains flags mf_DEVICE \<and> mf_contains flags mf_EXECUTE) \<longrightarrow>
          as_view (vm_memory v) (as_inner s) va = Inl NotMapped \<longrightarrow>
          avail (vm_frames v') = 0 \<and> \<not> needs va \<subseteq> as_paths (vm_memory v') (as_inner s')))"
proof -
  obtain p' m' a' r where w: "mmu_map mmu alloc (vm_frames v) (vm_memory v) (as_inner s) va pa flags = Some ((p', m', a'), r)"
      "inv p'" "owned (vm_frames v) \<subseteq> owned p'" "as_ok m' a'"
      "as_frames m' a' = as_frames (vm_memory v) (as_inner s) \<union> (owned p' - owned (vm_frames v))"
      "only_in (as_frames m' a') (vm_memory v) m'"
      "as_paths (vm_memory v) (as_inner s) \<subseteq> as_paths m' a'"
      "as_paths m' a' \<subseteq> as_paths (vm_memory v) (as_inner s) \<union> needs va"
      "avail (vm_frames v) = avail p' + card (as_paths m' a' - as_paths (vm_memory v) (as_inner s))"
      and r: "case r of
           Inr tok \<Rightarrow> tok = MapperFlush va \<and> as_view (vm_memory v) (as_inner s) va = Inl NotMapped \<and> needs va \<subseteq> as_paths m' a' \<and>
             as_view m' a' = (\<lambda>x. if page_number x = page_number va then Inr (pa, mf_effective flags)
                                   else as_view (vm_memory v) (as_inner s) x)
         | Inl e \<Rightarrow> as_view m' a' = as_view (vm_memory v) (as_inner s) \<and>
             (va mod PAGE_SIZE = 0 \<longrightarrow> \<not> (mf_contains flags mf_DEVICE \<and> mf_contains flags mf_EXECUTE) \<longrightarrow>
              as_view (vm_memory v) (as_inner s) va = Inl NotMapped \<longrightarrow> avail p' = 0 \<and> \<not> needs va \<subseteq> as_paths m' a')"
    using map [OF vm_okD(2) [OF ok] vm_okD(3,4) [OF ok cap(2)] pa, of va flags] by blast
  let ?s = "s\<lparr>as_inner := a'\<rparr>"
  obtain a where a: "get_address_space_mut (vm_spaces v) h (\<lambda>s. s\<lparr>as_inner := a'\<rparr>) = Some a"
      "get_address_space a = (get_address_space (vm_spaces v))(h \<mapsto> ?s)" "arena_wf ADDRESS_SPACE_ARENA_CAPACITY a"
    using get_space_mut [OF cap(2), of "\<lambda>s. s\<lparr>as_inner := a'\<rparr>" ADDRESS_SPACE_ARENA_CAPACITY] vm_okD(1) [OF ok] by blast
  define v1 where "v1 = v\<lparr>vm_frames := p', vm_memory := m', vm_spaces := a\<rparr>"
  define v2 where "v2 = (case r of Inl _ \<Rightarrow> v1 | Inr _ \<Rightarrow> v1\<lparr>vm_tlb := vm_tlb v @ [va]\<rparr>)"
  have f2: "vm_frames v2 = p'" "vm_memory v2 = m'" "vm_spaces v2 = a"
    by (simp_all add: v2_def v1_def split: sum.split)
  have F: "as_frames (vm_memory v) (as_inner u) \<inter> as_frames (vm_memory v) (as_inner s) = {}"
    if "get_address_space (vm_spaces v) k = Some u" "k \<noteq> h" for k u
    using vm_okD(5) [OF ok that(1) cap(2) that(2)] .
  have sub: "as_frames m' a' \<subseteq> owned p'" using w(3,5) vm_okD(4) [OF ok cap(2)] by auto
  have "vm_valid v2" "views v2 = (views v)(h \<mapsto> as_view m' a')"
    using replace_space [OF ok, of v2 h ?s "as_frames (vm_memory v) (as_inner s)"] f2 a(2,3) w(2-6) F sub by simp_all
  moreover have "cap_map mmu alloc t v c va pa flags = Some (v2, map_sum MmuMapError (\<lambda>_. ()) r)"
    using cap w(1) a(1) r by (cases r) (simp_all add: cap_map_def Let_def v2_def v1_def mapper_flush_flush_def)
  moreover have "vm_tlb v2 = (case r of Inl _ \<Rightarrow> vm_tlb v | Inr _ \<Rightarrow> vm_tlb v @ [va])"
    by (simp add: v2_def v1_def split: sum.split)
  ultimately show ?thesis
    using a(2) w(3-9) r f2
    by (intro exI [of _ v2] exI [of _ ?s] exI [of _ "map_sum MmuMapError (\<lambda>_. ()) r"]) (simp split: sum.splits)
qed

lemma cap_unmap_ok:
  assumes ok: "vm_valid v" and cap: "resolve_address_space_cap t c = Inr h" "get_address_space (vm_spaces v) h = Some s"
  shows "\<exists>v' s' r. cap_unmap mmu t v c va = Some (v', r) \<and> vm_valid v' \<and>
    get_address_space (vm_spaces v') = (get_address_space (vm_spaces v))(h \<mapsto> s') \<and>
    vm_frames v' = vm_frames v \<and>
    as_frames (vm_memory v') (as_inner s') = as_frames (vm_memory v) (as_inner s) \<and>
    as_paths (vm_memory v') (as_inner s') = as_paths (vm_memory v) (as_inner s) \<and>
    only_in (as_frames (vm_memory v) (as_inner s)) (vm_memory v) (vm_memory v') \<and>
    views v' = (views v)(h \<mapsto> as_view (vm_memory v') (as_inner s')) \<and>
    (case r of
       Inr pa \<Rightarrow> vm_tlb v' = vm_tlb v @ [va] \<and> (\<exists>fl. as_view (vm_memory v) (as_inner s) va = Inr (pa, fl)) \<and>
         as_view (vm_memory v') (as_inner s') =
           (\<lambda>x. if page_number x = page_number va then Inl NotMapped else as_view (vm_memory v) (as_inner s) x)
     | Inl e \<Rightarrow> vm_tlb v' = vm_tlb v \<and> as_view (vm_memory v') (as_inner s') = as_view (vm_memory v) (as_inner s) \<and>
         (va mod PAGE_SIZE = 0 \<longrightarrow> (\<exists>x. e = MmuUnmapError x \<and> as_view (vm_memory v) (as_inner s) va = Inl x)))"
proof -
  obtain m' a' r where w: "mmu_unmap mmu (vm_memory v) (as_inner s) va = Some ((m', a'), r)" "as_ok m' a'"
      "as_frames m' a' = as_frames (vm_memory v) (as_inner s)" "as_paths m' a' = as_paths (vm_memory v) (as_inner s)"
      "only_in (as_frames (vm_memory v) (as_inner s)) (vm_memory v) m'"
      and r: "case r of
           Inr x \<Rightarrow> fst x = MapperFlush va \<and> (\<exists>fl. as_view (vm_memory v) (as_inner s) va = Inr (snd x, fl)) \<and>
             as_view m' a' = (\<lambda>y. if page_number y = page_number va then Inl NotMapped else as_view (vm_memory v) (as_inner s) y)
         | Inl e \<Rightarrow> as_view m' a' = as_view (vm_memory v) (as_inner s) \<and>
             (va mod PAGE_SIZE = 0 \<longrightarrow> as_view (vm_memory v) (as_inner s) va = Inl e)"
    using unmap [OF vm_okD(3) [OF ok cap(2)], of va] by blast
  let ?s = "s\<lparr>as_inner := a'\<rparr>"
  obtain a where a: "get_address_space_mut (vm_spaces v) h (\<lambda>s. s\<lparr>as_inner := a'\<rparr>) = Some a"
      "get_address_space a = (get_address_space (vm_spaces v))(h \<mapsto> ?s)" "arena_wf ADDRESS_SPACE_ARENA_CAPACITY a"
    using get_space_mut [OF cap(2), of "\<lambda>s. s\<lparr>as_inner := a'\<rparr>" ADDRESS_SPACE_ARENA_CAPACITY] vm_okD(1) [OF ok] by blast
  define v1 where "v1 = v\<lparr>vm_memory := m', vm_spaces := a\<rparr>"
  define v2 where "v2 = (case r of Inl _ \<Rightarrow> v1 | Inr _ \<Rightarrow> v1\<lparr>vm_tlb := vm_tlb v @ [va]\<rparr>)"
  have f2: "vm_frames v2 = vm_frames v" "vm_memory v2 = m'" "vm_spaces v2 = a"
    by (simp_all add: v2_def v1_def split: sum.split)
  have F: "as_frames (vm_memory v) (as_inner u) \<inter> as_frames (vm_memory v) (as_inner s) = {}"
    if "get_address_space (vm_spaces v) k = Some u" "k \<noteq> h" for k u
    using vm_okD(5) [OF ok that(1) cap(2) that(2)] .
  have "vm_valid v2" "views v2 = (views v)(h \<mapsto> as_view m' a')"
    using replace_space [OF ok, of v2 h ?s "as_frames (vm_memory v) (as_inner s)"] f2 a(2,3) w F
      vm_okD(2) [OF ok] vm_okD(4) [OF ok cap(2)] by simp_all
  moreover have "cap_unmap mmu t v c va = Some (v2, map_sum MmuUnmapError snd r)"
    using cap w(1) a(1) r
    by (cases r) (auto simp: cap_unmap_def Let_def v2_def v1_def mapper_flush_flush_def split: prod.split)
  moreover have "vm_tlb v2 = (case r of Inl _ \<Rightarrow> vm_tlb v | Inr _ \<Rightarrow> vm_tlb v @ [va])"
    by (simp add: v2_def v1_def split: sum.split)
  ultimately show ?thesis
    using a(2) w r f2
    by (intro exI [of _ v2] exI [of _ ?s] exI [of _ "map_sum MmuUnmapError snd r"])
      (simp split: sum.splits prod.splits, auto)
qed

text \<open>The same effects as one update of the views.\<close>

lemma cap_map_effect:
  assumes ok: "vm_valid v" and cap: "resolve_address_space_cap t c = Inr h" "get_address_space (vm_spaces v) h = Some s"
    and pa: "frame_addr pa mod PAGE_SIZE = 0" "frame_addr pa < 2 ^ 48"
  shows "\<exists>v' r. cap_map mmu alloc t v c va pa flags = Some (v', r) \<and> vm_valid v' \<and>
    views v' = (views v)(h \<mapsto> (if is_ok r
      then (\<lambda>x. if page_number x = page_number va then Inr (pa, mf_effective flags) else as_view (vm_memory v) (as_inner s) x)
      else as_view (vm_memory v) (as_inner s))) \<and>
    vm_tlb v' = vm_tlb v @ (if is_ok r then [va] else [])"
  using cap_map_ok [OF assms, of va flags]
proof (elim exE conjE)
  fix v' s' r
  assume w: "cap_map mmu alloc t v c va pa flags = Some (v', r)" "vm_valid v'"
      "views v' = (views v)(h \<mapsto> as_view (vm_memory v') (as_inner s'))"
    and r: "case r of
       Inr _ \<Rightarrow> vm_tlb v' = vm_tlb v @ [va] \<and> as_view (vm_memory v) (as_inner s) va = Inl NotMapped \<and>
         needs va \<subseteq> as_paths (vm_memory v') (as_inner s') \<and>
         as_view (vm_memory v') (as_inner s') =
           (\<lambda>x. if page_number x = page_number va then Inr (pa, mf_effective flags) else as_view (vm_memory v) (as_inner s) x)
     | Inl e \<Rightarrow> vm_tlb v' = vm_tlb v \<and> as_view (vm_memory v') (as_inner s') = as_view (vm_memory v) (as_inner s) \<and>
         (va mod PAGE_SIZE = 0 \<longrightarrow> \<not> (mf_contains flags mf_DEVICE \<and> mf_contains flags mf_EXECUTE) \<longrightarrow>
          as_view (vm_memory v) (as_inner s) va = Inl NotMapped \<longrightarrow>
          avail (vm_frames v') = 0 \<and> \<not> needs va \<subseteq> as_paths (vm_memory v') (as_inner s'))"
  show ?thesis
  proof (intro exI [of _ v'] exI [of _ r] conjI)
    show "views v' = (views v)(h \<mapsto> (if is_ok r
      then (\<lambda>x. if page_number x = page_number va then Inr (pa, mf_effective flags) else as_view (vm_memory v) (as_inner s) x)
      else as_view (vm_memory v) (as_inner s)))" using w(3) r by (cases r) simp_all
    show "vm_tlb v' = vm_tlb v @ (if is_ok r then [va] else [])" using r by (cases r) simp_all
  qed (use w in simp_all)
qed

lemma cap_unmap_effect:
  assumes ok: "vm_valid v" and cap: "resolve_address_space_cap t c = Inr h" "get_address_space (vm_spaces v) h = Some s"
  shows "\<exists>v' r. cap_unmap mmu t v c va = Some (v', r) \<and> vm_valid v' \<and> vm_frames v' = vm_frames v \<and>
    views v' = (views v)(h \<mapsto> (if is_ok r
      then (\<lambda>x. if page_number x = page_number va then Inl NotMapped else as_view (vm_memory v) (as_inner s) x)
      else as_view (vm_memory v) (as_inner s))) \<and>
    (\<forall>f. r = Inr f \<longrightarrow> (\<exists>fl. as_view (vm_memory v) (as_inner s) va = Inr (f, fl))) \<and>
    (va mod PAGE_SIZE = 0 \<longrightarrow> is_ok r = is_ok (as_view (vm_memory v) (as_inner s) va)) \<and>
    vm_tlb v' = vm_tlb v @ (if is_ok r then [va] else [])"
  using cap_unmap_ok [OF assms, of va]
proof (elim exE conjE)
  fix v' s' r
  assume w: "cap_unmap mmu t v c va = Some (v', r)" "vm_valid v'" "vm_frames v' = vm_frames v"
      "views v' = (views v)(h \<mapsto> as_view (vm_memory v') (as_inner s'))"
    and r: "case r of
       Inr pa \<Rightarrow> vm_tlb v' = vm_tlb v @ [va] \<and> (\<exists>fl. as_view (vm_memory v) (as_inner s) va = Inr (pa, fl)) \<and>
         as_view (vm_memory v') (as_inner s') =
           (\<lambda>x. if page_number x = page_number va then Inl NotMapped else as_view (vm_memory v) (as_inner s) x)
     | Inl e \<Rightarrow> vm_tlb v' = vm_tlb v \<and> as_view (vm_memory v') (as_inner s') = as_view (vm_memory v) (as_inner s) \<and>
         (va mod PAGE_SIZE = 0 \<longrightarrow> (\<exists>x. e = MmuUnmapError x \<and> as_view (vm_memory v) (as_inner s) va = Inl x))"
  show ?thesis
  proof (intro exI [of _ v'] exI [of _ r] conjI)
    show "views v' = (views v)(h \<mapsto> (if is_ok r
      then (\<lambda>x. if page_number x = page_number va then Inl NotMapped else as_view (vm_memory v) (as_inner s) x)
      else as_view (vm_memory v) (as_inner s)))" using w(4) r by (cases r) simp_all
    show "\<forall>f. r = Inr f \<longrightarrow> (\<exists>fl. as_view (vm_memory v) (as_inner s) va = Inr (f, fl))" using r by (cases r) auto
    show "va mod PAGE_SIZE = 0 \<longrightarrow> is_ok r = is_ok (as_view (vm_memory v) (as_inner s) va)"
      using r by (cases r) auto
    show "vm_tlb v' = vm_tlb v @ (if is_ok r then [va] else [])" using r by (cases r) simp_all
  qed (use w in simp_all)
qed

end

end
