(* ===== verification/Pmm.thy ===== *)
theory Pmm
  imports Memory
begin

text \<open>
  The physical memory manager (\<open>kernel/src/mm/pmm.rs\<close>): one bit per 4 KiB frame
  of a managed extent, a cached list of reserved ranges, a scan hint and three
  counters. Counters and indices are \<open>usize\<close> values with the saturating
  arithmetic of the source; indexing the bitmap out of range panics. The
  zero-fill of an allocated frame acts on \<^typ>\<open>memory\<close>. The const generics \<open>N\<close>
  and \<open>R\<close> are arguments of the constructor.
\<close>

section \<open>Data\<close>

datatype pmm_error =
    MisalignedAddress | OutOfRange | TooManyReservedRanges | OverlappingReservedRanges | DoubleFree

record pmm_stats =
  st_total_frames :: nat
  st_reserved_frames :: nat
  st_allocated_frames :: nat
  st_free_frames :: nat

record pmm =
  pm_bitmap :: "8 word list"
  pm_extent :: phys_frame_range
  pm_reserved_ranges :: "phys_frame_range option list"
  pm_hint :: nat
  pm_free_count :: nat
  pm_reserved_count :: nat
  pm_allocated_count :: nat

section \<open>Bitmap helpers\<close>

definition set_bit_at :: "8 word list \<Rightarrow> nat \<Rightarrow> 8 word list option" where
  "set_bit_at bitmap idx = do {
     b \<leftarrow> nth_opt bitmap (idx div 8);
     Some (bitmap[idx div 8 := b OR push_bit (idx mod 8) 1])
   }"

definition read_bit_at :: "8 word list \<Rightarrow> nat \<Rightarrow> bool option" where
  "read_bit_at bitmap idx = do {
     b \<leftarrow> nth_opt bitmap (idx div 8);
     Some (drop_bit (idx mod 8) b AND 1 = 1)
   }"

definition clear_bit_at :: "8 word list \<Rightarrow> nat \<Rightarrow> 8 word list option" where
  "clear_bit_at bitmap idx = do {
     b \<leftarrow> nth_opt bitmap (idx div 8);
     Some (bitmap[idx div 8 := b AND NOT (push_bit (idx mod 8) 1)])
   }"

text \<open>\<open>(lo..hi).find(|&idx| !read_bit(bitmap, idx))\<close>.\<close>

fun find_clear :: "8 word list \<Rightarrow> nat list \<Rightarrow> nat option option" where
  "find_clear bitmap [] = Some None"
| "find_clear bitmap (i # is) = do {
     b \<leftarrow> read_bit_at bitmap i;
     if \<not> b then Some (Some i) else find_clear bitmap is
   }"

definition first_zero_bit :: "8 word list \<Rightarrow> nat \<Rightarrow> nat option option" where
  "first_zero_bit bitmap frame_count = find_clear bitmap [0..<frame_count]"

section \<open>Construction\<close>

definition check_reserved :: "phys_frame_range \<Rightarrow> phys_frame_range \<Rightarrow> pmm_error option" where
  "check_reserved extent r =
     (if \<not> range_is_aligned r then Some MisalignedAddress
      else if pr_start r < pr_start extent \<or> pr_end extent < pr_end r then Some OutOfRange
      else if pr_end r < pr_start r then Some OutOfRange
      else None)"

fun first_error :: "('a \<Rightarrow> 'e option) \<Rightarrow> 'a list \<Rightarrow> 'e option" where
  "first_error f [] = None"
| "first_error f (x # xs) = (case f x of Some e \<Rightarrow> Some e | None \<Rightarrow> first_error f xs)"

definition ranges_overlap :: "phys_frame_range \<Rightarrow> phys_frame_range \<Rightarrow> bool" where
  "ranges_overlap a b \<longleftrightarrow> pr_start a < pr_end b \<and> pr_start b < pr_end a"

fun any_overlap :: "phys_frame_range list \<Rightarrow> bool" where
  "any_overlap [] = False"
| "any_overlap (a # rs) = (list_ex (ranges_overlap a) rs \<or> any_overlap rs)"

text \<open>Marking the frames of one reserved range, as the population loop does.\<close>

definition mark_range :: "phys_frame_range \<Rightarrow> phys_frame_range \<Rightarrow> 8 word list \<Rightarrow> 8 word list option" where
  "mark_range extent r bitmap =
     (let start_idx = (pr_start r - pr_start extent) div PAGE_SIZE
      in fold_opt (\<lambda>off bm. set_bit_at bm (saturating_add start_idx off))
           [0..<range_frame_count r] bitmap)"

definition pmm_new ::
    "nat \<Rightarrow> nat \<Rightarrow> phys_frame_range \<Rightarrow> phys_frame_range list \<Rightarrow> (pmm_error + pmm) option" where
  "pmm_new N R extent reserved =
     (if \<not> range_is_aligned extent then Some (Inl MisalignedAddress)
      else
        let total_frames = range_frame_count extent
        in if total_frames > saturating_mul N 8 then Some (Inl OutOfRange)
           else if length reserved > R then Some (Inl TooManyReservedRanges)
           else
             (case first_error (check_reserved extent) reserved of
                Some e \<Rightarrow> Some (Inl e)
              | None \<Rightarrow>
                  if any_overlap reserved then Some (Inl OverlappingReservedRanges)
                  else do {
                    (bitmap, reserved_count, reserved_ranges) \<leftarrow>
                      fold_opt (\<lambda>(idx, r) (bm, cnt, rs). do {
                          bm' \<leftarrow> mark_range extent r bm;
                          _ \<leftarrow> nth_opt rs idx;
                          Some (bm', saturating_add cnt (range_frame_count r), rs[idx := Some r])
                        }) (enumerate 0 reserved) (replicate N 0, 0, replicate R None);
                    hint \<leftarrow> first_zero_bit bitmap total_frames;
                    Some (Inr \<lparr>pm_bitmap = bitmap, pm_extent = extent, pm_reserved_ranges = reserved_ranges,
                       pm_hint = (case hint of Some i \<Rightarrow> i | None \<Rightarrow> total_frames),
                       pm_free_count = total_frames - reserved_count,
                       pm_reserved_count = reserved_count, pm_allocated_count = 0\<rparr>)
                  }))"

definition pmm_get_stats :: "pmm \<Rightarrow> pmm_stats" where
  "pmm_get_stats p =
     \<lparr>st_total_frames = range_frame_count (pm_extent p), st_reserved_frames = pm_reserved_count p,
      st_allocated_frames = pm_allocated_count p, st_free_frames = pm_free_count p\<rparr>"

section \<open>Allocation\<close>

definition pmm_alloc_frame :: "pmm \<Rightarrow> memory \<Rightarrow> ((pmm \<times> memory) \<times> phys_frame option) option" where
  "pmm_alloc_frame p m = do {
     let total_frames = range_frame_count (pm_extent p);
     forward \<leftarrow> find_clear (pm_bitmap p) [pm_hint p..<total_frames];
     idx_opt \<leftarrow> (if forward = None \<and> pm_hint p > 0
                 then find_clear (pm_bitmap p) [0..<pm_hint p] else Some forward);
     case idx_opt of
       None \<Rightarrow> Some ((p, m), None)
     | Some idx \<Rightarrow> do {
         let pa = saturating_add (pr_start (pm_extent p)) (saturating_mul idx PAGE_SIZE);
         case frame_from_aligned pa of
           None \<Rightarrow> Some ((p, m), None)
         | Some frame \<Rightarrow> do {
             va \<leftarrow> phys_to_kernel_va pa;
             bitmap \<leftarrow> set_bit_at (pm_bitmap p) idx;
             Some ((p\<lparr>pm_bitmap := bitmap, pm_hint := saturating_add idx 1,
                      pm_free_count := pm_free_count p - 1,
                      pm_allocated_count := saturating_add (pm_allocated_count p) 1\<rparr>,
                    write_bytes m va 0 PAGE_SIZE), Some frame)
           }
       }
   }"

section \<open>Release\<close>

definition pmm_free_frame :: "pmm \<Rightarrow> phys_frame \<Rightarrow> (pmm, pmm_error, unit) outcome" where
  "pmm_free_frame p frame =
     (let pa = frame_addr frame
      in if \<not> range_contains (pm_extent p) pa then Some (p, Inl OutOfRange)
         else
           let idx = (pa - pr_start (pm_extent p)) div PAGE_SIZE
           in if list_ex (\<lambda>r. case r of None \<Rightarrow> False | Some r \<Rightarrow> range_contains r pa) (pm_reserved_ranges p)
              then Some (p, Inl DoubleFree)
              else do {
                b \<leftarrow> read_bit_at (pm_bitmap p) idx;
                if \<not> b then Some (p, Inl DoubleFree)
                else do {
                  bitmap \<leftarrow> clear_bit_at (pm_bitmap p) idx;
                  Some (p\<lparr>pm_bitmap := bitmap,
                          pm_hint := (if idx < pm_hint p then idx else pm_hint p),
                          pm_free_count := saturating_add (pm_free_count p) 1,
                          pm_allocated_count := pm_allocated_count p - 1\<rparr>, Inr ())
                }
              })"

section \<open>The aliasing query\<close>

text \<open>The end index of the first cached range that covers the cursor.\<close>

fun covering_end :: "nat \<Rightarrow> phys_frame_range option list \<Rightarrow> nat \<Rightarrow> nat option" where
  "covering_end extent_start [] cursor = None"
| "covering_end extent_start (None # rs) cursor = covering_end extent_start rs cursor"
| "covering_end extent_start (Some r # rs) cursor =
     (let r_start_idx = (pr_start r - extent_start) div PAGE_SIZE;
          r_end_idx = (pr_end r - extent_start) div PAGE_SIZE
      in if r_start_idx \<le> cursor \<and> cursor < r_end_idx then Some r_end_idx
         else covering_end extent_start rs cursor)"

lemma covering_end_advances: "covering_end s rs c = Some e \<Longrightarrow> c < e"
  by (induction s rs c rule: covering_end.induct) (auto simp: Let_def split: if_splits)

function coverage_walk :: "nat \<Rightarrow> phys_frame_range option list \<Rightarrow> nat \<Rightarrow> nat \<Rightarrow> bool" where
  "coverage_walk extent_start rs end_idx cursor =
     (if cursor < end_idx then
        (case covering_end extent_start rs cursor of
           Some e \<Rightarrow> coverage_walk extent_start rs end_idx e
         | None \<Rightarrow> True)
      else False)"
  by pat_completeness auto
termination
  by (relation "measure (\<lambda>(_, _, end_idx, cursor). end_idx - cursor)")
    (auto dest: covering_end_advances)

declare coverage_walk.simps [simp del]

definition div_ceil :: "nat \<Rightarrow> nat \<Rightarrow> nat" where
  "div_ceil a b = (if a mod b = 0 then a div b else a div b + 1)"

definition could_yield_pa_overlapping :: "pmm \<Rightarrow> nat \<Rightarrow> nat \<Rightarrow> bool" where
  "could_yield_pa_overlapping p start stop =
     (if stop \<le> start then False
      else
        let extent_start = pr_start (pm_extent p); extent_end = pr_end (pm_extent p)
        in if stop \<le> extent_start \<or> extent_end \<le> start then False
           else
             let clipped_start = (if extent_start < start then start else extent_start);
                 clipped_end = (if stop < extent_end then stop else extent_end);
                 start_idx = (clipped_start - extent_start) div PAGE_SIZE;
                 end_idx = div_ceil (clipped_end - extent_start) PAGE_SIZE
             in coverage_walk extent_start (pm_reserved_ranges p) end_idx start_idx)"

end
