(* ===== verification/Pmm_Props.thy ===== *)
theory Pmm_Props
  imports Pmm
begin

text \<open>
  The physical memory manager against its abstract state: the set of used
  frames and the set of reserved frames. The invariant \<open>pmm_wf\<close> relates bitmap,
  hint, counters and reserved list to it; construction, allocation and release
  are then exact set operations, and the interval walk of the aliasing query
  agrees with the frame-by-frame definition.
\<close>

section \<open>The bitmap as a set\<close>

definition bits :: "8 word list \<Rightarrow> nat set" where
  "bits bm = {i. i < 8 * length bm \<and> bit (bm ! (i div 8)) (i mod 8)}"

lemma read_bit_at_eq: "i < 8 * length bm \<Longrightarrow> read_bit_at bm i = Some (i \<in> bits bm)"
proof -
  assume i: "i < 8 * length bm"
  then have "i div 8 < length bm" by auto
  then show ?thesis
    using i by (simp add: read_bit_at_def bits_def bit_iff_and_drop_bit_eq_1)
qed

lemma bit_or_flag: "j < 8 \<Longrightarrow> k < 8 \<Longrightarrow> bit (b OR push_bit k (1 :: 8 word)) j \<longleftrightarrow> bit b j \<or> j = k"
  by (auto simp: bit_or_iff bit_push_bit_iff bit_1_iff bit_exp_iff)

lemma bit_and_not_flag:
  "j < 8 \<Longrightarrow> k < 8 \<Longrightarrow> bit (b AND NOT (push_bit k (1 :: 8 word))) j \<longleftrightarrow> bit b j \<and> j \<noteq> k"
  by (auto simp: bit_and_iff bit_not_iff bit_push_bit_iff bit_1_iff bit_exp_iff)

lemma div_mod_8_eq: "(i :: nat) div 8 = j div 8 \<and> i mod 8 = j mod 8 \<longleftrightarrow> i = j"
  by (metis div_mult_mod_eq)

lemma set_bit_at_eq:
  assumes "i < 8 * length bm"
  shows "\<exists>bm'. set_bit_at bm i = Some bm' \<and> bits bm' = insert i (bits bm) \<and> length bm' = length bm"
proof -
  have b: "i div 8 < length bm" using assms by auto
  let ?bm = "bm[i div 8 := (bm ! (i div 8)) OR push_bit (i mod 8) 1]"
  have "bit (?bm ! (j div 8)) (j mod 8) \<longleftrightarrow> bit (bm ! (j div 8)) (j mod 8) \<or> j = i"
    if "j < 8 * length bm" for j
    using b bit_or_flag [of "j mod 8" "i mod 8" "bm ! (i div 8)"] div_mod_8_eq [of j i]
    by (auto simp: nth_update_any)
  then have "bits ?bm = insert i (bits bm)" using assms by (auto simp: bits_def)
  then show ?thesis using b by (simp add: set_bit_at_def)
qed

lemma clear_bit_at_eq:
  assumes "i < 8 * length bm"
  shows "\<exists>bm'. clear_bit_at bm i = Some bm' \<and> bits bm' = bits bm - {i} \<and> length bm' = length bm"
proof -
  have b: "i div 8 < length bm" using assms by auto
  let ?bm = "bm[i div 8 := (bm ! (i div 8)) AND NOT (push_bit (i mod 8) 1)]"
  have "bit (?bm ! (j div 8)) (j mod 8) \<longleftrightarrow> bit (bm ! (j div 8)) (j mod 8) \<and> j \<noteq> i"
    if "j < 8 * length bm" for j
    using b bit_and_not_flag [of "j mod 8" "i mod 8" "bm ! (i div 8)"] div_mod_8_eq [of j i]
    by (auto simp: nth_update_any)
  then have "bits ?bm = bits bm - {i}" using assms by (auto simp: bits_def)
  then show ?thesis using b by (simp add: clear_bit_at_def)
qed

lemma find_clear_eq:
  "(\<And>i. i \<in> set is \<Longrightarrow> i < 8 * length bm) \<Longrightarrow> find_clear bm is = Some (find (\<lambda>i. i \<notin> bits bm) is)"
  by (induction "is") (auto simp: read_bit_at_eq)

lemma find_upt_Some_iff:
  "find P [a..<b] = Some i \<longleftrightarrow> a \<le> i \<and> i < b \<and> P i \<and> (\<forall>j. a \<le> j \<and> j < i \<longrightarrow> \<not> P j)"
proof
  assume "find P [a..<b] = Some i"
  then obtain k where k: "k < b - a" "P (a + k)" "i = a + k" "\<forall>j<k. \<not> P (a + j)"
    by (auto simp: find_Some_iff)
  have "\<not> P j" if "a \<le> j" "j < i" for j
    using k(4) [rule_format, of "j - a"] k(3) that by auto
  then show "a \<le> i \<and> i < b \<and> P i \<and> (\<forall>j. a \<le> j \<and> j < i \<longrightarrow> \<not> P j)" using k by auto
next
  assume "a \<le> i \<and> i < b \<and> P i \<and> (\<forall>j. a \<le> j \<and> j < i \<longrightarrow> \<not> P j)"
  then show "find P [a..<b] = Some i"
    by (auto simp: find_Some_iff intro!: exI [of _ "i - a"])
qed

lemma find_upt_None_iff: "find P [a..<b] = None \<longleftrightarrow> (\<forall>i. a \<le> i \<and> i < b \<longrightarrow> \<not> P i)"
  by (auto simp: find_None_iff)

section \<open>The abstract state\<close>

definition pm_total :: "pmm \<Rightarrow> nat" where
  "pm_total p = range_frame_count (pm_extent p)"

definition frame_pa :: "pmm \<Rightarrow> nat \<Rightarrow> nat" where
  "frame_pa p i = pr_start (pm_extent p) + i * PAGE_SIZE"

definition used :: "pmm \<Rightarrow> nat set" where
  "used p = bits (pm_bitmap p) \<inter> {..<pm_total p}"

definition reserved_frames :: "pmm \<Rightarrow> nat set" where
  "reserved_frames p =
     {i. i < pm_total p \<and> (\<exists>r. Some r \<in> set (pm_reserved_ranges p) \<and> range_contains r (frame_pa p i))}"

definition range_ok :: "phys_frame_range \<Rightarrow> phys_frame_range \<Rightarrow> bool" where
  "range_ok extent r \<longleftrightarrow>
     range_is_aligned r \<and> pr_start extent \<le> pr_start r \<and> pr_start r \<le> pr_end r \<and> pr_end r \<le> pr_end extent"

definition pmm_wf :: "pmm \<Rightarrow> bool" where
  "pmm_wf p \<longleftrightarrow>
     range_is_aligned (pm_extent p) \<and> pr_end (pm_extent p) \<le> usize_max \<and>
     pm_total p \<le> 8 * length (pm_bitmap p) \<and>
     (\<forall>r. Some r \<in> set (pm_reserved_ranges p) \<longrightarrow> range_ok (pm_extent p) r) \<and>
     reserved_frames p \<subseteq> used p \<and>
     pm_hint p \<le> pm_total p \<and> {..<pm_hint p} \<subseteq> used p \<and>
     pm_reserved_count p = card (reserved_frames p) \<and>
     pm_allocated_count p = card (used p - reserved_frames p) \<and>
     pm_free_count p = pm_total p - card (used p)"

definition direct_mapped :: "pmm \<Rightarrow> bool" where
  "direct_mapped p \<longleftrightarrow> pr_end (pm_extent p) \<le> 0x100000000"

lemma used_bound: "used p \<subseteq> {..<pm_total p}" and used_finite [simp]: "finite (used p)"
  by (auto simp: used_def)

lemma reserved_finite [simp]: "finite (reserved_frames p)"
  by (auto simp: reserved_frames_def)

lemma total_bytes: "pm_total p * PAGE_SIZE \<le> pr_end (pm_extent p) - pr_start (pm_extent p)"
  by (simp add: pm_total_def range_frame_count_def range_len_bytes_def)

lemma frame_pa_bound:
  assumes "i < pm_total p"
  shows "frame_pa p i + PAGE_SIZE \<le> pr_end (pm_extent p)"
proof -
  have "(i + 1) * PAGE_SIZE \<le> pm_total p * PAGE_SIZE" using assms by (intro mult_right_mono) auto
  then have "(i + 1) * PAGE_SIZE \<le> pr_end (pm_extent p) - pr_start (pm_extent p)"
    using total_bytes [of p] by linarith
  then show ?thesis by (simp add: frame_pa_def PAGE_SIZE_def)
qed

lemma frame_pa_aligned: "pmm_wf p \<Longrightarrow> frame_pa p i mod PAGE_SIZE = 0"
  by (auto simp: pmm_wf_def range_is_aligned_def frame_pa_def PAGE_SIZE_def)

section \<open>Allocation\<close>

definition lowest_free :: "pmm \<Rightarrow> nat \<Rightarrow> bool" where
  "lowest_free p i \<longleftrightarrow> i < pm_total p \<and> i \<notin> used p \<and> {..<i} \<subseteq> used p"

lemma used_card_total: "card (used p) \<le> pm_total p"
  using card_mono [OF _ used_bound [of p]] by simp

lemma total_le_usize: "pmm_wf p \<Longrightarrow> pm_total p \<le> usize_max div PAGE_SIZE"
  using total_bytes [of p] by (auto simp: pmm_wf_def PAGE_SIZE_def usize_max_def)

lemma pmm_alloc_spec:
  assumes wf: "pmm_wf p" and dm: "direct_mapped p"
  shows "if used p = {..<pm_total p} then pmm_alloc_frame p m = Some ((p, m), None)
    else \<exists>i p'. lowest_free p i \<and>
      pmm_alloc_frame p m =
        Some ((p', write_bytes m (KERNEL_HIGH_HALF_OFFSET + frame_pa p i) 0 PAGE_SIZE),
              Some (PhysFrame (frame_pa p i))) \<and>
      pmm_wf p' \<and> used p' = insert i (used p) \<and>
      pm_extent p' = pm_extent p \<and> pm_reserved_ranges p' = pm_reserved_ranges p"
proof -
  have len: "pm_total p \<le> 8 * length (pm_bitmap p)" and hint: "pm_hint p \<le> pm_total p"
      "{..<pm_hint p} \<subseteq> used p"
    using wf by (simp_all add: pmm_wf_def)
  have fwd: "find_clear (pm_bitmap p) [pm_hint p..<pm_total p] =
      Some (find (\<lambda>i. i \<notin> bits (pm_bitmap p)) [pm_hint p..<pm_total p])"
    using len by (intro find_clear_eq) auto
  have wrap: "find_clear (pm_bitmap p) [0..<pm_hint p] = Some None"
  proof -
    have "find (\<lambda>i. i \<notin> bits (pm_bitmap p)) [0..<pm_hint p] = None"
      using hint(2) by (auto simp: find_upt_None_iff used_def)
    then show ?thesis using len hint(1) by (subst find_clear_eq) auto
  qed
  show ?thesis
  proof (cases "find (\<lambda>i. i \<notin> bits (pm_bitmap p)) [pm_hint p..<pm_total p]")
    case None
    then have "used p = {..<pm_total p}"
      using hint(2) by (auto simp: find_upt_None_iff used_def not_less [symmetric])
    then show ?thesis
      using None fwd wrap by (auto simp: pmm_alloc_frame_def pm_total_def Let_def)
  next
    case (Some i)
    then have i: "pm_hint p \<le> i" "i < pm_total p" "i \<notin> bits (pm_bitmap p)"
        "\<forall>j. pm_hint p \<le> j \<and> j < i \<longrightarrow> j \<in> bits (pm_bitmap p)"
      by (auto simp: find_upt_Some_iff)
    have low: "lowest_free p i"
      unfolding lowest_free_def
    proof (intro conjI subsetI)
      show "i < pm_total p" by (rule i)
      show "i \<notin> used p" using i by (simp add: used_def)
      fix j assume "j \<in> {..<i}"
      then show "j \<in> used p"
        using i hint(2) by (cases "j < pm_hint p") (auto simp: used_def)
    qed
    obtain bm where bm: "set_bit_at (pm_bitmap p) i = Some bm" "bits bm = insert i (bits (pm_bitmap p))"
        "length bm = length (pm_bitmap p)"
      using set_bit_at_eq [of i "pm_bitmap p"] i(2) len by auto
    have pa: "saturating_add (pr_start (pm_extent p)) (saturating_mul i PAGE_SIZE) = frame_pa p i"
      using frame_pa_bound [OF i(2)] wf
      by (simp add: frame_pa_def saturating_add_exact saturating_mul_exact pmm_wf_def)
    have frame: "frame_from_aligned (frame_pa p i) = Some (PhysFrame (frame_pa p i))"
      using frame_pa_aligned [OF wf] by (simp add: frame_from_aligned_def)
    have va: "phys_to_kernel_va (frame_pa p i) = Some (KERNEL_HIGH_HALF_OFFSET + frame_pa p i)"
      using frame_pa_bound [OF i(2)] dm
      by (subst phys_to_kernel_va_eq) (auto simp: direct_mapped_def PAGE_SIZE_def KERNEL_HIGH_HALF_OFFSET_def)
    have small: "i + 1 \<le> usize_max" "pm_allocated_count p + 1 \<le> usize_max"
    proof -
      have t: "pm_total p \<le> usize_max div PAGE_SIZE" using wf by (rule total_le_usize)
      then show "i + 1 \<le> usize_max" using i(2) by (simp add: PAGE_SIZE_def usize_max_def)
      have "card (used p - reserved_frames p) \<le> card (used p)" by (rule card_mono) auto
      then show "pm_allocated_count p + 1 \<le> usize_max"
        using t used_card_total [of p] wf by (simp add: pmm_wf_def PAGE_SIZE_def usize_max_def)
    qed
    let ?p = "p\<lparr>pm_bitmap := bm, pm_hint := i + 1, pm_free_count := pm_free_count p - 1,
                pm_allocated_count := pm_allocated_count p + 1\<rparr>"
    have "pmm_alloc_frame p m =
        Some ((?p, write_bytes m (KERNEL_HIGH_HALF_OFFSET + frame_pa p i) 0 PAGE_SIZE),
              Some (PhysFrame (frame_pa p i)))"
      using Some fwd bm pa frame va small
      by (simp add: pmm_alloc_frame_def pm_total_def Let_def saturating_add_exact)
    moreover have used': "used ?p = insert i (used p)"
      using bm(2) i(2) by (auto simp: used_def pm_total_def)
    moreover have "pmm_wf ?p"
    proof -
      have res: "reserved_frames ?p = reserved_frames p"
        by (simp add: reserved_frames_def pm_total_def frame_pa_def)
      have iu: "i \<notin> used p" "{..<i} \<subseteq> used p" using low by (simp_all add: lowest_free_def)
      have nr: "i \<notin> reserved_frames p" using iu wf by (auto simp: pmm_wf_def)
      have "card (insert i (used p) - reserved_frames p) = Suc (card (used p - reserved_frames p))"
        using iu nr by (simp add: insert_Diff_if)
      moreover have "card (insert i (used p)) = Suc (card (used p))" using iu by simp
      moreover have "{..<i + 1} \<subseteq> insert i (used p)" using iu(2) by (auto simp: less_Suc_eq)
      ultimately show ?thesis
        using wf bm(3) i(2) unfolding pmm_wf_def used' res
        by (auto simp: pm_total_def)
    qed
    moreover have "used p \<noteq> {..<pm_total p}" using low by (auto simp: lowest_free_def)
    ultimately show ?thesis using low by auto
  qed
qed

section \<open>Release\<close>

definition frame_valid :: "phys_frame \<Rightarrow> bool" where
  "frame_valid f \<longleftrightarrow> frame_addr f mod PAGE_SIZE = 0"

lemma aligned_quotient:
  fixes a b :: nat
  assumes "a mod PAGE_SIZE = 0" "b mod PAGE_SIZE = 0"
  shows "a + (b - a) div PAGE_SIZE * PAGE_SIZE = max a b"
proof -
  obtain k l where "a = PAGE_SIZE * k" "b = PAGE_SIZE * l" using assms by (auto elim!: dvdE simp: mod_eq_0_iff_dvd)
  then have "(b - a) div PAGE_SIZE * PAGE_SIZE = b - a"
    by (simp add: right_diff_distrib' [symmetric] PAGE_SIZE_def)
  then show ?thesis by simp
qed

lemma total_exact:
  assumes "pmm_wf p" "pr_start (pm_extent p) \<le> pr_end (pm_extent p)"
  shows "frame_pa p (pm_total p) = pr_end (pm_extent p)"
  using aligned_quotient [of "pr_start (pm_extent p)" "pr_end (pm_extent p)"] assms
  by (simp add: pmm_wf_def range_is_aligned_def frame_pa_def pm_total_def range_frame_count_def
      range_len_bytes_def)

lemma contained_frame:
  assumes wf: "pmm_wf p" and "pa mod PAGE_SIZE = 0" "range_contains (pm_extent p) pa"
  shows "(pa - pr_start (pm_extent p)) div PAGE_SIZE < pm_total p"
    and "frame_pa p ((pa - pr_start (pm_extent p)) div PAGE_SIZE) = pa"
proof -
  let ?s = "pr_start (pm_extent p)" and ?i = "(pa - pr_start (pm_extent p)) div PAGE_SIZE"
  have c: "?s \<le> pa" "pa < pr_end (pm_extent p)" using assms(3) by (simp_all add: range_contains_def)
  show pa: "frame_pa p ?i = pa"
    using aligned_quotient [of ?s pa] assms c
    by (simp add: frame_pa_def pmm_wf_def range_is_aligned_def)
  have "frame_pa p ?i < frame_pa p (pm_total p)" using total_exact [OF wf] c pa by simp
  then show "?i < pm_total p" by (simp add: frame_pa_def)
qed

lemma pmm_free_spec:
  assumes wf: "pmm_wf p" and al: "frame_valid f"
  shows "if \<not> range_contains (pm_extent p) (frame_addr f) then pmm_free_frame p f = Some (p, Inl OutOfRange)
    else \<exists>i < pm_total p. frame_addr f = frame_pa p i \<and>
      (if i \<notin> used p - reserved_frames p then pmm_free_frame p f = Some (p, Inl DoubleFree)
       else \<exists>p'. pmm_free_frame p f = Some (p', Inr ()) \<and> pmm_wf p' \<and> used p' = used p - {i} \<and>
         pm_extent p' = pm_extent p \<and> pm_reserved_ranges p' = pm_reserved_ranges p)"
proof (cases "range_contains (pm_extent p) (frame_addr f)")
  case False
  then show ?thesis by (simp add: pmm_free_frame_def)
next
  case True
  define i where "i = (frame_addr f - pr_start (pm_extent p)) div PAGE_SIZE"
  have i: "i < pm_total p" "frame_pa p i = frame_addr f"
    using contained_frame [OF wf _ True] al by (simp_all add: i_def frame_valid_def)
  have len: "i < 8 * length (pm_bitmap p)" using i wf by (simp add: pmm_wf_def)
  have res: "list_ex (\<lambda>r. case r of None \<Rightarrow> False | Some r \<Rightarrow> range_contains r (frame_addr f)) (pm_reserved_ranges p)
      \<longleftrightarrow> i \<in> reserved_frames p"
    using i by (auto simp: list_ex_iff reserved_frames_def split: option.splits)
  have bit: "read_bit_at (pm_bitmap p) i = Some (i \<in> used p)"
    using read_bit_at_eq [OF len] i by (simp add: used_def)
  have "if i \<notin> used p - reserved_frames p then pmm_free_frame p f = Some (p, Inl DoubleFree)
       else \<exists>p'. pmm_free_frame p f = Some (p', Inr ()) \<and> pmm_wf p' \<and> used p' = used p - {i} \<and>
         pm_extent p' = pm_extent p \<and> pm_reserved_ranges p' = pm_reserved_ranges p"
  proof (cases "i \<in> used p - reserved_frames p")
    case False
    then show ?thesis
      using True res bit unfolding pmm_free_frame_def Let_def i_def [symmetric] by auto
  next
    case held: True
    obtain bm where bm: "clear_bit_at (pm_bitmap p) i = Some bm" "bits bm = bits (pm_bitmap p) - {i}"
        "length bm = length (pm_bitmap p)"
      using clear_bit_at_eq [OF len] by blast
    let ?p = "p\<lparr>pm_bitmap := bm, pm_hint := (if i < pm_hint p then i else pm_hint p),
                pm_free_count := saturating_add (pm_free_count p) 1,
                pm_allocated_count := pm_allocated_count p - 1\<rparr>"
    have step: "pmm_free_frame p f = Some (?p, Inr ())"
      using True res bit held bm(1) unfolding pmm_free_frame_def Let_def i_def [symmetric] by simp
    have used': "used ?p = used p - {i}" using bm(2) by (auto simp: used_def pm_total_def)
    have "pmm_wf ?p"
    proof -
      have rf: "reserved_frames ?p = reserved_frames p"
        by (simp add: reserved_frames_def pm_total_def frame_pa_def)
      have c1: "card (used p - {i}) = card (used p) - 1" using held by simp
      have c2: "card (used p - {i} - reserved_frames p) = card (used p - reserved_frames p) - 1"
        by (metis Diff_insert Diff_insert2 card_Diff_singleton held)
      have pos: "0 < card (used p)" using held by (auto simp: card_gt_0_iff)
      have small: "pm_free_count p + 1 \<le> usize_max"
        using total_le_usize [OF wf] wf by (simp add: pmm_wf_def PAGE_SIZE_def usize_max_def)
      have "{..<(if i < pm_hint p then i else pm_hint p)} \<subseteq> used p - {i}"
        using wf by (auto simp: pmm_wf_def)
      then show ?thesis
        using wf bm(3) held c1 c2 pos small used_card_total [of p] unfolding pmm_wf_def used' rf
        by (auto simp: pm_total_def saturating_add_exact)
    qed
    then show ?thesis using held step used' by auto
  qed
  then show ?thesis using True i by auto
qed

section \<open>The aliasing query\<close>

definition index_covered :: "nat \<Rightarrow> phys_frame_range option list \<Rightarrow> nat \<Rightarrow> bool" where
  "index_covered s rs i \<longleftrightarrow>
     (\<exists>r. Some r \<in> set rs \<and> (pr_start r - s) div PAGE_SIZE \<le> i \<and> i < (pr_end r - s) div PAGE_SIZE)"

lemma covering_end_covered:
  "covering_end s rs c = Some e \<Longrightarrow> \<forall>i. c \<le> i \<and> i < e \<longrightarrow> index_covered s rs i"
proof (induction s rs c rule: covering_end.induct)
  case (3 s r rs c)
  show ?case
  proof (cases "(pr_start r - s) div PAGE_SIZE \<le> c \<and> c < (pr_end r - s) div PAGE_SIZE")
    case True
    then have "e = (pr_end r - s) div PAGE_SIZE" using "3.prems" by (simp add: Let_def)
    then show ?thesis using True by (auto simp: index_covered_def)
  next
    case False
    have "covering_end s rs c = Some e"
      using "3.prems" unfolding covering_end.simps Let_def if_not_P [OF False] .
    then have "\<forall>i. c \<le> i \<and> i < e \<longrightarrow> index_covered s rs i" using "3.IH" False by auto
    then show ?thesis by (auto simp: index_covered_def)
  qed
qed (auto simp: index_covered_def)

lemma covering_end_None: "covering_end s rs c = None \<longleftrightarrow> \<not> index_covered s rs c"
  by (induction s rs c rule: covering_end.induct) (auto simp: index_covered_def Let_def)

lemma coverage_walk_iff:
  "coverage_walk s rs stop c \<longleftrightarrow> (\<exists>i. c \<le> i \<and> i < stop \<and> \<not> index_covered s rs i)"
proof (induction s rs stop c rule: coverage_walk.induct)
  case (1 s rs stop c)
  show ?case
  proof (cases "c < stop")
    case True
    show ?thesis
    proof (cases "covering_end s rs c")
      case None
      then have "\<not> index_covered s rs c" by (simp add: covering_end_None)
      then show ?thesis using True None by (subst coverage_walk.simps) auto
    next
      case (Some e)
      note IH = "1.IH" [OF True Some]
      have adv: "c < e" using Some by (rule covering_end_advances)
      have "(\<exists>i. c \<le> i \<and> i < stop \<and> \<not> index_covered s rs i) \<longleftrightarrow>
          (\<exists>i. e \<le> i \<and> i < stop \<and> \<not> index_covered s rs i)"
        using covering_end_covered [OF Some] adv by (meson leI le_trans less_imp_le)
      then show ?thesis using True Some IH by (subst coverage_walk.simps) simp
    qed
  next
    case False
    then show ?thesis by (subst coverage_walk.simps) auto
  qed
qed

lemma index_covered_reserved:
  assumes wf: "pmm_wf p" and i: "i < pm_total p"
  shows "index_covered (pr_start (pm_extent p)) (pm_reserved_ranges p) i \<longleftrightarrow> i \<in> reserved_frames p"
proof -
  let ?s = "pr_start (pm_extent p)"
  have "(pr_start r - ?s) div PAGE_SIZE \<le> i \<and> i < (pr_end r - ?s) div PAGE_SIZE \<longleftrightarrow>
      range_contains r (frame_pa p i)" if "Some r \<in> set (pm_reserved_ranges p)" for r
  proof -
    have r: "range_ok (pm_extent p) r" using wf that by (simp add: pmm_wf_def)
    have s: "?s mod PAGE_SIZE = 0" using wf by (simp add: pmm_wf_def range_is_aligned_def)
    have "?s + (pr_start r - ?s) div PAGE_SIZE * PAGE_SIZE = pr_start r"
        "?s + (pr_end r - ?s) div PAGE_SIZE * PAGE_SIZE = pr_end r"
      using aligned_quotient [of ?s "pr_start r"] aligned_quotient [of ?s "pr_end r"] r s
      by (auto simp: range_ok_def range_is_aligned_def)
    then have "range_contains r (frame_pa p i) \<longleftrightarrow>
        ?s + (pr_start r - ?s) div PAGE_SIZE * PAGE_SIZE \<le> ?s + i * PAGE_SIZE \<and>
        ?s + i * PAGE_SIZE < ?s + (pr_end r - ?s) div PAGE_SIZE * PAGE_SIZE"
      by (simp add: range_contains_def frame_pa_def)
    then show ?thesis by (simp add: PAGE_SIZE_def)
  qed
  then show ?thesis using i by (auto simp: index_covered_def reserved_frames_def)
qed

lemma div_ceil_le_iff: "i < div_ceil a PAGE_SIZE \<longleftrightarrow> i * PAGE_SIZE < a"
proof -
  define q r where qr: "q = a div 4096" "r = a mod 4096"
  have a: "a = 4096 * q + r" "r < 4096" by (simp_all add: qr)
  have "i < (if r = 0 then q else q + 1) \<longleftrightarrow> i * 4096 < a"
  proof (cases "i \<le> q")
    case True
    then show ?thesis using a by (auto; linarith)
  next
    case False
    then show ?thesis using a by auto
  qed
  then show ?thesis
    by (cases "r = 0") (simp_all add: div_ceil_def PAGE_SIZE_def qr [symmetric])
qed

lemma div_le_iff: "x div PAGE_SIZE \<le> i \<longleftrightarrow> x < (i + 1) * PAGE_SIZE"
  using div_less_iff_less_mult [of PAGE_SIZE x "Suc i"] by (simp add: PAGE_SIZE_def less_Suc_eq_le)

lemma could_yield_iff:
  assumes wf: "pmm_wf p"
  shows "could_yield_pa_overlapping p a b \<longleftrightarrow>
    a < b \<and> (\<exists>i < pm_total p. i \<notin> reserved_frames p \<and> frame_pa p i < b \<and> a < frame_pa p i + PAGE_SIZE)"
proof -
  let ?s = "pr_start (pm_extent p)" and ?e = "pr_end (pm_extent p)"
  show ?thesis
  proof (cases "b \<le> a \<or> b \<le> ?s \<or> ?e \<le> a")
    case True
    have "\<not> (frame_pa p i < b \<and> a < frame_pa p i + PAGE_SIZE)" if "i < pm_total p" "a < b" for i
      using True frame_pa_bound [OF that(1)] that(2) by (auto simp: frame_pa_def)
    then show ?thesis using True by (auto simp: could_yield_pa_overlapping_def Let_def)
  next
    case inside: False
    show ?thesis
    proof (cases "?s < ?e")
    case False
    then have "pm_total p = 0" by (simp add: pm_total_def range_frame_count_def range_len_bytes_def)
    moreover have "(if b < ?e then b else ?e) - ?s = 0" using False by auto
    then have "\<not> could_yield_pa_overlapping p a b"
      unfolding could_yield_pa_overlapping_def Let_def by (simp add: coverage_walk_iff div_ceil_def)
    ultimately show ?thesis by simp
  next
    case True
    note False = inside
    define lo where "lo = (max a ?s - ?s) div PAGE_SIZE"
    define hi where "hi = div_ceil (min b ?e - ?s) PAGE_SIZE"
    have se: "?s < ?e" "a < b" using False True by auto
    have cy: "could_yield_pa_overlapping p a b \<longleftrightarrow>
        (\<exists>i. lo \<le> i \<and> i < hi \<and> \<not> index_covered ?s (pm_reserved_ranges p) i)"
      using False
      by (simp add: could_yield_pa_overlapping_def Let_def coverage_walk_iff lo_def hi_def max_def min_def)
    have win: "lo \<le> i \<and> i < hi \<longleftrightarrow> i < pm_total p \<and> frame_pa p i < b \<and> a < frame_pa p i + PAGE_SIZE" for i
    proof -
      have "lo \<le> i \<longleftrightarrow> max a ?s - ?s < (i + 1) * PAGE_SIZE"
        unfolding lo_def by (rule div_le_iff)
      then have l: "lo \<le> i \<longleftrightarrow> a < frame_pa p i + PAGE_SIZE"
        by (auto simp: frame_pa_def PAGE_SIZE_def max_def)
      have "i < hi \<longleftrightarrow> i * PAGE_SIZE < min b ?e - ?s" unfolding hi_def by (rule div_ceil_le_iff)
      then have h: "i < hi \<longleftrightarrow> frame_pa p i < b \<and> frame_pa p i < ?e"
        by (auto simp: frame_pa_def)
      have "frame_pa p i < ?e \<longleftrightarrow> frame_pa p i < frame_pa p (pm_total p)"
        using total_exact [OF wf] se(1) by simp
      also have "\<dots> \<longleftrightarrow> i < pm_total p" by (simp add: frame_pa_def PAGE_SIZE_def)
      finally show ?thesis using l h by blast
    qed
    show ?thesis
      unfolding cy using win index_covered_reserved [OF wf] se(2) by blast
    qed
  qed
qed

section \<open>Construction\<close>

definition idxs :: "phys_frame_range \<Rightarrow> phys_frame_range \<Rightarrow> nat set" where
  "idxs extent r =
     {(pr_start r - pr_start extent) div PAGE_SIZE
      ..< (pr_start r - pr_start extent) div PAGE_SIZE + range_frame_count r}"

lemma idxs_iff:
  assumes "range_is_aligned extent" "range_ok extent r"
  shows "i \<in> idxs extent r \<longleftrightarrow> range_contains r (pr_start extent + i * PAGE_SIZE)"
proof -
  let ?s = "pr_start extent" and ?a = "pr_start r" and ?b = "pr_end r"
  have al: "?s mod PAGE_SIZE = 0" "?a mod PAGE_SIZE = 0" "?b mod PAGE_SIZE = 0" "?s \<le> ?a" "?a \<le> ?b"
    using assms by (simp_all add: range_is_aligned_def range_ok_def)
  define k where "k = (?a - ?s) div PAGE_SIZE"
  define n where "n = (?b - ?a) div PAGE_SIZE"
  have "?s + k * PAGE_SIZE = ?a" "?a + n * PAGE_SIZE = ?b"
    using aligned_quotient [of ?s ?a] aligned_quotient [of ?a ?b] al by (simp_all add: k_def n_def)
  then have "range_contains r (?s + i * PAGE_SIZE) \<longleftrightarrow>
      ?s + k * PAGE_SIZE \<le> ?s + i * PAGE_SIZE \<and> ?s + i * PAGE_SIZE < ?s + k * PAGE_SIZE + n * PAGE_SIZE"
    by (simp add: range_contains_def)
  also have "\<dots> \<longleftrightarrow> k \<le> i \<and> i < k + n" by (auto simp: PAGE_SIZE_def)
  finally show ?thesis by (simp add: idxs_def k_def n_def range_frame_count_def range_len_bytes_def)
qed

lemma idxs_bound:
  assumes "range_is_aligned extent" "range_ok extent r"
  shows "idxs extent r \<subseteq> {..<range_frame_count extent}"
proof
  fix i assume "i \<in> idxs extent r"
  then have "pr_start extent + i * PAGE_SIZE < pr_end extent"
    using idxs_iff [OF assms] assms(2) by (auto simp: range_contains_def range_ok_def)
  moreover have "pr_start extent + range_frame_count extent * PAGE_SIZE = pr_end extent"
    using aligned_quotient [of "pr_start extent" "pr_end extent"] assms
    by (auto simp: range_is_aligned_def range_ok_def range_frame_count_def range_len_bytes_def)
  ultimately have "i * PAGE_SIZE < range_frame_count extent * PAGE_SIZE" by linarith
  then show "i \<in> {..<range_frame_count extent}" by simp
qed

lemma idxs_disjoint:
  assumes "range_is_aligned extent" "range_ok extent a" "range_ok extent b" "\<not> ranges_overlap a b"
  shows "idxs extent a \<inter> idxs extent b = {}"
  using idxs_iff [OF assms(1,2)] idxs_iff [OF assms(1,3)] assms(4)
  by (fastforce simp: ranges_overlap_def range_contains_def)

lemma mark_range_eq:
  assumes "range_is_aligned extent" "range_ok extent r" "range_frame_count extent \<le> 8 * length bm"
    and "pr_end extent \<le> usize_max"
  shows "\<exists>bm'. mark_range extent r bm = Some bm' \<and> bits bm' = bits bm \<union> idxs extent r \<and>
    length bm' = length bm"
proof -
  let ?k = "(pr_start r - pr_start extent) div PAGE_SIZE" and ?n = "range_frame_count r"
  have inside: "?k + off < range_frame_count extent" if "off < ?n" for off
  proof -
    have "?k + off \<in> idxs extent r" using that by (simp add: idxs_def)
    then show ?thesis using idxs_bound [OF assms(1,2)] by auto
  qed
  have exact: "fold_opt (\<lambda>off bm. set_bit_at bm (saturating_add ?k off)) offs bm =
      fold_opt (\<lambda>off bm. set_bit_at bm (?k + off)) offs bm" if "set offs \<subseteq> {..<?n}" for offs bm
    using that
  proof (induction offs arbitrary: bm)
    case (Cons off offs)
    have "range_frame_count extent \<le> usize_max"
      using assms(4) by (simp add: range_frame_count_def range_len_bytes_def PAGE_SIZE_def)
    then have "saturating_add ?k off = ?k + off"
      using inside [of off] Cons.prems by (intro saturating_add_exact) auto
    then show ?case using Cons by (cases "set_bit_at bm (?k + off)") auto
  qed simp
  have "\<exists>bm'. fold_opt (\<lambda>off bm. set_bit_at bm (?k + off)) offs bm = Some bm' \<and>
      bits bm' = bits bm \<union> (\<lambda>off. ?k + off) ` set offs \<and> length bm' = length bm"
    if "set offs \<subseteq> {..<?n}" "range_frame_count extent \<le> 8 * length bm" for offs bm
    using that
  proof (induction offs arbitrary: bm)
    case (Cons off offs)
    then obtain b1 where b1: "set_bit_at bm (?k + off) = Some b1" "bits b1 = insert (?k + off) (bits bm)"
        "length b1 = length bm"
      using set_bit_at_eq [of "?k + off" bm] inside [of off] by fastforce
    then show ?case using Cons.IH [of b1] Cons.prems by auto
  qed simp
  from this [of "[0..<?n]" bm] have "\<exists>bm'. mark_range extent r bm = Some bm' \<and>
      bits bm' = bits bm \<union> (\<lambda>off. ?k + off) ` {..<?n} \<and> length bm' = length bm"
    using exact [of "[0..<?n]" bm] assms(3) by (simp add: mark_range_def Let_def atLeast0LessThan)
  moreover have "(\<lambda>off. ?k + off) ` {..<?n} = idxs extent r"
    using image_add_atLeastLessThan [of ?k 0 ?n] by (simp add: idxs_def atLeast0LessThan add.commute)
  ultimately show ?thesis by simp
qed

definition config_ok :: "nat \<Rightarrow> nat \<Rightarrow> phys_frame_range \<Rightarrow> phys_frame_range list \<Rightarrow> bool" where
  "config_ok N R extent reserved \<longleftrightarrow>
     range_is_aligned extent \<and> range_frame_count extent \<le> 8 * N \<and> length reserved \<le> R \<and>
     (\<forall>r \<in> set reserved. range_ok extent r) \<and> \<not> any_overlap reserved"

lemma any_overlap_snoc:
  "any_overlap (xs @ [y]) \<longleftrightarrow> any_overlap xs \<or> list_ex (\<lambda>x. ranges_overlap x y) xs"
  by (induction xs) auto

definition populate ::
    "phys_frame_range \<Rightarrow> nat \<times> phys_frame_range \<Rightarrow> 8 word list \<times> nat \<times> phys_frame_range option list \<Rightarrow>
       (8 word list \<times> nat \<times> phys_frame_range option list) option" where
  "populate extent = (\<lambda>(idx, r) (bm, cnt, rs). do {
      bm' \<leftarrow> mark_range extent r bm;
      _ \<leftarrow> nth_opt rs idx;
      Some (bm', saturating_add cnt (range_frame_count r), rs[idx := Some r])
    })"

lemma populate_all:
  assumes "config_ok N R extent reserved" "pr_end extent \<le> usize_max"
  shows "\<exists>bm. fold_opt (populate extent) (enumerate 0 reserved) (replicate N 0, 0, replicate R None) =
      Some (bm, card (bits bm), map Some reserved @ replicate (R - length reserved) None) \<and>
    length bm = N \<and> bits bm = (\<Union>r \<in> set reserved. idxs extent r)"
  using assms(1)
proof (induction reserved rule: rev_induct)
  case Nil
  have "bits (replicate N 0) = {}" by (auto simp: bits_def)
  then show ?case by simp
next
  case (snoc r rs)
  have ok: "config_ok N R extent rs" "range_ok extent r" "range_is_aligned extent"
      "length rs < R" "range_frame_count extent \<le> 8 * N" "\<forall>x \<in> set rs. range_ok extent x \<and> \<not> ranges_overlap x r"
    using snoc.prems by (auto simp: config_ok_def any_overlap_snoc list_ex_iff)
  obtain bm where bm: "fold_opt (populate extent) (enumerate 0 rs) (replicate N 0, 0, replicate R None) =
      Some (bm, card (bits bm), map Some rs @ replicate (R - length rs) None)"
      "length bm = N" "bits bm = (\<Union>x \<in> set rs. idxs extent x)"
    using snoc.IH [OF ok(1)] by blast
  obtain bm' where bm': "mark_range extent r bm = Some bm'" "bits bm' = bits bm \<union> idxs extent r"
      "length bm' = length bm"
    using mark_range_eq [OF ok(3,2)] ok(5) bm(2) assms(2) by blast
  have disj: "bits bm \<inter> idxs extent r = {}"
    using idxs_disjoint [OF ok(3) _ ok(2)] ok(6) unfolding bm(3) by blast
  have card: "card (bits bm') = card (bits bm) + range_frame_count r"
    using disj bm'(2) by (simp add: card_Un_disjoint bits_def idxs_def)
  have "bits bm' \<subseteq> {..<range_frame_count extent}"
    using idxs_bound [OF ok(3)] ok(2,6) unfolding bm'(2) bm(3) by blast
  then have "card (bits bm') \<le> range_frame_count extent"
    using card_mono [of "{..<range_frame_count extent}"] by fastforce
  also have "\<dots> \<le> usize_max"
    using assms(2) by (simp add: range_frame_count_def range_len_bytes_def PAGE_SIZE_def)
  finally have sat: "saturating_add (card (bits bm)) (range_frame_count r) = card (bits bm')"
    using card by (simp add: saturating_add_exact)
  have rep: "replicate (R - length rs) None = None # replicate (R - Suc (length rs)) (None :: phys_frame_range option)"
    using ok(4) by (metis Suc_diff_Suc replicate_Suc)
  then have upd: "(map Some rs @ replicate (R - length rs) None)[length rs := Some r] =
      map Some (rs @ [r]) @ replicate (R - length (rs @ [r])) None"
    by (simp add: list_update_append)
  have "fold_opt (populate extent) (enumerate 0 (rs @ [r])) (replicate N 0, 0, replicate R None) =
      populate extent (length rs, r) (bm, card (bits bm), map Some rs @ replicate (R - length rs) None)"
    by (simp add: enumerate_append_eq fold_opt_append bm(1) bind_eq_Some_conv)
      (cases "populate extent (length rs, r) (bm, card (bits bm), map Some rs @ replicate (R - length rs) None)"; simp)
  also have "\<dots> = Some (bm', card (bits bm'), map Some (rs @ [r]) @ replicate (R - length (rs @ [r])) None)"
    using bm'(1) ok(4) sat upd by (simp add: populate_def)
  finally show ?case using bm'(2,3) bm(2,3) by auto
qed

lemma first_error_None: "first_error f xs = None \<longleftrightarrow> (\<forall>x \<in> set xs. f x = None)"
  by (induction xs) (auto split: option.splits)

lemma check_reserved_None: "check_reserved extent r = None \<longleftrightarrow> range_ok extent r"
  by (auto simp: check_reserved_def range_ok_def)

lemma pmm_new_spec:
  assumes "pr_end extent \<le> usize_max"
  shows "if config_ok N R extent reserved
    then \<exists>p. pmm_new N R extent reserved = Some (Inr p) \<and> pmm_wf p \<and> pm_extent p = extent \<and>
      pm_reserved_ranges p = map Some reserved @ replicate (R - length reserved) None \<and>
      used p = reserved_frames p
    else \<exists>e. pmm_new N R extent reserved = Some (Inl e)"
proof (cases "config_ok N R extent reserved")
  case False
  have "\<not> range_frame_count extent \<le> 8 * N \<Longrightarrow> range_frame_count extent > saturating_mul N 8"
    by (simp add: saturating_mul_def)
  then show ?thesis
    using False first_error_None [of "check_reserved extent" reserved] check_reserved_None
    by (auto simp: config_ok_def pmm_new_def Let_def split: option.split)
next
  case True
  let ?rs = "map Some reserved @ replicate (R - length reserved) None"
  obtain bm where bm: "fold_opt (populate extent) (enumerate 0 reserved) (replicate N 0, 0, replicate R None) =
      Some (bm, card (bits bm), ?rs)" "length bm = N" "bits bm = (\<Union>r \<in> set reserved. idxs extent r)"
    using populate_all [OF True assms] by blast
  have al: "range_is_aligned extent" and ok: "\<forall>r \<in> set reserved. range_ok extent r"
      and fits: "range_frame_count extent \<le> 8 * N"
    using True by (simp_all add: config_ok_def)
  let ?t = "range_frame_count extent"
  have inb: "bits bm \<subseteq> {..<?t}" using idxs_bound [OF al] ok unfolding bm(3) by blast
  have zero: "first_zero_bit bm ?t = Some (find (\<lambda>i. i \<notin> bits bm) [0..<?t])"
    using fits bm(2) unfolding first_zero_bit_def by (intro find_clear_eq) auto
  define h where "h = (case find (\<lambda>i. i \<notin> bits bm) [0..<?t] of Some i \<Rightarrow> i | None \<Rightarrow> ?t)"
  have h: "h \<le> ?t" "{..<h} \<subseteq> bits bm"
    unfolding h_def
    by (auto split: option.split simp: find_upt_Some_iff find_upt_None_iff)
  let ?p = "\<lparr>pm_bitmap = bm, pm_extent = extent, pm_reserved_ranges = ?rs, pm_hint = h,
     pm_free_count = ?t - card (bits bm), pm_reserved_count = card (bits bm), pm_allocated_count = 0\<rparr>"
  have "?t \<le> usize_max" using assms by (simp add: range_frame_count_def range_len_bytes_def PAGE_SIZE_def)
  then have "\<not> ?t > saturating_mul N 8" using fits by (simp add: saturating_mul_def)
  moreover have "first_error (check_reserved extent) reserved = None"
    using ok by (simp add: first_error_None check_reserved_None)
  ultimately have new: "pmm_new N R extent reserved = Some (Inr ?p)"
    using True bm(1) zero by (simp add: pmm_new_def config_ok_def populate_def h_def Let_def)
  have u: "used ?p = bits bm" using inb by (auto simp: used_def pm_total_def)
  have r: "reserved_frames ?p = bits bm"
  proof -
    have "i \<in> reserved_frames ?p \<longleftrightarrow> i < ?t \<and> (\<exists>r \<in> set reserved. i \<in> idxs extent r)" for i
      using idxs_iff [OF al] ok by (auto simp: reserved_frames_def pm_total_def frame_pa_def)
    then show ?thesis using inb bm(3) by blast
  qed
  have "pmm_wf ?p"
    unfolding pmm_wf_def u r using al assms fits bm(2) ok h by (auto simp: pm_total_def)
  then show ?thesis using True new u r by auto
qed

end
