(* ===== verification/Pmm_Claims.thy ===== *)
theory Pmm_Claims
  imports Pmm_Props
begin

text \<open>
  The properties of the physical memory manager: exact behaviour of construction,
  allocation, release and the aliasing query, and the ownership law over whole
  histories, that a frame handed out is nobody else's and never reserved.
\<close>

section \<open>Histories\<close>

datatype pmm_op = Pmm_alloc | Pmm_free phys_frame

type_synonym pmm_world = "pmm \<times> memory \<times> phys_frame list"

text \<open>The last component records the frames handed out and not yet taken back.\<close>

fun pmm_step :: "pmm_world \<Rightarrow> pmm_op \<Rightarrow> pmm_world option" where
  "pmm_step (p, m, held) Pmm_alloc = do {
     ((p', m'), r) \<leftarrow> pmm_alloc_frame p m;
     Some (p', m', case r of None \<Rightarrow> held | Some f \<Rightarrow> f # held)
   }"
| "pmm_step (p, m, held) (Pmm_free f) = do {
     (p', r) \<leftarrow> pmm_free_frame p f;
     Some (p', m, if is_ok r then remove1 f held else held)
   }"

fun pmm_run :: "pmm_world \<Rightarrow> pmm_op list \<Rightarrow> pmm_world option" where
  "pmm_run w [] = Some w"
| "pmm_run w (op # ops) = Option.bind (pmm_step w op) (\<lambda>w'. pmm_run w' ops)"

definition pmm_op_valid :: "pmm_op \<Rightarrow> bool" where
  "pmm_op_valid op = (case op of Pmm_alloc \<Rightarrow> True | Pmm_free f \<Rightarrow> frame_valid f)"

definition owned_indices :: "pmm \<Rightarrow> nat set" where
  "owned_indices p = used p - reserved_frames p"

definition world_ok :: "pmm_world \<Rightarrow> bool" where
  "world_ok w = (case w of (p, m, held) \<Rightarrow>
     pmm_wf p \<and> direct_mapped p \<and> distinct held \<and>
     set held = (\<lambda>i. PhysFrame (frame_pa p i)) ` owned_indices p)"

lemma frame_pa_inj [simp]: "frame_pa p i = frame_pa p j \<longleftrightarrow> i = j"
  by (simp add: frame_pa_def PAGE_SIZE_def)

lemma same_layout:
  assumes "pm_extent p' = pm_extent p" "pm_reserved_ranges p' = pm_reserved_ranges p"
  shows "frame_pa p' = frame_pa p" "reserved_frames p' = reserved_frames p" "pm_total p' = pm_total p"
    "direct_mapped p' = direct_mapped p"
proof -
  show f: "frame_pa p' = frame_pa p" "pm_total p' = pm_total p"
    using assms by (auto simp: frame_pa_def pm_total_def fun_eq_iff)
  show "reserved_frames p' = reserved_frames p"
    using assms f by (simp add: reserved_frames_def)
  show "direct_mapped p' = direct_mapped p" using assms by (simp add: direct_mapped_def)
qed

lemma pmm_alloc_step:
  assumes "world_ok (p, m, held)"
  shows "\<exists>w'. pmm_step (p, m, held) Pmm_alloc = Some w' \<and> world_ok w' \<and> pm_extent (fst w') = pm_extent p \<and>
    pm_reserved_ranges (fst w') = pm_reserved_ranges p"
proof -
  have wf: "pmm_wf p" and dm: "direct_mapped p" and held: "distinct held"
      "set held = (\<lambda>i. PhysFrame (frame_pa p i)) ` owned_indices p"
    using assms by (simp_all add: world_ok_def)
  show ?thesis
  proof (cases "used p = {..<pm_total p}")
    case True
    then show ?thesis using pmm_alloc_spec [OF wf dm, of m] assms by simp
  next
    case False
    have "\<exists>i p'. lowest_free p i \<and>
      pmm_alloc_frame p m =
        Some ((p', write_bytes m (KERNEL_HIGH_HALF_OFFSET + frame_pa p i) 0 PAGE_SIZE),
              Some (PhysFrame (frame_pa p i))) \<and>
      pmm_wf p' \<and> used p' = insert i (used p) \<and>
      pm_extent p' = pm_extent p \<and> pm_reserved_ranges p' = pm_reserved_ranges p"
      using pmm_alloc_spec [OF wf dm, of m] unfolding if_not_P [OF False] .
    then obtain i p' where i: "lowest_free p i"
        "pmm_alloc_frame p m = Some ((p', write_bytes m (KERNEL_HIGH_HALF_OFFSET + frame_pa p i) 0 PAGE_SIZE),
              Some (PhysFrame (frame_pa p i)))"
        "pmm_wf p'" "used p' = insert i (used p)" "pm_extent p' = pm_extent p"
        "pm_reserved_ranges p' = pm_reserved_ranges p"
      by blast
    note lay = same_layout [OF i(5,6)]
    have new: "i \<notin> used p" using i(1) by (simp add: lowest_free_def)
    then have "owned_indices p' = insert i (owned_indices p)"
      using i(4) wf lay(2) by (auto simp: owned_indices_def pmm_wf_def)
    moreover have "PhysFrame (frame_pa p i) \<notin> set held"
      using new held(2) by (auto simp: owned_indices_def)
    ultimately have "world_ok (p', m', PhysFrame (frame_pa p i) # held)" for m'
      using i(3) dm held lay by (simp add: world_ok_def)
    then show ?thesis using i(2,5,6) by simp
  qed
qed

lemma pmm_free_step:
  assumes "world_ok (p, m, held)" "frame_valid f"
  shows "\<exists>w'. pmm_step (p, m, held) (Pmm_free f) = Some w' \<and> world_ok w' \<and> pm_extent (fst w') = pm_extent p \<and>
    pm_reserved_ranges (fst w') = pm_reserved_ranges p"
proof -
  have wf: "pmm_wf p" and dm: "direct_mapped p" and held: "distinct held"
      "set held = (\<lambda>i. PhysFrame (frame_pa p i)) ` owned_indices p"
    using assms(1) by (simp_all add: world_ok_def)
  consider (err) e where "pmm_free_frame p f = Some (p, Inl e)"
    | (ok) i p' where "frame_addr f = frame_pa p i" "i \<in> owned_indices p" "pmm_free_frame p f = Some (p', Inr ())"
        "pmm_wf p'" "used p' = used p - {i}" "pm_extent p' = pm_extent p"
        "pm_reserved_ranges p' = pm_reserved_ranges p"
    using pmm_free_spec [OF wf assms(2)] unfolding owned_indices_def by (metis (no_types, lifting))
  then show ?thesis
  proof cases
    case err
    then show ?thesis using assms(1) by simp
  next
    case ok
    note lay = same_layout [OF ok(6,7)]
    have f: "f = PhysFrame (frame_pa p i)" using ok(1) by (cases f) simp
    have "owned_indices p' = owned_indices p - {i}"
      using ok(5) lay(2) by (auto simp: owned_indices_def)
    then have "set (remove1 f held) = (\<lambda>i. PhysFrame (frame_pa p' i)) ` owned_indices p'"
      using held f lay(1) by (auto simp: set_remove1_eq)
    then have "world_ok (p', m, remove1 f held)"
      using ok(4) dm held(1) lay(4) by (simp add: world_ok_def)
    then show ?thesis using ok(3,6,7) by simp
  qed
qed

lemma pmm_run_ok:
  assumes "world_ok w" "list_all pmm_op_valid ops"
  shows "\<exists>w'. pmm_run w ops = Some w' \<and> world_ok w' \<and> pm_extent (fst w') = pm_extent (fst w) \<and>
    pm_reserved_ranges (fst w') = pm_reserved_ranges (fst w)"
  using assms
proof (induction ops arbitrary: w)
  case (Cons op ops)
  obtain p m held where w: "w = (p, m, held)" by (cases w)
  have "\<exists>w1. pmm_step w op = Some w1 \<and> world_ok w1 \<and> pm_extent (fst w1) = pm_extent p \<and>
      pm_reserved_ranges (fst w1) = pm_reserved_ranges p"
    using pmm_alloc_step [of p m held] pmm_free_step [of p m held] Cons.prems
    unfolding w by (cases op) (simp_all add: pmm_op_valid_def)
  then obtain w1 where "pmm_step w op = Some w1" "world_ok w1" "pm_extent (fst w1) = pm_extent p"
      "pm_reserved_ranges (fst w1) = pm_reserved_ranges p" by blast
  then show ?case using Cons.IH [of w1] Cons.prems(2) w by simp
qed simp

lemma owned_count: "world_ok (p, m, held) \<Longrightarrow> pm_allocated_count p = length held"
proof -
  assume w: "world_ok (p, m, held)"
  have "card (set held) = card (owned_indices p)"
    using w by (auto simp: world_ok_def card_image inj_on_def)
  moreover have "distinct held" using w by (simp add: world_ok_def)
  then have "card (set held) = length held" by (rule distinct_card)
  ultimately show ?thesis using w by (simp add: world_ok_def pmm_wf_def owned_indices_def)
qed

section \<open>Properties\<close>

text \<open>The concrete manager of the instances: 16 frames of RAM, the first two reserved.\<close>

definition demo_extent :: phys_frame_range where
  "demo_extent = \<lparr>pr_start = 0x40000000, pr_end = 0x40010000\<rparr>"

definition demo_reserved :: "phys_frame_range list" where
  "demo_reserved = [\<lparr>pr_start = 0x40000000, pr_end = 0x40002000\<rparr>]"

definition demo_pmm :: pmm where
  "demo_pmm =
     \<lparr>pm_bitmap = [3, 0], pm_extent = demo_extent,
      pm_reserved_ranges = [Some \<lparr>pr_start = 0x40000000, pr_end = 0x40002000\<rparr>, None],
      pm_hint = 2, pm_free_count = 14, pm_reserved_count = 2, pm_allocated_count = 0\<rparr>"

lemma demo_config: "config_ok 2 2 demo_extent demo_reserved"
  by (simp add: config_ok_def demo_extent_def demo_reserved_def range_is_aligned_def range_ok_def
      range_frame_count_def range_len_bytes_def PAGE_SIZE_def)

lemma replicate_2: "replicate 2 x = [x, x]"
  by (simp add: numeral_2_eq_2)

lemma demo_pmm_new: "pmm_new 2 2 demo_extent demo_reserved = Some (Inr demo_pmm)"
  by (simp add: pmm_new_def demo_extent_def demo_reserved_def demo_pmm_def range_is_aligned_def
      range_frame_count_def range_len_bytes_def PAGE_SIZE_def saturating_mul_def saturating_add_def
      usize_max_def check_reserved_def mark_range_def set_bit_at_def nth_opt_def first_zero_bit_def
      read_bit_at_def replicate_2 upt_rec [of 0] upt_rec [of "Suc _"] enumerate_eq_zip)

lemma demo_pmm_facts:
  "pmm_wf demo_pmm" "direct_mapped demo_pmm" "used demo_pmm = reserved_frames demo_pmm" "pm_total demo_pmm = 16"
proof -
  have "pr_end demo_extent \<le> usize_max" by (simp add: demo_extent_def usize_max_def)
  from pmm_new_spec [OF this, of 2 2 demo_reserved] demo_config demo_pmm_new
  show "pmm_wf demo_pmm" "used demo_pmm = reserved_frames demo_pmm" by auto
  show "direct_mapped demo_pmm" by (simp add: direct_mapped_def demo_pmm_def demo_extent_def)
  show "pm_total demo_pmm = 16"
    by (simp add: pm_total_def demo_pmm_def demo_extent_def range_frame_count_def range_len_bytes_def PAGE_SIZE_def)
qed

text \<open>
  C11: frames are owned exclusively. Start from any successful construction over an
  extent in the direct map and run any sequence of allocations and releases (of
  whatever frames). No call panics, no frame is ever handed out twice without
  having been released in between, every frame handed out lies inside the extent,
  is page aligned and disjoint from every reserved range, and the statistics
  count exactly the frames that are out.
\<close>

theorem pmm_frames_exclusive:
  assumes "pmm_new N R extent reserved = Some (Inr p)" "pr_end extent \<le> 0x100000000"
    and "list_all pmm_op_valid ops"
  shows "\<exists>p' m' held. pmm_run (p, m, []) ops = Some (p', m', held) \<and> distinct held \<and>
    st_allocated_frames (pmm_get_stats p') = length held \<and>
    (\<forall>f \<in> set held. frame_valid f \<and> pr_start extent \<le> frame_addr f \<and>
       frame_addr f + PAGE_SIZE \<le> pr_end extent \<and>
       (\<forall>r \<in> set reserved. \<not> range_contains r (frame_addr f)))"
proof -
  have "pr_end extent \<le> usize_max" using assms(2) by (simp add: usize_max_def)
  from pmm_new_spec [OF this, of N R reserved] have p: "pmm_wf p" "pm_extent p = extent"
      "pm_reserved_ranges p = map Some reserved @ replicate (R - length reserved) None"
      "used p = reserved_frames p"
    using assms(1) by (auto split: if_splits)
  have "world_ok (p, m, [])"
    using p assms(2) by (simp add: world_ok_def direct_mapped_def owned_indices_def)
  then obtain p' m' held where w: "pmm_run (p, m, []) ops = Some (p', m', held)" "world_ok (p', m', held)"
      "pm_extent p' = extent" "pm_reserved_ranges p' = pm_reserved_ranges p"
    using pmm_run_ok [OF _ assms(3)] p(2) by fastforce
  have "frame_valid f \<and> pr_start extent \<le> frame_addr f \<and> frame_addr f + PAGE_SIZE \<le> pr_end extent \<and>
       (\<forall>r \<in> set reserved. \<not> range_contains r (frame_addr f))" if "f \<in> set held" for f
  proof -
    obtain i where i: "f = PhysFrame (frame_pa p' i)" "i \<in> owned_indices p'"
      using w(2) \<open>f \<in> set held\<close> by (auto simp: world_ok_def)
    then have b: "i < pm_total p'" "i \<notin> reserved_frames p'" by (auto simp: owned_indices_def used_def)
    have "pmm_wf p'" using w(2) by (simp add: world_ok_def)
    then have "frame_valid f" using i(1) frame_pa_aligned by (simp add: frame_valid_def)
    moreover have "\<not> range_contains r (frame_addr f)" if "r \<in> set reserved" for r
      using b i(1) that w(4) p(3) by (auto simp: reserved_frames_def)
    ultimately show ?thesis
      using i(1) frame_pa_bound [OF b(1)] w(3) by (simp add: frame_pa_def)
  qed
  then show ?thesis
    using w(1,2) owned_count [OF w(2)] by (auto simp: world_ok_def pmm_get_stats_def)
qed

theorem pmm_frames_exclusive_witness:
  "\<exists>p' m' held. pmm_run (demo_pmm, (\<lambda>_. 0), []) [Pmm_alloc, Pmm_free (PhysFrame 0x40002000), Pmm_alloc, Pmm_alloc] =
     Some (p', m', held) \<and> distinct held \<and> st_allocated_frames (pmm_get_stats p') = length held"
proof -
  have "list_all pmm_op_valid [Pmm_alloc, Pmm_free (PhysFrame 0x40002000), Pmm_alloc, Pmm_alloc]"
    by (simp add: pmm_op_valid_def frame_valid_def PAGE_SIZE_def)
  moreover have "pr_end demo_extent \<le> 0x100000000" by (simp add: demo_extent_def)
  ultimately show ?thesis using pmm_frames_exclusive [OF demo_pmm_new] by meson
qed

text \<open>
  Construction. For an extent within the address space, \<open>Pmm::new\<close> never
  panics: it accepts exactly the well-formed configurations (aligned extent that
  the bitmap covers, at most \<open>R\<close> ranges, each aligned, ordered and inside the
  extent, no two overlapping) and then yields a consistent manager in which
  exactly the reserved frames are in use.
\<close>

theorem pmm_new_valid:
  assumes "pr_end extent \<le> usize_max"
  shows "if config_ok N R extent reserved
    then \<exists>p. pmm_new N R extent reserved = Some (Inr p) \<and> pmm_wf p \<and> pm_extent p = extent \<and>
      pm_reserved_ranges p = map Some reserved @ replicate (R - length reserved) None \<and>
      used p = reserved_frames p
    else \<exists>e. pmm_new N R extent reserved = Some (Inl e)"
  using assms by (rule pmm_new_spec)

theorem pmm_new_valid_witness:
  "pr_end demo_extent \<le> usize_max \<and>
   (\<exists>p. pmm_new 2 2 demo_extent demo_reserved = Some (Inr p) \<and> pmm_wf p \<and> used p = reserved_frames p) \<and>
   (\<exists>e. pmm_new 1 2 demo_extent demo_reserved = Some (Inl e))"
proof -
  have b: "pr_end demo_extent \<le> usize_max" by (simp add: demo_extent_def usize_max_def)
  have "\<not> config_ok 1 2 demo_extent demo_reserved"
    by (simp add: config_ok_def demo_extent_def range_frame_count_def range_len_bytes_def PAGE_SIZE_def)
  then show ?thesis
    using b pmm_new_valid [OF b, of 2 2 demo_reserved] pmm_new_valid [OF b, of 1 2 demo_reserved] demo_config
    by auto
qed

text \<open>
  Allocation. On a consistent manager in the direct map, \<open>alloc_frame\<close>
  returns the lowest free frame, zero-filled, marks exactly it as used and stays
  consistent; it returns nothing, and changes nothing, only when every frame of
  the extent is in use. The scan from the hint therefore never misses a free
  frame, and the wrap-around pass never finds one.
\<close>

theorem pmm_alloc_refines:
  assumes wf: "pmm_wf p" and dm: "direct_mapped p"
  shows "if used p = {..<pm_total p} then pmm_alloc_frame p m = Some ((p, m), None)
    else \<exists>i p'. lowest_free p i \<and>
      pmm_alloc_frame p m =
        Some ((p', write_bytes m (KERNEL_HIGH_HALF_OFFSET + frame_pa p i) 0 PAGE_SIZE),
              Some (PhysFrame (frame_pa p i))) \<and>
      pmm_wf p' \<and> used p' = insert i (used p) \<and>
      pm_extent p' = pm_extent p \<and> pm_reserved_ranges p' = pm_reserved_ranges p"
  using assms by (rule pmm_alloc_spec)

theorem pmm_alloc_refines_witness:
  "\<exists>i p'. lowest_free demo_pmm i \<and>
     pmm_alloc_frame demo_pmm (\<lambda>_. 0) =
       Some ((p', write_bytes (\<lambda>_. 0) (KERNEL_HIGH_HALF_OFFSET + frame_pa demo_pmm i) 0 PAGE_SIZE),
             Some (PhysFrame (frame_pa demo_pmm i))) \<and> used p' = insert i (used demo_pmm)"
proof -
  have "15 \<notin> used demo_pmm" by (simp add: used_def bits_def demo_pmm_def)
  moreover have "15 \<in> {..<pm_total demo_pmm}" by (simp add: demo_pmm_facts(4))
  ultimately have "used demo_pmm \<noteq> {..<pm_total demo_pmm}" by metis
  from pmm_alloc_refines [OF demo_pmm_facts(1,2), of "\<lambda>_. 0", unfolded if_not_P [OF this]]
  show ?thesis by blast
qed

text \<open>
  Release. \<open>free_frame\<close> refuses, with the manager unchanged, a frame outside
  the extent (\<open>OutOfRange\<close>) and one that is reserved or not in use
  (\<open>DoubleFree\<close>); otherwise exactly that frame becomes free.
\<close>

theorem pmm_free_refines:
  assumes wf: "pmm_wf p" and al: "frame_valid f"
  shows "if \<not> range_contains (pm_extent p) (frame_addr f) then pmm_free_frame p f = Some (p, Inl OutOfRange)
    else \<exists>i < pm_total p. frame_addr f = frame_pa p i \<and>
      (if i \<notin> used p - reserved_frames p then pmm_free_frame p f = Some (p, Inl DoubleFree)
       else \<exists>p'. pmm_free_frame p f = Some (p', Inr ()) \<and> pmm_wf p' \<and> used p' = used p - {i} \<and>
         pm_extent p' = pm_extent p \<and> pm_reserved_ranges p' = pm_reserved_ranges p)"
  using assms by (rule pmm_free_spec)

theorem pmm_free_refines_witness:
  "pmm_free_frame demo_pmm (PhysFrame 0x40001000) = Some (demo_pmm, Inl DoubleFree) \<and>
   pmm_free_frame demo_pmm (PhysFrame 0x50000000) = Some (demo_pmm, Inl OutOfRange)"
proof -
  have v: "frame_valid (PhysFrame 0x40001000)" "frame_valid (PhysFrame 0x50000000)"
    by (simp_all add: frame_valid_def PAGE_SIZE_def)
  have e: "pm_extent demo_pmm = demo_extent" by (simp add: demo_pmm_def)
  have none: "used demo_pmm - reserved_frames demo_pmm = {}" using demo_pmm_facts(3) by simp
  have in1: "range_contains (pm_extent demo_pmm) (frame_addr (PhysFrame 0x40001000))"
      and out: "\<not> range_contains (pm_extent demo_pmm) (frame_addr (PhysFrame 0x50000000))"
    by (simp_all add: range_contains_def demo_extent_def e)
  have "pmm_free_frame demo_pmm (PhysFrame 0x40001000) = Some (demo_pmm, Inl DoubleFree)"
    using pmm_free_refines [OF demo_pmm_facts(1) v(1)] in1 unfolding none by auto
  moreover have "pmm_free_frame demo_pmm (PhysFrame 0x50000000) = Some (demo_pmm, Inl OutOfRange)"
    using pmm_free_refines [OF demo_pmm_facts(1) v(2)] unfolding if_P [OF out] .
  ultimately show ?thesis by blast
qed

text \<open>
  The aliasing query is exact. The interval walk of
  \<open>could_yield_pa_overlapping\<close> ends and answers true precisely when some frame of
  the extent that is not reserved overlaps the byte range, the frame-by-frame
  definition it replaced.
\<close>

theorem pmm_could_yield_exact:
  assumes wf: "pmm_wf p"
  shows "could_yield_pa_overlapping p a b \<longleftrightarrow>
    a < b \<and> (\<exists>i < pm_total p. i \<notin> reserved_frames p \<and> frame_pa p i < b \<and> a < frame_pa p i + PAGE_SIZE)"
  using assms by (rule could_yield_iff)

theorem pmm_could_yield_exact_witness:
  "could_yield_pa_overlapping demo_pmm 0x40001800 0x40002800 \<and>
   \<not> could_yield_pa_overlapping demo_pmm 0x50000000 0x50001000"
proof -
  have pa: "frame_pa demo_pmm i = 0x40000000 + i * 4096" for i
    by (simp add: frame_pa_def demo_pmm_def demo_extent_def PAGE_SIZE_def)
  have "2 \<notin> reserved_frames demo_pmm"
    by (auto simp: reserved_frames_def demo_pmm_def frame_pa_def demo_extent_def PAGE_SIZE_def range_contains_def)
  then have "could_yield_pa_overlapping demo_pmm 0x40001800 0x40002800"
    unfolding pmm_could_yield_exact [OF demo_pmm_facts(1)] pa demo_pmm_facts(4)
    by (intro conjI exI [of _ 2]) (simp_all add: PAGE_SIZE_def)
  moreover have "\<not> could_yield_pa_overlapping demo_pmm 0x50000000 0x50001000"
    unfolding pmm_could_yield_exact [OF demo_pmm_facts(1)] pa demo_pmm_facts(4)
    by (auto simp: PAGE_SIZE_def)
  ultimately show ?thesis by blast
qed

end
