(* ===== verification/Mmu_Claims.thy ===== *)
theory Mmu_Claims
  imports PageWalk Pmm_Claims
begin

text \<open>
  The physical memory manager as the frame provider of the page-table walk, and
  the properties of the translation tables of the QEMU virt board: over any
  history they behave as a finite map from pages to frames and flags; a failed
  call changes no translation and a call on one address space changes nothing
  of another; removing a mapping undoes its installation.
\<close>

section \<open>The manager as a provider\<close>

definition pmm_inv :: "pmm \<Rightarrow> bool" where
  "pmm_inv p \<longleftrightarrow> pmm_wf p \<and> direct_mapped p"

text \<open>
  The frames that are taken: those handed out and those reserved for good, in
  which the boot tables lie. Only the former can be returned.
\<close>

definition pmm_owned :: "pmm \<Rightarrow> phys_frame set" where
  "pmm_owned p = (\<lambda>i. PhysFrame (frame_pa p i)) ` used p"

definition pmm_returnable :: "pmm \<Rightarrow> phys_frame set" where
  "pmm_returnable p = (\<lambda>i. PhysFrame (frame_pa p i)) ` owned_indices p"

lemma pmm_full_iff: "pmm_wf p \<Longrightarrow> pm_free_count p = 0 \<longleftrightarrow> used p = {..<pm_total p}"
  using card_subset_eq [OF _ used_bound [of p]] used_card_total [of p] by (auto simp: pmm_wf_def)

lemma frame_direct: "\<lbrakk>pmm_inv p; i < pm_total p\<rbrakk> \<Longrightarrow> direct_frame (PhysFrame (frame_pa p i))"
  using frame_pa_bound [of i p] frame_pa_aligned [of p i]
  by (simp add: pmm_inv_def direct_frame_def direct_mapped_def PAGE_SIZE_def)

lemma pmm_provides:
  assumes p: "pmm_inv p" and free: "pm_free_count p \<noteq> 0"
  shows "\<exists>p' f. pmm_alloc_frame p m = Some ((p', zero_frame m f), Some f) \<and> pmm_inv p' \<and> direct_frame f \<and>
    f \<notin> pmm_owned p \<and> pmm_owned p' = insert f (pmm_owned p) \<and> pm_free_count p = Suc (pm_free_count p') \<and>
    pm_extent p' = pm_extent p \<and> pm_reserved_ranges p' = pm_reserved_ranges p"
proof -
  have wf: "pmm_wf p" "direct_mapped p" using p by (simp_all add: pmm_inv_def)
  have "used p \<noteq> {..<pm_total p}" using pmm_full_iff [OF wf(1)] free by simp
  then obtain i p' where i: "lowest_free p i"
      "pmm_alloc_frame p m = Some ((p', write_bytes m (KERNEL_HIGH_HALF_OFFSET + frame_pa p i) 0 PAGE_SIZE),
            Some (PhysFrame (frame_pa p i)))"
      "pmm_wf p'" "used p' = insert i (used p)" "pm_extent p' = pm_extent p"
      "pm_reserved_ranges p' = pm_reserved_ranges p"
    using pmm_alloc_spec [OF wf, of m] by auto
  note lay = same_layout [OF i(5,6)]
  let ?f = "PhysFrame (frame_pa p i)"
  have new: "i \<notin> used p" "i < pm_total p" using i(1) by (simp_all add: lowest_free_def)
  have "?f \<notin> pmm_owned p" using new by (auto simp: pmm_owned_def)
  moreover have "pm_free_count p = Suc (pm_free_count p')"
    using i(3,4) wf(1) lay(3) new used_card_total [of p'] by (simp add: pmm_wf_def)
  moreover have "pmm_owned p' = insert ?f (pmm_owned p)" using i(4) lay(1) by (simp add: pmm_owned_def)
  moreover have "pmm_inv p'" using i(3) wf(2) lay(4) by (simp add: pmm_inv_def)
  moreover have "pmm_alloc_frame p m = Some ((p', zero_frame m ?f), Some ?f)"
    using i(2) by (simp add: zero_frame_def kva_def KERNEL_HIGH_HALF_OFFSET_def PAGE_SIZE_def)
  ultimately show ?thesis using frame_direct [OF p new(2)] i(5,6) by blast
qed

interpretation pmm_frames: frame_provider pmm_alloc_frame pmm_inv pmm_owned pm_free_count
proof
  fix p m assume p: "pmm_inv p" and "pm_free_count p = 0"
  then show "pmm_alloc_frame p m = Some ((p, m), None)"
    using pmm_alloc_spec [of p m] pmm_full_iff [of p] by (simp add: pmm_inv_def)
next
  fix p m assume "pmm_inv p" "pm_free_count p \<noteq> 0"
  from pmm_provides [OF this, of m] show "\<exists>p' f. pmm_alloc_frame p m = Some ((p', zero_frame m f), Some f) \<and>
      pmm_inv p' \<and> direct_frame f \<and> f \<notin> pmm_owned p \<and> pmm_owned p' = insert f (pmm_owned p) \<and>
      pm_free_count p = Suc (pm_free_count p')" by blast
qed

section \<open>Histories of an address space\<close>

datatype page_op = Page_map nat phys_frame mapping_flags | Page_unmap nat | Page_translate nat

datatype page_result = Mapped | Unmapped phys_frame | Translated phys_frame mapping_flags | Refused mmu_error

fun page_step ::
    "qemu_address_space \<Rightarrow> pmm \<times> memory \<Rightarrow> page_op \<Rightarrow> ((pmm \<times> memory) \<times> page_result) option" where
  "page_step as (p, m) (Page_map va pa fl) = do {
     ((p', m', _), r) \<leftarrow> qemu_map pmm_alloc_frame p m as va pa fl;
     Some ((p', m'), case r of Inl e \<Rightarrow> Refused e | Inr _ \<Rightarrow> Mapped)
   }"
| "page_step as (p, m) (Page_unmap va) = do {
     ((m', _), r) \<leftarrow> qemu_unmap m as va;
     Some ((p, m'), case r of Inl e \<Rightarrow> Refused e | Inr x \<Rightarrow> Unmapped (snd x))
   }"
| "page_step as (p, m) (Page_translate va) = do {
     r \<leftarrow> qemu_translate m as va;
     Some ((p, m), case r of Inl e \<Rightarrow> Refused e | Inr x \<Rightarrow> Translated (fst x) (snd x))
   }"

fun page_run ::
    "qemu_address_space \<Rightarrow> pmm \<times> memory \<Rightarrow> page_op list \<Rightarrow> ((pmm \<times> memory) \<times> page_result list) option" where
  "page_run as s [] = Some (s, [])"
| "page_run as s (op # ops) = do {
     (s1, r) \<leftarrow> page_step as s op;
     (s2, rs) \<leftarrow> page_run as s1 ops;
     Some (s2, r # rs)
   }"

text \<open>
  The specification: a finite map from page numbers to frames and flags. It says
  which results an operation may have and what the map is afterwards. Running
  out of frames for tables is the one refusal it leaves open.
\<close>

type_synonym page_map = "nat \<Rightarrow> (phys_frame \<times> mapping_flags) option"

fun map_step :: "page_map \<Rightarrow> page_op \<Rightarrow> page_result \<Rightarrow> page_map option" where
  "map_step V (Page_map va pa fl) r =
     (if va mod PAGE_SIZE \<noteq> 0 then (if r = Refused mmu_error.MisalignedAddress then Some V else None)
      else if mf_contains fl mf_DEVICE \<and> mf_contains fl mf_EXECUTE
      then (if r = Refused InvalidFlags then Some V else None)
      else if V (page_number va) \<noteq> None then (if r = Refused AlreadyMapped then Some V else None)
      else if r = Mapped then Some (V(page_number va \<mapsto> (pa, mf_effective fl)))
      else if r = Refused MmuOutOfFrames then Some V else None)"
| "map_step V (Page_unmap va) r =
     (if va mod PAGE_SIZE \<noteq> 0 then (if r = Refused mmu_error.MisalignedAddress then Some V else None)
      else (case V (page_number va) of
              None \<Rightarrow> if r = Refused NotMapped then Some V else None
            | Some x \<Rightarrow> if r = Unmapped (fst x) then Some (V(page_number va := None)) else None))"
| "map_step V (Page_translate va) r =
     (case V (page_number va) of
        None \<Rightarrow> if r = Refused NotMapped then Some V else None
      | Some x \<Rightarrow> if r = Translated (fst x) (snd x) then Some V else None)"

fun map_run :: "page_map \<Rightarrow> page_op list \<Rightarrow> page_result list \<Rightarrow> page_map option" where
  "map_run V [] [] = Some V"
| "map_run V (op # ops) (r # rs) = do { V' \<leftarrow> map_step V op r; map_run V' ops rs }"
| "map_run V _ _ = None"

definition shown :: "page_map \<Rightarrow> nat \<Rightarrow> translation" where
  "shown V va = (case V (page_number va) of None \<Rightarrow> Inl NotMapped | Some x \<Rightarrow> Inr x)"

lemma shown_upd:
  "(\<lambda>a. if page_number a = page_number va then Inr x else shown V a) = shown (V(page_number va \<mapsto> x))"
  "(\<lambda>a. if page_number a = page_number va then Inl NotMapped else shown V a) = shown (V(page_number va := None))"
  by (auto simp: shown_def fun_eq_iff)

lemma shown_iff:
  "shown V va = Inl NotMapped \<longleftrightarrow> V (page_number va) = None"
  by (simp add: shown_def split: option.split)

fun page_op_valid :: "page_op \<Rightarrow> bool" where
  "page_op_valid (Page_map va pa fl) \<longleftrightarrow> frame_addr pa mod PAGE_SIZE = 0 \<and> frame_addr pa < 2 ^ 48"
| "page_op_valid _ \<longleftrightarrow> True"

definition history_ok :: "qemu_address_space \<Rightarrow> pmm \<times> memory \<Rightarrow> page_map \<Rightarrow> bool" where
  "history_ok as s V \<longleftrightarrow>
     pmm_inv (fst s) \<and> space_ok (pmm_owned (fst s)) (snd s) (qa_root as) \<and> view_at (snd s) as = shown V \<and>
     written (snd s) (qa_root as)"

lemma extends_ok:
  "\<lbrakk>space_ok X m r; extends Q r (X, n, m) (X', n', m')\<rbrakk> \<Longrightarrow> space_ok X' m' r"
  "extends Q r (X, n, m) (X', n', m') \<Longrightarrow> n' \<le> n"
  "\<lbrakk>written m r; extends Q r (X, n, m) (X', n', m')\<rbrakk> \<Longrightarrow> written m' r"
proof -
  show "extends Q r (X, n, m) (X', n', m') \<Longrightarrow> n' \<le> n"
    using card_mono [OF table_paths_finite [of m' r], of "table_paths m r"] by (simp add: extends_def)
qed (auto simp: space_ok_def extends_def)

lemma page_map_step:
  assumes ok: "history_ok as (p, m) V" and v: "page_op_valid (Page_map va pa fl)"
  shows "\<exists>s' r V'. page_step as (p, m) (Page_map va pa fl) = Some (s', r) \<and>
    map_step V (Page_map va pa fl) r = Some V' \<and> history_ok as s' V' \<and>
    pm_free_count (fst s') \<le> pm_free_count p \<and> (r = Refused MmuOutOfFrames \<longrightarrow> pm_free_count (fst s') = 0)"
proof -
  have h: "pmm_inv p" "space_ok (pmm_owned p) m (qa_root as)" "view_at m as = shown V" "written m (qa_root as)"
    using ok by (simp_all add: history_ok_def)
  consider (mis) "va mod PAGE_SIZE \<noteq> 0"
    | (flags) "va mod PAGE_SIZE = 0" "mf_contains fl mf_DEVICE \<and> mf_contains fl mf_EXECUTE"
    | (go) "va mod PAGE_SIZE = 0" "\<not> (mf_contains fl mf_DEVICE \<and> mf_contains fl mf_EXECUTE)" by blast
  then show ?thesis
  proof cases
    case mis
    then show ?thesis using map_refused(1) [of va pmm_alloc_frame p m as pa fl] ok by simp
  next
    case flags
    then show ?thesis using map_refused(2) [of va fl pmm_alloc_frame p m as pa] ok by simp
  next
    case go
    obtain p' m' res where w: "qemu_map pmm_alloc_frame p m as va pa fl = Some ((p', m', as), res)" "pmm_inv p'"
        "extends (path_prefixes va) (qa_root as) (pmm_owned p, pm_free_count p, m) (pmm_owned p', pm_free_count p', m')"
        "case res of
           Inr tok \<Rightarrow> tok = MapperFlush va \<and> view_at m as va = Inl NotMapped \<and> path_prefixes va \<subseteq> table_paths m' (qa_root as) \<and>
             view_at m' as = (\<lambda>a. if page_number a = page_number va then Inr (pa, mf_effective fl) else view_at m as a)
         | Inl e \<Rightarrow> view_at m' as = view_at m as \<and>
             (e = AlreadyMapped \<and> view_at m as va \<noteq> Inl NotMapped \<or>
              e = MmuOutOfFrames \<and> pm_free_count p' = 0 \<and> view_at m as va = Inl NotMapped \<and>
                \<not> path_prefixes va \<subseteq> table_paths m' (qa_root as))"
      using pmm_frames.map_spec [OF h(1,2) go, of pa] v by auto
    note next_ok = w(2) extends_ok(1) [OF h(2) w(3)] extends_ok(2) [OF w(3)] extends_ok(3) [OF h(4) w(3)]
    have step: "page_step as (p, m) (Page_map va pa fl) = Some ((p', m'), case res of Inl e \<Rightarrow> Refused e | Inr _ \<Rightarrow> Mapped)"
      using w(1) by simp
    show ?thesis
    proof (cases res)
      case (Inl e)
      then have "map_step V (Page_map va pa fl) (Refused e) = Some V" "history_ok as (p', m') V"
          "e = MmuOutOfFrames \<Longrightarrow> pm_free_count p' = 0"
        using w(4) go next_ok unfolding h(3) by (auto simp: shown_iff history_ok_def)
      then show ?thesis using step Inl next_ok by auto
    next
      case (Inr tok)
      then have "map_step V (Page_map va pa fl) Mapped = Some (V(page_number va \<mapsto> (pa, mf_effective fl)))"
          "history_ok as (p', m') (V(page_number va \<mapsto> (pa, mf_effective fl)))"
        using w(4) go next_ok unfolding h(3) shown_upd by (auto simp: shown_iff history_ok_def)
      then show ?thesis using step Inr next_ok by (auto simp del: map_step.simps)
    qed
  qed
qed

lemma page_unmap_step:
  assumes ok: "history_ok as (p, m) V"
  shows "\<exists>s' r V'. page_step as (p, m) (Page_unmap va) = Some (s', r) \<and> fst s' = p \<and>
    map_step V (Page_unmap va) r = Some V' \<and> history_ok as s' V' \<and> r \<noteq> Refused MmuOutOfFrames"
proof (cases "va mod PAGE_SIZE = 0")
  case True
  have h: "pmm_inv p" "space_ok (pmm_owned p) m (qa_root as)" "view_at m as = shown V" "written m (qa_root as)"
    using ok by (simp_all add: history_ok_def)
  then have wf: "tree_wf m (qa_root as)" by (simp add: space_ok_def)
  show ?thesis
  proof (cases "V (page_number va)")
    case None
    then have "view_at m as va = Inl NotMapped" using h(3) by (simp add: shown_def)
    then show ?thesis using unmap_spec [OF wf True] True None ok by simp
  next
    case (Some x)
    then have "view_at m as va = Inr x" using h(3) by (simp add: shown_def)
    then obtain m' where m': "qemu_unmap m as va = Some ((m', as), Inr (MapperFlush va, fst x))"
        "tree_wf m' (qa_root as)" "tables m' (qa_root as) = tables m (qa_root as)"
        "written m' (qa_root as)" "view_at m' as = shown (V(page_number va := None))"
      using unmap_spec [OF wf True] h(4) unfolding h(3) shown_upd by auto
    then have "history_ok as (p, m') (V(page_number va := None))"
      using h by (simp add: history_ok_def space_ok_def)
    then show ?thesis using m'(1) True Some by simp
  qed
qed (use map_refused(3) [of va m as] ok in simp)

lemma page_run_ok:
  assumes "history_ok as s V" "list_all page_op_valid ops"
  shows "\<exists>s' rs V'. page_run as s ops = Some (s', rs) \<and> map_run V ops rs = Some V' \<and> history_ok as s' V' \<and>
    pm_free_count (fst s') \<le> pm_free_count (fst s) \<and>
    (Refused MmuOutOfFrames \<in> set rs \<longrightarrow> pm_free_count (fst s') = 0)"
  using assms
proof (induction ops arbitrary: s V)
  case (Cons op ops)
  obtain p m where s: "s = (p, m)" by (cases s)
  have "\<exists>s' r V'. page_step as s op = Some (s', r) \<and> map_step V op r = Some V' \<and> history_ok as s' V' \<and>
      pm_free_count (fst s') \<le> pm_free_count p \<and> (r = Refused MmuOutOfFrames \<longrightarrow> pm_free_count (fst s') = 0)"
  proof (cases op)
    case (Page_map va pa fl)
    then show ?thesis using page_map_step [of as p m V va pa fl] Cons.prems unfolding s by simp
  next
    case (Page_unmap va)
    then show ?thesis using page_unmap_step [of as p m V va] Cons.prems unfolding s by fastforce
  next
    case (Page_translate va)
    have "qemu_translate m as va = Some (shown V va)"
      using Cons.prems(1) translate_spec [of m as va] unfolding s by (simp add: history_ok_def space_ok_def)
    then show ?thesis using Cons.prems(1) Page_translate unfolding s
      by (cases "V (page_number va)") (simp_all add: shown_def)
  qed
  then obtain s1 r V1 where step: "page_step as s op = Some (s1, r)" "map_step V op r = Some V1" "history_ok as s1 V1"
      "pm_free_count (fst s1) \<le> pm_free_count p" "r = Refused MmuOutOfFrames \<longrightarrow> pm_free_count (fst s1) = 0" by blast
  moreover obtain s2 rs V2 where "page_run as s1 ops = Some (s2, rs)" "map_run V1 ops rs = Some V2"
      "history_ok as s2 V2" "pm_free_count (fst s2) \<le> pm_free_count (fst s1)"
      "Refused MmuOutOfFrames \<in> set rs \<longrightarrow> pm_free_count (fst s2) = 0"
    using Cons.IH [OF step(3)] Cons.prems(2) by auto
  ultimately show ?case unfolding s by auto
qed simp

lemma fresh_space:
  assumes p: "pmm_inv p" and a: "pmm_alloc_frame p m = Some ((p1, m1), Some root)"
  shows "history_ok (qemu_create_address_space root) (p1, m1) Map.empty" "tables m1 root = {root}"
    "direct_frame root" "root \<notin> pmm_owned p" "pmm_owned p1 = insert root (pmm_owned p)" "m1 = zero_frame m root"
    "pm_free_count p = Suc (pm_free_count p1)" "table_paths m1 root = {[]}"
proof -
  have "pm_free_count p \<noteq> 0" using pmm_frames.alloc_none [OF p, of m] a by auto
  from pmm_provides [OF p this, of m] a
  show r: "direct_frame root" "root \<notin> pmm_owned p" "pmm_owned p1 = insert root (pmm_owned p)" "m1 = zero_frame m root"
    "pm_free_count p = Suc (pm_free_count p1)" by auto
  have z: "entry m1 root i = 0" if "i < 512" for i using entry_zero_frame [OF that] r(4) by simp
  note root = zero_root [OF r(1) z]
  show "tables m1 root = {root}" "table_paths m1 root = {[]}" using root by simp_all
  have "pmm_inv p1" using pmm_provides [OF p \<open>pm_free_count p \<noteq> 0\<close>, of m] a by auto
  moreover have "view_at m1 \<lparr>qa_root = root\<rparr> = shown Map.empty"
    using root(4) [OF _ is_page_page_of] by (simp add: view_at_def shown_def fun_eq_iff)
  ultimately  show "history_ok (qemu_create_address_space root) (p1, m1) Map.empty"
    using root(1,2) r(3) written_zero_root [OF z] by (simp add: history_ok_def space_ok_def qemu_create_address_space_def)
qed

text \<open>At most one frame per missing table of the path is taken.\<close>

lemma extends_cost:
  assumes "extends Q r (X, n, m) (X', n', m')" "finite Q"
  shows "n \<le> n' + card (Q - table_paths m r)"
proof -
  have s: "table_paths m r \<subseteq> table_paths m' r" "table_paths m' r \<subseteq> table_paths m r \<union> (Q - table_paths m r)"
    and e: "n + card (table_paths m r) = n' + card (table_paths m' r)"
    using assms(1) by (auto simp: extends_def)
  have "card (table_paths m' r) \<le> card (table_paths m r \<union> (Q - table_paths m r))"
    using s(2) assms(2) by (intro card_mono) auto
  also have "\<dots> \<le> card (table_paths m r) + card (Q - table_paths m r)" by (rule card_Un_le)
  finally show ?thesis using e by simp
qed

lemma path_prefixes_card: "finite (path_prefixes va)" "card (path_prefixes va) \<le> 3"
  by (simp_all add: path_prefixes_def card_insert_if)

text \<open>A call takes at most three frames, so enough of them rule \<open>OutOfFrames\<close> out.\<close>

lemma page_step_uses:
  assumes "history_ok as (p, m) V" "page_op_valid op" "page_step as (p, m) op = Some (s', r)"
  shows "pm_free_count p \<le> pm_free_count (fst s') + 3"
proof (cases op)
  case (Page_map va pa fl)
  have h: "pmm_inv p" "space_ok (pmm_owned p) m (qa_root as)" using assms(1) by (simp_all add: history_ok_def)
  show ?thesis
  proof (cases "va mod PAGE_SIZE = 0 \<and> \<not> (mf_contains fl mf_DEVICE \<and> mf_contains fl mf_EXECUTE)")
    case True
    obtain p' m' res where w: "qemu_map pmm_alloc_frame p m as va pa fl = Some ((p', m', as), res)"
        "extends (path_prefixes va) (qa_root as) (pmm_owned p, pm_free_count p, m) (pmm_owned p', pm_free_count p', m')"
      using pmm_frames.map_spec [OF h, of va fl pa] True assms(2) Page_map by auto
    have "card (path_prefixes va - table_paths m (qa_root as)) \<le> card (path_prefixes va)"
      using path_prefixes_card(1) by (rule card_mono) blast
    then have "pm_free_count p \<le> pm_free_count p' + 3"
      using extends_cost [OF w(2) path_prefixes_card(1)] path_prefixes_card(2) [of va] by linarith
    then show ?thesis using w(1) assms(3) Page_map by auto
  next
    case False
    then have "\<exists>e. qemu_map pmm_alloc_frame p m as va pa fl = Some ((p, m, as), Inl e)"
      using map_refused(1) [of va pmm_alloc_frame p m as pa fl] map_refused(2) [of va fl pmm_alloc_frame p m as pa] by blast
    then show ?thesis using assms(3) Page_map by auto
  qed
qed (use assms(3) in \<open>auto simp: bind_eq_Some_conv\<close>)

lemma page_run_uses:
  "\<lbrakk>history_ok as s V; list_all page_op_valid ops; page_run as s ops = Some (s', rs)\<rbrakk> \<Longrightarrow>
     pm_free_count (fst s) \<le> pm_free_count (fst s') + 3 * length ops"
proof (induction ops arbitrary: s V rs)
  case (Cons op ops)
  obtain p m where s: "s = (p, m)" by (cases s)
  from Cons.prems(3) obtain s1 r rs' where r: "page_step as s op = Some (s1, r)" "page_run as s1 ops = Some (s', rs')"
    by (auto simp: bind_eq_Some_conv simp del: page_step.simps)
  have one: "page_run as s [op] = Some (s1, [r])" using r(1) by (simp del: page_step.simps)
  from page_run_ok [OF Cons.prems(1), of "[op]"] Cons.prems(2) obtain V1 where "history_ok as s1 V1" using one by auto
  from Cons.IH [OF this _ r(2)] have "pm_free_count (fst s1) \<le> pm_free_count (fst s') + 3 * length ops"
    using Cons.prems(2) by simp
  moreover have "pm_free_count p \<le> pm_free_count (fst s1) + 3"
    using page_step_uses Cons.prems(1,2) r(1) unfolding s by simp blast
  ultimately show ?case unfolding s by simp
qed simp

section \<open>Properties\<close>

text \<open>Two fresh address spaces of the demonstration manager.\<close>

lemma demo_spaces:
  "\<exists>p m r1 r2. pmm_inv p \<and> 12 \<le> pm_free_count p \<and> space_ok (pmm_owned p) m r1 \<and> space_ok (pmm_owned p) m r2 \<and>
     tables m r1 \<inter> tables m r2 = {} \<and> view_at m \<lparr>qa_root = r1\<rparr> = (\<lambda>_. Inl NotMapped)"
proof -
  have p: "pmm_inv demo_pmm" using demo_pmm_facts(1,2) by (simp add: pmm_inv_def)
  have n: "pm_free_count demo_pmm = 14" by (simp add: demo_pmm_def)
  obtain p1 r1 where a1: "pmm_alloc_frame demo_pmm (\<lambda>_. 0) = Some ((p1, zero_frame (\<lambda>_. 0) r1), Some r1)" "pmm_inv p1"
      "pm_free_count demo_pmm = Suc (pm_free_count p1)"
    using pmm_provides [OF p, of "\<lambda>_. 0"] n by auto
  define m1 where "m1 = zero_frame (\<lambda>_. 0) r1"
  note f1 = fresh_space [OF p a1(1), folded m1_def]
  obtain p2 r2 where a2: "pmm_alloc_frame p1 m1 = Some ((p2, zero_frame m1 r2), Some r2)" "pmm_inv p2"
      "pm_free_count p1 = Suc (pm_free_count p2)"
    using pmm_provides [OF a1(2), of m1] a1(3) n by auto
  define m2 where "m2 = zero_frame m1 r2"
  note f2 = fresh_space [OF a1(2) a2(1), folded m2_def]
  have ne: "r1 \<noteq> r2" using f1(5) f2(4) by auto
  have same: "same_on t m1 m2" if "t \<in> tables m1 r1" for t
    using zero_frame_other [OF f1(3) f2(3) ne] that f1(2) by (simp add: m2_def)
  have s: "tree_wf m2 r1 = tree_wf m1 r1" "tables m2 r1 = tables m1 r1"
      "is_page pg \<Longrightarrow> page_view m2 r1 pg = page_view m1 r1 pg" for pg
    using tree_same [OF same] by auto
  have h1: "tree_wf m1 r1" "view_at m1 \<lparr>qa_root = r1\<rparr> = (\<lambda>_. Inl NotMapped)"
    using f1(1) by (auto simp: history_ok_def space_ok_def qemu_create_address_space_def shown_def)
  have "view_at m2 \<lparr>qa_root = r1\<rparr> = (\<lambda>_. Inl NotMapped)"
    using s(3) [OF is_page_page_of] h1(2) unfolding view_at_def by (simp add: fun_eq_iff)
  moreover have "space_ok (pmm_owned p2) m2 r1" using s(1,2) h1(1) f1(2,5) f2(5) by (simp add: space_ok_def)
  moreover have "space_ok (pmm_owned p2) m2 r2" using f2(1) by (simp add: history_ok_def qemu_create_address_space_def)
  moreover have "tables m2 r1 \<inter> tables m2 r2 = {}" using s(2) f1(2) f2(2) ne by simp
  ultimately show ?thesis using a2(2,3) a1(3) n by (intro exI [of _ p2] exI [of _ m2] exI [of _ r1] exI [of _ r2]) simp
qed

text \<open>
  C5: The translation tables are a finite map. Create an address space on a root
  frame from the manager and run any sequence of map, unmap and translate calls
  on it, with whatever addresses and flags. No call panics; every result is the
  one a finite map from 36-bit page numbers to frames and flags gives (a
  misaligned address, a forbidden flag pair, an occupied or an empty page are
  refused with the right error and without effect); the only other refusal is
  OutOfFrames, and only when the manager has no frame left; and at the end
  translate reads exactly that map, at every address.
\<close>

theorem page_tables_refine_map:
  assumes "pmm_wf p" "direct_mapped p" "pmm_alloc_frame p m = Some ((p1, m1), Some root)"
    and "list_all page_op_valid ops"
  shows "\<exists>p' m' rs V. page_run (qemu_create_address_space root) (p1, m1) ops = Some ((p', m'), rs) \<and>
    map_run Map.empty ops rs = Some V \<and>
    (Refused MmuOutOfFrames \<in> set rs \<longrightarrow> st_free_frames (pmm_get_stats p') = 0) \<and>
    (\<forall>va. qemu_translate m' (qemu_create_address_space root) va =
            Some (case V (page_number va) of None \<Rightarrow> Inl NotMapped | Some x \<Rightarrow> Inr x))"
proof -
  have "pmm_inv p" using assms(1,2) by (simp add: pmm_inv_def)
  from page_run_ok [OF fresh_space(1) [OF this assms(3)] assms(4)] obtain p' m' rs V where
    r: "page_run (qemu_create_address_space root) (p1, m1) ops = Some ((p', m'), rs)" "map_run Map.empty ops rs = Some V"
      "history_ok (qemu_create_address_space root) (p', m') V"
      "Refused MmuOutOfFrames \<in> set rs \<longrightarrow> pm_free_count p' = 0" by auto
  have "qemu_translate m' (qemu_create_address_space root) va = Some (shown V va)" for va
    using r(3) translate_spec [of m' "qemu_create_address_space root" va] by (simp add: history_ok_def space_ok_def)
  then show ?thesis using r(1,2,4) by (simp add: pmm_get_stats_def shown_def)
qed

theorem page_tables_refine_map_witness:
  "\<exists>p1 m1 root p' m' rs V. pmm_alloc_frame demo_pmm (\<lambda>_. 0) = Some ((p1, m1), Some root) \<and>
     page_run (qemu_create_address_space root) (p1, m1)
       [Page_map 0x400000 (PhysFrame 0x80000000) mf_USER, Page_translate 0x400abc, Page_unmap 0x400001] = Some ((p', m'), rs) \<and>
     map_run Map.empty
       [Page_map 0x400000 (PhysFrame 0x80000000) mf_USER, Page_translate 0x400abc, Page_unmap 0x400001] rs = Some V \<and>
     qemu_translate m' (qemu_create_address_space root) 0x400abc =
       Some (case V (page_number 0x400abc) of None \<Rightarrow> Inl NotMapped | Some x \<Rightarrow> Inr x)"
proof -
  have "pmm_inv demo_pmm" using demo_pmm_facts(1,2) by (simp add: pmm_inv_def)
  then obtain p1 m1 root where a: "pmm_alloc_frame demo_pmm (\<lambda>_. 0) = Some ((p1, m1), Some root)"
    using pmm_provides [of demo_pmm "\<lambda>_. 0"] by (auto simp: demo_pmm_def)
  have "list_all page_op_valid [Page_map 0x400000 (PhysFrame 0x80000000) mf_USER, Page_translate 0x400abc, Page_unmap 0x400001]"
    by (simp add: PAGE_SIZE_def)
  from page_tables_refine_map [OF demo_pmm_facts(1,2) a this] a show ?thesis by blast
qed

text \<open>
  C21: The failure contract of map, and isolation. For a well-formed address space
  and any other one that shares no table with it, map returns; if it reports an
  error then every translation of this space is what it was, the leaf frame is
  in no table or leaf on its account, and frames taken for intermediate tables
  stay in the tree; if it succeeds exactly the requested page changes, to the
  requested frame and flags. In either case no translation of the other space
  changes, and memory changes only inside this space's own tables.
\<close>

theorem map_failure_contract:
  assumes "pmm_wf p" "direct_mapped p" "space_ok (pmm_owned p) m (qa_root as)"
    and "space_ok (pmm_owned p) m (qa_root other)" "tables m (qa_root as) \<inter> tables m (qa_root other) = {}"
    and "frame_addr pa mod PAGE_SIZE = 0" "frame_addr pa < 2 ^ 48"
  shows "\<exists>p' m' r. qemu_map pmm_alloc_frame p m as va pa flags = Some ((p', m', as), r) \<and> pmm_wf p' \<and>
    space_ok (pmm_owned p') m' (qa_root as) \<and>
    tables m' (qa_root as) = tables m (qa_root as) \<union> (pmm_owned p' - pmm_owned p) \<and>
    (\<forall>a. qemu_translate m' as a =
       (if is_ok r \<and> page_number a = page_number va then Some (Inr (pa, mf_effective flags))
        else qemu_translate m as a)) \<and>
    (\<forall>a. qemu_translate m' other a = qemu_translate m other a) \<and>
    (\<forall>a. (\<forall>t \<in> tables m' (qa_root as). a \<notin> frame_bytes t) \<longrightarrow> m' a = m a)"
proof -
  have p: "pmm_inv p" using assms(1,2) by (simp add: pmm_inv_def)
  have "\<exists>p' m' res. qemu_map pmm_alloc_frame p m as va pa flags = Some ((p', m', as), res) \<and> pmm_inv p' \<and>
      extends (path_prefixes va) (qa_root as) (pmm_owned p, pm_free_count p, m) (pmm_owned p', pm_free_count p', m') \<and>
      view_at m' as = (\<lambda>a. if is_ok res \<and> page_number a = page_number va then Inr (pa, mf_effective flags) else view_at m as a)"
  proof -
    have refl: "extends (path_prefixes va) (qa_root as) (pmm_owned p, pm_free_count p, m) (pmm_owned p, pm_free_count p, m)"
      using assms(3) grown_refl [of m "qa_root as"] by (simp add: grown_def space_ok_def)
    consider (mis) "va mod PAGE_SIZE \<noteq> 0"
      | (flags) "va mod PAGE_SIZE = 0" "mf_contains flags mf_DEVICE \<and> mf_contains flags mf_EXECUTE"
      | (go) "va mod PAGE_SIZE = 0" "\<not> (mf_contains flags mf_DEVICE \<and> mf_contains flags mf_EXECUTE)" by blast
    then show ?thesis
    proof cases
      case mis
      then show ?thesis using map_refused(1) [of va pmm_alloc_frame p m as pa flags] p refl
        by (intro exI [of _ p] exI [of _ m] exI [of _ "Inl mmu_error.MisalignedAddress"]) simp
    next
      case flags
      then show ?thesis using map_refused(2) [of va flags pmm_alloc_frame p m as pa] p refl
        by (intro exI [of _ p] exI [of _ m] exI [of _ "Inl InvalidFlags"]) simp
    next
      case go
      obtain p' m' res where w: "qemu_map pmm_alloc_frame p m as va pa flags = Some ((p', m', as), res)" "pmm_inv p'"
        "extends (path_prefixes va) (qa_root as) (pmm_owned p, pm_free_count p, m) (pmm_owned p', pm_free_count p', m')"
        "case res of
           Inr tok \<Rightarrow> tok = MapperFlush va \<and> view_at m as va = Inl NotMapped \<and> path_prefixes va \<subseteq> table_paths m' (qa_root as) \<and>
             view_at m' as = (\<lambda>a. if page_number a = page_number va then Inr (pa, mf_effective flags) else view_at m as a)
         | Inl e \<Rightarrow> view_at m' as = view_at m as \<and>
             (e = AlreadyMapped \<and> view_at m as va \<noteq> Inl NotMapped \<or>
              e = MmuOutOfFrames \<and> pm_free_count p' = 0 \<and> view_at m as va = Inl NotMapped \<and>
                \<not> path_prefixes va \<subseteq> table_paths m' (qa_root as))"
        using pmm_frames.map_spec [OF p assms(3) go assms(6,7)] by blast
      then show ?thesis by (cases res) auto
    qed
  qed
  then obtain p' m' res where w: "qemu_map pmm_alloc_frame p m as va pa flags = Some ((p', m', as), res)" "pmm_inv p'"
      "extends (path_prefixes va) (qa_root as) (pmm_owned p, pm_free_count p, m) (pmm_owned p', pm_free_count p', m')"
      "view_at m' as = (\<lambda>a. if is_ok res \<and> page_number a = page_number va then Inr (pa, mf_effective flags) else view_at m as a)"
    by blast
  have e: "tree_wf m' (qa_root as)" "tables m' (qa_root as) = tables m (qa_root as) \<union> (pmm_owned p' - pmm_owned p)"
      "only_in (tables m' (qa_root as)) m m'"
    using w(3) unfolding extends_def by blast+
  have o: "tree_wf m (qa_root other)" "tables m (qa_root other) \<subseteq> pmm_owned p" using assms(4) by (simp_all add: space_ok_def)
  then have "tables m (qa_root other) \<inter> tables m' (qa_root as) = {}" using assms(5) e(2) by auto
  note other = only_in_other_tree [OF e(3) tables_direct [OF e(1)] o(1) this]
  have "qemu_translate m' other a = qemu_translate m other a" for a
    using translate_spec [of m' other a] translate_spec [OF o(1)] other(1) other(3) [OF _ is_page_page_of] by (simp add: view_at_def)
  moreover have "qemu_translate m' as a = (if is_ok res \<and> page_number a = page_number va
      then Some (Inr (pa, mf_effective flags)) else qemu_translate m as a)" for a
    using translate_spec [OF e(1)] translate_spec [of m as] assms(3) w(4) by (auto simp: space_ok_def)
  moreover have "\<forall>a. (\<forall>t \<in> tables m' (qa_root as). a \<notin> frame_bytes t) \<longrightarrow> m' a = m a"
    using e(3) by (simp add: only_in_def)
  ultimately show ?thesis
    using w(1,2) e(2) extends_ok(1) [OF assms(3) w(3)] by (intro exI [of _ p'] exI [of _ m'] exI [of _ res]) (simp add: pmm_inv_def)
qed

theorem map_failure_contract_witness:
  "\<exists>p m r1 r2 p' m' r. space_ok (pmm_owned p) m r1 \<and> space_ok (pmm_owned p) m r2 \<and>
     qemu_map pmm_alloc_frame p m \<lparr>qa_root = r1\<rparr> 0x400000 (PhysFrame 0x80000000) mf_USER = Some ((p', m', \<lparr>qa_root = r1\<rparr>), r) \<and>
     (\<forall>a. qemu_translate m' \<lparr>qa_root = r2\<rparr> a = qemu_translate m \<lparr>qa_root = r2\<rparr> a)"
proof -
  obtain p m r1 r2 where d: "pmm_wf p" "direct_mapped p" "space_ok (pmm_owned p) m (qa_root \<lparr>qa_root = r1\<rparr>)"
      "space_ok (pmm_owned p) m (qa_root \<lparr>qa_root = r2\<rparr>)"
      "tables m (qa_root \<lparr>qa_root = r1\<rparr>) \<inter> tables m (qa_root \<lparr>qa_root = r2\<rparr>) = {}"
    using demo_spaces by (auto simp: pmm_inv_def)
  have "frame_addr (PhysFrame 0x80000000) mod PAGE_SIZE = 0" "frame_addr (PhysFrame 0x80000000) < 2 ^ 48"
    by (simp_all add: PAGE_SIZE_def)
  from map_failure_contract [OF d this, where va = "0x400000" and flags = mf_USER]
  obtain p' m' r where
    "qemu_map pmm_alloc_frame p m \<lparr>qa_root = r1\<rparr> 0x400000 (PhysFrame 0x80000000) mf_USER = Some ((p', m', \<lparr>qa_root = r1\<rparr>), r)"
    "\<forall>a. qemu_translate m' \<lparr>qa_root = r2\<rparr> a = qemu_translate m \<lparr>qa_root = r2\<rparr> a" by blast
  then show ?thesis using d(3,4)
    by (intro exI [of _ p] exI [of _ m] exI [of _ r1] exI [of _ r2] exI [of _ p'] exI [of _ m'] exI [of _ r]) simp
qed

text \<open>
  Unmapping undoes mapping. After a successful map the page can be unmapped
  again: unmap returns the frame that was mapped and a token for the address,
  and every translation is the one before the two calls.
\<close>

theorem unmap_undoes_map:
  assumes "pmm_wf p" "direct_mapped p" "space_ok (pmm_owned p) m (qa_root as)"
    and "frame_addr pa mod PAGE_SIZE = 0" "frame_addr pa < 2 ^ 48"
    and "qemu_map pmm_alloc_frame p m as va pa flags = Some ((p', m', as), Inr tok)"
  shows "\<exists>m''. qemu_unmap m' as va = Some ((m'', as), Inr (tok, pa)) \<and>
    (\<forall>a. qemu_translate m'' as a = qemu_translate m as a) \<and>
    qemu_unmap m'' as va = Some ((m'', as), Inl NotMapped)"
proof -
  have p: "pmm_inv p" using assms(1,2) by (simp add: pmm_inv_def)
  have go: "va mod PAGE_SIZE = 0" "\<not> (mf_contains flags mf_DEVICE \<and> mf_contains flags mf_EXECUTE)"
    using assms(6) unfolding qemu_map_def by (metis Inl_Inr_False option.inject prod.inject)+
  have w: "extends (path_prefixes va) (qa_root as) (pmm_owned p, pm_free_count p, m) (pmm_owned p', pm_free_count p', m')"
      "tok = MapperFlush va" "view_at m as va = Inl NotMapped"
      "view_at m' as = (\<lambda>a. if page_number a = page_number va then Inr (pa, mf_effective flags) else view_at m as a)"
    using pmm_frames.map_spec [OF p assms(3) go assms(4,5)] unfolding assms(6) by auto
  have wf: "tree_wf m' (qa_root as)" "tree_wf m (qa_root as)"
    using w(1) assms(3) by (simp_all add: extends_def space_ok_def)
  obtain m'' where u: "qemu_unmap m' as va = Some ((m'', as), Inr (MapperFlush va, pa))" "tree_wf m'' (qa_root as)"
      "view_at m'' as = (\<lambda>a. if page_number a = page_number va then Inl NotMapped else view_at m' as a)"
    using unmap_spec [OF wf(1) go(1)] w(4) by auto
  have same: "view_at m as a = Inl NotMapped" if "page_number a = page_number va" for a
    using w(3) that page_of_eq_iff [of a va] by (simp add: view_at_def)
  have view: "view_at m'' as = view_at m as" using same unfolding u(3) w(4) by (auto simp: fun_eq_iff)
  have "qemu_unmap m'' as va = Some ((m'', as), Inl NotMapped)"
    using unmap_spec [OF u(2) go(1)] w(3) unfolding view by simp
  then show ?thesis using u(1) w(2) view translate_spec [OF u(2)] translate_spec [OF wf(2)] by auto
qed

lemma demo_map:
  "\<exists>p m as p' m'. pmm_wf p \<and> direct_mapped p \<and> space_ok (pmm_owned p) m (qa_root as) \<and>
     qemu_map pmm_alloc_frame p m as 0x400000 (PhysFrame 0x80000000) mf_USER =
       Some ((p', m', as), Inr (MapperFlush 0x400000))"
proof -
  obtain p m r where d: "pmm_inv p" "12 \<le> pm_free_count p" "space_ok (pmm_owned p) m (qa_root \<lparr>qa_root = r\<rparr>)"
      "view_at m \<lparr>qa_root = r\<rparr> = (\<lambda>_. Inl NotMapped)"
    using demo_spaces by auto
  let ?as = "\<lparr>qa_root = r\<rparr>"
  have go: "(0x400000 :: nat) mod PAGE_SIZE = 0" "\<not> (mf_contains mf_USER mf_DEVICE \<and> mf_contains mf_USER mf_EXECUTE)"
      "frame_addr (PhysFrame 0x80000000) mod PAGE_SIZE = 0" "frame_addr (PhysFrame 0x80000000) < 2 ^ 48"
    by (simp_all add: PAGE_SIZE_def mf_contains_bits bit_mf_consts)
  obtain p' m' res where w: "qemu_map pmm_alloc_frame p m ?as 0x400000 (PhysFrame 0x80000000) mf_USER = Some ((p', m', ?as), res)"
      "extends (path_prefixes 0x400000) r (pmm_owned p, pm_free_count p, m) (pmm_owned p', pm_free_count p', m')"
      "res = Inr (MapperFlush 0x400000) \<or> pm_free_count p' = 0"
  proof -
    obtain p' m' res where *: "qemu_map pmm_alloc_frame p m ?as 0x400000 (PhysFrame 0x80000000) mf_USER = Some ((p', m', ?as), res)"
        "extends (path_prefixes 0x400000) r (pmm_owned p, pm_free_count p, m) (pmm_owned p', pm_free_count p', m')"
        "case res of
           Inr tok \<Rightarrow> tok = MapperFlush 0x400000 \<and> view_at m ?as 0x400000 = Inl NotMapped \<and> path_prefixes 0x400000 \<subseteq> table_paths m' (qa_root ?as) \<and>
             view_at m' ?as = (\<lambda>a. if page_number a = page_number 0x400000 then Inr (PhysFrame 0x80000000, mf_effective mf_USER) else view_at m ?as a)
         | Inl e \<Rightarrow> view_at m' ?as = view_at m ?as \<and>
             (e = AlreadyMapped \<and> view_at m ?as 0x400000 \<noteq> Inl NotMapped \<or>
              e = MmuOutOfFrames \<and> pm_free_count p' = 0 \<and> view_at m ?as 0x400000 = Inl NotMapped \<and>
                \<not> path_prefixes 0x400000 \<subseteq> table_paths m' (qa_root ?as))"
      using pmm_frames.map_spec [OF d(1,3) go] by auto
    then have "res = Inr (MapperFlush 0x400000) \<or> pm_free_count p' = 0" using d(4) by (cases res) auto
    then show thesis using that * by blast
  qed
  have "pm_free_count p \<le> pm_free_count p' + card (path_prefixes 0x400000 - table_paths m r)"
    using extends_cost [OF w(2) path_prefixes_card(1)] .
  moreover have "card (path_prefixes 0x400000 - table_paths m r) \<le> 3"
    using card_mono [OF path_prefixes_card(1), of "path_prefixes 0x400000 - table_paths m r" "0x400000"]
      path_prefixes_card(2) [of "0x400000"] by auto
  ultimately have "res = Inr (MapperFlush 0x400000)" using w(3) d(2) by auto
  then show ?thesis using w(1) d(1,3)
    by (intro exI [of _ p] exI [of _ m] exI [of _ ?as] exI [of _ p'] exI [of _ m']) (simp add: pmm_inv_def)
qed

theorem unmap_undoes_map_witness:
  "\<exists>p m as p' m' m''. qemu_map pmm_alloc_frame p m as 0x400000 (PhysFrame 0x80000000) mf_USER =
       Some ((p', m', as), Inr (MapperFlush 0x400000)) \<and>
     qemu_unmap m' as 0x400000 = Some ((m'', as), Inr (MapperFlush 0x400000, PhysFrame 0x80000000)) \<and>
     (\<forall>a. qemu_translate m'' as a = qemu_translate m as a)"
proof -
  obtain p m as p' m' where d: "pmm_wf p" "direct_mapped p" "space_ok (pmm_owned p) m (qa_root as)"
      "qemu_map pmm_alloc_frame p m as 0x400000 (PhysFrame 0x80000000) mf_USER =
       Some ((p', m', as), Inr (MapperFlush 0x400000))" using demo_map by blast
  have "frame_addr (PhysFrame 0x80000000) mod PAGE_SIZE = 0" "frame_addr (PhysFrame 0x80000000) < 2 ^ 48"
    by (simp_all add: PAGE_SIZE_def)
  from unmap_undoes_map [OF d(1-3) this d(4)] d(4) show ?thesis by blast
qed

end
