(* ===== verification/AddressSpace_Claims.thy ===== *)
theory AddressSpace_Claims
  imports Mmu_Contract Mmu_Claims CapTable_Claims
begin

text \<open>
  The QEMU virt implementation with the physical memory manager satisfies the
  translation contract, and the properties of the capability-gated wrappers on
  it: creation is atomic, and a mapping changes one page of one address space,
  with the authority of its capability and a TLB invalidation for what changed.
\<close>

section \<open>The implementation meets the contract\<close>

lemma qemu_created:
  assumes "direct_frame r" "m' = zero_frame m r" "a = mmu_create_address_space qemu_mmu r"
  shows "tree_wf m' (qa_root a) \<and> tables m' (qa_root a) = {r} \<and> view_at m' a = (\<lambda>_. Inl NotMapped) \<and>
    table_paths m' (qa_root a) \<inter> path_prefixes va = {}"
proof -
  have a: "qa_root a = r" using assms(3) by (simp add: qemu_mmu_def qemu_create_address_space_def)
  have z: "entry m' r i = 0" if "i < 512" for i using entry_zero_frame [OF that] assms(2) by simp
  have "view_at m' a = (\<lambda>_. Inl NotMapped)"
    using zero_root(4) [OF assms(1) z is_page_page_of] a by (simp add: view_at_def fun_eq_iff)
  then show ?thesis using zero_root(1-3) [OF assms(1) z] unfolding a
    by (simp add: path_prefixes_def table_path_def)
qed

lemma qemu_local:
  assumes "tree_wf m (qa_root a)" "\<And>t. t \<in> tables m (qa_root a) \<Longrightarrow> same_on t m m'"
  shows "tree_wf m' (qa_root a) \<and> tables m' (qa_root a) = tables m (qa_root a) \<and> view_at m' a = view_at m a \<and>
    table_paths m' (qa_root a) = table_paths m (qa_root a)"
proof -
  have "view_at m' a = view_at m a"
    using tree_same(3) [OF assms(2) is_page_page_of] by (simp add: view_at_def fun_eq_iff)
  moreover have "table_paths m' (qa_root a) = table_paths m (qa_root a)"
    using descend_same [OF assms(2)] by (auto simp: table_paths_def)
  ultimately show ?thesis using tree_same(1,2) [OF assms(2)] assms(1) by simp
qed

lemma extends_contract:
  assumes "extends Q r (X, n, m) (X', n', m')"
  shows "X \<subseteq> X' \<and> tree_wf m' r \<and> tables m' r = tables m r \<union> (X' - X) \<and> only_in (tables m' r) m m' \<and>
    table_paths m r \<subseteq> table_paths m' r \<and> table_paths m' r \<subseteq> table_paths m r \<union> Q \<and>
    n = n' + card (table_paths m' r - table_paths m r)"
proof -
  have e: "table_paths m r \<subseteq> table_paths m' r" "n + card (table_paths m r) = n' + card (table_paths m' r)"
    using assms by (simp_all add: extends_def)
  then have "n = n' + card (table_paths m' r - table_paths m r)"
    using card_Diff_subset [OF table_paths_finite e(1)] card_mono [OF table_paths_finite e(1)] by simp
  then show ?thesis using assms unfolding extends_def prod.case by blast
qed

text \<open>Mapping meets it with any provider.\<close>

context frame_provider
begin

lemma qemu_mapping:
  assumes p: "inv p" and ok: "tree_wf m (qa_root a)" "tables m (qa_root a) \<subseteq> owned p"
    and pa: "frame_addr pa mod PAGE_SIZE = 0" "frame_addr pa < 2 ^ 48"
  shows "\<exists>p' m' a' r. mmu_map qemu_mmu alloc p m a va pa flags = Some ((p', m', a'), r) \<and> inv p' \<and>
    owned p \<subseteq> owned p' \<and> tree_wf m' (qa_root a') \<and>
    tables m' (qa_root a') = tables m (qa_root a) \<union> (owned p' - owned p) \<and>
    only_in (tables m' (qa_root a')) m m' \<and> table_paths m (qa_root a) \<subseteq> table_paths m' (qa_root a') \<and>
    table_paths m' (qa_root a') \<subseteq> table_paths m (qa_root a) \<union> path_prefixes va \<and>
    avail p = avail p' + card (table_paths m' (qa_root a') - table_paths m (qa_root a)) \<and>
    (case r of
       Inr tok \<Rightarrow> tok = MapperFlush va \<and> view_at m a va = Inl NotMapped \<and> path_prefixes va \<subseteq> table_paths m' (qa_root a') \<and>
         view_at m' a' = (\<lambda>x. if page_number x = page_number va then Inr (pa, mf_effective flags) else view_at m a x)
     | Inl e \<Rightarrow> view_at m' a' = view_at m a \<and>
         (va mod PAGE_SIZE = 0 \<longrightarrow> \<not> (mf_contains flags mf_DEVICE \<and> mf_contains flags mf_EXECUTE) \<longrightarrow>
          view_at m a va = Inl NotMapped \<longrightarrow> avail p' = 0 \<and> \<not> path_prefixes va \<subseteq> table_paths m' (qa_root a')))"
proof -
  have s: "space_ok (owned p) m (qa_root a)" using ok by (simp add: space_ok_def)
  have refl: "extends (path_prefixes va) (qa_root a) (owned p, avail p, m) (owned p, avail p, m)"
    using ok(1) grown_refl [of m "qa_root a"] by (simp add: grown_def)
  have mm: "mmu_map qemu_mmu = qemu_map" by (simp add: qemu_mmu_def)
  consider (mis) "va mod PAGE_SIZE \<noteq> 0"
    | (flags) "va mod PAGE_SIZE = 0" "mf_contains flags mf_DEVICE \<and> mf_contains flags mf_EXECUTE"
    | (go) "va mod PAGE_SIZE = 0" "\<not> (mf_contains flags mf_DEVICE \<and> mf_contains flags mf_EXECUTE)" by blast
  then show ?thesis
  proof cases
    case mis
    then show ?thesis
      using map_refused(1) [of va alloc p m a pa flags] p extends_contract [OF refl]
      unfolding mm by (intro exI [of _ p] exI [of _ m] exI [of _ a] exI [of _ "Inl mmu_error.MisalignedAddress"]) simp
  next
    case flags
    then show ?thesis
      using map_refused(2) [of va flags alloc p m a pa] p extends_contract [OF refl]
      unfolding mm by (intro exI [of _ p] exI [of _ m] exI [of _ a] exI [of _ "Inl InvalidFlags"]) simp
  next
    case go
    obtain p' m' res where w: "qemu_map alloc p m a va pa flags = Some ((p', m', a), res)" "inv p'"
        "extends (path_prefixes va) (qa_root a) (owned p, avail p, m) (owned p', avail p', m')"
        "case res of
           Inr tok \<Rightarrow> tok = MapperFlush va \<and> view_at m a va = Inl NotMapped \<and> path_prefixes va \<subseteq> table_paths m' (qa_root a) \<and>
             view_at m' a = (\<lambda>x. if page_number x = page_number va then Inr (pa, mf_effective flags) else view_at m a x)
         | Inl e \<Rightarrow> view_at m' a = view_at m a \<and>
             (e = AlreadyMapped \<and> view_at m a va \<noteq> Inl NotMapped \<or>
              e = MmuOutOfFrames \<and> avail p' = 0 \<and> view_at m a va = Inl NotMapped \<and>
                \<not> path_prefixes va \<subseteq> table_paths m' (qa_root a))"
      using map_spec [OF p s go pa] by blast
    show ?thesis
      using w(1,2,4) extends_contract [OF w(3)]
      unfolding mm by (intro exI [of _ p'] exI [of _ m'] exI [of _ a] exI [of _ res]) (auto split: sum.splits)
  qed
qed

end

lemma qemu_unmapping:
  assumes ok: "tree_wf m (qa_root a)"
  shows "\<exists>m' a' r. mmu_unmap qemu_mmu m a va = Some ((m', a'), r) \<and> tree_wf m' (qa_root a') \<and>
    tables m' (qa_root a') = tables m (qa_root a) \<and> table_paths m' (qa_root a') = table_paths m (qa_root a) \<and>
    only_in (tables m (qa_root a)) m m' \<and>
    (case r of
       Inr x \<Rightarrow> fst x = MapperFlush va \<and> (\<exists>fl. view_at m a va = Inr (snd x, fl)) \<and>
         view_at m' a' = (\<lambda>y. if page_number y = page_number va then Inl NotMapped else view_at m a y)
     | Inl e \<Rightarrow> view_at m' a' = view_at m a \<and> (va mod PAGE_SIZE = 0 \<longrightarrow> view_at m a va = Inl e))"
proof -
  have mm: "mmu_unmap qemu_mmu = qemu_unmap" by (simp add: qemu_mmu_def)
  show ?thesis
  proof (cases "va mod PAGE_SIZE = 0")
    case False
    then show ?thesis using map_refused(3) [of va m a] ok
      unfolding mm by (intro exI [of _ m] exI [of _ a] exI [of _ "Inl mmu_error.MisalignedAddress"]) simp
  next
    case True
    note u = unmap_spec [OF ok True]
    show ?thesis
    proof (cases "view_at m a va")
      case (Inl e)
      then show ?thesis using u ok
        unfolding mm by (intro exI [of _ m] exI [of _ a] exI [of _ "Inl e"]) simp
    next
      case (Inr x)
      then obtain m' where "qemu_unmap m a va = Some ((m', a), Inr (MapperFlush va, fst x))" "tree_wf m' (qa_root a)"
          "tables m' (qa_root a) = tables m (qa_root a)" "table_paths m' (qa_root a) = table_paths m (qa_root a)"
          "only_in (tables m (qa_root a)) m m'"
          "view_at m' a = (\<lambda>y. if page_number y = page_number va then Inl NotMapped else view_at m a y)"
        using u by auto
      then show ?thesis using Inr
        unfolding mm by (intro exI [of _ m'] exI [of _ a] exI [of _ "Inr (MapperFlush va, fst x)"]) (cases x, simp)
    qed
  qed
qed

interpretation qemu: translation_unit pmm_alloc_frame pmm_inv pmm_owned pm_free_count qemu_mmu
  "\<lambda>m a. tree_wf m (qa_root a)" "\<lambda>m a. tables m (qa_root a)" view_at "\<lambda>m a. table_paths m (qa_root a)" path_prefixes
proof (unfold_locales, goal_cases)
  case (1 r m' m a va)
  then show ?case using qemu_created by blast
next
  case (2 m a t)
  then show ?case using tables_direct by blast
next
  case (3 m a m')
  then show ?case using qemu_local by blast
next
  case (4 va)
  then show ?case by (rule path_prefixes_card)
next
  case (5 p m a pa va flags)
  then show ?case by (rule pmm_frames.qemu_mapping)
next
  case (6 m a va)
  then show ?case by (rule qemu_unmapping)
next
  case (7 m a va)
  then show ?case using translate_spec by (simp add: qemu_mmu_def)
qed

text \<open>The same with the layout of the manager fixed, which no operation changes.\<close>

definition laid_as :: "pmm \<Rightarrow> pmm \<Rightarrow> bool" where
  "laid_as p0 p \<longleftrightarrow> pmm_inv p0 \<and> pmm_inv p \<and> pm_extent p = pm_extent p0 \<and> pm_reserved_ranges p = pm_reserved_ranges p0"

interpretation pmm_laid: frame_provider pmm_alloc_frame "laid_as p0" pmm_owned pm_free_count for p0
proof
  fix p m assume p: "laid_as p0 p" and "pm_free_count p = 0"
  then show "pmm_alloc_frame p m = Some ((p, m), None)" using pmm_frames.alloc_none by (simp add: laid_as_def)
next
  fix p m assume p: "laid_as p0 p" and free: "pm_free_count p \<noteq> 0"
  then have "pmm_inv p" by (simp add: laid_as_def)
  from pmm_provides [OF this free, of m] p
  show "\<exists>p' f. pmm_alloc_frame p m = Some ((p', zero_frame m f), Some f) \<and> laid_as p0 p' \<and> direct_frame f \<and>
      f \<notin> pmm_owned p \<and> pmm_owned p' = insert f (pmm_owned p) \<and> pm_free_count p = Suc (pm_free_count p')"
    by (auto simp: laid_as_def)
qed

interpretation qemu_laid: translation_unit pmm_alloc_frame "laid_as p0" pmm_owned pm_free_count qemu_mmu
  "\<lambda>m a. tree_wf m (qa_root a)" "\<lambda>m a. tables m (qa_root a)" view_at "\<lambda>m a. table_paths m (qa_root a)" path_prefixes
  for p0
proof (unfold_locales, goal_cases)
  case (5 p m a pa va flags)
  then show ?case by (rule pmm_laid.qemu_mapping)
qed (rule qemu.created qemu.frames_direct qemu.local qemu.needs_finite qemu.unmap qemu.translate; assumption)+

section \<open>Properties\<close>

text \<open>The kernel's address spaces on this board, and what translate answers in one of them.\<close>

definition qemu_vm_ok :: "(qemu_address_space, pmm) vm \<Rightarrow> bool" where
  "qemu_vm_ok = vm_ok pmm_inv pmm_owned (\<lambda>m a. tree_wf m (qa_root a)) (\<lambda>m a. tables m (qa_root a))"

definition vm_translates :: "(qemu_address_space, 'p) vm \<Rightarrow> address_space_handle \<Rightarrow> nat \<Rightarrow> translation option" where
  "vm_translates v h va = do { s \<leftarrow> get_address_space (vm_spaces v) h; qemu_translate (vm_memory v) (as_inner s) va }"

lemma vm_translates_views:
  "qemu_vm_ok v \<Longrightarrow> vm_translates v h va = map_option (\<lambda>f. f va) (vm_views view_at v h)"
  using qemu.vm_okD(3) [of v h] translate_spec [of "vm_memory v"]
  by (cases "get_address_space (vm_spaces v) h") (simp_all add: qemu_vm_ok_def vm_translates_def vm_views_def)

lemma vm_translates_upd:
  assumes "qemu_vm_ok v'" "qemu_vm_ok v" "vm_views view_at v' = (vm_views view_at v)(h \<mapsto> f)"
  shows "vm_translates v' k a = (if k = h then Some (f a) else vm_translates v k a)"
  using assms by (simp add: vm_translates_views)

text \<open>A boot state: no address space yet, the demonstration manager, and a table that
  holds an address-space capability with all rights.\<close>

definition demo_vm :: "(qemu_address_space, pmm) vm" where
  "demo_vm = \<lparr>vm_frames = demo_pmm, vm_memory = (\<lambda>_. 0),
              vm_spaces = arena_new ADDRESS_SPACE_ARENA_CAPACITY, vm_tlb = []\<rparr>"

definition demo_as_cap :: capability where
  "demo_as_cap = \<lparr>cap_rights = 0xFF, cap_object = CapAddressSpace BOOTSTRAP_ADDRESS_SPACE_HANDLE\<rparr>"

definition demo_as_table :: cap_table where
  "demo_as_table = fst (the (insert_root cap_table_new demo_as_cap))"

lemma demo_vm_ok: "qemu_vm_ok demo_vm"
proof -
  have "get_address_space (arena_new ADDRESS_SPACE_ARENA_CAPACITY :: qemu_address_space address_space_arena) h = None" for h
    by (auto simp: get_address_space_def arena_get_def arena_new_def nth_opt_def)
  then show ?thesis using demo_pmm_facts(1,2) arena_new_wf
    by (simp add: qemu_vm_ok_def vm_ok_def demo_vm_def pmm_inv_def)
qed

lemma demo_as_table:
  "cap_wf demo_as_table" "\<not> cap_table_is_full demo_as_table"
  "node_at demo_as_table (demo_handle 0) = Some \<lparr>cn_cap = demo_as_cap, cn_parent = None, cn_depth = 0\<rparr>"
proof -
  have room: "\<not> cap_table_is_full cap_table_new"
    by (simp add: cap_table_is_full_def cap_table_new_def CAP_TABLE_CAPACITY_def)
  obtain t h where t: "insert_root cap_table_new demo_as_cap = Some (t, Inr h)"
      "adds_node cap_table_new t h \<lparr>cn_cap = demo_as_cap, cn_parent = None, cn_depth = 0\<rparr>"
    using insert_root_room [OF cap_table_new_wf room] by blast
  have d: "demo_as_table = t" using t(1) by (simp add: demo_as_table_def)
  have "snd (the (insert_root cap_table_new demo_as_cap)) = Inr (demo_handle 0)" by (simp add: cap_eval)
  then have h: "h = demo_handle 0" using t(1) by simp
  show wf: "cap_wf demo_as_table" using t(2) by (simp add: d adds_node_def)
  show "node_at demo_as_table (demo_handle 0) = Some \<lparr>cn_cap = demo_as_cap, cn_parent = None, cn_depth = 0\<rparr>"
    using adds_node_at [OF t(2)] by (simp add: d h)
  have "forest (ent t) 1 = None"
    using t(2) h by (simp add: adds_node_def demo_handle_def cap_table_new_views forest_def)
  then show "\<not> cap_table_is_full demo_as_table"
    using wf_full_iff [OF wf] unfolding d CAP_TABLE_CAPACITY_def forest_None
    by (metis one_less_numeral_iff semiring_norm(76))
qed

lemma demo_create_verdict: "create_verdict demo_as_table (vm_spaces demo_vm) (demo_handle 0) 0x10 = None"
  by (simp add: create_verdict_def demo_as_table demo_as_cap_def cap_kind_def rights_contains_def rights_consts
      MAX_DERIVATION_DEPTH_def demo_vm_def arena_is_full_def arena_new_def ADDRESS_SPACE_ARENA_CAPACITY_def)

text \<open>
  C17: Creating an address space is atomic. On valid address spaces and a
  well-formed capability table the call never panics. It refuses, in this order,
  a stale parent, a parent of another kind, one without DERIVE, rights the
  parent does not have, a parent at the depth limit, a full arena, a full table
  and an empty frame pool, and then nothing has changed: no frame, no arena slot
  and no capability is lost. Otherwise the new capability is a child of the
  parent that names a new address space in which nothing is mapped, every other
  address space translates as before, and all stay valid and disjoint.
\<close>

theorem create_address_space_atomic:
  assumes "qemu_vm_ok v" "cap_wf t"
  shows "case create_verdict t (vm_spaces v) parent r of
      Some e \<Rightarrow> cap_create_address_space qemu_mmu pmm_alloc_frame t v parent r = Some ((t, v), Inl e)
    | None \<Rightarrow>
        if st_free_frames (pmm_get_stats (vm_frames v)) = 0
        then cap_create_address_space qemu_mmu pmm_alloc_frame t v parent r = Some ((t, v), Inl AsOutOfFrames)
        else \<exists>n t' v' c h. node_at t parent = Some n \<and>
          cap_create_address_space qemu_mmu pmm_alloc_frame t v parent r = Some ((t', v'), Inr c) \<and>
          adds_node t t' c \<lparr>cn_cap = \<lparr>cap_rights = r, cap_object = CapAddressSpace h\<rparr>,
                            cn_parent = Some (ch_index parent), cn_depth = Suc (cn_depth n)\<rparr> \<and>
          qemu_vm_ok v' \<and> get_address_space (vm_spaces v) h = None \<and>
          (\<forall>k va. vm_translates v' k va = (if k = h then Some (Inl NotMapped) else vm_translates v k va))"
proof (cases "create_verdict t (vm_spaces v) parent r")
  case (Some e)
  then show ?thesis using create_refused [OF assms(2)] by simp
next
  case None
  have ok: "qemu.vm_valid v" using assms(1) by (simp add: qemu_vm_ok_def)
  have st: "st_free_frames (pmm_get_stats (vm_frames v)) = pm_free_count (vm_frames v)" by (simp add: pmm_get_stats_def)
  show ?thesis
  proof (cases "pm_free_count (vm_frames v) = 0")
    case True
    then show ?thesis using qemu.create_out_of_frames [OF ok assms(2) None] None st by simp
  next
    case False
    obtain n t' v' c h where w: "node_at t parent = Some n"
        "cap_create_address_space qemu_mmu pmm_alloc_frame t v parent r = Some ((t', v'), Inr c)"
        "adds_node t t' c \<lparr>cn_cap = \<lparr>cap_rights = r, cap_object = CapAddressSpace h\<rparr>,
                          cn_parent = Some (ch_index parent), cn_depth = Suc (cn_depth n)\<rparr>"
        "qemu.vm_valid v'" "vm_views view_at v h = None"
        "vm_views view_at v' = (vm_views view_at v)(h \<mapsto> (\<lambda>_. Inl NotMapped))"
      using qemu.create_ok [OF ok assms(2) None False] by blast
    have "qemu_vm_ok v'" using w(4) by (simp add: qemu_vm_ok_def)
    moreover have "get_address_space (vm_spaces v) h = None" using w(5) by (simp add: vm_views_def)
    ultimately show ?thesis
      using w(1-3) None False st vm_translates_upd [OF _ assms(1) w(6)] by auto
  qed
qed

theorem create_address_space_atomic_witness:
  "\<exists>t' v' c h. cap_create_address_space qemu_mmu pmm_alloc_frame demo_as_table demo_vm (demo_handle 0) 0x10 =
       Some ((t', v'), Inr c) \<and> qemu_vm_ok v' \<and> vm_translates v' h 0x400000 = Some (Inl NotMapped)"
proof -
  have "st_free_frames (pmm_get_stats (vm_frames demo_vm)) = 14" by (simp add: demo_vm_def demo_pmm_def pmm_get_stats_def)
  then show ?thesis
    using create_address_space_atomic [OF demo_vm_ok demo_as_table(1), of "demo_handle 0" "0x10"]
    unfolding demo_create_verdict by (auto simp del: split_paired_Ex)
qed

text \<open>An address space of the demonstration manager with one page, made by the calls themselves.\<close>

lemma demo_mapped:
  obtains t v c h v1 where
    "cap_create_address_space qemu_mmu pmm_alloc_frame demo_as_table demo_vm (demo_handle 0) 0x10 = Some ((t, v), Inr c)"
    "qemu_vm_ok v" "resolve_address_space_cap t c = Inr h" "\<forall>a. vm_translates v h a = Some (Inl NotMapped)" "vm_tlb v = []"
    "cap_map qemu_mmu pmm_alloc_frame t v c 0x400000 (PhysFrame 0x80000000) mf_USER = Some (v1, Inr ())"
proof -
  have free: "pm_free_count (vm_frames demo_vm) = 14" "pm_free_count (vm_frames demo_vm) \<noteq> 0"
    by (simp_all add: demo_vm_def demo_pmm_def)
  obtain n :: cap_node and t v c h where w:
      "cap_create_address_space qemu_mmu pmm_alloc_frame demo_as_table demo_vm (demo_handle 0) 0x10 = Some ((t, v), Inr c)"
      "adds_node demo_as_table t c \<lparr>cn_cap = \<lparr>cap_rights = 0x10, cap_object = CapAddressSpace h\<rparr>,
         cn_parent = Some (ch_index (demo_handle 0)), cn_depth = Suc (cn_depth n)\<rparr>"
      "qemu.vm_valid v" "vm_views view_at v = (vm_views view_at demo_vm)(h \<mapsto> (\<lambda>_. Inl NotMapped))"
      "pm_free_count (vm_frames demo_vm) = Suc (pm_free_count (vm_frames v))" "vm_tlb v = vm_tlb demo_vm"
    using qemu.create_ok [OF demo_vm_ok [unfolded qemu_vm_ok_def] demo_as_table(1) demo_create_verdict free(2)] by blast
  have ok: "qemu_vm_ok v" using w(3) by (simp add: qemu_vm_ok_def)
  have cap: "resolve_address_space_cap t c = Inr h"
    using adds_node_at [OF w(2)] by (simp add: resolve_address_space_cap_def lookup_node)
  have none: "vm_translates v h a = Some (Inl NotMapped)" for a
    using vm_translates_upd [OF ok demo_vm_ok w(4), of h a] by simp
  obtain s where s: "get_address_space (vm_spaces v) h = Some s" "view_at (vm_memory v) (as_inner s) = (\<lambda>_. Inl NotMapped)"
    using w(4) by (auto simp: vm_views_def fun_eq_iff split: if_splits)
  have go: "(0x400000 :: nat) mod PAGE_SIZE = 0" "\<not> (mf_contains mf_USER mf_DEVICE \<and> mf_contains mf_USER mf_EXECUTE)"
      "frame_addr (PhysFrame 0x80000000) mod PAGE_SIZE = 0" "frame_addr (PhysFrame 0x80000000) < 2 ^ 48"
    by (simp_all add: PAGE_SIZE_def mf_contains_bits bit_mf_consts)
  obtain v1 and s1 :: "qemu_address_space address_space" and r where m: "cap_map qemu_mmu pmm_alloc_frame t v c 0x400000 (PhysFrame 0x80000000) mf_USER = Some (v1, r)"
      "table_paths (vm_memory v1) (qa_root (as_inner s1)) \<subseteq> table_paths (vm_memory v) (qa_root (as_inner s)) \<union> path_prefixes 0x400000"
      "pm_free_count (vm_frames v) = pm_free_count (vm_frames v1) +
        card (table_paths (vm_memory v1) (qa_root (as_inner s1)) - table_paths (vm_memory v) (qa_root (as_inner s)))"
      "\<And>e. r = Inl e \<Longrightarrow> pm_free_count (vm_frames v1) = 0"
  proof -
    from qemu.cap_map_ok [OF w(3) cap s(1) go(3,4), of "0x400000" mf_USER]
    show thesis
    proof (elim exE conjE, goal_cases)
      case (1 v1 s1 r)
      have "pm_free_count (vm_frames v1) = 0" if "r = Inl e" for e
        using 1(11) go(1,2) s(2) unfolding that by simp
      then show thesis by (rule that [OF 1(1,8,9)])
    qed
  qed
  have "card (table_paths (vm_memory v1) (qa_root (as_inner s1)) - table_paths (vm_memory v) (qa_root (as_inner s))) \<le> 3"
    using card_mono [OF path_prefixes_card(1) [of "0x400000"]] path_prefixes_card(2) [of "0x400000"] m(2)
    by (meson Diff_subset_conv le_trans)
  then have "r = Inr ()" using m(3,4) w(5) free(1) by (cases r) auto
  then show thesis using that w(1,6) ok cap none m(1) by (simp add: demo_vm_def)
qed

text \<open>
  C18: A mapping changes one page of one address space. Whatever capability,
  address and flags are given, \<open>cap_map\<close> and \<open>cap_unmap\<close> return and keep all
  address spaces valid and disjoint. A translation changes only on success,
  only in the address space the capability names, and only at the page of the
  address: to the given frame and flags for a map, to nothing for an unmap,
  which returns the frame that was there. Each success requests exactly one TLB
  invalidation, for that address, so nothing that changed stays cached.
\<close>

theorem cap_mapping_confined:
  assumes "qemu_vm_ok v" "frame_addr pa mod PAGE_SIZE = 0" "frame_addr pa < 2 ^ 48"
  shows "(\<exists>v' r. cap_map qemu_mmu pmm_alloc_frame t v c va pa flags = Some (v', r) \<and> qemu_vm_ok v' \<and>
      (\<forall>k a. vm_translates v' k a =
         (if is_ok r \<and> resolve_address_space_cap t c = Inr k \<and> page_number a = page_number va
          then Some (Inr (pa, mf_effective flags)) else vm_translates v k a)) \<and>
      vm_tlb v' = vm_tlb v @ (if is_ok r then [va] else [])) \<and>
    (\<exists>v' r. cap_unmap qemu_mmu t v c va = Some (v', r) \<and> qemu_vm_ok v' \<and>
      (\<forall>k a. vm_translates v' k a =
         (if is_ok r \<and> resolve_address_space_cap t c = Inr k \<and> page_number a = page_number va
          then Some (Inl NotMapped) else vm_translates v k a)) \<and>
      (\<forall>f. r = Inr f \<longrightarrow> (\<exists>h fl. resolve_address_space_cap t c = Inr h \<and> vm_translates v h va = Some (Inr (f, fl)))) \<and>
      vm_tlb v' = vm_tlb v @ (if is_ok r then [va] else []))"
proof (cases "resolve_address_space_cap t c")
  case (Inl e)
  then show ?thesis using assms(1) by (simp add: cap_map_def cap_unmap_def)
next
  case (Inr h)
  have ok: "qemu.vm_valid v" using assms(1) by (simp add: qemu_vm_ok_def)
  show ?thesis
  proof (cases "get_address_space (vm_spaces v) h")
    case None
    then show ?thesis using Inr assms(1) by (simp add: cap_map_def cap_unmap_def)
  next
    case (Some s)
    have now: "vm_translates v h a = Some (view_at (vm_memory v) (as_inner s) a)" for a
      using Some vm_translates_views [OF assms(1), of h a] by (simp add: vm_views_def)
    obtain v1 r1 where m: "cap_map qemu_mmu pmm_alloc_frame t v c va pa flags = Some (v1, r1)" "qemu.vm_valid v1"
        "vm_views view_at v1 = (vm_views view_at v)(h \<mapsto> (if is_ok r1
           then (\<lambda>x. if page_number x = page_number va then Inr (pa, mf_effective flags) else view_at (vm_memory v) (as_inner s) x)
           else view_at (vm_memory v) (as_inner s)))"
        "vm_tlb v1 = vm_tlb v @ (if is_ok r1 then [va] else [])"
      using qemu.cap_map_effect [OF ok Inr Some assms(2,3), of va flags] by blast
    obtain v2 r2 where u: "cap_unmap qemu_mmu t v c va = Some (v2, r2)" "qemu.vm_valid v2"
        "vm_views view_at v2 = (vm_views view_at v)(h \<mapsto> (if is_ok r2
           then (\<lambda>x. if page_number x = page_number va then Inl NotMapped else view_at (vm_memory v) (as_inner s) x)
           else view_at (vm_memory v) (as_inner s)))"
        "\<forall>f. r2 = Inr f \<longrightarrow> (\<exists>fl. view_at (vm_memory v) (as_inner s) va = Inr (f, fl))"
        "vm_tlb v2 = vm_tlb v @ (if is_ok r2 then [va] else [])"
      using qemu.cap_unmap_effect [OF ok Inr Some, of va] by blast
    have ok1: "qemu_vm_ok v1" and ok2: "qemu_vm_ok v2" using m(2) u(2) by (simp_all add: qemu_vm_ok_def)
    have "vm_translates v1 k a = (if is_ok r1 \<and> resolve_address_space_cap t c = Inr k \<and> page_number a = page_number va
          then Some (Inr (pa, mf_effective flags)) else vm_translates v k a)" for k a
      unfolding vm_translates_upd [OF ok1 assms(1) m(3)] using now Inr by auto
    moreover have "vm_translates v2 k a = (if is_ok r2 \<and> resolve_address_space_cap t c = Inr k \<and> page_number a = page_number va
          then Some (Inl NotMapped) else vm_translates v k a)" for k a
      unfolding vm_translates_upd [OF ok2 assms(1) u(3)] using now Inr by auto
    moreover have "\<forall>f. r2 = Inr f \<longrightarrow> (\<exists>h fl. resolve_address_space_cap t c = Inr h \<and> vm_translates v h va = Some (Inr (f, fl)))"
      using u(4) Inr now by simp
    ultimately show ?thesis using m(1,4) u(1,5) ok1 ok2 by blast
  qed
qed

theorem cap_mapping_confined_witness:
  "\<exists>t v c h v1 v2. cap_create_address_space qemu_mmu pmm_alloc_frame demo_as_table demo_vm (demo_handle 0) 0x10 =
       Some ((t, v), Inr c) \<and> resolve_address_space_cap t c = Inr h \<and>
     cap_map qemu_mmu pmm_alloc_frame t v c 0x400000 (PhysFrame 0x80000000) mf_USER = Some (v1, Inr ()) \<and>
     vm_translates v1 h 0x400ABC = Some (Inr (PhysFrame 0x80000000, mf_effective mf_USER)) \<and>
     vm_translates v1 h 0x401000 = Some (Inl NotMapped) \<and> vm_tlb v1 = [0x400000] \<and>
     cap_unmap qemu_mmu t v1 c 0x400000 = Some (v2, Inr (PhysFrame 0x80000000)) \<and>
     vm_translates v2 h 0x400ABC = Some (Inl NotMapped) \<and> vm_tlb v2 = [0x400000, 0x400000]"
proof -
  have pa: "frame_addr (PhysFrame 0x80000000) mod PAGE_SIZE = 0" "frame_addr (PhysFrame 0x80000000) < 2 ^ 48"
    by (simp_all add: PAGE_SIZE_def)
  obtain t v c h v1 where d:
      "cap_create_address_space qemu_mmu pmm_alloc_frame demo_as_table demo_vm (demo_handle 0) 0x10 = Some ((t, v), Inr c)"
      "qemu_vm_ok v" "resolve_address_space_cap t c = Inr h" "\<forall>a. vm_translates v h a = Some (Inl NotMapped)" "vm_tlb v = []"
      "cap_map qemu_mmu pmm_alloc_frame t v c 0x400000 (PhysFrame 0x80000000) mf_USER = Some (v1, Inr ())"
    by (rule demo_mapped)
  from cap_mapping_confined [OF d(2) pa, of t c "0x400000" mf_USER]
  have one: "qemu_vm_ok v1" "vm_tlb v1 = [0x400000]"
    "vm_translates v1 h a = (if page_number a = page_number 0x400000
       then Some (Inr (PhysFrame 0x80000000, mf_effective mf_USER)) else vm_translates v h a)" for a
    by (auto simp: d(3,5,6))
  obtain s1 where s1: "get_address_space (vm_spaces v1) h = Some s1"
    using one(3) [of "0x400000"] by (auto simp: vm_translates_def bind_eq_Some_conv)
  from cap_mapping_confined [OF one(1) pa, of t c "0x400000" mf_USER]
  obtain v2 r where two: "cap_unmap qemu_mmu t v1 c 0x400000 = Some (v2, r)"
      "\<forall>a. vm_translates v2 h a = (if is_ok r \<and> page_number a = page_number 0x400000 then Some (Inl NotMapped) else vm_translates v1 h a)"
      "\<forall>f. r = Inr f \<longrightarrow> (\<exists>fl. vm_translates v1 h 0x400000 = Some (Inr (f, fl)))"
      "vm_tlb v2 = vm_tlb v1 @ (if is_ok r then [0x400000] else [])"
    unfolding d(3) by auto
  have "view_at (vm_memory v1) (as_inner s1) 0x400000 = Inr (PhysFrame 0x80000000, mf_effective mf_USER)"
    using one(3) [of "0x400000"] vm_translates_views [OF one(1), of h "0x400000"] s1 by (simp add: vm_views_def)
  then have "is_ok r"
    using qemu.cap_unmap_ok [OF one(1) [unfolded qemu_vm_ok_def] d(3) s1, of "0x400000"] two(1)
    by (cases r) (auto simp: PAGE_SIZE_def)
  moreover from this have "r = Inr (PhysFrame 0x80000000)" using two(3) one(3) [of "0x400000"] by (cases r) auto
  moreover have "page_number 0x400ABC = page_number 0x400000" "page_number 0x401000 \<noteq> page_number 0x400000"
    by (simp_all add: page_number_def)
  ultimately have "vm_translates v1 h 0x400ABC = Some (Inr (PhysFrame 0x80000000, mf_effective mf_USER))"
    "vm_translates v1 h 0x401000 = Some (Inl NotMapped)" "vm_translates v2 h 0x400ABC = Some (Inl NotMapped)"
    "vm_tlb v2 = [0x400000, 0x400000]" "cap_unmap qemu_mmu t v1 c 0x400000 = Some (v2, Inr (PhysFrame 0x80000000))"
    using d(4) one(2,3) two by simp_all
  then show ?thesis using d(1,3,6) one(2) by blast
qed

end
