(* ===== verification/SyscallEntry_Claims.thy ===== *)
theory SyscallEntry_Claims
  imports SyscallEntry Dispatch_Claims Sched_Claims AddressSpace_Claims
begin

text \<open>
  The system call as a whole: what it does for a task whose bindings are complete,
  and that anything less is refused with nothing changed.
\<close>

section \<open>The running task's bindings\<close>

definition running_context :: "('c, 'a) board \<Rightarrow> (nat \<times> user_access_window \<times> 'a) option" where
  "running_context b =
     (let s = bd_sched b
      in case sd_current s of
           None \<Rightarrow> None
         | Some h \<Rightarrow> do {
             p \<leftarrow> sd_cap_tables s ! th_index h;
             w \<leftarrow> sd_user_windows s ! th_index h;
             ash \<leftarrow> sd_as_handles s ! th_index h;
             asp \<leftarrow> get_address_space (bd_as_arena b) ash;
             Some (p, w, as_inner asp)
           })"

text \<open>The running task's address space is the active one.\<close>

definition own_space :: "('c, 'a) board \<Rightarrow> bool" where
  "own_space b \<longleftrightarrow>
     (\<forall>h ash asp. sd_current (bd_sched b) = Some h \<longrightarrow> sd_as_handles (bd_sched b) ! th_index h = Some ash \<longrightarrow>
        get_address_space (bd_as_arena b) ash = Some asp \<longrightarrow> bd_active_as b = as_inner asp)"

definition board_ok :: "('a \<Rightarrow> translator) \<Rightarrow> ('c, 'a) board \<Rightarrow> bool" where
  "board_ok translate b \<longleftrightarrow>
     sched_wf (bd_sched b) \<and> sd_idle (bd_sched b) \<noteq> None \<and>
     (\<forall>h. runnable (bd_sched b) h \<longrightarrow> sd_as_handles (bd_sched b) ! th_index h \<noteq> None) \<and>
     queues_ok (bd_ep_arena b) (bd_queues b) \<and>
     cap_wf (bd_failclosed_table b) \<and> (\<forall>h. \<exists>e. cap_lookup (bd_failclosed_table b) h = Inl e) \<and>
     (\<forall>i < TASK_ARENA_CAPACITY. \<forall>p. sd_cap_tables (bd_sched b) ! i = Some p \<longrightarrow>
        (\<exists>t. bd_tables b p = Some t \<and> cap_wf t)) \<and>
     (\<forall>h asp. get_address_space (bd_as_arena b) h = Some asp \<longrightarrow>
        frames_reachable (translate (as_inner asp) (bd_memory b))) \<and> own_space b"

lemma board_okD:
  assumes "board_ok translate b"
  shows "sched_wf (bd_sched b)" "sd_idle (bd_sched b) \<noteq> None"
    and "runnable (bd_sched b) h \<Longrightarrow> sd_as_handles (bd_sched b) ! th_index h \<noteq> None"
    and "queues_ok (bd_ep_arena b) (bd_queues b)"
    and "cap_wf (bd_failclosed_table b)" "\<exists>e. cap_lookup (bd_failclosed_table b) k = Inl e"
    and "\<lbrakk>i < TASK_ARENA_CAPACITY; sd_cap_tables (bd_sched b) ! i = Some p\<rbrakk> \<Longrightarrow> \<exists>t. bd_tables b p = Some t \<and> cap_wf t"
    and "get_address_space (bd_as_arena b) ash = Some asp \<Longrightarrow> frames_reachable (translate (as_inner asp) (bd_memory b))"
    and "own_space b"
  using assms by (simp_all add: board_ok_def)

lemma current_bindings:
  assumes "sched_wf s" "sd_current s = Some h"
  shows "current_user_table s = Some (sd_cap_tables s ! th_index h)"
    and "current_address_space_handle s = Some (sd_as_handles s ! th_index h)"
    and "current_user_window s = Some (sd_user_windows s ! th_index h)"
    and "th_index h < TASK_ARENA_CAPACITY"
proof -
  have "th_index h < TASK_ARENA_CAPACITY" "sized s"
    using sched_wfD(1,5) [OF assms(1)] assms(2) runnable_index by auto
  then show "current_user_table s = Some (sd_cap_tables s ! th_index h)"
    and "current_address_space_handle s = Some (sd_as_handles s ! th_index h)"
    and "current_user_window s = Some (sd_user_windows s ! th_index h)"
    and "th_index h < TASK_ARENA_CAPACITY"
    using assms(2)
    by (simp_all add: current_user_table_def current_address_space_handle_def current_user_window_def sized_def)
qed

text \<open>The entry, with its reads resolved.\<close>

lemma syscall_entry_eq:
  assumes "sched_wf (bd_sched b)"
  shows "syscall_entry debug translate b frame =
    (case running_context b of
       Some (p, w, a) \<Rightarrow> do {
         table \<leftarrow> bd_tables b p;
         (ctx, effect) \<leftarrow> dispatch debug (board_context translate b table w a True) (frame_args frame);
         apply_effect ((board_update ctx b)\<lparr>bd_tables := (bd_tables b)(p \<mapsto> sc_caller_table ctx)\<rparr>) frame effect
       }
     | None \<Rightarrow> do {
         (ctx, effect) \<leftarrow>
           dispatch debug (board_context translate b (bd_failclosed_table b) user_window_empty (bd_bootstrap_as b) False)
             (frame_args frame);
         apply_effect ((board_update ctx b)\<lparr>bd_failclosed_table := sc_caller_table ctx\<rparr>) frame effect
       })"
proof (cases "sd_current (bd_sched b)")
  case None
  then show ?thesis
    by (simp add: syscall_entry_def running_context_def current_user_table_def current_address_space_handle_def
        current_user_window_def)
next
  case (Some h)
  note cb = current_bindings [OF assms Some]
  show ?thesis
    unfolding syscall_entry_def cb(1,2,3) running_context_def Let_def Some
    by (simp split: option.split bind_split)
qed

section \<open>Refusal\<close>

lemma refusing_table:
  assumes "\<And>h. \<exists>e. cap_lookup (sc_caller_table ctx) h = Inl e" and "\<not> sc_has_current_task ctx"
  obtains e where "dispatch debug ctx args = Some (ctx, Resume (syscall_err e))"
proof -
  have send: "ipc_send a q c (sc_caller_table ctx) m x = Some ((q, sc_caller_table ctx), Inl StaleHandle)"
    and recv: "ipc_recv a q c (sc_caller_table ctx) = Some ((q, sc_caller_table ctx), Inl StaleHandle)" for a q c m x
  proof -
    obtain e where "cap_lookup (sc_caller_table ctx) c = Inl e"
      using assms(1) by blast
    then show "ipc_send a q c (sc_caller_table ctx) m x = Some ((q, sc_caller_table ctx), Inl StaleHandle)"
      and "ipc_recv a q c (sc_caller_table ctx) = Some ((q, sc_caller_table ctx), Inl StaleHandle)"
      by (simp_all add: ipc_send_def ipc_recv_def validate_ep_cap_def)
  qed
  have same: "ctx\<lparr>sc_queues := sc_queues ctx, sc_caller_table := sc_caller_table ctx\<rparr> = ctx"
    by simp
  have calls: "sys_send ctx ws = Some (ctx, syscall_err (SysIpc StaleHandle))"
    "sys_recv ctx ws = Some (ctx, syscall_err (SysIpc StaleHandle))" for ws
    by (simp_all add: sys_send_def sys_recv_def send recv Let_def)
  have console: "\<exists>e. sys_console_write ctx ws = Some (ctx, syscall_err (SysCap e))" for ws
  proof -
    obtain e where "cap_lookup (sc_caller_table ctx) (decode_required_cap_handle (ws ! 0)) = Inl e"
      using assms(1) by blast
    then show ?thesis
      by (intro exI [of _ e]) (simp add: sys_console_write_def validate_debug_console_cap_def)
  qed
  show thesis
  proof (cases "syscall_decode debug (sa_number args)")
    case None
    then show ?thesis
      using that by (simp add: dispatch_def)
  next
    case (Some n)
    then show ?thesis
      using that calls console [of "sa_args args"] assms(2) by (cases n) (auto simp: dispatch_def)
  qed
qed

lemma board_update_same [simp]: "board_update (board_context translate b t w a r) b = b"
  by (simp add: board_update_def board_context_def)

text \<open>The registers a call keeps: everything but \<open>x0\<close> to \<open>x7\<close>.\<close>

definition same_saved :: "syscall_trap_frame \<Rightarrow> syscall_trap_frame \<Rightarrow> bool" where
  "same_saved f f' \<longleftrightarrow>
     f' = f\<lparr>x0_x1 := x0_x1 f', x2_x3 := x2_x3 f', x4_x5 := x4_x5 f', x6_x7 := x6_x7 f'\<rparr>"

lemma same_saved_frames [simp]:
  "same_saved f (frame_resume r f)" "same_saved f (frame_yielded f)"
  by (simp_all add: same_saved_def frame_resume_def frame_yielded_def)

text \<open>
  C12: An incomplete context fails closed. When no task is running, or the running
  task has no capability table, no user window or no live address space, every
  system call, whatever its number and arguments, returns to the caller an error
  status with a zero payload and changes nothing at all: no table, no endpoint, no
  scheduler state, no byte of memory or console, and no register beyond \<open>x0\<close> to
  \<open>x7\<close>.
\<close>

theorem incomplete_context_fails_closed:
  assumes ok: "board_ok translate b" and none: "running_context b = None"
  shows "\<exists>r. syscall_entry debug translate b frame = Some (b, ReturnToTask (frame_resume r frame)) \<and>
    sr_status r \<noteq> OK_STATUS \<and> sr_payload r = replicate 7 0 \<and> same_saved frame (frame_resume r frame)"
proof -
  let ?ctx = "board_context translate b (bd_failclosed_table b) user_window_empty (bd_bootstrap_as b) False"
  have "\<exists>e. cap_lookup (sc_caller_table ?ctx) h = Inl e" "\<not> sc_has_current_task ?ctx" for h
    using board_okD(6) [OF ok] by (simp_all add: board_context_def)
  then obtain e where "dispatch debug ?ctx (frame_args frame) = Some (?ctx, Resume (syscall_err e))"
    using refusing_table by blast
  then have "syscall_entry debug translate b frame = Some (b, ReturnToTask (frame_resume (syscall_err e) frame))"
    unfolding syscall_entry_eq [OF board_okD(1) [OF ok]] none
    by (simp add: apply_effect_def) (simp add: board_context_def)
  then show ?thesis
    by (intro exI [of _ "syscall_err e"]) (simp add: as_status_nonzero syscall_err_def)
qed

section \<open>The translation of the board\<close>

text \<open>
  The parameter \<open>translate\<close> for the QEMU board: on a well-formed tree of tables the
  walk returns, so reading it as a total function loses nothing.
\<close>

definition qemu_translator :: "qemu_address_space \<Rightarrow> translator" where
  "qemu_translator a m va = (case qemu_translate m a va of Some r \<Rightarrow> r | None \<Rightarrow> Inl NotMapped)"

lemma qemu_translator_exact:
  "tree_wf m (qa_root a) \<Longrightarrow> qemu_translate m a va = Some (qemu_translator a m va)"
  using translate_spec [of m a va] by (simp add: qemu_translator_def)

section \<open>A board for the instances\<close>

text \<open>Task 0 runs with a table, a window and an address space; task 1 is idle.\<close>

definition demo_user_sched :: "nat scheduler" where
  "demo_user_sched = (sched_new demo_cpu)
     \<lparr>sd_task_states := [TaskReady, TaskReady] @ replicate 14 TaskIdle,
      sd_task_handles := [Some (demo_task 0), Some (demo_task 1)] @ replicate 14 None,
      sd_as_handles := [Some demo_space, Some demo_space] @ replicate 14 None,
      sd_cap_tables := Some 0x1000 # replicate 15 None,
      sd_user_windows := Some demo_window # replicate 15 None,
      sd_current := Some (demo_task 0), sd_idle := Some (demo_task 1)\<rparr>"

definition demo_board :: "(nat, unit) board" where
  "demo_board =
     \<lparr>bd_sched = demo_user_sched, bd_ep_arena = demo_arena, bd_queues = ipc_queues_new,
      bd_tables = [0x1000 \<mapsto> demo_table], bd_failclosed_table = cap_table_new,
      bd_as_arena = fst (arena_allocate (arena_new ADDRESS_SPACE_ARENA_CAPACITY) \<lparr>as_inner = ()\<rparr>),
      bd_bootstrap_as = (), bd_active_as = (), bd_memory = demo_memory, bd_console = []\<rparr>"

lemma demo_user_sched_fields:
  "queued demo_user_sched = []" "sd_current demo_user_sched = Some (demo_task 0)"
  "sd_idle demo_user_sched = Some (demo_task 1)"
  "runnable demo_user_sched h \<longleftrightarrow> h = demo_task 0 \<or> h = demo_task 1"
proof -
  show "queued demo_user_sched = []"
    using ring_new [of TASK_ARENA_CAPACITY]
    by (simp add: demo_user_sched_def sched_new_def queued_def TASK_ARENA_CAPACITY_def)
  have "sd_task_handles demo_user_sched ! i = Some h \<Longrightarrow> i < TASK_ARENA_CAPACITY \<Longrightarrow> h = demo_task 0 \<or> h = demo_task 1" for i
    by (auto simp: demo_user_sched_def nth_Cons nth_append TASK_ARENA_CAPACITY_def split: nat.splits if_splits)
  moreover have "runnable demo_user_sched (demo_task 0)" "runnable demo_user_sched (demo_task 1)"
    by (simp_all add: runnable_def bound_task_def demo_user_sched_def demo_task_def th_index_def TASK_ARENA_CAPACITY_def)
  ultimately show "runnable demo_user_sched h \<longleftrightarrow> h = demo_task 0 \<or> h = demo_task 1"
    by (auto simp: runnable_def bound_task_def)
qed (simp_all add: demo_user_sched_def)

lemma demo_user_sched_wf: "sched_wf demo_user_sched"
proof (rule sched_wfI)
  show "\<exists>h. sd_task_handles demo_user_sched ! i = Some h \<and> th_index h = i"
    if "i < TASK_ARENA_CAPACITY" "sd_task_states demo_user_sched ! i = TaskBlocked ep" for i ep
    using that by (auto simp: demo_user_sched_def nth_Cons nth_append TASK_ARENA_CAPACITY_def split: nat.splits if_splits)
qed (use ring_new [of TASK_ARENA_CAPACITY] in
    \<open>simp_all add: demo_user_sched_fields\<close>, simp_all add: demo_user_sched_def sched_new_def sized_def TASK_ARENA_CAPACITY_def)

lemma empty_table_lookup: "\<exists>e. cap_lookup cap_table_new h = Inl e"
  by (auto simp: cap_lookup_def entry_of_def resolve_handle_def cap_table_new_def nth_opt_def)

lemma demo_board_ok: "board_ok (\<lambda>_. demo_translator) demo_board"
proof -
  have "sd_as_handles demo_user_sched ! th_index (demo_task i) \<noteq> None" if "i = 0 \<or> i = 1" for i
    using that by (auto simp: demo_user_sched_def demo_task_def th_index_def)
  moreover have "sd_cap_tables demo_user_sched ! i = Some p \<Longrightarrow> i < TASK_ARENA_CAPACITY \<Longrightarrow> p = 0x1000" for i p
    by (auto simp: demo_user_sched_def nth_Cons TASK_ARENA_CAPACITY_def split: nat.splits)
  ultimately show ?thesis
    using demo_user_sched_wf demo_queues_ok demo_table_wf demo_reachable cap_table_new_wf empty_table_lookup
    by (auto simp: board_ok_def demo_board_def demo_user_sched_fields own_space_def)
qed

definition demo_frame :: syscall_trap_frame where
  "demo_frame =
     \<lparr>x0_x1 = (0, 0), x2_x3 = (0, 0), x4_x5 = (0, 0), x6_x7 = (0, 0), x8_x9 = (1, 0), x10_x11 = (0, 0),
      x12_x13 = (0, 0), x14_x15 = (0, 0), x16_x17 = (0, 0), x18_x19 = (0, 0), x20_x21 = (0, 0),
      x22_x23 = (0, 0), x24_x25 = (0, 0), x26_x27 = (0, 0), x28_x29 = (0, 0), x30_sp_el0 = (0, 0), elr_spsr = (0, 0)\<rparr>"

lemma demo_board_context: "running_context demo_board = Some (0x1000, demo_window, ())"
  by (simp add: running_context_def demo_board_def demo_user_sched_def demo_task_def th_index_def demo_space_def
      get_address_space_def arena_get_def arena_allocate_def arena_new_def first_slot_def
      ADDRESS_SPACE_ARENA_CAPACITY_def nth_opt_def)

section \<open>Calls of a running task\<close>

lemma runnable_bound_space:
  assumes "board_ok translate b" "runnable (bd_sched b) h"
  obtains ash where "sd_as_handles (bd_sched b) ! th_index h = Some ash"
  using board_okD(3) [OF assms] by blast

text \<open>What is left of \<^const>\<open>own_space\<close> to show at a switch.\<close>

lemma activated_own_space:
  assumes "sd_as_handles s ! th_index h = Some ash"
    and "target = Some ash \<or> target = None \<and>
      (\<forall>asp. get_address_space (bd_as_arena b) ash = Some asp \<longrightarrow> bd_active_as b = as_inner asp)"
    and "sd_current s = Some h" and "bd_sched b = s"
  shows "own_space (board_activate target b)"
  using assms
  by (auto simp: own_space_def board_activate_def activate_address_space_handle_def split: option.splits)

lemma board_activate_simps [simp]:
  "bd_sched (board_activate t b) = bd_sched b" "bd_ep_arena (board_activate t b) = bd_ep_arena b"
  "bd_queues (board_activate t b) = bd_queues b" "bd_tables (board_activate t b) = bd_tables b"
  "bd_failclosed_table (board_activate t b) = bd_failclosed_table b"
  "bd_as_arena (board_activate t b) = bd_as_arena b" "bd_memory (board_activate t b) = bd_memory b"
  "bd_console (board_activate t b) = bd_console b"
  by (simp_all add: board_activate_def split: option.split)

lemma board_activate_eq: "board_activate t b = b\<lparr>bd_active_as := bd_active_as (board_activate t b)\<rparr>"
  by (simp add: board_activate_def split: option.split)

text \<open>Moving tasks between the queue and the processor keeps the rest of the invariant.\<close>

lemma board_ok_move:
  assumes ok: "board_ok translate b"
    and wf: "sched_wf ((bd_sched b)\<lparr>sd_ready := q, sd_current := c\<rparr>)"
    and sched: "bd_sched b' = (bd_sched b)\<lparr>sd_ready := q, sd_current := c\<rparr>"
    and rest: "bd_ep_arena b' = bd_ep_arena b" "bd_queues b' = bd_queues b" "bd_tables b' = bd_tables b"
      "bd_failclosed_table b' = bd_failclosed_table b" "bd_memory b' = bd_memory b"
      "bd_as_arena b' = bd_as_arena b"
    and own: "own_space b'"
  shows "board_ok translate b'"
  using ok wf own unfolding board_ok_def sched rest by simp

lemma yield_board:
  assumes ok: "board_ok translate b" and c: "sd_current (bd_sched b) = Some c"
  shows "\<exists>b' e. apply_effect b frame Reschedule = Some (b', e) \<and> board_ok translate b' \<and>
    (\<exists>s active. b' = b\<lparr>bd_sched := s, bd_active_as := active\<rparr>) \<and>
    (case e of
       ReturnToTask f \<Rightarrow> f = frame_yielded frame \<and> sd_current (bd_sched b') = Some c \<and> bd_active_as b' = bd_active_as b
     | SwitchedAway sw f \<Rightarrow>
         f = frame_yielded frame \<and> sw_save sw = Some (th_index c) \<and> sd_current (bd_sched b') \<noteq> Some c
     | TaskGone sw \<Rightarrow> False)"
proof -
  let ?s = "bd_sched b"
  note wf = board_okD(1) [OF ok]
  have run: "runnable ?s c" "c \<notin> set (queued ?s)"
    using sched_wfD(5) [OF wf c] by auto
  obtain q where q: "ring_wf TASK_ARENA_CAPACITY q"
    "case queued ?s of
       [] \<Rightarrow> ring_items q = [] \<and> yield_now ?s = Some (?s\<lparr>sd_ready := q\<rparr>, Inr None)
     | h # hs \<Rightarrow> ring_items q = hs @ (if sd_idle ?s = Some c then [] else [c]) \<and>
         yield_now ?s = Some (?s\<lparr>sd_ready := q, sd_current := Some h\<rparr>,
           Inr (Some \<lparr>sw_save = Some (th_index c), sw_restore = th_index h,
             sw_activate = address_space_activation_target (sd_as_handles ?s ! th_index c)
                             (sd_as_handles ?s ! th_index h)\<rparr>))"
    using yield_now_spec [OF wf c] by blast
  obtain q' c' r where y: "yield_now ?s = Some (?s\<lparr>sd_ready := q', sd_current := c'\<rparr>, r)"
    and wf': "sched_wf (?s\<lparr>sd_ready := q', sd_current := c'\<rparr>)"
    using yield_now_ok [OF wf] by blast
  show ?thesis
  proof (cases "queued ?s")
    case Nil
    let ?b = "b\<lparr>bd_sched := ?s\<lparr>sd_ready := q', sd_current := c'\<rparr>\<rparr>"
    have r: "r = Inr None" and same: "?s\<lparr>sd_ready := q', sd_current := c'\<rparr> = ?s\<lparr>sd_ready := q\<rparr>"
      using Nil q(2) y by simp_all
    have cur: "c' = Some c"
      using arg_cong [OF same, of sd_current] c by simp
    have "board_ok translate ?b"
      by (rule board_ok_move [OF ok wf']) (use board_okD(9) [OF ok] cur c in \<open>auto simp: own_space_def\<close>)
    moreover have "apply_effect b frame Reschedule = Some (?b, ReturnToTask (frame_yielded frame))"
      using y r by (simp add: apply_effect_def)
    ultimately show ?thesis
      using cur by (intro exI [of _ ?b] exI [of _ "ReturnToTask (frame_yielded frame)"])
        (auto intro!: exI [of _ "bd_active_as b"])
  next
    case (Cons h hs)
    obtain ash_c ash_h where as: "sd_as_handles ?s ! th_index c = Some ash_c" "sd_as_handles ?s ! th_index h = Some ash_h"
      using runnable_bound_space [OF ok run(1)] runnable_bound_space [OF ok, of h] sched_wfD(4) [OF wf, of h] Cons
      by (metis list.set_intros(1))
    let ?t = "address_space_activation_target (Some ash_c) (Some ash_h)"
    let ?sw = "\<lparr>sw_save = Some (th_index c), sw_restore = th_index h, sw_activate = ?t\<rparr>"
    let ?b = "b\<lparr>bd_sched := ?s\<lparr>sd_ready := q', sd_current := c'\<rparr>\<rparr>"
    have r: "r = Inr (Some ?sw)" and same: "?s\<lparr>sd_ready := q', sd_current := c'\<rparr> = ?s\<lparr>sd_ready := q, sd_current := Some h\<rparr>"
      using Cons q(2) y as by simp_all
    have cur: "c' = Some h"
      using arg_cong [OF same, of sd_current] by simp
    have "?t = Some ash_h \<or> ?t = None \<and>
        (\<forall>asp. get_address_space (bd_as_arena ?b) ash_h = Some asp \<longrightarrow> bd_active_as ?b = as_inner asp)"
      using board_okD(9) [OF ok] c as by (auto simp: own_space_def address_space_activation_target_def)
    then have own: "own_space (board_activate ?t ?b)"
      by (rule activated_own_space [where s = "bd_sched ?b" and h = h and ash = ash_h, rotated]) (use as cur in simp_all)
    have "board_ok translate (board_activate ?t ?b)"
      by (rule board_ok_move [OF ok wf' _ _ _ _ _ _ _ own]) simp_all
    moreover have "apply_effect b frame Reschedule =
        Some (board_activate ?t ?b, SwitchedAway ?sw (frame_yielded frame))"
      using y r by (simp add: apply_effect_def)
    moreover have "\<exists>s active. board_activate ?t ?b = b\<lparr>bd_sched := s, bd_active_as := active\<rparr>"
      by (intro exI [of _ "bd_sched ?b"] exI [of _ "bd_active_as (board_activate ?t ?b)"])
        (subst board_activate_eq, simp)
    moreover have "h \<noteq> c"
      using run(2) Cons by auto
    ultimately show ?thesis
      using cur
      by (intro exI [of _ "board_activate ?t ?b"] exI [of _ "SwitchedAway ?sw (frame_yielded frame)"]) simp
  qed
qed

lemma exit_board:
  assumes ok: "board_ok translate b" and c: "sd_current (bd_sched b) = Some c"
  shows "\<exists>b' sw. apply_effect b frame (Terminate code) = Some (b', TaskGone sw) \<and> board_ok translate b' \<and>
    (\<exists>s active. b' = b\<lparr>bd_sched := s, bd_active_as := active, bd_console := bd_console b @ exit_banner\<rparr>) \<and>
    (sd_idle (bd_sched b) \<noteq> Some c \<longrightarrow>
       sd_current (bd_sched b') \<noteq> Some c \<and> c \<notin> set (queued (bd_sched b')))"
proof -
  let ?s = "bd_sched b"
  note wf = board_okD(1) [OF ok]
  have gone: "c \<notin> set (queued ?s)"
    using sched_wfD(5) [OF wf c] by auto
  obtain h where nx: "next_task ?s = Some h"
    using board_okD(2) [OF ok] by (cases "queued ?s") (auto simp: next_task_def)
  obtain q where exit: "task_exit_current ?s = Some (?s\<lparr>sd_ready := q, sd_current := Some h\<rparr>,
      \<lparr>sw_save = None, sw_restore = th_index h, sw_activate = sd_as_handles ?s ! th_index h\<rparr>)"
    and items: "ring_items q = tl (queued ?s)" and wf': "sched_wf (?s\<lparr>sd_ready := q, sd_current := Some h\<rparr>)"
    using dispatch_tail_spec [OF wf nx] by blast
  have "runnable ?s h"
    using sched_wfD(5) [OF wf', of h] by simp
  then obtain ash where ash: "sd_as_handles ?s ! th_index h = Some ash"
    using runnable_bound_space [OF ok] by blast
  let ?b = "b\<lparr>bd_console := bd_console b @ exit_banner, bd_sched := ?s\<lparr>sd_ready := q, sd_current := Some h\<rparr>\<rparr>"
  let ?b' = "board_activate (Some ash) ?b"
  have own: "own_space ?b'"
    by (rule activated_own_space [where s = "bd_sched ?b" and h = h and ash = ash]) (use ash in simp_all)
  have "board_ok translate ?b'"
    by (rule board_ok_move [OF ok wf' _ _ _ _ _ _ _ own]) simp_all
  moreover have "apply_effect b frame (Terminate code) =
      Some (?b', TaskGone \<lparr>sw_save = None, sw_restore = th_index h, sw_activate = Some ash\<rparr>)"
    using exit ash by (simp add: apply_effect_def)
  moreover have "\<exists>s active. ?b' = b\<lparr>bd_sched := s, bd_active_as := active, bd_console := bd_console b @ exit_banner\<rparr>"
    by (intro exI [of _ "bd_sched ?b"] exI [of _ "bd_active_as ?b'"]) (subst board_activate_eq, simp)
  moreover have "sd_idle ?s \<noteq> Some c \<Longrightarrow> h \<noteq> c \<and> c \<notin> set (tl (queued ?s))"
    using gone nx by (cases "queued ?s") (auto simp: next_task_def)
  ultimately show ?thesis
    using items
    by (intro exI [of _ ?b'] exI [of _ "\<lparr>sw_save = None, sw_restore = th_index h, sw_activate = Some ash\<rparr>"]) simp
qed

text \<open>
  C6: A system call stays inside its caller. For a running task whose bindings are
  complete every call returns and keeps the kernel well formed; the address
  space the call translates with is the active one; the only capability table it
  can change is the caller's, and it changes no byte of memory, no address
  space and no endpoint object. A call that comes back preserves every register beyond
  \<open>x0\<close> to \<open>x7\<close>, and an error status means that tables, console and endpoint states
  are unchanged. A yield saves the caller's slot, hands the processor to another
  task in that task's own address space and later comes back with success. An exit
  leaves the caller neither running nor queued.
\<close>

theorem running_call_confined:
  assumes ok: "board_ok translate b" and run: "running_context b = Some (p, w, a)"
    and cur: "sd_current (bd_sched b) = Some c"
  shows "\<exists>b' e. syscall_entry debug translate b frame = Some (b', e) \<and> board_ok translate b' \<and>
    bd_active_as b = a \<and> bd_memory b' = bd_memory b \<and> bd_as_arena b' = bd_as_arena b \<and>
    bd_ep_arena b' = bd_ep_arena b \<and> bd_failclosed_table b' = bd_failclosed_table b \<and>
    (\<forall>p'. p' \<noteq> p \<longrightarrow> bd_tables b' p' = bd_tables b p') \<and>
    (case e of
       ReturnToTask f \<Rightarrow>
         same_saved frame f \<and> sd_current (bd_sched b') = Some c \<and> bd_active_as b' = a \<and>
         (fst (x0_x1 f) \<noteq> OK_STATUS \<longrightarrow>
            bd_tables b' = bd_tables b \<and> bd_console b' = bd_console b \<and>
            same_states (bd_ep_arena b) (bd_queues b) (bd_queues b'))
     | SwitchedAway sw f \<Rightarrow>
         same_saved frame f \<and> fst (x0_x1 f) = OK_STATUS \<and> sw_save sw = Some (th_index c) \<and>
         sd_current (bd_sched b') \<noteq> Some c \<and> bd_tables b' = bd_tables b \<and> bd_console b' = bd_console b
     | TaskGone sw \<Rightarrow>
         bd_tables b' = bd_tables b \<and> bd_console b' = bd_console b @ exit_banner \<and>
         (sd_idle (bd_sched b) \<noteq> Some c \<longrightarrow>
            sd_current (bd_sched b') \<noteq> Some c \<and> c \<notin> set (queued (bd_sched b'))))"
proof -
  note D = board_okD [OF ok]
  obtain ash asp where bind: "sd_cap_tables (bd_sched b) ! th_index c = Some p"
    "sd_as_handles (bd_sched b) ! th_index c = Some ash" "get_address_space (bd_as_arena b) ash = Some asp"
    "as_inner asp = a"
    using run cur by (auto simp: running_context_def Let_def split: bind_splits)
  have active: "bd_active_as b = a"
    using D(9) cur bind unfolding own_space_def by blast
  obtain t where t: "bd_tables b p = Some t" "cap_wf t"
    using D(7) [OF current_bindings(4) [OF D(1) cur] bind(1)] by blast
  let ?ctx = "board_context translate b t w a True"
  have "context_ok ?ctx"
    using t(2) D(4) D(8) [OF bind(3)] bind(4) by (simp add: context_ok_def board_context_def)
  then obtain ctx' eff where d: "dispatch debug ?ctx (frame_args frame) = Some (ctx', eff)"
    and eff: "case eff of
       Resume r \<Rightarrow> call_ok ?ctx ctx' r
     | Reschedule \<Rightarrow> sc_has_current_task ?ctx \<and> ctx' = ?ctx
     | Terminate code \<Rightarrow> sc_has_current_task ?ctx \<and> ctx' = ?ctx \<and> code = sa_args (frame_args frame) ! 0"
    using dispatch_ok by blast
  let ?b = "(board_update ctx' b)\<lparr>bd_tables := (bd_tables b)(p \<mapsto> sc_caller_table ctx')\<rparr>"
  have entry: "syscall_entry debug translate b frame = apply_effect ?b frame eff"
    unfolding syscall_entry_eq [OF D(1)] run using t(1) d by simp
  have unchanged: "?b = b" if "ctx' = ?ctx"
  proof -
    have "board_update ctx' b = b" "sc_caller_table ctx' = t"
      using that by (simp_all only: board_update_same) (simp add: board_context_def)
    then show ?thesis
      using t(1) by (simp add: fun_upd_idem)
  qed
  show ?thesis
  proof (cases eff)
    case (Resume r)
    have call: "call_ok ?ctx ctx' r"
      using eff Resume by simp
    have frame: "sc_ep_arena ctx' = bd_ep_arena b" "sc_memory ctx' = bd_memory b"
      using call by (simp_all add: call_ok_def same_frame_def board_context_def)
    have "cap_wf (sc_caller_table ctx')" "queues_ok (bd_ep_arena b) (sc_queues ctx')"
      using call frame by (simp_all add: call_ok_def context_ok_def)
    then have "board_ok translate ?b"
      using ok frame unfolding board_ok_def own_space_def by (simp add: board_update_def)
    moreover have "sr_status r \<noteq> OK_STATUS \<Longrightarrow>
        ?b = b\<lparr>bd_queues := sc_queues ctx'\<rparr> \<and> same_states (bd_ep_arena b) (bd_queues b) (sc_queues ctx')"
      using call t(1) frame
      by (simp add: call_ok_def untouched_def board_context_def board_update_def fun_upd_idem)
    moreover have "syscall_entry debug translate b frame = Some (?b, ReturnToTask (frame_resume r frame))"
      by (simp add: entry Resume apply_effect_def)
    moreover have "bd_sched ?b = bd_sched b" "bd_active_as ?b = a" "bd_memory ?b = bd_memory b"
      "bd_as_arena ?b = bd_as_arena b" "bd_ep_arena ?b = bd_ep_arena b"
      "bd_failclosed_table ?b = bd_failclosed_table b" "\<And>p'. p' \<noteq> p \<Longrightarrow> bd_tables ?b p' = bd_tables b p'"
      using frame active by (simp_all add: board_update_def)
    moreover have "fst (x0_x1 (frame_resume r frame)) = sr_status r"
      by (simp add: frame_resume_def)
    ultimately show ?thesis
      using active cur
      by (intro exI [of _ ?b] exI [of _ "ReturnToTask (frame_resume r frame)"]) auto
  next
    case Reschedule
    then have "?b = b"
      using eff unchanged by simp
    then have entry': "syscall_entry debug translate b frame = apply_effect b frame Reschedule"
      using entry Reschedule by simp
    obtain b' e where y: "apply_effect b frame Reschedule = Some (b', e)" "board_ok translate b'"
      "\<exists>s active. b' = b\<lparr>bd_sched := s, bd_active_as := active\<rparr>"
      "case e of
         ReturnToTask f \<Rightarrow> f = frame_yielded frame \<and> sd_current (bd_sched b') = Some c \<and> bd_active_as b' = bd_active_as b
       | SwitchedAway sw f \<Rightarrow>
           f = frame_yielded frame \<and> sw_save sw = Some (th_index c) \<and> sd_current (bd_sched b') \<noteq> Some c
       | TaskGone sw \<Rightarrow> False"
      using yield_board [OF ok cur] by blast
    have "fst (x0_x1 (frame_yielded frame)) = OK_STATUS"
      by (simp add: frame_yielded_def)
    then show ?thesis
      using y active entry' by (intro exI [of _ b'] exI [of _ e]) (auto split: entry_exit.splits)
  next
    case (Terminate code)
    then have "?b = b"
      using eff unchanged by simp
    then have entry': "syscall_entry debug translate b frame = apply_effect b frame (Terminate code)"
      using entry Terminate by simp
    obtain b' sw where y: "apply_effect b frame (Terminate code) = Some (b', TaskGone sw)" "board_ok translate b'"
      "\<exists>s active. b' = b\<lparr>bd_sched := s, bd_active_as := active, bd_console := bd_console b @ exit_banner\<rparr>"
      "sd_idle (bd_sched b) \<noteq> Some c \<longrightarrow>
         sd_current (bd_sched b') \<noteq> Some c \<and> c \<notin> set (queued (bd_sched b'))"
      using exit_board [OF ok cur] by blast
    then show ?thesis
      using active entry' by (intro exI [of _ b'] exI [of _ "TaskGone sw"]) auto
  qed
qed

theorem running_call_confined_witness:
  "\<exists>b' e. syscall_entry True (\<lambda>_. demo_translator) demo_board demo_frame = Some (b', e) \<and>
    board_ok (\<lambda>_. demo_translator) b' \<and> bd_memory b' = demo_memory"
  using running_call_confined [OF demo_board_ok demo_board_context, of "demo_task 0"]
  by (fastforce simp: demo_board_def demo_user_sched_fields)

text \<open>The same board with the address space destroyed: the task's handle is stale.\<close>

definition stale_board :: "(nat, unit) board" where
  "stale_board = demo_board\<lparr>bd_as_arena := arena_new ADDRESS_SPACE_ARENA_CAPACITY\<rparr>"

theorem incomplete_context_fails_closed_witness:
  "\<exists>r. syscall_entry True (\<lambda>_. demo_translator) stale_board demo_frame =
      Some (stale_board, ReturnToTask (frame_resume r demo_frame)) \<and> sr_status r \<noteq> OK_STATUS"
proof -
  have none: "get_address_space (arena_new ADDRESS_SPACE_ARENA_CAPACITY :: unit address_space_arena) h = None" for h
    by (auto simp: get_address_space_def arena_get_def arena_new_def nth_opt_def)
  have "board_ok (\<lambda>_. demo_translator) stale_board"
    using demo_board_ok by (simp add: stale_board_def board_ok_def own_space_def none)
  moreover have "running_context stale_board = None"
    by (simp add: running_context_def stale_board_def none Let_def split: option.split bind_split)
  ultimately show ?thesis
    using incomplete_context_fails_closed by blast
qed

end
