(* ===== verification/TaskLoader.thy ===== *)
theory TaskLoader
  imports AddressSpace Pmm UserAccess
begin

text \<open>
  The task loader (\<open>kernel/src/obj/task_loader.rs\<close>): it checks a request to load
  a raw image, creates an address space, copies the image into fresh frames and
  maps them, maps a stack, and undoes what it did when a step fails; a second
  function turns a loaded image into a task capability. Loops over pages are
  recursions over the page indices, in the source's order.

  The image is a pointer and a length: its bytes are read from memory when they
  are copied, so that the aliasing the loader guards against is expressible.
\<close>

section \<open>Requests and errors\<close>

definition USERSPACE_VA_LIMIT :: nat where
  "USERSPACE_VA_LIMIT = 2 ^ 48"

record loaded_image =
  li_as_cap :: cap_handle
  li_entry_va :: nat
  li_stack_top_va :: nat
  li_image_bytes :: nat
  li_stack_bytes :: nat

datatype load_error =
    InvalidImage
  | InvalidStackSize
  | MisalignedImageBaseVa nat
  | InvalidImageBaseVa nat nat
  | InvalidParentCap cap_error
  | FrameBudgetExceeded nat nat
  | AddressSpaceCreationFailed address_space_error
  | ImageOverlapsAllocatableMemory
  | LoadOutOfFrames
  | MapFailed address_space_error

definition intermediate_frame_count :: "nat \<Rightarrow> nat \<Rightarrow> nat \<Rightarrow> nat" where
  "intermediate_frame_count image_base_va image_pages stack_pages =
     (let total_pages = saturating_add image_pages stack_pages
      in if total_pages = 0 then 0
         else
           let span_bytes = saturating_mul total_pages PAGE_SIZE;
               last_byte = saturating_add image_base_va span_bytes - 1;
               l3_count = saturating_add (drop_bit 21 last_byte - drop_bit 21 image_base_va) 1;
               l2_count = saturating_add (drop_bit 30 last_byte - drop_bit 30 image_base_va) 1;
               l1_count = saturating_add (drop_bit 39 last_byte - drop_bit 39 image_base_va) 1
           in saturating_add (saturating_add l1_count l2_count) l3_count)"

text \<open>The address of page \<open>i\<close> of a region.\<close>

definition page_va :: "nat \<Rightarrow> nat \<Rightarrow> nat" where
  "page_va base i = saturating_add base (saturating_mul i PAGE_SIZE)"

section \<open>Undoing\<close>

type_synonym 'a loader_vm = "('a, pmm) vm"

fun unmap_pages ::
    "('a, pmm) mmu \<Rightarrow> cap_table \<Rightarrow> cap_handle \<Rightarrow> nat \<Rightarrow> nat list \<Rightarrow> 'a loader_vm \<Rightarrow> 'a loader_vm option" where
  "unmap_pages mmu t c base [] v = Some v"
| "unmap_pages mmu t c base (i # is) v = do {
     (v', r) \<leftarrow> cap_unmap mmu t v c (page_va base i);
     v'' \<leftarrow> (case r of
               Inl _ \<Rightarrow> Some v'
             | Inr frame \<Rightarrow> do {
                 (p, _) \<leftarrow> pmm_free_frame (vm_frames v') frame;
                 Some (v'\<lparr>vm_frames := p\<rparr>)
               });
     unmap_pages mmu t c base is v''
   }"

definition rollback ::
    "('a, pmm) mmu \<Rightarrow> cap_table \<Rightarrow> 'a loader_vm \<Rightarrow> cap_handle \<Rightarrow> nat \<Rightarrow> nat \<Rightarrow> nat \<Rightarrow> nat \<Rightarrow>
       (cap_table \<times> 'a loader_vm) option" where
  "rollback mmu t v c image_base stack_base image_mapped stack_mapped = do {
     v1 \<leftarrow> unmap_pages mmu t c stack_base (rev [0..<stack_mapped]) v;
     v2 \<leftarrow> unmap_pages mmu t c image_base (rev [0..<image_mapped]) v1;
     (t', _) \<leftarrow> cap_drop t c;
     Some (t', v2)
   }"

section \<open>The page loops\<close>

definition flags_user_execute :: mapping_flags where
  "flags_user_execute = mf_union mf_USER mf_EXECUTE"

definition flags_user_write :: mapping_flags where
  "flags_user_write = mf_union mf_USER mf_WRITE"

text \<open>The bytes of page \<open>i\<close> of the image, as they are in memory now.\<close>

definition image_chunk :: "memory \<Rightarrow> nat \<Rightarrow> nat \<Rightarrow> nat \<Rightarrow> 8 word list" where
  "image_chunk m ptr n i = read_run m (ptr + i * PAGE_SIZE) (min PAGE_SIZE (n - i * PAGE_SIZE))"

fun image_pages_loop ::
    "('a, pmm) mmu \<Rightarrow> cap_table \<Rightarrow> cap_handle \<Rightarrow> nat \<times> nat \<Rightarrow> nat \<times> nat \<Rightarrow> nat list \<Rightarrow> nat \<Rightarrow> 'a loader_vm \<Rightarrow>
       (cap_table \<times> 'a loader_vm, load_error, nat) outcome" where
  "image_pages_loop mmu t c bases img [] mapped v = Some ((t, v), Inr mapped)"
| "image_pages_loop mmu t c bases img (i # is) mapped v = do {
     ((p, m), f) \<leftarrow> pmm_alloc_frame (vm_frames v) (vm_memory v);
     let v1 = v\<lparr>vm_frames := p, vm_memory := m\<rparr>;
     case f of
       None \<Rightarrow> do {
         s \<leftarrow> rollback mmu t v1 c (fst bases) (snd bases) mapped 0;
         Some (s, Inl LoadOutOfFrames)
       }
     | Some frame \<Rightarrow> do {
         dst \<leftarrow> phys_frame_kernel_ptr frame;
         let v2 = v1\<lparr>vm_memory := copy_bytes m dst (image_chunk m (fst img) (snd img) i)\<rparr>;
         (v3, r) \<leftarrow> cap_map mmu pmm_alloc_frame t v2 c (page_va (fst bases) i) frame flags_user_execute;
         case r of
           Inl e \<Rightarrow> do {
             (p', _) \<leftarrow> pmm_free_frame (vm_frames v3) frame;
             s \<leftarrow> rollback mmu t (v3\<lparr>vm_frames := p'\<rparr>) c (fst bases) (snd bases) mapped 0;
             Some (s, Inl (MapFailed e))
           }
         | Inr _ \<Rightarrow> image_pages_loop mmu t c bases img is (saturating_add mapped 1) v3
       }
   }"

fun stack_pages_loop ::
    "('a, pmm) mmu \<Rightarrow> cap_table \<Rightarrow> cap_handle \<Rightarrow> nat \<times> nat \<Rightarrow> nat \<Rightarrow> nat list \<Rightarrow> nat \<Rightarrow> 'a loader_vm \<Rightarrow>
       (cap_table \<times> 'a loader_vm, load_error, nat) outcome" where
  "stack_pages_loop mmu t c bases image_mapped [] mapped v = Some ((t, v), Inr mapped)"
| "stack_pages_loop mmu t c bases image_mapped (i # is) mapped v = do {
     ((p, m), f) \<leftarrow> pmm_alloc_frame (vm_frames v) (vm_memory v);
     let v1 = v\<lparr>vm_frames := p, vm_memory := m\<rparr>;
     case f of
       None \<Rightarrow> do {
         s \<leftarrow> rollback mmu t v1 c (fst bases) (snd bases) image_mapped mapped;
         Some (s, Inl LoadOutOfFrames)
       }
     | Some frame \<Rightarrow> do {
         (v3, r) \<leftarrow> cap_map mmu pmm_alloc_frame t v1 c (page_va (snd bases) i) frame flags_user_write;
         case r of
           Inl e \<Rightarrow> do {
             (p', _) \<leftarrow> pmm_free_frame (vm_frames v3) frame;
             s \<leftarrow> rollback mmu t (v3\<lparr>vm_frames := p'\<rparr>) c (fst bases) (snd bases) image_mapped mapped;
             Some (s, Inl (MapFailed e))
           }
         | Inr _ \<Rightarrow> stack_pages_loop mmu t c bases image_mapped is (saturating_add mapped 1) v3
       }
   }"

section \<open>Loading\<close>

text \<open>\<open>img\<close> is the image's pointer and length.\<close>

definition load_image ::
    "('a, pmm) mmu \<Rightarrow> nat \<times> nat \<Rightarrow> cap_table \<Rightarrow> 'a loader_vm \<Rightarrow> cap_handle \<Rightarrow> cap_rights \<Rightarrow> nat \<Rightarrow> nat \<Rightarrow>
       (cap_table \<times> 'a loader_vm, load_error, loaded_image) outcome" where
  "load_image mmu img t v parent new_rights image_base_va stack_size_pages =
     (if snd img = 0 then Some ((t, v), Inl InvalidImage)
      else if stack_size_pages = 0 then Some ((t, v), Inl InvalidStackSize)
      else if image_base_va mod PAGE_SIZE \<noteq> 0 then Some ((t, v), Inl (MisalignedImageBaseVa image_base_va))
      else
        (case cap_lookup t parent of
           Inl e \<Rightarrow> Some ((t, v), Inl (InvalidParentCap e))
         | Inr parent_cap \<Rightarrow>
             if cap_kind parent_cap \<noteq> KindAddressSpace then Some ((t, v), Inl (InvalidParentCap WrongKind))
             else
               let image_pages = div_ceil (snd img) PAGE_SIZE;
                   stack_pages = stack_size_pages;
                   total_va_bytes = saturating_mul (saturating_add image_pages stack_pages) PAGE_SIZE;
                   span_end = saturating_add image_base_va total_va_bytes
               in if span_end > USERSPACE_VA_LIMIT
                  then Some ((t, v), Inl (InvalidImageBaseVa image_base_va span_end))
                  else
                    let needed = saturating_add (saturating_add (saturating_add 1 image_pages) stack_pages)
                                   (intermediate_frame_count image_base_va image_pages stack_pages);
                        available = st_free_frames (pmm_get_stats (vm_frames v))
                    in if needed > available then Some ((t, v), Inl (FrameBudgetExceeded needed available))
                       else do {
                         image_pa_start \<leftarrow> kernel_va_to_phys (fst img);
                         let image_pa_end = saturating_add image_pa_start (snd img);
                         if could_yield_pa_overlapping (vm_frames v) image_pa_start image_pa_end
                         then Some ((t, v), Inl ImageOverlapsAllocatableMemory)
                         else do {
                           ((t1, v1), r) \<leftarrow> cap_create_address_space mmu pmm_alloc_frame t v parent new_rights;
                           case r of
                             Inl e \<Rightarrow> Some ((t1, v1), Inl (AddressSpaceCreationFailed e))
                           | Inr c \<Rightarrow>
                               (let stack_base_va = saturating_add image_base_va (saturating_mul image_pages PAGE_SIZE);
                                    bases = (image_base_va, stack_base_va)
                                in try_bind (image_pages_loop mmu t1 c bases img [0..<image_pages] 0 v1) (\<lambda>(t2, v2) image_mapped.
                                   try_bind (stack_pages_loop mmu t2 c bases image_mapped [0..<stack_pages] 0 v2) (\<lambda>s _.
                                   Some (s, Inr
                                     \<lparr>li_as_cap = c, li_entry_va = image_base_va,
                                      li_stack_top_va = saturating_add stack_base_va (saturating_mul stack_pages PAGE_SIZE),
                                      li_image_bytes = snd img, li_stack_bytes = saturating_mul stack_pages PAGE_SIZE\<rparr>))))
                         }
                       }))"

section \<open>From an image to a task\<close>

datatype task_create_error =
    InvalidAddressSpaceCap cap_error | TaskArenaFull | CapTableExhausted cap_error

definition task_create_from_image ::
    "loaded_image \<Rightarrow> cap_table \<Rightarrow> task_arena \<Rightarrow> 32 word \<Rightarrow> cap_rights \<Rightarrow>
       (cap_table \<times> task_arena, task_create_error, cap_handle) outcome" where
  "task_create_from_image loaded t tasks tid task_rights =
     (case cap_lookup t (li_as_cap loaded) of
        Inl e \<Rightarrow> Some ((t, tasks), Inl (InvalidAddressSpaceCap e))
      | Inr c \<Rightarrow>
          (case cap_object c of
             CapAddressSpace as_handle \<Rightarrow>
               (let (tasks', r) = create_task tasks \<lparr>task_id = tid, task_address_space_handle = as_handle\<rparr>
                in case r of
                     Inl _ \<Rightarrow> Some ((t, tasks'), Inl TaskArenaFull)
                   | Inr task_handle \<Rightarrow> do {
                       (t', s) \<leftarrow> insert_root t \<lparr>cap_rights = task_rights, cap_object = CapTask task_handle\<rparr>;
                       case s of
                         Inr task_cap \<Rightarrow> Some ((t', tasks'), Inr task_cap)
                       | Inl e \<Rightarrow> Some ((t', fst (destroy_task tasks' task_handle)), Inl (CapTableExhausted e))
                     })
           | _ \<Rightarrow> Some ((t, tasks), Inl (InvalidAddressSpaceCap WrongKind))))"

end
