(* ===== verification/TaskLoader_Props.thy ===== *)
theory TaskLoader_Props
  imports TaskLoader AddressSpace_Claims
begin

text \<open>
  Lemmas on the task loader: the frame budget covers every table the mapping of
  a run of pages can need, writing a fresh frame disturbs no address space, and
  the two page loops keep one invariant, from which the loader's properties follow.
\<close>

section \<open>The frame budget\<close>

text \<open>The tables that mapping the first \<open>n\<close> pages from \<open>base\<close> passes through, the root apart.\<close>

definition run_paths :: "nat \<Rightarrow> nat \<Rightarrow> nat list set" where
  "run_paths base n = (\<Union>i<n. path_prefixes (base + i * PAGE_SIZE))"

lemma run_paths_Suc: "run_paths base (Suc n) = run_paths base n \<union> path_prefixes (base + n * PAGE_SIZE)"
  by (auto simp: run_paths_def less_Suc_eq)

lemma run_paths_mono: "m \<le> n \<Longrightarrow> run_paths base m \<subseteq> run_paths base n"
  unfolding run_paths_def by (intro UN_mono) auto

lemma run_paths_finite [simp]: "finite (run_paths base n)"
  by (simp add: run_paths_def path_prefixes_card)

text \<open>Each of the three tables on the way to a page is determined by the top bits of its address.\<close>

lemma path_prefixes_digits:
  "path_prefixes va = {[va div 2 ^ 39 mod 512], [va div 2 ^ 30 div 512 mod 512, va div 2 ^ 30 mod 512],
     [va div 2 ^ 21 div 512 div 512 mod 512, va div 2 ^ 21 div 512 mod 512, va div 2 ^ 21 mod 512]}"
  by (simp add: path_prefixes_def table_path_def va_index_eq shifts flip: div_mult2_eq)

lemma card_digits:
  assumes "\<And>va. va \<in> S \<Longrightarrow> base \<le> va \<and> va \<le> hi"
  shows "card ((\<lambda>va. g (va div d)) ` S) \<le> hi div d - base div d + (1 :: nat)"
proof -
  have "(\<lambda>va. g (va div d)) ` S \<subseteq> g ` {base div d..hi div d}" using assms by (auto simp: div_le_mono)
  then have "card ((\<lambda>va. g (va div d)) ` S) \<le> card (g ` {base div d..hi div d})" by (intro card_mono) simp_all
  also have "\<dots> \<le> card {base div d..hi div d}" by (rule card_image_le) simp
  finally show ?thesis by simp
qed

lemma run_paths_card:
  assumes "0 < n"
  shows "card (run_paths base n) \<le>
    ((base + n * PAGE_SIZE - 1) div 2 ^ 39 - base div 2 ^ 39 + 1) +
    ((base + n * PAGE_SIZE - 1) div 2 ^ 30 - base div 2 ^ 30 + 1) +
    ((base + n * PAGE_SIZE - 1) div 2 ^ 21 - base div 2 ^ 21 + 1)"
proof -
  define S where "S = (\<lambda>i. base + i * PAGE_SIZE) ` {..<n}"
  let ?hi = "base + n * PAGE_SIZE - 1"
  define A where "A = (\<lambda>va. (\<lambda>q. [q mod 512]) (va div 2 ^ 39)) ` S"
  define B where "B = (\<lambda>va. (\<lambda>q. [q div 512 mod 512, q mod 512]) (va div 2 ^ 30)) ` S"
  define C where "C = (\<lambda>va. (\<lambda>q. [q div 512 div 512 mod 512, q div 512 mod 512, q mod 512]) (va div 2 ^ 21)) ` S"
  have S: "base \<le> va \<and> va \<le> ?hi" if va: "va \<in> S" for va
  proof -
    obtain i where i: "i < n" "va = base + i * PAGE_SIZE" using va unfolding S_def by blast
    then have "Suc i * PAGE_SIZE \<le> n * PAGE_SIZE" by (intro mult_right_mono) auto
    then show ?thesis using i by (simp add: PAGE_SIZE_def)
  qed
  have "run_paths base n = A \<union> B \<union> C"
    unfolding run_paths_def path_prefixes_digits A_def B_def C_def S_def by auto
  then have "card (run_paths base n) \<le> card A + card B + card C"
    using card_Un_le [of "A \<union> B" C] card_Un_le [of A B] by simp
  moreover have "card A \<le> ?hi div 2 ^ 39 - base div 2 ^ 39 + 1" unfolding A_def by (rule card_digits [OF S])
  moreover have "card B \<le> ?hi div 2 ^ 30 - base div 2 ^ 30 + 1" unfolding B_def by (rule card_digits [OF S])
  moreover have "card C \<le> ?hi div 2 ^ 21 - base div 2 ^ 21 + 1" unfolding C_def by (rule card_digits [OF S])
  ultimately show ?thesis by linarith
qed

lemma no_saturation: "a \<le> 2 ^ 63 \<Longrightarrow> b \<le> 2 ^ 63 - 1 \<Longrightarrow> saturating_add a b = a + b"
  by (simp add: saturating_add_def usize_max_def)

text \<open>Below the user limit nothing saturates, and the budget is the sum of the three spans.\<close>

lemma intermediate_covers:
  assumes "0 < i + s" "base + (i + s) * PAGE_SIZE \<le> 2 ^ 48"
  shows "card (run_paths base (i + s)) \<le> intermediate_frame_count base i s" "intermediate_frame_count base i s \<le> 2 ^ 50"
proof -
  let ?hi = "base + (i + s) * PAGE_SIZE - 1"
  have n: "i + s \<le> 2 ^ 48" "(i + s) * PAGE_SIZE \<le> 2 ^ 48" using assms by (simp_all add: PAGE_SIZE_def)
  have add: "saturating_add i s = i + s" using n by (intro no_saturation) simp_all
  have mul: "saturating_mul (i + s) PAGE_SIZE = (i + s) * PAGE_SIZE"
    using n by (simp add: saturating_mul_def usize_max_def)
  have hi: "saturating_add base ((i + s) * PAGE_SIZE) - 1 = ?hi"
    using assms by (subst no_saturation) simp_all
  have b: "?hi div d - base div d \<le> 2 ^ 48" for d
    using div_le_dividend [of ?hi d] assms(2) by linarith
  have s1: "saturating_add (?hi div d - base div d) 1 = ?hi div d - base div d + 1" for d
    using b [of d] by (intro no_saturation) simp_all
  let ?x = "?hi div 2 ^ 39 - base div 2 ^ 39 + 1" and ?y = "?hi div 2 ^ 30 - base div 2 ^ 30 + 1"
    and ?z = "?hi div 2 ^ 21 - base div 2 ^ 21 + 1"
  have "saturating_add (saturating_add x y) z = x + y + z" if "x \<le> 2 ^ 48 + 1" "y \<le> 2 ^ 48 + 1" "z \<le> 2 ^ 48 + 1" for x y z
    using that by (simp add: saturating_add_def usize_max_def)
  then have "saturating_add (saturating_add ?x ?y) ?z = ?x + ?y + ?z" using b by simp
  then have eq: "intermediate_frame_count base i s = ?x + ?y + ?z"
    using assms(1) unfolding intermediate_frame_count_def Let_def add mul hi drop_bit_eq_div s1 by simp
  show "card (run_paths base (i + s)) \<le> intermediate_frame_count base i s"
    unfolding eq by (rule run_paths_card [OF assms(1)])
  show "intermediate_frame_count base i s \<le> 2 ^ 50"
    using b [of "2 ^ 39"] b [of "2 ^ 30"] b [of "2 ^ 21"] unfolding eq by simp
qed

section \<open>A frame filled outside the tables\<close>

context translation_unit
begin

text \<open>The provider may move on, keeping the tables, and a frame outside every table may be
  written: no address space notices.\<close>

lemma outside_write:
  assumes ok: "vm_valid v" and p: "inv p" "\<And>k s. get_address_space (vm_spaces v) k = Some s \<Longrightarrow> as_frames (vm_memory v) (as_inner s) \<subseteq> owned p"
    and m: "only_in {f} (vm_memory v) m" "direct_frame f"
      "\<And>k s. get_address_space (vm_spaces v) k = Some s \<Longrightarrow> f \<notin> as_frames (vm_memory v) (as_inner s)"
    and v': "vm_frames v' = p" "vm_memory v' = m" "vm_spaces v' = vm_spaces v"
  shows "vm_valid v'" "views v' = views v"
    "\<And>k s. get_address_space (vm_spaces v) k = Some s \<Longrightarrow>
       as_frames m (as_inner s) = as_frames (vm_memory v) (as_inner s) \<and>
       as_paths m (as_inner s) = as_paths (vm_memory v) (as_inner s) \<and>
       as_view m (as_inner s) = as_view (vm_memory v) (as_inner s)"
proof -
  have *: "as_ok m (as_inner s) \<and> as_frames m (as_inner s) = as_frames (vm_memory v) (as_inner s) \<and>
      as_view m (as_inner s) = as_view (vm_memory v) (as_inner s) \<and> as_paths m (as_inner s) = as_paths (vm_memory v) (as_inner s)"
    if "get_address_space (vm_spaces v) k = Some s" for k s
    using local_only [OF vm_okD(3) [OF ok that] m(1)] m(2) m(3) [OF that] by simp
  show "vm_valid v'" unfolding vm_ok_def v'
  proof (intro conjI allI impI)
    show "arena_wf ADDRESS_SPACE_ARENA_CAPACITY (vm_spaces v)" by (rule vm_okD(1) [OF ok])
    show "inv p" by (rule p(1))
  next
    fix k s assume k: "get_address_space (vm_spaces v) k = Some s"
    show "as_ok m (as_inner s)" "as_frames m (as_inner s) \<subseteq> owned p"
      using *[OF k] p(2) [OF k] by auto
  next
    fix j k s u assume j: "get_address_space (vm_spaces v) j = Some s" "get_address_space (vm_spaces v) k = Some u" "j \<noteq> k"
    then show "as_frames m (as_inner s) \<inter> as_frames m (as_inner u) = {}"
      using *[OF j(1)] *[OF j(2)] vm_okD(5) [OF ok j] by simp
  qed
  show "views v' = views v"
    using * by (auto simp: vm_views_def fun_eq_iff v' map_option_case split: option.split)
  show "\<And>k s. get_address_space (vm_spaces v) k = Some s \<Longrightarrow>
       as_frames m (as_inner s) = as_frames (vm_memory v) (as_inner s) \<and>
       as_paths m (as_inner s) = as_paths (vm_memory v) (as_inner s) \<and>
       as_view m (as_inner s) = as_view (vm_memory v) (as_inner s)"
    using * by blast
qed

text \<open>A mapping leaves the tables of the other address spaces where they are.\<close>

lemma others_keep_frames:
  assumes ok: "vm_valid v" and h: "get_address_space (vm_spaces v) h = Some s"
    and k: "get_address_space (vm_spaces v) k = Some u" "k \<noteq> h"
    and m: "only_in (as_frames m (as_inner s')) (vm_memory v) m" "as_ok m (as_inner s')"
      "as_frames m (as_inner s') = as_frames (vm_memory v) (as_inner s) \<union> (owned p - owned (vm_frames v))"
  shows "as_frames m (as_inner u) = as_frames (vm_memory v) (as_inner u)"
proof -
  have "as_frames (vm_memory v) (as_inner u) \<inter> as_frames m (as_inner s') = {}"
    using vm_okD(5) [OF ok k(1) h k(2)] vm_okD(4) [OF ok k(1)] m(3) by blast
  then show ?thesis using local_only [OF vm_okD(3) [OF ok k(1)] m(1) frames_direct [OF m(2)]] by blast
qed

text \<open>A frame fresh from the provider is filled and mapped.\<close>

lemma map_fresh:
  assumes ok: "vm_valid v" and cap: "resolve_address_space_cap t c = Inr h" and s: "get_address_space (vm_spaces v) h = Some s"
    and f: "inv p" "direct_frame f" "f \<notin> owned (vm_frames v)" "owned p = insert f (owned (vm_frames v))"
    and m: "only_in {f} (vm_memory v) m"
  shows "\<exists>v' s' r. cap_map mmu alloc t (v\<lparr>vm_frames := p, vm_memory := m\<rparr>) c va f flags = Some (v', r) \<and> vm_valid v' \<and>
    get_address_space (vm_spaces v') = (get_address_space (vm_spaces v))(h \<mapsto> s') \<and> owned p \<subseteq> owned (vm_frames v') \<and>
    as_frames (vm_memory v') (as_inner s') = as_frames (vm_memory v) (as_inner s) \<union> (owned (vm_frames v') - owned p) \<and>
    (\<forall>k u. get_address_space (vm_spaces v) k = Some u \<longrightarrow> k \<noteq> h \<longrightarrow>
       as_frames (vm_memory v') (as_inner u) = as_frames (vm_memory v) (as_inner u)) \<and>
    only_in (as_frames (vm_memory v') (as_inner s')) m (vm_memory v') \<and>
    as_paths (vm_memory v) (as_inner s) \<subseteq> as_paths (vm_memory v') (as_inner s') \<and>
    as_paths (vm_memory v') (as_inner s') \<subseteq> as_paths (vm_memory v) (as_inner s) \<union> needs va \<and>
    avail p = avail (vm_frames v') + card (as_paths (vm_memory v') (as_inner s') - as_paths (vm_memory v) (as_inner s)) \<and>
    views v' = (views v)(h \<mapsto> as_view (vm_memory v') (as_inner s')) \<and>
    (case r of
       Inr _ \<Rightarrow> vm_tlb v' = vm_tlb v @ [va] \<and>
         as_view (vm_memory v') (as_inner s') =
           (\<lambda>x. if page_number x = page_number va then Inr (f, mf_effective flags) else as_view (vm_memory v) (as_inner s) x)
     | Inl e \<Rightarrow> va mod PAGE_SIZE = 0 \<longrightarrow> \<not> (mf_contains flags mf_DEVICE \<and> mf_contains flags mf_EXECUTE) \<longrightarrow>
         as_view (vm_memory v) (as_inner s) va = Inl NotMapped \<longrightarrow>
         avail (vm_frames v') = 0 \<and> \<not> needs va \<subseteq> as_paths (vm_memory v') (as_inner s'))"
proof -
  define v2 where v2_def: "v2 = v\<lparr>vm_frames := p, vm_memory := m\<rparr>"
  have sel: "vm_frames v2 = p" "vm_memory v2 = m" "vm_spaces v2 = vm_spaces v" "vm_tlb v2 = vm_tlb v"
    by (simp_all add: v2_def)
  have out: "f \<notin> as_frames (vm_memory v) (as_inner u)" if "get_address_space (vm_spaces v) k = Some u" for k u
    using vm_okD(4) [OF ok that] f(3) by blast
  have sub: "as_frames (vm_memory v) (as_inner u) \<subseteq> owned p" if "get_address_space (vm_spaces v) k = Some u" for k u
    using vm_okD(4) [OF ok that] f(4) by blast
  note W = outside_write [where v' = v2, OF ok f(1) _ m f(2)]
  have ok2: "vm_valid v2" by (rule W(1), erule sub, erule out) (simp_all add: sel)
  have views2: "views v2 = views v" by (rule W(2), erule sub, erule out) (simp_all add: sel)
  have keep2: "as_frames m (as_inner u) = as_frames (vm_memory v) (as_inner u) \<and>
      as_paths m (as_inner u) = as_paths (vm_memory v) (as_inner u) \<and> as_view m (as_inner u) = as_view (vm_memory v) (as_inner u)"
    if "get_address_space (vm_spaces v) k = Some u" for k u
    by (rule W(3) [OF _ _ _ _ _ that], erule sub, erule out) (simp_all add: sel)
  have fa: "frame_addr f mod PAGE_SIZE = 0" "frame_addr f < 2 ^ 48" using f(2) by (simp_all add: direct_frame_def PAGE_SIZE_def)
  have h2: "get_address_space (vm_spaces v2) h = Some s" using s sel by simp
  obtain v' s' r where w: "cap_map mmu alloc t v2 c va f flags = Some (v', r)" "vm_valid v'"
      "get_address_space (vm_spaces v') = (get_address_space (vm_spaces v))(h \<mapsto> s')" "owned p \<subseteq> owned (vm_frames v')"
      "as_frames (vm_memory v') (as_inner s') = as_frames m (as_inner s) \<union> (owned (vm_frames v') - owned p)"
      "only_in (as_frames (vm_memory v') (as_inner s')) m (vm_memory v')"
      "as_paths m (as_inner s) \<subseteq> as_paths (vm_memory v') (as_inner s')"
      "as_paths (vm_memory v') (as_inner s') \<subseteq> as_paths m (as_inner s) \<union> needs va"
      "avail p = avail (vm_frames v') + card (as_paths (vm_memory v') (as_inner s') - as_paths m (as_inner s))"
      "views v' = (views v2)(h \<mapsto> as_view (vm_memory v') (as_inner s'))"
    and r: "case r of
       Inr _ \<Rightarrow> vm_tlb v' = vm_tlb v @ [va] \<and> as_view m (as_inner s) va = Inl NotMapped \<and>
         needs va \<subseteq> as_paths (vm_memory v') (as_inner s') \<and>
         as_view (vm_memory v') (as_inner s') =
           (\<lambda>x. if page_number x = page_number va then Inr (f, mf_effective flags) else as_view m (as_inner s) x)
     | Inl e \<Rightarrow> vm_tlb v' = vm_tlb v \<and> as_view (vm_memory v') (as_inner s') = as_view m (as_inner s) \<and>
         (va mod PAGE_SIZE = 0 \<longrightarrow> \<not> (mf_contains flags mf_DEVICE \<and> mf_contains flags mf_EXECUTE) \<longrightarrow>
          as_view m (as_inner s) va = Inl NotMapped \<longrightarrow>
          avail (vm_frames v') = 0 \<and> \<not> needs va \<subseteq> as_paths (vm_memory v') (as_inner s'))"
    using cap_map_ok [OF ok2 cap h2 fa, of va flags] unfolding sel by (elim exE conjE) (rule that)
  have "as_ok (vm_memory v') (as_inner s')" using vm_okD(3) [OF w(2), of h s'] w(3) by simp
  from others_keep_frames [OF ok2 h2 _ _ _ this, of _ _ "vm_frames v'", unfolded sel] w(5,6) keep2
  have "\<forall>k u. get_address_space (vm_spaces v) k = Some u \<longrightarrow> k \<noteq> h \<longrightarrow>
      as_frames (vm_memory v') (as_inner u) = as_frames (vm_memory v) (as_inner u)" by metis
  moreover have e: "as_frames m (as_inner s) = as_frames (vm_memory v) (as_inner s)"
      "as_paths m (as_inner s) = as_paths (vm_memory v) (as_inner s)" "as_view m (as_inner s) = as_view (vm_memory v) (as_inner s)"
    using keep2 [OF s] by simp_all
  ultimately show ?thesis
    using w [unfolded e views2] r [unfolded e] unfolding v2_def [symmetric]
    by (intro exI [of _ v'] exI [of _ s'] exI [of _ r]) (simp split: sum.splits)
qed

end

section \<open>The invariant of the page loops\<close>

text \<open>The translations when the frames \<open>fs\<close> are mapped in a run from \<open>base\<close>.\<close>

definition run_view :: "nat \<Rightarrow> (nat \<Rightarrow> mapping_flags) \<Rightarrow> phys_frame list \<Rightarrow> nat \<Rightarrow> translation" where
  "run_view base fl fs x =
     (if page_number base \<le> page_number x \<and> page_number x - page_number base < length fs
      then Inr (fs ! (page_number x - page_number base), mf_effective (fl (page_number x - page_number base)))
      else Inl NotMapped)"

lemma page_number_run:
  "\<lbrakk>base + k * PAGE_SIZE < 2 ^ 48\<rbrakk> \<Longrightarrow> page_number (base + k * PAGE_SIZE) = page_number base + k"
  by (simp add: page_number_def PAGE_SIZE_def)

lemma run_view_Nil: "run_view base fl [] = (\<lambda>_. Inl NotMapped)"
  by (simp add: run_view_def fun_eq_iff)

lemma run_view_snoc:
  assumes "base + length fs * PAGE_SIZE < 2 ^ 48"
  shows "run_view base fl (fs @ [f]) =
    (\<lambda>x. if page_number x = page_number (base + length fs * PAGE_SIZE) then Inr (f, mf_effective (fl (length fs)))
         else run_view base fl fs x)"
    and "run_view base fl fs (base + length fs * PAGE_SIZE) = Inl NotMapped"
  using page_number_run [OF assms] by (auto simp: run_view_def fun_eq_iff nth_append)

text \<open>
  \<open>loaded v0 h base fl ct fs v\<close>: from the state \<open>v0\<close> before the address space \<open>h\<close>
  was created, the loader has mapped the new frames \<open>fs\<close> in a run from \<open>base\<close>,
  page \<open>i\<close> with flags \<open>fl i\<close> and contents \<open>ct i\<close>, and has changed nothing else.
\<close>

definition loaded ::
    "(qemu_address_space, pmm) vm \<Rightarrow> address_space_handle \<Rightarrow> nat \<Rightarrow> (nat \<Rightarrow> mapping_flags) \<Rightarrow> (nat \<Rightarrow> nat \<Rightarrow> 8 word) \<Rightarrow>
       phys_frame list \<Rightarrow> (qemu_address_space, pmm) vm \<Rightarrow> bool" where
  "loaded v0 h base fl ct fs v \<longleftrightarrow>
     vm_ok (laid_as (vm_frames v0)) pmm_owned (\<lambda>m a. tree_wf m (qa_root a)) (\<lambda>m a. tables m (qa_root a)) v \<and>
     distinct fs \<and> set fs \<subseteq> pmm_owned (vm_frames v) - pmm_owned (vm_frames v0) \<and>
     pmm_owned (vm_frames v0) \<subseteq> pmm_owned (vm_frames v) \<and>
     (\<forall>k. k \<noteq> h \<longrightarrow> vm_views view_at v k = vm_views view_at v0 k) \<and>
     (\<forall>k s. get_address_space (vm_spaces v) k = Some s \<longrightarrow> tables (vm_memory v) (qa_root (as_inner s)) \<inter> set fs = {}) \<and>
     (\<exists>s. get_address_space (vm_spaces v) h = Some s \<and>
        tables (vm_memory v) (qa_root (as_inner s)) \<inter> pmm_owned (vm_frames v0) = {} \<and>
        table_paths (vm_memory v) (qa_root (as_inner s)) \<subseteq> insert [] (run_paths base (length fs)) \<and>
        pm_free_count (vm_frames v0) =
          pm_free_count (vm_frames v) + card (table_paths (vm_memory v) (qa_root (as_inner s))) + length fs \<and>
        view_at (vm_memory v) (as_inner s) = run_view base fl fs) \<and>
     (\<forall>i < length fs. \<forall>j < PAGE_SIZE. vm_memory v (kva (fs ! i) + j) = ct i j) \<and>
     vm_tlb v = vm_tlb v0 @ map (\<lambda>i. base + i * PAGE_SIZE) [0..<length fs] \<and>
     only_in (pmm_owned (vm_frames v) - pmm_owned (vm_frames v0)) (vm_memory v0) (vm_memory v)"

lemma loadedD:
  assumes "loaded v0 h base fl ct fs v"
  shows "vm_ok (laid_as (vm_frames v0)) pmm_owned (\<lambda>m a. tree_wf m (qa_root a)) (\<lambda>m a. tables m (qa_root a)) v"
    "distinct fs" "set fs \<subseteq> pmm_owned (vm_frames v) - pmm_owned (vm_frames v0)"
    "pmm_owned (vm_frames v0) \<subseteq> pmm_owned (vm_frames v)"
    "k \<noteq> h \<Longrightarrow> vm_views view_at v k = vm_views view_at v0 k"
    "get_address_space (vm_spaces v) k = Some s \<Longrightarrow> tables (vm_memory v) (qa_root (as_inner s)) \<inter> set fs = {}"
    "\<lbrakk>i < length fs; j < PAGE_SIZE\<rbrakk> \<Longrightarrow> vm_memory v (kva (fs ! i) + j) = ct i j"
    "vm_tlb v = vm_tlb v0 @ map (\<lambda>i. base + i * PAGE_SIZE) [0..<length fs]"
    "only_in (pmm_owned (vm_frames v) - pmm_owned (vm_frames v0)) (vm_memory v0) (vm_memory v)"
  using assms unfolding loaded_def by blast+

lemma loaded_space:
  assumes "loaded v0 h base fl ct fs v"
  obtains s where "get_address_space (vm_spaces v) h = Some s"
    "tables (vm_memory v) (qa_root (as_inner s)) \<inter> pmm_owned (vm_frames v0) = {}"
    "table_paths (vm_memory v) (qa_root (as_inner s)) \<subseteq> insert [] (run_paths base (length fs))"
    "pm_free_count (vm_frames v0) =
       pm_free_count (vm_frames v) + card (table_paths (vm_memory v) (qa_root (as_inner s))) + length fs"
    "view_at (vm_memory v) (as_inner s) = run_view base fl fs"
  using assms unfolding loaded_def by blast

lemma pmm_owned_direct: "\<lbrakk>pmm_inv p; f \<in> pmm_owned p\<rbrakk> \<Longrightarrow> direct_frame f"
  using frame_direct [of p] used_bound [of p] by (auto simp: pmm_owned_def)

text \<open>A frame that was taken since is not a reserved one.\<close>

lemma taken_returnable:
  assumes "laid_as p0 p" "f \<in> pmm_owned p - pmm_owned p0"
  shows "f \<in> pmm_returnable p"
proof -
  have same: "pm_extent p = pm_extent p0" "pm_reserved_ranges p = pm_reserved_ranges p0" and wf: "pmm_wf p0"
    using assms(1) by (simp_all add: laid_as_def pmm_inv_def)
  note lay = same_layout [OF same]
  obtain i where i: "i \<in> used p" "f = PhysFrame (frame_pa p i)" using assms(2) by (auto simp: pmm_owned_def)
  then have "i \<notin> used p0" using assms(2) lay(1) by (auto simp: pmm_owned_def)
  then have "i \<notin> reserved_frames p" using wf lay(2) by (auto simp: pmm_wf_def)
  then show ?thesis using i by (auto simp: pmm_returnable_def owned_indices_def)
qed

text \<open>A budget for \<open>n\<close> pages and all their tables.\<close>

definition budget :: "(qemu_address_space, pmm) vm \<Rightarrow> nat \<Rightarrow> nat \<Rightarrow> bool" where
  "budget v0 base n \<longleftrightarrow> card (run_paths base n) + 1 + n \<le> pm_free_count (vm_frames v0)"

lemma budget_mono: "\<lbrakk>budget v0 base n; m \<le> n\<rbrakk> \<Longrightarrow> budget v0 base m"
  using card_mono [OF run_paths_finite run_paths_mono, of m n base] by (simp add: budget_def)

lemma card_paths:
  "P \<subseteq> insert [] (run_paths base n) \<Longrightarrow> card P \<le> card (run_paths base n) + 1"
  using card_mono [of "insert [] (run_paths base n)" P] card_insert_le_m1 [of _ "run_paths base n" "[]"]
  by (auto simp: card_insert_if split: if_splits)

text \<open>Within the budget a frame for the next page is there.\<close>

lemma load_frame:
  assumes L: "loaded v0 h base fl ct fs v" and b: "budget v0 base n" "length fs < n"
  shows "\<exists>p f. pmm_alloc_frame (vm_frames v) (vm_memory v) = Some ((p, zero_frame (vm_memory v) f), Some f) \<and>
    laid_as (vm_frames v0) p \<and> direct_frame f \<and> f \<notin> pmm_owned (vm_frames v) \<and>
    pmm_owned p = insert f (pmm_owned (vm_frames v)) \<and> pm_free_count (vm_frames v) = Suc (pm_free_count p)"
proof -
  obtain s where s: "get_address_space (vm_spaces v) h = Some s" "tables (vm_memory v) (qa_root (as_inner s)) \<inter> pmm_owned (vm_frames v0) = {}"
    "table_paths (vm_memory v) (qa_root (as_inner s)) \<subseteq> insert [] (run_paths base (length fs))"
    "pm_free_count (vm_frames v0) =
       pm_free_count (vm_frames v) + card (table_paths (vm_memory v) (qa_root (as_inner s))) + length fs"
    "view_at (vm_memory v) (as_inner s) = run_view base fl fs"
    by (rule loaded_space [OF L])
  have "budget v0 base (length fs + 1)" using budget_mono [OF b(1)] b(2) by simp
  then have "card (run_paths base (length fs)) + length fs + 2 \<le> pm_free_count (vm_frames v0)"
    using card_mono [OF run_paths_finite run_paths_mono, of "length fs" "length fs + 1" base] by (simp add: budget_def)
  then have "pm_free_count (vm_frames v) \<noteq> 0" using s(4) card_paths [OF s(3)] by linarith
  from pmm_laid.alloc_some [OF qemu_laid.vm_okD(2) [OF loadedD(1) [OF L]] this] show ?thesis by blast
qed

text \<open>A refusal for lack of frames would mean that the budget was exceeded.\<close>

lemma budget_suffices:
  assumes P: "P \<subseteq> insert [] (run_paths base k)" "P \<subseteq> P'" "P' \<subseteq> P \<union> path_prefixes (base + k * PAGE_SIZE)"
    and n: "pm_free_count (vm_frames v0) = Suc a + card P + k" "a = card (P' - P)"
    and b: "budget v0 base (Suc k)"
  shows "path_prefixes (base + k * PAGE_SIZE) \<subseteq> P'"
proof (rule ccontr)
  let ?Q = "insert [] (run_paths base (Suc k))"
  assume "\<not> path_prefixes (base + k * PAGE_SIZE) \<subseteq> P'"
  then have "P' \<subset> ?Q" using P(1,3) unfolding run_paths_Suc by blast
  then have less: "card P' < card ?Q" by (intro psubset_card_mono) simp_all
  have "finite P" using finite_subset [OF P(1)] by simp
  then have "finite P'" using finite_subset [OF P(3)] path_prefixes_card(1) by blast
  then have "card (P' - P) + card P = card P'" using P(2) by (simp add: card_Diff_subset card_mono finite_subset)
  moreover have "card ?Q \<le> card (run_paths base (Suc k)) + 1" by (rule card_paths) simp
  ultimately show False using less n b by (simp add: budget_def)
qed

text \<open>The frames of the run keep their contents, and the new one has what was written to it.\<close>

lemma run_contents:
  assumes L: "loaded v0 h base fl ct fs v" and f: "direct_frame f" "f \<notin> set fs"
    and m: "only_in {f} (vm_memory v) m" "\<forall>j < PAGE_SIZE. m (kva f + j) = ct (length fs) j"
    and T: "only_in T m m'" "T \<inter> set (fs @ [f]) = {}" "\<And>g. g \<in> T \<Longrightarrow> direct_frame g"
  shows "\<forall>i < length (fs @ [f]). \<forall>j < PAGE_SIZE. m' (kva ((fs @ [f]) ! i) + j) = ct i j"
proof (intro allI impI)
  fix i j assume ij: "i < length (fs @ [f])" "j < PAGE_SIZE"
  have direct: "direct_frame g" if "g \<in> set (fs @ [f])" for g
    using that f(1) loadedD(3) [OF L] pmm_owned_direct [of "vm_frames v" g] qemu_laid.vm_okD(2) [OF loadedD(1) [OF L]]
    by (auto simp: laid_as_def)
  have still: "same_on g m m'" if "g \<in> set (fs @ [f])" for g
    using only_in_same [OF T(1) direct [OF that] _ T(3)] T(2) that by blast
  show "m' (kva ((fs @ [f]) ! i) + j) = ct i j"
  proof (cases "i = length fs")
    case True
    then show ?thesis using still [of f] m(2) ij(2) by (simp add: same_on_def frame_bytes_def PAGE_SIZE_def)
  next
    case False
    then have i: "i < length fs" "fs ! i \<in> set (fs @ [f])" "fs ! i \<noteq> f" using ij(1) f(2) by auto
    have "same_on (fs ! i) (vm_memory v) m" using only_in_same [OF m(1) direct [OF i(2)]] i(3) f(1) by auto
    then have "same_on (fs ! i) (vm_memory v) m'" using still [OF i(2)] same_on_trans by blast
    then show ?thesis using loadedD(7) [OF L i(1) ij(2)] i(1) ij(2)
      by (simp add: same_on_def frame_bytes_def PAGE_SIZE_def nth_append)
  qed
qed

lemma loaded_snoc:
  assumes L: "loaded v0 h base fl ct fs v" and va: "base + length fs * PAGE_SIZE < 2 ^ 48"
    and f: "direct_frame f" "f \<notin> pmm_owned (vm_frames v)" "pmm_owned p = insert f (pmm_owned (vm_frames v))"
      "pm_free_count (vm_frames v) = Suc (pm_free_count p)"
    and m: "only_in {f} (vm_memory v) m" "\<forall>j < PAGE_SIZE. m (kva f + j) = ct (length fs) j"
    and s: "get_address_space (vm_spaces v) h = Some s"
    and w: "vm_ok (laid_as (vm_frames v0)) pmm_owned (\<lambda>m a. tree_wf m (qa_root a)) (\<lambda>m a. tables m (qa_root a)) v'"
      "get_address_space (vm_spaces v') = (get_address_space (vm_spaces v))(h \<mapsto> s')" "pmm_owned p \<subseteq> pmm_owned (vm_frames v')"
    and T: "tables (vm_memory v') (qa_root (as_inner s')) =
         tables (vm_memory v) (qa_root (as_inner s)) \<union> (pmm_owned (vm_frames v') - pmm_owned p)"
      "\<forall>k u. get_address_space (vm_spaces v) k = Some u \<longrightarrow> k \<noteq> h \<longrightarrow>
         tables (vm_memory v') (qa_root (as_inner u)) = tables (vm_memory v) (qa_root (as_inner u))"
      "only_in (tables (vm_memory v') (qa_root (as_inner s'))) m (vm_memory v')"
    and P: "table_paths (vm_memory v) (qa_root (as_inner s)) \<subseteq> table_paths (vm_memory v') (qa_root (as_inner s'))"
      "table_paths (vm_memory v') (qa_root (as_inner s')) \<subseteq>
         table_paths (vm_memory v) (qa_root (as_inner s)) \<union> path_prefixes (base + length fs * PAGE_SIZE)"
      "pm_free_count p = pm_free_count (vm_frames v') +
         card (table_paths (vm_memory v') (qa_root (as_inner s')) - table_paths (vm_memory v) (qa_root (as_inner s)))"
    and V: "vm_views view_at v' = (vm_views view_at v)(h \<mapsto> view_at (vm_memory v') (as_inner s'))"
      "vm_tlb v' = vm_tlb v @ [base + length fs * PAGE_SIZE]"
      "view_at (vm_memory v') (as_inner s') =
         (\<lambda>x. if page_number x = page_number (base + length fs * PAGE_SIZE) then Inr (f, mf_effective (fl (length fs)))
              else view_at (vm_memory v) (as_inner s) x)"
  shows "loaded v0 h base fl ct (fs @ [f]) v'"
proof -
  let ?T = "\<lambda>m s. tables m (qa_root (as_inner s))" and ?P = "\<lambda>m s. table_paths m (qa_root (as_inner s))"
  note D = loadedD(3,4) [OF L]
  obtain s1 where "get_address_space (vm_spaces v) h = Some s1" and s1: "?T (vm_memory v) s1 \<inter> pmm_owned (vm_frames v0) = {}"
      "?P (vm_memory v) s1 \<subseteq> insert [] (run_paths base (length fs))"
      "pm_free_count (vm_frames v0) = pm_free_count (vm_frames v) + card (?P (vm_memory v) s1) + length fs"
      "view_at (vm_memory v) (as_inner s1) = run_view base fl fs"
    by (rule loaded_space [OF L])
  then have "s1 = s" using s by simp
  note s1 = s1 [unfolded this]
  have out: "?T (vm_memory v) u \<inter> set (fs @ [f]) = {}" if "get_address_space (vm_spaces v) k = Some u" for k u
    using loadedD(6) [OF L that] qemu_laid.vm_okD(4) [OF loadedD(1) [OF L] that] f(2) by auto
  have new: "f \<notin> pmm_owned (vm_frames v0)" "f \<in> pmm_owned (vm_frames v')" "f \<notin> set fs" using f(2,3) D w(3) by auto
  have owned': "?T (vm_memory v') s' \<subseteq> pmm_owned (vm_frames v')" "tree_wf (vm_memory v') (qa_root (as_inner s'))"
    using qemu_laid.vm_okD(3,4) [OF w(1), of h s'] w(2) by simp_all
  have tabs: "?T (vm_memory v') s' \<inter> set (fs @ [f]) = {}" using out [OF s] D f(3) T(1) by auto
  have fresh: "?T (vm_memory v') s' \<inter> pmm_owned (vm_frames v0) = {}" using T(1) s1(1) f(3) D(2) by auto
  have space: "pm_free_count (vm_frames v0) = pm_free_count (vm_frames v') + card (?P (vm_memory v') s') + length (fs @ [f])"
  proof -
    have "card (?P (vm_memory v') s' - ?P (vm_memory v) s) = card (?P (vm_memory v') s') - card (?P (vm_memory v) s)"
      "card (?P (vm_memory v) s) \<le> card (?P (vm_memory v') s')" using P(1) by (simp_all add: card_Diff_subset card_mono)
    then show ?thesis using s1(3) f(4) P(3) by simp
  qed
  have view: "view_at (vm_memory v') (as_inner s') = run_view base fl (fs @ [f])" unfolding V(3) s1(4) run_view_snoc(1) [OF va] ..
  have "only_in (pmm_owned (vm_frames v') - pmm_owned (vm_frames v0)) (vm_memory v0) m"
    by (rule only_in_trans [OF loadedD(9) [OF L] m(1)]) (use f(3) w(3) new in auto)
  then have mem: "only_in (pmm_owned (vm_frames v') - pmm_owned (vm_frames v0)) (vm_memory v0) (vm_memory v')"
    by (rule only_in_trans [OF _ T(3)]) (use fresh owned'(1) in auto)
  have contents: "\<forall>i < length (fs @ [f]). \<forall>j < PAGE_SIZE. vm_memory v' (kva ((fs @ [f]) ! i) + j) = ct i j"
    by (rule run_contents [OF L f(1) new(3) m T(3) tabs tables_direct [OF owned'(2)]])
  have others: "?T (vm_memory v') u \<inter> set (fs @ [f]) = {}" if "get_address_space (vm_spaces v') k = Some u" for k u
    using that tabs T(2) out unfolding w(2) by (cases "k = h") auto
  have paths: "?P (vm_memory v') s' \<subseteq> insert [] (run_paths base (length (fs @ [f])))"
    using P(2) s1(2) by (auto simp: run_paths_Suc)
  have rest: "distinct (fs @ [f])" "set (fs @ [f]) \<subseteq> pmm_owned (vm_frames v') - pmm_owned (vm_frames v0)"
      "pmm_owned (vm_frames v0) \<subseteq> pmm_owned (vm_frames v')" "\<forall>k. k \<noteq> h \<longrightarrow> vm_views view_at v' k = vm_views view_at v0 k"
      "vm_tlb v' = vm_tlb v0 @ map (\<lambda>i. base + i * PAGE_SIZE) [0..<length (fs @ [f])]"
    using loadedD(2,5,8) [OF L] D new f(3) w(3) V(1,2) by auto
  show ?thesis
    unfolding loaded_def using rest others fresh paths space view contents mem fun_cong [OF w(2), of h]
    by (intro conjI exI [of _ s'] w(1)) (simp only: fun_upd_same | blast)+
qed

text \<open>One page: a fresh frame is filled and mapped after the pages that are there.\<close>

lemma load_page:
  assumes L: "loaded v0 h base fl ct fs v" and b: "budget v0 base n" "length fs < n"
    and cap: "resolve_address_space_cap t c = Inr h"
    and base: "base mod PAGE_SIZE = 0" "base + n * PAGE_SIZE \<le> 2 ^ 48"
    and fl: "\<not> (mf_contains (fl (length fs)) mf_DEVICE \<and> mf_contains (fl (length fs)) mf_EXECUTE)"
    and f: "laid_as (vm_frames v0) p" "direct_frame f" "f \<notin> pmm_owned (vm_frames v)"
      "pmm_owned p = insert f (pmm_owned (vm_frames v))" "pm_free_count (vm_frames v) = Suc (pm_free_count p)"
    and m: "only_in {f} (vm_memory v) m" "\<forall>j < PAGE_SIZE. m (kva f + j) = ct (length fs) j"
  shows "\<exists>v'. cap_map qemu_mmu pmm_alloc_frame t (v\<lparr>vm_frames := p, vm_memory := m\<rparr>) c (base + length fs * PAGE_SIZE) f
      (fl (length fs)) = Some (v', Inr ()) \<and> loaded v0 h base fl ct (fs @ [f]) v'"
proof -
  let ?va = "base + length fs * PAGE_SIZE"
  let ?T = "\<lambda>m s. tables m (qa_root (as_inner s))" and ?P = "\<lambda>m s. table_paths m (qa_root (as_inner s))"
  have "Suc (length fs) * PAGE_SIZE \<le> n * PAGE_SIZE" using b(2) by (intro mult_right_mono) auto
  then have va: "?va < 2 ^ 48" "?va mod PAGE_SIZE = 0" using base by (simp_all add: PAGE_SIZE_def)
  obtain s where s: "get_address_space (vm_spaces v) h = Some s" "?T (vm_memory v) s \<inter> pmm_owned (vm_frames v0) = {}"
      "?P (vm_memory v) s \<subseteq> insert [] (run_paths base (length fs))"
      "pm_free_count (vm_frames v0) = pm_free_count (vm_frames v) + card (?P (vm_memory v) s) + length fs"
      "view_at (vm_memory v) (as_inner s) = run_view base fl fs"
    by (rule loaded_space [OF L])
  obtain v' s' r where w: "cap_map qemu_mmu pmm_alloc_frame t (v\<lparr>vm_frames := p, vm_memory := m\<rparr>) c ?va f (fl (length fs)) = Some (v', r)"
      "vm_ok (laid_as (vm_frames v0)) pmm_owned (\<lambda>m a. tree_wf m (qa_root a)) (\<lambda>m a. tables m (qa_root a)) v'"
      "get_address_space (vm_spaces v') = (get_address_space (vm_spaces v))(h \<mapsto> s')" "pmm_owned p \<subseteq> pmm_owned (vm_frames v')"
    and T: "?T (vm_memory v') s' = ?T (vm_memory v) s \<union> (pmm_owned (vm_frames v') - pmm_owned p)"
      "\<forall>k u. get_address_space (vm_spaces v) k = Some u \<longrightarrow> k \<noteq> h \<longrightarrow> ?T (vm_memory v') u = ?T (vm_memory v) u"
      "only_in (?T (vm_memory v') s') m (vm_memory v')"
    and P: "?P (vm_memory v) s \<subseteq> ?P (vm_memory v') s'" "?P (vm_memory v') s' \<subseteq> ?P (vm_memory v) s \<union> path_prefixes ?va"
      "pm_free_count p = pm_free_count (vm_frames v') + card (?P (vm_memory v') s' - ?P (vm_memory v) s)"
    and V: "vm_views view_at v' = (vm_views view_at v)(h \<mapsto> view_at (vm_memory v') (as_inner s'))"
      "case r of
         Inr _ \<Rightarrow> vm_tlb v' = vm_tlb v @ [?va] \<and>
           view_at (vm_memory v') (as_inner s') =
             (\<lambda>x. if page_number x = page_number ?va then Inr (f, mf_effective (fl (length fs))) else view_at (vm_memory v) (as_inner s) x)
       | Inl e \<Rightarrow> ?va mod PAGE_SIZE = 0 \<longrightarrow> \<not> (mf_contains (fl (length fs)) mf_DEVICE \<and> mf_contains (fl (length fs)) mf_EXECUTE) \<longrightarrow>
           view_at (vm_memory v) (as_inner s) ?va = Inl NotMapped \<longrightarrow>
           pm_free_count (vm_frames v') = 0 \<and> \<not> path_prefixes ?va \<subseteq> ?P (vm_memory v') s'"
    using qemu_laid.map_fresh [OF loadedD(1) [OF L] cap s(1) f(1-4) m(1), of ?va "fl (length fs)"] by (elim exE conjE) (rule that)
  have r: "r = Inr ()"
  proof (cases r)
    case (Inl e)
    then have none: "pm_free_count (vm_frames v') = 0" "\<not> path_prefixes ?va \<subseteq> ?P (vm_memory v') s'"
      using V(2) va(2) fl run_view_snoc(2) [OF va(1)] s(5) by simp_all
    have "budget v0 base (Suc (length fs))" using budget_mono [OF b(1)] b(2) by simp
    moreover have "pm_free_count (vm_frames v0) = Suc (pm_free_count p) + card (?P (vm_memory v) s) + length fs" using s(4) f(5) by simp
    moreover have "pm_free_count p = card (?P (vm_memory v') s' - ?P (vm_memory v) s)" using P(3) none(1) by simp
    ultimately show ?thesis using budget_suffices [OF s(3) P(1,2)] none(2) by blast
  qed simp
  then have V': "vm_tlb v' = vm_tlb v @ [?va]" "view_at (vm_memory v') (as_inner s') =
      (\<lambda>x. if page_number x = page_number ?va then Inr (f, mf_effective (fl (length fs))) else view_at (vm_memory v) (as_inner s) x)"
    using V(2) by simp_all
  show ?thesis using w(1) r loaded_snoc [OF L va(1) f(2-5) m s(1) w(2-4) T P V(1) V'] by blast
qed

section \<open>The loops\<close>

text \<open>What page \<open>i\<close> of the region holds: the image, then zeros.\<close>

definition image_byte :: "memory \<Rightarrow> nat \<times> nat \<Rightarrow> nat \<Rightarrow> nat \<Rightarrow> 8 word" where
  "image_byte m img i j = (if i * PAGE_SIZE + j < snd img then m (fst img + (i * PAGE_SIZE + j)) else 0)"

definition page_flags :: "nat \<Rightarrow> nat \<Rightarrow> mapping_flags" where
  "page_flags image_pages i = (if i < image_pages then flags_user_execute else flags_user_write)"

lemma page_flags_ok: "\<not> (mf_contains (page_flags n i) mf_DEVICE \<and> mf_contains (page_flags n i) mf_EXECUTE)"
  by (simp add: page_flags_def flags_user_execute_def flags_user_write_def mf_contains_def mf_union_def mf_consts)

text \<open>The image lies where no frame can be handed out.\<close>

definition source_safe :: "pmm \<Rightarrow> nat \<times> nat \<Rightarrow> bool" where
  "source_safe p0 img \<longleftrightarrow>
     (\<forall>p f. laid_as p0 p \<longrightarrow> f \<in> pmm_returnable p \<longrightarrow> frame_bytes f \<inter> {fst img..<fst img + snd img} = {})"

lemma source_intact:
  assumes "loaded v0 h base fl ct fs v" "source_safe (vm_frames v0) img" "fst img \<le> a" "a < fst img + snd img"
  shows "vm_memory v a = vm_memory v0 a"
proof -
  have "a \<notin> frame_bytes g" if "g \<in> pmm_owned (vm_frames v) - pmm_owned (vm_frames v0)" for g
    using assms(2-4) taken_returnable [OF qemu_laid.vm_okD(2) [OF loadedD(1) [OF assms(1)]] that]
      qemu_laid.vm_okD(2) [OF loadedD(1) [OF assms(1)]] unfolding source_safe_def by fastforce
  then show ?thesis using loadedD(9) [OF assms(1)] by (simp add: only_in_def)
qed

lemma direct_ptr: "direct_frame f \<Longrightarrow> phys_frame_kernel_ptr f = Some (kva f)"
  by (simp add: phys_frame_kernel_ptr_def direct_frame_def phys_to_kernel_va_eq kva_def)

lemma page_va_exact: "base + i * PAGE_SIZE \<le> 2 ^ 48 \<Longrightarrow> page_va base i = base + i * PAGE_SIZE"
  by (simp add: page_va_def saturating_add_def saturating_mul_def usize_max_def)

lemma run_bound: "\<lbrakk>base + n * PAGE_SIZE \<le> 2 ^ 48; i \<le> n\<rbrakk> \<Longrightarrow> base + i * PAGE_SIZE \<le> 2 ^ 48"
  using mult_right_mono [of i n PAGE_SIZE] by linarith

lemma copied_page:
  assumes "\<forall>a. fst img \<le> a \<longrightarrow> a < fst img + snd img \<longrightarrow> zero_frame m f a = m0 a"
  shows "only_in {f} m (copy_bytes (zero_frame m f) (kva f) (image_chunk (zero_frame m f) (fst img) (snd img) i))"
    "j < PAGE_SIZE \<Longrightarrow> copy_bytes (zero_frame m f) (kva f) (image_chunk (zero_frame m f) (fst img) (snd img) i) (kva f + j) =
      image_byte m0 img i j"
  using assms [rule_format, of "fst img + (i * PAGE_SIZE + j)"]
  by (auto simp: only_in_def copy_bytes_def zero_frame_def write_bytes_def image_chunk_def read_run_def frame_bytes_def
      PAGE_SIZE_def image_byte_def add.assoc)

lemma image_loop:
  assumes "loaded v0 h base (page_flags ip) (image_byte (vm_memory v0) img) fs v" "length fs \<le> ip"
    and b: "budget v0 base n" "ip \<le> n" and cap: "resolve_address_space_cap t c = Inr h"
    and base: "base mod PAGE_SIZE = 0" "base + n * PAGE_SIZE \<le> 2 ^ 48" and src: "source_safe (vm_frames v0) img"
  shows "\<exists>fs' v'. image_pages_loop qemu_mmu t c (base, sb) img [length fs..<ip] (length fs) v = Some ((t, v'), Inr ip) \<and>
    length fs' = ip \<and> loaded v0 h base (page_flags ip) (image_byte (vm_memory v0) img) fs' v'"
  using assms(1,2)
proof (induction "ip - length fs" arbitrary: fs v)
  case 0
  then show ?case by (intro exI [of _ fs] exI [of _ v]) simp
next
  case (Suc d)
  note L = Suc.prems(1)
  have k: "length fs < ip" "length fs < n" using Suc.hyps(2) b(2) by simp_all
  obtain p f where f: "pmm_alloc_frame (vm_frames v) (vm_memory v) = Some ((p, zero_frame (vm_memory v) f), Some f)"
      "laid_as (vm_frames v0) p" "direct_frame f" "f \<notin> pmm_owned (vm_frames v)"
      "pmm_owned p = insert f (pmm_owned (vm_frames v))" "pm_free_count (vm_frames v) = Suc (pm_free_count p)"
    using load_frame [OF L b(1) k(2)] by blast
  have src0: "zero_frame (vm_memory v) f a = vm_memory v0 a" if "fst img \<le> a" "a < fst img + snd img" for a
  proof -
    have "f \<in> pmm_returnable p" using taken_returnable [OF f(2)] f(4,5) loadedD(4) [OF L] by auto
    then have "a \<notin> frame_bytes f" using src f(2) that unfolding source_safe_def by fastforce
    then show ?thesis using source_intact [OF L src that] by (auto simp: zero_frame_def write_bytes_def frame_bytes_def)
  qed
  then have src1: "\<forall>a. fst img \<le> a \<longrightarrow> a < fst img + snd img \<longrightarrow> zero_frame (vm_memory v) f a = vm_memory v0 a" by simp
  obtain v' where v': "cap_map qemu_mmu pmm_alloc_frame t (v\<lparr>vm_frames := p, vm_memory := copy_bytes (zero_frame (vm_memory v) f) (kva f)
        (image_chunk (zero_frame (vm_memory v) f) (fst img) (snd img) (length fs))\<rparr>) c (base + length fs * PAGE_SIZE) f
        (page_flags ip (length fs)) = Some (v', Inr ())"
      "loaded v0 h base (page_flags ip) (image_byte (vm_memory v0) img) (fs @ [f]) v'"
    using load_page [OF L b(1) k(2) cap base page_flags_ok f(2-6) copied_page(1) [OF src1]] copied_page(2) [OF src1] by blast
  have va: "page_va base (length fs) = base + length fs * PAGE_SIZE"
    using page_va_exact [OF run_bound [OF base(2)]] k(2) by simp
  have more: "saturating_add (length fs) 1 = length (fs @ [f])"
    using k base(2) by (simp add: saturating_add_def usize_max_def PAGE_SIZE_def)
  have step: "image_pages_loop qemu_mmu t c (base, sb) img [length fs..<ip] (length fs) v =
      image_pages_loop qemu_mmu t c (base, sb) img [length (fs @ [f])..<ip] (length (fs @ [f])) v'"
    using f(1) v'(1) va more k(1) direct_ptr [OF f(3)]
    by (simp add: upt_conv_Cons Let_def page_flags_def)
  show ?case unfolding step
    using Suc.hyps(1) [OF _ v'(2)] Suc.hyps(2) k(1) by simp
qed

lemma stack_loop:
  assumes "loaded v0 h base (page_flags ip) (image_byte (vm_memory v0) img) fs v" "length fs = ip + j" "j \<le> sp"
    and b: "budget v0 base (ip + sp)" and cap: "resolve_address_space_cap t c = Inr h"
    and base: "base mod PAGE_SIZE = 0" "base + (ip + sp) * PAGE_SIZE \<le> 2 ^ 48" and n: "snd img \<le> ip * PAGE_SIZE"
  shows "\<exists>fs' v'. stack_pages_loop qemu_mmu t c (ib, base + ip * PAGE_SIZE) im [j..<sp] j v = Some ((t, v'), Inr sp) \<and>
    length fs' = ip + sp \<and> loaded v0 h base (page_flags ip) (image_byte (vm_memory v0) img) fs' v'"
  using assms(1-3)
proof (induction "sp - j" arbitrary: j fs v)
  case 0
  then show ?case by (intro exI [of _ fs] exI [of _ v]) simp
next
  case (Suc d)
  note L = Suc.prems(1)
  have k: "j < sp" "length fs < ip + sp" using Suc.hyps(2) Suc.prems(2) by simp_all
  obtain p f where f: "pmm_alloc_frame (vm_frames v) (vm_memory v) = Some ((p, zero_frame (vm_memory v) f), Some f)"
      "laid_as (vm_frames v0) p" "direct_frame f" "f \<notin> pmm_owned (vm_frames v)"
      "pmm_owned p = insert f (pmm_owned (vm_frames v))" "pm_free_count (vm_frames v) = Suc (pm_free_count p)"
    using load_frame [OF L b k(2)] by blast
  have zero: "image_byte (vm_memory v0) img (length fs) i = 0" for i
    using n Suc.prems(2) by (simp add: image_byte_def add_mult_distrib)
  obtain v' where v': "cap_map qemu_mmu pmm_alloc_frame t (v\<lparr>vm_frames := p, vm_memory := zero_frame (vm_memory v) f\<rparr>) c
        (base + length fs * PAGE_SIZE) f (page_flags ip (length fs)) = Some (v', Inr ())"
      "loaded v0 h base (page_flags ip) (image_byte (vm_memory v0) img) (fs @ [f]) v'"
    using load_page [OF L b k(2) cap base page_flags_ok f(2-6) only_in_zero] zero
    by (auto simp: zero_frame_def write_bytes_def PAGE_SIZE_def)
  have va: "page_va (base + ip * PAGE_SIZE) j = base + length fs * PAGE_SIZE"
    using page_va_exact [of "base + ip * PAGE_SIZE" j] run_bound [OF base(2), of "ip + j"] k(1) Suc.prems(2)
    by (simp add: add_mult_distrib add.assoc)
  have more: "saturating_add j 1 = Suc j"
    using k base(2) by (simp add: saturating_add_def usize_max_def PAGE_SIZE_def)
  have step: "stack_pages_loop qemu_mmu t c (ib, base + ip * PAGE_SIZE) im [j..<sp] j v =
      stack_pages_loop qemu_mmu t c (ib, base + ip * PAGE_SIZE) im [Suc j..<sp] (Suc j) v'"
    using f(1) v'(1) va more k(1) Suc.prems(2)
    by (simp add: upt_conv_Cons Let_def page_flags_def)
  show ?case unfolding step
    using Suc.hyps(1) [OF _ v'(2)] Suc.hyps(2) Suc.prems(2) k(1) by simp
qed

end
