(* ===== verification/TaskLoader_Undo.thy ===== *)
theory TaskLoader_Undo
  imports TaskLoader_Props
begin

text \<open>
  Lemmas on undoing a partial load: a frame that was handed out can be returned,
  and the unmap loop returns the frame of every page it is given.
\<close>

lemma pmm_returns:
  assumes p: "laid_as p0 p" and f: "f \<in> pmm_returnable p"
  shows "\<exists>p'. pmm_free_frame p f = Some (p', Inr ()) \<and> laid_as p0 p' \<and> pmm_owned p' = pmm_owned p - {f} \<and>
    pmm_returnable p' = pmm_returnable p - {f} \<and>
    pm_free_count p' = Suc (pm_free_count p)"
proof -
  have wf: "pmm_wf p" "direct_mapped p" using p by (simp_all add: laid_as_def pmm_inv_def)
  obtain i where i: "i \<in> owned_indices p" "f = PhysFrame (frame_pa p i)" using f by (auto simp: pmm_returnable_def)
  then have u: "i \<in> used p - reserved_frames p" "i < pm_total p" using used_bound [of p] by (auto simp: owned_indices_def)
  have "frame_pa p i < pr_end (pm_extent p)" using frame_pa_bound [OF u(2)] by (simp add: PAGE_SIZE_def)
  then have c: "range_contains (pm_extent p) (frame_addr f)" using i(2) by (simp add: range_contains_def frame_pa_def)
  have "frame_valid f" using frame_pa_aligned [OF wf(1)] i(2) by (simp add: frame_valid_def)
  from pmm_free_spec [OF wf(1) this] c obtain j where j: "frame_addr f = frame_pa p j"
      "if j \<notin> used p - reserved_frames p then pmm_free_frame p f = Some (p, Inl DoubleFree)
       else \<exists>p'. pmm_free_frame p f = Some (p', Inr ()) \<and> pmm_wf p' \<and> used p' = used p - {j} \<and>
         pm_extent p' = pm_extent p \<and> pm_reserved_ranges p' = pm_reserved_ranges p" by auto
  then have "j = i" using i(2) by simp
  then obtain p' where p': "pmm_free_frame p f = Some (p', Inr ())" "pmm_wf p'" "used p' = used p - {i}"
      "pm_extent p' = pm_extent p" "pm_reserved_ranges p' = pm_reserved_ranges p"
    using j(2) u(1) by auto
  note lay = same_layout [OF p'(4,5)]
  have "pm_free_count p' = Suc (pm_free_count p)"
  proof -
    have c: "card (used p') = card (used p) - 1" "card (used p) \<noteq> 0" using p'(3) u(1) by auto
    have "pm_free_count p' = pm_total p - card (used p')" "pm_free_count p = pm_total p - card (used p)"
      using p'(2) wf(1) lay(3) unfolding pmm_wf_def by simp_all
    then show ?thesis using c used_card_total [of p] by linarith
  qed
  moreover have "pmm_owned p' = pmm_owned p - {f}"
    using p'(3) lay i(2) by (auto simp: pmm_owned_def)
  moreover have "pmm_returnable p' = pmm_returnable p - {f}"
    using p'(3) lay i(2) by (auto simp: pmm_returnable_def owned_indices_def)
  moreover have "laid_as p0 p'" using p p'(2,4,5) wf(2) lay(4) by (simp add: laid_as_def pmm_inv_def)
  ultimately show ?thesis using p'(1) by blast
qed

lemma returnable_owned: "f \<in> pmm_returnable p \<Longrightarrow> f \<in> pmm_owned p"
  by (auto simp: pmm_returnable_def pmm_owned_def owned_indices_def)

definition unmapped_view :: "nat \<Rightarrow> nat list \<Rightarrow> (nat \<Rightarrow> translation) \<Rightarrow> nat \<Rightarrow> translation" where
  "unmapped_view base js f x = (if \<exists>i \<in> set js. page_number x = page_number (base + i * PAGE_SIZE) then Inl NotMapped else f x)"

text \<open>One page: it is unmapped and its frame is returned.\<close>

lemma unmap_one:
  assumes ok: "vm_ok (laid_as p0) pmm_owned (\<lambda>m a. tree_wf m (qa_root a)) (\<lambda>m a. tables m (qa_root a)) v"
    and cap: "resolve_address_space_cap t c = Inr h" and s: "get_address_space (vm_spaces v) h = Some s"
    and f: "view_at (vm_memory v) (as_inner s) va = Inr (f, fl)" "f \<in> pmm_returnable (vm_frames v)" and va: "va mod PAGE_SIZE = 0"
    and out: "\<And>k u. get_address_space (vm_spaces v) k = Some u \<Longrightarrow> f \<notin> tables (vm_memory v) (qa_root (as_inner u))"
  shows "\<exists>v1 p s'. cap_unmap qemu_mmu t v c va = Some (v1, Inr f) \<and> pmm_free_frame (vm_frames v1) f = Some (p, Inr ()) \<and>
    vm_ok (laid_as p0) pmm_owned (\<lambda>m a. tree_wf m (qa_root a)) (\<lambda>m a. tables m (qa_root a)) (v1\<lparr>vm_frames := p\<rparr>) \<and>
    get_address_space (vm_spaces v1) = (get_address_space (vm_spaces v))(h \<mapsto> s') \<and>
    pmm_owned p = pmm_owned (vm_frames v) - {f} \<and> pmm_returnable p = pmm_returnable (vm_frames v) - {f} \<and>
    pm_free_count p = Suc (pm_free_count (vm_frames v)) \<and>
    tables (vm_memory v1) (qa_root (as_inner s')) = tables (vm_memory v) (qa_root (as_inner s)) \<and>
    (\<forall>k u. get_address_space (vm_spaces v) k = Some u \<longrightarrow> k \<noteq> h \<longrightarrow>
       tables (vm_memory v1) (qa_root (as_inner u)) = tables (vm_memory v) (qa_root (as_inner u))) \<and>
    only_in (tables (vm_memory v) (qa_root (as_inner s))) (vm_memory v) (vm_memory v1) \<and>
    vm_views view_at v1 = (vm_views view_at v)(h \<mapsto> view_at (vm_memory v1) (as_inner s')) \<and>
    view_at (vm_memory v1) (as_inner s') =
      (\<lambda>x. if page_number x = page_number va then Inl NotMapped else view_at (vm_memory v) (as_inner s) x) \<and>
    vm_tlb v1 = vm_tlb v @ [va]"
proof -
  let ?T = "\<lambda>m s. tables m (qa_root (as_inner s))"
  obtain v1 s' r where w: "cap_unmap qemu_mmu t v c va = Some (v1, r)"
      "vm_ok (laid_as p0) pmm_owned (\<lambda>m a. tree_wf m (qa_root a)) (\<lambda>m a. tables m (qa_root a)) v1"
      "get_address_space (vm_spaces v1) = (get_address_space (vm_spaces v))(h \<mapsto> s')"
      "vm_frames v1 = vm_frames v" "?T (vm_memory v1) s' = ?T (vm_memory v) s"
      "only_in (?T (vm_memory v) s) (vm_memory v) (vm_memory v1)"
      "vm_views view_at v1 = (vm_views view_at v)(h \<mapsto> view_at (vm_memory v1) (as_inner s'))"
      "case r of
         Inr pa \<Rightarrow> vm_tlb v1 = vm_tlb v @ [va] \<and> (\<exists>fl. view_at (vm_memory v) (as_inner s) va = Inr (pa, fl)) \<and>
           view_at (vm_memory v1) (as_inner s') =
             (\<lambda>x. if page_number x = page_number va then Inl NotMapped else view_at (vm_memory v) (as_inner s) x)
       | Inl e \<Rightarrow> vm_tlb v1 = vm_tlb v \<and> view_at (vm_memory v1) (as_inner s') = view_at (vm_memory v) (as_inner s) \<and>
           (va mod PAGE_SIZE = 0 \<longrightarrow> (\<exists>x. e = MmuUnmapError x \<and> view_at (vm_memory v) (as_inner s) va = Inl x))"
    using qemu_laid.cap_unmap_ok [OF ok cap s, of va] by blast
  have r: "r = Inr f" using w(8) f(1) va by (cases r) auto
  obtain p where p: "pmm_free_frame (vm_frames v1) f = Some (p, Inr ())" "laid_as p0 p"
      "pmm_owned p = pmm_owned (vm_frames v) - {f}" "pm_free_count p = Suc (pm_free_count (vm_frames v))"
      "pmm_returnable p = pmm_returnable (vm_frames v) - {f}"
    using pmm_returns [OF qemu_laid.vm_okD(2) [OF w(2)], of f] f(2) unfolding w(4) by blast
  have others: "?T (vm_memory v1) u = ?T (vm_memory v) u" if "get_address_space (vm_spaces v) k = Some u" "k \<noteq> h" for k u
  proof -
    have "tree_wf (vm_memory v1) (qa_root (as_inner s'))" using qemu_laid.vm_okD(3) [OF w(2), of h s'] w(3) by simp
    from qemu_laid.others_keep_frames [OF ok s that _ this, of "vm_frames v"] show ?thesis using w(5,6) by simp
  qed
  have out1: "f \<notin> ?T (vm_memory v1) u" if "get_address_space (vm_spaces v1) k = Some u" for k u
    using that others out s w(3,5) by (auto split: if_splits)
  have dir: "direct_frame f" using pmm_owned_direct returnable_owned f(2) qemu_laid.vm_okD(2) [OF ok] by (auto simp: laid_as_def)
  have sub: "?T (vm_memory v1) u \<subseteq> pmm_owned p" if "get_address_space (vm_spaces v1) k = Some u" for k u
    using qemu_laid.vm_okD(4) [OF w(2) that] out1 [OF that] p(3) w(4) by auto
  have "vm_ok (laid_as p0) pmm_owned (\<lambda>m a. tree_wf m (qa_root a)) (\<lambda>m a. tables m (qa_root a)) (v1\<lparr>vm_frames := p\<rparr>)"
    by (rule qemu_laid.outside_write(1) [OF w(2) p(2) _ only_in_refl dir], erule sub, erule out1) simp_all
  then show ?thesis
    using w r p others by (intro exI [of _ v1] exI [of _ p] exI [of _ s']) simp
qed

text \<open>What undoing keeps and gives, with \<open>F\<close> the frames returned.\<close>

definition returned ::
    "pmm \<Rightarrow> address_space_handle \<Rightarrow> phys_frame set \<Rightarrow> (nat \<Rightarrow> translation) \<Rightarrow> (qemu_address_space, pmm) vm \<Rightarrow>
       (qemu_address_space, pmm) vm \<Rightarrow> bool" where
  "returned p0 h F view v v' \<longleftrightarrow>
     vm_ok (laid_as p0) pmm_owned (\<lambda>m a. tree_wf m (qa_root a)) (\<lambda>m a. tables m (qa_root a)) v' \<and>
     pmm_owned (vm_frames v') = pmm_owned (vm_frames v) - F \<and>
     pmm_returnable (vm_frames v') = pmm_returnable (vm_frames v) - F \<and>
     pm_free_count (vm_frames v') = pm_free_count (vm_frames v) + card F \<and>
     (\<forall>k. k \<noteq> h \<longrightarrow> get_address_space (vm_spaces v') k = get_address_space (vm_spaces v) k) \<and>
     (\<forall>k u. get_address_space (vm_spaces v) k = Some u \<longrightarrow> k \<noteq> h \<longrightarrow>
        tables (vm_memory v') (qa_root (as_inner u)) = tables (vm_memory v) (qa_root (as_inner u))) \<and>
     (\<exists>s s'. get_address_space (vm_spaces v) h = Some s \<and> get_address_space (vm_spaces v') h = Some s' \<and>
        tables (vm_memory v') (qa_root (as_inner s')) = tables (vm_memory v) (qa_root (as_inner s)) \<and>
        only_in (tables (vm_memory v) (qa_root (as_inner s))) (vm_memory v) (vm_memory v')) \<and>
     vm_views view_at v' = (vm_views view_at v)(h \<mapsto> view)"

lemma returned_trans:
  assumes "returned p0 h F f v v'" "returned p0 h G g v' v''" "F \<inter> G = {}" "finite F" "finite G"
  shows "returned p0 h (F \<union> G) g v v''"
proof -
  have "only_in (tables (vm_memory v) (qa_root (as_inner s))) (vm_memory v) (vm_memory v'')"
    if "get_address_space (vm_spaces v) h = Some s" for s
    using assms(1,2) that unfolding returned_def by (auto intro: only_in_trans)
  then show ?thesis
    using assms unfolding returned_def by (auto simp: card_Un_disjoint)
qed

lemma unmap_pages_ok:
  assumes "vm_ok (laid_as p0) pmm_owned (\<lambda>m a. tree_wf m (qa_root a)) (\<lambda>m a. tables m (qa_root a)) v"
    and "get_address_space (vm_spaces v) h = Some s"
    and cap: "resolve_address_space_cap t c = Inr h" and base: "base mod PAGE_SIZE = 0" "base + n * PAGE_SIZE \<le> 2 ^ 48"
    and js: "distinct js" "\<forall>i \<in> set js. i < n"
    and "\<forall>i \<in> set js. \<exists>fl. view_at (vm_memory v) (as_inner s) (base + i * PAGE_SIZE) = Inr (F i, fl)"
    and F: "inj_on F (set js)" and "F ` set js \<subseteq> pmm_returnable (vm_frames v)"
    and "\<forall>k u. get_address_space (vm_spaces v) k = Some u \<longrightarrow> tables (vm_memory v) (qa_root (as_inner u)) \<inter> F ` set js = {}"
  shows "\<exists>v'. unmap_pages qemu_mmu t c base js v = Some v' \<and>
    returned p0 h (F ` set js) (unmapped_view base js (view_at (vm_memory v) (as_inner s))) v v' \<and>
    vm_tlb v' = vm_tlb v @ map (\<lambda>i. base + i * PAGE_SIZE) js"
  using assms(1,2) js assms(8) F assms(10,11)
proof (induction js arbitrary: v s)
  case Nil
  have "vm_views view_at v = (vm_views view_at v)(h \<mapsto> view_at (vm_memory v) (as_inner s))"
    using Nil.prems(2) by (auto simp: vm_views_def fun_eq_iff)
  then show ?case using Nil.prems by (simp add: returned_def unmapped_view_def [abs_def])
next
  case (Cons i js)
  let ?va = "base + i * PAGE_SIZE" and ?T = "\<lambda>m s. tables m (qa_root (as_inner s))"
  have bound: "base + i * PAGE_SIZE \<le> 2 ^ 48" if "i < n" for i
    using run_bound [OF base(2)] that by simp
  have pn: "page_number (base + j * PAGE_SIZE) = page_number base + j" if "j < n" for j
    using page_number_run [of base j] run_bound [OF base(2), of "Suc j"] that by (simp add: PAGE_SIZE_def)
  have fresh: "F i \<notin> F ` set js" using Cons.prems(3,6) by auto
  obtain fl where fl: "view_at (vm_memory v) (as_inner s) ?va = Inr (F i, fl)" using Cons.prems(5) by auto
  have al: "?va mod PAGE_SIZE = 0" using base(1) by simp
  obtain v1 p s' where w: "cap_unmap qemu_mmu t v c ?va = Some (v1, Inr (F i))"
      "pmm_free_frame (vm_frames v1) (F i) = Some (p, Inr ())"
      "vm_ok (laid_as p0) pmm_owned (\<lambda>m a. tree_wf m (qa_root a)) (\<lambda>m a. tables m (qa_root a)) (v1\<lparr>vm_frames := p\<rparr>)"
      "get_address_space (vm_spaces v1) = (get_address_space (vm_spaces v))(h \<mapsto> s')"
      "pmm_owned p = pmm_owned (vm_frames v) - {F i}" "pmm_returnable p = pmm_returnable (vm_frames v) - {F i}" "pm_free_count p = Suc (pm_free_count (vm_frames v))"
      "?T (vm_memory v1) s' = ?T (vm_memory v) s"
      "\<forall>k u. get_address_space (vm_spaces v) k = Some u \<longrightarrow> k \<noteq> h \<longrightarrow> ?T (vm_memory v1) u = ?T (vm_memory v) u"
      "only_in (?T (vm_memory v) s) (vm_memory v) (vm_memory v1)"
      "vm_views view_at v1 = (vm_views view_at v)(h \<mapsto> view_at (vm_memory v1) (as_inner s'))"
      "view_at (vm_memory v1) (as_inner s') =
        (\<lambda>x. if page_number x = page_number ?va then Inl NotMapped else view_at (vm_memory v) (as_inner s) x)"
      "vm_tlb v1 = vm_tlb v @ [?va]"
    using unmap_one [OF Cons.prems(1) cap Cons.prems(2) fl _ al] Cons.prems(7,8) by auto
  let ?v = "v1\<lparr>vm_frames := p\<rparr>"
  have views1: "vm_views view_at ?v = vm_views view_at v1" by (simp add: vm_views_def fun_eq_iff)
  have "returned p0 h {F i} (view_at (vm_memory v1) (as_inner s')) v ?v"
    using w(3-11) Cons.prems(2) by (simp add: returned_def views1)
  moreover obtain v' where v': "unmap_pages qemu_mmu t c base js ?v = Some v'"
      "returned p0 h (F ` set js) (unmapped_view base js (view_at (vm_memory ?v) (as_inner s'))) ?v v'"
      "vm_tlb v' = vm_tlb ?v @ map (\<lambda>i. base + i * PAGE_SIZE) js"
  proof -
    have "get_address_space (vm_spaces ?v) h = Some s'" using w(4) by simp
    moreover have "\<forall>j \<in> set js. \<exists>fl. view_at (vm_memory ?v) (as_inner s') (base + j * PAGE_SIZE) = Inr (F j, fl)"
    proof
      fix j assume j: "j \<in> set js"
      then have "page_number (base + j * PAGE_SIZE) \<noteq> page_number ?va" using pn Cons.prems(3,4) by auto
      then show "\<exists>fl. view_at (vm_memory ?v) (as_inner s') (base + j * PAGE_SIZE) = Inr (F j, fl)"
        using w(12) Cons.prems(5) j by simp
    qed
    moreover have "F ` set js \<subseteq> pmm_returnable (vm_frames ?v)" using Cons.prems(7) w(6) fresh by (simp, blast)
    moreover have "\<forall>k u. get_address_space (vm_spaces ?v) k = Some u \<longrightarrow> ?T (vm_memory ?v) u \<inter> F ` set js = {}"
    proof (intro allI impI)
      fix k u assume k: "get_address_space (vm_spaces ?v) k = Some u"
      show "?T (vm_memory ?v) u \<inter> F ` set js = {}"
      proof (cases "k = h")
        case True
        then have "u = s'" using k w(4) by simp
        then show ?thesis using Cons.prems(2,8) w(8) by fastforce
      next
        case False
        then have "get_address_space (vm_spaces v) k = Some u" using k w(4) by simp
        then show ?thesis using Cons.prems(8) w(9) False by fastforce
      qed
    qed
    ultimately show ?thesis using Cons.IH [OF w(3)] Cons.prems(3,4,6) that by (simp add: inj_on_insert) blast
  qed
  ultimately have "returned p0 h ({F i} \<union> F ` set js) (unmapped_view base js (view_at (vm_memory v1) (as_inner s'))) v v'"
    using fresh by (intro returned_trans) auto
  moreover have "unmapped_view base js (view_at (vm_memory v1) (as_inner s')) = unmapped_view base (i # js) (view_at (vm_memory v) (as_inner s))"
    unfolding w(12) by (auto simp: unmapped_view_def fun_eq_iff)
  moreover have "unmap_pages qemu_mmu t c base (i # js) v = Some v'"
    using w(1,2) v'(1) page_va_exact [OF bound] Cons.prems(4) by simp
  ultimately show ?case using v'(3) w(13) by (intro exI [of _ v']) simp
qed

text \<open>The loop as the source runs it, from the last page to the first.\<close>

lemma unmap_run:
  assumes "vm_ok (laid_as p0) pmm_owned (\<lambda>m a. tree_wf m (qa_root a)) (\<lambda>m a. tables m (qa_root a)) v"
    and "get_address_space (vm_spaces v) h = Some s"
    and "resolve_address_space_cap t c = Inr h" "base mod PAGE_SIZE = 0" "base + n * PAGE_SIZE \<le> 2 ^ 48"
    and "\<forall>i < n. \<exists>fl. view_at (vm_memory v) (as_inner s) (base + i * PAGE_SIZE) = Inr (F i, fl)"
    and "inj_on F {..<n}" "F ` {..<n} \<subseteq> pmm_returnable (vm_frames v)"
    and "\<forall>k u. get_address_space (vm_spaces v) k = Some u \<longrightarrow> tables (vm_memory v) (qa_root (as_inner u)) \<inter> F ` {..<n} = {}"
  shows "\<exists>v'. unmap_pages qemu_mmu t c base (rev [0..<n]) v = Some v' \<and>
    returned p0 h (F ` {..<n}) (unmapped_view base [0..<n] (view_at (vm_memory v) (as_inner s))) v v' \<and>
    vm_tlb v' = vm_tlb v @ map (\<lambda>i. base + i * PAGE_SIZE) (rev [0..<n])"
proof -
  have "set (rev [0..<n]) = {..<n}" by auto
  moreover have "unmapped_view base (rev [0..<n]) = unmapped_view base [0..<n]" by (simp add: unmapped_view_def fun_eq_iff)
  ultimately show ?thesis
    using unmap_pages_ok [OF assms(1-5), of "rev [0..<n]" F] assms(6-9) by simp
qed

section \<open>Undoing a load\<close>

text \<open>A capability that was just minted is a leaf.\<close>

lemma added_leaf:
  assumes "cap_wf t" "adds_node t t' c n" "cn_parent n \<noteq> Some (ch_index c)"
  shows "\<not> has_children t' c"
proof -
  have none: "forest (ent t) (ch_index c) = None" using assms(2) by (simp add: adds_node_def forest_def)
  have "(i, ch_index c) \<notin> child_rel (forest (ent t'))" for i
  proof
    assume "(i, ch_index c) \<in> child_rel (forest (ent t'))"
    then obtain m where m: "forest (ent t') i = Some m" "cn_parent m = Some (ch_index c)" by (auto simp: child_rel_def)
    then have "forest (ent t) i = Some m" using assms(2,3) by (auto simp: adds_node_def split: if_splits)
    then show False using forest_parentD [of "forest (ent t)" i m] m(2) none assms(1) unfolding cap_wf_def by force
  qed
  then have "descendants (forest (ent t')) (ch_index c) \<subseteq> {}" by (intro descendants_least) auto
  then show ?thesis by (simp add: has_children_def)
qed

lemma drop_leaf:
  assumes "cap_wf t" "resolve_address_space_cap t c = Inr h" "\<not> has_children t c"
  shows "\<exists>t'. cap_drop t c = Some (t', Inr ()) \<and> removes_nodes t t' {ch_index c}"
proof -
  have "node_at t c \<noteq> None"
    using assms(2) by (auto simp: resolve_address_space_cap_def lookup_node split: option.splits)
  then show ?thesis using cap_drop_spec [OF assms(1), of c] assms(3) by simp
qed

text \<open>Both loops: first the stack's pages, then the image's.\<close>

lemma rollback_ok:
  assumes ok: "vm_ok (laid_as p0) pmm_owned (\<lambda>m a. tree_wf m (qa_root a)) (\<lambda>m a. tables m (qa_root a)) v"
    and t: "cap_wf t" "resolve_address_space_cap t c = Inr h" "\<not> has_children t c"
    and s: "get_address_space (vm_spaces v) h = Some s"
    and ib: "ib mod PAGE_SIZE = 0" "ib + im * PAGE_SIZE \<le> sb" and sb: "sb mod PAGE_SIZE = 0" "sb + sm * PAGE_SIZE \<le> 2 ^ 48"
    and image: "\<forall>i < im. \<exists>fl. view_at (vm_memory v) (as_inner s) (ib + i * PAGE_SIZE) = Inr (F i, fl)"
    and stack: "\<forall>i < sm. \<exists>fl. view_at (vm_memory v) (as_inner s) (sb + i * PAGE_SIZE) = Inr (G i, fl)"
    and frames: "inj_on F {..<im}" "inj_on G {..<sm}" "F ` {..<im} \<inter> G ` {..<sm} = {}"
      "F ` {..<im} \<union> G ` {..<sm} \<subseteq> pmm_returnable (vm_frames v)"
    and out: "\<forall>k u. get_address_space (vm_spaces v) k = Some u \<longrightarrow>
      tables (vm_memory v) (qa_root (as_inner u)) \<inter> (F ` {..<im} \<union> G ` {..<sm}) = {}"
  shows "\<exists>t' v'. rollback qemu_mmu t v c ib sb im sm = Some (t', v') \<and> removes_nodes t t' {ch_index c} \<and>
    returned p0 h (F ` {..<im} \<union> G ` {..<sm})
      (unmapped_view ib [0..<im] (unmapped_view sb [0..<sm] (view_at (vm_memory v) (as_inner s)))) v v' \<and>
    vm_tlb v' = vm_tlb v @ map (\<lambda>i. sb + i * PAGE_SIZE) (rev [0..<sm]) @ map (\<lambda>i. ib + i * PAGE_SIZE) (rev [0..<im])"
proof -
  have GF: "G ` {..<sm} \<subseteq> pmm_returnable (vm_frames v)"
      "\<forall>k u. get_address_space (vm_spaces v) k = Some u \<longrightarrow> tables (vm_memory v) (qa_root (as_inner u)) \<inter> G ` {..<sm} = {}"
    using frames(4) out by blast+
  obtain v1 where v1: "unmap_pages qemu_mmu t c sb (rev [0..<sm]) v = Some v1"
      "returned p0 h (G ` {..<sm}) (unmapped_view sb [0..<sm] (view_at (vm_memory v) (as_inner s))) v v1"
      "vm_tlb v1 = vm_tlb v @ map (\<lambda>i. sb + i * PAGE_SIZE) (rev [0..<sm])"
    using unmap_run [OF ok s t(2) sb stack frames(2) GF] by blast
  have out': "tables (vm_memory v) (qa_root (as_inner u)) \<inter> F ` {..<im} = {}" if "get_address_space (vm_spaces v) k = Some u" for k u
    using out that by blast
  obtain s1 where s1: "get_address_space (vm_spaces v1) h = Some s1"
      "tables (vm_memory v1) (qa_root (as_inner s1)) = tables (vm_memory v) (qa_root (as_inner s))"
    using v1(2) s by (auto simp: returned_def)
  have view1: "view_at (vm_memory v1) (as_inner s1) = unmapped_view sb [0..<sm] (view_at (vm_memory v) (as_inner s))"
    using v1(2) s1(1) by (simp add: returned_def vm_views_def fun_upd_def fun_eq_iff split: if_splits)
  have apart: "page_number (ib + i * PAGE_SIZE) \<noteq> page_number (sb + j * PAGE_SIZE)" if "i < im" "j < sm" for i j
  proof -
    have "Suc i * PAGE_SIZE \<le> im * PAGE_SIZE" "Suc j * PAGE_SIZE \<le> sm * PAGE_SIZE" using that by (intro mult_right_mono; simp)+
    then have lt: "ib + i * PAGE_SIZE + PAGE_SIZE \<le> sb + j * PAGE_SIZE" "sb + j * PAGE_SIZE + PAGE_SIZE \<le> 2 ^ 48"
      using ib(2) sb(2) by simp_all
    moreover have "(ib + i * PAGE_SIZE) mod 4096 = 0" "(sb + j * PAGE_SIZE) mod 4096 = 0"
      using ib(1) sb(1) by (simp_all add: PAGE_SIZE_def)
    ultimately show ?thesis by (auto simp: page_number_def PAGE_SIZE_def elim!: dvdE simp flip: dvd_eq_mod_eq_0)
  qed
  have image1: "\<forall>i < im. \<exists>fl. view_at (vm_memory v1) (as_inner s1) (ib + i * PAGE_SIZE) = Inr (F i, fl)"
    unfolding view1 using image apart by (auto simp: unmapped_view_def)
  have out1: "\<forall>k u. get_address_space (vm_spaces v1) k = Some u \<longrightarrow>
      tables (vm_memory v1) (qa_root (as_inner u)) \<inter> F ` {..<im} = {}"
  proof (intro allI impI)
    fix k u assume k: "get_address_space (vm_spaces v1) k = Some u"
    show "tables (vm_memory v1) (qa_root (as_inner u)) \<inter> F ` {..<im} = {}"
    proof (cases "k = h")
      case True
      then show ?thesis using k s1 out' [OF s] by simp
    next
      case False
      then have "get_address_space (vm_spaces v) k = Some u" using k v1(2) by (simp add: returned_def)
      moreover from this have "tables (vm_memory v1) (qa_root (as_inner u)) = tables (vm_memory v) (qa_root (as_inner u))"
        using v1(2) False by (simp add: returned_def)
      ultimately show ?thesis using out' by simp
    qed
  qed
  have F1: "F ` {..<im} \<subseteq> pmm_returnable (vm_frames v1)" "ib + im * PAGE_SIZE \<le> 2 ^ 48"
      "vm_ok (laid_as p0) pmm_owned (\<lambda>m a. tree_wf m (qa_root a)) (\<lambda>m a. tables m (qa_root a)) v1"
    using v1(2) frames(3,4) ib(2) sb(2) by (auto simp: returned_def)
  obtain v2 where v2: "unmap_pages qemu_mmu t c ib (rev [0..<im]) v1 = Some v2"
      "returned p0 h (F ` {..<im}) (unmapped_view ib [0..<im] (view_at (vm_memory v1) (as_inner s1))) v1 v2"
      "vm_tlb v2 = vm_tlb v1 @ map (\<lambda>i. ib + i * PAGE_SIZE) (rev [0..<im])"
    using unmap_run [OF F1(3) s1(1) t(2) ib(1) F1(2) image1 frames(1) F1(1) out1] by blast
  obtain t' where t': "cap_drop t c = Some (t', Inr ())" "removes_nodes t t' {ch_index c}" using drop_leaf [OF t] by blast
  have "rollback qemu_mmu t v c ib sb im sm = Some (t', v2)" using v1(1) v2(1) t'(1) by (simp add: rollback_def)
  moreover have "returned p0 h (F ` {..<im} \<union> G ` {..<sm})
      (unmapped_view ib [0..<im] (unmapped_view sb [0..<sm] (view_at (vm_memory v) (as_inner s)))) v v2"
    using returned_trans [OF v1(2) v2(2)] frames(3) unfolding view1 by (simp add: Un_commute Int_commute)
  ultimately show ?thesis using t'(2) v1(3) v2(3) by (intro exI [of _ t'] exI [of _ v2]) simp
qed

end
