(* ===== verification/TaskLoader_Claims.thy ===== *)
theory TaskLoader_Claims
  imports TaskLoader_Undo
begin

text \<open>
  The properties of the task loader on the QEMU virt board: a request is refused
  before anything changes, or the new address space holds exactly the image and
  a stack; undoing a partial load frees what it mapped; a task is minted from a
  loaded image or nothing is left behind.
\<close>

section \<open>The verdict on a request\<close>

text \<open>
  Why a request is refused, in the order of the source's checks, in exact
  arithmetic: the source computes with saturation, which no accepted request
  reaches. \<open>pa\<close> is where the image lies in physical memory.
\<close>

definition load_preflight ::
    "nat \<times> nat \<Rightarrow> cap_table \<Rightarrow> (qemu_address_space, pmm) vm \<Rightarrow> cap_handle \<Rightarrow> nat \<Rightarrow> nat \<Rightarrow> load_error option" where
  "load_preflight img t v parent base stack =
     (let pages = div_ceil (snd img) PAGE_SIZE + stack;
          needed = 1 + pages + intermediate_frame_count base (div_ceil (snd img) PAGE_SIZE) stack;
          pa = fst img - KERNEL_HIGH_HALF_OFFSET;
          p = vm_frames v
      in if snd img = 0 then Some InvalidImage
         else if stack = 0 then Some InvalidStackSize
         else if base mod PAGE_SIZE \<noteq> 0 then Some (MisalignedImageBaseVa base)
         else (case node_at t parent of
             None \<Rightarrow> Some (InvalidParentCap InvalidHandle)
           | Some n \<Rightarrow>
               if cap_kind (cn_cap n) \<noteq> KindAddressSpace then Some (InvalidParentCap WrongKind)
               else if base + pages * PAGE_SIZE > 2 ^ 48
               then Some (InvalidImageBaseVa base (min (base + min (pages * PAGE_SIZE) usize_max) usize_max))
               else if needed > pm_free_count p then Some (FrameBudgetExceeded needed (pm_free_count p))
               else if \<exists>i < pm_total p. i \<notin> reserved_frames p \<and> frame_pa p i < pa + snd img \<and> pa < frame_pa p i + PAGE_SIZE
               then Some ImageOverlapsAllocatableMemory
               else None))"

definition load_verdict ::
    "nat \<times> nat \<Rightarrow> cap_table \<Rightarrow> (qemu_address_space, pmm) vm \<Rightarrow> cap_handle \<Rightarrow> cap_rights \<Rightarrow> nat \<Rightarrow> nat \<Rightarrow> load_error option" where
  "load_verdict img t v parent r base stack =
     (case load_preflight img t v parent base stack of
        Some e \<Rightarrow> Some e
      | None \<Rightarrow> map_option AddressSpaceCreationFailed (create_verdict t (vm_spaces v) parent r))"

lemma qemu_vm_laid:
  "qemu_vm_ok v \<longleftrightarrow> vm_ok (laid_as (vm_frames v)) pmm_owned (\<lambda>m a. tree_wf m (qa_root a)) (\<lambda>m a. tables m (qa_root a)) v"
  by (auto simp: qemu_vm_ok_def vm_ok_def laid_as_def)

lemma laid_vm_ok:
  "vm_ok (laid_as p0) pmm_owned (\<lambda>m a. tree_wf m (qa_root a)) (\<lambda>m a. tables m (qa_root a)) v \<Longrightarrow> qemu_vm_ok v"
  by (simp add: qemu_vm_ok_def vm_ok_def laid_as_def)

lemma kernel_pointer:
  assumes "KERNEL_HIGH_HALF_OFFSET \<le> a" "a < KERNEL_HIGH_HALF_OFFSET + 2 ^ 32"
  shows "kernel_va_to_phys a = Some (a - KERNEL_HIGH_HALF_OFFSET)"
proof -
  define d where "d = a - KERNEL_HIGH_HALF_OFFSET"
  have a: "a = KERNEL_HIGH_HALF_OFFSET + d" "d < 2 ^ 32" using assms by (simp_all add: d_def)
  have "phys_to_kernel_va d = Some a"
    using a by (simp add: phys_to_kernel_va_eq KERNEL_HIGH_HALF_OFFSET_def)
  then show ?thesis using direct_map_roundtrip a(1) by simp
qed

text \<open>What is left of the loader when its checks are read this way.\<close>

definition load_rest ::
    "nat \<times> nat \<Rightarrow> cap_table \<Rightarrow> (qemu_address_space, pmm) vm \<Rightarrow> cap_handle \<Rightarrow> cap_rights \<Rightarrow> nat \<Rightarrow> nat \<Rightarrow>
       (cap_table \<times> (qemu_address_space, pmm) vm, load_error, loaded_image) outcome" where
  "load_rest img t v parent r base stack = do {
     ((t1, v1), r) \<leftarrow> cap_create_address_space qemu_mmu pmm_alloc_frame t v parent r;
     case r of
       Inl e \<Rightarrow> Some ((t1, v1), Inl (AddressSpaceCreationFailed e))
     | Inr c \<Rightarrow>
         (let sb = base + div_ceil (snd img) PAGE_SIZE * PAGE_SIZE
          in try_bind (image_pages_loop qemu_mmu t1 c (base, sb) img [0..<div_ceil (snd img) PAGE_SIZE] 0 v1) (\<lambda>(t2, v2) im.
             try_bind (stack_pages_loop qemu_mmu t2 c (base, sb) im [0..<stack] 0 v2) (\<lambda>s _.
             Some (s, Inr \<lparr>li_as_cap = c, li_entry_va = base, li_stack_top_va = sb + stack * PAGE_SIZE,
                           li_image_bytes = snd img, li_stack_bytes = stack * PAGE_SIZE\<rparr>))))
   }"

lemma load_image_checks:
  assumes p: "pmm_inv (vm_frames v)" and src: "KERNEL_HIGH_HALF_OFFSET \<le> fst img" "fst img < KERNEL_HIGH_HALF_OFFSET + 2 ^ 32"
  shows "load_image qemu_mmu img t v parent r base stack =
    (case load_preflight img t v parent base stack of
       Some e \<Rightarrow> Some ((t, v), Inl e)
     | None \<Rightarrow> load_rest img t v parent r base stack)"
proof -
  let ?ip = "div_ceil (snd img) PAGE_SIZE" and ?p = "vm_frames v"
  let ?pa = "fst img - KERNEL_HIGH_HALF_OFFSET"
  let ?fin = "saturating_add base (saturating_mul (saturating_add ?ip stack) PAGE_SIZE)"
  have st: "st_free_frames (pmm_get_stats ?p) = pm_free_count ?p" by (simp add: pmm_get_stats_def)
  have wf: "pmm_wf ?p" using p by (simp add: pmm_inv_def)
  have e: "?fin = min (base + min ((?ip + stack) * PAGE_SIZE) usize_max) usize_max"
    by (auto simp: saturating_add_def saturating_mul_def min_def PAGE_SIZE_def)
  have lim: "?fin > USERSPACE_VA_LIMIT \<longleftrightarrow> base + (?ip + stack) * PAGE_SIZE > 2 ^ 48"
    unfolding e by (auto simp: USERSPACE_VA_LIMIT_def usize_max_def min_def)
  show ?thesis
  proof (cases "snd img = 0 \<or> stack = 0 \<or> base mod PAGE_SIZE \<noteq> 0")
    case True
    then show ?thesis by (auto simp: load_image_def load_preflight_def Let_def)
  next
    case ok: False
    show ?thesis
    proof (cases "node_at t parent")
      case None
      then show ?thesis using ok by (simp add: load_image_def load_preflight_def Let_def lookup_node)
    next
      case (Some n)
      have l: "cap_lookup t parent = Inr (cn_cap n)" using Some by (simp add: lookup_node)
      show ?thesis
      proof (cases "cap_kind (cn_cap n) \<noteq> KindAddressSpace \<or> base + (?ip + stack) * PAGE_SIZE > 2 ^ 48")
        case True
        then show ?thesis using ok l Some lim
          by (auto simp: load_image_def load_preflight_def Let_def e)
      next
        case fits: False
        have b: "base + (?ip + stack) * PAGE_SIZE \<le> 2 ^ 48" using fits by simp
        have pos: "0 < ?ip + stack" using ok by simp
        have small: "?ip + stack \<le> 2 ^ 48" "snd img \<le> 2 ^ 48"
          using b div_ceil_le_iff [of ?ip "snd img"] by (simp_all add: PAGE_SIZE_def)
        have add: "saturating_add (saturating_add (saturating_add 1 ?ip) stack) (intermediate_frame_count base ?ip stack) =
            1 + (?ip + stack) + intermediate_frame_count base ?ip stack"
          using small intermediate_covers(2) [OF pos b] by (simp add: saturating_add_def usize_max_def)
        have over: "could_yield_pa_overlapping ?p ?pa (saturating_add ?pa (snd img)) \<longleftrightarrow>
            (\<exists>i < pm_total ?p. i \<notin> reserved_frames ?p \<and> frame_pa ?p i < ?pa + snd img \<and> ?pa < frame_pa ?p i + PAGE_SIZE)"
        proof -
          define pa where "pa = ?pa"
          have "pa < 2 ^ 32" using src by (simp add: pa_def)
          then have "saturating_add pa (snd img) = pa + snd img" using small(2) by (simp add: saturating_add_def usize_max_def)
          then show ?thesis using ok unfolding pa_def [symmetric] by (simp add: could_yield_iff [OF wf])
        qed
        have addrs: "saturating_mul ?ip PAGE_SIZE = ?ip * PAGE_SIZE" "saturating_add base (?ip * PAGE_SIZE) = base + ?ip * PAGE_SIZE"
            "saturating_mul stack PAGE_SIZE = stack * PAGE_SIZE"
            "saturating_add (base + ?ip * PAGE_SIZE) (stack * PAGE_SIZE) = base + ?ip * PAGE_SIZE + stack * PAGE_SIZE"
          using b by (simp_all add: saturating_add_def saturating_mul_def usize_max_def add_mult_distrib)
        show ?thesis
          using ok fits l Some lim
          unfolding load_image_def load_preflight_def load_rest_def Let_def st add kernel_pointer [OF src]
          by (simp add: st add over addrs) blast
      qed
    qed
  qed
qed


lemma preflight_source:
  assumes "pmm_inv (vm_frames v)" "load_preflight img t v parent base stack = None" "KERNEL_HIGH_HALF_OFFSET \<le> fst img"
  shows "source_safe (vm_frames v) img"
  unfolding source_safe_def
proof (intro allI impI)
  fix p f assume p: "laid_as (vm_frames v) p" "f \<in> pmm_returnable p"
  let ?pa = "fst img - KERNEL_HIGH_HALF_OFFSET"
  have "pm_extent p = pm_extent (vm_frames v)" "pm_reserved_ranges p = pm_reserved_ranges (vm_frames v)"
    using p(1) by (simp_all add: laid_as_def)
  note lay = same_layout [OF this]
  obtain i where i: "i \<in> owned_indices p" "f = PhysFrame (frame_pa p i)" using p(2) by (auto simp: pmm_returnable_def)
  then have "i < pm_total (vm_frames v)" "i \<notin> reserved_frames (vm_frames v)"
    using used_bound [of p] lay by (auto simp: owned_indices_def)
  then have "\<not> (frame_pa (vm_frames v) i < ?pa + snd img \<and> ?pa < frame_pa (vm_frames v) i + PAGE_SIZE)"
    using assms(2) unfolding load_preflight_def Let_def by (auto split: if_splits option.splits)
  then show "frame_bytes f \<inter> {fst img..<fst img + snd img} = {}"
    using i(2) lay(1) assms(3) by (auto simp: frame_bytes_def kva_def KERNEL_HIGH_HALF_OFFSET_def PAGE_SIZE_def)
qed

text \<open>The new address space before its first page.\<close>

lemma load_start:
  assumes ok: "qemu_vm_ok v" and t: "cap_wf t" and go: "create_verdict t (vm_spaces v) parent r = None"
    and room: "pm_free_count (vm_frames v) \<noteq> 0"
  shows "\<exists>n t' v' c h. node_at t parent = Some n \<and>
    cap_create_address_space qemu_mmu pmm_alloc_frame t v parent r = Some ((t', v'), Inr c) \<and>
    adds_node t t' c \<lparr>cn_cap = \<lparr>cap_rights = r, cap_object = CapAddressSpace h\<rparr>,
                      cn_parent = Some (ch_index parent), cn_depth = Suc (cn_depth n)\<rparr> \<and>
    get_address_space (vm_spaces v) h = None \<and> resolve_address_space_cap t' c = Inr h \<and> loaded v h base fl ct [] v'"
proof -
  have laid: "vm_ok (laid_as (vm_frames v)) pmm_owned (\<lambda>m a. tree_wf m (qa_root a)) (\<lambda>m a. tables m (qa_root a)) v"
    using ok by (simp only: qemu_vm_laid)
  obtain n t' v' c h root where w: "node_at t parent = Some n"
      "cap_create_address_space qemu_mmu pmm_alloc_frame t v parent r = Some ((t', v'), Inr c)"
      "adds_node t t' c \<lparr>cn_cap = \<lparr>cap_rights = r, cap_object = CapAddressSpace h\<rparr>,
                      cn_parent = Some (ch_index parent), cn_depth = Suc (cn_depth n)\<rparr>"
      "vm_ok (laid_as (vm_frames v)) pmm_owned (\<lambda>m a. tree_wf m (qa_root a)) (\<lambda>m a. tables m (qa_root a)) v'"
      "vm_views view_at v h = None" "vm_views view_at v' = (vm_views view_at v)(h \<mapsto> (\<lambda>_. Inl NotMapped))"
      "root \<notin> pmm_owned (vm_frames v)" "pmm_owned (vm_frames v') = insert root (pmm_owned (vm_frames v))" "direct_frame root"
      "pm_free_count (vm_frames v) = Suc (pm_free_count (vm_frames v'))" "vm_tlb v' = vm_tlb v"
      "vm_memory v' = zero_frame (vm_memory v) root"
      "get_address_space (vm_spaces v') =
         (get_address_space (vm_spaces v))(h \<mapsto> \<lparr>as_inner = mmu_create_address_space (qemu_mmu :: (qemu_address_space, pmm) mmu) root\<rparr>)"
    using qemu_laid.create_ok [OF laid t go room] by blast
  have q: "qa_root (mmu_create_address_space (qemu_mmu :: (qemu_address_space, pmm) mmu) root) = root" by (simp add: qemu_mmu_def qemu_create_address_space_def)
  have z: "entry (vm_memory v') root i = 0" if "i < 512" for i using entry_zero_frame [OF that] w(12) by simp
  have paths: "table_paths (vm_memory v') root = {[]}" by (rule zero_root(3) [OF w(9)]) (erule z)
  have new: "tables (vm_memory v') root = {root}"
      "view_at (vm_memory v') (mmu_create_address_space (qemu_mmu :: (qemu_address_space, pmm) mmu) root) = (\<lambda>_. Inl NotMapped)"
    using qemu_created [OF w(9,12) refl [of "mmu_create_address_space (qemu_mmu :: (qemu_address_space, pmm) mmu) root"]] q by simp_all
  have "pmm_owned (vm_frames v') - pmm_owned (vm_frames v) = {root}" using w(7,8) by auto
  then have "loaded v h base fl ct [] v'"
    unfolding loaded_def using w(4,6-13) paths new q subset_insertI [of "pmm_owned (vm_frames v)" root] only_in_zero [of root "vm_memory v"] by (simp add: run_view_Nil)
  moreover have "get_address_space (vm_spaces v) h = None" using w(5) by (simp add: vm_views_def)
  moreover have "resolve_address_space_cap t' c = Inr h"
    using adds_node_at [OF w(3)] by (simp add: resolve_address_space_cap_def lookup_node)
  ultimately show ?thesis using w(1-3) by blast
qed


lemma effective_page_flags: "mf_effective (page_flags n i) = page_flags n i"
  by (simp add: page_flags_def flags_user_execute_def flags_user_write_def mf_effective_def mf_ALL_def Let_def
      mf_contains_def mf_union_def mf_intersection_def mf_consts)

lemma run_view_region:
  assumes "base mod PAGE_SIZE = 0" "base + length fs * PAGE_SIZE \<le> 2 ^ 48" "va < 2 ^ 48"
  shows "run_view base (page_flags ip) fs va =
    (if base \<le> va \<and> va < base + length fs * PAGE_SIZE
     then Inr (fs ! ((va - base) div PAGE_SIZE), page_flags ip ((va - base) div PAGE_SIZE)) else Inl NotMapped)"
proof -
  obtain b where b: "base = b * 4096" using assms(1) by (auto simp: PAGE_SIZE_def mod_eq_0_iff_dvd elim!: dvdE)
  define q r where "q = va div 4096" "r = va mod 4096"
  then have va: "va = q * 4096 + r" "r < 4096" by simp_all
  have n: "page_number va = q" using assms(3) va by (simp add: page_number_def)
  show ?thesis
  proof (cases "length fs = 0")
    case True
    then show ?thesis by (simp add: run_view_def)
  next
    case False
    then obtain m where "length fs = Suc m" using not0_implies_Suc by blast
    then have "b < 2 ^ 36" using assms(2) b by (simp add: PAGE_SIZE_def)
    then have nb: "page_number base = b" by (simp add: page_number_def b)
    have le: "base \<le> va \<longleftrightarrow> b \<le> q" unfolding b va(1) using va(2) by linarith
    have d: "(va - base) div PAGE_SIZE = q - b" if "b \<le> q"
    proof -
      have "va - base = (q - b) * 4096 + r" unfolding b va(1) using that by (simp add: diff_mult_distrib)
      then show ?thesis using va(2) by (simp add: PAGE_SIZE_def)
    qed
    have lt: "va < base + length fs * PAGE_SIZE \<longleftrightarrow> q < b + length fs"
      unfolding b va(1) PAGE_SIZE_def using va(2) by linarith
    show ?thesis unfolding run_view_def n nb le lt effective_page_flags using d by auto
  qed
qed


lemma load_rest_runs:
  assumes ok: "qemu_vm_ok v" and t: "cap_wf t" and src: "KERNEL_HIGH_HALF_OFFSET \<le> fst img"
    and pre: "load_preflight img t v parent base stack = None" and go: "create_verdict t (vm_spaces v) parent r = None"
    and ip: "ip = div_ceil (snd img) PAGE_SIZE"
  shows "\<exists>n t' v' c h fs. node_at t parent = Some n \<and>
    load_rest img t v parent r base stack = Some ((t', v'), Inr
      \<lparr>li_as_cap = c, li_entry_va = base, li_stack_top_va = base + (ip + stack) * PAGE_SIZE,
       li_image_bytes = snd img, li_stack_bytes = stack * PAGE_SIZE\<rparr>) \<and>
    adds_node t t' c \<lparr>cn_cap = \<lparr>cap_rights = r, cap_object = CapAddressSpace h\<rparr>,
                      cn_parent = Some (ch_index parent), cn_depth = Suc (cn_depth n)\<rparr> \<and>
    get_address_space (vm_spaces v) h = None \<and> length fs = ip + stack \<and>
    loaded v h base (page_flags ip) (image_byte (vm_memory v) img) fs v'"
proof -
  have inv: "pmm_inv (vm_frames v)" using qemu.vm_okD(2) ok by (simp add: qemu_vm_ok_def)
  have fits: "0 < ip + stack" "base mod PAGE_SIZE = 0" "base + (ip + stack) * PAGE_SIZE \<le> 2 ^ 48"
      "1 + (ip + stack) + intermediate_frame_count base ip stack \<le> pm_free_count (vm_frames v)"
    using pre ip unfolding load_preflight_def Let_def by (auto split: if_splits option.splits)
  have b: "budget v base (ip + stack)"
    using intermediate_covers(1) [OF fits(1,3)] fits(4) by (simp add: budget_def)
  have len: "snd img \<le> ip * PAGE_SIZE" using div_ceil_le_iff [of ip "snd img"] ip by simp
  obtain n t' v1 c h where w: "node_at t parent = Some n"
      "cap_create_address_space qemu_mmu pmm_alloc_frame t v parent r = Some ((t', v1), Inr c)"
      "adds_node t t' c \<lparr>cn_cap = \<lparr>cap_rights = r, cap_object = CapAddressSpace h\<rparr>,
                      cn_parent = Some (ch_index parent), cn_depth = Suc (cn_depth n)\<rparr>"
      "get_address_space (vm_spaces v) h = None" "resolve_address_space_cap t' c = Inr h"
      "loaded v h base (page_flags ip) (image_byte (vm_memory v) img) [] v1"
    using load_start [OF ok t go, where base = base and fl = "page_flags ip" and ct = "image_byte (vm_memory v) img"] fits(4) by auto
  let ?sb = "base + ip * PAGE_SIZE"
  obtain fs2 v2 where i: "image_pages_loop qemu_mmu t' c (base, ?sb) img [0..<ip] 0 v1 = Some ((t', v2), Inr ip)"
      "length fs2 = ip" "loaded v h base (page_flags ip) (image_byte (vm_memory v) img) fs2 v2"
    using image_loop [OF w(6) _ b _ w(5) fits(2,3) preflight_source [OF inv pre src], of ?sb] by auto
  obtain fs3 v3 where s: "stack_pages_loop qemu_mmu t' c (base, ?sb) ip [0..<stack] 0 v2 = Some ((t', v3), Inr stack)"
      "length fs3 = ip + stack" "loaded v h base (page_flags ip) (image_byte (vm_memory v) img) fs3 v3"
    using stack_loop [OF i(3) _ _ b w(5) fits(2,3) len, of 0 base ip] i(2) by auto
  have "load_rest img t v parent r base stack = Some ((t', v3), Inr
      \<lparr>li_as_cap = c, li_entry_va = base, li_stack_top_va = base + (ip + stack) * PAGE_SIZE,
       li_image_bytes = snd img, li_stack_bytes = stack * PAGE_SIZE\<rparr>)"
    unfolding load_rest_def ip [symmetric] w(2) using i(1) s(1) by (simp add: Let_def add_mult_distrib add.assoc)
  then show ?thesis using w(1,3,4) s(2,3) by blast
qed

text \<open>What the invariant says of translations.\<close>

lemma loaded_translates:
  assumes L: "loaded v h base (page_flags ip) ct fs v'" and ok: "qemu_vm_ok v"
    and b: "base mod PAGE_SIZE = 0" "base + length fs * PAGE_SIZE \<le> 2 ^ 48"
  shows "qemu_vm_ok v'" "k \<noteq> h \<Longrightarrow> vm_translates v' k va = vm_translates v k va"
    "va < 2 ^ 48 \<Longrightarrow> vm_translates v' h va = Some
       (if base \<le> va \<and> va < base + length fs * PAGE_SIZE
        then Inr (fs ! ((va - base) div PAGE_SIZE),
                  if (va - base) div PAGE_SIZE < ip then flags_user_execute else flags_user_write)
        else Inl NotMapped)"
proof -
  show ok': "qemu_vm_ok v'" by (rule laid_vm_ok [OF loadedD(1) [OF L]])
  show "vm_translates v' k va = vm_translates v k va" if "k \<noteq> h"
    using loadedD(5) [OF L that] by (simp add: vm_translates_views ok ok')
  obtain s where "get_address_space (vm_spaces v') h = Some s" "view_at (vm_memory v') (as_inner s) = run_view base (page_flags ip) fs"
    by (rule loaded_space [OF L])
  then show "vm_translates v' h va = Some
       (if base \<le> va \<and> va < base + length fs * PAGE_SIZE
        then Inr (fs ! ((va - base) div PAGE_SIZE),
                  if (va - base) div PAGE_SIZE < ip then flags_user_execute else flags_user_write)
        else Inl NotMapped)" if "va < 2 ^ 48"
    using run_view_region [OF b that, of ip] by (simp add: vm_translates_views ok' vm_views_def page_flags_def)
qed

text \<open>A small image in the reserved part of the demonstration memory.\<close>

definition demo_image :: "nat \<times> nat" where
  "demo_image = (KERNEL_HIGH_HALF_OFFSET + 0x40000000, 5)"

lemma demo_load_verdict: "load_verdict demo_image demo_as_table demo_vm (demo_handle 0) 0x10 0x400000 1 = None"
proof -
  have n: "\<not> (\<exists>i < pm_total demo_pmm. i \<notin> reserved_frames demo_pmm \<and> frame_pa demo_pmm i < 0x40000005 \<and>
      0x40000000 < frame_pa demo_pmm i + PAGE_SIZE)"
  proof (intro notI, elim exE conjE)
    fix i assume i: "i < pm_total demo_pmm" "i \<notin> reserved_frames demo_pmm" "frame_pa demo_pmm i < 0x40000005"
    then have "i = 0" by (simp add: frame_pa_def demo_pmm_def demo_extent_def PAGE_SIZE_def)
    moreover have "range_contains \<lparr>pr_start = 0x40000000, pr_end = 0x40002000\<rparr> (frame_pa demo_pmm 0)"
      by (simp add: range_contains_def frame_pa_def demo_pmm_def demo_extent_def)
    ultimately show False using i(1,2) unfolding reserved_frames_def by (auto simp: demo_pmm_def)
  qed
  show ?thesis
    using n demo_create_verdict
    by (simp add: load_verdict_def load_preflight_def Let_def demo_image_def demo_as_table(3) demo_as_cap_def cap_kind_def
        div_ceil_def PAGE_SIZE_def intermediate_frame_count_def saturating_add_def saturating_mul_def usize_max_def demo_vm_def
        demo_pmm_def drop_bit_eq_div)
qed


text \<open>
  C13: Loading an image is exact. On valid address spaces and a well-formed
  capability table, with the image in the kernel's direct map, the loader never
  panics. A request it cannot honour - an empty image, no stack, a misaligned or
  too high region, a parent that is no address-space capability, too few frames
  for every page and every table, an image in memory that could be handed out,
  or one that creation refuses - is answered with that reason, and nothing has
  changed. Otherwise loading succeeds: a child of the parent names a new address
  space whose user half holds the image's pages, executable and not writable,
  then the stack's, writable and not executable, and nothing else; each page is
  a fresh frame of its own, in no translation table, with the bytes of the image
  followed by zeros; the other address spaces translate as before, no memory
  outside new frames has changed, and each page's TLB entry was invalidated.
\<close>

theorem loading_is_exact:
  assumes "qemu_vm_ok v" "cap_wf t" "KERNEL_HIGH_HALF_OFFSET \<le> fst img" "fst img < KERNEL_HIGH_HALF_OFFSET + 2 ^ 32"
    and "ip = div_ceil (snd img) PAGE_SIZE" "pages = ip + stack"
  shows "case load_verdict img t v parent r base stack of
      Some e \<Rightarrow> load_image qemu_mmu img t v parent r base stack = Some ((t, v), Inl e)
    | None \<Rightarrow> \<exists>n t' v' c h fs. node_at t parent = Some n \<and>
        load_image qemu_mmu img t v parent r base stack = Some ((t', v'), Inr
          \<lparr>li_as_cap = c, li_entry_va = base, li_stack_top_va = base + pages * PAGE_SIZE,
           li_image_bytes = snd img, li_stack_bytes = stack * PAGE_SIZE\<rparr>) \<and>
        adds_node t t' c \<lparr>cn_cap = \<lparr>cap_rights = r, cap_object = CapAddressSpace h\<rparr>,
                          cn_parent = Some (ch_index parent), cn_depth = Suc (cn_depth n)\<rparr> \<and>
        qemu_vm_ok v' \<and> get_address_space (vm_spaces v) h = None \<and>
        (\<forall>k va. k \<noteq> h \<longrightarrow> vm_translates v' k va = vm_translates v k va) \<and>
        (\<forall>va < 2 ^ 48. vm_translates v' h va = Some
           (if base \<le> va \<and> va < base + pages * PAGE_SIZE
            then Inr (fs ! ((va - base) div PAGE_SIZE),
                      if (va - base) div PAGE_SIZE < ip then flags_user_execute else flags_user_write)
            else Inl NotMapped)) \<and>
        length fs = pages \<and> distinct fs \<and> set fs \<subseteq> pmm_owned (vm_frames v') - pmm_owned (vm_frames v) \<and>
        (\<forall>k s. get_address_space (vm_spaces v') k = Some s \<longrightarrow> tables (vm_memory v') (qa_root (as_inner s)) \<inter> set fs = {}) \<and>
        (\<forall>i < pages. \<forall>j < PAGE_SIZE. vm_memory v' (kva (fs ! i) + j) =
           (if i * PAGE_SIZE + j < snd img then vm_memory v (fst img + (i * PAGE_SIZE + j)) else 0)) \<and>
        only_in (pmm_owned (vm_frames v') - pmm_owned (vm_frames v)) (vm_memory v) (vm_memory v') \<and>
        vm_tlb v' = vm_tlb v @ map (\<lambda>i. base + i * PAGE_SIZE) [0..<pages]"
proof -
  have inv: "pmm_inv (vm_frames v)" using qemu.vm_okD(2) assms(1) by (simp add: qemu_vm_ok_def)
  note checks = load_image_checks [OF inv assms(3,4)]
  show ?thesis
  proof (cases "load_preflight img t v parent base stack")
    case (Some e)
    then show ?thesis by (simp add: load_verdict_def checks)
  next
    case pre: None
    show ?thesis
    proof (cases "create_verdict t (vm_spaces v) parent r")
      case (Some e)
      have "cap_create_address_space qemu_mmu pmm_alloc_frame t v parent r = Some ((t, v), Inl e)"
        by (rule create_refused [OF assms(2) Some])
      then show ?thesis using pre Some by (simp add: load_verdict_def checks load_rest_def)
    next
      case None
      obtain n t' v' c h fs where w: "node_at t parent = Some n"
          "load_rest img t v parent r base stack = Some ((t', v'), Inr
            \<lparr>li_as_cap = c, li_entry_va = base, li_stack_top_va = base + (ip + stack) * PAGE_SIZE,
             li_image_bytes = snd img, li_stack_bytes = stack * PAGE_SIZE\<rparr>)"
          "adds_node t t' c \<lparr>cn_cap = \<lparr>cap_rights = r, cap_object = CapAddressSpace h\<rparr>,
                            cn_parent = Some (ch_index parent), cn_depth = Suc (cn_depth n)\<rparr>"
          "get_address_space (vm_spaces v) h = None" "length fs = ip + stack"
          "loaded v h base (page_flags ip) (image_byte (vm_memory v) img) fs v'"
        using load_rest_runs [OF assms(1-3) pre None assms(5)] by blast
      have b: "base mod PAGE_SIZE = 0" "base + length fs * PAGE_SIZE \<le> 2 ^ 48"
        using pre assms(5) w(5) unfolding load_preflight_def Let_def by (auto split: if_splits option.splits)
      note T = loaded_translates [OF w(6) assms(1) b]
      have v: "load_verdict img t v parent r base stack = None" using pre None by (simp add: load_verdict_def)
      have l: "load_image qemu_mmu img t v parent r base stack = load_rest img t v parent r base stack" using checks pre by simp
      show ?thesis
        unfolding v option.case l
      proof (intro exI [of _ n] exI [of _ t'] exI [of _ v'] exI [of _ c] exI [of _ h] exI [of _ fs] conjI)
        show "\<forall>va < 2 ^ 48. vm_translates v' h va = Some
           (if base \<le> va \<and> va < base + pages * PAGE_SIZE
            then Inr (fs ! ((va - base) div PAGE_SIZE),
                      if (va - base) div PAGE_SIZE < ip then flags_user_execute else flags_user_write)
            else Inl NotMapped)" using T(3) w(5) assms(6) by simp
        show "\<forall>i < pages. \<forall>j < PAGE_SIZE. vm_memory v' (kva (fs ! i) + j) =
           (if i * PAGE_SIZE + j < snd img then vm_memory v (fst img + (i * PAGE_SIZE + j)) else 0)"
          using loadedD(7) [OF w(6)] w(5) assms(6) by (simp add: image_byte_def)
        show "\<forall>k s. get_address_space (vm_spaces v') k = Some s \<longrightarrow> tables (vm_memory v') (qa_root (as_inner s)) \<inter> set fs = {}"
          using loadedD(6) [OF w(6)] by blast
        show "vm_tlb v' = vm_tlb v @ map (\<lambda>i. base + i * PAGE_SIZE) [0..<pages]"
          using loadedD(8) [OF w(6)] w(5) assms(6) by simp
      qed (use w T loadedD(2,3,9) [OF w(6)] assms(6) in simp_all)
    qed
  qed
qed
theorem loading_is_exact_witness:
  "\<exists>t' v' li h f g. load_image qemu_mmu demo_image demo_as_table demo_vm (demo_handle 0) 0x10 0x400000 1 = Some ((t', v'), Inr li) \<and>
     qemu_vm_ok v' \<and> vm_translates v' h 0x400004 = Some (Inr (f, flags_user_execute)) \<and>
     vm_translates v' h 0x401008 = Some (Inr (g, flags_user_write)) \<and> vm_translates v' h 0x402000 = Some (Inl NotMapped)"
proof -
  have "KERNEL_HIGH_HALF_OFFSET \<le> fst demo_image" "fst demo_image < KERNEL_HIGH_HALF_OFFSET + 2 ^ 32"
    by (simp_all add: demo_image_def)
  note C = loading_is_exact [OF demo_vm_ok demo_as_table(1) this refl refl, where parent = "demo_handle 0" and r = "0x10"
      and base = "0x400000" and stack = 1, unfolded demo_load_verdict option.case]
  have ip: "div_ceil (snd demo_image) PAGE_SIZE = 1" by (simp add: demo_image_def div_ceil_def PAGE_SIZE_def)
  obtain t' v' c h fs where w: "load_image qemu_mmu demo_image demo_as_table demo_vm (demo_handle 0) 0x10 0x400000 1 = Some ((t', v'), Inr c)"
      "qemu_vm_ok v'"
      "\<forall>va < 2 ^ 48. vm_translates v' h va = Some
         (if 0x400000 \<le> va \<and> va < 0x400000 + (1 + 1) * PAGE_SIZE
          then Inr (fs ! ((va - 0x400000) div PAGE_SIZE),
                    if (va - 0x400000) div PAGE_SIZE < 1 then flags_user_execute else flags_user_write)
          else Inl NotMapped)"
    using C unfolding ip by blast
  have "vm_translates v' h 0x400004 = Some (Inr (fs ! 0, flags_user_execute))"
    "vm_translates v' h 0x401008 = Some (Inr (fs ! 1, flags_user_write))" "vm_translates v' h 0x402000 = Some (Inl NotMapped)"
    using w(3) by (simp_all add: PAGE_SIZE_def)
  then show ?thesis using w(1,2) by blast
qed

section \<open>Undoing a partial load\<close>

lemma rollback_frames:
  assumes "length fs = im + sm"
  shows "(\<lambda>i. fs ! i) ` {..<im} \<union> (\<lambda>i. fs ! (im + i)) ` {..<sm} = set fs"
    "distinct fs \<Longrightarrow> inj_on (\<lambda>i. fs ! i) {..<im} \<and> inj_on (\<lambda>i. fs ! (im + i)) {..<sm} \<and>
       (\<lambda>i. fs ! i) ` {..<im} \<inter> (\<lambda>i. fs ! (im + i)) ` {..<sm} = {}"
proof -
  show "(\<lambda>i. fs ! i) ` {..<im} \<union> (\<lambda>i. fs ! (im + i)) ` {..<sm} = set fs"
  proof
    show "set fs \<subseteq> (\<lambda>i. fs ! i) ` {..<im} \<union> (\<lambda>i. fs ! (im + i)) ` {..<sm}"
    proof
      fix f assume "f \<in> set fs"
      then obtain i where i: "i < im + sm" "f = fs ! i" using assms by (auto simp: in_set_conv_nth)
      show "f \<in> (\<lambda>i. fs ! i) ` {..<im} \<union> (\<lambda>i. fs ! (im + i)) ` {..<sm}"
      proof (cases "i < im")
        case False
        then have "f = fs ! (im + (i - im))" "i - im < sm" using i by simp_all
        then show ?thesis by blast
      qed (use i in blast)
    qed
  qed (use assms in auto)
  show "inj_on (\<lambda>i. fs ! i) {..<im} \<and> inj_on (\<lambda>i. fs ! (im + i)) {..<sm} \<and>
       (\<lambda>i. fs ! i) ` {..<im} \<inter> (\<lambda>i. fs ! (im + i)) ` {..<sm} = {}" if "distinct fs"
    using that assms by (auto simp: inj_on_def nth_eq_iff_index_eq)
qed

text \<open>
  C15: A failed load gives back what it mapped. Let a capability without
  children name an address space in which the first pages of an image region
  and of a stack region above it are mapped to distinct frames that were handed
  out and hold no table. Then undoing returns: exactly those frames go back to
  the manager, no longer mapped and with a TLB invalidation each; the capability
  is gone; no other translation of any address space changes, all stay valid,
  and memory changes only in the tables of that address space, which keep their
  frames, as the source documents.
\<close>

theorem failed_load_rolls_back:
  assumes "qemu_vm_ok v" "cap_wf t" "resolve_address_space_cap t c = Inr h" "\<not> has_children t c"
    and "get_address_space (vm_spaces v) h = Some s"
    and "ib mod PAGE_SIZE = 0" "ib + im * PAGE_SIZE \<le> sb" "sb mod PAGE_SIZE = 0" "sb + sm * PAGE_SIZE \<le> 2 ^ 48"
    and "length fs = im + sm" "distinct fs" "set fs \<subseteq> pmm_returnable (vm_frames v)"
    and "\<forall>i < im. \<exists>fl. vm_translates v h (ib + i * PAGE_SIZE) = Some (Inr (fs ! i, fl))"
    and "\<forall>i < sm. \<exists>fl. vm_translates v h (sb + i * PAGE_SIZE) = Some (Inr (fs ! (im + i), fl))"
    and "\<forall>k u. get_address_space (vm_spaces v) k = Some u \<longrightarrow> tables (vm_memory v) (qa_root (as_inner u)) \<inter> set fs = {}"
  shows "\<exists>t' v'. rollback qemu_mmu t v c ib sb im sm = Some (t', v') \<and> removes_nodes t t' {ch_index c} \<and> qemu_vm_ok v' \<and>
    pmm_owned (vm_frames v') = pmm_owned (vm_frames v) - set fs \<and>
    st_free_frames (pmm_get_stats (vm_frames v')) = st_free_frames (pmm_get_stats (vm_frames v)) + (im + sm) \<and>
    (\<forall>k va. vm_translates v' k va =
       (if k = h \<and> ((\<exists>i < im. page_number va = page_number (ib + i * PAGE_SIZE)) \<or>
                    (\<exists>i < sm. page_number va = page_number (sb + i * PAGE_SIZE)))
        then Some (Inl NotMapped) else vm_translates v k va)) \<and>
    only_in (tables (vm_memory v) (qa_root (as_inner s))) (vm_memory v) (vm_memory v') \<and>
    vm_tlb v' = vm_tlb v @ map (\<lambda>i. sb + i * PAGE_SIZE) (rev [0..<sm]) @ map (\<lambda>i. ib + i * PAGE_SIZE) (rev [0..<im])"
proof -
  let ?F = "\<lambda>i. fs ! i" and ?G = "\<lambda>i. fs ! (im + i)"
  let ?view = "view_at (vm_memory v) (as_inner s)"
  note U = rollback_frames [OF assms(10)]
  note D = U(2) [OF assms(11)]
  have now: "vm_translates v h va = Some (?view va)" for va
    using vm_translates_views [OF assms(1), of h va] assms(5) by (simp add: vm_views_def)
  have laid: "vm_ok (laid_as (vm_frames v)) pmm_owned (\<lambda>m a. tree_wf m (qa_root a)) (\<lambda>m a. tables m (qa_root a)) v"
    using assms(1) by (simp only: qemu_vm_laid)
  have mapped: "\<forall>i < im. \<exists>fl. ?view (ib + i * PAGE_SIZE) = Inr (?F i, fl)" "\<forall>i < sm. \<exists>fl. ?view (sb + i * PAGE_SIZE) = Inr (?G i, fl)"
    using assms(13,14) now by simp_all
  obtain t' v' where w: "rollback qemu_mmu t v c ib sb im sm = Some (t', v')" "removes_nodes t t' {ch_index c}"
      "returned (vm_frames v) h (set fs) (unmapped_view ib [0..<im] (unmapped_view sb [0..<sm] ?view)) v v'"
      "vm_tlb v' = vm_tlb v @ map (\<lambda>i. sb + i * PAGE_SIZE) (rev [0..<sm]) @ map (\<lambda>i. ib + i * PAGE_SIZE) (rev [0..<im])"
    using rollback_ok [OF laid assms(2-9) mapped D [THEN conjunct1] D [THEN conjunct2, THEN conjunct1]
        D [THEN conjunct2, THEN conjunct2]] assms(12,15) unfolding U(1) by blast
  have ok': "qemu_vm_ok v'" using w(3) laid_vm_ok [of "vm_frames v" v'] by (simp add: returned_def)
  have "pm_free_count (vm_frames v') = pm_free_count (vm_frames v) + (im + sm)"
    using w(3) assms(10) distinct_card [OF assms(11)] by (simp add: returned_def)
  moreover have "vm_translates v' k va =
       (if k = h \<and> ((\<exists>i < im. page_number va = page_number (ib + i * PAGE_SIZE)) \<or>
                    (\<exists>i < sm. page_number va = page_number (sb + i * PAGE_SIZE)))
        then Some (Inl NotMapped) else vm_translates v k va)" for k va
    using w(3) now [of va] vm_translates_upd [OF ok' assms(1), of h "unmapped_view ib [0..<im] (unmapped_view sb [0..<sm] ?view)" k va]
    by (auto simp: returned_def unmapped_view_def)
  moreover have "only_in (tables (vm_memory v) (qa_root (as_inner s))) (vm_memory v) (vm_memory v')"
    using w(3) assms(5) by (auto simp: returned_def)
  ultimately show ?thesis
    using w(1,2,4) ok' w(3) by (intro exI [of _ t'] exI [of _ v']) (simp add: returned_def pmm_get_stats_def)
qed

theorem failed_load_rolls_back_witness:
  "\<exists>t v c h t' v'. qemu_vm_ok v \<and> (\<exists>f. vm_translates v h 0x400000 = Some (Inr (f, flags_user_execute))) \<and>
     rollback qemu_mmu t v c 0x400000 0x401000 1 1 = Some (t', v') \<and> node_at t c \<noteq> None \<and> node_at t' c = None \<and>
     st_free_frames (pmm_get_stats (vm_frames v')) = st_free_frames (pmm_get_stats (vm_frames v)) + 2 \<and>
     vm_translates v' h 0x400000 = Some (Inl NotMapped)"
proof -
  have ip: "1 = div_ceil (snd demo_image) PAGE_SIZE" by (simp add: demo_image_def div_ceil_def PAGE_SIZE_def)
  have kernel: "KERNEL_HIGH_HALF_OFFSET \<le> fst demo_image" by (simp add: demo_image_def)
  have "load_preflight demo_image demo_as_table demo_vm (demo_handle 0) 0x400000 1 = None"
    using demo_load_verdict by (auto simp: load_verdict_def split: option.splits)
  from load_rest_runs [OF demo_vm_ok demo_as_table(1) kernel this demo_create_verdict ip]
  obtain n t v c h fs where w0: "node_at demo_as_table (demo_handle 0) = Some n" and w:
      "adds_node demo_as_table t c \<lparr>cn_cap = \<lparr>cap_rights = 0x10, cap_object = CapAddressSpace h\<rparr>,
                      cn_parent = Some (ch_index (demo_handle 0)), cn_depth = Suc (cn_depth n)\<rparr>"
      "length fs = 1 + 1" "loaded demo_vm h 0x400000 (page_flags 1) (image_byte (vm_memory demo_vm) demo_image) fs v"
    by (elim exE conjE) (rule that)
  have "0x400000 mod PAGE_SIZE = 0" "0x400000 + length fs * PAGE_SIZE \<le> 2 ^ 48" using w(2) by (simp_all add: PAGE_SIZE_def)
  note T = loaded_translates [OF w(3) demo_vm_ok this]
  obtain s where s: "get_address_space (vm_spaces v) h = Some s" by (rule loaded_space [OF w(3)])
  have "forest (ent demo_as_table) (ch_index (demo_handle 0)) \<noteq> None" "forest (ent demo_as_table) (ch_index c) = None"
    using demo_as_table(3) w(1) by (auto simp: node_at_def adds_node_def forest_def split: if_splits)
  then have "ch_index (demo_handle 0) \<noteq> ch_index c" by metis
  then have leaf: "\<not> has_children t c" using added_leaf [OF demo_as_table(1) w(1)] by simp
  have at: "vm_translates v h 0x400000 = Some (Inr (fs ! 0, flags_user_execute))"
      "vm_translates v h 0x401000 = Some (Inr (fs ! 1, flags_user_write))"
    using T(3) [of "0x400000"] T(3) [of "0x401000"] w(2) by (simp_all add: PAGE_SIZE_def)
  have cap: "resolve_address_space_cap t c = Inr h"
    using adds_node_at [OF w(1)] by (simp add: resolve_address_space_cap_def lookup_node)
  have wf: "cap_wf t" using w(1) by (simp add: adds_node_def)
  have region: "0x400000 mod PAGE_SIZE = 0" "0x400000 + 1 * PAGE_SIZE \<le> 0x401000" "0x401000 mod PAGE_SIZE = 0"
      "0x401000 + 1 * PAGE_SIZE \<le> 2 ^ 48" by (simp_all add: PAGE_SIZE_def)
  have frames: "set fs \<subseteq> pmm_returnable (vm_frames v)"
    using loadedD(3) [OF w(3)] taken_returnable [OF qemu_laid.vm_okD(2) [OF loadedD(1) [OF w(3)]]] by blast
  have image: "\<forall>i < 1. \<exists>fl. vm_translates v h (0x400000 + i * PAGE_SIZE) = Some (Inr (fs ! i, fl))"
    and stack: "\<forall>i < 1. \<exists>fl. vm_translates v h (0x401000 + i * PAGE_SIZE) = Some (Inr (fs ! (1 + i), fl))"
    using at by simp_all
  have out: "\<forall>k u. get_address_space (vm_spaces v) k = Some u \<longrightarrow> tables (vm_memory v) (qa_root (as_inner u)) \<inter> set fs = {}"
    using loadedD(6) [OF w(3)] by blast
  obtain t' v' where r: "rollback qemu_mmu t v c 0x400000 0x401000 1 1 = Some (t', v')" "removes_nodes t t' {ch_index c}"
      "st_free_frames (pmm_get_stats (vm_frames v')) = st_free_frames (pmm_get_stats (vm_frames v)) + (1 + 1)"
      "\<forall>k va. vm_translates v' k va =
       (if k = h \<and> ((\<exists>i < 1. page_number va = page_number (0x400000 + i * PAGE_SIZE)) \<or>
                    (\<exists>i < 1. page_number va = page_number (0x401000 + i * PAGE_SIZE)))
        then Some (Inl NotMapped) else vm_translates v k va)"
    using failed_load_rolls_back [OF T(1) wf cap leaf s region w(2) loadedD(2) [OF w(3)] frames image stack out]
    by (elim exE conjE) (rule that)
  have "node_at t c \<noteq> None" "node_at t' c = None" using adds_node_at [OF w(1)] removes_node_at [OF r(2), of c] by simp_all
  moreover have "vm_translates v' h 0x400000 = Some (Inl NotMapped)" using r(4) by simp
  ultimately show ?thesis using T(1) at(1) r(1,3)
    by (intro exI [of _ v] exI [of _ t] exI [of _ c] exI [of _ h] exI [of _ t'] exI [of _ v']) auto
qed

section \<open>From an image to a task\<close>

lemma create_task_room:
  assumes "arena_wf n a" "\<not> arena_is_full a"
  shows "\<exists>a' k. create_task a x = (a', Inr k)"
  using arena_allocate_full_iff [OF assms(1), of x] assms(2)
  by (cases "arena_allocate a x") (auto simp: create_task_def ok_or_def)

text \<open>
  C16: A loaded image becomes a task, or nothing is left behind. With a
  well-formed capability table and task arena the call never panics. A stale
  handle, a capability of another kind and a full arena are refused with nothing
  changed; a full table is reported with the table unchanged and the task that
  was just made destroyed again, so the live tasks are as before. Otherwise one
  new task exists, with the given identifier and the address space of the image,
  and the table gains exactly one root capability that names it with the rights asked for.
\<close>

theorem task_creation_atomic:
  assumes "cap_wf t" "arena_wf TASK_ARENA_CAPACITY tasks"
  shows "case node_at t (li_as_cap li) of
      None \<Rightarrow> task_create_from_image li t tasks i r = Some ((t, tasks), Inl (InvalidAddressSpaceCap InvalidHandle))
    | Some n \<Rightarrow> (case cap_object (cn_cap n) of
        CapAddressSpace h \<Rightarrow>
          if arena_is_full tasks then task_create_from_image li t tasks i r = Some ((t, tasks), Inl TaskArenaFull)
          else if cap_table_is_full t then
            \<exists>tasks'. task_create_from_image li t tasks i r = Some ((t, tasks'), Inl (CapTableExhausted CapsExhausted)) \<and>
              arena_wf TASK_ARENA_CAPACITY tasks' \<and> get_task tasks' = get_task tasks
          else \<exists>t' tasks' c k. task_create_from_image li t tasks i r = Some ((t', tasks'), Inr c) \<and>
              arena_wf TASK_ARENA_CAPACITY tasks' \<and> get_task tasks k = None \<and>
              get_task tasks' = (get_task tasks)(k \<mapsto> \<lparr>task_id = i, task_address_space_handle = h\<rparr>) \<and>
              adds_node t t' c \<lparr>cn_cap = \<lparr>cap_rights = r, cap_object = CapTask k\<rparr>, cn_parent = None, cn_depth = 0\<rparr>
      | _ \<Rightarrow> task_create_from_image li t tasks i r = Some ((t, tasks), Inl (InvalidAddressSpaceCap WrongKind)))"
proof (cases "node_at t (li_as_cap li)")
  case None
  then show ?thesis by (simp add: task_create_from_image_def lookup_node)
next
  case (Some n)
  have l: "cap_lookup t (li_as_cap li) = Inr (cn_cap n)" using Some by (simp add: lookup_node)
  show ?thesis
  proof (cases "\<exists>h. cap_object (cn_cap n) = CapAddressSpace h")
    case False
    then show ?thesis using Some l by (simp add: task_create_from_image_def split: cap_object.split)
  next
    case True
    then obtain h where h: "cap_object (cn_cap n) = CapAddressSpace h" by blast
    let ?new = "\<lparr>task_id = i, task_address_space_handle = h\<rparr>"
    show ?thesis
    proof (cases "arena_is_full tasks")
      case True
      then have "create_task tasks ?new = (tasks, Inl ArenaFull)"
        by (simp add: create_task_def arena_allocate_def arena_is_full_def ok_or_def)
      then show ?thesis using Some l h True by (simp add: task_create_from_image_def)
    next
      case room: False
      obtain tasks' k where c: "create_task tasks ?new = (tasks', Inr k)" using create_task_room [OF assms(2) room] by blast
      note C = create_task_ok [OF assms(2) c]
      show ?thesis
      proof (cases "cap_table_is_full t")
        case True
        obtain tasks'' where d: "destroy_task tasks' k = (tasks'', Inr ?new)"
          using arena_free_live [of tasks' "th_slot k" ?new] fun_cong [OF C(3), of k]
          by (simp add: destroy_task_def get_task_def ok_or_def)
        note D = destroy_task_ok [OF C(1) d]
        have "get_task tasks'' = get_task tasks" using C(2,3) D(3) by (auto simp: fun_eq_iff)
        then show ?thesis
          using Some l h room True c d D(1) insert_root_full [OF True]
          by (simp add: task_create_from_image_def)
      next
        case False
        obtain t' m where m: "insert_root t \<lparr>cap_rights = r, cap_object = CapTask k\<rparr> = Some (t', Inr m)"
            "adds_node t t' m \<lparr>cn_cap = \<lparr>cap_rights = r, cap_object = CapTask k\<rparr>, cn_parent = None, cn_depth = 0\<rparr>"
          using insert_root_room [OF assms(1) False] by blast
        then have "task_create_from_image li t tasks i r = Some ((t', tasks'), Inr m)"
          using l h c by (simp add: task_create_from_image_def)
        then show ?thesis using Some h room False C m(2) by auto
      qed
    qed
  qed
qed

definition demo_loaded :: loaded_image where
  "demo_loaded = \<lparr>li_as_cap = demo_handle 0, li_entry_va = 0x400000, li_stack_top_va = 0x402000,
                  li_image_bytes = 5, li_stack_bytes = 4096\<rparr>"

theorem task_creation_atomic_witness:
  "\<exists>t' tasks' c k. task_create_from_image demo_loaded demo_as_table (arena_new TASK_ARENA_CAPACITY) 7 0x10 = Some ((t', tasks'), Inr c) \<and>
     get_task tasks' k = Some \<lparr>task_id = 7, task_address_space_handle = BOOTSTRAP_ADDRESS_SPACE_HANDLE\<rparr> \<and>
     node_at t' c \<noteq> None"
proof -
  have room: "\<not> arena_is_full (arena_new TASK_ARENA_CAPACITY :: task_arena)"
    by (simp add: arena_is_full_def arena_new_def TASK_ARENA_CAPACITY_def)
  obtain t' tasks' c k where
      "task_create_from_image demo_loaded demo_as_table (arena_new TASK_ARENA_CAPACITY) 7 0x10 = Some ((t', tasks'), Inr c)"
      "get_task tasks' = (get_task (arena_new TASK_ARENA_CAPACITY))(k \<mapsto>
         \<lparr>task_id = 7, task_address_space_handle = BOOTSTRAP_ADDRESS_SPACE_HANDLE\<rparr>)"
      "adds_node demo_as_table t' c \<lparr>cn_cap = \<lparr>cap_rights = 0x10, cap_object = CapTask k\<rparr>, cn_parent = None, cn_depth = 0\<rparr>"
    using task_creation_atomic [OF demo_as_table(1) arena_new_wf, of demo_loaded 7 "0x10"] room demo_as_table(2,3)
    by (auto simp: demo_loaded_def demo_as_cap_def)
  then show ?thesis using adds_node_at [of demo_as_table t' c]
    by (intro exI [of _ t'] exI [of _ tasks'] exI [of _ c] exI [of _ k]) auto
qed

text \<open>
  C14: Loaded tasks are well typed. When an image is loaded and a task is then
  made from it, each of the two capabilities names a live object of its own kind:
  the first the address space that was created, the second a task; the
  task's address space is that one, in which the reported entry address lies in
  an executable user page whose frame begins with the first bytes of the image,
  and the word below the reported stack top in a writable, non-executable one.
\<close>

theorem loaded_task_is_typed:
  assumes "qemu_vm_ok v" "cap_wf t" "KERNEL_HIGH_HALF_OFFSET \<le> fst img" "fst img < KERNEL_HIGH_HALF_OFFSET + 2 ^ 32"
    and "arena_wf TASK_ARENA_CAPACITY tasks"
    and load: "load_image qemu_mmu img t v parent r base stack = Some ((t1, v1), Inr li)"
    and create: "task_create_from_image li t1 tasks i q = Some ((t2, tasks2), Inr c)"
  shows "\<exists>h k f g. cap_lookup t2 (li_as_cap li) = Inr \<lparr>cap_rights = r, cap_object = CapAddressSpace h\<rparr> \<and>
    get_address_space (vm_spaces v1) h \<noteq> None \<and>
    cap_lookup t2 c = Inr \<lparr>cap_rights = q, cap_object = CapTask k\<rparr> \<and>
    get_task tasks2 k = Some \<lparr>task_id = i, task_address_space_handle = h\<rparr> \<and>
    vm_translates v1 h (li_entry_va li) = Some (Inr (f, flags_user_execute)) \<and>
    (\<forall>j < min PAGE_SIZE (li_image_bytes li). vm_memory v1 (kva f + j) = vm_memory v (fst img + j)) \<and>
    vm_translates v1 h (li_stack_top_va li - 8) = Some (Inr (g, flags_user_write))"
proof -
  have inv: "pmm_inv (vm_frames v)" using qemu.vm_okD(2) assms(1) by (simp add: qemu_vm_ok_def)
  have pre: "load_preflight img t v parent base stack = None"
    using load load_image_checks [OF inv assms(3,4)] by (auto split: option.splits)
  then have rest: "load_rest img t v parent r base stack = Some ((t1, v1), Inr li)"
    using load load_image_checks [OF inv assms(3,4)] by simp
  have go: "create_verdict t (vm_spaces v) parent r = None"
  proof (rule ccontr)
    assume "create_verdict t (vm_spaces v) parent r \<noteq> None"
    then obtain e where "create_verdict t (vm_spaces v) parent r = Some e" by auto
    from create_refused [OF assms(2) this] rest show False by (simp add: load_rest_def)
  qed
  let ?ip = "div_ceil (snd img) PAGE_SIZE"
  obtain n h fs where w: "node_at t parent = Some n"
      "li = \<lparr>li_as_cap = li_as_cap li, li_entry_va = base, li_stack_top_va = base + (?ip + stack) * PAGE_SIZE,
             li_image_bytes = snd img, li_stack_bytes = stack * PAGE_SIZE\<rparr>"
      "adds_node t t1 (li_as_cap li) \<lparr>cn_cap = \<lparr>cap_rights = r, cap_object = CapAddressSpace h\<rparr>,
                      cn_parent = Some (ch_index parent), cn_depth = Suc (cn_depth n)\<rparr>"
      "length fs = ?ip + stack" "loaded v h base (page_flags ?ip) (image_byte (vm_memory v) img) fs v1"
    using load_rest_runs [OF assms(1-3) pre go refl] rest by auto
  have fits: "0 < snd img" "0 < stack" "base mod PAGE_SIZE = 0" "base + length fs * PAGE_SIZE \<le> 2 ^ 48"
    using pre w(4) unfolding load_preflight_def Let_def by (auto split: if_splits option.splits)
  have ip: "0 < ?ip" using div_ceil_le_iff [of 0 "snd img"] fits(1) by simp
  note T = loaded_translates [OF w(5) assms(1) fits(3,4)]
  have l1: "node_at t1 (li_as_cap li) = Some \<lparr>cn_cap = \<lparr>cap_rights = r, cap_object = CapAddressSpace h\<rparr>,
      cn_parent = Some (ch_index parent), cn_depth = Suc (cn_depth n)\<rparr>" using adds_node_at [OF w(3)] by simp
  have wf1: "cap_wf t1" using w(3) by (simp add: adds_node_def)
  let ?new = "\<lparr>task_id = i, task_address_space_handle = h\<rparr>"
  obtain tasks1 k where k: "create_task tasks ?new = (tasks1, Inr k)"
    using create l1 by (auto simp: task_create_from_image_def lookup_node Let_def split: prod.splits sum.splits)
  have "\<not> cap_table_is_full t1"
    using create l1 k insert_root_full [of t1] by (auto simp: task_create_from_image_def lookup_node)
  then obtain t' c' where "insert_root t1 \<lparr>cap_rights = q, cap_object = CapTask k\<rparr> = Some (t', Inr c')"
      "adds_node t1 t' c' \<lparr>cn_cap = \<lparr>cap_rights = q, cap_object = CapTask k\<rparr>, cn_parent = None, cn_depth = 0\<rparr>"
    using insert_root_room [OF wf1] by blast
  then have a: "adds_node t1 t2 c \<lparr>cn_cap = \<lparr>cap_rights = q, cap_object = CapTask k\<rparr>, cn_parent = None, cn_depth = 0\<rparr>" "tasks2 = tasks1"
    using create l1 k by (auto simp: task_create_from_image_def lookup_node)
  have "node_at t2 (li_as_cap li) = node_at t1 (li_as_cap li)" using adds_node_at [OF a(1)] l1 by auto
  then have "cap_lookup t2 (li_as_cap li) = Inr \<lparr>cap_rights = r, cap_object = CapAddressSpace h\<rparr>"
    "cap_lookup t2 c = Inr \<lparr>cap_rights = q, cap_object = CapTask k\<rparr>"
    using l1 adds_node_at [OF a(1)] by (simp_all add: lookup_node)
  moreover have "get_task tasks2 k = Some ?new" using create_task_ok(3) [OF assms(5) k] a(2) by simp
  moreover have "get_address_space (vm_spaces v1) h \<noteq> None" by (rule loaded_space [OF w(5)]) simp
  moreover have "vm_translates v1 h base = Some (Inr (fs ! 0, flags_user_execute))"
    using T(3) [of base] ip w(4) fits(2,4) by (simp add: PAGE_SIZE_def)
  moreover have "\<forall>j < min PAGE_SIZE (snd img). vm_memory v1 (kva (fs ! 0) + j) = vm_memory v (fst img + j)"
    using loadedD(7) [OF w(5), of 0] ip w(4) by (simp add: image_byte_def)
  moreover have "\<exists>g. vm_translates v1 h (base + (?ip + stack) * PAGE_SIZE - 8) = Some (Inr (g, flags_user_write))"
  proof -
    obtain m where m: "?ip + stack = Suc m" "?ip \<le> m" using fits(2) by (metis add_Suc_right gr0_conv_Suc le_add1)
    have e: "base + (?ip + stack) * PAGE_SIZE - 8 = base + (m * 4096 + 4088)" unfolding m(1) by (simp add: PAGE_SIZE_def)
    have "vm_translates v1 h (base + (m * 4096 + 4088)) = Some (Inr (fs ! m, flags_user_write))"
      using T(3) [of "base + (m * 4096 + 4088)"] m w(4) fits(4) by (simp add: PAGE_SIZE_def)
    then show ?thesis unfolding e by blast
  qed
  ultimately show ?thesis using arg_cong [OF w(2), of li_entry_va] arg_cong [OF w(2), of li_stack_top_va] arg_cong [OF w(2), of li_image_bytes]
    by auto
qed

lemma demo_as_forest: "i \<noteq> 0 \<Longrightarrow> forest (ent demo_as_table) i = None"
proof -
  have room: "\<not> cap_table_is_full cap_table_new"
    by (simp add: cap_table_is_full_def cap_table_new_def CAP_TABLE_CAPACITY_def)
  obtain t h where t: "insert_root cap_table_new demo_as_cap = Some (t, Inr h)"
      "adds_node cap_table_new t h \<lparr>cn_cap = demo_as_cap, cn_parent = None, cn_depth = 0\<rparr>"
    using insert_root_room [OF cap_table_new_wf room] by blast
  have "snd (the (insert_root cap_table_new demo_as_cap)) = Inr (demo_handle 0)" by (simp add: cap_eval)
  then have h: "h = demo_handle 0" using t(1) by simp
  have "demo_as_table = t" using t(1) by (simp add: demo_as_table_def)
  then show "i \<noteq> 0 \<Longrightarrow> forest (ent demo_as_table) i = None"
    using t(2) h by (simp add: adds_node_def demo_handle_def cap_table_new_views forest_def)
qed

theorem loaded_task_is_typed_witness:
  "\<exists>t1 v1 li t2 tasks2 c h k. load_image qemu_mmu demo_image demo_as_table demo_vm (demo_handle 0) 0x10 0x400000 1 = Some ((t1, v1), Inr li) \<and>
     task_create_from_image li t1 (arena_new TASK_ARENA_CAPACITY) 7 0x10 = Some ((t2, tasks2), Inr c) \<and>
     cap_lookup t2 c = Inr \<lparr>cap_rights = 0x10, cap_object = CapTask k\<rparr> \<and>
     get_task tasks2 k = Some \<lparr>task_id = 7, task_address_space_handle = h\<rparr> \<and> get_address_space (vm_spaces v1) h \<noteq> None"
proof -
  have ip: "1 = div_ceil (snd demo_image) PAGE_SIZE" by (simp add: demo_image_def div_ceil_def PAGE_SIZE_def)
  have kernel: "KERNEL_HIGH_HALF_OFFSET \<le> fst demo_image" "fst demo_image < KERNEL_HIGH_HALF_OFFSET + 2 ^ 32"
    by (simp_all add: demo_image_def)
  have inv: "pmm_inv (vm_frames demo_vm)" using qemu.vm_okD(2) demo_vm_ok by (simp add: qemu_vm_ok_def)
  have pre: "load_preflight demo_image demo_as_table demo_vm (demo_handle 0) 0x400000 1 = None"
    using demo_load_verdict by (auto simp: load_verdict_def split: option.splits)
  obtain n t1 v1 c1 h where w: "node_at demo_as_table (demo_handle 0) = Some n"
      "load_rest demo_image demo_as_table demo_vm (demo_handle 0) 0x10 0x400000 1 = Some ((t1, v1), Inr
        \<lparr>li_as_cap = c1, li_entry_va = 0x400000, li_stack_top_va = 0x400000 + (1 + 1) * PAGE_SIZE,
         li_image_bytes = snd demo_image, li_stack_bytes = 1 * PAGE_SIZE\<rparr>)"
      "adds_node demo_as_table t1 c1 \<lparr>cn_cap = \<lparr>cap_rights = 0x10, cap_object = CapAddressSpace h\<rparr>,
                      cn_parent = Some (ch_index (demo_handle 0)), cn_depth = Suc (cn_depth n)\<rparr>"
    using load_rest_runs [OF demo_vm_ok demo_as_table(1) kernel(1) pre demo_create_verdict ip] by (elim exE conjE) (rule that)
  let ?li = "\<lparr>li_as_cap = c1, li_entry_va = 0x400000, li_stack_top_va = 0x400000 + (1 + 1) * PAGE_SIZE,
         li_image_bytes = snd demo_image, li_stack_bytes = 1 * PAGE_SIZE\<rparr>"
  have load: "load_image qemu_mmu demo_image demo_as_table demo_vm (demo_handle 0) 0x10 0x400000 1 = Some ((t1, v1), Inr ?li)"
    using load_image_checks [OF inv kernel] pre w(2) by simp
  have wf1: "cap_wf t1" using w(3) by (simp add: adds_node_def)
  have "forest (ent t1) 1 = None \<or> forest (ent t1) 2 = None"
    using w(3) demo_as_forest [of 1] demo_as_forest [of 2] by (auto simp: adds_node_def)
  then have room: "\<not> cap_table_is_full t1"
    using wf_full_iff [OF wf1] unfolding CAP_TABLE_CAPACITY_def forest_None by fastforce
  have "\<not> arena_is_full (arena_new TASK_ARENA_CAPACITY :: task_arena)"
    by (simp add: arena_is_full_def arena_new_def TASK_ARENA_CAPACITY_def)
  then obtain tasks2 k where k: "create_task (arena_new TASK_ARENA_CAPACITY) \<lparr>task_id = 7, task_address_space_handle = h\<rparr> = (tasks2, Inr k)"
    using create_task_room [OF arena_new_wf] by blast
  obtain t2 c where ins: "insert_root t1 \<lparr>cap_rights = 0x10, cap_object = CapTask k\<rparr> = Some (t2, Inr c)"
    using insert_root_room [OF wf1 room] by blast
  have create: "task_create_from_image ?li t1 (arena_new TASK_ARENA_CAPACITY) 7 0x10 = Some ((t2, tasks2), Inr c)"
    using adds_node_at [OF w(3)] k ins by (simp add: task_create_from_image_def lookup_node)
  show ?thesis
    using loaded_task_is_typed [OF demo_vm_ok demo_as_table(1) kernel arena_new_wf load create] load create
    by (elim exE conjE) (intro exI [of _ t1] exI [of _ v1] exI [of _ ?li] exI [of _ t2] exI [of _ tasks2] exI [of _ c], blast)
qed

end
