(* ===== verification/Timer.thy ===== *)
theory Timer
  imports Prelude
begin

text \<open>
  The timer arithmetic (\<open>hal/src/timer.rs\<close>): conversions between counter
  ticks and nanoseconds at a counter frequency in Hz. The values are \<open>u64\<close> words,
  the products \<open>u128\<close> words, and the casts back saturate, as in the source; an
  \<open>assert!\<close> on the frequency makes every function partial.
\<close>

section \<open>The conversions\<close>

definition U64_MAX :: "64 word" where
  "U64_MAX = - 1"

definition NANOS_PER_SECOND :: "64 word" where
  "NANOS_PER_SECOND = 1000000000"

definition u128 :: "64 word \<Rightarrow> 128 word" where
  "u128 x = ucast x"

definition ticks_to_ns :: "64 word \<Rightarrow> 64 word \<Rightarrow> 64 word option" where
  "ticks_to_ns count frequency_hz =
     (if frequency_hz = 0 then None
      else
        let intermediate = u128 count * u128 NANOS_PER_SECOND;
            ns = intermediate div u128 frequency_hz
        in Some (if ns > u128 U64_MAX then U64_MAX else ucast ns))"

definition resolution_ns_for_freq :: "64 word \<Rightarrow> 64 word option" where
  "resolution_ns_for_freq frequency_hz =
     (if frequency_hz = 0 then None
      else
        let raw = (NANOS_PER_SECOND + frequency_hz div 2) div frequency_hz
        in Some (if raw = 0 then 1 else raw))"

text \<open>\<open>u128::div_ceil\<close>: one more than the quotient when there is a remainder.\<close>

definition div_ceil_u128 :: "128 word \<Rightarrow> 128 word \<Rightarrow> 128 word" where
  "div_ceil_u128 a b = (if a mod b > 0 then a div b + 1 else a div b)"

definition ns_to_ticks :: "64 word \<Rightarrow> 64 word \<Rightarrow> 64 word option" where
  "ns_to_ticks ns frequency_hz =
     (if frequency_hz = 0 then None
      else
        let intermediate = u128 ns * u128 frequency_hz;
            nanos = u128 NANOS_PER_SECOND;
            ticks = div_ceil_u128 intermediate nanos
        in Some (if ticks > u128 U64_MAX then U64_MAX else ucast ticks))"

section \<open>The words as numbers\<close>

lemma unat_u128 [simp]: "unat (u128 x) = unat x"
proof -
  have "unat x < 2 ^ LENGTH(64)"
    by (rule unsigned_less)
  then have "unat x < 2 ^ 128"
    by simp
  then show ?thesis
    unfolding u128_def unsigned_ucast_eq by (simp add: take_bit_nat_eq_self)
qed

lemma unat_U64_MAX: "unat U64_MAX = 2 ^ 64 - 1"
  unfolding U64_MAX_def unsigned_minus_1_eq_mask by (simp add: mask_eq_exp_minus_1)

lemma unat_NANOS: "unat NANOS_PER_SECOND = 10 ^ 9"
  by (simp add: NANOS_PER_SECOND_def)

lemma u64_bound: "unat (x :: 64 word) \<le> 2 ^ 64 - 1"
proof -
  have "unat x < 2 ^ LENGTH(64)"
    by (rule unsigned_less)
  then show ?thesis
    by simp
qed

lemma unat_u128_mult: "unat (u128 x * u128 y) = unat x * unat y"
proof -
  have "unat x * unat y \<le> (2 ^ 64 - 1) * (2 ^ 64 - 1)"
    by (intro mult_le_mono u64_bound)
  then have "unat (u128 x) * unat (u128 y) < 2 ^ LENGTH(128)"
    by simp
  then show ?thesis
    by (simp add: unat_word_ariths)
qed

lemma unat_saturating_cast:
  "unat (if w > u128 U64_MAX then U64_MAX else ucast (w :: 128 word) :: 64 word) = min (2 ^ 64 - 1) (unat w)"
proof (cases "w > u128 U64_MAX")
  case True
  then have "2 ^ 64 - 1 < unat w"
    unfolding word_less_nat_alt unat_u128 unat_U64_MAX .
  then show ?thesis
    using True unat_U64_MAX by simp
next
  case False
  then have small: "unat w \<le> 2 ^ 64 - 1"
    unfolding word_less_nat_alt unat_u128 unat_U64_MAX by simp
  then have "unat (ucast w :: 64 word) = unat w"
    unfolding unsigned_ucast_eq by (simp add: take_bit_nat_eq_self)
  then show ?thesis
    using False small by simp
qed

lemma unat_div_ceil:
  assumes "unat b = k" and "1 < k"
  shows "unat (div_ceil_u128 a b) = (unat a + (k - 1)) div k"
proof -
  have div_less: "unat a div k < 2 ^ 128 - 1"
  proof -
    have "unat a div k \<le> unat a div 2"
      using assms by (intro div_le_mono2) auto
    moreover have "unat a < 2 ^ LENGTH(128)"
      by (rule unsigned_less)
    ultimately show ?thesis
      by simp
  qed
  have succ: "unat (a div b + 1) = unat a div k + 1"
    using div_less assms(1) by (simp add: unat_word_ariths)
  have "(unat a + (k - 1)) div k = (if unat a mod k = 0 then unat a div k else unat a div k + 1)"
  proof (cases "unat a mod k = 0")
    case True
    have "unat a = k * (unat a div k)"
      using True by (metis add.right_neutral mult_div_mod_eq)
    then have "(unat a + (k - 1)) div k = (k * (unat a div k) + (k - 1)) div k"
      by simp
    also have "\<dots> = unat a div k + (k - 1) div k"
      by (rule div_mult_self4) (use assms(2) in simp)
    also have "\<dots> = unat a div k"
      using assms(2) by simp
    finally show ?thesis
      using True by simp
  next
    case False
    define q r where "q = unat a div k" and "r = unat a mod k"
    have "unat a = k * q + r" and "0 < r" and "r < k"
      using False assms(2) by (simp_all add: q_def r_def)
    then have "unat a + (k - 1) = k * (q + 1) + (r - 1)" and small: "r - 1 < k"
      using assms(2) by (simp_all add: algebra_simps)
    then have "(unat a + (k - 1)) div k = (k * (q + 1) + (r - 1)) div k"
      by (simp only:)
    also have "\<dots> = q + 1 + (r - 1) div k"
      by (rule div_mult_self4) (use assms(2) in simp)
    also have "\<dots> = q + 1"
      using small by simp
    finally have "(unat a + (k - 1)) div k = q + 1" .
    then show ?thesis
      using False by (simp add: q_def)
  qed
  moreover have "a mod b > 0 \<longleftrightarrow> unat a mod k \<noteq> 0"
    unfolding word_less_nat_alt unat_mod assms(1) by simp
  moreover have "unat (a div b) = unat a div k"
    using assms(1) by (simp add: unat_div)
  ultimately show ?thesis
    using succ by (simp add: div_ceil_u128_def)
qed

text \<open>The three functions over the natural numbers.\<close>

lemma ticks_to_ns_nat:
  assumes "f \<noteq> 0"
  obtains n where "ticks_to_ns c f = Some n"
    and "unat n = min (2 ^ 64 - 1) (unat c * 10 ^ 9 div unat f)"
proof
  show "ticks_to_ns c f = Some
      (if u128 c * u128 NANOS_PER_SECOND div u128 f > u128 U64_MAX then U64_MAX
       else ucast (u128 c * u128 NANOS_PER_SECOND div u128 f))"
    using assms by (simp add: ticks_to_ns_def Let_def)
  show "unat (if u128 c * u128 NANOS_PER_SECOND div u128 f > u128 U64_MAX then U64_MAX
       else ucast (u128 c * u128 NANOS_PER_SECOND div u128 f)) = min (2 ^ 64 - 1) (unat c * 10 ^ 9 div unat f)"
    unfolding unat_saturating_cast by (simp only: unat_div unat_u128_mult unat_u128 unat_NANOS)
qed

lemma ns_to_ticks_nat:
  assumes "f \<noteq> 0"
  obtains t where "ns_to_ticks d f = Some t"
    and "unat t = min (2 ^ 64 - 1) ((unat d * unat f + (10 ^ 9 - 1)) div 10 ^ 9)"
proof
  show "ns_to_ticks d f = Some
      (if div_ceil_u128 (u128 d * u128 f) (u128 NANOS_PER_SECOND) > u128 U64_MAX then U64_MAX
       else ucast (div_ceil_u128 (u128 d * u128 f) (u128 NANOS_PER_SECOND)))"
    using assms by (simp add: ns_to_ticks_def Let_def)
  have "unat (u128 NANOS_PER_SECOND) = 10 ^ 9"
    by (simp only: unat_u128 unat_NANOS)
  from unat_div_ceil [OF this, of "u128 d * u128 f"]
  have "unat (div_ceil_u128 (u128 d * u128 f) (u128 NANOS_PER_SECOND)) = (unat d * unat f + (10 ^ 9 - 1)) div 10 ^ 9"
    unfolding unat_u128_mult by simp
  then show "unat (if div_ceil_u128 (u128 d * u128 f) (u128 NANOS_PER_SECOND) > u128 U64_MAX then U64_MAX
       else ucast (div_ceil_u128 (u128 d * u128 f) (u128 NANOS_PER_SECOND))) =
     min (2 ^ 64 - 1) ((unat d * unat f + (10 ^ 9 - 1)) div 10 ^ 9)"
    unfolding unat_saturating_cast by simp
qed

lemma resolution_nat:
  assumes "f \<noteq> 0"
  obtains r where "resolution_ns_for_freq f = Some r"
    and "unat r = max 1 ((10 ^ 9 + unat f div 2) div unat f)"
proof -
  have fpos: "0 < unat f"
    using assms by (simp add: unat_gt_0)
  have "10 ^ 9 + unat f div 2 < 2 ^ 64"
    using u64_bound [of f] by simp
  then have "unat (NANOS_PER_SECOND + f div 2) = 10 ^ 9 + unat f div 2"
    by (simp add: unat_word_ariths unat_div NANOS_PER_SECOND_def)
  then have raw: "unat ((NANOS_PER_SECOND + f div 2) div f) = (10 ^ 9 + unat f div 2) div unat f"
    by (simp add: unat_div)
  show thesis
  proof
    show "resolution_ns_for_freq f = Some
        (if (NANOS_PER_SECOND + f div 2) div f = 0 then 1 else (NANOS_PER_SECOND + f div 2) div f)"
      using assms by (simp add: resolution_ns_for_freq_def Let_def)
    show "unat (if (NANOS_PER_SECOND + f div 2) div f = 0 then 1 else (NANOS_PER_SECOND + f div 2) div f) =
        max 1 ((10 ^ 9 + unat f div 2) div unat f)"
      using raw unat_eq_zero [of "(NANOS_PER_SECOND + f div 2) div f"] by (auto simp: max_def)
  qed
qed

section \<open>The guarantees of the conversions\<close>

text \<open>
  A product compared with a quotient, for both roundings: this is what makes a
  deadline exact.
\<close>

lemma floor_reaches_iff:
  fixes c d f k :: nat
  assumes "0 < f"
  shows "d \<le> c * k div f \<longleftrightarrow> d * f \<le> c * k"
  using assms by (simp add: less_eq_div_iff_mult_less_eq)

lemma ceil_reached_iff:
  fixes c n k :: nat
  assumes "0 < k"
  shows "(n + (k - 1)) div k \<le> c \<longleftrightarrow> n \<le> c * k"
proof -
  have "(n + (k - 1)) div k \<le> c \<longleftrightarrow> n + (k - 1) < (c + 1) * k"
    using assms by (metis Suc_eq_plus1 div_less_iff_less_mult less_Suc_eq_le)
  also have "\<dots> \<longleftrightarrow> n \<le> c * k"
    using assms by (auto simp: algebra_simps)
  finally show ?thesis .
qed

text \<open>
  The counter values at which the clock has reached a deadline are exactly those
  at which the comparator has, when the deadline's tick count fits in a word.
\<close>

lemma reached_iff:
  assumes "f \<noteq> 0"
    and "unat d * unat f \<le> (2 ^ 64 - 1) * 10 ^ 9"
    and "ns_to_ticks d f = Some t"
    and "ticks_to_ns c f = Some now"
  shows "t \<le> c \<longleftrightarrow> d \<le> now"
proof -
  have f: "0 < unat f"
    using assms(1) by (simp add: unat_gt_0)
  have "(unat d * unat f + (10 ^ 9 - 1)) div 10 ^ 9 \<le> 2 ^ 64 - 1"
    using assms(2) by (subst ceil_reached_iff) simp_all
  moreover have "unat t = min (2 ^ 64 - 1) ((unat d * unat f + (10 ^ 9 - 1)) div 10 ^ 9)"
    using ns_to_ticks_nat [OF assms(1), of d] assms(3) by force
  ultimately have t: "unat t = (unat d * unat f + (10 ^ 9 - 1)) div 10 ^ 9"
    by simp
  have "unat now = min (2 ^ 64 - 1) (unat c * 10 ^ 9 div unat f)"
    using ticks_to_ns_nat [OF assms(1), of c] assms(4) by force
  then have "d \<le> now \<longleftrightarrow> unat d \<le> unat c * 10 ^ 9 div unat f"
    using u64_bound [of d] unfolding word_le_nat_alt by simp
  also have "\<dots> \<longleftrightarrow> unat d * unat f \<le> unat c * 10 ^ 9"
    by (rule floor_reaches_iff [OF f])
  also have "\<dots> \<longleftrightarrow> t \<le> c"
    unfolding word_le_nat_alt t by (subst ceil_reached_iff) simp_all
  finally show ?thesis
    by simp
qed

lemma ticks_to_ns_mono:
  assumes "ticks_to_ns c f = Some n" and "ticks_to_ns c' f = Some n'" and "c \<le> c'"
  shows "n \<le> n'"
proof -
  have f: "f \<noteq> 0"
    using assms(1) by (auto simp: ticks_to_ns_def)
  have "unat c * 10 ^ 9 div unat f \<le> unat c' * 10 ^ 9 div unat f"
    using assms(3) by (intro div_le_mono mult_le_mono1) (simp add: word_le_nat_alt)
  then show ?thesis
    using ticks_to_ns_nat [OF f, of c] ticks_to_ns_nat [OF f, of c'] assms(1,2)
    unfolding word_le_nat_alt by (metis min.mono option.inject order_refl)
qed

end
