(* ===== verification/Gic.thy ===== *)
theory Gic
  imports Timer
begin

text \<open>
  The interrupt controller driver (\<open>bsp-qemu-virt/src/gic.rs\<close>), the timer driver
  on the CPU handle (\<open>bsp-qemu-virt/src/cpu.rs\<close>) and the handler that joins them
  (\<open>bsp-qemu-virt/src/exceptions.rs\<close>). A driver's effect is the sequence of its
  volatile accesses, so the model appends to a log; what a device answers to a
  read is an argument. The timer's registers are a record.
\<close>

unbundle bit_operations_syntax

section \<open>Register accesses\<close>

datatype mmio = MmioRead nat | MmioWrite nat "32 word"

type_synonym mmio_log = "mmio list"

text \<open>What the devices answer to a read of an address.\<close>

type_synonym mmio_reads = "nat \<Rightarrow> 32 word"

type_synonym irq_number = "32 word"

definition GICD_CTLR :: nat where "GICD_CTLR = 0x000"
definition GICD_TYPER :: nat where "GICD_TYPER = 0x004"
definition GICD_ISENABLER_BASE :: nat where "GICD_ISENABLER_BASE = 0x100"
definition GICD_ICENABLER_BASE :: nat where "GICD_ICENABLER_BASE = 0x180"
definition GICD_IPRIORITYR_BASE :: nat where "GICD_IPRIORITYR_BASE = 0x400"
definition GICD_ITARGETSR_BASE :: nat where "GICD_ITARGETSR_BASE = 0x800"
definition GICC_CTLR :: nat where "GICC_CTLR = 0x000"
definition GICC_PMR :: nat where "GICC_PMR = 0x004"
definition GICC_IAR :: nat where "GICC_IAR = 0x00C"
definition GICC_EOIR :: nat where "GICC_EOIR = 0x010"
definition GIC_SPURIOUS_INTID :: "32 word" where "GIC_SPURIOUS_INTID = 1023"
definition GICC_IAR_INTID_MASK :: "32 word" where "GICC_IAR_INTID_MASK = 0x3FF"
definition FIRST_SPI :: nat where "FIRST_SPI = 32"
definition DEFAULT_PRIORITY_BYTE :: "32 word" where "DEFAULT_PRIORITY_BYTE = 0xA0"
definition TARGET_CPU0_BYTE :: "32 word" where "TARGET_CPU0_BYTE = 0x01"
definition GIC_MAX_IRQ :: "32 word" where "GIC_MAX_IRQ = 1020"

definition QEMU_VIRT_GIC_DISTRIBUTOR_BASE :: nat where
  "QEMU_VIRT_GIC_DISTRIBUTOR_BASE = 0x08000000"
definition QEMU_VIRT_GIC_CPU_INTERFACE_BASE :: nat where
  "QEMU_VIRT_GIC_CPU_INTERFACE_BASE = 0x08010000"

record qemu_virt_gic =
  distributor_base :: nat
  cpu_interface_base :: nat

definition gic_new :: "nat \<Rightarrow> nat \<Rightarrow> qemu_virt_gic" where
  "gic_new d c = \<lparr>distributor_base = d, cpu_interface_base = c\<rparr>"

definition read_distributor :: "qemu_virt_gic \<Rightarrow> mmio_reads \<Rightarrow> nat \<Rightarrow> mmio_log \<Rightarrow> mmio_log \<times> 32 word" where
  "read_distributor g dev offset log =
     (let addr = saturating_add (distributor_base g) offset in (log @ [MmioRead addr], dev addr))"

definition write_distributor :: "qemu_virt_gic \<Rightarrow> nat \<Rightarrow> 32 word \<Rightarrow> mmio_log \<Rightarrow> mmio_log" where
  "write_distributor g offset v log = log @ [MmioWrite (saturating_add (distributor_base g) offset) v]"

definition read_cpu_interface :: "qemu_virt_gic \<Rightarrow> mmio_reads \<Rightarrow> nat \<Rightarrow> mmio_log \<Rightarrow> mmio_log \<times> 32 word" where
  "read_cpu_interface g dev offset log =
     (let addr = saturating_add (cpu_interface_base g) offset in (log @ [MmioRead addr], dev addr))"

definition write_cpu_interface :: "qemu_virt_gic \<Rightarrow> nat \<Rightarrow> 32 word \<Rightarrow> mmio_log \<Rightarrow> mmio_log" where
  "write_cpu_interface g offset v log = log @ [MmioWrite (saturating_add (cpu_interface_base g) offset) v]"

section \<open>Initialisation\<close>

text \<open>
  The three loops of \<open>init\<close>, as the source writes them: with saturating index
  arithmetic nothing in their text bounds them, so they are partial functions.
\<close>

partial_function (option) disable_spis ::
    "qemu_virt_gic \<Rightarrow> nat \<Rightarrow> nat \<Rightarrow> mmio_log \<Rightarrow> mmio_log option" where
  "disable_spis g irq_count n log =
     (if saturating_mul n 32 < irq_count
      then disable_spis g irq_count (saturating_add n 1)
             (write_distributor g (saturating_add GICD_ICENABLER_BASE (saturating_mul n 4)) 0xFFFFFFFF log)
      else Some log)"

partial_function (option) set_priorities ::
    "qemu_virt_gic \<Rightarrow> nat \<Rightarrow> 32 word \<Rightarrow> nat \<Rightarrow> mmio_log \<Rightarrow> mmio_log option" where
  "set_priorities g irq_count w byte_idx log =
     (if byte_idx < irq_count
      then set_priorities g irq_count w (saturating_add byte_idx 4)
             (write_distributor g (saturating_add GICD_IPRIORITYR_BASE byte_idx) w log)
      else Some log)"

partial_function (option) set_targets ::
    "qemu_virt_gic \<Rightarrow> nat \<Rightarrow> 32 word \<Rightarrow> nat \<Rightarrow> mmio_log \<Rightarrow> mmio_log option" where
  "set_targets g irq_count w byte_idx log =
     (if byte_idx < irq_count
      then set_targets g irq_count w (saturating_add byte_idx 4)
             (write_distributor g (saturating_add GICD_ITARGETSR_BASE byte_idx) w log)
      else Some log)"

definition four_bytes :: "32 word \<Rightarrow> 32 word" where
  "four_bytes b = b OR push_bit 8 b OR push_bit 16 b OR push_bit 24 b"

definition gic_init :: "qemu_virt_gic \<Rightarrow> mmio_reads \<Rightarrow> mmio_log \<Rightarrow> mmio_log option" where
  "gic_init g dev log = do {
     let log = write_distributor g GICD_CTLR 0 log;
     let (log, typer) = read_distributor g dev GICD_TYPER log;
     let it_lines_field = unat (typer AND 0x1F);
     let irq_count = saturating_mul (saturating_add it_lines_field 1) 32;
     log \<leftarrow> disable_spis g irq_count 1 log;
     log \<leftarrow> set_priorities g irq_count (four_bytes DEFAULT_PRIORITY_BYTE) FIRST_SPI log;
     log \<leftarrow> set_targets g irq_count (four_bytes TARGET_CPU0_BYTE) FIRST_SPI log;
     let log = write_distributor g GICD_CTLR 1 log;
     let log = write_cpu_interface g GICC_PMR 0xFF log;
     Some (write_cpu_interface g GICC_CTLR 1 log)
   }"

section \<open>Lines\<close>

definition gic_enable :: "qemu_virt_gic \<Rightarrow> irq_number \<Rightarrow> mmio_log \<Rightarrow> mmio_log option" where
  "gic_enable g irq log =
     (if \<not> irq < GIC_MAX_IRQ then None
      else
        let n = unat irq;
            reg_offset = saturating_add GICD_ISENABLER_BASE (saturating_mul (n div 32) 4);
            b = push_bit (n mod 32) 1
        in Some (write_distributor g reg_offset b log))"

definition gic_disable :: "qemu_virt_gic \<Rightarrow> irq_number \<Rightarrow> mmio_log \<Rightarrow> mmio_log option" where
  "gic_disable g irq log =
     (if \<not> irq < GIC_MAX_IRQ then None
      else
        let n = unat irq;
            reg_offset = saturating_add GICD_ICENABLER_BASE (saturating_mul (n div 32) 4);
            b = push_bit (n mod 32) 1
        in Some (write_distributor g reg_offset b log))"

definition gic_acknowledge ::
    "qemu_virt_gic \<Rightarrow> mmio_reads \<Rightarrow> mmio_log \<Rightarrow> mmio_log \<times> irq_number option" where
  "gic_acknowledge g dev log =
     (let (log, raw) = read_cpu_interface g dev GICC_IAR log;
          intid = raw AND GICC_IAR_INTID_MASK
      in (log, if intid = GIC_SPURIOUS_INTID then None else Some intid))"

definition gic_end_of_interrupt :: "qemu_virt_gic \<Rightarrow> irq_number \<Rightarrow> mmio_log \<Rightarrow> mmio_log" where
  "gic_end_of_interrupt g irq log = write_cpu_interface g GICC_EOIR irq log"

section \<open>The timer driver\<close>

text \<open>The CPU handle; its constructor checks the exception level and the frequency register.\<close>

record qemu_virt_cpu =
  cpu_frequency_hz :: "64 word"
  cpu_resolution_ns :: "64 word"

definition qemu_virt_cpu_new :: "64 word \<Rightarrow> 64 word \<Rightarrow> qemu_virt_cpu option" where
  "qemu_virt_cpu_new current_el cntfrq = do {
     (if current_el = 1 then Some () else None);
     (if cntfrq > 0 then Some () else None);
     resolution_ns \<leftarrow> resolution_ns_for_freq cntfrq;
     Some \<lparr>cpu_frequency_hz = cntfrq, cpu_resolution_ns = resolution_ns\<rparr>
   }"

text \<open>The registers the driver writes: \<open>CNTV_CVAL_EL0\<close> and \<open>CNTV_CTL_EL0\<close>.\<close>

record vtimer =
  cntv_cval :: "64 word"
  cntv_ctl :: "64 word"

definition TIMER_IRQ :: irq_number where "TIMER_IRQ = 27"

definition now_ns :: "qemu_virt_cpu \<Rightarrow> 64 word \<Rightarrow> 64 word option" where
  "now_ns cpu cntvct = ticks_to_ns cntvct (cpu_frequency_hz cpu)"

definition arm_deadline ::
    "qemu_virt_cpu \<Rightarrow> qemu_virt_gic \<Rightarrow> 64 word \<Rightarrow> vtimer \<times> mmio_log \<Rightarrow> (vtimer \<times> mmio_log) option" where
  "arm_deadline cpu g deadline_ns s = do {
     let (regs, log) = s;
     target_ticks \<leftarrow> ns_to_ticks deadline_ns (cpu_frequency_hz cpu);
     let regs = regs\<lparr>cntv_cval := target_ticks\<rparr>;
     let regs = regs\<lparr>cntv_ctl := 1\<rparr>;
     log \<leftarrow> gic_enable g TIMER_IRQ log;
     Some (regs, log)
   }"

definition cancel_deadline ::
    "qemu_virt_gic \<Rightarrow> vtimer \<times> mmio_log \<Rightarrow> (vtimer \<times> mmio_log) option" where
  "cancel_deadline g s = do {
     let (regs, log) = s;
     let regs = regs\<lparr>cntv_ctl := 2\<rparr>;
     log \<leftarrow> gic_disable g TIMER_IRQ log;
     Some (regs, log)
   }"

definition resolution_ns :: "qemu_virt_cpu \<Rightarrow> 64 word" where
  "resolution_ns cpu = cpu_resolution_ns cpu"

section \<open>The interrupt handler\<close>

definition TIMER_IRQ_ID :: "32 word" where "TIMER_IRQ_ID = 27"

text \<open>The handler panics only after it has written registers, so a panic is a value here.\<close>

datatype irq_exit = IrqReturn | IrqPanic "32 word"

definition irq_entry ::
    "qemu_virt_gic \<Rightarrow> mmio_reads \<Rightarrow> vtimer \<times> mmio_log \<Rightarrow> (vtimer \<times> mmio_log) \<times> irq_exit" where
  "irq_entry g dev s =
     (let (regs, log) = s;
          (log, r) = gic_acknowledge g dev log
      in case r of
           None \<Rightarrow> ((regs, log), IrqReturn)
         | Some irq \<Rightarrow>
             if irq = TIMER_IRQ_ID then
               (let regs = regs\<lparr>cntv_ctl := 2\<rparr>;
                    log = gic_end_of_interrupt g irq log
                in ((regs, log), IrqReturn))
             else
               (let log = gic_end_of_interrupt g irq log
                in ((regs, log), IrqPanic irq)))"

datatype panic_class = PanicGeneric | PanicUnhandledIrqMode

definition panic_class_from_u64 :: "64 word \<Rightarrow> panic_class" where
  "panic_class_from_u64 raw = (if raw = 1 then PanicUnhandledIrqMode else PanicGeneric)"

end
