(* ===== verification/Gic_Claims.thy ===== *)
theory Gic_Claims
  imports Gic
begin

text \<open>
  What the drivers achieve. The distributor is read as the registers the GICv2
  architecture defines: the write-one-to-set and write-one-to-clear enables, one
  priority byte and one target byte per line, the forwarding switch, and whether
  software has ever made an interrupt pending (through \<open>GICD_ISPENDR\<close>, \<open>GICD_SGIR\<close> or
  \<open>GICD_SPENDSGIR\<close>). A log of accesses is replayed on it. Nothing is assumed of the
  state it has at reset.
\<close>

unbundle bit_operations_syntax

section \<open>The distributor\<close>

record distributor =
  d_forwarding :: bool
  d_enabled :: "nat \<Rightarrow> bool"
  d_priority :: "nat \<Rightarrow> 8 word"
  d_target :: "nat \<Rightarrow> 8 word"
  d_raised :: bool

definition byte_of :: "32 word \<Rightarrow> nat \<Rightarrow> 8 word" where
  "byte_of v k = ucast (drop_bit (8 * k) v)"

definition put_bytes :: "(nat \<Rightarrow> 8 word) \<Rightarrow> nat \<Rightarrow> 32 word \<Rightarrow> nat \<Rightarrow> 8 word" where
  "put_bytes f at v i = (if i div 4 = at div 4 then byte_of v (i mod 4) else f i)"

definition write_offset :: "nat \<Rightarrow> 32 word \<Rightarrow> distributor \<Rightarrow> distributor" where
  "write_offset off v d =
     (if off = 0 then d\<lparr>d_forwarding := bit v 0\<rparr>
      else if 0x100 \<le> off \<and> off < 0x180
      then d\<lparr>d_enabled := \<lambda>i. d_enabled d i \<or> i div 32 = (off - 0x100) div 4 \<and> bit v (i mod 32)\<rparr>
      else if 0x180 \<le> off \<and> off < 0x200
      then d\<lparr>d_enabled := \<lambda>i. d_enabled d i \<and> \<not> (i div 32 = (off - 0x180) div 4 \<and> bit v (i mod 32))\<rparr>
      else if 0x200 \<le> off \<and> off < 0x280 \<or> off = 0xF00 \<or> 0xF20 \<le> off \<and> off < 0xF30 then d\<lparr>d_raised := True\<rparr>
      else if 0x400 \<le> off \<and> off < 0x800 then d\<lparr>d_priority := put_bytes (d_priority d) (off - 0x400) v\<rparr>
      else if 0x800 \<le> off \<and> off < 0xC00 then d\<lparr>d_target := put_bytes (d_target d) (off - 0x800) v\<rparr>
      else d)"

text \<open>Only accesses in the window of the distributor reach it.\<close>

fun device_step :: "qemu_virt_gic \<Rightarrow> distributor \<Rightarrow> mmio \<Rightarrow> distributor" where
  "device_step g d (MmioRead a) = d"
| "device_step g d (MmioWrite a v) =
     (if distributor_base g \<le> a \<and> a < distributor_base g + 0x1000
      then write_offset (a - distributor_base g) v d else d)"

definition replay :: "qemu_virt_gic \<Rightarrow> mmio_log \<Rightarrow> distributor \<Rightarrow> distributor" where
  "replay g log d = foldl (device_step g) d log"

text \<open>Two register windows in the address space that do not overlap.\<close>

definition windows_ok :: "qemu_virt_gic \<Rightarrow> bool" where
  "windows_ok g \<longleftrightarrow>
     distributor_base g + 0x1000 \<le> cpu_interface_base g \<and> cpu_interface_base g + 0x1000 \<le> usize_max"

lemma replay_simps [simp]:
  "replay g [] d = d"
  "replay g (a @ b) d = replay g b (replay g a d)"
  "replay g (e # b) d = replay g b (device_step g d e)"
  by (simp_all add: replay_def)

lemma replay_write [simp]:
  assumes "windows_ok g" and "off < 0x1000"
  shows "replay g (write_distributor g off v log) d = write_offset off v (replay g log d)"
    and "replay g (write_cpu_interface g off v log) d = replay g log d"
proof -
  have "saturating_add (distributor_base g) off = distributor_base g + off"
    and "saturating_add (cpu_interface_base g) off = cpu_interface_base g + off"
    using assms by (auto simp: windows_ok_def intro!: saturating_add_exact)
  then show "replay g (write_distributor g off v log) d = write_offset off v (replay g log d)"
    and "replay g (write_cpu_interface g off v log) d = replay g log d"
    using assms by (simp_all add: write_distributor_def write_cpu_interface_def windows_ok_def)
qed

lemma replay_read [simp]:
  "replay g (fst (read_distributor g dev off log)) d = replay g log d"
  "replay g (fst (read_cpu_interface g dev off log)) d = replay g log d"
  by (simp_all add: read_distributor_def read_cpu_interface_def Let_def)

section \<open>The loops of init\<close>

lemma all_ones: "bit (0xFFFFFFFF :: int) (i mod 32)"
proof -
  have "(0xFFFFFFFF :: int) = mask 32"
    by (simp add: mask_eq_exp_minus_1)
  then show ?thesis
    by (simp only: bit_mask_iff) simp
qed

lemma exact_small [simp]:
  "a < 0x10000 \<Longrightarrow> b < 0x10000 \<Longrightarrow> saturating_add a b = a + b"
  "a < 0x10000 \<Longrightarrow> b < 0x10000 \<Longrightarrow> saturating_mul a b = a * b"
proof -
  assume ab: "a < 0x10000" "b < 0x10000"
  then have "a * b \<le> 0x10000 * 0x10000"
    by (intro mult_le_mono) auto
  then show "saturating_mul a b = a * b"
    by (intro saturating_mul_exact) (simp add: usize_max_def)
  show "saturating_add a b = a + b"
    using ab by (intro saturating_add_exact) (simp add: usize_max_def)
qed

lemma disable_spis_ok:
  assumes "windows_ok g" and "k \<le> 32" and "1 \<le> n" and "n \<le> k"
  shows "\<exists>log'. disable_spis g (32 * k) n log = Some log' \<and>
    replay g log' d =
      (replay g log d)\<lparr>d_enabled := \<lambda>i. d_enabled (replay g log d) i \<and> \<not> (n \<le> i div 32 \<and> i div 32 < k)\<rparr>"
  using assms(3,4)
proof (induction "k - n" arbitrary: n log)
  case 0
  then have "n = k"
    by simp
  then have "disable_spis g (32 * k) n log = Some log"
    using assms(2) by (subst disable_spis.simps) simp
  moreover have "\<not> (n \<le> j \<and> j < k)" for j
    using \<open>n = k\<close> by simp
  ultimately show ?case
    by simp
next
  case (Suc x)
  let ?off = "0x180 + 4 * n"
  let ?log = "write_distributor g ?off 0xFFFFFFFF log"
  have n: "n < k" "n < 32" and next_index: "x = k - (n + 1)" and below: "n + 1 \<le> k"
    using Suc.hyps(2) assms(2) by auto
  have "disable_spis g (32 * k) n log = disable_spis g (32 * k) (n + 1) ?log"
    using n by (subst disable_spis.simps) (simp add: GICD_ICENABLER_BASE_def mult.commute)
  moreover obtain log' where "disable_spis g (32 * k) (n + 1) ?log = Some log'"
    and r: "replay g log' d = (replay g ?log d)\<lparr>d_enabled :=
      \<lambda>i. d_enabled (replay g ?log d) i \<and> \<not> (n + 1 \<le> i div 32 \<and> i div 32 < k)\<rparr>"
    using Suc.hyps(1) [OF next_index _ below, of ?log] by auto
  moreover have "replay g ?log d =
      (replay g log d)\<lparr>d_enabled := \<lambda>i. d_enabled (replay g log d) i \<and> \<not> i div 32 = n\<rparr>"
    using assms(1) n by (simp add: write_offset_def all_ones)
  ultimately show ?case
    using n by (auto intro!: arg_cong [where f = "\<lambda>e. (replay g log d)\<lparr>d_enabled := e\<rparr>"] ext)
qed

lemma put_bytes_run:
  assumes "n < k"
  shows "(\<lambda>i. if 4 * (n + 1) \<le> i \<and> i < 4 * k then byte_of w (i mod 4) else put_bytes f (4 * n) w i) =
         (\<lambda>i. if 4 * n \<le> i \<and> i < 4 * k then byte_of w (i mod 4) else f i)"
proof (rule ext)
  fix i
  have "i div 4 = n \<longleftrightarrow> 4 * n \<le> i \<and> i < 4 * (n + 1)"
    by auto
  then show "(if 4 * (n + 1) \<le> i \<and> i < 4 * k then byte_of w (i mod 4) else put_bytes f (4 * n) w i) =
         (if 4 * n \<le> i \<and> i < 4 * k then byte_of w (i mod 4) else f i)"
    using assms by (auto simp: put_bytes_def)
qed

lemma empty_range [simp]: "(\<lambda>i :: nat. if a \<le> i \<and> i < a then x i else f i) = f"
  by (rule ext) auto

lemma set_priorities_ok:
  assumes "windows_ok g" and "k \<le> 256" and "n \<le> k"
  shows "\<exists>log'. set_priorities g (4 * k) w (4 * n) log = Some log' \<and>
    replay g log' d = (replay g log d)\<lparr>d_priority :=
      \<lambda>i. if 4 * n \<le> i \<and> i < 4 * k then byte_of w (i mod 4) else d_priority (replay g log d) i\<rparr>"
  using assms(3)
proof (induction "k - n" arbitrary: n log)
  case 0
  then show ?case
    by (subst set_priorities.simps) auto
next
  case (Suc x)
  let ?log = "write_distributor g (0x400 + 4 * n) w log"
  have n: "n < k" "n < 256" and next_index: "x = k - (n + 1)" and below: "n + 1 \<le> k"
    using Suc.hyps(2) assms(2) by auto
  have "set_priorities g (4 * k) w (4 * n) log = set_priorities g (4 * k) w (4 * (n + 1)) ?log"
    using n by (subst set_priorities.simps) (simp add: add.commute GICD_IPRIORITYR_BASE_def)
  moreover obtain log' where "set_priorities g (4 * k) w (4 * (n + 1)) ?log = Some log'"
    and tail: "replay g log' d = (replay g ?log d)\<lparr>d_priority :=
      \<lambda>i. if 4 * (n + 1) \<le> i \<and> i < 4 * k then byte_of w (i mod 4) else d_priority (replay g ?log d) i\<rparr>"
    using Suc.hyps(1) [OF next_index below, of ?log] by blast
  moreover have one: "replay g ?log d = (replay g log d)\<lparr>d_priority := put_bytes (d_priority (replay g log d)) (4 * n) w\<rparr>"
    using assms(1) n by (simp add: write_offset_def)
  moreover have "replay g log' d = (replay g log d)\<lparr>d_priority :=
      \<lambda>i. if 4 * n \<le> i \<and> i < 4 * k then byte_of w (i mod 4) else d_priority (replay g log d) i\<rparr>"
    unfolding tail one put_bytes_run [OF n(1), symmetric] by (simp cong: if_cong)
  ultimately show ?case
    by simp
qed

lemma set_targets_ok:
  assumes "windows_ok g" and "k \<le> 256" and "n \<le> k"
  shows "\<exists>log'. set_targets g (4 * k) w (4 * n) log = Some log' \<and>
    replay g log' d = (replay g log d)\<lparr>d_target :=
      \<lambda>i. if 4 * n \<le> i \<and> i < 4 * k then byte_of w (i mod 4) else d_target (replay g log d) i\<rparr>"
  using assms(3)
proof (induction "k - n" arbitrary: n log)
  case 0
  then show ?case
    by (subst set_targets.simps) auto
next
  case (Suc x)
  let ?log = "write_distributor g (0x800 + 4 * n) w log"
  have n: "n < k" "n < 256" and next_index: "x = k - (n + 1)" and below: "n + 1 \<le> k"
    using Suc.hyps(2) assms(2) by auto
  have "set_targets g (4 * k) w (4 * n) log = set_targets g (4 * k) w (4 * (n + 1)) ?log"
    using n by (subst set_targets.simps) (simp add: add.commute GICD_ITARGETSR_BASE_def)
  moreover obtain log' where "set_targets g (4 * k) w (4 * (n + 1)) ?log = Some log'"
    and tail: "replay g log' d = (replay g ?log d)\<lparr>d_target :=
      \<lambda>i. if 4 * (n + 1) \<le> i \<and> i < 4 * k then byte_of w (i mod 4) else d_target (replay g ?log d) i\<rparr>"
    using Suc.hyps(1) [OF next_index below, of ?log] by blast
  moreover have one: "replay g ?log d = (replay g log d)\<lparr>d_target := put_bytes (d_target (replay g log d)) (4 * n) w\<rparr>"
    using assms(1) n by (simp add: write_offset_def)
  moreover have "replay g log' d = (replay g log d)\<lparr>d_target :=
      \<lambda>i. if 4 * n \<le> i \<and> i < 4 * k then byte_of w (i mod 4) else d_target (replay g log d) i\<rparr>"
    unfolding tail one put_bytes_run [OF n(1), symmetric] by (simp cong: if_cong)
  ultimately show ?case
    by simp
qed

section \<open>What init leaves\<close>

lemma it_lines_bound: "unat (w AND 0x1F :: 32 word) \<le> 31"
proof -
  have "w AND 0x1F \<le> (0x1F :: 32 word)"
    by (rule word_and_le1)
  then show ?thesis
    by (simp add: word_le_nat_alt)
qed

lemma config_bytes:
  "byte_of (four_bytes DEFAULT_PRIORITY_BYTE) (i mod 4) = 0xA0"
  "byte_of (four_bytes TARGET_CPU0_BYTE) (i mod 4) = 1"
proof -
  have words: "four_bytes DEFAULT_PRIORITY_BYTE = 0xA0A0A0A0" "four_bytes TARGET_CPU0_BYTE = 0x01010101"
    by (simp_all add: four_bytes_def DEFAULT_PRIORITY_BYTE_def TARGET_CPU0_BYTE_def)
  have "i mod 4 = 0 \<or> i mod 4 = 1 \<or> i mod 4 = 2 \<or> i mod 4 = 3"
    by presburger
  then show "byte_of (four_bytes DEFAULT_PRIORITY_BYTE) (i mod 4) = 0xA0"
    and "byte_of (four_bytes TARGET_CPU0_BYTE) (i mod 4) = 1"
    unfolding words byte_of_def by (elim disjE, simp_all)+
qed

text \<open>The number of lines the distributor reports.\<close>

definition line_count :: "qemu_virt_gic \<Rightarrow> mmio_reads \<Rightarrow> nat" where
  "line_count g dev = 32 * (unat (dev (distributor_base g + 4) AND 0x1F) + 1)"

definition configured :: "nat \<Rightarrow> distributor \<Rightarrow> distributor" where
  "configured n d =
     \<lparr>d_forwarding = False,
      d_enabled = \<lambda>i. d_enabled d i \<and> \<not> (32 \<le> i \<and> i < n),
      d_priority = \<lambda>i. if 32 \<le> i \<and> i < n then 0xA0 else d_priority d i,
      d_target = \<lambda>i. if 32 \<le> i \<and> i < n then 1 else d_target d i,
      d_raised = d_raised d\<rparr>"

lemma gic_init_ok:
  assumes g: "windows_ok g"
  obtains pre where "replay g pre d = configured (line_count g dev) (replay g log d)"
    and "gic_init g dev log =
      Some (pre @ [MmioWrite (distributor_base g) 1, MmioWrite (cpu_interface_base g + 4) 0xFF,
                   MmioWrite (cpu_interface_base g) 1])"
proof -
  define l where "l = unat (dev (distributor_base g + 4) AND 0x1F)"
  have l: "l \<le> 31"
    unfolding l_def by (rule it_lines_bound)
  let ?log0 = "write_distributor g GICD_CTLR 0 log"
  define log1 where "log1 = ?log0 @ [MmioRead (distributor_base g + 4)]"
  have addrs: "saturating_add (distributor_base g) GICD_TYPER = distributor_base g + 4"
    "saturating_add (distributor_base g) GICD_CTLR = distributor_base g"
    "saturating_add (cpu_interface_base g) GICC_PMR = cpu_interface_base g + 4"
    "saturating_add (cpu_interface_base g) GICC_CTLR = cpu_interface_base g"
    using g by (simp_all add: windows_ok_def saturating_add_exact GICD_TYPER_def GICD_CTLR_def GICC_PMR_def GICC_CTLR_def)
  have count: "saturating_mul (saturating_add l 1) 32 = 32 * (l + 1)"
    using l by simp
  have d1: "replay g log1 d = (replay g log d)\<lparr>d_forwarding := False\<rparr>"
    using g by (simp add: log1_def GICD_CTLR_def write_offset_def)
  obtain log2 where log2: "disable_spis g (32 * (l + 1)) 1 log1 = Some log2"
    and d2: "replay g log2 d = (replay g log1 d)\<lparr>d_enabled :=
      \<lambda>i. d_enabled (replay g log1 d) i \<and> \<not> (1 \<le> i div 32 \<and> i div 32 < l + 1)\<rparr>"
    using disable_spis_ok [OF g, of "l + 1" 1 log1 d] l by auto
  obtain log3 where log3: "set_priorities g (32 * (l + 1)) (four_bytes DEFAULT_PRIORITY_BYTE) 32 log2 = Some log3"
    and d3: "replay g log3 d = (replay g log2 d)\<lparr>d_priority :=
      \<lambda>i. if 32 \<le> i \<and> i < 32 * (l + 1) then byte_of (four_bytes DEFAULT_PRIORITY_BYTE) (i mod 4)
           else d_priority (replay g log2 d) i\<rparr>"
    using set_priorities_ok [OF g, of "8 * (l + 1)" 8 _ log2 d] l by auto
  obtain log4 where log4: "set_targets g (32 * (l + 1)) (four_bytes TARGET_CPU0_BYTE) 32 log3 = Some log4"
    and d4: "replay g log4 d = (replay g log3 d)\<lparr>d_target :=
      \<lambda>i. if 32 \<le> i \<and> i < 32 * (l + 1) then byte_of (four_bytes TARGET_CPU0_BYTE) (i mod 4)
           else d_target (replay g log3 d) i\<rparr>"
    using set_targets_ok [OF g, of "8 * (l + 1)" 8 _ log3 d] l by auto
  have run: "gic_init g dev log = Some (log4 @ [MmioWrite (distributor_base g) 1,
      MmioWrite (cpu_interface_base g + 4) 0xFF, MmioWrite (cpu_interface_base g) 1])"
    using log2 log3 log4 count
    by (simp add: gic_init_def read_distributor_def Let_def addrs FIRST_SPI_def
        flip: l_def log1_def del: exact_small One_nat_def)
      (simp add: write_distributor_def write_cpu_interface_def addrs)
  have "1 \<le> i div 32 \<and> i div 32 < l + 1 \<longleftrightarrow> 32 \<le> i \<and> i < line_count g dev" for i
    unfolding line_count_def l_def [symmetric] by auto
  then have "replay g log4 d = configured (line_count g dev) (replay g log d)"
    unfolding d4 d3 d2 d1 config_bytes configured_def
    by (simp add: line_count_def l_def cong: if_cong)
  with run show thesis
    by (rule that [rotated])
qed

section \<open>Enabling and disabling\<close>

lemma single_bit: "bit (2 ^ (n mod 32) :: 32 word) (i mod 32) \<longleftrightarrow> i mod 32 = n mod 32"
proof -
  have power: "2 ^ (n mod 32) = push_bit (n mod 32) (1 :: 32 word)"
    by simp
  show ?thesis
    unfolding power bit_push_bit_iff bit_1_iff by (auto simp: possible_bit_word)
qed

lemma same_line: "i div 32 = n div 32 \<and> i mod 32 = n mod 32 \<longleftrightarrow> i = (n :: nat)"
  by (metis div_mult_mod_eq)

lemma line_register:
  assumes "irq < GIC_MAX_IRQ"
  shows "unat irq < 1020"
    and "saturating_mul (unat irq div 32) 4 = unat irq div 32 * 4"
  using assms by (simp_all add: GIC_MAX_IRQ_def word_less_nat_alt)

lemma gic_enable_ok:
  assumes g: "windows_ok g" and irq: "irq < GIC_MAX_IRQ"
  obtains log' where "gic_enable g irq log = Some log'"
    and "replay g log' d = (replay g log d)\<lparr>d_enabled := (d_enabled (replay g log d))(unat irq := True)\<rparr>"
proof
  let ?off = "0x100 + unat irq div 32 * 4"
  note n = line_register [OF irq]
  have off: "?off < 0x180"
    using n(1) by simp
  show "gic_enable g irq log = Some (write_distributor g ?off (push_bit (unat irq mod 32) 1) log)"
    using irq n off by (simp add: gic_enable_def Let_def GICD_ISENABLER_BASE_def)
  have "(\<lambda>i. d_enabled (replay g log d) i \<or> i div 32 = unat irq div 32 \<and> i mod 32 = unat irq mod 32) =
      (d_enabled (replay g log d))(unat irq := True)"
    unfolding same_line by (rule ext) simp
  then show "replay g (write_distributor g ?off (push_bit (unat irq mod 32) 1) log) d =
      (replay g log d)\<lparr>d_enabled := (d_enabled (replay g log d))(unat irq := True)\<rparr>"
    using g off by (simp add: write_offset_def single_bit)
qed

lemma gic_disable_ok:
  assumes g: "windows_ok g" and irq: "irq < GIC_MAX_IRQ"
  obtains log' where "gic_disable g irq log = Some log'"
    and "replay g log' d = (replay g log d)\<lparr>d_enabled := (d_enabled (replay g log d))(unat irq := False)\<rparr>"
proof
  let ?off = "0x180 + unat irq div 32 * 4"
  note n = line_register [OF irq]
  have off: "?off < 0x200"
    using n(1) by simp
  show "gic_disable g irq log = Some (write_distributor g ?off (push_bit (unat irq mod 32) 1) log)"
    using irq n off by (simp add: gic_disable_def Let_def GICD_ICENABLER_BASE_def)
  have "(\<lambda>i. d_enabled (replay g log d) i \<and> \<not> (i div 32 = unat irq div 32 \<and> i mod 32 = unat irq mod 32)) =
      (d_enabled (replay g log d))(unat irq := False)"
    unfolding same_line by (rule ext) simp
  then show "replay g (write_distributor g ?off (push_bit (unat irq mod 32) 1) log) d =
      (replay g log d)\<lparr>d_enabled := (d_enabled (replay g log d))(unat irq := False)\<rparr>"
    using g off by (simp add: write_offset_def single_bit)
qed

section \<open>The timer\<close>

text \<open>
  When the timer asserts its line: enabled, not masked, and the counter at or
  past the comparator.
\<close>

definition timer_fires :: "vtimer \<Rightarrow> 64 word \<Rightarrow> bool" where
  "timer_fires regs cntvct \<longleftrightarrow> bit (cntv_ctl regs) 0 \<and> \<not> bit (cntv_ctl regs) 1 \<and> cntv_cval regs \<le> cntvct"

lemma masked_timer [simp]: "\<not> timer_fires (regs\<lparr>cntv_ctl := 2\<rparr>) c"
  by (simp add: timer_fires_def)

lemma armed_timer: "timer_fires (regs\<lparr>cntv_cval := t, cntv_ctl := 1\<rparr>) c \<longleftrightarrow> t \<le> c"
  by (simp add: timer_fires_def)

lemma cpu_frequency:
  assumes "qemu_virt_cpu_new el f = Some cpu"
  shows "cpu_frequency_hz cpu = f" and "f \<noteq> 0"
  using assms by (auto simp: qemu_virt_cpu_new_def split: if_splits option.splits bind_splits)

lemma TIMER_IRQ_line: "TIMER_IRQ < GIC_MAX_IRQ" "unat TIMER_IRQ = 27"
  by (simp_all add: TIMER_IRQ_def GIC_MAX_IRQ_def)

lemma arm_deadline_ok:
  assumes "windows_ok g" and "qemu_virt_cpu_new el f = Some cpu"
  obtains t log' where "ns_to_ticks dl f = Some t"
    and "arm_deadline cpu g dl (regs, log) = Some (regs\<lparr>cntv_cval := t, cntv_ctl := 1\<rparr>, log')"
    and "replay g log' d = (replay g log d)\<lparr>d_enabled := (d_enabled (replay g log d))(27 := True)\<rparr>"
proof -
  obtain t where t: "ns_to_ticks dl f = Some t"
    using ns_to_ticks_nat [OF cpu_frequency(2) [OF assms(2)]] by blast
  obtain log' where log': "gic_enable g TIMER_IRQ log = Some log'"
    and d: "replay g log' d = (replay g log d)\<lparr>d_enabled := (d_enabled (replay g log d))(27 := True)\<rparr>"
    using gic_enable_ok [OF assms(1) TIMER_IRQ_line(1)] unfolding TIMER_IRQ_line(2) by blast
  have "arm_deadline cpu g dl (regs, log) = Some (regs\<lparr>cntv_cval := t, cntv_ctl := 1\<rparr>, log')"
    using t log' by (simp add: arm_deadline_def cpu_frequency(1) [OF assms(2)])
  from that [OF t this d] show thesis .
qed

lemma cancel_deadline_ok:
  assumes "windows_ok g"
  obtains log' where "cancel_deadline g (regs, log) = Some (regs\<lparr>cntv_ctl := 2\<rparr>, log')"
    and "replay g log' d = (replay g log d)\<lparr>d_enabled := (d_enabled (replay g log d))(27 := False)\<rparr>"
proof -
  obtain log' where log': "gic_disable g TIMER_IRQ log = Some log'"
    and d: "replay g log' d = (replay g log d)\<lparr>d_enabled := (d_enabled (replay g log d))(27 := False)\<rparr>"
    using gic_disable_ok [OF assms TIMER_IRQ_line(1)] unfolding TIMER_IRQ_line(2) by blast
  have "cancel_deadline g (regs, log) = Some (regs\<lparr>cntv_ctl := 2\<rparr>, log')"
    using log' by (simp add: cancel_deadline_def)
  from that [OF this d] show thesis .
qed

section \<open>The drivers together\<close>

text \<open>
  The interrupt number a read of \<open>GICC_IAR\<close> gives, and the documented behaviour of
  that register: it is 1023 when nothing is pending, otherwise it names an enabled
  line, and a software-generated interrupt, a number below 16, only when software has
  raised one.
\<close>

definition iar_id :: "qemu_virt_gic \<Rightarrow> mmio_reads \<Rightarrow> 32 word" where
  "iar_id g dev = dev (cpu_interface_base g + 12) AND 0x3FF"

definition signals_enabled :: "qemu_virt_gic \<Rightarrow> distributor \<Rightarrow> mmio_log \<Rightarrow> mmio_reads \<Rightarrow> bool" where
  "signals_enabled g d log dev \<longleftrightarrow>
     (let now = replay g log d; i = unat (iar_id g dev)
      in i = 1023 \<or> d_enabled now i \<and> (i < 16 \<longrightarrow> d_raised now))"

text \<open>The states of the drivers after start-up, with the distributor in state \<open>d\<close> before it.\<close>

inductive driver_reach :: "qemu_virt_cpu \<Rightarrow> qemu_virt_gic \<Rightarrow> distributor \<Rightarrow> mmio_reads \<Rightarrow> vtimer \<times> mmio_log \<Rightarrow> bool"
  for cpu g d dev0 where
  init: "gic_init g dev0 [] = Some log \<Longrightarrow> driver_reach cpu g d dev0 (regs, log)"
| arm: "driver_reach cpu g d dev0 s \<Longrightarrow> arm_deadline cpu g dl s = Some s' \<Longrightarrow> driver_reach cpu g d dev0 s'"
| cancel: "driver_reach cpu g d dev0 s \<Longrightarrow> cancel_deadline g s = Some s' \<Longrightarrow> driver_reach cpu g d dev0 s'"
| irq: "driver_reach cpu g d dev0 s \<Longrightarrow> signals_enabled g d (snd s) dev \<Longrightarrow> irq_entry g dev s = (s', e) \<Longrightarrow>
    driver_reach cpu g d dev0 s'"

lemma irq_entry_cases:
  assumes "windows_ok g"
  shows "irq_entry g dev (regs, log) =
    (if iar_id g dev = 1023 then ((regs, log @ [MmioRead (cpu_interface_base g + 12)]), IrqReturn)
     else ((if iar_id g dev = 27 then regs\<lparr>cntv_ctl := 2\<rparr> else regs,
            log @ [MmioRead (cpu_interface_base g + 12), MmioWrite (cpu_interface_base g + 16) (iar_id g dev)]),
           if iar_id g dev = 27 then IrqReturn else IrqPanic (iar_id g dev)))"
proof -
  have "saturating_add (cpu_interface_base g) GICC_IAR = cpu_interface_base g + 12"
    and "saturating_add (cpu_interface_base g) GICC_EOIR = cpu_interface_base g + 16"
    using assms by (simp_all add: windows_ok_def saturating_add_exact GICC_IAR_def GICC_EOIR_def)
  then show ?thesis
    by (simp add: irq_entry_def gic_acknowledge_def gic_end_of_interrupt_def read_cpu_interface_def
        write_cpu_interface_def Let_def iar_id_def GICC_IAR_INTID_MASK_def GIC_SPURIOUS_INTID_def TIMER_IRQ_ID_def)
qed

text \<open>
  Whatever the drivers do, an enabled line is the timer's or was enabled before
  start-up and not among those \<open>init\<close> switches off, and the kernel raises nothing.
\<close>

lemma driver_reach_lines:
  assumes "windows_ok g" and cpu: "qemu_virt_cpu_new el f = Some cpu" and "driver_reach cpu g d dev0 s"
  shows "(\<forall>i. d_enabled (replay g (snd s) d) i \<longrightarrow> i = 27 \<or> d_enabled d i \<and> (i < 32 \<or> line_count g dev0 \<le> i)) \<and>
    d_raised (replay g (snd s) d) = d_raised d"
  using assms(3)
proof induction
  case (init log regs)
  obtain pre where pre: "replay g pre d = configured (line_count g dev0) d"
    and "gic_init g dev0 [] = Some (pre @ [MmioWrite (distributor_base g) 1,
      MmioWrite (cpu_interface_base g + 4) 0xFF, MmioWrite (cpu_interface_base g) 1])"
    using gic_init_ok [OF assms(1), of d dev0 "[]"] by auto
  then have "d_enabled (replay g log d) = d_enabled (configured (line_count g dev0) d)"
    "d_raised (replay g log d) = d_raised (configured (line_count g dev0) d)"
    using init.hyps assms(1) by (auto simp: windows_ok_def write_offset_def)
  then show ?case
    by (auto simp: configured_def)
next
  case (arm s dl s')
  obtain regs log where s: "s = (regs, log)"
    by (cases s)
  obtain t log' where "arm_deadline cpu g dl (regs, log) = Some (regs\<lparr>cntv_cval := t, cntv_ctl := 1\<rparr>, log')"
    and "replay g log' d = (replay g log d)\<lparr>d_enabled := (d_enabled (replay g log d))(27 := True)\<rparr>"
    using arm_deadline_ok [OF assms(1,2)] by blast
  then show ?case
    using arm s by auto
next
  case (cancel s s')
  obtain regs log where s: "s = (regs, log)"
    by (cases s)
  obtain log' where "cancel_deadline g (regs, log) = Some (regs\<lparr>cntv_ctl := 2\<rparr>, log')"
    and "replay g log' d = (replay g log d)\<lparr>d_enabled := (d_enabled (replay g log d))(27 := False)\<rparr>"
    using cancel_deadline_ok [OF assms(1)] by blast
  then show ?case
    using cancel s by auto
next
  case (irq s dev s' e)
  obtain regs log where s: "s = (regs, log)"
    by (cases s)
  have "replay g (snd s') d = replay g log d"
    using irq.hyps(3) irq_entry_cases [OF assms(1), of dev regs log] assms(1) s
    by (auto simp: windows_ok_def split: if_splits)
  then show ?case
    using irq s by auto
qed

section \<open>Claims\<close>

text \<open>
  C37: Start-up terminates and configures the controller. Whatever line count the
  distributor reports and whatever state it is in, the three loops of \<open>init\<close>
  end; afterwards every shared line is disabled, has the default priority and is
  routed to core 0, private lines are untouched, and forwarding is switched on only
  after all of that: just before the last three writes it is off.
\<close>

theorem gic_init_configures:
  assumes "windows_ok g"
  shows "\<exists>pre. gic_init g dev log =
      Some (pre @ [MmioWrite (distributor_base g) 1, MmioWrite (cpu_interface_base g + 4) 0xFF,
                   MmioWrite (cpu_interface_base g) 1]) \<and>
    \<not> d_forwarding (replay g pre d) \<and>
    (\<forall>i. let before = replay g log d; now = replay g pre d in
      if 32 \<le> i \<and> i < line_count g dev
      then \<not> d_enabled now i \<and> d_priority now i = 0xA0 \<and> d_target now i = 1
      else d_enabled now i = d_enabled before i \<and> d_priority now i = d_priority before i \<and>
           d_target now i = d_target before i)"
proof -
  obtain pre where pre: "replay g pre d = configured (line_count g dev) (replay g log d)"
    and run: "gic_init g dev log =
      Some (pre @ [MmioWrite (distributor_base g) 1, MmioWrite (cpu_interface_base g + 4) 0xFF,
                   MmioWrite (cpu_interface_base g) 1])"
    using gic_init_ok [OF assms] by blast
  show ?thesis
    by (rule exI [of _ pre]) (auto simp: run pre configured_def Let_def)
qed

definition qemu_gic :: qemu_virt_gic where
  "qemu_gic = gic_new QEMU_VIRT_GIC_DISTRIBUTOR_BASE QEMU_VIRT_GIC_CPU_INTERFACE_BASE"

lemma qemu_gic_windows: "windows_ok qemu_gic"
  by (simp add: windows_ok_def qemu_gic_def gic_new_def QEMU_VIRT_GIC_DISTRIBUTOR_BASE_def
      QEMU_VIRT_GIC_CPU_INTERFACE_BASE_def usize_max_def)

theorem gic_init_configures_witness:
  "\<exists>pre. gic_init qemu_gic (\<lambda>_. 8) [] =
      Some (pre @ [MmioWrite (distributor_base qemu_gic) 1, MmioWrite (cpu_interface_base qemu_gic + 4) 0xFF,
                   MmioWrite (cpu_interface_base qemu_gic) 1])"
  using gic_init_configures [OF qemu_gic_windows, of "\<lambda>_. 8" "[]"] by blast

text \<open>
  C36: A deadline fires exactly on time. On a CPU handle the constructor accepted,
  arming never panics, enables line 27 and changes no other line; from then on the
  timer asserts its line at exactly the counter values whose time, as \<open>now_ns\<close>
  reports it, has reached the deadline, provided the deadline's tick count fits
  in 64 bits. Cancelling silences the timer and disables the line.
\<close>

theorem deadline_fires_on_time:
  assumes g: "windows_ok g" and cpu: "qemu_virt_cpu_new el f = Some cpu"
    and fits: "unat dl * unat f \<le> (2 ^ 64 - 1) * 10 ^ 9"
  shows "\<exists>regs' log' regs'' log''.
    arm_deadline cpu g dl (regs, log) = Some (regs', log') \<and>
    d_enabled (replay g log' d) = (d_enabled (replay g log d))(27 := True) \<and>
    (\<forall>count. \<exists>now. now_ns cpu count = Some now \<and> (timer_fires regs' count \<longleftrightarrow> dl \<le> now)) \<and>
    cancel_deadline g (regs', log') = Some (regs'', log'') \<and>
    d_enabled (replay g log'' d) = (d_enabled (replay g log d))(27 := False) \<and>
    (\<forall>count. \<not> timer_fires regs'' count)"
proof -
  obtain t log' where t: "ns_to_ticks dl f = Some t"
    and arm: "arm_deadline cpu g dl (regs, log) = Some (regs\<lparr>cntv_cval := t, cntv_ctl := 1\<rparr>, log')"
    and lines: "replay g log' d = (replay g log d)\<lparr>d_enabled := (d_enabled (replay g log d))(27 := True)\<rparr>"
    using arm_deadline_ok [OF g cpu] by blast
  let ?regs = "regs\<lparr>cntv_cval := t, cntv_ctl := 1\<rparr>"
  obtain log'' where cancel: "cancel_deadline g (?regs, log') = Some (?regs\<lparr>cntv_ctl := 2\<rparr>, log'')"
    and lines': "replay g log'' d = (replay g log' d)\<lparr>d_enabled := (d_enabled (replay g log' d))(27 := False)\<rparr>"
    using cancel_deadline_ok [OF g] by blast
  have "\<exists>now. now_ns cpu c = Some now \<and> (timer_fires ?regs c \<longleftrightarrow> dl \<le> now)" for c
  proof -
    obtain now where "ticks_to_ns c f = Some now"
      using ticks_to_ns_nat [OF cpu_frequency(2) [OF cpu]] by blast
    then show ?thesis
      using reached_iff [OF cpu_frequency(2) [OF cpu] fits t] by (simp add: now_ns_def cpu_frequency(1) [OF cpu] armed_timer)
  qed
  moreover have "d_enabled (replay g log'' d) = (d_enabled (replay g log d))(27 := False)"
    by (simp add: lines lines')
  ultimately show ?thesis
    using arm cancel lines
    by (intro exI [of _ ?regs] exI [of _ log'] exI [of _ "?regs\<lparr>cntv_ctl := 2\<rparr>"] exI [of _ log'']) simp
qed

definition board_cpu :: qemu_virt_cpu where
  "board_cpu = \<lparr>cpu_frequency_hz = 62500000, cpu_resolution_ns = 16\<rparr>"

lemma board_cpu_new: "qemu_virt_cpu_new 1 62500000 = Some board_cpu"
  by (simp add: qemu_virt_cpu_new_def board_cpu_def resolution_ns_for_freq_def NANOS_PER_SECOND_def Let_def)

theorem deadline_fires_on_time_witness:
  "\<exists>regs' log'.
    arm_deadline board_cpu qemu_gic 1000000000 (\<lparr>cntv_cval = 0, cntv_ctl = 0\<rparr>, []) = Some (regs', log') \<and>
    (\<forall>count. \<exists>now. now_ns board_cpu count = Some now \<and> (timer_fires regs' count \<longleftrightarrow> 1000000000 \<le> now))"
proof -
  have "unat (1000000000 :: 64 word) * unat (62500000 :: 64 word) \<le> (2 ^ 64 - 1) * 10 ^ 9"
    by simp
  from deadline_fires_on_time [OF qemu_gic_windows board_cpu_new this] show ?thesis
    by blast
qed

text \<open>
  C38: Only the timer interrupts. Whatever state the controller has at reset, whatever
  deadlines are armed and cancelled after start-up and whatever interrupts the
  controller signals, a run of the handler does one of three things. A spurious
  signal is only read. The timer's interrupt is ended exactly once with the
  number that was acknowledged, and leaves the timer masked at every counter
  value, so it cannot fire again before it is armed again. Any other number is
  ended once and reaches the panic with that number, the timer untouched; and
  then the line was enabled before the kernel started, it is a private one or one
  beyond those the distributor reports, and if it is software-generated then it was
  raised before the kernel started. So software-generated interrupts left enabled
  at reset, as the board leaves them, never reach the panic.
\<close>

theorem only_the_timer_interrupts:
  assumes g: "windows_ok g" and cpu: "qemu_virt_cpu_new el f = Some cpu"
    and reach: "driver_reach cpu g d dev0 (regs, log)" and sig: "signals_enabled g d log dev"
  shows "\<exists>regs' log' e. irq_entry g dev (regs, log) = ((regs', log @ MmioRead (cpu_interface_base g + 12) # log'), e) \<and>
    (if iar_id g dev = 1023 then e = IrqReturn \<and> regs' = regs \<and> log' = []
     else log' = [MmioWrite (cpu_interface_base g + 16) (iar_id g dev)] \<and>
       (if iar_id g dev = 27 then e = IrqReturn \<and> (\<forall>count. \<not> timer_fires regs' count)
        else e = IrqPanic (iar_id g dev) \<and> regs' = regs \<and>
          (let i = unat (iar_id g dev)
           in d_enabled d i \<and> (i < 32 \<or> line_count g dev0 \<le> i) \<and> (i < 16 \<longrightarrow> d_raised d))))"
proof -
  let ?i = "unat (iar_id g dev)"
  have nums: "iar_id g dev = 1023 \<longleftrightarrow> ?i = 1023" "iar_id g dev = 27 \<longleftrightarrow> ?i = 27"
    by (simp_all add: word_unat_eq_iff)
  have "?i = 1023 \<or> ?i = 27 \<or> d_enabled d ?i \<and> (?i < 32 \<or> line_count g dev0 \<le> ?i) \<and> (?i < 16 \<longrightarrow> d_raised d)"
    using driver_reach_lines [OF g cpu reach] sig by (auto simp: signals_enabled_def Let_def)
  then show ?thesis
    using nums by (simp add: irq_entry_cases [OF g] Let_def) blast
qed

text \<open>The controller of the board at reset: the sixteen software-generated interrupts are
  enabled, none has been raised, and 288 lines are reported.\<close>

definition demo_distributor :: distributor where
  "demo_distributor =
     \<lparr>d_forwarding = False, d_enabled = (\<lambda>i. i < 16), d_priority = (\<lambda>_. 0), d_target = (\<lambda>_. 0), d_raised = False\<rparr>"

theorem only_the_timer_interrupts_witness:
  "\<exists>regs log regs' log'. driver_reach board_cpu qemu_gic demo_distributor (\<lambda>_. 8) (regs, log) \<and>
    d_enabled (replay qemu_gic log demo_distributor) 3 \<and> timer_fires regs 62500000 \<and>
    irq_entry qemu_gic (\<lambda>_. 27) (regs, log) = ((regs', log'), IrqReturn) \<and> (\<forall>count. \<not> timer_fires regs' count) \<and>
    (\<forall>v. signals_enabled qemu_gic demo_distributor log (\<lambda>_. v) \<longrightarrow>
      snd (irq_entry qemu_gic (\<lambda>_. v) (regs, log)) = IrqReturn)"
proof -
  let ?d = demo_distributor and ?regs = "\<lparr>cntv_cval = 0, cntv_ctl = 0\<rparr> :: vtimer"
  obtain log0 where log0: "gic_init qemu_gic (\<lambda>_. 8) [] = Some log0"
    and kept: "d_enabled (replay qemu_gic log0 ?d) 3"
  proof -
    obtain pre where "replay qemu_gic pre ?d = configured (line_count qemu_gic (\<lambda>_. 8)) (replay qemu_gic [] ?d)"
      "gic_init qemu_gic (\<lambda>_. 8) [] = Some (pre @ [MmioWrite (distributor_base qemu_gic) 1,
         MmioWrite (cpu_interface_base qemu_gic + 4) 0xFF, MmioWrite (cpu_interface_base qemu_gic) 1])"
      by (rule gic_init_ok [OF qemu_gic_windows])
    then show thesis using qemu_gic_windows
      by (intro that) (auto simp: configured_def demo_distributor_def windows_ok_def write_offset_def)
  qed
  obtain t log where arm: "ns_to_ticks 1000000000 62500000 = Some t"
      "arm_deadline board_cpu qemu_gic 1000000000 (?regs, log0) = Some (?regs\<lparr>cntv_cval := t, cntv_ctl := 1\<rparr>, log)"
    and lines: "replay qemu_gic log ?d =
      (replay qemu_gic log0 ?d)\<lparr>d_enabled := (d_enabled (replay qemu_gic log0 ?d))(27 := True)\<rparr>"
    using arm_deadline_ok [OF qemu_gic_windows board_cpu_new] by blast
  have "unat t = unat (62500000 :: 64 word)"
    using arm(1) ns_to_ticks_nat [of "62500000 :: 64 word" "1000000000"] by auto
  then have "t = 62500000"
    by (simp only: word_unat_eq_iff)
  let ?r = "?regs\<lparr>cntv_cval := t, cntv_ctl := 1\<rparr>"
  have reach: "driver_reach board_cpu qemu_gic ?d (\<lambda>_. 8) (?r, log)"
    using driver_reach.arm [OF driver_reach.init [OF log0] arm(2)] .
  note claim = only_the_timer_interrupts [OF qemu_gic_windows board_cpu_new reach]
  have timer: "signals_enabled qemu_gic ?d log (\<lambda>_. 27)" "iar_id qemu_gic (\<lambda>_. 27) = 27"
    by (simp_all add: signals_enabled_def iar_id_def lines Let_def)
  have "snd (irq_entry qemu_gic (\<lambda>_. v) (?r, log)) = IrqReturn" if "signals_enabled qemu_gic ?d log (\<lambda>_. v)" for v
    using claim [OF that] by (auto simp: demo_distributor_def Let_def split: if_splits)
  moreover have "timer_fires ?r 62500000"
    unfolding armed_timer using \<open>t = 62500000\<close> by simp
  ultimately show ?thesis
    using claim [OF timer(1)] timer(2) reach kept by (fastforce simp: lines)
qed

end
