(* ===== verification/BootMmu.thy ===== *)
theory BootMmu
  imports PageTables
begin

text \<open>
  The translation regime of the board: the register constants of
  \<open>hal/src/mmu/vmsav8.rs\<close>, the boot tables of
  \<open>bsp-qemu-virt/src/mmu_bootstrap.rs\<close>, the steps of \<open>main.rs\<close> that move the
  kernel to the high half and free the low one, and \<open>activate\<close> of \<open>mmu.rs\<close>.

  The state is physical memory and the five system registers that govern
  translation. The instruction sequences are split where they write a register,
  so that the states in between can be talked about; barriers and invalidations
  have no effect on this state. The boot frames are linker symbols, so their
  addresses are an argument.

  What the processor does with these registers is \<open>hw_translate\<close>, the
  architecture's stage-1 walk for 4 KiB granules and 48-bit addresses, the only
  configuration the registers here select. It is written from the architecture's
  tables of descriptor bits and uses none of the kernel's masks, indices or decoders,
  so that the theorems about it compare the code with something else than itself.
\<close>

unbundle bit_operations_syntax

section \<open>Register values\<close>

definition MAIR_EL1_VALUE :: "64 word" where "MAIR_EL1_VALUE = 0xFF00"

definition TCR_EL1_VALUE :: "64 word" where
  "TCR_EL1_VALUE =
     (let t0sz = 16; epd0 = push_bit 7 0; irgn0 = push_bit 8 1; orgn0 = push_bit 10 1;
          sh0 = push_bit 12 3; tg0 = push_bit 14 0; t1sz = push_bit 16 16; a1 = push_bit 22 0;
          epd1 = push_bit 23 1; irgn1 = push_bit 24 1; orgn1 = push_bit 26 1; sh1 = push_bit 28 3;
          tg1 = push_bit 30 2; ips = push_bit 32 2; as_field = push_bit 36 0
      in t0sz OR epd0 OR irgn0 OR orgn0 OR sh0 OR tg0 OR t1sz OR a1 OR epd1 OR irgn1 OR orgn1 OR sh1
           OR tg1 OR ips OR as_field)"

definition TCR_EL1_EPD0_BIT :: "64 word" where "TCR_EL1_EPD0_BIT = push_bit 7 1"
definition TCR_EL1_EPD1_BIT :: "64 word" where "TCR_EL1_EPD1_BIT = push_bit 23 1"

definition TCR_EL1_VALUE_HIGH_HALF :: "64 word" where
  "TCR_EL1_VALUE_HIGH_HALF = TCR_EL1_VALUE AND NOT TCR_EL1_EPD1_BIT"

definition SCTLR_EL1_MMU_ENABLE_MASK :: "64 word" where
  "SCTLR_EL1_MMU_ENABLE_MASK = push_bit 0 1 OR push_bit 2 1 OR push_bit 12 1"

section \<open>State\<close>

record mmu_regs =
  mair_el1 :: "64 word"
  tcr_el1 :: "64 word"
  ttbr0_el1 :: "64 word"
  ttbr1_el1 :: "64 word"
  sctlr_el1 :: "64 word"

type_synonym regime = "memory \<times> mmu_regs"

record boot_frames =
  boot_pt_l0 :: nat
  boot_pt_l1 :: nat
  boot_pt_l2_low :: nat
  boot_pt_l2_high :: nat
  boot_pt_l0_hh :: nat
  boot_pt_l1_hh :: nat

section \<open>The low identity\<close>

definition BLOCK_2MIB :: "64 word" where "BLOCK_2MIB = 2 * 1024 * 1024"

definition write_entry :: "memory \<Rightarrow> nat \<Rightarrow> nat \<Rightarrow> 64 word \<Rightarrow> memory" where
  "write_entry m table idx v = write_u64 m (table + 8 * idx) v"

function write_blocks :: "memory \<Rightarrow> nat \<Rightarrow> nat \<Rightarrow> nat \<Rightarrow> 64 word \<Rightarrow> descriptor_bits \<Rightarrow> memory" where
  "write_blocks m table idx limit pa bits =
     (if idx < limit
      then write_blocks (write_entry m table idx (block_descriptor pa bits)) table (idx + 1) limit
             (pa + BLOCK_2MIB) bits
      else m)"
  by pat_completeness auto
termination by (relation "measure (\<lambda>(m, table, idx, limit, pa, bits). limit - idx)") auto

declare write_blocks.simps [simp del]

definition device_flags :: mapping_flags where
  "device_flags = mf_union (mf_union mf_DEVICE mf_WRITE) mf_GLOBAL"

definition ram_flags :: mapping_flags where
  "ram_flags = mf_union (mf_union mf_WRITE mf_EXECUTE) mf_GLOBAL"

definition bootstrap_tables :: "boot_frames \<Rightarrow> memory \<Rightarrow> memory" where
  "bootstrap_tables bf m0 =
     (let m1 = write_entry m0 (boot_pt_l0 bf) 0 (table_descriptor (of_nat (boot_pt_l1 bf)));
          m2 = write_entry m1 (boot_pt_l1 bf) 0 (table_descriptor (of_nat (boot_pt_l2_low bf)));
          m3 = write_entry m2 (boot_pt_l1 bf) 1 (table_descriptor (of_nat (boot_pt_l2_high bf)));
          va = (0x08000000 :: 64 word);
          m4 = write_blocks m3 (boot_pt_l2_low bf) (unat (drop_bit 21 va)) (unat (drop_bit 21 (0x09200000 :: 64 word)))
                 va (flags_to_descriptor_bits device_flags)
      in write_blocks m4 (boot_pt_l2_high bf) 0 (ENTRIES_PER_TABLE div 8) 0x40000000
           (flags_to_descriptor_bits ram_flags))"

definition bootstrap_regs :: "boot_frames \<Rightarrow> mmu_regs \<Rightarrow> mmu_regs" where
  "bootstrap_regs bf r =
     r\<lparr>mair_el1 := MAIR_EL1_VALUE, tcr_el1 := TCR_EL1_VALUE, ttbr0_el1 := of_nat (boot_pt_l0 bf), ttbr1_el1 := 0\<rparr>"

definition bootstrap_enable :: "mmu_regs \<Rightarrow> mmu_regs" where
  "bootstrap_enable r = r\<lparr>sctlr_el1 := sctlr_el1 r OR SCTLR_EL1_MMU_ENABLE_MASK\<rparr>"

definition mmu_bootstrap :: "boot_frames \<Rightarrow> regime \<Rightarrow> regime" where
  "mmu_bootstrap bf = (\<lambda>(m, r). (bootstrap_tables bf m, bootstrap_enable (bootstrap_regs bf r)))"

section \<open>The high half\<close>

definition high_half_tables :: "boot_frames \<Rightarrow> memory \<Rightarrow> memory" where
  "high_half_tables bf m0 =
     (let off = (of_nat KERNEL_HIGH_HALF_OFFSET :: 64 word);
          va_dev = off + 0x08000000;
          va_ram = off + 0x40000000;
          l0_idx = unat (drop_bit 39 va_ram AND 0x1FF);
          l1_idx_dev = unat (drop_bit 30 va_dev AND 0x1FF);
          l1_idx_ram = unat (drop_bit 30 va_ram AND 0x1FF);
          m1 = write_entry m0 (boot_pt_l0_hh bf) l0_idx (table_descriptor (of_nat (boot_pt_l1_hh bf)));
          m2 = write_entry m1 (boot_pt_l1_hh bf) l1_idx_dev (table_descriptor (of_nat (boot_pt_l2_low bf)))
      in write_entry m2 (boot_pt_l1_hh bf) l1_idx_ram (table_descriptor (of_nat (boot_pt_l2_high bf))))"

definition high_half_root :: "boot_frames \<Rightarrow> mmu_regs \<Rightarrow> mmu_regs" where
  "high_half_root bf r = r\<lparr>ttbr1_el1 := of_nat (boot_pt_l0_hh bf)\<rparr>"

definition high_half_enable :: "mmu_regs \<Rightarrow> mmu_regs" where
  "high_half_enable r = r\<lparr>tcr_el1 := TCR_EL1_VALUE_HIGH_HALF\<rparr>"

definition high_half_activate :: "boot_frames \<Rightarrow> regime \<Rightarrow> regime" where
  "high_half_activate bf = (\<lambda>(m, r). (high_half_tables bf m, high_half_enable (high_half_root bf r)))"

definition KERNEL_IMAGE_PA_MASK :: nat where "KERNEL_IMAGE_PA_MASK = 0xFFFFFFFF"

definition high_half_alias :: "nat \<Rightarrow> nat" where
  "high_half_alias addr = KERNEL_HIGH_HALF_OFFSET OR (addr AND KERNEL_IMAGE_PA_MASK)"

text \<open>The first instructions of \<open>kernel_main_high\<close>: the low half is given up.\<close>

definition null_ttbr0 :: "mmu_regs \<Rightarrow> mmu_regs" where
  "null_ttbr0 r = r\<lparr>ttbr0_el1 := 0\<rparr>"

definition disable_ttbr0 :: "mmu_regs \<Rightarrow> mmu_regs" where
  "disable_ttbr0 r = r\<lparr>tcr_el1 := tcr_el1 r OR TCR_EL1_EPD0_BIT\<rparr>"

definition free_low_half :: "mmu_regs \<Rightarrow> mmu_regs" where
  "free_low_half r = disable_ttbr0 (null_ttbr0 r)"

text \<open>\<open>QemuVirtMmu::activate\<close>.\<close>

definition qemu_activate :: "qemu_address_space \<Rightarrow> mmu_regs \<Rightarrow> mmu_regs" where
  "qemu_activate as r =
     r\<lparr>ttbr0_el1 := of_nat (frame_addr (qa_root as)), tcr_el1 := tcr_el1 r AND NOT TCR_EL1_EPD0_BIT\<rparr>"

section \<open>The processor\<close>

text \<open>
  An access reaches an address directly (translation off), reaches a mapped
  address with a memory attribute and permissions, or faults. At EL1 every mapped
  address can be read.
\<close>

record hw_perms =
  hp_el1_write :: bool
  hp_el1_exec :: bool
  hp_el0_read :: bool
  hp_el0_write :: bool
  hp_el0_exec :: bool
  hp_global :: bool

datatype hw_access = Flat nat | Mapped nat "64 word" hw_perms | Fault

text \<open>
  The permissions of a leaf: AP[1] (bit 6) gives EL0 data access, AP[2] (bit 7)
  takes write access away, PXN (53) and UXN (54) take execution at EL1 and EL0
  away, nG (11) makes the translation one of the address space only; what EL0 may
  write, EL1 may not execute. The tables above it may take more away: APTable (61
  no EL0 access, 62 no writes), PXNTable (59) and UXNTable (60), collected in
  \<open>lim\<close>. \<open>SCTLR_EL1.WXN\<close> and \<open>PSTATE.PAN\<close> are left out: the board resets them to 0 and
  the kernel sets neither.
\<close>

definition hw_perms_of :: "64 word \<Rightarrow> 64 word \<Rightarrow> hw_perms" where
  "hw_perms_of lim d =
     (let el0 = bit d 6 \<and> \<not> bit lim 61; ro = bit d 7 \<or> bit lim 62;
          pxn = bit d 53 \<or> bit lim 59; uxn = bit d 54 \<or> bit lim 60
      in \<lparr>hp_el1_write = \<not> ro, hp_el1_exec = \<not> pxn \<and> \<not> (el0 \<and> \<not> ro),
          hp_el0_read = el0, hp_el0_write = el0 \<and> \<not> ro, hp_el0_exec = \<not> uxn, hp_global = \<not> bit d 11\<rparr>)"

text \<open>AttrIndx (bits 4:2) chooses a byte of \<open>MAIR_EL1\<close>.\<close>

definition hw_attr :: "64 word \<Rightarrow> 64 word \<Rightarrow> 64 word" where
  "hw_attr mair d = drop_bit (8 * unat (drop_bit 2 d AND 0x7)) mair AND 0xFF"

text \<open>Bits 47:s of a descriptor or of a base register, as an address.\<close>

definition hw_address :: "64 word \<Rightarrow> nat \<Rightarrow> nat" where
  "hw_address d s = unat d mod 2 ^ 48 div 2 ^ s * 2 ^ s"

definition hw_index :: "nat \<Rightarrow> nat \<Rightarrow> nat" where
  "hw_index va s = va div 2 ^ s mod 512"

text \<open>A leaf; an access through one whose access flag (bit 10) is clear faults.\<close>

definition hw_leaf :: "64 word \<Rightarrow> 64 word \<Rightarrow> 64 word \<Rightarrow> nat \<Rightarrow> nat \<Rightarrow> hw_access" where
  "hw_leaf mair lim d s va =
     (if bit d 10 then Mapped (hw_address d s + va mod 2 ^ s) (hw_attr mair d) (hw_perms_of lim d) else Fault)"

definition HW_TABLE_LIMITS :: "64 word" where "HW_TABLE_LIMITS = push_bit 59 (mask 4)"

text \<open>
  The walk of the table at \<open>t\<close>, with the number of levels below it: a clear bit 0 is a
  fault, bit 1 distinguishes a table (at the last level a page) from a block, which
  the top level cannot hold.
\<close>

fun hw_walk :: "memory \<Rightarrow> 64 word \<Rightarrow> 64 word \<Rightarrow> nat \<Rightarrow> nat \<Rightarrow> nat \<Rightarrow> hw_access" where
  "hw_walk m mair lim va t 0 =
     (let d = read_u64 m (t + 8 * hw_index va 12)
      in if bit d 0 \<and> bit d 1 then hw_leaf mair lim d 12 va else Fault)"
| "hw_walk m mair lim va t (Suc n) =
     (let s = 12 + 9 * Suc n; d = read_u64 m (t + 8 * hw_index va s)
      in if \<not> bit d 0 then Fault
         else if bit d 1 then hw_walk m mair (lim OR (d AND HW_TABLE_LIMITS)) va (hw_address d 12) n
         else if Suc n = 3 then Fault else hw_leaf mair lim d s va)"

text \<open>48-bit addresses in both halves, 4 KiB granules.\<close>

definition regime_48 :: "64 word \<Rightarrow> bool" where
  "regime_48 tcr \<longleftrightarrow>
     tcr AND 0x3F = 16 \<and> drop_bit 14 tcr AND 3 = 0 \<and> drop_bit 16 tcr AND 0x3F = 16 \<and> drop_bit 30 tcr AND 3 = 2"

definition hw_translate :: "regime \<Rightarrow> nat \<Rightarrow> hw_access" where
  "hw_translate = (\<lambda>(m, r) va.
     if \<not> bit (sctlr_el1 r) 0 then Flat va
     else if \<not> regime_48 (tcr_el1 r) then Fault
     else if va < 2 ^ 48 then
       (if bit (tcr_el1 r) 7 then Fault
        else hw_walk m (mair_el1 r) 0 va (hw_address (ttbr0_el1 r) 12) 3)
     else if 2 ^ 64 - 2 ^ 48 \<le> va \<and> va < 2 ^ 64 then
       (if bit (tcr_el1 r) 23 then Fault
        else hw_walk m (mair_el1 r) 0 va (hw_address (ttbr1_el1 r) 12) 3)
     else Fault)"

section \<open>What the boot tables should say\<close>

text \<open>Both windows are the kernel's alone; only RAM is executable.\<close>

definition device_perms :: hw_perms where
  "device_perms = \<lparr>hp_el1_write = True, hp_el1_exec = False, hp_el0_read = False, hp_el0_write = False,
     hp_el0_exec = False, hp_global = True\<rparr>"

definition ram_perms :: hw_perms where
  "ram_perms = \<lparr>hp_el1_write = True, hp_el1_exec = True, hp_el0_read = False, hp_el0_write = False,
     hp_el0_exec = False, hp_global = True\<rparr>"

definition boot_window :: "nat \<Rightarrow> hw_access" where
  "boot_window pa =
     (if 0x08000000 \<le> pa \<and> pa < 0x09200000 then Mapped pa 0x00 device_perms
      else if 0x40000000 \<le> pa \<and> pa < 0x48000000 then Mapped pa 0xFF ram_perms
      else Fault)"

text \<open>What mapping flags ask for.\<close>

definition flag_perms :: "mapping_flags \<Rightarrow> hw_perms" where
  "flag_perms f =
     (let wr = mf_contains f mf_WRITE; ex = mf_contains f mf_EXECUTE; us = mf_contains f mf_USER
      in \<lparr>hp_el1_write = wr, hp_el1_exec = ex \<and> \<not> us, hp_el0_read = us, hp_el0_write = us \<and> wr,
          hp_el0_exec = us \<and> ex, hp_global = mf_contains f mf_GLOBAL\<rparr>)"

definition frames_of :: "boot_frames \<Rightarrow> nat list" where
  "frames_of bf = [boot_pt_l0 bf, boot_pt_l1 bf, boot_pt_l2_low bf, boot_pt_l2_high bf, boot_pt_l0_hh bf, boot_pt_l1_hh bf]"

text \<open>What the linker script promises: six page-aligned frames.\<close>

definition boot_layout :: "boot_frames \<Rightarrow> bool" where
  "boot_layout bf \<longleftrightarrow> distinct (frames_of bf) \<and> (\<forall>t\<in>set (frames_of bf). t mod 4096 = 0 \<and> t < 2 ^ 48)"

text \<open>What \<open>_start\<close> promises: they are zeroed.\<close>

definition boot_zeroed :: "boot_frames \<Rightarrow> memory \<Rightarrow> bool" where
  "boot_zeroed bf m \<longleftrightarrow> (\<forall>t\<in>set (frames_of bf). \<forall>a. t \<le> a \<and> a < t + 4096 \<longrightarrow> m a = 0)"

end
