(* ===== verification/BootMmu_Claims.thy ===== *)
theory BootMmu_Claims
  imports BootMmu
begin

unbundle bit_operations_syntax

text \<open>
  What the boot leaves to the kernel. The six tables are read back entry by entry,
  the walk over them is computed for both halves, and from that follow the whole
  translation in each regime and that no step of the boot unmaps the code that runs.
\<close>

section \<open>Entries\<close>

definition tentry :: "memory \<Rightarrow> nat \<Rightarrow> nat \<Rightarrow> 64 word" where
  "tentry m t i = read_u64 m (t + 8 * i)"

lemma aligned_apart:
  assumes "s mod 4096 = 0" "t mod 4096 = (0 :: nat)" "s \<noteq> t"
  shows "s + 4096 \<le> t \<or> t + 4096 \<le> s"
proof -
  obtain a b where "s = 4096 * a" "t = 4096 * b" using assms(1,2) by (metis mod_0_imp_dvd dvd_def)
  with assms(3) show ?thesis by auto
qed

lemma tentry_write_entry:
  assumes "s mod 4096 = 0" "t mod 4096 = 0" "i < 512" "j < 512"
  shows "tentry (write_entry m t i v) s j = (if s = t \<and> j = i then v else tentry m s j)"
proof (cases "s = t")
  case True
  then show ?thesis
    by (cases i j rule: linorder_cases) (simp_all add: tentry_def write_entry_def read_write_u64_other)
next
  case False
  then have "t + 8 * i + 8 \<le> s + 8 * j \<or> s + 8 * j + 8 \<le> t + 8 * i"
    using aligned_apart [OF assms(1,2)] assms(3,4) by auto
  then show ?thesis using False by (simp add: tentry_def write_entry_def read_write_u64_other)
qed

lemma tentry_write_blocks:
  assumes "s mod 4096 = 0" "t mod 4096 = 0" "lim \<le> 512" "j < 512"
  shows "tentry (write_blocks m t idx lim pa b) s j =
    (if s = t \<and> idx \<le> j \<and> j < lim then block_descriptor (pa + of_nat (j - idx) * BLOCK_2MIB) b else tentry m s j)"
  using assms(2,3)
proof (induction m t idx lim pa b rule: write_blocks.induct)
  case (1 m t idx lim pa b)
  show ?case
  proof (cases "idx < lim")
    case True
    let ?e = "block_descriptor pa b"
    have rec: "write_blocks m t idx lim pa b = write_blocks (write_entry m t idx ?e) t (Suc idx) lim (pa + BLOCK_2MIB) b"
      using True by (simp add: write_blocks.simps [of m])
    have "idx < 512" using 1(3) True by linarith
    note first = tentry_write_entry [OF assms(1) 1(2) this assms(4), of m ?e]
    have shift: "pa + BLOCK_2MIB + of_nat (j - Suc idx) * BLOCK_2MIB = pa + of_nat (j - idx) * BLOCK_2MIB"
      if "Suc idx \<le> j"
    proof -
      from that have "j - idx = Suc (j - Suc idx)" by simp
      then show ?thesis by (simp only: of_nat_Suc distrib_right mult_1 add.assoc)
    qed
    consider "j < idx" | "j = idx" | "Suc idx \<le> j" by linarith
    then show ?thesis
      unfolding rec 1(1) [OF True 1(2,3), unfolded Suc_eq_plus1 [symmetric]] first
      by cases (use True in \<open>simp_all add: shift del: of_nat_diff\<close>)
  next
    case False
    then show ?thesis by (auto simp: write_blocks.simps [of m])
  qed
qed

lemma boot_zeroed_entry: "\<lbrakk>boot_zeroed bf m; t \<in> set (frames_of bf); j < 512\<rbrakk> \<Longrightarrow> tentry m t j = 0"
proof -
  assume a: "boot_zeroed bf m" "t \<in> set (frames_of bf)" "j < 512"
  then have "tentry m t j = tentry (\<lambda>_. 0) t j"
    unfolding tentry_def by (intro read_u64_cong) (auto simp: boot_zeroed_def)
  also have "\<dots> = 0" by (rule bit_eqI) (simp add: tentry_def bit_read_u64)
  finally show ?thesis .
qed

lemma boot_frame_facts:
  assumes "boot_layout bf"
  shows "\<And>t. t \<in> set (frames_of bf) \<Longrightarrow> t mod 4096 = 0 \<and> t < 2 ^ 48"
    and "distinct (frames_of bf)"
  using assms by (auto simp: boot_layout_def)

lemma boot_numbers:
  "unat (drop_bit 21 (0x08000000 :: 64 word)) = 64"
  "unat (drop_bit 21 (0x09200000 :: 64 word)) = 73"
  "ENTRIES_PER_TABLE div 8 = 64"
  "unat (drop_bit 39 ((of_nat KERNEL_HIGH_HALF_OFFSET :: 64 word) + 0x40000000) AND 0x1FF) = 511"
  "unat (drop_bit 30 ((of_nat KERNEL_HIGH_HALF_OFFSET :: 64 word) + 0x08000000) AND 0x1FF) = 508"
  "unat (drop_bit 30 ((of_nat KERNEL_HIGH_HALF_OFFSET :: 64 word) + 0x40000000) AND 0x1FF) = 509"
  by (simp_all add: ENTRIES_PER_TABLE_def PAGE_SIZE_def KERNEL_HIGH_HALF_OFFSET_def)

definition low_entry :: "boot_frames \<Rightarrow> nat \<Rightarrow> nat \<Rightarrow> 64 word" where
  "low_entry bf t j =
     (if t = boot_pt_l0 bf \<and> j = 0 then table_descriptor (of_nat (boot_pt_l1 bf))
      else if t = boot_pt_l1 bf \<and> j = 0 then table_descriptor (of_nat (boot_pt_l2_low bf))
      else if t = boot_pt_l1 bf \<and> j = 1 then table_descriptor (of_nat (boot_pt_l2_high bf))
      else if t = boot_pt_l2_low bf \<and> 64 \<le> j \<and> j < 73
        then block_descriptor (0x08000000 + of_nat (j - 64) * BLOCK_2MIB) (flags_to_descriptor_bits device_flags)
      else if t = boot_pt_l2_high bf \<and> j < 64
        then block_descriptor (0x40000000 + of_nat j * BLOCK_2MIB) (flags_to_descriptor_bits ram_flags)
      else 0)"

definition high_entry :: "boot_frames \<Rightarrow> nat \<Rightarrow> nat \<Rightarrow> 64 word" where
  "high_entry bf t j =
     (if t = boot_pt_l0_hh bf \<and> j = 511 then table_descriptor (of_nat (boot_pt_l1_hh bf))
      else if t = boot_pt_l1_hh bf \<and> j = 508 then table_descriptor (of_nat (boot_pt_l2_low bf))
      else if t = boot_pt_l1_hh bf \<and> j = 509 then table_descriptor (of_nat (boot_pt_l2_high bf))
      else low_entry bf t j)"

lemma bootstrap_entry:
  assumes l: "boot_layout bf" and z: "boot_zeroed bf m" and t: "t \<in> set (frames_of bf)" and j: "j < 512"
  shows "tentry (bootstrap_tables bf m) t j = low_entry bf t j"
proof -
  note al = conjunct1 [OF boot_frame_facts(1) [OF l]]
  have mem: "boot_pt_l0 bf \<in> set (frames_of bf)" "boot_pt_l1 bf \<in> set (frames_of bf)"
    "boot_pt_l2_low bf \<in> set (frames_of bf)" "boot_pt_l2_high bf \<in> set (frames_of bf)"
    by (simp_all add: frames_of_def)
  have dist: "boot_pt_l0 bf \<noteq> boot_pt_l1 bf" "boot_pt_l0 bf \<noteq> boot_pt_l2_low bf" "boot_pt_l0 bf \<noteq> boot_pt_l2_high bf"
    "boot_pt_l1 bf \<noteq> boot_pt_l2_low bf" "boot_pt_l1 bf \<noteq> boot_pt_l2_high bf" "boot_pt_l2_low bf \<noteq> boot_pt_l2_high bf"
    using boot_frame_facts(2) [OF l] by (auto simp: frames_of_def)
  have we: "tentry (write_entry n s i v) t j = (if t = s \<and> j = i then v else tentry n t j)"
    if "s \<in> set (frames_of bf)" "i < 512" for n s i v
    by (rule tentry_write_entry [OF al [OF t] al [OF that(1)] that(2) j])
  have wb: "tentry (write_blocks n s idx lim pa b) t j =
      (if t = s \<and> idx \<le> j \<and> j < lim then block_descriptor (pa + of_nat (j - idx) * BLOCK_2MIB) b else tentry n t j)"
    if "s \<in> set (frames_of bf)" "lim \<le> 512" for n s idx lim pa b
    by (rule tentry_write_blocks [OF al [OF t] al [OF that(1)] that(2) j])
  show ?thesis
    unfolding bootstrap_tables_def Let_def boot_numbers
    by (subst we wb, rule mem, simp)+ (use dist boot_zeroed_entry [OF z t j] in \<open>simp add: low_entry_def\<close>)
qed

lemma high_half_entry:
  assumes l: "boot_layout bf" and z: "boot_zeroed bf m" and t: "t \<in> set (frames_of bf)" and j: "j < 512"
  shows "tentry (high_half_tables bf (bootstrap_tables bf m)) t j = high_entry bf t j"
proof -
  note al = conjunct1 [OF boot_frame_facts(1) [OF l]]
  have mem: "boot_pt_l0_hh bf \<in> set (frames_of bf)" "boot_pt_l1_hh bf \<in> set (frames_of bf)"
    by (simp_all add: frames_of_def)
  have dist: "boot_pt_l0_hh bf \<noteq> boot_pt_l1_hh bf"
    using boot_frame_facts(2) [OF l] by (auto simp: frames_of_def)
  have we: "tentry (write_entry n s i v) t j = (if t = s \<and> j = i then v else tentry n t j)"
    if "s \<in> set (frames_of bf)" "i < 512" for n s i v
    by (rule tentry_write_entry [OF al [OF t] al [OF that(1)] that(2) j])
  show ?thesis
    unfolding high_half_tables_def Let_def boot_numbers
    by (subst we, rule mem, simp)+ (use dist bootstrap_entry [OF l z t j] in \<open>simp add: high_entry_def\<close>)
qed

section \<open>What the walk reads\<close>

lemma hw_address_mask: "s \<le> 48 \<Longrightarrow> hw_address d s = unat (d AND push_bit s (mask (48 - s)))"
proof -
  assume s: "s \<le> 48"
  have "d AND push_bit s (mask (48 - s)) = push_bit s (drop_bit s (take_bit 48 d))"
    by (rule bit_eqI) (use s in \<open>auto simp: bit_and_iff bit_push_bit_iff bit_mask_iff bit_drop_bit_eq bit_take_bit_iff\<close>)
  moreover have "unat (push_bit s (drop_bit s (take_bit 48 d))) = push_bit s (drop_bit s (take_bit 48 (unat d)))"
  proof -
    have "push_bit s (drop_bit s (take_bit 48 (unat d))) < 2 ^ 64"
      using less_trans [OF take_bit_nat_less_exp [of 48 "unat d"], of "2 ^ 64"]
      by (simp add: push_bit_eq_mult drop_bit_eq_div) (meson div_times_less_eq_dividend le_less_trans)
    then show ?thesis
      by (simp add: unsigned_push_bit_eq unat_drop_bit_eq unsigned_take_bit_eq take_bit_nat_eq_self)
  qed
  ultimately show ?thesis by (simp add: hw_address_def take_bit_eq_mod push_bit_eq_mult drop_bit_eq_div)
qed

lemma hw_masks: "hw_address d 12 = unat (d AND TABLE_NLA_MASK)" "hw_address d 12 = unat (d AND PAGE_OA_MASK_L3)"
    "hw_address d 21 = unat (d AND BLOCK_OA_MASK_L2)"
  by (simp_all add: hw_address_mask oa_masks)

lemma hw_index_eq: "s \<le> 39 \<Longrightarrow> hw_index va s = va_index va s"
  by (simp add: hw_index_def va_index_eq)

lemma table_unlimited: "table_descriptor a AND HW_TABLE_LIMITS = 0"
  by (rule bit_eqI) (auto simp: bit_and_iff bit_table_descriptor HW_TABLE_LIMITS_def bit_push_bit_iff)

lemma hw_walk_table:
  assumes "tentry m t (hw_index va (12 + 9 * Suc n)) = table_descriptor (of_nat a)" "a mod 4096 = 0" "a < 2 ^ 48"
  shows "hw_walk m mair 0 va t (Suc n) = hw_walk m mair 0 va a n"
  using assms address_masked(1) [OF assms(2,3)] bit_table_descriptor_01 [of "of_nat a"]
  by (simp add: tentry_def Let_def table_address hw_masks(1) table_unlimited)

lemma hw_walk_empty: "tentry m t (hw_index va (12 + 9 * Suc n)) = 0 \<Longrightarrow> hw_walk m mair 0 va t (Suc n) = Fault"
  by (simp add: tentry_def Let_def)

text \<open>A leaf with the bits the encoder gives it grants what the flags ask for.\<close>

lemma leaf_perms:
  assumes "\<And>n. n \<in> {6, 7, 11, 53, 54} \<Longrightarrow> bit d n = leaf_bit (flags_to_descriptor_bits f) n"
  shows "hw_perms_of 0 d = flag_perms (mf_effective f)"
proof -
  have "bit d 6 \<longleftrightarrow> bit (mf_raw f) 2" "bit d 7 \<longleftrightarrow> \<not> bit (mf_raw f) 0" "bit d 11 \<longleftrightarrow> \<not> bit (mf_raw f) 4"
    "bit d 53 \<longleftrightarrow> \<not> (bit (mf_raw f) 1 \<and> \<not> bit (mf_raw f) 2 \<and> \<not> bit (mf_raw f) 3)"
    "bit d 54 \<longleftrightarrow> \<not> (bit (mf_raw f) 1 \<and> bit (mf_raw f) 2 \<and> \<not> bit (mf_raw f) 3)"
    by (simp_all only: assms insert_iff simp_thms leaf_bit_fields mf_contains_bits)
  then show ?thesis
    unfolding hw_perms_of_def flag_perms_def Let_def mf_contains_bits bit_mf_effective by auto
qed

lemma leaf_attr:
  assumes "\<And>n. n \<in> {2, 3, 4} \<Longrightarrow> bit d n = leaf_bit (flags_to_descriptor_bits f) n"
  shows "hw_attr MAIR_EL1_VALUE d = (if mf_contains f mf_DEVICE then 0 else 0xFF)"
proof -
  have "drop_bit 2 d AND 0x7 = (if mf_contains f mf_DEVICE then 0 else 1)"
  proof (rule bit_eqI)
    fix n assume "possible_bit TYPE(64 word) n"
    have "bit (drop_bit 2 d AND 0x7) n \<longleftrightarrow> n < 3 \<and> bit d (2 + n)"
      unfolding field_masks by (auto simp: bit_and_iff bit_mask_iff bit_drop_bit_eq)
    also have "\<dots> \<longleftrightarrow> n = 0 \<and> \<not> mf_contains f mf_DEVICE"
    proof -
      consider "n = 0" | "n = 1" | "n = 2" | "3 \<le> n" by linarith
      then show ?thesis
        by cases (simp_all add: assms leaf_bit_fields numeral_2_eq_2 [symmetric] del: bit_0)
    qed
    finally show "bit (drop_bit 2 d AND 0x7) n = bit (if mf_contains f mf_DEVICE then 0 else 1 :: 64 word) n"
      by (simp add: bit_1_iff)
  qed
  then show ?thesis by (simp add: hw_attr_def MAIR_EL1_VALUE_def)
qed

lemma block_fields:
  "hw_perms_of 0 (block_descriptor pa (flags_to_descriptor_bits f)) = flag_perms (mf_effective f)"
  "hw_attr MAIR_EL1_VALUE (block_descriptor pa (flags_to_descriptor_bits f)) = (if mf_contains f mf_DEVICE then 0 else 0xFF)"
  by (rule leaf_perms leaf_attr; auto simp: bit_block_descriptor)+

lemma page_fields:
  "hw_perms_of 0 (page_descriptor pa (flags_to_descriptor_bits f)) = flag_perms (mf_effective f)"
  "hw_attr MAIR_EL1_VALUE (page_descriptor pa (flags_to_descriptor_bits f)) = (if mf_contains f mf_DEVICE then 0 else 0xFF)"
  by (rule leaf_perms leaf_attr; auto simp: bit_page_descriptor)+

lemma boot_perms: "flag_perms (mf_effective device_flags) = device_perms" "flag_perms (mf_effective ram_flags) = ram_perms"
  "mf_contains device_flags mf_DEVICE" "\<not> mf_contains ram_flags mf_DEVICE"
  unfolding flag_perms_def Let_def mf_contains_bits bit_mf_effective device_flags_def ram_flags_def bit_mf_union bit_mf_consts
  by (simp_all add: device_perms_def ram_perms_def)

lemma block_masked:
  assumes "a mod 2 ^ 21 = 0" "a < 2 ^ 48"
  shows "unat ((of_nat a :: 64 word) AND BLOCK_OA_MASK_L2) = a"
proof -
  have a: "take_bit 48 a = a" "take_bit 21 a = 0" using assms by (simp_all add: take_bit_eq_mod)
  then have "bit a n \<Longrightarrow> 21 \<le> n \<and> n < 48" for n
    using bit_take_bit_iff [of 48 a n] bit_take_bit_iff [of 21 a n] by auto
  then have "(of_nat a :: 64 word) AND BLOCK_OA_MASK_L2 = of_nat a"
    by (auto intro!: bit_eqI simp: bit_and_iff bit_oa_masks bit_of_nat_iff)
  moreover have "unat (of_nat a :: 64 word) = a" using assms(2) by (simp add: unat_of_nat)
  ultimately show ?thesis by simp
qed

lemma hw_walk_block:
  assumes "tentry m t (hw_index va 21) = block_descriptor (of_nat a) (flags_to_descriptor_bits f)"
    and "a mod 2 ^ 21 = 0" "a < 2 ^ 48"
  shows "hw_walk m MAIR_EL1_VALUE 0 va t 1 =
    Mapped (a + va mod 2 ^ 21) (if mf_contains f mf_DEVICE then 0 else 0xFF) (flag_perms (mf_effective f))"
proof -
  let ?d = "block_descriptor (of_nat a) (flags_to_descriptor_bits f)"
  have "bit ?d 0" "\<not> bit ?d 1" "bit ?d 10" by (simp_all add: bit_block_descriptor leaf_bit_def del: bit_0)
  then show ?thesis
    using assms(1) by (simp add: tentry_def Let_def hw_leaf_def hw_masks(3) block_address block_masked [OF assms(2,3)] block_fields
      del: bit_0)
qed

section \<open>The windows\<close>

definition says :: "boot_frames \<Rightarrow> memory \<Rightarrow> (boot_frames \<Rightarrow> nat \<Rightarrow> nat \<Rightarrow> 64 word) \<Rightarrow> bool" where
  "says bf m e \<longleftrightarrow> (\<forall>t\<in>set (frames_of bf). \<forall>j<512. tentry m t j = e bf t j)"

lemma saysD: "\<lbrakk>says bf m e; t \<in> set (frames_of bf); j < 512\<rbrakk> \<Longrightarrow> tentry m t j = e bf t j"
  by (simp add: says_def)

lemma shared_tables:
  assumes "boot_layout bf" "says bf m low_entry \<or> says bf m high_entry"
  shows "j < 512 \<Longrightarrow> tentry m (boot_pt_l2_low bf) j =
      (if 64 \<le> j \<and> j < 73 then block_descriptor (of_nat (j * 2 ^ 21)) (flags_to_descriptor_bits device_flags) else 0)"
    and "j < 512 \<Longrightarrow> tentry m (boot_pt_l2_high bf) j =
      (if j < 64 then block_descriptor (of_nat (2 ^ 30 + j * 2 ^ 21)) (flags_to_descriptor_bits ram_flags) else 0)"
proof -
  have d: "distinct (frames_of bf)" using assms(1) by (simp add: boot_layout_def)
  have w: "0x08000000 + of_nat (j - 64) * BLOCK_2MIB = (of_nat (j * 2 ^ 21) :: 64 word)" if "64 \<le> j"
  proof -
    have "j * 2 ^ 21 = 0x08000000 + (j - 64) * (2 * 1024 * 1024)" using that by simp
    then have "(of_nat (j * 2 ^ 21) :: 64 word) = of_nat (0x08000000 + (j - 64) * (2 * 1024 * 1024))" by presburger
    then show ?thesis by (simp add: BLOCK_2MIB_def del: of_nat_diff)
  qed
  have w2: "0x40000000 + of_nat j * BLOCK_2MIB = (of_nat (2 ^ 30 + j * 2 ^ 21) :: 64 word)"
    by (simp add: BLOCK_2MIB_def)
  have ne: "boot_pt_l2_low bf \<noteq> boot_pt_l0 bf" "boot_pt_l2_low bf \<noteq> boot_pt_l1 bf"
    "boot_pt_l2_high bf \<noteq> boot_pt_l0 bf" "boot_pt_l2_high bf \<noteq> boot_pt_l1 bf" "boot_pt_l2_high bf \<noteq> boot_pt_l2_low bf"
    "boot_pt_l2_low bf \<noteq> boot_pt_l2_high bf"
    "boot_pt_l2_low bf \<notin> {boot_pt_l0_hh bf, boot_pt_l1_hh bf}" "boot_pt_l2_high bf \<notin> {boot_pt_l0_hh bf, boot_pt_l1_hh bf}"
    using d by (auto simp: frames_of_def)
  have lo: "tentry m t j = low_entry bf t j" if "t \<in> {boot_pt_l2_low bf, boot_pt_l2_high bf}" "j < 512" for t j
  proof -
    have "high_entry bf t j = low_entry bf t j" using that(1) ne(7,8) by (auto simp: high_entry_def)
    then show ?thesis using assms(2) that saysD [of bf m _ t j] by (auto simp: frames_of_def)
  qed
  show "tentry m (boot_pt_l2_low bf) j =
      (if 64 \<le> j \<and> j < 73 then block_descriptor (of_nat (j * 2 ^ 21)) (flags_to_descriptor_bits device_flags) else 0)" if "j < 512"
  proof (cases "64 \<le> j \<and> j < 73")
    case True
    have "low_entry bf (boot_pt_l2_low bf) j = block_descriptor (0x08000000 + of_nat (j - 64) * BLOCK_2MIB) (flags_to_descriptor_bits device_flags)"
      using ne True by (simp add: low_entry_def del: of_nat_diff)
    then show ?thesis using True that by (simp only: lo w insert_iff simp_thms if_True)
  next
    case False
    then show ?thesis using ne that by (auto simp: lo low_entry_def)
  qed
  show "tentry m (boot_pt_l2_high bf) j =
      (if j < 64 then block_descriptor (of_nat (2 ^ 30 + j * 2 ^ 21)) (flags_to_descriptor_bits ram_flags) else 0)" if "j < 512"
    unfolding w2 [symmetric] using ne that by (simp add: lo low_entry_def)
qed

lemma gig_windows:
  "x < 2 ^ 30 \<Longrightarrow> (if 64 \<le> x div 2 ^ 21 \<and> x div 2 ^ 21 < 73
     then Mapped (x div 2 ^ 21 * 2 ^ 21 + x mod 2 ^ 21) 0 device_perms else Fault) = boot_window x"
  "x < 2 ^ 30 \<Longrightarrow> (if x div 2 ^ 21 < 64
     then Mapped (2 ^ 30 + x div 2 ^ 21 * 2 ^ 21 + x mod 2 ^ 21) 0xFF ram_perms else Fault) = boot_window (2 ^ 30 + x)"
proof -
  have d: "64 \<le> x div 2 ^ 21 \<longleftrightarrow> 0x08000000 \<le> x" "x div 2 ^ 21 < 73 \<longleftrightarrow> x < 0x09200000"
    "x div 2 ^ 21 < 64 \<longleftrightarrow> x < 0x08000000"
    by (simp_all add: less_eq_div_iff_mult_less_eq div_less_iff_less_mult)
  assume x: "x < 2 ^ 30"
  show "(if 64 \<le> x div 2 ^ 21 \<and> x div 2 ^ 21 < 73
     then Mapped (x div 2 ^ 21 * 2 ^ 21 + x mod 2 ^ 21) 0 device_perms else Fault) = boot_window x"
    using x by (simp only: d div_mult_mod_eq) (simp add: boot_window_def)
  show "(if x div 2 ^ 21 < 64
     then Mapped (2 ^ 30 + x div 2 ^ 21 * 2 ^ 21 + x mod 2 ^ 21) 0xFF ram_perms else Fault) = boot_window (2 ^ 30 + x)"
    using x by (simp only: d div_mult_mod_eq add.assoc) (simp add: boot_window_def)
qed

lemma mod_mul_div: "0 < a \<Longrightarrow> v mod (a * b) div a = v div a mod (b :: nat)"
  by (simp add: mod_mult2_eq)

lemma shared_walks:
  assumes "boot_layout bf" "says bf m low_entry \<or> says bf m high_entry"
    and x: "x < 2 ^ 30" "va mod 2 ^ 30 = x"
  shows "hw_walk m MAIR_EL1_VALUE 0 va (boot_pt_l2_low bf) 1 = boot_window x"
    and "hw_walk m MAIR_EL1_VALUE 0 va (boot_pt_l2_high bf) 1 = boot_window (2 ^ 30 + x)"
proof -
  have i: "hw_index va 21 = x div 2 ^ 21" "va mod 2 ^ 21 = x mod 2 ^ 21"
    unfolding x(2) [symmetric]
    using mod_mul_div [of "2 ^ 21" va 512] mod_mod_cancel [of "2 ^ 21" "2 ^ 30" va] by (simp_all add: hw_index_def)
  have j: "x div 2 ^ 21 < 512" using x(1) by (simp add: div_less_iff_less_mult)
  note sh = shared_tables [OF assms(1,2) j]
  have s: "12 + 9 * Suc 0 = 21" by simp
  have b1: "x div 2 ^ 21 * 2 ^ 21 mod 2 ^ 21 = 0" "x div 2 ^ 21 * 2 ^ 21 < 2 ^ 48"
    "(2 ^ 30 + x div 2 ^ 21 * 2 ^ 21) mod 2 ^ 21 = 0" "2 ^ 30 + x div 2 ^ 21 * 2 ^ 21 < 2 ^ 48"
    using j by simp_all
  show "hw_walk m MAIR_EL1_VALUE 0 va (boot_pt_l2_low bf) 1 = boot_window x"
  proof (cases "64 \<le> x div 2 ^ 21 \<and> x div 2 ^ 21 < 73")
    case True
    then have "tentry m (boot_pt_l2_low bf) (hw_index va 21) =
        block_descriptor (of_nat (x div 2 ^ 21 * 2 ^ 21)) (flags_to_descriptor_bits device_flags)"
      unfolding i by (simp only: sh if_True simp_thms)
    from hw_walk_block [OF this b1(1,2)] True show ?thesis
      by (simp only: gig_windows(1) [OF x(1), symmetric] boot_perms i if_True simp_thms)
  next
    case False
    then have "hw_walk m MAIR_EL1_VALUE 0 va (boot_pt_l2_low bf) (Suc 0) = Fault"
      by (intro hw_walk_empty) (simp only: s i sh if_False simp_thms)
    with False show ?thesis by (simp only: gig_windows(1) [OF x(1), symmetric] if_False One_nat_def)
  qed
  show "hw_walk m MAIR_EL1_VALUE 0 va (boot_pt_l2_high bf) 1 = boot_window (2 ^ 30 + x)"
  proof (cases "x div 2 ^ 21 < 64")
    case True
    then have "tentry m (boot_pt_l2_high bf) (hw_index va 21) =
        block_descriptor (of_nat (2 ^ 30 + x div 2 ^ 21 * 2 ^ 21)) (flags_to_descriptor_bits ram_flags)"
      unfolding i by (simp only: sh if_True simp_thms)
    from hw_walk_block [OF this b1(3,4)] True show ?thesis
      by (simp only: gig_windows(2) [OF x(1), symmetric] boot_perms i if_True if_False simp_thms)
  next
    case False
    then have "hw_walk m MAIR_EL1_VALUE 0 va (boot_pt_l2_high bf) (Suc 0) = Fault"
      by (intro hw_walk_empty) (simp only: s i sh if_False simp_thms)
    with False show ?thesis by (simp only: gig_windows(2) [OF x(1), symmetric] if_False One_nat_def)
  qed
qed

lemma frame_member [simp]:
  "boot_pt_l0 bf \<in> set (frames_of bf)" "boot_pt_l1 bf \<in> set (frames_of bf)"
  "boot_pt_l2_low bf \<in> set (frames_of bf)" "boot_pt_l2_high bf \<in> set (frames_of bf)"
  "boot_pt_l0_hh bf \<in> set (frames_of bf)" "boot_pt_l1_hh bf \<in> set (frames_of bf)"
  by (simp_all add: frames_of_def)

lemma top_indices:
  "hw_index va (12 + 9 * Suc 2) = va div 2 ^ 39 mod 512" "hw_index va (12 + 9 * Suc 1) = va div 2 ^ 30 mod 512"
  by (simp_all add: hw_index_def)

lemma level_numbers: "Suc 2 = 3" "Suc 1 = 2"
  by simp_all

lemmas hw_top = hw_walk_table [where n = 2, unfolded top_indices, unfolded level_numbers]
  hw_walk_empty [where n = 2, unfolded top_indices, unfolded level_numbers]

lemmas hw_mid = hw_walk_table [where n = 1, unfolded top_indices, unfolded level_numbers]
  hw_walk_empty [where n = 1, unfolded top_indices, unfolded level_numbers]

lemma div_mod_base: "(b * k + a) div b = k + a div b" "(b * k + a) mod b = a mod b" if "0 < b" for a b k :: nat
  using that by simp_all

text \<open>Two levels of tables above a shared one: an address whose first two
  indices are \<open>i\<close> and \<open>j\<close>.\<close>

lemma low_walk:
  assumes l: "boot_layout bf" and s: "says bf m low_entry \<or> says bf m high_entry" and va: "va < 2 ^ 48"
  shows "hw_walk m MAIR_EL1_VALUE 0 va (boot_pt_l0 bf) 3 = boot_window va"
proof -
  note al = boot_frame_facts(1) [OF l]
  have d: "distinct (frames_of bf)" using boot_frame_facts(2) [OF l] .
  have e: "tentry m t j = low_entry bf t j" if "t = boot_pt_l0 bf \<or> t = boot_pt_l1 bf" "j < 512" for t j
  proof -
    have "high_entry bf t j = low_entry bf t j" using that(1) d by (auto simp: high_entry_def frames_of_def)
    then show ?thesis using s that saysD [of bf m _ t j] by auto
  qed
  let ?i = "va div 2 ^ 39 mod 512" and ?j = "va div 2 ^ 30 mod 512"
  have ij: "?i = va div 2 ^ 39" using va by (simp add: div_less_iff_less_mult)
  have e0: "tentry m (boot_pt_l0 bf) (va div 2 ^ 39 mod 512) =
      (if ?i = 0 then table_descriptor (of_nat (boot_pt_l1 bf)) else 0)"
    using d by (subst e) (auto simp: low_entry_def frames_of_def)
  have e1: "tentry m (boot_pt_l1 bf) (va div 2 ^ 30 mod 512) =
      (if ?j = 0 then table_descriptor (of_nat (boot_pt_l2_low bf))
       else if ?j = 1 then table_descriptor (of_nat (boot_pt_l2_high bf)) else 0)"
    using d by (subst e) (auto simp: low_entry_def frames_of_def)
  show ?thesis
  proof (cases "?i = 0")
    case False
    then have "hw_walk m MAIR_EL1_VALUE 0 va (boot_pt_l0 bf) 3 = Fault"
      by (intro hw_top(2)) (simp only: e0 if_False)
    moreover have "2 ^ 39 \<le> va" using False unfolding ij by (simp add: div_eq_0_iff not_less)
    ultimately show ?thesis by (simp add: boot_window_def)
  next
    case True
    then have v39: "va < 2 ^ 39" unfolding ij by (simp add: div_eq_0_iff)
    have "hw_walk m MAIR_EL1_VALUE 0 va (boot_pt_l0 bf) 3 = hw_walk m MAIR_EL1_VALUE 0 va (boot_pt_l1 bf) 2"
      by (rule hw_top(1)) (use e0 True al in auto)
    also have "\<dots> = boot_window va"
    proof -
      have j: "?j = va div 2 ^ 30" using v39 by (simp add: div_less_iff_less_mult)
      consider "?j = 0" | "?j = 1" | "?j \<noteq> 0" "?j \<noteq> 1" by blast
      then show ?thesis
      proof cases
        case 1
        then have x: "va < 2 ^ 30" unfolding j by (simp add: div_eq_0_iff)
        have "hw_walk m MAIR_EL1_VALUE 0 va (boot_pt_l1 bf) 2 = hw_walk m MAIR_EL1_VALUE 0 va (boot_pt_l2_low bf) 1"
          by (rule hw_mid(1)) (use e1 1 al in auto)
        then show ?thesis using shared_walks(1) [OF l s x] x by simp
      next
        case 2
        then have "va div 2 ^ 30 = 1" unfolding j .
        then have x: "va - 2 ^ 30 < 2 ^ 30" "va mod 2 ^ 30 = va - 2 ^ 30" "2 ^ 30 + (va - 2 ^ 30) = va"
          using div_mult_mod_eq [of va "2 ^ 30"] by auto
        have "hw_walk m MAIR_EL1_VALUE 0 va (boot_pt_l1 bf) 2 = hw_walk m MAIR_EL1_VALUE 0 va (boot_pt_l2_high bf) 1"
          by (rule hw_mid(1)) (use e1 2 al in auto)
        also have "\<dots> = boot_window (2 ^ 30 + (va - 2 ^ 30))" by (rule shared_walks(2) [OF l s x(1,2)])
        finally show ?thesis unfolding x(3) .
      next
        case 3
        then have "hw_walk m MAIR_EL1_VALUE 0 va (boot_pt_l1 bf) 2 = Fault"
          by (intro hw_mid(2)) (simp only: e1 if_False)
        moreover have "2 ^ 31 \<le> va"
        proof -
          have "2 \<le> va div 2 ^ 30" using 3 unfolding j by linarith
          then show ?thesis by (simp add: less_eq_div_iff_mult_less_eq)
        qed
        ultimately show ?thesis by (simp add: boot_window_def)
      qed
    qed
    finally show ?thesis .
  qed
qed

lemma high_walk:
  assumes l: "boot_layout bf" and s: "says bf m high_entry" and va: "2 ^ 64 - 2 ^ 48 \<le> va" "va < 2 ^ 64"
  shows "hw_walk m MAIR_EL1_VALUE 0 va (boot_pt_l0_hh bf) 3 =
    (if KERNEL_HIGH_HALF_OFFSET \<le> va then boot_window (va - KERNEL_HIGH_HALF_OFFSET) else Fault)"
proof -
  note al = boot_frame_facts(1) [OF l]
  have d: "distinct (frames_of bf)" using boot_frame_facts(2) [OF l] .
  let ?i = "va div 2 ^ 39 mod 512" and ?j = "va div 2 ^ 30 mod 512"
  have h0: "high_entry bf (boot_pt_l0_hh bf) j = (if j = 511 then table_descriptor (of_nat (boot_pt_l1_hh bf)) else 0)"
    and h1: "high_entry bf (boot_pt_l1_hh bf) j =
      (if j = 508 then table_descriptor (of_nat (boot_pt_l2_low bf))
       else if j = 509 then table_descriptor (of_nat (boot_pt_l2_high bf)) else 0)" for j
    using d by (auto simp: high_entry_def low_entry_def frames_of_def)
  have e0: "tentry m (boot_pt_l0_hh bf) (va div 2 ^ 39 mod 512) =
      (if ?i = 511 then table_descriptor (of_nat (boot_pt_l1_hh bf)) else 0)"
    by (subst saysD [OF s]) (simp_all only: h0 h1 frame_member mod_less_divisor zero_less_numeral)
  have e1: "tentry m (boot_pt_l1_hh bf) (va div 2 ^ 30 mod 512) =
      (if ?j = 508 then table_descriptor (of_nat (boot_pt_l2_low bf))
       else if ?j = 509 then table_descriptor (of_nat (boot_pt_l2_high bf)) else 0)"
    by (subst saysD [OF s]) (simp_all only: h0 h1 frame_member mod_less_divisor zero_less_numeral)
  show ?thesis
  proof (cases "KERNEL_HIGH_HALF_OFFSET \<le> va")
    case True
    then obtain pa where pa: "va = KERNEL_HIGH_HALF_OFFSET + pa" "pa < 2 ^ 32"
      using va(2) by (intro that [of "va - KERNEL_HIGH_HALF_OFFSET"]) (auto simp: KERNEL_HIGH_HALF_OFFSET_def)
    have q: "va div 2 ^ 30 = 0x3FFFFFFFC + pa div 2 ^ 30" "va mod 2 ^ 30 = pa mod 2 ^ 30"
    proof -
      have "va = 2 ^ 30 * 0x3FFFFFFFC + pa" unfolding pa(1) by (simp add: KERNEL_HIGH_HALF_OFFSET_def)
      then show "va div 2 ^ 30 = 0x3FFFFFFFC + pa div 2 ^ 30" "va mod 2 ^ 30 = pa mod 2 ^ 30"
        by (simp_all only: div_mod_base [where b = "2 ^ 30"] zero_less_power zero_less_numeral)
    qed
    have "pa div 2 ^ 30 < 4" using pa(2) by (simp add: div_less_iff_less_mult)
    then have k: "(508 + pa div 2 ^ 30) mod 512 = 508 + pa div 2 ^ 30" "(508 + pa div 2 ^ 30) div 512 = 0" by simp_all
    have v: "va div 2 ^ 30 = 512 * 0x1FFFFFF + (508 + pa div 2 ^ 30)" unfolding q by simp
    have "va div 2 ^ 39 = va div 2 ^ 30 div 512" by (simp add: div_mult2_eq [symmetric])
    also have "\<dots> = 0x1FFFFFF" unfolding v by (simp only: div_mod_base [where b = 512] k zero_less_numeral add_0_right)
    finally have i: "?i = 511" by simp
    have j: "?j = 508 + pa div 2 ^ 30" unfolding v by (simp only: div_mod_base [where b = 512] k zero_less_numeral)
    have "hw_walk m MAIR_EL1_VALUE 0 va (boot_pt_l0_hh bf) 3 = hw_walk m MAIR_EL1_VALUE 0 va (boot_pt_l1_hh bf) 2"
      by (rule hw_top(1)) (use e0 i al in auto)
    also have "\<dots> = boot_window pa"
    proof -
      consider "pa div 2 ^ 30 = 0" | "pa div 2 ^ 30 = 1" | "2 \<le> pa div 2 ^ 30" by linarith
      then show ?thesis
      proof cases
        case 1
        then have x: "pa < 2 ^ 30" "va mod 2 ^ 30 = pa" unfolding q by (simp_all add: div_eq_0_iff)
        have "hw_walk m MAIR_EL1_VALUE 0 va (boot_pt_l1_hh bf) 2 = hw_walk m MAIR_EL1_VALUE 0 va (boot_pt_l2_low bf) 1"
          by (rule hw_mid(1)) (use e1 j 1 al in auto)
        then show ?thesis using shared_walks(1) [OF l _ x] s by simp
      next
        case 2
        then have x: "pa - 2 ^ 30 < 2 ^ 30" "va mod 2 ^ 30 = pa - 2 ^ 30" "2 ^ 30 + (pa - 2 ^ 30) = pa"
          unfolding q using div_mult_mod_eq [of pa "2 ^ 30"] by auto
        have "hw_walk m MAIR_EL1_VALUE 0 va (boot_pt_l1_hh bf) 2 = hw_walk m MAIR_EL1_VALUE 0 va (boot_pt_l2_high bf) 1"
          by (rule hw_mid(1)) (use e1 j 2 al in auto)
        also have "\<dots> = boot_window (2 ^ 30 + (pa - 2 ^ 30))" by (rule shared_walks(2) [OF l disjI2 [OF s] x(1,2)])
        finally show ?thesis unfolding x(3) .
      next
        case 3
        then have "hw_walk m MAIR_EL1_VALUE 0 va (boot_pt_l1_hh bf) 2 = Fault"
          by (intro hw_mid(2)) (subst e1, unfold j, simp)
        moreover have "2 ^ 31 \<le> pa" using 3 by (simp add: less_eq_div_iff_mult_less_eq)
        ultimately show ?thesis by (simp add: boot_window_def)
      qed
    qed
    finally show ?thesis using True pa(1) by simp
  next
    case False
    show ?thesis
    proof (cases "?i = 511")
      case i: True
      have "?j < 508"
      proof (rule ccontr)
        assume j: "\<not> ?j < 508"
        define q where "q = va div 2 ^ 30"
        define r where "r = q div 512"
        have "0x3FFFC0000 \<le> q" using va(1) unfolding q_def by (simp add: less_eq_div_iff_mult_less_eq)
        then have r1: "0x1FFFE00 \<le> r" unfolding r_def by (simp add: less_eq_div_iff_mult_less_eq)
        have "q < 0x400000000" using va(2) unfolding q_def by (simp add: div_less_iff_less_mult)
        then have r2: "r < 0x2000000" unfolding r_def by (simp add: div_less_iff_less_mult)
        have "va div 2 ^ 39 = r" unfolding r_def q_def by (simp add: div_mult2_eq [symmetric])
        then have r3: "r mod 512 = 511" using i by simp
        obtain s where s': "r = 512 * 65535 + s" "s < 512"
          by (rule that [of "r - 512 * 65535"]) (use r1 r2 in auto)
        have "s = 511" using r3 s'(2) unfolding s'(1) by (simp only: div_mod_base)
        then have "r = 0x1FFFFFF" using s'(1) by simp
        moreover have "q = r * 512 + q mod 512" unfolding r_def by simp
        moreover have "508 \<le> q mod 512" using j unfolding q_def by simp
        ultimately have "0x3FFFFFFFC \<le> va div 2 ^ 30" unfolding q_def by linarith
        then show False using False by (simp add: less_eq_div_iff_mult_less_eq KERNEL_HIGH_HALF_OFFSET_def)
      qed
      have "hw_walk m MAIR_EL1_VALUE 0 va (boot_pt_l0_hh bf) 3 = hw_walk m MAIR_EL1_VALUE 0 va (boot_pt_l1_hh bf) 2"
        by (rule hw_top(1)) (use e0 i al in auto)
      also have "\<dots> = Fault"
        using \<open>?j < 508\<close> e1 by (intro hw_mid(2)) simp
      finally show ?thesis using False by simp
    next
      case i: False
      then have "hw_walk m MAIR_EL1_VALUE 0 va (boot_pt_l0_hh bf) 3 = Fault"
        by (intro hw_top(2)) (simp only: e0 if_False)
      with False show ?thesis by simp
    qed
  qed
qed

section \<open>The regimes of the boot\<close>

lemma tcr_values:
  "TCR_EL1_VALUE = 0x2B5903510" "TCR_EL1_VALUE_HIGH_HALF = 0x2B5103510"
  "TCR_EL1_EPD0_BIT = 0x80"
  by (simp_all add: TCR_EL1_VALUE_def TCR_EL1_VALUE_HIGH_HALF_def TCR_EL1_EPD1_BIT_def TCR_EL1_EPD0_BIT_def Let_def)

lemma tcr_regimes:
  "regime_48 TCR_EL1_VALUE" "regime_48 TCR_EL1_VALUE_HIGH_HALF" "regime_48 (TCR_EL1_VALUE_HIGH_HALF OR TCR_EL1_EPD0_BIT)"
  "\<not> bit TCR_EL1_VALUE 7" "bit TCR_EL1_VALUE 23" "\<not> bit TCR_EL1_VALUE_HIGH_HALF 7" "\<not> bit TCR_EL1_VALUE_HIGH_HALF 23"
  "bit (TCR_EL1_VALUE_HIGH_HALF OR TCR_EL1_EPD0_BIT) 7" "\<not> bit (TCR_EL1_VALUE_HIGH_HALF OR TCR_EL1_EPD0_BIT) 23"
  unfolding tcr_values regime_48_def by (simp_all add: bit_numeral_rec)

lemma enabled_bit: "bit (w OR SCTLR_EL1_MMU_ENABLE_MASK) 0"
  by (simp add: SCTLR_EL1_MMU_ENABLE_MASK_def bit_or_iff)

lemma bootstrap_says: "\<lbrakk>boot_layout bf; boot_zeroed bf m\<rbrakk> \<Longrightarrow> says bf (bootstrap_tables bf m) low_entry"
  by (simp add: says_def bootstrap_entry)

lemma high_half_says:
  "\<lbrakk>boot_layout bf; boot_zeroed bf m\<rbrakk> \<Longrightarrow> says bf (high_half_tables bf (bootstrap_tables bf m)) high_entry"
  by (simp add: says_def high_half_entry)

lemma root_masked:
  "boot_layout bf \<Longrightarrow> hw_address (of_nat (boot_pt_l0 bf)) 12 = boot_pt_l0 bf"
  "boot_layout bf \<Longrightarrow> hw_address (of_nat (boot_pt_l0_hh bf)) 12 = boot_pt_l0_hh bf"
  using boot_frame_facts(1) [of bf] by (simp_all add: hw_masks(1) address_masked(1))

text \<open>The translation in any regime whose tables and registers are those of the boot.\<close>

lemma low_regime:
  assumes "boot_layout bf" "says bf m low_entry \<or> says bf m high_entry" "bit (sctlr_el1 r) 0" "regime_48 (tcr_el1 r)"
    "\<not> bit (tcr_el1 r) 7" "mair_el1 r = MAIR_EL1_VALUE" "ttbr0_el1 r = of_nat (boot_pt_l0 bf)" "va < 2 ^ 48"
  shows "hw_translate (m, r) va = boot_window va"
  using low_walk [OF assms(1,2,8)] assms by (simp add: hw_translate_def root_masked)

lemma high_regime:
  assumes "boot_layout bf" "says bf m high_entry" "bit (sctlr_el1 r) 0" "regime_48 (tcr_el1 r)"
    "\<not> bit (tcr_el1 r) 23" "mair_el1 r = MAIR_EL1_VALUE" "ttbr1_el1 r = of_nat (boot_pt_l0_hh bf)"
    "2 ^ 48 \<le> va" "va < 2 ^ 64"
  shows "hw_translate (m, r) va = (if KERNEL_HIGH_HALF_OFFSET \<le> va then boot_window (va - KERNEL_HIGH_HALF_OFFSET) else Fault)"
proof (cases "2 ^ 64 - 2 ^ 48 \<le> va")
  case True
  then show ?thesis
    using high_walk [OF assms(1,2) True assms(9)] assms by (simp add: hw_translate_def root_masked)
next
  case False
  then show ?thesis using assms by (simp add: hw_translate_def KERNEL_HIGH_HALF_OFFSET_def)
qed

lemma boot_window_far: "2 ^ 48 \<le> va \<Longrightarrow> boot_window va = Fault"
  by (simp add: boot_window_def)

text \<open>
  C24: The boot tables say exactly what they should. On the zeroed frames of the
  linker script and from any registers, the regime that \<open>mmu_bootstrap\<close> installs
  translates every one of the 2^64 addresses by the boot windows: device memory
  for the interrupt controller and the console, normal memory for the RAM, each
  address to itself, and a fault everywhere else. After \<open>high_half_activate\<close> the same
  windows are also seen at the high-half offset, and after the low half is given
  up they are seen there only. No window is accessible to user code.
\<close>

theorem boot_maps_exactly:
  assumes "boot_layout bf" "boot_zeroed bf m" "va < 2 ^ 64"
  shows "let s1 = mmu_bootstrap bf (m, r); s2 = high_half_activate bf s1; s3 = (fst s2, free_low_half (snd s2))
    in hw_translate s1 va = boot_window va \<and>
       hw_translate s2 va = (if KERNEL_HIGH_HALF_OFFSET \<le> va then boot_window (va - KERNEL_HIGH_HALF_OFFSET) else boot_window va) \<and>
       hw_translate s3 va = (if KERNEL_HIGH_HALF_OFFSET \<le> va then boot_window (va - KERNEL_HIGH_HALF_OFFSET) else Fault) \<and>
       (\<forall>pa attr f. boot_window va = Mapped pa attr f \<longrightarrow> pa = va \<and> \<not> hp_el0_read f \<and> \<not> hp_el0_write f \<and> \<not> hp_el0_exec f)"
proof -
  note lo = bootstrap_says [OF assms(1,2)] and hi = high_half_says [OF assms(1,2)]
  note defs = mmu_bootstrap_def high_half_activate_def bootstrap_regs_def bootstrap_enable_def high_half_root_def
    high_half_enable_def free_low_half_def null_ttbr0_def disable_ttbr0_def Let_def
  have w: "boot_window va = Mapped pa attr f \<Longrightarrow> pa = va \<and> \<not> hp_el0_read f \<and> \<not> hp_el0_write f \<and> \<not> hp_el0_exec f" for pa attr f
    by (auto simp: boot_window_def device_perms_def ram_perms_def split: if_splits)
  have off: "2 ^ 48 \<le> KERNEL_HIGH_HALF_OFFSET" by (simp add: KERNEL_HIGH_HALF_OFFSET_def)
  show ?thesis
  proof (cases "va < 2 ^ 48")
    case True
    then have n: "\<not> KERNEL_HIGH_HALF_OFFSET \<le> va" using off by simp
    show ?thesis
      using low_regime [OF assms(1) disjI1 [OF lo] _ _ _ _ _ True] low_regime [OF assms(1) disjI2 [OF hi] _ _ _ _ _ True]
        n w True
      by (simp add: defs enabled_bit tcr_regimes) (simp add: hw_translate_def tcr_regimes enabled_bit)
  next
    case False
    then show ?thesis
      using high_regime [OF assms(1) hi _ _ _ _ _ _ assms(3)] w boot_window_far [of va] off
      by (simp add: defs enabled_bit tcr_regimes not_less) (simp add: hw_translate_def tcr_regimes enabled_bit)
  qed
qed

text \<open>A concrete layout: the frames of the linker script right above the image.\<close>

definition demo_frames :: boot_frames where
  "demo_frames = \<lparr>boot_pt_l0 = 0x40090000, boot_pt_l1 = 0x40091000, boot_pt_l2_low = 0x40092000,
     boot_pt_l2_high = 0x40093000, boot_pt_l0_hh = 0x40094000, boot_pt_l1_hh = 0x40095000\<rparr>"

definition reset_regs :: mmu_regs where
  "reset_regs = \<lparr>mair_el1 = 0, tcr_el1 = 0, ttbr0_el1 = 0, ttbr1_el1 = 0, sctlr_el1 = 0\<rparr>"

lemma demo_boot_layout: "boot_layout demo_frames" "boot_zeroed demo_frames (\<lambda>_. 0)"
  by (simp_all add: boot_layout_def boot_zeroed_def frames_of_def demo_frames_def)

theorem boot_maps_exactly_witness:
  "hw_translate (high_half_activate demo_frames (mmu_bootstrap demo_frames (\<lambda>_. 0, reset_regs))) 0xFFFFFFFF09000000 =
     Mapped 0x09000000 0 device_perms"
  using boot_maps_exactly [OF demo_boot_layout, where va = "0xFFFFFFFF09000000" and r = reset_regs]
  by (simp add: Let_def boot_window_def KERNEL_HIGH_HALF_OFFSET_def)

section \<open>Every step of the boot\<close>

text \<open>
  The states the boot passes through, one per register write that matters, first
  those in which the kernel executes at its physical address and then those after
  the branch to the high half.
\<close>

definition low_stages :: "boot_frames \<Rightarrow> regime \<Rightarrow> regime list" where
  "low_stages bf = (\<lambda>(m, r).
     let m1 = bootstrap_tables bf m; r1 = bootstrap_regs bf r; r2 = bootstrap_enable r1;
         m2 = high_half_tables bf m1; r3 = high_half_root bf r2; r4 = high_half_enable r3
     in [(m, r), (m1, r), (m1, r1), (m1, r2), (m2, r2), (m2, r3), (m2, r4)])"

definition high_stages :: "boot_frames \<Rightarrow> regime \<Rightarrow> regime list" where
  "high_stages bf s =
     (let (m, r) = high_half_activate bf (mmu_bootstrap bf s)
      in [(m, r), (m, null_ttbr0 r), (m, disable_ttbr0 (null_ttbr0 r))])"

text \<open>Where the kernel's instruction fetch goes.\<close>

definition kernel_fetch :: "hw_access \<Rightarrow> nat option" where
  "kernel_fetch a =
     (case a of
        Flat pa \<Rightarrow> Some pa
      | Mapped pa attr f \<Rightarrow>
          if attr \<noteq> 0 \<and> hp_el1_exec f then Some pa else None
      | Fault \<Rightarrow> None)"

lemma fetch_ram: "\<lbrakk>0x40000000 \<le> pa; pa < 0x48000000\<rbrakk> \<Longrightarrow> kernel_fetch (boot_window pa) = Some pa"
  by (simp add: kernel_fetch_def boot_window_def ram_perms_def)

lemma high_half_alias_eq:
  assumes "pa < 0x100000000"
  shows "high_half_alias pa = KERNEL_HIGH_HALF_OFFSET + pa"
    and "high_half_alias (KERNEL_HIGH_HALF_OFFSET + pa) = KERNEL_HIGH_HALF_OFFSET + pa"
proof -
  have m: "KERNEL_IMAGE_PA_MASK = mask 32" by (simp add: KERNEL_IMAGE_PA_MASK_def mask_eq_exp_minus_1)
  have p: "pa AND mask 32 = pa" using assms by (simp add: take_bit_eq_mask [symmetric] take_bit_eq_mod)
  have k: "KERNEL_HIGH_HALF_OFFSET = push_bit 32 0xFFFFFFFF"
    by (simp add: KERNEL_HIGH_HALF_OFFSET_def push_bit_eq_mult)
  have kp: "(KERNEL_HIGH_HALF_OFFSET + pa) AND mask 32 = pa"
    using assms div_mod_base(2) [of "0x100000000" "0xFFFFFFFF" pa]
    by (simp add: take_bit_eq_mask [symmetric] take_bit_eq_mod KERNEL_HIGH_HALF_OFFSET_def)
  have o: "KERNEL_HIGH_HALF_OFFSET OR pa = KERNEL_HIGH_HALF_OFFSET + pa"
  proof -
    have "bit pa n \<Longrightarrow> n < 32" for n
      using p bit_and_iff [of pa "mask 32" n] by (auto simp: bit_mask_iff)
    moreover have "bit KERNEL_HIGH_HALF_OFFSET n \<Longrightarrow> 32 \<le> n" for n
    proof -
      obtain x where x: "KERNEL_HIGH_HALF_OFFSET = push_bit 32 x" using k by blast
      show "bit KERNEL_HIGH_HALF_OFFSET n \<Longrightarrow> 32 \<le> n" unfolding x by (simp add: bit_push_bit_iff)
    qed
    ultimately have "KERNEL_HIGH_HALF_OFFSET AND pa = 0"
      by (intro bit_eqI) (fastforce simp: bit_and_iff)
    then show ?thesis by (simp add: disjunctive_add_eq_or)
  qed
  show "high_half_alias pa = KERNEL_HIGH_HALF_OFFSET + pa"
    by (simp add: high_half_alias_def m p o)
  show "high_half_alias (KERNEL_HIGH_HALF_OFFSET + pa) = KERNEL_HIGH_HALF_OFFSET + pa"
    by (simp add: high_half_alias_def m kp o)
qed

text \<open>
  C27: The kernel never loses its own code while it boots. Starting with
  translation off, in every state up to the branch a fetch from any address of
  the RAM window reaches that address with kernel execute permission; the branch
  target computed from a low or a high symbol address is the address the direct
  map gives; and from the branch on a fetch from that target reaches the same
  physical instruction, also between the two writes that give up the low half.
\<close>

theorem boot_keeps_kernel_code:
  assumes "boot_layout bf" "boot_zeroed bf m" "\<not> bit (sctlr_el1 r) 0" "0x40000000 \<le> pa" "pa < 0x48000000"
  shows "(\<forall>s\<in>set (low_stages bf (m, r)). kernel_fetch (hw_translate s pa) = Some pa) \<and>
    phys_to_kernel_va pa = Some (high_half_alias pa) \<and> high_half_alias (high_half_alias pa) = high_half_alias pa \<and>
    (\<forall>s\<in>set (high_stages bf (m, r)). kernel_fetch (hw_translate s (high_half_alias pa)) = Some pa)"
proof -
  note lo = bootstrap_says [OF assms(1,2)] and hi = high_half_says [OF assms(1,2)]
  note defs = bootstrap_regs_def bootstrap_enable_def high_half_root_def high_half_enable_def
  have pa: "pa < 2 ^ 48" "pa < 0x100000000" using assms(5) by simp_all
  have off: "kernel_fetch (hw_translate (n, q) pa) = Some pa" if "\<not> bit (sctlr_el1 q) 0" for n q
    using that by (simp add: hw_translate_def kernel_fetch_def)
  have on: "kernel_fetch (hw_translate (n, q) pa) = Some pa"
    if "says bf n low_entry \<or> says bf n high_entry" "bit (sctlr_el1 q) 0" "regime_48 (tcr_el1 q)"
      "\<not> bit (tcr_el1 q) 7" "mair_el1 q = MAIR_EL1_VALUE" "ttbr0_el1 q = of_nat (boot_pt_l0 bf)" for n q
    using low_regime [OF assms(1) that pa(1)] fetch_ram [OF assms(4,5)] by simp
  have low: "\<forall>s\<in>set (low_stages bf (m, r)). kernel_fetch (hw_translate s pa) = Some pa"
    using assms(3) by (simp add: low_stages_def defs Let_def enabled_bit tcr_regimes lo hi off on del: bit_0)
  let ?va = "KERNEL_HIGH_HALF_OFFSET + pa"
  have va: "2 ^ 48 \<le> ?va" "?va < 2 ^ 64" using pa by (simp_all add: KERNEL_HIGH_HALF_OFFSET_def)
  have onh: "kernel_fetch (hw_translate (n, q) ?va) = Some pa"
    if "says bf n high_entry" "bit (sctlr_el1 q) 0" "regime_48 (tcr_el1 q)"
      "\<not> bit (tcr_el1 q) 23" "mair_el1 q = MAIR_EL1_VALUE" "ttbr1_el1 q = of_nat (boot_pt_l0_hh bf)" for n q
    using high_regime [OF assms(1) that va] fetch_ram [OF assms(4,5)] by simp
  have high: "\<forall>s\<in>set (high_stages bf (m, r)). kernel_fetch (hw_translate s ?va) = Some pa"
    by (simp add: high_stages_def mmu_bootstrap_def high_half_activate_def defs null_ttbr0_def disable_ttbr0_def
        enabled_bit tcr_regimes hi onh del: bit_0)
  have "phys_to_kernel_va pa = Some ?va"
    using pa(2) by (simp add: phys_to_kernel_va_eq KERNEL_HIGH_HALF_OFFSET_def)
  then show ?thesis using low high by (simp only: high_half_alias_eq [OF pa(2)] simp_thms)
qed

theorem boot_keeps_kernel_code_witness:
  "kernel_fetch (hw_translate (last (high_stages demo_frames (\<lambda>_. 0, reset_regs))) (high_half_alias 0x40080000)) = Some 0x40080000"
proof -
  have "last (high_stages demo_frames (\<lambda>_. 0, reset_regs)) \<in> set (high_stages demo_frames (\<lambda>_. 0, reset_regs))"
    by (rule last_in_set) (simp add: high_stages_def split_def Let_def)
  then show ?thesis
    using boot_keeps_kernel_code [OF demo_boot_layout, of reset_regs "0x40080000"] by (simp add: reset_regs_def)
qed

section \<open>The kernel's view of physical memory\<close>

text \<open>Once the high half is live, the kernel's memory shows physical memory at the direct map.\<close>

definition physical :: "memory \<Rightarrow> memory" where
  "physical m = (\<lambda>pa. m (KERNEL_HIGH_HALF_OFFSET + pa))"

lemma physical_entry: "tentry (physical m) (frame_addr t) i = entry m t i"
  by (simp add: tentry_def entry_def physical_def read_u64_def kva_def KERNEL_HIGH_HALF_OFFSET_def add.assoc)

end
