(* ===== verification/Activate_Claims.thy ===== *)
theory Activate_Claims
  imports BootMmu_Claims Mmu_Claims
begin

text \<open>
  What the processor sees of an address space the kernel has built: from the entries
  its encoders write, through the processor's own walk, to the finite map of pages
  that the calls of \<open>map\<close> and \<open>unmap\<close> describe.
\<close>

unbundle bit_operations_syntax

section \<open>The walk over written tables\<close>

lemma physical_read: "read_u64 (physical m) (frame_addr t + 8 * i) = entry m t i"
  using physical_entry [of m t i] by (simp add: tentry_def)

text \<open>One level: the processor goes where \<open>step\<close> goes.\<close>

lemma hw_step:
  assumes "written_entry l (entry m t (va_index va (12 + 9 * Suc n)))" "l < 3" "12 + 9 * Suc n \<le> 39"
  shows "hw_walk (physical m) mair 0 va (frame_addr t) (Suc n) =
    (case step m t (va_index va (12 + 9 * Suc n)) of
       Inl e \<Rightarrow> Fault | Inr t' \<Rightarrow> hw_walk (physical m) mair 0 va (frame_addr t') n)"
proof -
  let ?e = "entry m t (va_index va (12 + 9 * Suc n))"
  consider "?e = 0" | a where "?e = table_descriptor a" using assms(1,2) by (auto simp: written_entry_def)
  then show ?thesis
    by cases (simp_all add: hw_index_eq [OF assms(3)] physical_read step_def Let_def bit_table_descriptor_01
        bit_table_descriptor_01 [unfolded One_nat_def] table_unlimited hw_masks(1) del: bit_0 mult_Suc_right mult_Suc)
qed

text \<open>The last level: a page grants what its flags ask for.\<close>

definition granted :: "nat \<Rightarrow> translation \<Rightarrow> hw_access" where
  "granted va x =
     (case x of
        Inl _ \<Rightarrow> Fault
      | Inr (f, fl) \<Rightarrow>
          hw_access.Mapped (frame_addr f + va mod PAGE_SIZE) (if mf_contains fl mf_DEVICE then 0x00 else 0xFF) (flag_perms fl))"

lemma granted_Inl [simp]: "granted va (Inl e) = Fault"
  by (simp add: granted_def)

lemma hw_page:
  assumes "written_entry 3 (entry m t (va_index va 12))"
  shows "hw_walk (physical m) MAIR_EL1_VALUE 0 va (frame_addr t) 0 = granted va (leaf_view (entry m t (va_index va 12)))"
proof -
  let ?e = "entry m t (va_index va 12)"
  consider "?e = 0" | a f where "?e = page_descriptor a (flags_to_descriptor_bits f)"
    using assms by (auto simp: written_entry_def)
  then show ?thesis
  proof cases
    case 1
    then show ?thesis by (simp add: hw_index_eq physical_read leaf_view_def)
  next
    case (2 a f)
    have "bit ?e 0" "bit ?e 1" "bit ?e 10" unfolding 2 by (simp_all add: bit_page_descriptor leaf_bit_def del: bit_0)
    moreover have "mf_contains (mf_effective f) mf_DEVICE = mf_contains f mf_DEVICE"
      unfolding mf_contains_bits bit_mf_effective by auto
    ultimately show ?thesis
      unfolding 2 by (simp add: hw_index_eq physical_read 2 hw_leaf_def leaf_view_def granted_def hw_masks(2) page_fields
          decode_page PAGE_SIZE_def del: bit_0)
  qed
qed

declare hw_walk.simps [simp del]

lemma walk_view:
  assumes w: "written m (qa_root as)"
  shows "hw_walk (physical m) MAIR_EL1_VALUE 0 va (frame_addr (qa_root as)) 3 = granted va (view_at m as va)"
proof -
  let ?r = "qa_root as"
  have lv: "va_index va (12 + 9 * Suc 2) = va_index va VA_L0_SHIFT" "va_index va (12 + 9 * Suc 1) = va_index va VA_L1_SHIFT"
    "va_index va (12 + 9 * Suc 0) = va_index va VA_L2_SHIFT" "va_index va 12 = leaf_index va"
    by (simp_all add: shifts leaf_index_def)
  have paths: "is_path []" "is_path [va_index va VA_L0_SHIFT]" "is_path [va_index va VA_L0_SHIFT, va_index va VA_L1_SHIFT]"
    "is_path (table_path va)" "length (table_path va) = 3"
    using digits_bound [of va] by (simp_all add: is_path_def table_path_def)
  note e = writtenD [OF w paths(1) _ digits_bound(1)] writtenD [OF w paths(2) _ digits_bound(2)]
    writtenD [OF w paths(3) _ digits_bound(3)] writtenD [OF w paths(4) _ digits_bound(4), unfolded paths(5)]
  have view: "view_at m as va =
      (case step m ?r (va_index va VA_L0_SHIFT) of Inl e \<Rightarrow> Inl e | Inr t1 \<Rightarrow>
       (case step m t1 (va_index va VA_L1_SHIFT) of Inl e \<Rightarrow> Inl e | Inr t2 \<Rightarrow>
       (case step m t2 (va_index va VA_L2_SHIFT) of Inl e \<Rightarrow> Inl e | Inr t3 \<Rightarrow> leaf_view (entry m t3 (leaf_index va)))))"
    by (simp add: view_at_def page_view_def page_of_def table_path_def split: sum.split)
  have h1: "hw_walk (physical m) mair 0 va (frame_addr ?r) 3 =
      (case step m ?r (va_index va VA_L0_SHIFT) of Inl e \<Rightarrow> Fault | Inr t \<Rightarrow> hw_walk (physical m) mair 0 va (frame_addr t) 2)" for mair
    using hw_step [of _ m ?r va 2 mair, unfolded lv, OF e(1)] by simp
  show ?thesis
  proof (cases "step m ?r (va_index va VA_L0_SHIFT)")
    case s1: (Inr t1)
    then have d1: "descend m ?r [va_index va VA_L0_SHIFT] = Inr t1" by simp
    have h2: "hw_walk (physical m) mair 0 va (frame_addr t1) 2 =
      (case step m t1 (va_index va VA_L1_SHIFT) of Inl e \<Rightarrow> Fault | Inr t \<Rightarrow> hw_walk (physical m) mair 0 va (frame_addr t) 1)" for mair
      using hw_step [of _ m t1 va 1 mair, unfolded lv, OF e(2) [OF d1]] by (simp add: numeral_2_eq_2)
    show ?thesis
    proof (cases "step m t1 (va_index va VA_L1_SHIFT)")
      case s2: (Inr t2)
      then have d2: "descend m ?r [va_index va VA_L0_SHIFT, va_index va VA_L1_SHIFT] = Inr t2" using s1 by simp
      have h3: "hw_walk (physical m) mair 0 va (frame_addr t2) 1 =
        (case step m t2 (va_index va VA_L2_SHIFT) of Inl e \<Rightarrow> Fault | Inr t \<Rightarrow> hw_walk (physical m) mair 0 va (frame_addr t) 0)" for mair
        using hw_step [of _ m t2 va 0 mair, unfolded lv, OF e(3) [OF d2]] by simp
      show ?thesis
      proof (cases "step m t2 (va_index va VA_L2_SHIFT)")
        case s3: (Inr t3)
        then have "descend m ?r (table_path va) = Inr t3" using s1 s2 by (simp add: table_path_def)
        from hw_page [of m t3 va, unfolded lv, OF e(4) [OF this]] show ?thesis
          unfolding h1 view s1 s2 s3 by (simp only: sum.case h2 h3 s2 s3)
      qed (simp only: h1 h2 h3 view s1 s2 sum.case granted_Inl)
    qed (simp only: h1 h2 view s1 sum.case granted_Inl)
  qed (simp only: h1 view sum.case granted_Inl)
qed

section \<open>Activation\<close>

lemma regime_kept: "regime_48 (tcr AND NOT TCR_EL1_EPD0_BIT) \<longleftrightarrow> regime_48 tcr"
proof -
  have d: "drop_bit k (tcr AND NOT TCR_EL1_EPD0_BIT) AND c = drop_bit k tcr AND c"
    if "drop_bit k (NOT TCR_EL1_EPD0_BIT) AND c = c" for k c
    by (simp only: drop_bit_and and.assoc that)
  have "(tcr AND NOT TCR_EL1_EPD0_BIT) AND 0x3F = tcr AND 0x3F"
    using d [of 0 "0x3F"] by (simp add: tcr_values)
  moreover have "drop_bit 14 (tcr AND NOT TCR_EL1_EPD0_BIT) AND 3 = drop_bit 14 tcr AND 3"
    "drop_bit 16 (tcr AND NOT TCR_EL1_EPD0_BIT) AND 0x3F = drop_bit 16 tcr AND 0x3F"
    "drop_bit 30 (tcr AND NOT TCR_EL1_EPD0_BIT) AND 3 = drop_bit 30 tcr AND 3"
    by (rule d, simp add: tcr_values)+
  ultimately show ?thesis by (simp only: regime_48_def)
qed

lemma activate_regime:
  assumes "bit (sctlr_el1 r) 0" "regime_48 (tcr_el1 r)" "frame_addr (qa_root as) mod 4096 = 0" "frame_addr (qa_root as) < 2 ^ 48"
  shows "va < 2 ^ 48 \<Longrightarrow> hw_translate (m, qemu_activate as r) va = hw_walk m (mair_el1 r) 0 va (frame_addr (qa_root as)) 3"
    and "2 ^ 48 \<le> va \<Longrightarrow> hw_translate (m, qemu_activate as r) va = hw_translate (m, r) va"
proof -
  have e: "\<not> bit (tcr_el1 r AND NOT TCR_EL1_EPD0_BIT) 7"
    "bit (tcr_el1 r AND NOT TCR_EL1_EPD0_BIT) 23 = bit (tcr_el1 r) 23"
    by (simp_all add: bit_and_iff bit_not_iff TCR_EL1_EPD0_BIT_def bit_exp_iff push_bit_of_1)
  have "hw_address (of_nat (frame_addr (qa_root as))) 12 = frame_addr (qa_root as)"
    unfolding hw_masks(1) by (rule address_masked(1) [OF assms(3,4)])
  then show "va < 2 ^ 48 \<Longrightarrow> hw_translate (m, qemu_activate as r) va = hw_walk m (mair_el1 r) 0 va (frame_addr (qa_root as)) 3"
    using assms(1,2) e(1) by (simp add: hw_translate_def qemu_activate_def regime_kept del: bit_0)
  show "2 ^ 48 \<le> va \<Longrightarrow> hw_translate (m, qemu_activate as r) va = hw_translate (m, r) va"
    using e(2) by (simp add: hw_translate_def qemu_activate_def regime_kept del: bit_0)
qed

section \<open>Claims\<close>

text \<open>
  C25: The processor translates by the map the calls describe. Create an address
  space on a root frame from the manager, run any sequence of map, unmap and
  translate calls on it and activate it, in the regime the boot leaves. Then at
  every lower-half address the processor's own walk faults where the finite map has
  no page and otherwise reaches the mapped frame, as device or as normal memory and
  with exactly the permissions asked for: writable only with WRITE, open to user
  code only with USER, executable at EL0 only with EXECUTE and USER and at EL1 only
  with EXECUTE and without USER. The kernel's \<open>translate\<close> reports that same map,
  and activation changes no translation of the upper half.
\<close>

theorem activated_space_translates:
  assumes "pmm_wf p" "direct_mapped p" "pmm_alloc_frame p m = Some ((p1, m1), Some root)"
    and "list_all page_op_valid ops"
    and "bit (sctlr_el1 r) 0" "regime_48 (tcr_el1 r)" "mair_el1 r = MAIR_EL1_VALUE"
  shows "\<exists>p' m' rs V. let as = qemu_create_address_space root; active = (physical m', qemu_activate as r) in
    page_run as (p1, m1) ops = Some ((p', m'), rs) \<and> map_run Map.empty ops rs = Some V \<and>
    (\<forall>va < 2 ^ 48. hw_translate active va =
      (case V (page_number va) of
         None \<Rightarrow> Fault
       | Some (f, fl) \<Rightarrow> hw_access.Mapped (frame_addr f + va mod PAGE_SIZE)
           (if mf_contains fl mf_DEVICE then 0x00 else 0xFF) (flag_perms fl))) \<and>
    (\<forall>va. qemu_translate m' as va = Some (case V (page_number va) of None \<Rightarrow> Inl NotMapped | Some x \<Rightarrow> Inr x)) \<and>
    (\<forall>va \<ge> 2 ^ 48. hw_translate active va = hw_translate (physical m', r) va)"
proof -
  let ?as = "qemu_create_address_space root"
  have p: "pmm_inv p" using assms(1,2) by (simp add: pmm_inv_def)
  note fresh = fresh_space [OF p assms(3)]
  from page_run_ok [OF fresh(1) assms(4)] obtain p' m' rs V where
    run: "page_run ?as (p1, m1) ops = Some ((p', m'), rs)" "map_run Map.empty ops rs = Some V"
      "history_ok ?as (p', m') V" by auto
  then have h: "tree_wf m' (qa_root ?as)" "view_at m' ?as = shown V" "written m' (qa_root ?as)"
    by (simp_all add: history_ok_def space_ok_def)
  have root: "frame_addr (qa_root ?as) mod 4096 = 0" "frame_addr (qa_root ?as) < 2 ^ 48"
    using fresh(3) by (simp_all add: direct_frame_def qemu_create_address_space_def)
  note act = activate_regime [OF assms(5,6) root]
  have "hw_translate (physical m', qemu_activate ?as r) va = granted va (shown V va)" if "va < 2 ^ 48" for va
    using act(1) [OF that] walk_view [OF h(3)] unfolding h(2) assms(7) by simp
  moreover have "qemu_translate m' ?as va = Some (shown V va)" for va using translate_spec [OF h(1)] h(2) by simp
  ultimately show ?thesis using run(1,2) act(2)
    by (intro exI [of _ p'] exI [of _ m'] exI [of _ rs] exI [of _ V])
      (simp add: granted_def shown_def split: option.split)
qed

text \<open>A program page and a stack page of user code, on the demonstration manager.\<close>

definition demo_pages :: "page_op list" where
  "demo_pages =
     [Page_map 0x800000 (PhysFrame 0x41004000) (mf_union mf_USER mf_EXECUTE),
      Page_map 0xA00000 (PhysFrame 0x41005000) (mf_union mf_USER mf_WRITE)]"

definition demo_regs :: mmu_regs where
  "demo_regs = \<lparr>mair_el1 = MAIR_EL1_VALUE, tcr_el1 = TCR_EL1_VALUE_HIGH_HALF OR TCR_EL1_EPD0_BIT,
     ttbr0_el1 = 0, ttbr1_el1 = 0, sctlr_el1 = 1\<rparr>"

lemma demo_pages_mapped:
  assumes "pmm_alloc_frame demo_pmm (\<lambda>_. 0) = Some ((p1, m1), Some root)"
    and "page_run (qemu_create_address_space root) (p1, m1) demo_pages = Some ((p', m'), rs)"
    and "map_run Map.empty demo_pages rs = Some V"
  shows "V = [page_number 0x800000 \<mapsto> (PhysFrame 0x41004000, mf_union mf_USER mf_EXECUTE),
    page_number 0xA00000 \<mapsto> (PhysFrame 0x41005000, mf_union mf_USER mf_WRITE)]"
proof -
  have p: "pmm_inv demo_pmm" "pm_free_count demo_pmm = 14"
    using demo_pmm_facts(1,2) by (simp_all add: pmm_inv_def demo_pmm_def)
  note fresh = fresh_space [OF p(1) assms(1)]
  have valid: "list_all page_op_valid demo_pages" by (simp add: demo_pages_def PAGE_SIZE_def)
  have "pm_free_count p' \<noteq> 0"
    using page_run_uses [OF fresh(1) valid assms(2)] fresh(7) p(2) by (simp add: demo_pages_def)
  then have "Refused MmuOutOfFrames \<notin> set rs" using page_run_ok [OF fresh(1) valid] assms(2) by auto
  moreover obtain a b where "rs = [a, b]"
    using assms(3) by (cases rs; cases "tl rs"; cases "tl (tl rs)")
      (auto simp: demo_pages_def bind_eq_Some_conv simp del: map_step.simps)
  moreover have "mf_effective (mf_union mf_USER mf_EXECUTE) = mf_union mf_USER mf_EXECUTE"
    "mf_effective (mf_union mf_USER mf_WRITE) = mf_union mf_USER mf_WRITE"
    by (simp_all add: mf_effective_def mf_ALL_def mf_consts mf_union_def mf_intersection_def mf_contains_def)
  moreover have "\<not> mf_contains (mf_union mf_USER f) mf_DEVICE" if "f \<in> {mf_EXECUTE, mf_WRITE}" for f
    using that unfolding mf_contains_bits bit_mf_union by (auto simp: bit_mf_consts)
  ultimately show ?thesis
    using assms(3) by (auto simp: demo_pages_def PAGE_SIZE_def page_number_def split: if_splits)
qed

theorem activated_space_translates_witness:
  "\<exists>p1 m1 root p' m' rs. pmm_alloc_frame demo_pmm (\<lambda>_. 0) = Some ((p1, m1), Some root) \<and>
     page_run (qemu_create_address_space root) (p1, m1) demo_pages = Some ((p', m'), rs) \<and>
     (let active = (physical m', qemu_activate (qemu_create_address_space root) demo_regs)
      in hw_translate active 0x800010 = hw_access.Mapped 0x41004010 0xFF
           \<lparr>hp_el1_write = False, hp_el1_exec = False, hp_el0_read = True, hp_el0_write = False,
            hp_el0_exec = True, hp_global = False\<rparr> \<and>
         hw_translate active 0xA00FF8 = hw_access.Mapped 0x41005FF8 0xFF
           \<lparr>hp_el1_write = True, hp_el1_exec = False, hp_el0_read = True, hp_el0_write = True,
            hp_el0_exec = False, hp_global = False\<rparr> \<and>
         hw_translate active 0x900000 = Fault)"
proof -
  have "pmm_inv demo_pmm" using demo_pmm_facts(1,2) by (simp add: pmm_inv_def)
  then obtain p1 m1 root where a: "pmm_alloc_frame demo_pmm (\<lambda>_. 0) = Some ((p1, m1), Some root)"
    using pmm_provides [of demo_pmm "\<lambda>_. 0"] by (auto simp: demo_pmm_def)
  have "list_all page_op_valid demo_pages" by (simp add: demo_pages_def PAGE_SIZE_def)
  moreover have "bit (sctlr_el1 demo_regs) 0" "regime_48 (tcr_el1 demo_regs)" "mair_el1 demo_regs = MAIR_EL1_VALUE"
    by (simp_all add: demo_regs_def tcr_regimes)
  ultimately obtain p' m' rs V where
    run: "page_run (qemu_create_address_space root) (p1, m1) demo_pages = Some ((p', m'), rs)" "map_run Map.empty demo_pages rs = Some V"
    and hw: "\<And>va. va < 2 ^ 48 \<Longrightarrow> hw_translate (physical m', qemu_activate (qemu_create_address_space root) demo_regs) va =
      (case V (page_number va) of None \<Rightarrow> Fault
       | Some (f, fl) \<Rightarrow> hw_access.Mapped (frame_addr f + va mod PAGE_SIZE)
           (if mf_contains fl mf_DEVICE then 0x00 else 0xFF) (flag_perms fl))"
    using activated_space_translates [OF demo_pmm_facts(1,2) a, of demo_pages demo_regs] unfolding Let_def by blast
  have perms: "flag_perms (mf_union mf_USER mf_EXECUTE) =
      \<lparr>hp_el1_write = False, hp_el1_exec = False, hp_el0_read = True, hp_el0_write = False, hp_el0_exec = True, hp_global = False\<rparr>"
    "flag_perms (mf_union mf_USER mf_WRITE) =
      \<lparr>hp_el1_write = True, hp_el1_exec = False, hp_el0_read = True, hp_el0_write = True, hp_el0_exec = False, hp_global = False\<rparr>"
    "\<not> mf_contains (mf_union mf_USER mf_EXECUTE) mf_DEVICE" "\<not> mf_contains (mf_union mf_USER mf_WRITE) mf_DEVICE"
    unfolding flag_perms_def Let_def mf_contains_bits bit_mf_union bit_mf_consts by simp_all
  let ?active = "(physical m', qemu_activate (qemu_create_address_space root) demo_regs)"
  have "hw_translate ?active 0x800010 = hw_access.Mapped 0x41004010 0xFF (flag_perms (mf_union mf_USER mf_EXECUTE))"
    "hw_translate ?active 0xA00FF8 = hw_access.Mapped 0x41005FF8 0xFF (flag_perms (mf_union mf_USER mf_WRITE))"
    "hw_translate ?active 0x900000 = Fault"
    by (simp_all add: hw demo_pages_mapped [OF a run] page_number_def perms(3,4) PAGE_SIZE_def)
  then show ?thesis
    using a run(1) unfolding Let_def perms(1,2) by blast
qed

end
