(* ===== verification/Boot.thy ===== *)
theory Boot
  imports TaskLoader SyscallEntry BootMmu Gic
begin

text \<open>
  \<open>kernel_main_high\<close> of \<open>bsp-qemu-virt/src/main.rs\<close>: from the high half to the
  first dispatch. Each step of the source is a definition, in its order: the
  memory manager, the bootstrap address space and its capability, the loaded user
  image, the interrupt controller, the tasks, the IPC objects, the scheduler. A
  failed \<open>expect\<close> or \<open>assert!\<close> is \<^term>\<open>None\<close>.

  Symbols of the linker and addresses of statics are a record, with the values
  the high half gives them. The banners printed between the steps are left out.
\<close>

section \<open>Constants and statics\<close>

definition PMM_EXTENT_START :: nat where "PMM_EXTENT_START = 0x40000000"
definition PMM_EXTENT_END :: nat where "PMM_EXTENT_END = 0x48000000"
definition KERNEL_IMAGE_START :: nat where "KERNEL_IMAGE_START = 0x40080000"
definition PMM_BITMAP_BYTES :: nat where
  "PMM_BITMAP_BYTES = div_ceil ((PMM_EXTENT_END - PMM_EXTENT_START) div PAGE_SIZE) 8"
definition PMM_RESERVED_RANGES :: nat where "PMM_RESERVED_RANGES = 8"
definition USERSPACE_IMAGE_BASE_VA :: nat where "USERSPACE_IMAGE_BASE_VA = 0x00800000"
definition USERSPACE_STACK_PAGES :: nat where "USERSPACE_STACK_PAGES = 1"

record boot_symbols =
  sy_stack_top :: nat
  sy_boot_pt_l0 :: nat
  sy_user_image :: "nat \<times> nat"
  sy_task_a :: nat
  sy_task_b :: nat
  sy_idle_entry :: nat
  sy_task_a_stack :: nat
  sy_task_b_stack :: nat
  sy_idle_stack :: nat
  sy_user_stack :: nat
  sy_user_task_table :: nat

text \<open>\<open>TaskStack::top\<close>.\<close>

definition stack_top :: "nat \<Rightarrow> nat" where
  "stack_top base = base + 4096"

text \<open>
  The statics. The board record holds those that \<open>syscall_entry\<close> reads; with the
  memory manager and the invalidations requested it makes up what the address-space
  wrappers work on.
\<close>

record 'c statics =
  ks_board :: "('c, qemu_address_space) board"
  ks_pmm :: pmm
  ks_tlb :: tlb_log
  ks_gic :: qemu_virt_gic
  ks_cpu :: qemu_virt_cpu
  ks_boot_ns :: "64 word"
  ks_bootstrap_table :: cap_table
  ks_bootstrap_cap :: cap_handle
  ks_tasks :: task_arena
  ks_table_a :: cap_table
  ks_table_b :: cap_table
  ks_ep_cap_a :: cap_handle
  ks_ep_cap_b :: cap_handle
  ks_mmio :: mmio_log

definition ks_vm :: "'c statics \<Rightarrow> (qemu_address_space, pmm) vm" where
  "ks_vm k = \<lparr>vm_frames = ks_pmm k, vm_memory = bd_memory (ks_board k), vm_spaces = bd_as_arena (ks_board k), vm_tlb = ks_tlb k\<rparr>"

text \<open>\<open>expect\<close>.\<close>

definition unwrap :: "'e + 'a \<Rightarrow> 'a option" where
  "unwrap r = (case r of Inl _ \<Rightarrow> None | Inr x \<Rightarrow> Some x)"

lemma unwrap_simps [simp]: "unwrap (Inl e) = None" "unwrap (Inr x) = Some x"
  by (simp_all add: unwrap_def)

section \<open>The memory manager\<close>

definition boot_pmm :: "nat \<Rightarrow> pmm option" where
  "boot_pmm stack_top_va = do {
     stack_top_addr \<leftarrow> kernel_va_to_phys stack_top_va;
     let up = saturating_add stack_top_addr (PAGE_SIZE - 1);
     let stack_top_aligned_up = up - up mod PAGE_SIZE;
     let extent = \<lparr>pr_start = PMM_EXTENT_START, pr_end = PMM_EXTENT_END\<rparr>;
     let reserved = [\<lparr>pr_start = PMM_EXTENT_START, pr_end = KERNEL_IMAGE_START\<rparr>,
                     \<lparr>pr_start = KERNEL_IMAGE_START, pr_end = stack_top_aligned_up\<rparr>];
     r \<leftarrow> pmm_new PMM_BITMAP_BYTES PMM_RESERVED_RANGES extent reserved;
     unwrap r
   }"

section \<open>The bootstrap address space\<close>

definition bootstrap_as_rights :: cap_rights where
  "bootstrap_as_rights =
     rights_union (rights_union (rights_union rights_DUPLICATE rights_DERIVE) rights_REVOKE) rights_TRANSFER"

definition boot_root :: "nat \<Rightarrow> qemu_address_space option" where
  "boot_root l0_va = do {
     pa \<leftarrow> kernel_va_to_phys l0_va;
     l0_root \<leftarrow> frame_from_aligned pa;
     Some (from_existing_root l0_root)
   }"

definition boot_address_space ::
    "qemu_address_space \<Rightarrow> (qemu_address_space address_space_arena \<times> cap_table \<times> cap_handle) option" where
  "boot_address_space inner = do {
     let (arena, r) = create_address_space (arena_new ADDRESS_SPACE_ARENA_CAPACITY) (wrap_bootstrap inner);
     bootstrap_as_handle \<leftarrow> unwrap r;
     (table, c) \<leftarrow> insert_root cap_table_new
        \<lparr>cap_rights = bootstrap_as_rights, cap_object = CapAddressSpace bootstrap_as_handle\<rparr>;
     bootstrap_as_cap \<leftarrow> unwrap c;
     Some (arena, table, bootstrap_as_cap)
   }"

section \<open>The user image\<close>

definition boot_load ::
    "nat \<times> nat \<Rightarrow> cap_table \<Rightarrow> (qemu_address_space, pmm) vm \<Rightarrow> cap_handle \<Rightarrow>
       (cap_table \<times> (qemu_address_space, pmm) vm \<times> loaded_image) option" where
  "boot_load img table v parent_cap = do {
     ((table, v), r) \<leftarrow> load_image qemu_mmu img table v parent_cap rights_empty USERSPACE_IMAGE_BASE_VA USERSPACE_STACK_PAGES;
     loaded \<leftarrow> unwrap r;
     Some (table, v, loaded)
   }"

section \<open>The interrupt controller\<close>

definition boot_gic :: "mmio_reads \<Rightarrow> mmio_log \<Rightarrow> (qemu_virt_gic \<times> mmio_log) option" where
  "boot_gic dev log = do {
     d \<leftarrow> phys_to_kernel_va QEMU_VIRT_GIC_DISTRIBUTOR_BASE;
     c \<leftarrow> phys_to_kernel_va QEMU_VIRT_GIC_CPU_INTERFACE_BASE;
     let gic = gic_new d c;
     log \<leftarrow> gic_init gic dev log;
     Some (gic, log)
   }"

section \<open>Tasks\<close>

record boot_handles =
  bh_a :: task_handle
  bh_b :: task_handle
  bh_idle :: task_handle
  bh_user :: task_handle
  bh_user_as :: address_space_handle

definition new_kernel_task :: "task_arena \<Rightarrow> 32 word \<Rightarrow> (task_arena \<times> task_handle) option" where
  "new_kernel_task tasks i = do {
     let (tasks, r) = create_task tasks \<lparr>task_id = i, task_address_space_handle = BOOTSTRAP_ADDRESS_SPACE_HANDLE\<rparr>;
     h \<leftarrow> unwrap r;
     Some (tasks, h)
   }"

definition user_task_rights :: cap_rights where
  "user_task_rights = rights_union (rights_union rights_DUPLICATE rights_DERIVE) rights_REVOKE"

definition boot_tasks :: "cap_table \<Rightarrow> loaded_image \<Rightarrow> (cap_table \<times> task_arena \<times> boot_handles) option" where
  "boot_tasks table loaded = do {
     (tasks, ha) \<leftarrow> new_kernel_task (arena_new TASK_ARENA_CAPACITY) 0;
     (tasks, hb) \<leftarrow> new_kernel_task tasks 1;
     (tasks, hi) \<leftarrow> new_kernel_task tasks 2;
     cap \<leftarrow> unwrap (cap_lookup table (li_as_cap loaded));
     user_as_handle \<leftarrow> (case cap_object cap of CapAddressSpace h \<Rightarrow> Some h | _ \<Rightarrow> None);
     ((table, tasks), r) \<leftarrow> task_create_from_image loaded table tasks 3 user_task_rights;
     task_cap \<leftarrow> unwrap r;
     cap \<leftarrow> unwrap (cap_lookup table task_cap);
     user_task_handle \<leftarrow> (case cap_object cap of CapTask h \<Rightarrow> Some h | _ \<Rightarrow> None);
     Some (table, tasks, \<lparr>bh_a = ha, bh_b = hb, bh_idle = hi, bh_user = user_task_handle, bh_user_as = user_as_handle\<rparr>)
   }"

section \<open>IPC and the tasks' own capabilities\<close>

definition ep_rights :: cap_rights where
  "ep_rights = rights_union rights_SEND rights_RECV"

definition new_root_table :: "capability \<Rightarrow> (cap_table \<times> cap_handle) option" where
  "new_root_table c = do {
     (t, r) \<leftarrow> insert_root cap_table_new c;
     h \<leftarrow> unwrap r;
     Some (t, h)
   }"

record boot_ipc_objects =
  bi_ep_arena :: endpoint_arena
  bi_table_a :: cap_table
  bi_ep_cap_a :: cap_handle
  bi_table_b :: cap_table
  bi_ep_cap_b :: cap_handle
  bi_user_table :: cap_table

definition boot_ipc :: "boot_ipc_objects option" where
  "boot_ipc = do {
     let (ep_arena, r) = create_endpoint (arena_new ENDPOINT_ARENA_CAPACITY) \<lparr>ep_id = 0\<rparr>;
     ep_handle \<leftarrow> unwrap r;
     (table_a, ep_cap_a) \<leftarrow> new_root_table \<lparr>cap_rights = ep_rights, cap_object = CapEndpoint ep_handle\<rparr>;
     (table_b, ep_cap_b) \<leftarrow> new_root_table \<lparr>cap_rights = ep_rights, cap_object = CapEndpoint ep_handle\<rparr>;
     (user_table, console_cap) \<leftarrow> new_root_table \<lparr>cap_rights = rights_CONSOLE_WRITE, cap_object = CapDebugConsole\<rparr>;
     (if ch_index console_cap = 0 \<and> ch_generation console_cap = 0 then Some () else None);
     Some \<lparr>bi_ep_arena = ep_arena, bi_table_a = table_a, bi_ep_cap_a = ep_cap_a, bi_table_b = table_b,
           bi_ep_cap_b = ep_cap_b, bi_user_table = user_table\<rparr>
   }"

section \<open>The scheduler\<close>

definition boot_sched ::
    "'c cpu \<Rightarrow> boot_symbols \<Rightarrow> boot_handles \<Rightarrow> loaded_image \<Rightarrow> 'c scheduler option" where
  "boot_sched cpu sy h loaded = do {
     (s, r) \<leftarrow> add_task cpu (sched_new cpu) (bh_b h) BOOTSTRAP_ADDRESS_SPACE_HANDLE (sy_task_b sy) (stack_top (sy_task_b_stack sy));
     unwrap r;
     (s, r) \<leftarrow> add_task cpu s (bh_a h) BOOTSTRAP_ADDRESS_SPACE_HANDLE (sy_task_a sy) (stack_top (sy_task_a_stack sy));
     unwrap r;
     (s, r) \<leftarrow> add_user_task cpu s (bh_user h) (bh_user_as h) (li_entry_va loaded) (li_stack_top_va loaded)
                 (stack_top (sy_user_stack sy)) (sy_user_task_table sy);
     unwrap r;
     register_idle cpu s (bh_idle h) BOOTSTRAP_ADDRESS_SPACE_HANDLE (sy_idle_entry sy) (stack_top (sy_idle_stack sy))
   }"

section \<open>The whole boot\<close>

text \<open>
  What the hardware answers during the boot: the exception level, the timer's
  frequency and count, and the interrupt controller's registers.
\<close>

record boot_hw =
  hw_current_el :: "64 word"
  hw_cntfrq :: "64 word"
  hw_cntvct :: "64 word"
  hw_devices :: mmio_reads

text \<open>Everything before \<open>start\<close>. \<open>m\<close> is memory as the high half shows it.\<close>

definition boot_statics :: "'c cpu \<Rightarrow> boot_symbols \<Rightarrow> boot_hw \<Rightarrow> memory \<Rightarrow> 'c statics option" where
  "boot_statics cpu sy hw m = do {
     qcpu \<leftarrow> qemu_virt_cpu_new (hw_current_el hw) (hw_cntfrq hw);
     boot_ns \<leftarrow> now_ns qcpu (hw_cntvct hw);
     p \<leftarrow> boot_pmm (sy_stack_top sy);
     inner \<leftarrow> boot_root (sy_boot_pt_l0 sy);
     (arena, table, as_cap) \<leftarrow> boot_address_space inner;
     (table, v, loaded) \<leftarrow> boot_load (sy_user_image sy) table
        \<lparr>vm_frames = p, vm_memory = m, vm_spaces = arena, vm_tlb = []\<rparr> as_cap;
     (gic, log) \<leftarrow> boot_gic (hw_devices hw) [];
     (table, tasks, h) \<leftarrow> boot_tasks table loaded;
     ipc \<leftarrow> boot_ipc;
     s \<leftarrow> boot_sched cpu sy h loaded;
     Some
       \<lparr>ks_board =
          \<lparr>bd_sched = s, bd_ep_arena = bi_ep_arena ipc, bd_queues = ipc_queues_new,
           bd_tables = [sy_user_task_table sy \<mapsto> bi_user_table ipc], bd_failclosed_table = cap_table_new,
           bd_as_arena = vm_spaces v, bd_bootstrap_as = inner, bd_active_as = inner,
           bd_memory = vm_memory v, bd_console = []\<rparr>,
        ks_pmm = vm_frames v, ks_tlb = vm_tlb v, ks_gic = gic, ks_cpu = qcpu, ks_boot_ns = boot_ns,
        ks_bootstrap_table = table, ks_bootstrap_cap = as_cap, ks_tasks = tasks,
        ks_table_a = bi_table_a ipc, ks_table_b = bi_table_b ipc,
        ks_ep_cap_a = bi_ep_cap_a ipc, ks_ep_cap_b = bi_ep_cap_b ipc, ks_mmio = log\<rparr>
   }"

text \<open>
  \<open>start\<close>: the first dispatch. Until it activates an address space the low half is
  off; \<^const>\<open>bd_active_as\<close> has no value for that, and holds the bootstrap one.
\<close>

definition boot_start :: "'c statics \<Rightarrow> ('c statics \<times> switch) option" where
  "boot_start k = do {
     (s, sw) \<leftarrow> sched_start (bd_sched (ks_board k));
     Some (k\<lparr>ks_board := board_activate (sw_activate sw) ((ks_board k)\<lparr>bd_sched := s\<rparr>)\<rparr>, sw)
   }"

definition kernel_main_high :: "'c cpu \<Rightarrow> boot_symbols \<Rightarrow> boot_hw \<Rightarrow> memory \<Rightarrow> ('c statics \<times> switch) option" where
  "kernel_main_high cpu sy hw m = do {
     k \<leftarrow> boot_statics cpu sy hw m;
     boot_start k
   }"

end
