(* ===== verification/Userland.thy ===== *)
theory Userland
  imports SyscallEntry
begin

text \<open>
  The user program: the wrappers of \<open>userland/tyrne-user/src/lib.rs\<close> and the program
  of \<open>userland/hello/src/main.rs\<close>. A trap is the kernel's \<^const>\<open>syscall_entry\<close> on the
  registers at the \<open>svc\<close>; what the compiler leaves in the registers that a wrapper
  does not set is an argument, and so is the address of the greeting, which the
  linker places.
\<close>

section \<open>The system-call wrappers\<close>

definition SYS_TASK_EXIT :: "64 word" where "SYS_TASK_EXIT = 4"
definition SYS_CONSOLE_WRITE :: "64 word" where "SYS_CONSOLE_WRITE = 5"
definition HELLO_CONSOLE_CAP :: "64 word" where "HELLO_CONSOLE_CAP = 0"

text \<open>The registers at the trap, over those the compiler left, and the result read back.\<close>

definition user_console_write :: "syscall_trap_frame \<Rightarrow> 64 word \<Rightarrow> nat \<times> nat \<Rightarrow> syscall_trap_frame" where
  "user_console_write f cap buf =
     f\<lparr>x8_x9 := (SYS_CONSOLE_WRITE, snd (x8_x9 f)), x0_x1 := (cap, of_nat (fst buf)),
       x2_x3 := (of_nat (snd buf), snd (x2_x3 f))\<rparr>"

definition console_write_result :: "syscall_trap_frame \<Rightarrow> 64 word + nat" where
  "console_write_result f = (if fst (x0_x1 f) = 0 then Inr (unat (snd (x0_x1 f))) else Inl (fst (x0_x1 f)))"

definition user_task_exit :: "syscall_trap_frame \<Rightarrow> 64 word \<Rightarrow> syscall_trap_frame" where
  "user_task_exit f code = f\<lparr>x8_x9 := (SYS_TASK_EXIT, snd (x8_x9 f)), x0_x1 := (code, snd (x0_x1 f))\<rparr>"

section \<open>The program\<close>

text \<open>\<open>b"hello from userspace\n"\<close>\<close>

definition GREETING :: "8 word list" where
  "GREETING = [104, 101, 108, 108, 111, 32, 102, 114, 111, 109, 32, 117, 115, 101, 114, 115, 112, 97, 99, 101, 10]"

text \<open>
  What one stretch of the program comes to: it has trapped and the processor went to
  another task, for good or to come back with these registers.
\<close>

datatype hello_exit = HelloLeft switch syscall_trap_frame | HelloGone switch

text \<open>The code past \<open>task_exit\<close> does not exist (\<open>noreturn\<close>): to arrive there is \<^term>\<open>None\<close>.\<close>

definition hello_finish ::
    "bool \<Rightarrow> ('a \<Rightarrow> translator) \<Rightarrow> syscall_trap_frame \<Rightarrow> ('c, 'a) board \<Rightarrow> (('c, 'a) board \<times> hello_exit) option" where
  "hello_finish debug translate f b = do {
     (b, e) \<leftarrow> syscall_entry debug translate b (user_task_exit f 0);
     case e of
       TaskGone sw \<Rightarrow> Some (b, HelloGone sw)
     | SwitchedAway _ _ \<Rightarrow> None
     | ReturnToTask _ \<Rightarrow> None
   }"

text \<open>
  \<open>_start\<close>, with \<open>f\<close> the registers at the first trap and \<open>g\<close> what the compiled code
  makes of them before the second. The result of the write is ignored.
\<close>

definition hello_start ::
    "bool \<Rightarrow> ('a \<Rightarrow> translator) \<Rightarrow> nat \<Rightarrow> syscall_trap_frame \<Rightarrow> (syscall_trap_frame \<Rightarrow> syscall_trap_frame) \<Rightarrow>
       ('c, 'a) board \<Rightarrow> (('c, 'a) board \<times> hello_exit) option" where
  "hello_start debug translate greeting f g b = do {
     (b, e) \<leftarrow> syscall_entry debug translate b (user_console_write f HELLO_CONSOLE_CAP (greeting, length GREETING));
     case e of
       ReturnToTask f' \<Rightarrow> hello_finish debug translate (g f') b
     | SwitchedAway sw f' \<Rightarrow> Some (b, HelloLeft sw f')
     | TaskGone sw \<Rightarrow> Some (b, HelloGone sw)
   }"

text \<open>The panic handler exits with a code of its own.\<close>

definition hello_panic ::
    "bool \<Rightarrow> ('a \<Rightarrow> translator) \<Rightarrow> syscall_trap_frame \<Rightarrow> ('c, 'a) board \<Rightarrow> (('c, 'a) board \<times> entry_exit) option" where
  "hello_panic debug translate f b = syscall_entry debug translate b (user_task_exit f 101)"

end
