(* ===== verification/Demo.thy ===== *)
theory Demo
  imports Boot Userland
begin

text \<open>
  The demonstration of \<open>bsp-qemu-virt/src/main.rs\<close>: the kernel tasks A and B, the
  idle task and the user program, each run from where it last gave up the processor
  to where it does so again. A stretch of a task is a definition; what it prints goes
  to \<^const>\<open>bd_console\<close>. A failed \<open>expect\<close> or \<open>panic!\<close> is \<^term>\<open>None\<close>.
\<close>

section \<open>Formatted output\<close>

definition text_bytes :: "string \<Rightarrow> 8 word list" where
  "text_bytes s = map of_char s"

text \<open>The em dash \<open>\u{2014}\<close> in UTF-8.\<close>

definition em_dash :: "8 word list" where
  "em_dash = [0xE2, 0x80, 0x94]"

definition digit_byte :: "nat \<Rightarrow> 8 word" where
  "digit_byte d = of_nat (if d < 10 then 48 + d else 87 + d)"

text \<open>\<open>{}\<close> and \<open>{:x}\<close> of an unsigned integer.\<close>

fun radix_digits :: "nat \<Rightarrow> nat \<Rightarrow> 8 word list" where
  "radix_digits b n =
     (if b < 2 \<or> n < b then [digit_byte n] else radix_digits b (n div b) @ [digit_byte (n mod b)])"

declare radix_digits.simps [simp del]

definition newline :: "8 word list" where
  "newline = [10]"

definition print :: "8 word list \<Rightarrow> 'c statics \<Rightarrow> 'c statics" where
  "print bs k = k\<lparr>ks_board := (ks_board k)\<lparr>bd_console := bd_console (ks_board k) @ bs\<rparr>\<rparr>"

section \<open>The scheduler's entry points, called on the statics\<close>

datatype demo_side = SideA | SideB

definition side_table :: "demo_side \<Rightarrow> 'c statics \<Rightarrow> cap_table \<times> cap_handle" where
  "side_table w k = (case w of SideA \<Rightarrow> (ks_table_a k, ks_ep_cap_a k) | SideB \<Rightarrow> (ks_table_b k, ks_ep_cap_b k))"

definition put_side :: "demo_side \<Rightarrow> 'c scheduler \<Rightarrow> ipc_queues \<Rightarrow> cap_table \<Rightarrow> switch option \<Rightarrow> 'c statics \<Rightarrow> 'c statics" where
  "put_side w s q t sw k =
     (let b = board_activate (Option.bind sw sw_activate) ((ks_board k)\<lparr>bd_sched := s, bd_queues := q\<rparr>)
      in case w of SideA \<Rightarrow> k\<lparr>ks_board := b, ks_table_a := t\<rparr> | SideB \<Rightarrow> k\<lparr>ks_board := b, ks_table_b := t\<rparr>)"

definition side_send :: "demo_side \<Rightarrow> message \<Rightarrow> 'c statics \<Rightarrow> ('c statics \<times> switch option) option" where
  "side_send w msg k = do {
     let b = ks_board k;
     let (t, c) = side_table w k;
     ((s, q, t), r) \<leftarrow> ipc_send_and_yield (bd_sched b) (bd_ep_arena b) (bd_queues b) t c msg None;
     (_, sw) \<leftarrow> unwrap r;
     Some (put_side w s q t sw k, sw)
   }"

definition side_recv :: "demo_side \<Rightarrow> 'c statics \<Rightarrow> ('c statics \<times> recv_progress) option" where
  "side_recv w k = do {
     let b = ks_board k;
     let (t, c) = side_table w k;
     ((s, q, t), r) \<leftarrow> ipc_recv_and_yield (bd_sched b) (bd_ep_arena b) (bd_queues b) t c;
     p \<leftarrow> unwrap r;
     Some (put_side w s q t (case p of RecvSwitch sw \<Rightarrow> Some sw | RecvDone _ \<Rightarrow> None) k, p)
   }"

definition side_resume :: "demo_side \<Rightarrow> 'c statics \<Rightarrow> ('c statics \<times> recv_outcome) option" where
  "side_resume w k = do {
     let b = ks_board k;
     let (t, c) = side_table w k;
     ((q, t), r) \<leftarrow> ipc_recv_resume (bd_ep_arena b) (bd_queues b) t c;
     o' \<leftarrow> unwrap r;
     Some (put_side w (bd_sched b) q t None k, o')
   }"

definition side_yield :: "'c statics \<Rightarrow> ('c statics \<times> switch option) option" where
  "side_yield k = do {
     let b = ks_board k;
     (s, r) \<leftarrow> yield_now (bd_sched b);
     sw \<leftarrow> unwrap r;
     Some (k\<lparr>ks_board := board_activate (Option.bind sw sw_activate) (b\<lparr>bd_sched := s\<rparr>)\<rparr>, sw)
   }"

section \<open>The kernel tasks\<close>

text \<open>
  Where a task goes on when it next runs: at its entry, after a send that yielded,
  after the switch of a receive, after a yield, after a trap, or nowhere: it is in its
  final spin loop or gone. A stretch
  returns that, and the switch that ended it.
\<close>

datatype demo_phase = AtEntry | AfterSend | AfterRecv | AfterYield | AfterTrap syscall_trap_frame | Ended

type_synonym 'c stretch = "('c statics \<times> demo_phase \<times> switch option) option"

definition msg_a :: message where "msg_a = \<lparr>msg_label = 0xAAAA, msg_params = (1, 2, 3)\<rparr>"
definition msg_b :: message where "msg_b = \<lparr>msg_label = 0xBBBB, msg_params = (0, 0, 0)\<rparr>"

definition line_b_waiting :: "8 word list" where
  "line_b_waiting = text_bytes ''tyrne: task B '' @ em_dash @ text_bytes '' waiting for IPC'' @ newline"
definition line_b_received :: "64 word \<Rightarrow> 8 word list" where
  "line_b_received label =
     text_bytes ''tyrne: task B '' @ em_dash @ text_bytes '' received IPC (label=0x'' @ radix_digits 16 (unat label) @
     text_bytes ''); replying'' @ newline"
definition line_a_sending :: "8 word list" where
  "line_a_sending = text_bytes ''tyrne: task A -- sending IPC'' @ newline"
definition line_a_received :: "64 word \<Rightarrow> 8 word list" where
  "line_a_received label =
     text_bytes ''tyrne: task A '' @ em_dash @ text_bytes '' received reply (label=0x'' @ radix_digits 16 (unat label) @
     text_bytes ''); done'' @ newline"
definition line_complete :: "8 word list" where
  "line_complete = text_bytes ''tyrne: all tasks complete'' @ newline"
definition line_elapsed :: "64 word \<Rightarrow> 8 word list" where
  "line_elapsed ns = text_bytes ''tyrne: boot-to-end elapsed = '' @ radix_digits 10 (unat ns) @ text_bytes '' ns'' @ newline"

definition b_sent :: "'c statics \<Rightarrow> 'c stretch" where
  "b_sent k = do {
     (k, sw) \<leftarrow> side_yield k;
     Some (k, if sw = None then Ended else AfterYield, sw)
   }"

definition b_received :: "'c statics \<Rightarrow> recv_outcome \<Rightarrow> 'c stretch" where
  "b_received k o' = do {
     msg \<leftarrow> (case o' of Received msg _ \<Rightarrow> Some msg | Pending \<Rightarrow> None);
     (k, sw) \<leftarrow> side_send SideB msg_b (print (line_b_received (msg_label msg)) k);
     (if sw = None then b_sent k else Some (k, AfterSend, sw))
   }"

definition task_b :: "demo_phase \<Rightarrow> 'c statics \<Rightarrow> 'c stretch" where
  "task_b ph k =
     (case ph of
        AtEntry \<Rightarrow> do {
          (k, p) \<leftarrow> side_recv SideB (print line_b_waiting k);
          case p of RecvSwitch sw \<Rightarrow> Some (k, AfterRecv, Some sw) | RecvDone o' \<Rightarrow> b_received k o'
        }
      | AfterRecv \<Rightarrow> do { (k, o') \<leftarrow> side_resume SideB k; b_received k o' }
      | AfterSend \<Rightarrow> b_sent k
      | _ \<Rightarrow> Some (k, Ended, None))"

text \<open>\<open>cnt\<close> is what the counter reads at the end.\<close>

definition a_received :: "64 word \<Rightarrow> 'c statics \<Rightarrow> recv_outcome \<Rightarrow> 'c stretch" where
  "a_received cnt k o' = do {
     msg \<leftarrow> (case o' of Received msg _ \<Rightarrow> Some msg | Pending \<Rightarrow> None);
     let k = print line_complete (print (line_a_received (msg_label msg)) k);
     now \<leftarrow> now_ns (ks_cpu k) cnt;
     let elapsed = (if ks_boot_ns k \<le> now then now - ks_boot_ns k else 0);
     Some (print (line_elapsed elapsed) k, Ended, None)
   }"

definition a_sent :: "64 word \<Rightarrow> 'c statics \<Rightarrow> 'c stretch" where
  "a_sent cnt k = do {
     (k, p) \<leftarrow> side_recv SideA k;
     case p of RecvSwitch sw \<Rightarrow> Some (k, AfterRecv, Some sw) | RecvDone o' \<Rightarrow> a_received cnt k o'
   }"

definition task_a :: "64 word \<Rightarrow> demo_phase \<Rightarrow> 'c statics \<Rightarrow> 'c stretch" where
  "task_a cnt ph k =
     (case ph of
        AtEntry \<Rightarrow> do {
          (k, sw) \<leftarrow> side_send SideA msg_a (print line_a_sending k);
          (if sw = None then a_sent cnt k else Some (k, AfterSend, sw))
        }
      | AfterSend \<Rightarrow> a_sent cnt k
      | AfterRecv \<Rightarrow> do { (k, o') \<leftarrow> side_resume SideA k; a_received cnt k o' }
      | _ \<Rightarrow> Some (k, Ended, None))"

text \<open>One turn of the idle loop: the \<open>wfi\<close>, then a yield.\<close>

definition idle_entry :: "'c statics \<Rightarrow> 'c stretch" where
  "idle_entry k = do { (k, sw) \<leftarrow> side_yield k; Some (k, AtEntry, sw) }"

section \<open>All tasks together\<close>

text \<open>What the run takes from outside: the build, the translation, the user program's address and registers, the counter.\<close>

record run_env =
  de_debug :: bool
  de_translate :: "qemu_address_space \<Rightarrow> translator"
  de_greeting :: nat
  de_frame :: syscall_trap_frame
  de_between :: "syscall_trap_frame \<Rightarrow> syscall_trap_frame"
  de_cntvct :: "64 word"

text \<open>The user task; its only way to give up the processor is a trap.\<close>

definition user_task :: "run_env \<Rightarrow> demo_phase \<Rightarrow> 'c statics \<Rightarrow> 'c stretch" where
  "user_task e ph k = do {
     (b, x) \<leftarrow> (case ph of
        AtEntry \<Rightarrow> hello_start (de_debug e) (de_translate e) (de_greeting e) (de_frame e) (de_between e) (ks_board k)
      | AfterTrap f \<Rightarrow> hello_finish (de_debug e) (de_translate e) (de_between e f) (ks_board k)
      | _ \<Rightarrow> None);
     case x of
       HelloGone sw \<Rightarrow> Some (k\<lparr>ks_board := b\<rparr>, Ended, Some sw)
     | HelloLeft sw f \<Rightarrow> Some (k\<lparr>ks_board := b\<rparr>, AfterTrap f, Some sw)
   }"

record 'c demo_run =
  rn_statics :: "'c statics"
  rn_phase :: "nat \<Rightarrow> demo_phase"

text \<open>The running task's next stretch. Which code a slot runs is what \<^const>\<open>boot_sched\<close> put in its context.\<close>

definition run_step :: "run_env \<Rightarrow> 'c demo_run \<Rightarrow> 'c demo_run option" where
  "run_step e d = do {
     let k = rn_statics d;
     c \<leftarrow> sd_current (bd_sched (ks_board k));
     let i = th_index c;
     let ph = rn_phase d i;
     (k, ph, _) \<leftarrow> (if i = 0 then task_a (de_cntvct e) ph k
                   else if i = 1 then task_b ph k
                   else if i = 2 then idle_entry k
                   else user_task e ph k);
     Some \<lparr>rn_statics = k, rn_phase = (rn_phase d)(i := ph)\<rparr>
   }"

fun run_steps :: "run_env \<Rightarrow> nat \<Rightarrow> 'c demo_run \<Rightarrow> 'c demo_run option" where
  "run_steps e 0 d = Some d"
| "run_steps e (Suc n) d = do { d \<leftarrow> run_step e d; run_steps e n d }"

end
