(* ===== verification/Boot_Props.thy ===== *)
theory Boot_Props
  imports Boot SyscallEntry_Claims TaskLoader_Claims BootMmu_Claims Gic_Claims
begin

unbundle bit_operations_syntax

text \<open>
  The steps of the boot one by one, from what the linker and the start code leave
  to the state of the first dispatch, which \<open>boot_runs\<close> describes in full.
\<close>

section \<open>The boot tables as an address space\<close>

lemma boot_steps:
  assumes l: "boot_layout bf" and s: "says bf (physical m) high_entry" and i: "i < 512"
  shows "step m (PhysFrame (boot_pt_l0 bf)) i = (if i = 0 then Inr (PhysFrame (boot_pt_l1 bf)) else Inl NotMapped)"
    and "step m (PhysFrame (boot_pt_l1 bf)) i =
      (if i = 0 then Inr (PhysFrame (boot_pt_l2_low bf)) else if i = 1 then Inr (PhysFrame (boot_pt_l2_high bf)) else Inl NotMapped)"
    and "step m (PhysFrame (boot_pt_l2_low bf)) i = Inl (if 64 \<le> i \<and> i < 73 then BlockMapped else NotMapped)"
    and "step m (PhysFrame (boot_pt_l2_high bf)) i = Inl (if i < 64 then BlockMapped else NotMapped)"
proof -
  have fr: "t mod 4096 = 0" "t < 2 ^ 48" if "t \<in> set (frames_of bf)" for t
    using boot_frame_facts(1) [OF l that] by simp_all
  have in_frames: "boot_pt_l0 bf \<in> set (frames_of bf)" "boot_pt_l1 bf \<in> set (frames_of bf)"
    "boot_pt_l2_low bf \<in> set (frames_of bf)" "boot_pt_l2_high bf \<in> set (frames_of bf)" by (simp_all add: frames_of_def)
  have d: "distinct (frames_of bf)" using l by (simp add: boot_layout_def)
  have e: "entry m (PhysFrame t) i = high_entry bf t i" if "t \<in> set (frames_of bf)" for t
    using saysD [OF s that i] physical_entry [of m "PhysFrame t" i] by simp
  have tab: "(let e = table_descriptor (of_nat t) in
      if \<not> bit e 0 then Inl NotMapped else if \<not> bit e 1 then Inl BlockMapped
      else Inr (PhysFrame (unat (e AND TABLE_NLA_MASK)))) = (Inr (PhysFrame t) :: mmu_error + phys_frame)"
    if "t \<in> set (frames_of bf)" for t
    using bit_table_descriptor_01 [of "of_nat t"] address_masked(1) [OF fr [OF that]] by (simp add: Let_def table_address)
  have zero: "step m (PhysFrame t) i = Inl NotMapped" if "t \<in> set (frames_of bf)" "high_entry bf t i = 0" for t
    using e [OF that(1)] that(2) by (simp add: step_def)
  have ne: "boot_pt_l0 bf \<notin> {boot_pt_l0_hh bf, boot_pt_l1_hh bf}" "boot_pt_l1 bf \<notin> {boot_pt_l0_hh bf, boot_pt_l1_hh bf}"
    "boot_pt_l0 bf \<noteq> boot_pt_l1 bf" "boot_pt_l0 bf \<noteq> boot_pt_l2_low bf" "boot_pt_l0 bf \<noteq> boot_pt_l2_high bf"
    "boot_pt_l1 bf \<noteq> boot_pt_l2_low bf" "boot_pt_l1 bf \<noteq> boot_pt_l2_high bf" "boot_pt_l1 bf \<noteq> boot_pt_l0 bf"
    using d by (auto simp: frames_of_def)
  show "step m (PhysFrame (boot_pt_l0 bf)) i = (if i = 0 then Inr (PhysFrame (boot_pt_l1 bf)) else Inl NotMapped)"
    using ne tab [OF in_frames(2)] zero [OF in_frames(1)]
    by (simp add: step_def e [OF in_frames(1)] high_entry_def low_entry_def del: bit_0)
  show "step m (PhysFrame (boot_pt_l1 bf)) i =
      (if i = 0 then Inr (PhysFrame (boot_pt_l2_low bf)) else if i = 1 then Inr (PhysFrame (boot_pt_l2_high bf)) else Inl NotMapped)"
    using ne tab [OF in_frames(3)] tab [OF in_frames(4)] zero [OF in_frames(2)]
    by (simp add: step_def e [OF in_frames(2)] high_entry_def low_entry_def del: bit_0)
  note sh = shared_tables [OF l disjI2 [OF s] i]
  have t: "tentry (physical m) t i = entry m (PhysFrame t) i" for t using physical_entry [of m "PhysFrame t" i] by simp
  have block: "bit (block_descriptor a (flags_to_descriptor_bits f)) 0" "\<not> bit (block_descriptor a (flags_to_descriptor_bits f)) (Suc 0)"
    for a f by (simp_all add: bit_block_descriptor leaf_bit_def del: bit_0)
  show "step m (PhysFrame (boot_pt_l2_low bf)) i = Inl (if 64 \<le> i \<and> i < 73 then BlockMapped else NotMapped)"
    unfolding step_def sh(1) [unfolded t] by (simp add: Let_def block del: bit_0 of_nat_mult)
  show "step m (PhysFrame (boot_pt_l2_high bf)) i = Inl (if i < 64 then BlockMapped else NotMapped)"
    unfolding step_def sh(2) [unfolded t] by (simp add: Let_def block del: bit_0 of_nat_mult of_nat_add)
qed

lemma boot_descend:
  assumes l: "boot_layout bf" and s: "says bf (physical m) high_entry" and p: "is_path p"
  shows "descend m (PhysFrame (boot_pt_l0 bf)) p = Inr t \<longleftrightarrow>
    (p = [] \<and> t = PhysFrame (boot_pt_l0 bf)) \<or> (p = [0] \<and> t = PhysFrame (boot_pt_l1 bf)) \<or>
    (p = [0, 0] \<and> t = PhysFrame (boot_pt_l2_low bf)) \<or> (p = [0, 1] \<and> t = PhysFrame (boot_pt_l2_high bf))"
proof -
  note st = boot_steps [OF l s]
  consider "p = []" | i where "p = [i]" "i < 512" | i j where "p = [i, j]" "i < 512" "j < 512"
    | i j k where "p = [i, j, k]" "i < 512" "j < 512" "k < 512"
  proof -
    have "length p \<le> 3" "\<forall>i \<in> set p. i < 512" using p by (simp_all add: is_path_def)
    then show ?thesis using that
      by (cases p; cases "tl p"; cases "tl (tl p)"; cases "tl (tl (tl p))") auto
  qed
  then show ?thesis
    by cases (use st in \<open>auto split: if_splits\<close>)
qed

lemma boot_space:
  assumes l: "boot_layout bf" and s: "says bf (physical m) high_entry" and r: "qa_root a = PhysFrame (boot_pt_l0 bf)"
    and small: "\<forall>t \<in> set (frames_of bf). t < 0x100000000"
  shows "tree_wf m (qa_root a)" "tables m (qa_root a) \<subseteq> PhysFrame ` set (frames_of bf)" "\<exists>e. view_at m a va = Inl e"
proof -
  note bd = boot_descend [OF l s]
  have f: "t \<in> set (frames_of bf)" if "t \<in> {boot_pt_l0 bf, boot_pt_l1 bf, boot_pt_l2_low bf, boot_pt_l2_high bf}" for t
    using that by (auto simp: frames_of_def)
  have dir: "direct_frame (PhysFrame t)" if "t \<in> {boot_pt_l0 bf, boot_pt_l1 bf, boot_pt_l2_low bf, boot_pt_l2_high bf}" for t
    using f [OF that] boot_frame_facts(1) [OF l f [OF that]] small by (simp add: direct_frame_def)
  have d: "distinct [boot_pt_l0 bf, boot_pt_l1 bf, boot_pt_l2_low bf, boot_pt_l2_high bf]"
    using boot_frame_facts(2) [OF l] by (auto simp: frames_of_def)
  show "tree_wf m (qa_root a)"
    unfolding tree_wf_def r
  proof (intro conjI allI impI)
    fix p t assume "is_path p" "descend m (PhysFrame (boot_pt_l0 bf)) p = Inr t"
    then show "direct_frame t" using bd [of p t] dir by auto
  next
    fix p q t assume "is_path p" "is_path q"
      "descend m (PhysFrame (boot_pt_l0 bf)) p = Inr t" "descend m (PhysFrame (boot_pt_l0 bf)) q = Inr t"
    then show "p = q" using bd [of p t] bd [of q t] d by auto
  next
    fix p t i assume "is_path p" "length p = 3" "descend m (PhysFrame (boot_pt_l0 bf)) p = Inr t"
    then have False using bd [of p t] by auto
    then show "bit (entry m t i) 1" "bit (entry m t i) 10" by blast+
  qed
  show "tables m (qa_root a) \<subseteq> PhysFrame ` set (frames_of bf)"
    using bd by (auto simp: tables_def r frames_of_def)
  have "is_path (fst (page_of va))" "length (fst (page_of va)) = 3" using is_page_page_of [of va] by (simp_all add: is_page_def)
  then show "\<exists>e. view_at m a va = Inl e"
    using bd [of "fst (page_of va)"] by (cases "descend m (qa_root a) (fst (page_of va))") (auto simp: view_at_def page_view_def r)
qed

section \<open>What the boot relies on\<close>

text \<open>
  The linker places the kernel image, which holds the user image and the boot
  tables, from the load address up to the top of the boot stack, within the first
  64 MiB of the managed memory; memory is as \<open>mmu_bootstrap\<close> and the migration to
  the high half left it, seen through the direct map; the processor is at EL1 with
  a running timer.
\<close>

definition boot_ready :: "boot_frames \<Rightarrow> boot_symbols \<Rightarrow> boot_hw \<Rightarrow> memory \<Rightarrow> bool" where
  "boot_ready bf sy hw m \<longleftrightarrow>
     boot_layout bf \<and> sy_boot_pt_l0 sy = KERNEL_HIGH_HALF_OFFSET + boot_pt_l0 bf \<and>
     (\<forall>t \<in> set (frames_of bf). KERNEL_IMAGE_START \<le> t \<and> KERNEL_HIGH_HALF_OFFSET + t + PAGE_SIZE \<le> sy_stack_top sy) \<and>
     KERNEL_HIGH_HALF_OFFSET + KERNEL_IMAGE_START \<le> fst (sy_user_image sy) \<and> 0 < snd (sy_user_image sy) \<and>
     fst (sy_user_image sy) + snd (sy_user_image sy) \<le> sy_stack_top sy \<and>
     sy_stack_top sy \<le> KERNEL_HIGH_HALF_OFFSET + 0x44000000 \<and>
     (\<exists>m0 r. boot_zeroed bf m0 \<and>
        (\<forall>pa < 2 ^ 32. physical m pa = fst (high_half_activate bf (mmu_bootstrap bf (m0, r))) pa)) \<and>
     sy_user_task_table sy \<noteq> 0 \<and> hw_current_el hw = 1 \<and> 0 < hw_cntfrq hw"

lemma boot_ready_says:
  assumes "boot_ready bf sy hw m"
  shows "says bf (physical m) high_entry"
  unfolding says_def
proof (intro ballI allI impI)
  fix t j assume t: "t \<in> set (frames_of bf)" and j: "j < (512 :: nat)"
  obtain m0 r where m0: "boot_zeroed bf m0"
      "\<forall>pa < 2 ^ 32. physical m pa = fst (high_half_activate bf (mmu_bootstrap bf (m0, r))) pa"
    using assms unfolding boot_ready_def by blast
  have l: "boot_layout bf" using assms by (simp add: boot_ready_def)
  have "t + PAGE_SIZE \<le> 0x44000000" using assms t by (fastforce simp: boot_ready_def)
  then have "tentry (physical m) t j = tentry (high_half_tables bf (bootstrap_tables bf m0)) t j"
    unfolding tentry_def using m0(2) j
    by (intro read_u64_cong) (simp add: high_half_activate_def mmu_bootstrap_def PAGE_SIZE_def)
  then show "tentry (physical m) t j = high_entry bf t j" using high_half_entry [OF l m0(1) t j] by simp
qed

section \<open>The memory manager\<close>

text \<open>Where the kernel ends, rounded up to a page.\<close>

definition kernel_end :: "boot_symbols \<Rightarrow> nat" where
  "kernel_end sy = div_ceil (sy_stack_top sy - KERNEL_HIGH_HALF_OFFSET) PAGE_SIZE * PAGE_SIZE"

lemma round_up_page: "x + (PAGE_SIZE - 1) - (x + (PAGE_SIZE - 1)) mod PAGE_SIZE = div_ceil x PAGE_SIZE * PAGE_SIZE"
proof -
  define q r where "q = x div 4096" "r = x mod 4096"
  then have x: "x = q * 4096 + r" "r < 4096" by simp_all
  have a: "(q * 4096 + r + 4095) mod 4096 = (r + 4095) mod 4096"
    using mod_mult_self3 [of q 4096 "r + 4095"] by (simp only: add.assoc)
  have b: "(r + 4095) mod 4096 = (if r = 0 then 4095 else r - 1)"
    using x(2) by (cases "r = 0") (simp_all add: mod_if)
  show ?thesis using x(2) unfolding x(1) PAGE_SIZE_def div_ceil_def by (auto simp: a b)
qed

lemma kernel_end_bounds:
  assumes "boot_ready bf sy hw m"
  shows "kernel_end sy mod PAGE_SIZE = 0" "sy_stack_top sy - KERNEL_HIGH_HALF_OFFSET \<le> kernel_end sy"
    "kernel_end sy \<le> 0x44000000" "KERNEL_IMAGE_START \<le> kernel_end sy"
proof -
  let ?x = "sy_stack_top sy - KERNEL_HIGH_HALF_OFFSET"
  have x: "?x \<le> 0x44000000" "KERNEL_IMAGE_START \<le> ?x"
    using assms by (auto simp: boot_ready_def frames_of_def)
  show "kernel_end sy mod PAGE_SIZE = 0" by (simp add: kernel_end_def)
  show k: "?x \<le> kernel_end sy" using div_ceil_le_iff [of "div_ceil ?x PAGE_SIZE" ?x] by (simp add: kernel_end_def)
  then show "KERNEL_IMAGE_START \<le> kernel_end sy" using x(2) by simp
  have "div_ceil ?x PAGE_SIZE \<le> 0x44000"
    using div_ceil_le_iff [of "0x44000" ?x] x(1) by (simp add: PAGE_SIZE_def not_less)
  then show "kernel_end sy \<le> 0x44000000" by (simp add: kernel_end_def PAGE_SIZE_def)
qed

lemma boot_pmm_ok:
  assumes r: "boot_ready bf sy hw m"
  obtains p where "boot_pmm (sy_stack_top sy) = Some p" "pmm_inv p" "pm_total p = 0x8000" "pr_start (pm_extent p) = PMM_EXTENT_START"
    "\<forall>i < 0x8000. i \<in> reserved_frames p \<longleftrightarrow> frame_pa p i < kernel_end sy" "used p = reserved_frames p"
    "0x4000 \<le> pm_free_count p"
proof -
  note K = kernel_end_bounds [OF r]
  let ?ext = "\<lparr>pr_start = PMM_EXTENT_START, pr_end = PMM_EXTENT_END\<rparr>"
  let ?rs = "[\<lparr>pr_start = PMM_EXTENT_START, pr_end = KERNEL_IMAGE_START\<rparr>, \<lparr>pr_start = KERNEL_IMAGE_START, pr_end = kernel_end sy\<rparr>]"
  let ?x = "sy_stack_top sy - KERNEL_HIGH_HALF_OFFSET"
  have x: "?x \<le> 0x44000000" "KERNEL_IMAGE_START \<le> ?x"
    using r by (auto simp: boot_ready_def frames_of_def)
  have pa: "kernel_va_to_phys (sy_stack_top sy) = Some ?x"
    by (rule kernel_pointer) (use x in \<open>auto simp: KERNEL_IMAGE_START_def KERNEL_HIGH_HALF_OFFSET_def\<close>)
  have up: "saturating_add ?x (PAGE_SIZE - 1) = ?x + (PAGE_SIZE - 1)"
    using x by (simp add: saturating_add_def usize_max_def PAGE_SIZE_def)
  have ok: "config_ok PMM_BITMAP_BYTES PMM_RESERVED_RANGES ?ext ?rs"
    using K by (simp add: config_ok_def range_is_aligned_def PMM_EXTENT_START_def PMM_EXTENT_END_def PAGE_SIZE_def
        range_frame_count_def range_len_bytes_def PMM_BITMAP_BYTES_def div_ceil_def PMM_RESERVED_RANGES_def range_ok_def
        KERNEL_IMAGE_START_def ranges_overlap_def)
  obtain p where p: "pmm_new PMM_BITMAP_BYTES PMM_RESERVED_RANGES ?ext ?rs = Some (Inr p)" "pmm_wf p" "pm_extent p = ?ext"
      "pm_reserved_ranges p = map Some ?rs @ replicate (PMM_RESERVED_RANGES - length ?rs) None" "used p = reserved_frames p"
    using pmm_new_spec [of ?ext PMM_BITMAP_BYTES PMM_RESERVED_RANGES ?rs] ok
    by (auto simp: PMM_EXTENT_END_def usize_max_def)
  have new: "boot_pmm (sy_stack_top sy) = Some p"
    using p(1) round_up_page [of ?x] unfolding boot_pmm_def pa
    by (simp only: bind.bind_lunit Let_def up kernel_end_def [symmetric] unwrap_simps)
  have tot: "pm_total p = 0x8000"
    by (simp add: pm_total_def p(3) range_frame_count_def range_len_bytes_def PMM_EXTENT_START_def PMM_EXTENT_END_def PAGE_SIZE_def)
  have fp: "frame_pa p i = 0x40000000 + i * 4096" for i by (simp add: frame_pa_def p(3) PMM_EXTENT_START_def PAGE_SIZE_def)
  have res: "i \<in> reserved_frames p \<longleftrightarrow> frame_pa p i < kernel_end sy" if "i < 0x8000" for i
  proof -
    have "Some r \<in> set (map Some ?rs @ replicate n None) \<longleftrightarrow> r \<in> set ?rs" for n r by auto
    then have "i \<in> reserved_frames p \<longleftrightarrow> (\<exists>r \<in> set ?rs. range_contains r (frame_pa p i))"
      using that unfolding reserved_frames_def tot p(4) by blast
    also have "\<dots> \<longleftrightarrow> PMM_EXTENT_START \<le> frame_pa p i \<and> frame_pa p i < kernel_end sy"
      using K(4) by (simp add: range_contains_def PMM_EXTENT_START_def KERNEL_IMAGE_START_def) linarith
    finally show ?thesis by (simp add: fp PMM_EXTENT_START_def)
  qed
  have "reserved_frames p \<subseteq> {..<0x4000}"
  proof
    fix i assume i: "i \<in> reserved_frames p"
    then have "i < 0x8000" by (simp add: reserved_frames_def tot)
    then show "i \<in> {..<0x4000}" using res i K(3) by (simp add: fp)
  qed
  then have "card (reserved_frames p) \<le> 0x4000" using card_mono [of "{..<0x4000}" "reserved_frames p"] by simp
  then have free: "0x4000 \<le> pm_free_count p" using p(2,5) tot by (simp add: pmm_wf_def)
  have inv: "pmm_inv p" using p(2,3) by (simp add: pmm_inv_def direct_mapped_def PMM_EXTENT_END_def)
  show thesis by (rule that [OF new inv tot _ _ p(5) free]) (simp_all add: p(3) res)
qed

section \<open>A table with one capability\<close>

definition root_handle :: cap_handle where
  "root_handle = \<lparr>ch_index = 0, ch_generation = 0\<rparr>"

lemma root_handle_demo: "root_handle = demo_handle 0"
  by (simp add: root_handle_def demo_handle_def)

lemma root_table:
  obtains t where "insert_root cap_table_new c = Some (t, Inr root_handle)" "cap_wf t"
    "node_at t = [root_handle \<mapsto> \<lparr>cn_cap = c, cn_parent = None, cn_depth = 0\<rparr>]"
    "\<forall>i. i \<noteq> 0 \<longrightarrow> ent t i = None"
proof -
  have room: "\<not> cap_table_is_full cap_table_new"
    by (simp add: cap_table_is_full_def cap_table_new_def CAP_TABLE_CAPACITY_def)
  obtain t h where t: "insert_root cap_table_new c = Some (t, Inr h)"
      "adds_node cap_table_new t h \<lparr>cn_cap = c, cn_parent = None, cn_depth = 0\<rparr>"
    using insert_root_room [OF cap_table_new_wf room] by blast
  have "snd (the (insert_root cap_table_new c)) = Inr root_handle" by (simp add: cap_eval root_handle_demo)
  then have h: "h = root_handle" using t(1) by simp
  have none: "node_at cap_table_new = (\<lambda>_. None)"
    using empty_table_lookup by (fastforce simp: lookup_node split: option.splits)
  have "forest (ent t) i = None" if "i \<noteq> 0" for i
    using t(2) h that by (simp add: adds_node_def root_handle_def cap_table_new_views forest_def)
  then show thesis
    using that [of t] t h adds_node_at [OF t(2)] by (simp add: adds_node_def forest_None none)
qed

section \<open>Objects in a fresh arena\<close>

text \<open>An arena whose first \<open>k\<close> slots have been allocated, in order.\<close>

definition next_slot :: "nat \<Rightarrow> nat \<Rightarrow> 'a arena \<Rightarrow> bool" where
  "next_slot n k a \<longleftrightarrow>
     arena_wf n a \<and> length (ar_slots a) = n \<and> ar_free_head a = (if k < n then Some k else None) \<and>
     (\<forall>i. k \<le> i \<longrightarrow> i < n \<longrightarrow> ar_slots a ! i =
        \<lparr>as_entry = None, as_generation = 0, as_next_free = (if Suc i < n then Some (Suc i) else None)\<rparr>)"

lemma next_slot_new: "next_slot n 0 (arena_new n)"
  unfolding next_slot_def by (intro conjI arena_new_wf) (simp_all add: arena_new_def)

lemma next_slot_allocate:
  assumes "next_slot n k a" "k < n"
  obtains a' where "arena_allocate a v = (a', Some \<lparr>si_index = k, si_generation = 0\<rparr>)" "next_slot n (Suc k) a'"
    "arena_get a' = (arena_get a)(\<lparr>si_index = k, si_generation = 0\<rparr> \<mapsto> v)"
proof -
  let ?s = "\<lparr>as_entry = Some v, as_generation = 0, as_next_free = None\<rparr>"
  let ?a = "a\<lparr>ar_slots := (ar_slots a)[k := ?s], ar_free_head := (if Suc k < n then Some (Suc k) else None)\<rparr>"
  have e: "arena_allocate a v = (?a, Some \<lparr>si_index = k, si_generation = 0\<rparr>)"
    using assms by (simp add: next_slot_def arena_allocate_def nth_opt_def)
  then have alloc: "some_part (arena_allocate a v) = Some (?a, \<lparr>si_index = k, si_generation = 0\<rparr>)" by simp
  have wf: "arena_wf n a" using assms(1) by (simp add: next_slot_def)
  have "next_slot n (Suc k) ?a"
    using assms arena.put_inv [OF wf alloc] by (simp add: next_slot_def)
  then show thesis using that [OF e] arena.put_get [OF wf alloc] by simp
qed

lemma next_slot_room: "\<lbrakk>next_slot n k a; k < n\<rbrakk> \<Longrightarrow> \<not> arena_is_full a"
  by (simp add: next_slot_def arena_is_full_def)

lemma arena_new_empty: "arena_get (arena_new n) s = None"
  by (auto simp: arena_get_def arena_new_def nth_opt_def)

section \<open>The bootstrap address space\<close>

definition boot_inner :: "boot_frames \<Rightarrow> qemu_address_space" where
  "boot_inner bf = \<lparr>qa_root = PhysFrame (boot_pt_l0 bf)\<rparr>"

definition boot_as_cap :: capability where
  "boot_as_cap = \<lparr>cap_rights = bootstrap_as_rights, cap_object = CapAddressSpace BOOTSTRAP_ADDRESS_SPACE_HANDLE\<rparr>"

lemma boot_root_ok:
  assumes r: "boot_ready bf sy hw m"
  shows "boot_root (sy_boot_pt_l0 sy) = Some (boot_inner bf)"
proof -
  have m: "boot_pt_l0 bf \<in> set (frames_of bf)" by (simp add: frames_of_def)
  then have f: "boot_pt_l0 bf mod 4096 = 0" "KERNEL_HIGH_HALF_OFFSET + boot_pt_l0 bf + PAGE_SIZE \<le> KERNEL_HIGH_HALF_OFFSET + 0x44000000"
    using r boot_frame_facts(1) [of bf "boot_pt_l0 bf"] unfolding boot_ready_def by (blast, meson m order_trans)
  have "kernel_va_to_phys (sy_boot_pt_l0 sy) = Some (boot_pt_l0 bf)"
    using r f(2) kernel_pointer [of "sy_boot_pt_l0 sy"] by (simp add: boot_ready_def)
  then show ?thesis
    using f(1) by (simp add: boot_root_def frame_from_aligned_def PAGE_SIZE_def from_existing_root_def boot_inner_def)
qed

lemma boot_address_space_ok:
  obtains arena table where "boot_address_space inner = Some (arena, table, root_handle)"
    "next_slot ADDRESS_SPACE_ARENA_CAPACITY 1 arena"
    "get_address_space arena = [BOOTSTRAP_ADDRESS_SPACE_HANDLE \<mapsto> \<lparr>as_inner = inner\<rparr>]"
    "cap_wf table" "node_at table = [root_handle \<mapsto> \<lparr>cn_cap = boot_as_cap, cn_parent = None, cn_depth = 0\<rparr>]"
    "\<forall>i. i \<noteq> 0 \<longrightarrow> ent table i = None"
proof -
  obtain arena where a: "arena_allocate (arena_new ADDRESS_SPACE_ARENA_CAPACITY) \<lparr>as_inner = inner\<rparr> =
        (arena, Some \<lparr>si_index = 0, si_generation = 0\<rparr>)"
      "next_slot ADDRESS_SPACE_ARENA_CAPACITY (Suc 0) arena"
      "arena_get arena = (arena_get (arena_new ADDRESS_SPACE_ARENA_CAPACITY))(\<lparr>si_index = 0, si_generation = 0\<rparr> \<mapsto> \<lparr>as_inner = inner\<rparr>)"
    by (rule next_slot_allocate [OF next_slot_new, of ADDRESS_SPACE_ARENA_CAPACITY "\<lparr>as_inner = inner\<rparr>"])
      (simp_all add: ADDRESS_SPACE_ARENA_CAPACITY_def)
  have h: "AddressSpaceHandle \<lparr>si_index = 0, si_generation = 0\<rparr> = BOOTSTRAP_ADDRESS_SPACE_HANDLE"
    by (simp add: BOOTSTRAP_ADDRESS_SPACE_HANDLE_def first_slot_def)
  obtain t where t: "insert_root cap_table_new boot_as_cap = Some (t, Inr root_handle)" "cap_wf t"
      "node_at t = [root_handle \<mapsto> \<lparr>cn_cap = boot_as_cap, cn_parent = None, cn_depth = 0\<rparr>]"
      "\<forall>i. i \<noteq> 0 \<longrightarrow> ent t i = None" by (rule root_table [of boot_as_cap])
  have "boot_address_space inner = Some (arena, t, root_handle)"
    using a(1) t(1) by (simp add: boot_address_space_def create_address_space_def wrap_bootstrap_def ok_or_def h boot_as_cap_def)
  moreover have "get_address_space arena = [BOOTSTRAP_ADDRESS_SPACE_HANDLE \<mapsto> \<lparr>as_inner = inner\<rparr>]"
    using a(3) h by (auto simp: get_address_space_def fun_eq_iff arena_new_empty BOOTSTRAP_ADDRESS_SPACE_HANDLE_def first_slot_def
        address_space_handle.expand)
  ultimately show thesis using that a(2) t(2-4) by simp
qed

lemma boot_vm_ok:
  assumes r: "boot_ready bf sy hw m"
    and p: "pmm_inv p" "pm_total p = 0x8000" "pr_start (pm_extent p) = PMM_EXTENT_START"
      "\<forall>i < 0x8000. i \<in> reserved_frames p \<longleftrightarrow> frame_pa p i < kernel_end sy" "used p = reserved_frames p"
    and a: "next_slot ADDRESS_SPACE_ARENA_CAPACITY 1 arena"
      "get_address_space arena = [BOOTSTRAP_ADDRESS_SPACE_HANDLE \<mapsto> \<lparr>as_inner = boot_inner bf\<rparr>]"
  shows "qemu_vm_ok \<lparr>vm_frames = p, vm_memory = m, vm_spaces = arena, vm_tlb = []\<rparr>"
    "\<exists>e. view_at m (boot_inner bf) va = Inl e"
proof -
  have l: "boot_layout bf" using r by (simp add: boot_ready_def)
  have fr: "KERNEL_IMAGE_START \<le> t \<and> t + PAGE_SIZE \<le> kernel_end sy \<and> t mod PAGE_SIZE = 0" if "t \<in> set (frames_of bf)" for t
  proof -
    have "KERNEL_HIGH_HALF_OFFSET + t + PAGE_SIZE \<le> sy_stack_top sy" "KERNEL_IMAGE_START \<le> t" using r that by (auto simp: boot_ready_def)
    then show ?thesis using kernel_end_bounds(2) [OF r] boot_frame_facts(1) [OF l that] by (simp add: PAGE_SIZE_def)
  qed
  have small: "\<forall>t \<in> set (frames_of bf). t < 0x100000000" using fr kernel_end_bounds(3) [OF r] by (fastforce simp: PAGE_SIZE_def)
  have q: "qa_root (boot_inner bf) = PhysFrame (boot_pt_l0 bf)" by (simp add: boot_inner_def)
  note B = boot_space [OF l boot_ready_says [OF r] q small]
  have own: "PhysFrame t \<in> pmm_owned p" if "t \<in> set (frames_of bf)" for t
  proof -
    define i where "i = (t - PMM_EXTENT_START) div PAGE_SIZE"
    note f = fr [OF that]
    have "t = PMM_EXTENT_START + i * PAGE_SIZE"
    proof -
      have "PMM_EXTENT_START \<le> t" using f by (simp add: KERNEL_IMAGE_START_def PMM_EXTENT_START_def)
      moreover have "(t - PMM_EXTENT_START) mod PAGE_SIZE = 0"
        using f calculation by (simp add: mod_0_imp_dvd PMM_EXTENT_START_def PAGE_SIZE_def dvd_diff_nat flip: mod_eq_0_iff_dvd)
          (simp add: dvd_diff_nat mod_eq_0_iff_dvd)
      ultimately show ?thesis using div_mult_mod_eq [of "t - PMM_EXTENT_START" PAGE_SIZE] by (simp add: i_def)
    qed
    then have fp: "frame_pa p i = t" by (simp add: frame_pa_def p(3))
    have "t < 0x48000000" using f kernel_end_bounds(3) [OF r] by (simp add: PAGE_SIZE_def)
    then have i: "i < 0x8000" by (simp add: i_def PMM_EXTENT_START_def PAGE_SIZE_def div_less_iff_less_mult)
    then have "i \<in> used p" using p(4,5) fp f by (simp add: PAGE_SIZE_def)
    then show ?thesis using fp by (auto simp: pmm_owned_def)
  qed
  show "qemu_vm_ok \<lparr>vm_frames = p, vm_memory = m, vm_spaces = arena, vm_tlb = []\<rparr>"
    using a p(1) B(1,2) own by (auto simp: qemu_vm_ok_def vm_ok_def next_slot_def split: if_splits)
  show "\<exists>e. view_at m (boot_inner bf) va = Inl e" by (rule B(3))
qed

section \<open>The user image\<close>

lemma image_small:
  assumes "boot_ready bf sy hw m"
  shows "div_ceil (snd (sy_user_image sy)) PAGE_SIZE \<le> 0x3F80" "0 < div_ceil (snd (sy_user_image sy)) PAGE_SIZE"
    "fst (sy_user_image sy) < KERNEL_HIGH_HALF_OFFSET + 2 ^ 32" "KERNEL_HIGH_HALF_OFFSET \<le> fst (sy_user_image sy)"
proof -
  let ?n = "snd (sy_user_image sy)"
  have n: "?n \<le> 0x3F80000" "0 < ?n" "fst (sy_user_image sy) < KERNEL_HIGH_HALF_OFFSET + 2 ^ 32"
      "KERNEL_HIGH_HALF_OFFSET \<le> fst (sy_user_image sy)"
    using assms by (auto simp: boot_ready_def KERNEL_IMAGE_START_def)
  show "div_ceil ?n PAGE_SIZE \<le> 0x3F80" "0 < div_ceil ?n PAGE_SIZE"
    using div_ceil_le_iff [of "0x3F80" ?n] div_ceil_le_iff [of 0 ?n] n(1,2) by (simp_all add: PAGE_SIZE_def not_less)
  show "fst (sy_user_image sy) < KERNEL_HIGH_HALF_OFFSET + 2 ^ 32" "KERNEL_HIGH_HALF_OFFSET \<le> fst (sy_user_image sy)"
    using n(3,4) by blast+
qed

lemma boot_tables_needed:
  assumes "ip \<le> 0x3F80"
  shows "intermediate_frame_count USERSPACE_IMAGE_BASE_VA ip USERSPACE_STACK_PAGES \<le> 50"
proof -
  let ?last = "0x800000 + (ip + 1) * 4096 - 1"
  have add: "saturating_add ip 1 = ip + 1" "saturating_mul (ip + 1) 4096 = (ip + 1) * 4096"
    "saturating_add 0x800000 ((ip + 1) * 4096) = 0x800000 + (ip + 1) * 4096"
    using assms by (simp_all add: saturating_add_def saturating_mul_def usize_max_def)
  have "?last \<le> 0x5000000" using assms by simp
  then have d: "?last div 2 ^ 21 \<le> 40" "?last div 2 ^ 30 \<le> 0" "?last div 2 ^ 39 \<le> 0"
    using div_le_mono [of ?last "0x5000000" "2 ^ 21"] div_le_mono [of ?last "0x5000000" "2 ^ 30"]
      div_le_mono [of ?last "0x5000000" "2 ^ 39"] by simp_all
  have s: "saturating_add (saturating_add (saturating_add b 1) (saturating_add c 1)) (saturating_add a 1) \<le> 50"
    if "a \<le> 40" "b \<le> 0" "c \<le> 0" for a b c
    using that by (simp add: saturating_add_def usize_max_def)
  show ?thesis
    unfolding intermediate_frame_count_def USERSPACE_IMAGE_BASE_VA_def USERSPACE_STACK_PAGES_def Let_def PAGE_SIZE_def
      add drop_bit_eq_div
    using s [of "?last div 2 ^ 21 - 0x800000 div 2 ^ 21" "?last div 2 ^ 39 - 0x800000 div 2 ^ 39"
        "?last div 2 ^ 30 - 0x800000 div 2 ^ 30"] d by simp
qed

lemma boot_load_ok:
  assumes r: "boot_ready bf sy hw m"
    and p: "pmm_inv p" "pm_total p = 0x8000" "pr_start (pm_extent p) = PMM_EXTENT_START"
      "\<forall>i < 0x8000. i \<in> reserved_frames p \<longleftrightarrow> frame_pa p i < kernel_end sy" "0x4000 \<le> pm_free_count p"
    and a: "next_slot ADDRESS_SPACE_ARENA_CAPACITY 1 arena"
    and t: "cap_wf t" "node_at t = [root_handle \<mapsto> \<lparr>cn_cap = boot_as_cap, cn_parent = None, cn_depth = 0\<rparr>]"
      "\<forall>i. i \<noteq> 0 \<longrightarrow> ent t i = None"
    and v: "v = \<lparr>vm_frames = p, vm_memory = m, vm_spaces = arena, vm_tlb = []\<rparr>" "qemu_vm_ok v"
    and ip: "ip = div_ceil (snd (sy_user_image sy)) PAGE_SIZE"
  obtains t' v' c h fs where
    "boot_load (sy_user_image sy) t v root_handle = Some (t', v',
      \<lparr>li_as_cap = c, li_entry_va = USERSPACE_IMAGE_BASE_VA, li_stack_top_va = USERSPACE_IMAGE_BASE_VA + (ip + 1) * PAGE_SIZE,
       li_image_bytes = snd (sy_user_image sy), li_stack_bytes = PAGE_SIZE\<rparr>)"
    "adds_node t t' c \<lparr>cn_cap = \<lparr>cap_rights = rights_empty, cap_object = CapAddressSpace h\<rparr>, cn_parent = Some 0, cn_depth = 1\<rparr>"
    "get_address_space arena h = None" "length fs = ip + 1"
    "loaded v h USERSPACE_IMAGE_BASE_VA (page_flags ip) (image_byte m (sy_user_image sy)) fs v'"
proof -
  let ?img = "sy_user_image sy"
  note I = image_small [OF r, folded ip]
  have pos: "snd ?img \<noteq> 0" using r by (simp add: boot_ready_def)
  have n: "node_at t root_handle = Some \<lparr>cn_cap = boot_as_cap, cn_parent = None, cn_depth = 0\<rparr>" by (simp add: t(2))
  have k: "cap_kind boot_as_cap = KindAddressSpace" by (simp add: boot_as_cap_def cap_kind_def)
  have over: "\<not> (\<exists>i < pm_total p. i \<notin> reserved_frames p \<and>
      frame_pa p i < fst ?img - KERNEL_HIGH_HALF_OFFSET + snd ?img \<and> fst ?img - KERNEL_HIGH_HALF_OFFSET < frame_pa p i + PAGE_SIZE)"
  proof (intro notI, elim exE conjE)
    fix i assume i: "i < pm_total p" "i \<notin> reserved_frames p" "frame_pa p i < fst ?img - KERNEL_HIGH_HALF_OFFSET + snd ?img"
    then have "kernel_end sy \<le> frame_pa p i" using p(2,4) by (simp add: not_less)
    moreover have "fst ?img + snd ?img \<le> sy_stack_top sy" using r by (simp add: boot_ready_def)
    then have "fst ?img - KERNEL_HIGH_HALF_OFFSET + snd ?img \<le> sy_stack_top sy - KERNEL_HIGH_HALF_OFFSET"
      using I(4) by linarith
    ultimately show False using i(3) kernel_end_bounds(2) [OF r] by linarith
  qed
  have fits: "\<not> USERSPACE_IMAGE_BASE_VA + (ip + USERSPACE_STACK_PAGES) * PAGE_SIZE > 2 ^ 48"
    "\<not> 1 + (ip + USERSPACE_STACK_PAGES) + intermediate_frame_count USERSPACE_IMAGE_BASE_VA ip USERSPACE_STACK_PAGES > pm_free_count p"
    "USERSPACE_IMAGE_BASE_VA mod PAGE_SIZE = 0" "USERSPACE_STACK_PAGES \<noteq> 0"
    using I(1) boot_tables_needed [OF I(1)] p(5)
    by (simp_all add: USERSPACE_IMAGE_BASE_VA_def USERSPACE_STACK_PAGES_def PAGE_SIZE_def)
  have pre: "load_preflight ?img t v root_handle USERSPACE_IMAGE_BASE_VA USERSPACE_STACK_PAGES = None"
    unfolding load_preflight_def Let_def n ip [symmetric] option.case cap_node.select_convs v(1) vm.select_convs k
    by (simp only: pos fits over if_False if_True simp_thms)
  have "ent t 1 = None" "(1 :: nat) < CAP_TABLE_CAPACITY" using t(3) by (simp_all add: CAP_TABLE_CAPACITY_def)
  then have "\<not> cap_table_is_full t" unfolding wf_full_iff [OF t(1)] by blast
  moreover have "\<not> arena_is_full arena" by (rule next_slot_room [OF a]) (simp add: ADDRESS_SPACE_ARENA_CAPACITY_def)
  ultimately have go: "create_verdict t (vm_spaces v) root_handle rights_empty = None"
    by (simp add: create_verdict_def n k v(1) MAX_DERIVATION_DEPTH_def)
      (simp add: boot_as_cap_def bootstrap_as_rights_def rights_contains_def rights_union_def rights_consts rights_empty_def)
  have inv: "pmm_inv (vm_frames v)" using p(1) v(1) by simp
  obtain n' t' v' c h fs where w: "node_at t root_handle = Some n'"
      "load_rest ?img t v root_handle rights_empty USERSPACE_IMAGE_BASE_VA USERSPACE_STACK_PAGES = Some ((t', v'), Inr
        \<lparr>li_as_cap = c, li_entry_va = USERSPACE_IMAGE_BASE_VA, li_stack_top_va = USERSPACE_IMAGE_BASE_VA + (ip + USERSPACE_STACK_PAGES) * PAGE_SIZE,
         li_image_bytes = snd ?img, li_stack_bytes = USERSPACE_STACK_PAGES * PAGE_SIZE\<rparr>)"
      "adds_node t t' c \<lparr>cn_cap = \<lparr>cap_rights = rights_empty, cap_object = CapAddressSpace h\<rparr>,
                        cn_parent = Some (ch_index root_handle), cn_depth = Suc (cn_depth n')\<rparr>"
      "get_address_space (vm_spaces v) h = None" "length fs = ip + USERSPACE_STACK_PAGES"
      "loaded v h USERSPACE_IMAGE_BASE_VA (page_flags ip) (image_byte (vm_memory v) ?img) fs v'"
    using load_rest_runs [OF v(2) t(1) I(4) pre go ip] by (elim exE conjE) (rule that)
  have n': "n' = \<lparr>cn_cap = boot_as_cap, cn_parent = None, cn_depth = 0\<rparr>" using w(1) n by simp
  have "load_image qemu_mmu ?img t v root_handle rights_empty USERSPACE_IMAGE_BASE_VA USERSPACE_STACK_PAGES =
      load_rest ?img t v root_handle rights_empty USERSPACE_IMAGE_BASE_VA USERSPACE_STACK_PAGES"
    using load_image_checks [OF inv I(4,3)] pre by simp
  then show thesis
    using that [of t' v' c h fs] w v(1) by (simp add: boot_load_def n' root_handle_def USERSPACE_STACK_PAGES_def)
qed

section \<open>Tasks\<close>

definition boot_task :: "nat \<Rightarrow> task_handle" where
  "boot_task i = TaskHandle \<lparr>si_index = i, si_generation = 0\<rparr>"

lemma th_index_boot_task [simp]: "th_index (boot_task i) = i"
  by (simp add: boot_task_def th_index_def)

lemma boot_task_eq [simp]: "boot_task i = boot_task j \<longleftrightarrow> i = j"
  by (simp add: boot_task_def)

lemma next_task_slot:
  assumes "next_slot TASK_ARENA_CAPACITY k a" "k < TASK_ARENA_CAPACITY"
  obtains a' where "create_task a t = (a', Inr (boot_task k))" "next_slot TASK_ARENA_CAPACITY (Suc k) a'"
    "get_task a' = (get_task a)(boot_task k \<mapsto> t)"
proof -
  obtain a' where a: "arena_allocate a t = (a', Some \<lparr>si_index = k, si_generation = 0\<rparr>)"
      "next_slot TASK_ARENA_CAPACITY (Suc k) a'" "arena_get a' = (arena_get a)(\<lparr>si_index = k, si_generation = 0\<rparr> \<mapsto> t)"
    by (rule next_slot_allocate [OF assms])
  have c: "create_task a t = (a', Inr (boot_task k))" using a(1) by (simp add: create_task_def ok_or_def boot_task_def)
  have "arena_wf TASK_ARENA_CAPACITY a" using assms(1) by (simp add: next_slot_def)
  then show thesis using that [OF c a(2)] create_task_ok(3) [OF _ c] by blast
qed

definition kernel_task :: "32 word \<Rightarrow> task" where
  "kernel_task i = \<lparr>task_id = i, task_address_space_handle = BOOTSTRAP_ADDRESS_SPACE_HANDLE\<rparr>"

lemma new_kernel_task_ok:
  assumes "next_slot TASK_ARENA_CAPACITY k a" "k < TASK_ARENA_CAPACITY"
  obtains a' where "new_kernel_task a i = Some (a', boot_task k)" "next_slot TASK_ARENA_CAPACITY (Suc k) a'"
    "get_task a' = (get_task a)(boot_task k \<mapsto> kernel_task i)"
proof -
  obtain a' where a: "create_task a (kernel_task i) = (a', Inr (boot_task k))" "next_slot TASK_ARENA_CAPACITY (Suc k) a'"
      "get_task a' = (get_task a)(boot_task k \<mapsto> kernel_task i)" by (rule next_task_slot [OF assms])
  have "new_kernel_task a i = Some (a', boot_task k)"
    using a(1) unfolding kernel_task_def by (simp add: new_kernel_task_def)
  then show thesis using that a(2,3) by blast
qed

lemma boot_tasks_ok:
  assumes t: "cap_wf t" and c: "node_at t (li_as_cap li) = Some n" "cap_object (cn_cap n) = CapAddressSpace h"
    and room: "\<not> cap_table_is_full t"
  obtains t' tasks c where
    "boot_tasks t li = Some (t', tasks,
      \<lparr>bh_a = boot_task 0, bh_b = boot_task 1, bh_idle = boot_task 2, bh_user = boot_task 3, bh_user_as = h\<rparr>)"
    "get_task tasks = [boot_task 0 \<mapsto> kernel_task 0, boot_task 1 \<mapsto> kernel_task 1, boot_task 2 \<mapsto> kernel_task 2,
       boot_task 3 \<mapsto> \<lparr>task_id = 3, task_address_space_handle = h\<rparr>]"
    "adds_node t t' c \<lparr>cn_cap = \<lparr>cap_rights = user_task_rights, cap_object = CapTask (boot_task 3)\<rparr>, cn_parent = None, cn_depth = 0\<rparr>"
proof -
  let ?N = TASK_ARENA_CAPACITY and ?new = "\<lparr>task_id = 3, task_address_space_handle = h\<rparr>"
  have lt: "0 < ?N" "Suc 0 < ?N" "Suc (Suc 0) < ?N" "Suc (Suc (Suc 0)) < ?N" by (simp_all add: TASK_ARENA_CAPACITY_def)
  obtain a1 where a1: "new_kernel_task (arena_new ?N) 0 = Some (a1, boot_task 0)" "next_slot ?N (Suc 0) a1"
      "get_task a1 = (get_task (arena_new ?N))(boot_task 0 \<mapsto> kernel_task 0)"
    by (rule new_kernel_task_ok [OF next_slot_new lt(1)])
  obtain a2 where a2: "new_kernel_task a1 1 = Some (a2, boot_task (Suc 0))" "next_slot ?N (Suc (Suc 0)) a2"
      "get_task a2 = (get_task a1)(boot_task (Suc 0) \<mapsto> kernel_task 1)"
    by (rule new_kernel_task_ok [OF a1(2) lt(2)])
  obtain a3 where a3: "new_kernel_task a2 2 = Some (a3, boot_task (Suc (Suc 0)))" "next_slot ?N (Suc (Suc (Suc 0))) a3"
      "get_task a3 = (get_task a2)(boot_task (Suc (Suc 0)) \<mapsto> kernel_task 2)"
    by (rule new_kernel_task_ok [OF a2(2) lt(3)])
  obtain a4 where a4: "create_task a3 ?new = (a4, Inr (boot_task (Suc (Suc (Suc 0)))))"
      "get_task a4 = (get_task a3)(boot_task (Suc (Suc (Suc 0))) \<mapsto> ?new)"
    by (rule next_task_slot [OF a3(2) lt(4)])
  have num: "Suc 0 = 1" "Suc 1 = 2" "Suc 2 = (3 :: nat)" by simp_all
  have none: "get_task (arena_new ?N) = (\<lambda>_. None)" by (simp add: fun_eq_iff get_task_def arena_new_empty)
  obtain t' m where m: "insert_root t \<lparr>cap_rights = user_task_rights, cap_object = CapTask (boot_task 3)\<rparr> = Some (t', Inr m)"
      "adds_node t t' m \<lparr>cn_cap = \<lparr>cap_rights = user_task_rights, cap_object = CapTask (boot_task 3)\<rparr>, cn_parent = None, cn_depth = 0\<rparr>"
    using insert_root_room [OF t room] by blast
  have l: "cap_lookup t (li_as_cap li) = Inr (cn_cap n)" using c(1) by (simp add: lookup_node)
  have tc: "task_create_from_image li t a3 3 user_task_rights = Some ((t', a4), Inr m)"
    using l c(2) a4(1) m(1) unfolding num by (simp add: task_create_from_image_def)
  have "cap_lookup t' m = Inr \<lparr>cap_rights = user_task_rights, cap_object = CapTask (boot_task 3)\<rparr>"
    using adds_node_at [OF m(2)] by (simp add: lookup_node)
  then have "boot_tasks t li = Some (t', a4,
      \<lparr>bh_a = boot_task 0, bh_b = boot_task 1, bh_idle = boot_task 2, bh_user = boot_task 3, bh_user_as = h\<rparr>)"
    using a1(1) a2(1) a3(1) l c(2) tc unfolding num by (simp add: boot_tasks_def)
  moreover have "get_task a4 = [boot_task 0 \<mapsto> kernel_task 0, boot_task 1 \<mapsto> kernel_task 1, boot_task 2 \<mapsto> kernel_task 2,
       boot_task 3 \<mapsto> ?new]"
    using a1(3) a2(3) a3(3) a4(2) unfolding num none by simp
  ultimately show thesis using that m(2) by blast
qed

section \<open>IPC\<close>

definition boot_endpoint :: endpoint_handle where
  "boot_endpoint = EndpointHandle first_slot"

definition ep_cap :: capability where
  "ep_cap = \<lparr>cap_rights = ep_rights, cap_object = CapEndpoint boot_endpoint\<rparr>"

definition console_cap :: capability where
  "console_cap = \<lparr>cap_rights = rights_CONSOLE_WRITE, cap_object = CapDebugConsole\<rparr>"

text \<open>A table with one root capability.\<close>

definition only_root :: "capability \<Rightarrow> cap_table \<Rightarrow> bool" where
  "only_root c t \<longleftrightarrow> cap_wf t \<and> node_at t = [root_handle \<mapsto> \<lparr>cn_cap = c, cn_parent = None, cn_depth = 0\<rparr>]"

lemma only_root_lookup: "only_root c t \<Longrightarrow> cap_lookup t h = (if h = root_handle then Inr c else Inl InvalidHandle)"
  by (simp add: only_root_def lookup_node)

lemma new_root_table_ok:
  obtains t where "new_root_table c = Some (t, root_handle)" "only_root c t"
proof -
  obtain t where t: "insert_root cap_table_new c = Some (t, Inr root_handle)" "cap_wf t"
      "node_at t = [root_handle \<mapsto> \<lparr>cn_cap = c, cn_parent = None, cn_depth = 0\<rparr>]" "\<forall>i. i \<noteq> 0 \<longrightarrow> ent t i = None"
    by (rule root_table [of c])
  then have "new_root_table c = Some (t, root_handle)" by (simp add: new_root_table_def)
  then show thesis using that t(2,3) by (simp add: only_root_def)
qed

lemma boot_ipc_ok:
  obtains ipc where "boot_ipc = Some ipc" "arena_wf ENDPOINT_ARENA_CAPACITY (bi_ep_arena ipc)"
    "get_endpoint (bi_ep_arena ipc) = [boot_endpoint \<mapsto> \<lparr>ep_id = 0\<rparr>]"
    "only_root ep_cap (bi_table_a ipc)" "bi_ep_cap_a ipc = root_handle"
    "only_root ep_cap (bi_table_b ipc)" "bi_ep_cap_b ipc = root_handle" "only_root console_cap (bi_user_table ipc)"
proof -
  obtain a where a: "arena_allocate (arena_new ENDPOINT_ARENA_CAPACITY) \<lparr>ep_id = 0\<rparr> =
        (a, Some \<lparr>si_index = 0, si_generation = 0\<rparr>)" "next_slot ENDPOINT_ARENA_CAPACITY (Suc 0) a"
      "arena_get a = (arena_get (arena_new ENDPOINT_ARENA_CAPACITY))(\<lparr>si_index = 0, si_generation = 0\<rparr> \<mapsto> \<lparr>ep_id = 0\<rparr>)"
    by (rule next_slot_allocate [OF next_slot_new, of ENDPOINT_ARENA_CAPACITY "\<lparr>ep_id = 0\<rparr>"])
      (simp_all add: ENDPOINT_ARENA_CAPACITY_def)
  have e: "EndpointHandle \<lparr>si_index = 0, si_generation = 0\<rparr> = boot_endpoint" by (simp add: boot_endpoint_def first_slot_def)
  obtain ta where ta: "new_root_table ep_cap = Some (ta, root_handle)" "only_root ep_cap ta" by (rule new_root_table_ok)
  obtain tu where tu: "new_root_table console_cap = Some (tu, root_handle)" "only_root console_cap tu" by (rule new_root_table_ok)
  have "boot_ipc = Some \<lparr>bi_ep_arena = a, bi_table_a = ta, bi_ep_cap_a = root_handle, bi_table_b = ta,
           bi_ep_cap_b = root_handle, bi_user_table = tu\<rparr>"
    using a(1) ta(1) tu(1) by (simp add: boot_ipc_def create_endpoint_def ok_or_def e ep_cap_def console_cap_def root_handle_def)
  moreover have "get_endpoint a = [boot_endpoint \<mapsto> \<lparr>ep_id = 0\<rparr>]"
    using a(3) by (auto simp: get_endpoint_def fun_eq_iff arena_new_empty boot_endpoint_def first_slot_def endpoint_handle.expand)
  moreover have "arena_wf ENDPOINT_ARENA_CAPACITY a" using a(2) by (simp add: next_slot_def)
  ultimately show thesis using that ta(2) tu(2) by simp
qed

section \<open>The interrupt controller\<close>

lemma boot_gic_ok:
  obtains gic log where "boot_gic dev [] = Some (gic, log)" "windows_ok gic" "gic_init gic dev [] = Some log"
proof -
  let ?g = "gic_new (KERNEL_HIGH_HALF_OFFSET + 0x08000000) (KERNEL_HIGH_HALF_OFFSET + 0x08010000)"
  have w: "windows_ok ?g" by (simp add: windows_ok_def gic_new_def KERNEL_HIGH_HALF_OFFSET_def usize_max_def)
  obtain log where "gic_init ?g dev [] = Some log" using gic_init_ok [OF w, of d dev "[]"] by blast
  then have "boot_gic dev [] = Some (?g, log)"
    by (simp add: boot_gic_def phys_to_kernel_va_eq QEMU_VIRT_GIC_DISTRIBUTOR_BASE_def QEMU_VIRT_GIC_CPU_INTERFACE_BASE_def
        KERNEL_HIGH_HALF_OFFSET_def)
  then show thesis using that w \<open>gic_init ?g dev [] = Some log\<close> by blast
qed

section \<open>The scheduler\<close>

text \<open>What registration writes.\<close>

lemma add_task_fields:
  assumes "add_task cpu s h ash e sp = Some (s', Inr ())"
  shows "sd_task_handles s' = (sd_task_handles s)[th_index h := Some h]"
    "sd_as_handles s' = (sd_as_handles s)[th_index h := Some ash]"
    "sd_cap_tables s' = sd_cap_tables s" "sd_user_windows s' = sd_user_windows s"
    "sd_contexts s' = (sd_contexts s)[th_index h := cpu_init_context cpu (sd_contexts s ! th_index h) e sp]"
    "sd_task_states s' = (sd_task_states s)[th_index h := TaskReady]"
  using assms
  by (auto simp: add_task_def bind_task_def put_at_def nth_opt_def Let_def split: bind_splits sum.splits if_splits prod.splits)

lemma add_user_task_fields:
  assumes "add_user_task cpu s h ash e sp k ptr = Some (s', Inr ())"
  shows "sd_task_handles s' = (sd_task_handles s)[th_index h := Some h]"
    "sd_as_handles s' = (sd_as_handles s)[th_index h := Some ash]"
    "sd_cap_tables s' = (sd_cap_tables s)[th_index h := (if ptr = 0 then None else Some ptr)]"
    "sd_user_windows s' = (sd_user_windows s)[th_index h := Some (user_window_new e (sp - e))]"
    "sd_contexts s' = (sd_contexts s)[th_index h := cpu_init_user_context cpu (sd_contexts s ! th_index h) e sp k]"
    "sd_task_states s' = (sd_task_states s)[th_index h := TaskReady]"
  using assms
  by (auto simp: add_user_task_def bind_task_def put_at_def nth_opt_def Let_def split: bind_splits sum.splits if_splits prod.splits)

lemma register_idle_fields:
  assumes "register_idle cpu s h ash e sp = Some s'"
  shows "sd_task_handles s' = (sd_task_handles s)[th_index h := Some h]"
    "sd_as_handles s' = (sd_as_handles s)[th_index h := Some ash]"
    "sd_cap_tables s' = sd_cap_tables s" "sd_user_windows s' = sd_user_windows s"
    "sd_contexts s' = (sd_contexts s)[th_index h := cpu_init_context cpu (sd_contexts s ! th_index h) e sp]"
    "sd_task_states s' = (sd_task_states s)[th_index h := TaskReady]"
  using assms
  by (auto simp: register_idle_def bind_task_def put_at_def nth_opt_def Let_def split: bind_splits if_splits)

lemma sched_new_facts [simp]:
  "queued (sched_new cpu) = []" "sd_current (sched_new cpu) = None" "sd_idle (sched_new cpu) = None"
  using ring_new [of TASK_ARENA_CAPACITY]
  by (simp_all add: sched_new_def queued_def TASK_ARENA_CAPACITY_def)

definition boot_handle_set :: "address_space_handle \<Rightarrow> boot_handles" where
  "boot_handle_set h =
     \<lparr>bh_a = boot_task 0, bh_b = boot_task 1, bh_idle = boot_task 2, bh_user = boot_task 3, bh_user_as = h\<rparr>"

lemma boot_sched_ok:
  fixes cpu :: "'c cpu"
  obtains s where "boot_sched cpu sy (boot_handle_set h) li = Some s" "sched_wf s"
    "queued s = [boot_task 1, boot_task 0, boot_task 3]" "sd_current s = None" "sd_idle s = Some (boot_task 2)"
    "sd_task_handles s = (replicate TASK_ARENA_CAPACITY None)
       [1 := Some (boot_task 1), 0 := Some (boot_task 0), 3 := Some (boot_task 3), 2 := Some (boot_task 2)]"
    "sd_as_handles s = (replicate TASK_ARENA_CAPACITY None)
       [1 := Some BOOTSTRAP_ADDRESS_SPACE_HANDLE, 0 := Some BOOTSTRAP_ADDRESS_SPACE_HANDLE, 3 := Some h,
        2 := Some BOOTSTRAP_ADDRESS_SPACE_HANDLE]"
    "sd_cap_tables s = (replicate TASK_ARENA_CAPACITY None)
       [3 := (if sy_user_task_table sy = 0 then None else Some (sy_user_task_table sy))]"
    "sd_user_windows s = (replicate TASK_ARENA_CAPACITY None)
       [3 := Some (user_window_new (li_entry_va li) (li_stack_top_va li - li_entry_va li))]"
    "sd_contexts s = (replicate TASK_ARENA_CAPACITY (cpu_default cpu))
       [1 := cpu_init_context cpu (cpu_default cpu) (sy_task_b sy) (stack_top (sy_task_b_stack sy)),
        0 := cpu_init_context cpu (cpu_default cpu) (sy_task_a sy) (stack_top (sy_task_a_stack sy)),
        3 := cpu_init_user_context cpu (cpu_default cpu) (li_entry_va li) (li_stack_top_va li) (stack_top (sy_user_stack sy)),
        2 := cpu_init_context cpu (cpu_default cpu) (sy_idle_entry sy) (stack_top (sy_idle_stack sy))]"
    "sd_task_states s = (replicate TASK_ARENA_CAPACITY TaskIdle)[1 := TaskReady, 0 := TaskReady, 3 := TaskReady, 2 := TaskReady]"
proof -
  let ?B = BOOTSTRAP_ADDRESS_SPACE_HANDLE
  let ?eb = "sy_task_b sy" and ?sb = "stack_top (sy_task_b_stack sy)" and ?ea = "sy_task_a sy"
    and ?sa = "stack_top (sy_task_a_stack sy)" and ?su = "stack_top (sy_user_stack sy)"
    and ?ei = "sy_idle_entry sy" and ?si = "stack_top (sy_idle_stack sy)"
  have f0: "slot_free (sched_new cpu) (th_index (boot_task 1))" by (simp add: slot_free_def TASK_ARENA_CAPACITY_def)
  obtain s1 where s1: "add_task cpu (sched_new cpu) (boot_task 1) ?B ?eb ?sb = Some (s1, Inr ())" "sched_wf s1"
      "queued s1 = [boot_task 1]" "sd_current s1 = None" "sd_idle s1 = None"
    using add_task_ok [OF sched_new_wf f0, of cpu ?B ?eb ?sb] by (auto simp del: One_nat_def)
  have f1: "slot_free s1 (th_index (boot_task 0))" using s1 by (simp add: slot_free_def TASK_ARENA_CAPACITY_def)
  obtain s2 where s2: "add_task cpu s1 (boot_task 0) ?B ?ea ?sa = Some (s2, Inr ())" "sched_wf s2"
      "queued s2 = [boot_task 1, boot_task 0]" "sd_current s2 = None" "sd_idle s2 = None"
    using add_task_ok [OF s1(2) f1, of cpu ?B ?ea ?sa] s1(3-5) by (auto simp del: One_nat_def)
  have f2: "slot_free s2 (th_index (boot_task 3))" using s2 by (auto simp: slot_free_def TASK_ARENA_CAPACITY_def)
  obtain s3 where s3: "add_user_task cpu s2 (boot_task 3) h (li_entry_va li) (li_stack_top_va li) ?su (sy_user_task_table sy) = Some (s3, Inr ())"
      "sched_wf s3" "queued s3 = [boot_task 1, boot_task 0, boot_task 3]" "sd_current s3 = None" "sd_idle s3 = None"
    using add_user_task_ok [OF s2(2) f2, of cpu h "li_entry_va li" "li_stack_top_va li" ?su "sy_user_task_table sy"] s2(3-5) by (auto simp del: One_nat_def)
  have f3: "slot_free s3 (th_index (boot_task 2))" using s3 by (auto simp: slot_free_def TASK_ARENA_CAPACITY_def)
  obtain s where s: "register_idle cpu s3 (boot_task 2) ?B ?ei ?si = Some s" "sched_wf s"
      "queued s = [boot_task 1, boot_task 0, boot_task 3]" "sd_current s = None" "sd_idle s = Some (boot_task 2)"
    using register_idle_ok [OF s3(2) f3, of cpu ?B ?ei ?si] s3(3-5) by (auto simp del: One_nat_def)
  have run: "boot_sched cpu sy (boot_handle_set h) li = Some s"
    using s1(1) s2(1) s3(1) s(1) by (simp add: boot_sched_def boot_handle_set_def)
  have n: "length (replicate TASK_ARENA_CAPACITY x) = TASK_ARENA_CAPACITY" "i < TASK_ARENA_CAPACITY \<Longrightarrow> replicate TASK_ARENA_CAPACITY x ! i = x"
    for i x by simp_all
  note F = add_task_fields [OF s1(1)] add_task_fields [OF s2(1)] add_user_task_fields [OF s3(1)] register_idle_fields [OF s(1)]
  have i: "(1 :: nat) < TASK_ARENA_CAPACITY" "(0 :: nat) < TASK_ARENA_CAPACITY" "(3 :: nat) < TASK_ARENA_CAPACITY" "(2 :: nat) < TASK_ARENA_CAPACITY"
    by (simp_all add: TASK_ARENA_CAPACITY_def)
  have start: "sd_task_handles (sched_new cpu) = replicate TASK_ARENA_CAPACITY None" "sd_as_handles (sched_new cpu) = replicate TASK_ARENA_CAPACITY None"
    "sd_cap_tables (sched_new cpu) = replicate TASK_ARENA_CAPACITY None" "sd_user_windows (sched_new cpu) = replicate TASK_ARENA_CAPACITY None"
    "sd_contexts (sched_new cpu) = replicate TASK_ARENA_CAPACITY (cpu_default cpu)"
    "sd_task_states (sched_new cpu) = replicate TASK_ARENA_CAPACITY TaskIdle"
    by (simp_all add: sched_new_def)
  show thesis
    by (rule that [OF run s(2-5)]) (simp_all only: F start th_index_boot_task, use i in simp_all)
qed

section \<open>The whole boot\<close>

text \<open>What the user image becomes.\<close>

definition boot_image :: "boot_symbols \<Rightarrow> nat" where
  "boot_image sy = div_ceil (snd (sy_user_image sy)) PAGE_SIZE"

lemma reachable_views:
  assumes "qemu_vm_ok v" "get_address_space (vm_spaces v) h = Some s" "\<And>va f fl. view_at (vm_memory v) (as_inner s) va = Inr (f, fl) \<Longrightarrow> direct_frame f"
  shows "frames_reachable (qemu_translator (as_inner s) (vm_memory v))"
  unfolding frames_reachable_def
proof (intro allI impI)
  fix p f fl assume t: "qemu_translator (as_inner s) (vm_memory v) p = Inr (f, fl)"
  have "tree_wf (vm_memory v) (qa_root (as_inner s))" using qemu.vm_okD(3) [of v h s] assms(1,2) by (simp add: qemu_vm_ok_def)
  then have "view_at (vm_memory v) (as_inner s) p = Inr (f, fl)" using t by (simp add: qemu_translator_def translate_spec)
  then show "frame_addr f < 0x100000000" using assms(3) by (auto simp: direct_frame_def)
qed

lemma queues_new_ok: "arena_wf ENDPOINT_ARENA_CAPACITY a \<Longrightarrow> queues_ok a ipc_queues_new"
  by (auto simp: queues_ok_def ipc_queues_new_def pending_has_cap_def ep_live_def ep_index_def arena_wf_def arena_get_iff)

lemma boot_runs:
  fixes cpu :: "'c cpu"
  assumes r: "boot_ready bf sy hw m"
  obtains k sw h fs as_cap task_cap where "kernel_main_high cpu sy hw m = Some (k, sw)"
    "board_ok qemu_translator (ks_board k)" "qemu_vm_ok (ks_vm k)"
    "sd_current (bd_sched (ks_board k)) = Some (boot_task 1)" "queued (bd_sched (ks_board k)) = [boot_task 0, boot_task 3]"
    "sd_idle (bd_sched (ks_board k)) = Some (boot_task 2)"
    "sw = \<lparr>sw_save = None, sw_restore = 1, sw_activate = Some BOOTSTRAP_ADDRESS_SPACE_HANDLE\<rparr>"
    "get_task (ks_tasks k) = [boot_task 0 \<mapsto> kernel_task 0, boot_task 1 \<mapsto> kernel_task 1, boot_task 2 \<mapsto> kernel_task 2,
       boot_task 3 \<mapsto> \<lparr>task_id = 3, task_address_space_handle = h\<rparr>]"
    "get_endpoint (bd_ep_arena (ks_board k)) = [boot_endpoint \<mapsto> \<lparr>ep_id = 0\<rparr>]"
    "only_root ep_cap (ks_table_a k)" "ks_ep_cap_a k = root_handle" "only_root ep_cap (ks_table_b k)" "ks_ep_cap_b k = root_handle"
    "\<exists>t. bd_tables (ks_board k) = [sy_user_task_table sy \<mapsto> t] \<and> only_root console_cap t"
    "ks_bootstrap_cap k = root_handle" "as_cap \<noteq> root_handle" "task_cap \<noteq> root_handle" "as_cap \<noteq> task_cap"
    "node_at (ks_bootstrap_table k) = [root_handle \<mapsto> \<lparr>cn_cap = boot_as_cap, cn_parent = None, cn_depth = 0\<rparr>,
       as_cap \<mapsto> \<lparr>cn_cap = \<lparr>cap_rights = rights_empty, cap_object = CapAddressSpace h\<rparr>, cn_parent = Some 0, cn_depth = 1\<rparr>,
       task_cap \<mapsto> \<lparr>cn_cap = \<lparr>cap_rights = user_task_rights, cap_object = CapTask (boot_task 3)\<rparr>, cn_parent = None, cn_depth = 0\<rparr>]"
    "h \<noteq> BOOTSTRAP_ADDRESS_SPACE_HANDLE" "length fs = boot_image sy + 1" "distinct fs"
    "\<And>va. \<exists>e. vm_translates (ks_vm k) BOOTSTRAP_ADDRESS_SPACE_HANDLE va = Some (Inl e)"
    "\<And>va. va < 2 ^ 48 \<Longrightarrow> vm_translates (ks_vm k) h va = Some
       (if USERSPACE_IMAGE_BASE_VA \<le> va \<and> va < USERSPACE_IMAGE_BASE_VA + length fs * PAGE_SIZE
        then Inr (fs ! ((va - USERSPACE_IMAGE_BASE_VA) div PAGE_SIZE),
                  if (va - USERSPACE_IMAGE_BASE_VA) div PAGE_SIZE < boot_image sy then flags_user_execute else flags_user_write)
        else Inl NotMapped)"
    "\<And>i j. \<lbrakk>i < length fs; j < PAGE_SIZE\<rbrakk> \<Longrightarrow> bd_memory (ks_board k) (kva (fs ! i) + j) = image_byte m (sy_user_image sy) i j"
    "sd_as_handles (bd_sched (ks_board k)) ! 3 = Some h"
    "sd_cap_tables (bd_sched (ks_board k)) = (replicate TASK_ARENA_CAPACITY None)[3 := Some (sy_user_task_table sy)]"
    "sd_user_windows (bd_sched (ks_board k)) = (replicate TASK_ARENA_CAPACITY None)
       [3 := Some (user_window_new USERSPACE_IMAGE_BASE_VA (length fs * PAGE_SIZE))]"
    "sd_contexts (bd_sched (ks_board k)) ! 3 = cpu_init_user_context cpu (cpu_default cpu) USERSPACE_IMAGE_BASE_VA
       (USERSPACE_IMAGE_BASE_VA + length fs * PAGE_SIZE) (stack_top (sy_user_stack sy))"
    "length (sd_contexts (bd_sched (ks_board k))) = TASK_ARENA_CAPACITY"
    "\<And>ep i. \<not> blocked_on (bd_sched (ks_board k)) ep i" "bd_console (ks_board k) = []" "bd_queues (ks_board k) = ipc_queues_new"
    "now_ns (ks_cpu k) (hw_cntvct hw) = Some (ks_boot_ns k)" "cpu_frequency_hz (ks_cpu k) = hw_cntfrq hw"
proof -
  have l: "boot_layout bf" and ptr: "sy_user_task_table sy \<noteq> 0" and el: "hw_current_el hw = 1" "0 < hw_cntfrq hw"
    using r by (simp_all add: boot_ready_def)
  let ?B = BOOTSTRAP_ADDRESS_SPACE_HANDLE and ?ip = "boot_image sy"
  have ip: "?ip = div_ceil (snd (sy_user_image sy)) PAGE_SIZE" by (simp add: boot_image_def)
  obtain p where p: "boot_pmm (sy_stack_top sy) = Some p" "pmm_inv p" "pm_total p = 0x8000" "pr_start (pm_extent p) = PMM_EXTENT_START"
    "\<forall>i < 0x8000. i \<in> reserved_frames p \<longleftrightarrow> frame_pa p i < kernel_end sy" "used p = reserved_frames p"
    "0x4000 \<le> pm_free_count p"
    by (rule boot_pmm_ok [OF r])
  obtain arena t where a: "boot_address_space (boot_inner bf) = Some (arena, t, root_handle)"
      "next_slot ADDRESS_SPACE_ARENA_CAPACITY 1 arena" "get_address_space arena = [?B \<mapsto> \<lparr>as_inner = boot_inner bf\<rparr>]"
    and t: "cap_wf t" "node_at t = [root_handle \<mapsto> \<lparr>cn_cap = boot_as_cap, cn_parent = None, cn_depth = 0\<rparr>]"
      "\<forall>i. i \<noteq> 0 \<longrightarrow> ent t i = None"
    by (rule boot_address_space_ok)
  define v where "v = \<lparr>vm_frames = p, vm_memory = m, vm_spaces = arena, vm_tlb = []\<rparr>"
  note V = boot_vm_ok [OF r p(2-6) a(2,3), folded v_def]
  obtain t' v' c h fs where w: "boot_load (sy_user_image sy) t v root_handle = Some (t', v',
      \<lparr>li_as_cap = c, li_entry_va = USERSPACE_IMAGE_BASE_VA, li_stack_top_va = USERSPACE_IMAGE_BASE_VA + (?ip + 1) * PAGE_SIZE,
       li_image_bytes = snd (sy_user_image sy), li_stack_bytes = PAGE_SIZE\<rparr>)"
    "adds_node t t' c \<lparr>cn_cap = \<lparr>cap_rights = rights_empty, cap_object = CapAddressSpace h\<rparr>, cn_parent = Some 0, cn_depth = 1\<rparr>"
    "get_address_space arena h = None" "length fs = ?ip + 1"
    "loaded v h USERSPACE_IMAGE_BASE_VA (page_flags ?ip) (image_byte m (sy_user_image sy)) fs v'"
    by (rule boot_load_ok [OF r p(2-5,7) a(2) t v_def V(1) ip])
  let ?li = "\<lparr>li_as_cap = c, li_entry_va = USERSPACE_IMAGE_BASE_VA, li_stack_top_va = USERSPACE_IMAGE_BASE_VA + (?ip + 1) * PAGE_SIZE,
       li_image_bytes = snd (sy_user_image sy), li_stack_bytes = PAGE_SIZE\<rparr>"
  note N = adds_node_at [OF w(2)]
  have hB: "h \<noteq> ?B" using w(3) a(3) by auto
  have room: "\<not> cap_table_is_full t'"
  proof -
    have wf: "cap_wf t'" using w(2) by (simp add: adds_node_def)
    have "forest (ent t) 1 = None" "forest (ent t) 2 = None" using t(3) by (simp_all add: forest_None)
    then have "forest (ent t') 1 = None \<or> forest (ent t') 2 = None" using w(2) by (auto simp: adds_node_def)
    moreover have "(1 :: nat) < CAP_TABLE_CAPACITY" "(2 :: nat) < CAP_TABLE_CAPACITY" by (simp_all add: CAP_TABLE_CAPACITY_def)
    ultimately show ?thesis unfolding wf_full_iff [OF wf] forest_None by blast
  qed
  obtain gic log where g: "boot_gic (hw_devices hw) [] = Some (gic, log)" by (rule boot_gic_ok)
  have wf': "cap_wf t'" using w(2) by (simp add: adds_node_def)
  have cn: "node_at t' (li_as_cap ?li) = Some \<lparr>cn_cap = \<lparr>cap_rights = rights_empty, cap_object = CapAddressSpace h\<rparr>, cn_parent = Some 0, cn_depth = 1\<rparr>"
    using N by simp
  obtain t'' tasks c2 where tk: "boot_tasks t' ?li = Some (t'', tasks, boot_handle_set h)"
    "get_task tasks = [boot_task 0 \<mapsto> kernel_task 0, boot_task 1 \<mapsto> kernel_task 1, boot_task 2 \<mapsto> kernel_task 2,
       boot_task 3 \<mapsto> \<lparr>task_id = 3, task_address_space_handle = h\<rparr>]"
    "adds_node t' t'' c2 \<lparr>cn_cap = \<lparr>cap_rights = user_task_rights, cap_object = CapTask (boot_task 3)\<rparr>, cn_parent = None, cn_depth = 0\<rparr>"
    by (rule boot_tasks_ok [OF wf' cn _ room, of h]) (simp_all add: boot_handle_set_def)
  note N2 = adds_node_at [OF tk(3)]
  obtain ipc where ipc: "boot_ipc = Some ipc" "arena_wf ENDPOINT_ARENA_CAPACITY (bi_ep_arena ipc)"
    "get_endpoint (bi_ep_arena ipc) = [boot_endpoint \<mapsto> \<lparr>ep_id = 0\<rparr>]"
    "only_root ep_cap (bi_table_a ipc)" "bi_ep_cap_a ipc = root_handle"
    "only_root ep_cap (bi_table_b ipc)" "bi_ep_cap_b ipc = root_handle" "only_root console_cap (bi_user_table ipc)"
    by (rule boot_ipc_ok)
  obtain s where s: "boot_sched cpu sy (boot_handle_set h) ?li = Some s" "sched_wf s"
    "queued s = [boot_task 1, boot_task 0, boot_task 3]" "sd_current s = None" "sd_idle s = Some (boot_task 2)"
    and hs: "sd_task_handles s = (replicate TASK_ARENA_CAPACITY None)
       [1 := Some (boot_task 1), 0 := Some (boot_task 0), 3 := Some (boot_task 3), 2 := Some (boot_task 2)]"
    "sd_as_handles s = (replicate TASK_ARENA_CAPACITY None)[1 := Some ?B, 0 := Some ?B, 3 := Some h, 2 := Some ?B]"
    "sd_cap_tables s = (replicate TASK_ARENA_CAPACITY None)
       [3 := (if sy_user_task_table sy = 0 then None else Some (sy_user_task_table sy))]"
    "sd_user_windows s = (replicate TASK_ARENA_CAPACITY None)
       [3 := Some (user_window_new (li_entry_va ?li) (li_stack_top_va ?li - li_entry_va ?li))]"
    "sd_contexts s = (replicate TASK_ARENA_CAPACITY (cpu_default cpu))
       [1 := cpu_init_context cpu (cpu_default cpu) (sy_task_b sy) (stack_top (sy_task_b_stack sy)),
        0 := cpu_init_context cpu (cpu_default cpu) (sy_task_a sy) (stack_top (sy_task_a_stack sy)),
        3 := cpu_init_user_context cpu (cpu_default cpu) (li_entry_va ?li) (li_stack_top_va ?li) (stack_top (sy_user_stack sy)),
        2 := cpu_init_context cpu (cpu_default cpu) (sy_idle_entry sy) (stack_top (sy_idle_stack sy))]"
    "sd_task_states s = (replicate TASK_ARENA_CAPACITY TaskIdle)[1 := TaskReady, 0 := TaskReady, 3 := TaskReady, 2 := TaskReady]"
    by (rule boot_sched_ok [of cpu sy h ?li])
  have i: "(1 :: nat) < TASK_ARENA_CAPACITY" "(0 :: nat) < TASK_ARENA_CAPACITY" "(3 :: nat) < TASK_ARENA_CAPACITY" "(2 :: nat) < TASK_ARENA_CAPACITY"
    by (simp_all add: TASK_ARENA_CAPACITY_def)
  have next1: "next_task s = Some (boot_task 1)" using s(3) by (simp add: next_task_def)
  obtain q where q: "sched_start s = Some (s\<lparr>sd_ready := q, sd_current := Some (boot_task 1)\<rparr>,
        \<lparr>sw_save = None, sw_restore = 1, sw_activate = Some ?B\<rparr>)"
      "ring_items q = [boot_task 0, boot_task 3]" "sched_wf (s\<lparr>sd_ready := q, sd_current := Some (boot_task 1)\<rparr>)"
    using dispatch_tail_spec [OF s(2) next1] s(3) i hs(2) by auto
  let ?s = "s\<lparr>sd_ready := q, sd_current := Some (boot_task 1)\<rparr>"
  obtain qcpu where qc: "qemu_virt_cpu_new (hw_current_el hw) (hw_cntfrq hw) = Some qcpu" "cpu_frequency_hz qcpu = hw_cntfrq hw"
  proof -
    have "hw_cntfrq hw \<noteq> 0" using el(2) by auto
    then obtain res where "resolution_ns_for_freq (hw_cntfrq hw) = Some res" by (simp add: resolution_ns_for_freq_def Let_def)
    then show thesis using that el by (simp add: qemu_virt_cpu_new_def)
  qed
  obtain ns where ns: "now_ns qcpu (hw_cntvct hw) = Some ns" using el(2) qc(2) by (cases "hw_cntfrq hw = 0") (simp_all add: now_ns_def ticks_to_ns_def Let_def)
  let ?b0 = "\<lparr>bd_sched = s, bd_ep_arena = bi_ep_arena ipc, bd_queues = ipc_queues_new,
           bd_tables = [sy_user_task_table sy \<mapsto> bi_user_table ipc], bd_failclosed_table = cap_table_new,
           bd_as_arena = vm_spaces v', bd_bootstrap_as = boot_inner bf, bd_active_as = boot_inner bf,
           bd_memory = vm_memory v', bd_console = []\<rparr>"
  let ?k0 = "\<lparr>ks_board = ?b0, ks_pmm = vm_frames v', ks_tlb = vm_tlb v', ks_gic = gic, ks_cpu = qcpu, ks_boot_ns = ns,
        ks_bootstrap_table = t'', ks_bootstrap_cap = root_handle, ks_tasks = tasks,
        ks_table_a = bi_table_a ipc, ks_table_b = bi_table_b ipc,
        ks_ep_cap_a = bi_ep_cap_a ipc, ks_ep_cap_b = bi_ep_cap_b ipc, ks_mmio = log\<rparr>"
  have st: "boot_statics cpu sy hw m = Some ?k0"
    unfolding boot_statics_def qc(1) ns p(1) boot_root_ok [OF r] a(1) bind.bind_lunit prod.case v_def [symmetric] w(1) g tk(1) ipc(1) s(1) ..
  obtain sp where sp: "get_address_space (vm_spaces v') ?B = Some sp" "view_at (vm_memory v') (as_inner sp) = view_at m (boot_inner bf)"
  proof -
    have "vm_views view_at v' ?B = Some (view_at m (boot_inner bf))"
      using loadedD(5) [OF w(5), of ?B] hB a(3) by (simp add: vm_views_def v_def)
    then show thesis using that by (auto simp: vm_views_def)
  qed
  let ?b = "?b0\<lparr>bd_sched := ?s, bd_active_as := as_inner sp\<rparr>" and ?sw = "\<lparr>sw_save = None, sw_restore = 1, sw_activate = Some ?B\<rparr>"
  let ?k = "?k0\<lparr>ks_board := ?b\<rparr>"
  have run: "kernel_main_high cpu sy hw m = Some (?k, ?sw)"
    using q(1) sp(1) unfolding kernel_main_high_def st bind.bind_lunit
    by (simp add: boot_start_def board_activate_def activate_address_space_handle_def)
  have vm: "ks_vm ?k = v'" by (simp add: ks_vm_def)
  have b: "USERSPACE_IMAGE_BASE_VA mod PAGE_SIZE = 0" "USERSPACE_IMAGE_BASE_VA + length fs * PAGE_SIZE \<le> 2 ^ 48"
    using w(4) image_small(1) [OF r] by (simp_all add: USERSPACE_IMAGE_BASE_VA_def PAGE_SIZE_def ip)
  note T = loaded_translates [OF w(5) V(1) b]
  have ok: "qemu_vm_ok (ks_vm ?k)" unfolding vm by (rule T(1))
  have inv: "pmm_inv (vm_frames v')" using T(1) by (simp add: qemu_vm_ok_def vm_ok_def)
  have reach: "frames_reachable (qemu_translator (as_inner asp) (vm_memory v'))"
    if "get_address_space (vm_spaces v') k = Some asp" for k asp
  proof (rule reachable_views [OF T(1) that])
    fix va f fl assume va: "view_at (vm_memory v') (as_inner asp) va = Inr (f, fl)"
    show "direct_frame f"
    proof (cases "k = h")
      case True
      then have "run_view USERSPACE_IMAGE_BASE_VA (page_flags ?ip) fs va = Inr (f, fl)"
        using va that loaded_space [OF w(5)] by fastforce
      then have "f \<in> set fs" by (auto simp: run_view_def split: if_splits)
      then show ?thesis using loadedD(3) [OF w(5)] pmm_owned_direct [OF inv] by blast
    next
      case False
      then have "vm_views view_at v k = Some (view_at (vm_memory v') (as_inner asp))"
        using loadedD(5) [OF w(5) False] that by (simp add: vm_views_def)
      then have "view_at (vm_memory v') (as_inner asp) = view_at m (boot_inner bf)"
        using a(3) by (auto simp: vm_views_def v_def split: if_splits)
      then show ?thesis using va V(2) [of va] by auto
    qed
  qed
  have board: "board_ok qemu_translator ?b"
    unfolding board_ok_def
  proof (intro conjI allI impI)
    show "sched_wf (bd_sched ?b)" using q(3) by simp
    show "sd_idle (bd_sched ?b) \<noteq> None" using s(5) by simp
    show "sd_as_handles (bd_sched ?b) ! th_index k \<noteq> None" if "runnable (bd_sched ?b) k" for k
      using that i unfolding runnable_def bound_task_def by (auto simp: hs nth_list_update split: if_splits)
    show "queues_ok (bd_ep_arena ?b) (bd_queues ?b)" using ipc(2) by (simp add: queues_new_ok)
    show "cap_wf (bd_failclosed_table ?b)" using cap_table_new_wf by simp
    show "\<exists>e. cap_lookup (bd_failclosed_table ?b) k = Inl e" for k using empty_table_lookup by simp
    show "\<exists>t. bd_tables ?b p' = Some t \<and> cap_wf t" if "j < TASK_ARENA_CAPACITY" "sd_cap_tables (bd_sched ?b) ! j = Some p'" for j p'
      using that ipc(8) i ptr by (auto simp: hs nth_list_update only_root_def split: if_splits)
    show "frames_reachable (qemu_translator (as_inner asp) (bd_memory ?b))"
      if "get_address_space (bd_as_arena ?b) k = Some asp" for k asp using reach that by simp
    show "own_space ?b" using sp(1) i by (simp add: own_space_def hs)
  qed
  show thesis
  proof (rule that [OF run])
    show "board_ok qemu_translator (ks_board ?k)" using board by simp
    show "\<exists>t. bd_tables (ks_board ?k) = [sy_user_task_table sy \<mapsto> t] \<and> only_root console_cap t"
      using ipc(8) by (intro exI [of _ "bi_user_table ipc"]) simp
    show "c \<noteq> root_handle" "c2 \<noteq> root_handle" "c \<noteq> c2" using N N2 t(2) by (auto split: if_splits)
    show "node_at (ks_bootstrap_table ?k) = [root_handle \<mapsto> \<lparr>cn_cap = boot_as_cap, cn_parent = None, cn_depth = 0\<rparr>,
       c \<mapsto> \<lparr>cn_cap = \<lparr>cap_rights = rights_empty, cap_object = CapAddressSpace h\<rparr>, cn_parent = Some 0, cn_depth = 1\<rparr>,
       c2 \<mapsto> \<lparr>cn_cap = \<lparr>cap_rights = user_task_rights, cap_object = CapTask (boot_task 3)\<rparr>, cn_parent = None, cn_depth = 0\<rparr>]"
      using N N2 t(2) by simp
    show "\<exists>e. vm_translates (ks_vm ?k) ?B va = Some (Inl e)" for va
      using V(2) [of va] hB a(3) unfolding vm T(2) [OF hB [symmetric]] vm_translates_views [OF V(1)] by (simp add: vm_views_def v_def)
    show "vm_translates (ks_vm ?k) h va = Some
       (if USERSPACE_IMAGE_BASE_VA \<le> va \<and> va < USERSPACE_IMAGE_BASE_VA + length fs * PAGE_SIZE
        then Inr (fs ! ((va - USERSPACE_IMAGE_BASE_VA) div PAGE_SIZE),
                  if (va - USERSPACE_IMAGE_BASE_VA) div PAGE_SIZE < ?ip then flags_user_execute else flags_user_write)
        else Inl NotMapped)" if "va < 2 ^ 48" for va
      unfolding vm by (rule T(3) [OF that])
    show "bd_memory (ks_board ?k) (kva (fs ! i) + j) = image_byte m (sy_user_image sy) i j" if "i < length fs" "j < PAGE_SIZE" for i j
      using loadedD(7) [OF w(5) that] by simp
    show "sd_as_handles (bd_sched (ks_board ?k)) ! 3 = Some h" using i by (simp add: hs)
    show "sd_cap_tables (bd_sched (ks_board ?k)) = (replicate TASK_ARENA_CAPACITY None)[3 := Some (sy_user_task_table sy)]"
      using ptr by (simp add: hs)
    show "sd_user_windows (bd_sched (ks_board ?k)) = (replicate TASK_ARENA_CAPACITY None)
       [3 := Some (user_window_new USERSPACE_IMAGE_BASE_VA (length fs * PAGE_SIZE))]"
      using w(4) by (simp add: hs)
    show "sd_contexts (bd_sched (ks_board ?k)) ! 3 = cpu_init_user_context cpu (cpu_default cpu) USERSPACE_IMAGE_BASE_VA
       (USERSPACE_IMAGE_BASE_VA + length fs * PAGE_SIZE) (stack_top (sy_user_stack sy))"
      using i w(4) by (simp add: hs)
    show "length (sd_contexts (bd_sched (ks_board ?k))) = TASK_ARENA_CAPACITY" by (simp add: hs)
    show "\<not> blocked_on (bd_sched (ks_board ?k)) ep j" for ep j
      unfolding blocked_on_def by (auto simp: hs nth_update_any)
    show "now_ns (ks_cpu ?k) (hw_cntvct hw) = Some (ks_boot_ns ?k)" using ns by simp
    show "cpu_frequency_hz (ks_cpu ?k) = hw_cntfrq hw" using qc(2) by simp
  qed (use ok q s tk(2) ipc(3-7) hB w(4) loadedD(2) [OF w(5)] in simp_all)
qed

end
