(* ===== verification/Demo_Props.thy ===== *)
theory Demo_Props
  imports Demo Boot_Props
begin

text \<open>
  What each stretch of the demonstration does, from any state that differs from the
  booted one only in who runs, who is queued, who waits on the endpoint, what the
  endpoint holds and what was printed.
\<close>

section \<open>States of the run\<close>

definition demo_at ::
    "'c statics \<Rightarrow> task_handle \<Rightarrow> task_handle list \<Rightarrow> endpoint_state \<Rightarrow> nat option \<Rightarrow> 8 word list \<Rightarrow> 'c statics \<Rightarrow> bool" where
  "demo_at k0 c hs st waiter log k \<longleftrightarrow>
     (let b = ks_board k; s = bd_sched b; b0 = ks_board k0; s0 = bd_sched b0
      in sched_wf s \<and> sd_current s = Some c \<and> queued s = hs \<and> sd_idle s = Some (boot_task 2) \<and>
         (\<forall>i. blocked_on s boot_endpoint i \<longleftrightarrow> waiter = Some i) \<and>
         queues_ok (bd_ep_arena b) (bd_queues b) \<and> ep_live (bd_ep_arena b) boot_endpoint \<and>
         ep_state (bd_queues b) boot_endpoint = st \<and>
         only_root ep_cap (ks_table_a k) \<and> ks_ep_cap_a k = root_handle \<and>
         only_root ep_cap (ks_table_b k) \<and> ks_ep_cap_b k = root_handle \<and>
         bd_console b = log \<and>
         bd_ep_arena b0 = bd_ep_arena b \<and> bd_tables b0 = bd_tables b \<and> bd_as_arena b0 = bd_as_arena b \<and>
         bd_memory b0 = bd_memory b \<and> sd_task_handles s0 = sd_task_handles s \<and> sd_as_handles s0 = sd_as_handles s \<and>
         sd_cap_tables s0 = sd_cap_tables s \<and> sd_user_windows s0 = sd_user_windows s \<and>
         ks_cpu k0 = ks_cpu k \<and> ks_boot_ns k0 = ks_boot_ns k)"

lemma demo_atD:
  assumes "demo_at k0 c hs st waiter log k"
  shows "sched_wf (bd_sched (ks_board k))" "sd_current (bd_sched (ks_board k)) = Some c"
    "queued (bd_sched (ks_board k)) = hs" "sd_idle (bd_sched (ks_board k)) = Some (boot_task 2)"
    "blocked_on (bd_sched (ks_board k)) boot_endpoint i \<longleftrightarrow> waiter = Some i"
    "queues_ok (bd_ep_arena (ks_board k)) (bd_queues (ks_board k))"
    "ep_live (bd_ep_arena (ks_board k)) boot_endpoint" "ep_state (bd_queues (ks_board k)) boot_endpoint = st"
    "bd_console (ks_board k) = log"
  using assms unfolding demo_at_def Let_def by blast+

lemma demo_at_sched:
  assumes d: "demo_at k0 c hs st waiter log k"
    and wf: "sched_wf ((bd_sched (ks_board k))\<lparr>sd_task_states := ts, sd_ready := rq, sd_current := Some c'\<rparr>)"
    and q: "ring_items rq = hs'"
    and blk: "\<And>i. blocked_on ((bd_sched (ks_board k))\<lparr>sd_task_states := ts\<rparr>) boot_endpoint i \<longleftrightarrow> waiter' = Some i"
    and iq: "queues_ok (bd_ep_arena (ks_board k)) q'" "ep_state q' boot_endpoint = st'"
    and t: "fst (side_table w k) = t"
  shows "demo_at k0 c' hs' st' waiter' log
    (put_side w ((bd_sched (ks_board k))\<lparr>sd_task_states := ts, sd_ready := rq, sd_current := Some c'\<rparr>) q' t sw k)"
  using d wf q blk iq t
  by (cases w) (simp_all add: demo_at_def Let_def put_side_def side_table_def blocked_on_def)

lemma side_facts:
  assumes d: "demo_at k0 c hs st waiter log k"
  obtains t where "side_table w k = (t, root_handle)" "cap_wf t" "validate_ep_cap t root_handle rights_SEND = Inr boot_endpoint"
    "validate_ep_cap t root_handle rights_RECV = Inr boot_endpoint" "resolve_ep_cap t root_handle = Inr boot_endpoint"
proof -
  have "only_root ep_cap t \<Longrightarrow> cap_wf t \<and> validate_ep_cap t root_handle rights_SEND = Inr boot_endpoint \<and>
      validate_ep_cap t root_handle rights_RECV = Inr boot_endpoint \<and> resolve_ep_cap t root_handle = Inr boot_endpoint" for t
    using only_root_lookup [of ep_cap t root_handle]
    by (simp add: only_root_def validate_ep_cap_def resolve_ep_cap_def ep_cap_def ep_rights_def rights_contains_def
        rights_union_def rights_SEND_def rights_RECV_def)
  then show thesis
    using that d by (cases w) (auto simp: demo_at_def Let_def side_table_def)
qed

lemma same_states_update: "s\<lparr>sd_task_states := sd_task_states s, sd_ready := q, sd_current := c\<rparr> = s\<lparr>sd_ready := q, sd_current := c\<rparr>"
  by simp

section \<open>Stretches of the kernel tasks\<close>

lemma demo_print: "demo_at k0 c hs st waiter log k \<Longrightarrow> demo_at k0 c hs st waiter (log @ bs) (print bs k)"
  by (simp add: demo_at_def Let_def print_def)

lemma demo_send_queued:
  assumes d: "demo_at k0 c hs Idle waiter log k"
  shows "\<exists>k'. side_send w msg k = Some (k', None) \<and> demo_at k0 c hs (SendPending msg None) waiter log k'"
proof -
  note D = demo_atD [OF d]
  let ?b = "ks_board k"
  obtain t where t: "side_table w k = (t, root_handle)" "cap_wf t" "validate_ep_cap t root_handle rights_SEND = Inr boot_endpoint"
      "resolve_ep_cap t root_handle = Inr boot_endpoint"
    by (rule side_facts [OF d])
  have v: "send_verdict (bd_ep_arena ?b) (bd_queues ?b) root_handle t None = Inr boot_endpoint"
    using t D by (simp add: send_verdict_def transfer_ok_def queue_occupied_def)
  obtain t' cap st out where "cap_left t t' None cap"
      "send_state (ep_state (bd_queues ?b) boot_endpoint) msg cap = (st, out)"
      "ipc_send (bd_ep_arena ?b) (bd_queues ?b) root_handle t msg None = Some ((set_ep (bd_queues ?b) boot_endpoint st, t'), Inr out)"
    by (rule ipc_send_ok [OF t(2) D(6) v])
  then have s: "ipc_send (bd_ep_arena ?b) (bd_queues ?b) root_handle t msg None =
      Some ((set_ep (bd_queues ?b) boot_endpoint (SendPending msg None), t), Inr Enqueued)"
    using D by (auto simp: cap_left_def send_state_def)
  let ?s = "bd_sched ?b" and ?q = "set_ep (bd_queues ?b) boot_endpoint (SendPending msg None)"
  have eq: "?s\<lparr>sd_task_states := sd_task_states ?s, sd_ready := sd_ready ?s, sd_current := Some c\<rparr> = ?s" using D(2) by simp
  have "demo_at k0 c hs (SendPending msg None) waiter log (put_side w ?s ?q t None k)"
    using demo_at_sched [OF d, where ts = "sd_task_states ?s" and rq = "sd_ready ?s" and c' = c, unfolded eq]
      D set_ep_ok [OF D(6,7)] ep_state_set_ep [OF D(6,7,7)] t(1) by (simp add: queued_def)
  then show ?thesis using s t by (simp add: Let_def side_send_def ipc_send_and_yield_def)
qed

lemma demo_recv_now:
  assumes d: "demo_at k0 c hs st waiter log k" and p: "parked st = Some (msg, None)"
  shows "\<exists>k'. side_recv w k = Some (k', RecvDone (Received msg None)) \<and> demo_at k0 c hs Idle waiter log k'"
    and "\<exists>k'. side_resume w k = Some (k', Received msg None) \<and> demo_at k0 c hs Idle waiter log k'"
proof -
  note D = demo_atD [OF d]
  let ?b = "ks_board k"
  obtain t where t: "side_table w k = (t, root_handle)" "cap_wf t" "validate_ep_cap t root_handle rights_RECV = Inr boot_endpoint"
      "resolve_ep_cap t root_handle = Inr boot_endpoint"
    by (rule side_facts [OF d])
  have st: "st \<noteq> RecvWaiting" "\<not> pending_has_cap st"
    using p by (cases st; auto simp: parked_def pending_has_cap_def)+
  have v: "recv_verdict (bd_ep_arena ?b) (bd_queues ?b) root_handle t = Inr boot_endpoint"
    using t D st by (simp add: recv_verdict_def)
  let ?s = "bd_sched ?b" and ?q = "set_ep (bd_queues ?b) boot_endpoint Idle"
  have r: "ipc_recv (bd_ep_arena ?b) (bd_queues ?b) root_handle t = Some ((?q, t), Inr (Received msg None))"
    using ipc_recv_ok(2) [OF t(2) D(6) v, of msg None] D(8) p by (auto simp: cap_arrived_def)
  have eq: "?s\<lparr>sd_task_states := sd_task_states ?s, sd_ready := sd_ready ?s, sd_current := Some c\<rparr> = ?s" using D(2) by simp
  have "demo_at k0 c hs Idle waiter log (put_side w ?s ?q t None k)"
    using demo_at_sched [OF d, where ts = "sd_task_states ?s" and rq = "sd_ready ?s" and c' = c, unfolded eq]
      D set_ep_ok [OF D(6,7)] ep_state_set_ep [OF D(6,7,7)] t(1) by (simp add: queued_def)
  then show "\<exists>k'. side_recv w k = Some (k', RecvDone (Received msg None)) \<and> demo_at k0 c hs Idle waiter log k'"
    and "\<exists>k'. side_resume w k = Some (k', Received msg None) \<and> demo_at k0 c hs Idle waiter log k'"
    using r t D(2) by (simp_all add: side_recv_def Let_def side_resume_def ipc_recv_and_yield_def ipc_recv_resume_def)
qed

lemma demo_recv_blocks:
  assumes d: "demo_at k0 c (h # hs) st None log k" and p: "parked st = None" "st \<noteq> RecvWaiting" and c: "c \<noteq> boot_task 2"
  shows "\<exists>k' sw. side_recv w k = Some (k', RecvSwitch sw) \<and> demo_at k0 h hs RecvWaiting (Some (th_index c)) log k'"
proof -
  note D = demo_atD [OF d]
  let ?b = "ks_board k"
  let ?s = "bd_sched ?b" and ?q = "set_ep (bd_queues ?b) boot_endpoint RecvWaiting"
  obtain t where t: "side_table w k = (t, root_handle)" "cap_wf t" "validate_ep_cap t root_handle rights_RECV = Inr boot_endpoint"
      "resolve_ep_cap t root_handle = Inr boot_endpoint"
    by (rule side_facts [OF d])
  have np: "\<not> pending_has_cap st" using p(1) by (cases st) (auto simp: parked_def pending_has_cap_def)
  have v: "recv_verdict (bd_ep_arena ?b) (bd_queues ?b) root_handle t = Inr boot_endpoint"
    using t D p(2) np by (simp add: recv_verdict_def)
  have r: "ipc_recv (bd_ep_arena ?b) (bd_queues ?b) root_handle t = Some ((?q, t), Inr Pending)"
    using ipc_recv_ok(1) [OF t(2) D(6) v] D(8) p(1) by simp
  have ho: "handover ?s c = Some h" using D(3) by (simp add: handover_def)
  obtain rq sw where rq: "ring_wf TASK_ARENA_CAPACITY rq" "ring_items rq = tl (queued ?s)"
      "ipc_recv_and_yield ?s (bd_ep_arena ?b) (bd_queues ?b) t root_handle =
        Some ((?s\<lparr>sd_task_states := (sd_task_states ?s)[th_index c := TaskBlocked boot_endpoint],
                sd_ready := rq, sd_current := Some h\<rparr>, ?q, t), Inr (RecvSwitch sw))"
    using recv_bridge_block [OF D(1,2) t(4) r ho] by blast
  have wf: "sched_wf (?s\<lparr>sd_task_states := (sd_task_states ?s)[th_index c := TaskBlocked boot_endpoint],
      sd_ready := rq, sd_current := Some h\<rparr>)"
    by (rule block_wf [OF D(1,2) _ ho rq(1,2)]) (use D(4) c in simp)
  have ci: "th_index c < TASK_ARENA_CAPACITY" "length (sd_task_states ?s) = TASK_ARENA_CAPACITY"
    using sched_wfD(1) [OF D(1)] sched_wfD(5) [OF D(1,2)] runnable_index by (auto simp: sized_def)
  have blk: "blocked_on (?s\<lparr>sd_task_states := (sd_task_states ?s)[th_index c := TaskBlocked boot_endpoint]\<rparr>) boot_endpoint i \<longleftrightarrow>
      Some (th_index c) = Some i" for i
    using D(5) [of i] ci by (auto simp: blocked_on_def nth_update_any)
  have "demo_at k0 h hs RecvWaiting (Some (th_index c)) log
    (put_side w (?s\<lparr>sd_task_states := (sd_task_states ?s)[th_index c := TaskBlocked boot_endpoint],
      sd_ready := rq, sd_current := Some h\<rparr>) ?q t (Some sw) k)"
    by (rule demo_at_sched [OF d wf _ blk]) (use rq(2) D t(1) set_ep_ok [OF D(6,7)] ep_state_set_ep [OF D(6,7,7)] in simp_all)
  then show ?thesis using rq(3) t by (simp add: side_recv_def Let_def)
qed

text \<open>A yield among runnable tasks.\<close>

lemma yield_to_front:
  assumes wf: "sched_wf s" and c: "sd_current s = Some c" "sd_idle s \<noteq> Some c" and q: "queued s = h # hs"
  shows "\<exists>rq sw. yield_now s = Some (s\<lparr>sd_ready := rq, sd_current := Some h\<rparr>, Inr (Some sw)) \<and> ring_items rq = hs @ [c] \<and>
    sched_wf (s\<lparr>sd_ready := rq, sd_current := Some h\<rparr>)"
proof -
  obtain rq sw where y: "yield_now s = Some (s\<lparr>sd_ready := rq, sd_current := Some h\<rparr>, Inr (Some sw))" "ring_items rq = hs @ [c]"
    using yield_now_spec [OF wf c(1)] c(2) q by auto
  obtain rq' c' r where "yield_now s = Some (s\<lparr>sd_ready := rq', sd_current := c'\<rparr>, r)"
      "sched_wf (s\<lparr>sd_ready := rq', sd_current := c'\<rparr>)"
    using yield_now_ok [OF wf] by blast
  then have "sched_wf (s\<lparr>sd_ready := rq, sd_current := Some h\<rparr>)" using y(1) by (metis option.inject prod.inject)
  then show ?thesis using y by blast
qed

lemma demo_yields:
  assumes d: "demo_at k0 c (h # hs) st waiter log k" and c: "c \<noteq> boot_task 2"
  shows "\<exists>k' sw. side_yield k = Some (k', Some sw) \<and> demo_at k0 h (hs @ [c]) st waiter log k'"
proof -
  note D = demo_atD [OF d]
  let ?s = "bd_sched (ks_board k)"
  obtain rq sw where y: "yield_now ?s = Some (?s\<lparr>sd_ready := rq, sd_current := Some h\<rparr>, Inr (Some sw))" "ring_items rq = hs @ [c]"
      "sched_wf (?s\<lparr>sd_ready := rq, sd_current := Some h\<rparr>)"
    using yield_to_front [OF D(1,2) _ D(3)] D(4) c by auto
  have "demo_at k0 h (hs @ [c]) st waiter log
      (k\<lparr>ks_board := board_activate (sw_activate sw) ((ks_board k)\<lparr>bd_sched := ?s\<lparr>sd_ready := rq, sd_current := Some h\<rparr>\<rparr>)\<rparr>)"
    using d y(2,3) by (simp add: demo_at_def Let_def blocked_on_def)
  then show ?thesis using y(1) by (auto simp: side_yield_def Let_def)
qed

lemma demo_send_wakes:
  assumes d: "demo_at k0 c (h # hs) RecvWaiting (Some i) log k" and c: "c \<noteq> boot_task 2"
    and i: "sd_task_handles (bd_sched (ks_board k0)) ! i = Some v"
  shows "\<exists>k' sw. side_send w msg k = Some (k', Some sw) \<and> demo_at k0 h (hs @ [v, c]) (RecvComplete msg None) None log k'"
proof -
  note D = demo_atD [OF d]
  let ?b = "ks_board k"
  let ?s = "bd_sched ?b" and ?q = "set_ep (bd_queues ?b) boot_endpoint (RecvComplete msg None)"
  obtain t where t: "side_table w k = (t, root_handle)" "cap_wf t" "validate_ep_cap t root_handle rights_SEND = Inr boot_endpoint"
      "resolve_ep_cap t root_handle = Inr boot_endpoint"
    by (rule side_facts [OF d])
  have vd: "send_verdict (bd_ep_arena ?b) (bd_queues ?b) root_handle t None = Inr boot_endpoint"
    using t D by (simp add: send_verdict_def transfer_ok_def queue_occupied_def)
  obtain t' cap st out where "cap_left t t' None cap"
      "send_state (ep_state (bd_queues ?b) boot_endpoint) msg cap = (st, out)"
      "ipc_send (bd_ep_arena ?b) (bd_queues ?b) root_handle t msg None = Some ((set_ep (bd_queues ?b) boot_endpoint st, t'), Inr out)"
    by (rule ipc_send_ok [OF t(2) D(6) vd])
  then have s: "ipc_send (bd_ep_arena ?b) (bd_queues ?b) root_handle t msg None = Some ((?q, t), Inr Delivered)"
    using D by (auto simp: cap_left_def send_state_def)
  have b: "blocked_on ?s boot_endpoint i" using D(5) by simp
  obtain j g rq where w: "blocked_on ?s boot_endpoint j" "sd_task_handles ?s ! j = Some g" "ring_items rq = queued ?s @ [g]"
      "unblock_receiver_on ?s boot_endpoint = Some (?s\<lparr>sd_task_states := (sd_task_states ?s)[j := TaskReady], sd_ready := rq\<rparr>)"
      "sched_wf (?s\<lparr>sd_task_states := (sd_task_states ?s)[j := TaskReady], sd_ready := rq\<rparr>)"
    using unblock_some [OF D(1) b] by blast
  let ?s1 = "?s\<lparr>sd_task_states := (sd_task_states ?s)[j := TaskReady], sd_ready := rq\<rparr>"
  have ji: "j = i" "g = v"
  proof -
    show "j = i" using D(5) [of j] w(1) by simp
    then show "g = v" using w(2) i d by (simp add: demo_at_def Let_def)
  qed
  have q1: "queued ?s1 = h # hs @ [v]" using w(3) ji D(3) by simp
  obtain rq' sw where y: "yield_now ?s1 = Some (?s1\<lparr>sd_ready := rq', sd_current := Some h\<rparr>, Inr (Some sw))"
      "ring_items rq' = (hs @ [v]) @ [c]" "sched_wf (?s1\<lparr>sd_ready := rq', sd_current := Some h\<rparr>)"
    using yield_to_front [OF w(5) _ _ q1, of c] D(2,4) c by auto
  have "j < TASK_ARENA_CAPACITY" "length (sd_task_states ?s) = TASK_ARENA_CAPACITY"
    using w(1) sched_wfD(1) [OF D(1)] by (simp_all add: blocked_on_def sized_def)
  then have blk: "blocked_on (?s\<lparr>sd_task_states := (sd_task_states ?s)[j := TaskReady]\<rparr>) boot_endpoint n \<longleftrightarrow> None = Some n" for n
    using D(5) [of n] ji by (auto simp: blocked_on_def nth_update_any)
  have "demo_at k0 h (hs @ [v, c]) (RecvComplete msg None) None log
    (put_side w (?s\<lparr>sd_task_states := (sd_task_states ?s)[j := TaskReady], sd_ready := rq', sd_current := Some h\<rparr>) ?q t (Some sw) k)"
    by (rule demo_at_sched [OF d _ _ blk])
      (use y(2,3) D t(1) set_ep_ok [OF D(6,7)] ep_state_set_ep [OF D(6,7,7)] in simp_all)
  then show ?thesis using s t w(4) y(1) by (simp add: Let_def side_send_def ipc_send_and_yield_def)
qed

section \<open>The user program\<close>

text \<open>The two system calls, from a board on which the caller's bindings are complete.\<close>

lemma user_write_call:
  assumes wf: "sched_wf (bd_sched b)" and rc: "running_context b = Some (p, w, a)"
    and t: "bd_tables b p = Some t" "only_root console_cap t"
    and reach: "frames_reachable (translate a (bd_memory b))"
    and g: "g + length bs < 2 ^ 64" "in_window w g (length bs)" "span_ok (translate a (bd_memory b)) False g (g + length bs)"
      "map (\<lambda>i. bd_memory b (user_loc (translate a (bd_memory b)) (g + i))) [0..<length bs] = bs"
  shows "\<exists>f'. syscall_entry debug translate b (user_console_write f HELLO_CONSOLE_CAP (g, length bs)) =
      Some (b\<lparr>bd_console := bd_console b @ (if debug then bs else [])\<rparr>, ReturnToTask f') \<and>
    console_write_result f' = (if debug then Inr (length bs) else Inl (as_status BadSyscallNumber))"
proof -
  let ?f = "user_console_write f HELLO_CONSOLE_CAP (g, length bs)"
  let ?ctx = "board_context translate b t w a True"
  let ?args = "sa_args (frame_args ?f)"
  have n: "unat (of_nat g :: 64 word) = g" "unat (of_nat (length bs) :: 64 word) = length bs"
    using g(1) by (simp_all add: unat_of_nat mod_less)
  have args: "sa_number (frame_args ?f) = 5" "?args ! 0 = 0" "?args ! Suc 0 = of_nat g" "?args ! 2 = of_nat (length bs)"
    by (simp_all add: frame_args_def user_console_write_def SYS_CONSOLE_WRITE_def HELLO_CONSOLE_CAP_def numeral_2_eq_2)
  have same: "(bd_tables b)(p \<mapsto> t) = bd_tables b" using t(1) by (simp add: fun_upd_idem)
  have cap: "validate_debug_console_cap t (decode_required_cap_handle 0) = Inr ()"
    using only_root_lookup [OF t(2), of root_handle]
    by (simp add: validate_debug_console_cap_def decode_required_cap_handle_def root_handle_def [symmetric] console_cap_def
        cap_kind_def rights_contains_def rights_CONSOLE_WRITE_def)
  have v: "console_verdict ?ctx ?args = Inr (length bs)"
    using cap g(2,3) n by (simp add: console_verdict_def args Let_def board_context_def)
  have bytes: "user_bytes ?ctx (unat (?args ! 1)) 0 (length bs) = bs"
    using g(4) n by (simp add: user_bytes_def args board_context_def)
  have r: "frames_reachable (sc_translate ?ctx (sc_memory ?ctx))" using reach by (simp add: board_context_def)
  note wr = sys_console_write_spec [OF r, of ?args, unfolded v sum.case bytes]
  note entry = syscall_entry_eq [OF wf, of debug translate ?f, unfolded rc option.case prod.case]
  have done_call: "syscall_entry debug translate b ?f = Some (b\<lparr>bd_console := bd_console b @ out\<rparr>, ReturnToTask (frame_resume r ?f))"
    if "dispatch debug ?ctx (frame_args ?f) = Some (?ctx\<lparr>sc_console := sc_console ?ctx @ out\<rparr>, Resume r)" for r out
    using that t(1) same unfolding entry by (simp add: apply_effect_def) (simp add: board_update_def board_context_def)
  show ?thesis
  proof (cases debug)
    case True
    let ?r = "with_payload 0 (of_nat (length bs)) syscall_ok"
    have "syscall_entry debug translate b ?f = Some (b\<lparr>bd_console := bd_console b @ bs\<rparr>, ReturnToTask (frame_resume ?r ?f))"
      by (rule done_call) (use True wr in \<open>simp add: dispatch_def syscall_decode_def args\<close>)
    then show ?thesis
      using True n by (intro exI [of _ "frame_resume ?r ?f"]) (simp add: console_write_result_def frame_resume_def one_payload)
  next
    case False
    let ?r = "syscall_err BadSyscallNumber"
    have "syscall_entry debug translate b ?f = Some (b\<lparr>bd_console := bd_console b @ []\<rparr>, ReturnToTask (frame_resume ?r ?f))"
      by (rule done_call) (use False in \<open>simp add: dispatch_def syscall_decode_def args\<close>)
    moreover have "as_status BadSyscallNumber \<noteq> 0" using as_status_nonzero [of BadSyscallNumber] by (simp add: OK_STATUS_def)
    ultimately show ?thesis
      using False by (intro exI [of _ "frame_resume ?r ?f"]) (simp add: console_write_result_def frame_resume_def syscall_err_def)
  qed
qed

lemma user_exit_call:
  assumes wf: "sched_wf (bd_sched b)" and rc: "running_context b = Some (p, w, a)" and t: "bd_tables b p = Some t"
    and nx: "next_task (bd_sched b) = Some h"
  shows "\<exists>rq sw. syscall_entry debug translate b (user_task_exit f code) =
      Some (board_activate (sw_activate sw)
        (b\<lparr>bd_console := bd_console b @ exit_banner, bd_sched := (bd_sched b)\<lparr>sd_ready := rq, sd_current := Some h\<rparr>\<rparr>), TaskGone sw) \<and>
    ring_items rq = tl (queued (bd_sched b)) \<and> sched_wf ((bd_sched b)\<lparr>sd_ready := rq, sd_current := Some h\<rparr>)"
proof -
  let ?f = "user_task_exit f code"
  let ?ctx = "board_context translate b t w a True"
  have same: "(bd_tables b)(p \<mapsto> t) = bd_tables b" using t by (simp add: fun_upd_idem)
  have "dispatch debug ?ctx (frame_args ?f) = Some (?ctx, Terminate (sa_args (frame_args ?f) ! 0))"
    by (simp add: dispatch_def syscall_decode_def frame_args_def user_task_exit_def SYS_TASK_EXIT_def) (simp add: board_context_def)
  moreover obtain rq where "task_exit_current (bd_sched b) = Some ((bd_sched b)\<lparr>sd_ready := rq, sd_current := Some h\<rparr>,
      \<lparr>sw_save = None, sw_restore = th_index h, sw_activate = sd_as_handles (bd_sched b) ! th_index h\<rparr>)"
      "ring_items rq = tl (queued (bd_sched b))" "sched_wf ((bd_sched b)\<lparr>sd_ready := rq, sd_current := Some h\<rparr>)"
    using dispatch_tail_spec [OF wf nx] by blast
  ultimately show ?thesis
    using t same
    by (auto simp: syscall_entry_eq [OF wf, of debug translate ?f, unfolded rc option.case prod.case] apply_effect_def
        board_update_def board_context_def)
qed

lemma running_context_console [simp]: "running_context (b\<lparr>bd_console := bs\<rparr>) = running_context b"
  by (simp add: running_context_def cong: option.case_cong)

text \<open>The user task's stretch: both calls, and the task is gone.\<close>

lemma demo_user:
  assumes d: "demo_at k0 (boot_task 3) (h # hs) st waiter log k"
    and rc: "running_context (ks_board k) = Some (p, w, a)"
    and t: "bd_tables (ks_board k) p = Some t" "only_root console_cap t"
    and reach: "frames_reachable (de_translate e a (bd_memory (ks_board k)))"
    and g: "de_greeting e + length GREETING < 2 ^ 64" "in_window w (de_greeting e) (length GREETING)"
      "span_ok (de_translate e a (bd_memory (ks_board k))) False (de_greeting e) (de_greeting e + length GREETING)"
      "map (\<lambda>i. bd_memory (ks_board k) (user_loc (de_translate e a (bd_memory (ks_board k))) (de_greeting e + i))) [0..<length GREETING] =
         GREETING"
  shows "\<exists>k' sw. user_task e AtEntry k = Some (k', Ended, Some sw) \<and>
    demo_at k0 h hs st waiter (log @ (if de_debug e then GREETING else []) @ exit_banner) k'"
proof -
  note D = demo_atD [OF d]
  let ?b = "ks_board k" and ?out = "if de_debug e then GREETING else []"
  let ?b1 = "?b\<lparr>bd_console := bd_console ?b @ ?out\<rparr>"
  obtain f' where w1: "syscall_entry (de_debug e) (de_translate e) ?b
      (user_console_write (de_frame e) HELLO_CONSOLE_CAP (de_greeting e, length GREETING)) = Some (?b1, ReturnToTask f')"
    using user_write_call [where translate = "de_translate e" and g = "de_greeting e", OF D(1) rc t reach g] by blast
  have rc1: "running_context ?b1 = Some (p, w, a)" using rc by simp
  have nx: "next_task (bd_sched ?b1) = Some h" using D(3) by (simp add: next_task_def)
  have wf1: "sched_wf (bd_sched ?b1)" and t1: "bd_tables ?b1 p = Some t" using D(1) t(1) by simp_all
  obtain rq sw where x: "syscall_entry (de_debug e) (de_translate e) ?b1 (user_task_exit (de_between e f') 0) =
      Some (board_activate (sw_activate sw)
        (?b1\<lparr>bd_console := bd_console ?b1 @ exit_banner, bd_sched := (bd_sched ?b1)\<lparr>sd_ready := rq, sd_current := Some h\<rparr>\<rparr>), TaskGone sw)"
      "ring_items rq = tl (queued (bd_sched ?b1))" "sched_wf ((bd_sched ?b1)\<lparr>sd_ready := rq, sd_current := Some h\<rparr>)"
    using user_exit_call [OF wf1 rc1 t1 nx] by blast
  let ?b2 = "board_activate (sw_activate sw)
        (?b1\<lparr>bd_console := bd_console ?b1 @ exit_banner, bd_sched := (bd_sched ?b1)\<lparr>sd_ready := rq, sd_current := Some h\<rparr>\<rparr>)"
  have "demo_at k0 h hs st waiter (log @ ?out @ exit_banner) (k\<lparr>ks_board := ?b2\<rparr>)"
    using d x(2,3) by (simp add: demo_at_def Let_def blocked_on_def)
  then show ?thesis using w1 x(1) by (simp add: user_task_def hello_start_def hello_finish_def)
qed

end
