(* ===== verification/Boot_Claims.thy ===== *)
theory Boot_Claims
  imports Boot_Props
begin

text \<open>What the boot establishes, on a concrete board too.\<close>

text \<open>
  C7: The boot establishes the invariants. From what the linker, the start code and
  the migration to the high half leave, \<open>kernel_main_high\<close> reaches the first
  dispatch without panicking, whatever the image, the stacks and the entry points
  are: every invariant that the system calls and the address-space operations
  preserve holds of the state then. Four tasks exist, the user task alone in the
  address space that was loaded; task B runs first, then come A and the user task,
  idle is the fallback, and one endpoint is live.
\<close>

theorem boot_establishes_system:
  assumes "boot_ready bf sy hw m"
  shows "\<exists>k sw h. kernel_main_high cpu sy hw m = Some (k, sw) \<and>
    board_ok qemu_translator (ks_board k) \<and> qemu_vm_ok (ks_vm k) \<and>
    sd_current (bd_sched (ks_board k)) = Some (boot_task 1) \<and> queued (bd_sched (ks_board k)) = [boot_task 0, boot_task 3] \<and>
    sd_idle (bd_sched (ks_board k)) = Some (boot_task 2) \<and>
    sw = \<lparr>sw_save = None, sw_restore = 1, sw_activate = Some BOOTSTRAP_ADDRESS_SPACE_HANDLE\<rparr> \<and>
    get_task (ks_tasks k) = [boot_task 0 \<mapsto> kernel_task 0, boot_task 1 \<mapsto> kernel_task 1, boot_task 2 \<mapsto> kernel_task 2,
       boot_task 3 \<mapsto> \<lparr>task_id = 3, task_address_space_handle = h\<rparr>] \<and>
    h \<noteq> BOOTSTRAP_ADDRESS_SPACE_HANDLE \<and> sd_as_handles (bd_sched (ks_board k)) ! 3 = Some h \<and>
    get_endpoint (bd_ep_arena (ks_board k)) = [boot_endpoint \<mapsto> \<lparr>ep_id = 0\<rparr>]"
  by (rule boot_runs [OF assms, of cpu]) (rule exI, rule exI, rule exI, (rule conjI, assumption)+, assumption)

text \<open>
  C8: The boot grants no more than it should. At the first dispatch the kernel
  tasks A and B each hold one capability, to send and receive on the endpoint, and
  the user task one, to write to the console, at the handle its program expects; no
  other handle names anything. The bootstrap table holds the bootstrap address space,
  the loaded one without any right, and the user task. Nothing is mapped page by page
  in the bootstrap address space, and in the user's exactly its image, executable and
  not writable, and one page of stack, with the bytes of the image followed by zeros;
  the user's window for the kernel's accesses is exactly that run of pages.
\<close>

theorem boot_grants_least_authority:
  assumes "boot_ready bf sy hw m"
  shows "\<exists>k sw h fs as_cap task_cap t. kernel_main_high cpu sy hw m = Some (k, sw) \<and>
    (\<forall>x. cap_lookup (ks_table_a k) x = (if x = ks_ep_cap_a k then Inr ep_cap else Inl InvalidHandle)) \<and>
    (\<forall>x. cap_lookup (ks_table_b k) x = (if x = ks_ep_cap_b k then Inr ep_cap else Inl InvalidHandle)) \<and>
    bd_tables (ks_board k) = [sy_user_task_table sy \<mapsto> t] \<and>
    (\<forall>x. cap_lookup t x = (if x = \<lparr>ch_index = 0, ch_generation = 0\<rparr> then Inr console_cap else Inl InvalidHandle)) \<and>
    sd_cap_tables (bd_sched (ks_board k)) = (replicate TASK_ARENA_CAPACITY None)[3 := Some (sy_user_task_table sy)] \<and>
    (\<forall>x. cap_lookup (ks_bootstrap_table k) x =
       (if x = ks_bootstrap_cap k then Inr boot_as_cap
        else if x = as_cap then Inr \<lparr>cap_rights = rights_empty, cap_object = CapAddressSpace h\<rparr>
        else if x = task_cap then Inr \<lparr>cap_rights = user_task_rights, cap_object = CapTask (boot_task 3)\<rparr>
        else Inl InvalidHandle)) \<and>
    (\<forall>va. \<exists>e. vm_translates (ks_vm k) BOOTSTRAP_ADDRESS_SPACE_HANDLE va = Some (Inl e)) \<and>
    length fs = boot_image sy + 1 \<and> distinct fs \<and>
    (\<forall>va < 2 ^ 48. vm_translates (ks_vm k) h va = Some
       (if USERSPACE_IMAGE_BASE_VA \<le> va \<and> va < USERSPACE_IMAGE_BASE_VA + length fs * PAGE_SIZE
        then Inr (fs ! ((va - USERSPACE_IMAGE_BASE_VA) div PAGE_SIZE),
                  if (va - USERSPACE_IMAGE_BASE_VA) div PAGE_SIZE < boot_image sy then flags_user_execute else flags_user_write)
        else Inl NotMapped)) \<and>
    (\<forall>i < length fs. \<forall>j < PAGE_SIZE. bd_memory (ks_board k) (kva (fs ! i) + j) =
       (if i * PAGE_SIZE + j < snd (sy_user_image sy) then m (fst (sy_user_image sy) + (i * PAGE_SIZE + j)) else 0)) \<and>
    sd_user_windows (bd_sched (ks_board k)) = (replicate TASK_ARENA_CAPACITY None)
       [3 := Some (user_window_new USERSPACE_IMAGE_BASE_VA (length fs * PAGE_SIZE))]"
proof (rule boot_runs [OF assms, of cpu])
  fix k :: "'a statics" and sw h fs as_cap task_cap
  assume run: "kernel_main_high cpu sy hw m = Some (k, sw)"
    and own: "only_root ep_cap (ks_table_a k)" "ks_ep_cap_a k = root_handle" "only_root ep_cap (ks_table_b k)" "ks_ep_cap_b k = root_handle"
    and user: "\<exists>t. bd_tables (ks_board k) = [sy_user_task_table sy \<mapsto> t] \<and> only_root console_cap t"
      "sd_cap_tables (bd_sched (ks_board k)) = (replicate TASK_ARENA_CAPACITY None)[3 := Some (sy_user_task_table sy)]"
    and boot: "ks_bootstrap_cap k = root_handle" "as_cap \<noteq> root_handle" "task_cap \<noteq> root_handle" "as_cap \<noteq> task_cap"
      "node_at (ks_bootstrap_table k) = [root_handle \<mapsto> \<lparr>cn_cap = boot_as_cap, cn_parent = None, cn_depth = 0\<rparr>,
       as_cap \<mapsto> \<lparr>cn_cap = \<lparr>cap_rights = rights_empty, cap_object = CapAddressSpace h\<rparr>, cn_parent = Some 0, cn_depth = 1\<rparr>,
       task_cap \<mapsto> \<lparr>cn_cap = \<lparr>cap_rights = user_task_rights, cap_object = CapTask (boot_task 3)\<rparr>, cn_parent = None, cn_depth = 0\<rparr>]"
    and views: "length fs = boot_image sy + 1" "distinct fs"
      "\<And>va. \<exists>e. vm_translates (ks_vm k) BOOTSTRAP_ADDRESS_SPACE_HANDLE va = Some (Inl e)"
      "\<And>va. va < 2 ^ 48 \<Longrightarrow> vm_translates (ks_vm k) h va = Some
       (if USERSPACE_IMAGE_BASE_VA \<le> va \<and> va < USERSPACE_IMAGE_BASE_VA + length fs * PAGE_SIZE
        then Inr (fs ! ((va - USERSPACE_IMAGE_BASE_VA) div PAGE_SIZE),
                  if (va - USERSPACE_IMAGE_BASE_VA) div PAGE_SIZE < boot_image sy then flags_user_execute else flags_user_write)
        else Inl NotMapped)"
      "\<And>i j. \<lbrakk>i < length fs; j < PAGE_SIZE\<rbrakk> \<Longrightarrow> bd_memory (ks_board k) (kva (fs ! i) + j) = image_byte m (sy_user_image sy) i j"
      "sd_user_windows (bd_sched (ks_board k)) = (replicate TASK_ARENA_CAPACITY None)
       [3 := Some (user_window_new USERSPACE_IMAGE_BASE_VA (length fs * PAGE_SIZE))]"
  obtain t where t: "bd_tables (ks_board k) = [sy_user_task_table sy \<mapsto> t]" "only_root console_cap t" using user(1) by blast
  have look: "cap_lookup (ks_bootstrap_table k) x =
       (if x = ks_bootstrap_cap k then Inr boot_as_cap
        else if x = as_cap then Inr \<lparr>cap_rights = rights_empty, cap_object = CapAddressSpace h\<rparr>
        else if x = task_cap then Inr \<lparr>cap_rights = user_task_rights, cap_object = CapTask (boot_task 3)\<rparr>
        else Inl InvalidHandle)" for x
    using boot(1-4) by (simp add: lookup_node boot(5))
  show ?thesis
    by (intro exI [of _ k] exI [of _ sw] exI [of _ h] exI [of _ fs] exI [of _ as_cap] exI [of _ task_cap] exI [of _ t] conjI)
      (use run own t user(2) look views in
        \<open>simp_all add: only_root_lookup root_handle_def [symmetric] image_byte_def\<close>)
qed

text \<open>A concrete board: a kernel of 2 MiB with an image of two pages.\<close>

definition boot_memory_from :: "memory \<Rightarrow> memory" where
  "boot_memory_from m0 a =
     fst (high_half_activate demo_frames (mmu_bootstrap demo_frames (m0, reset_regs))) (a - KERNEL_HIGH_HALF_OFFSET)"

definition demo_boot_memory :: memory where
  "demo_boot_memory = boot_memory_from (\<lambda>_. 0)"

definition demo_symbols :: boot_symbols where
  "demo_symbols =
     \<lparr>sy_stack_top = KERNEL_HIGH_HALF_OFFSET + 0x40280000, sy_boot_pt_l0 = KERNEL_HIGH_HALF_OFFSET + boot_pt_l0 demo_frames,
      sy_user_image = (KERNEL_HIGH_HALF_OFFSET + 0x40100000, 5000), sy_task_a = 0x100, sy_task_b = 0x200, sy_idle_entry = 0x300,
      sy_task_a_stack = 0x10000, sy_task_b_stack = 0x20000, sy_idle_stack = 0x30000, sy_user_stack = 0x40000,
      sy_user_task_table = 0x50000\<rparr>"

definition demo_boot_hw :: boot_hw where
  "demo_boot_hw = \<lparr>hw_current_el = 1, hw_cntfrq = 62500000, hw_cntvct = 0, hw_devices = \<lambda>_. 0\<rparr>"

lemma boot_ready_from:
  assumes "boot_zeroed demo_frames m0"
  shows "boot_ready demo_frames demo_symbols demo_boot_hw (boot_memory_from m0)"
proof -
  have "physical (boot_memory_from m0) pa = fst (high_half_activate demo_frames (mmu_bootstrap demo_frames (m0, reset_regs))) pa" for pa
    by (simp add: physical_def boot_memory_from_def)
  moreover have "\<forall>t \<in> set (frames_of demo_frames). KERNEL_IMAGE_START \<le> t \<and> KERNEL_HIGH_HALF_OFFSET + t + PAGE_SIZE \<le> sy_stack_top demo_symbols"
    by (simp add: frames_of_def demo_frames_def demo_symbols_def KERNEL_IMAGE_START_def PAGE_SIZE_def)
  ultimately show ?thesis
    using demo_boot_layout assms unfolding boot_ready_def
    by (intro conjI) (auto simp: demo_symbols_def demo_boot_hw_def KERNEL_IMAGE_START_def)
qed

lemma demo_boot_ready: "boot_ready demo_frames demo_symbols demo_boot_hw demo_boot_memory"
  unfolding demo_boot_memory_def by (rule boot_ready_from) (simp add: boot_zeroed_def)

theorem boot_establishes_system_witness:
  "\<exists>k sw. kernel_main_high demo_cpu demo_symbols demo_boot_hw demo_boot_memory = Some (k, sw) \<and>
     sd_current (bd_sched (ks_board k)) = Some (boot_task 1)"
  using boot_establishes_system [OF demo_boot_ready, of demo_cpu] by blast

theorem boot_grants_least_authority_witness:
  "\<exists>k sw h f. kernel_main_high demo_cpu demo_symbols demo_boot_hw demo_boot_memory = Some (k, sw) \<and>
     vm_translates (ks_vm k) h 0x801008 = Some (Inr (f, flags_user_execute)) \<and>
     vm_translates (ks_vm k) h 0x803000 = Some (Inl NotMapped)"
proof -
  have n: "boot_image demo_symbols = 2" by (simp add: boot_image_def demo_symbols_def div_ceil_def PAGE_SIZE_def)
  obtain k sw h fs where k: "kernel_main_high demo_cpu demo_symbols demo_boot_hw demo_boot_memory = Some (k, sw)"
      "length fs = 3"
      "\<forall>va < 2 ^ 48. vm_translates (ks_vm k) h va = Some
       (if USERSPACE_IMAGE_BASE_VA \<le> va \<and> va < USERSPACE_IMAGE_BASE_VA + length fs * PAGE_SIZE
        then Inr (fs ! ((va - USERSPACE_IMAGE_BASE_VA) div PAGE_SIZE),
                  if (va - USERSPACE_IMAGE_BASE_VA) div PAGE_SIZE < boot_image demo_symbols then flags_user_execute else flags_user_write)
        else Inl NotMapped)"
    using boot_grants_least_authority [OF demo_boot_ready, of demo_cpu] n by auto
  have "vm_translates (ks_vm k) h 0x801008 = Some (Inr (fs ! 1, flags_user_execute))"
    "vm_translates (ks_vm k) h 0x803000 = Some (Inl NotMapped)"
    using k(2,3) by (simp_all add: n USERSPACE_IMAGE_BASE_VA_def PAGE_SIZE_def)
  then show ?thesis using k(1) by blast
qed

end
