(* ===== verification/Demo_Claims.thy ===== *)
theory Demo_Claims
  imports Demo_Props Boot_Claims
begin

text \<open>
  From reset of the high half to the last line: the boot, the two kernel tasks, the
  scheduler, the IPC, the loader's mappings, the user program and its system calls
  together print what the documentation says they print.
\<close>

section \<open>The greeting in the loaded image\<close>

text \<open>The linker put the greeting at offset \<open>off\<close> of the image.\<close>

definition greeting_linked :: "boot_symbols \<Rightarrow> memory \<Rightarrow> nat \<Rightarrow> bool" where
  "greeting_linked sy m off \<longleftrightarrow>
     off + length GREETING \<le> snd (sy_user_image sy) \<and>
     (\<forall>i < length GREETING. m (fst (sy_user_image sy) + (off + i)) = GREETING ! i)"

lemma page_split: "a div PAGE_SIZE * PAGE_SIZE + a mod PAGE_SIZE = a"
  by simp

lemma base_page:
  "USERSPACE_IMAGE_BASE_VA mod PAGE_SIZE = 0"
  "(USERSPACE_IMAGE_BASE_VA + x) mod PAGE_SIZE = x mod PAGE_SIZE"
  "page_base (USERSPACE_IMAGE_BASE_VA + x) = USERSPACE_IMAGE_BASE_VA + x div PAGE_SIZE * PAGE_SIZE"
proof -
  show z: "USERSPACE_IMAGE_BASE_VA mod PAGE_SIZE = 0" by (simp add: USERSPACE_IMAGE_BASE_VA_def PAGE_SIZE_def)
  then show "(USERSPACE_IMAGE_BASE_VA + x) mod PAGE_SIZE = x mod PAGE_SIZE" by (simp add: mod_add_left_eq [symmetric])
  show "page_base (USERSPACE_IMAGE_BASE_VA + x) = USERSPACE_IMAGE_BASE_VA + x div PAGE_SIZE * PAGE_SIZE"
    using z by (simp add: page_base_def div_add1_eq [of USERSPACE_IMAGE_BASE_VA] div_mult_self_is_m distrib_right)
      (simp add: USERSPACE_IMAGE_BASE_VA_def PAGE_SIZE_def)
qed

lemma greeting_readable:
  fixes fs :: "phys_frame list"
  assumes len: "length fs = boot_image sy + 1" and g: "greeting_linked sy m off"
    and tr: "\<And>va. va < 2 ^ 48 \<Longrightarrow> tr va =
       (if USERSPACE_IMAGE_BASE_VA \<le> va \<and> va < USERSPACE_IMAGE_BASE_VA + length fs * PAGE_SIZE
        then Inr (fs ! ((va - USERSPACE_IMAGE_BASE_VA) div PAGE_SIZE),
                  if (va - USERSPACE_IMAGE_BASE_VA) div PAGE_SIZE < boot_image sy then flags_user_execute else flags_user_write)
        else Inl NotMapped)"
    and mem: "\<And>i j. \<lbrakk>i < length fs; j < PAGE_SIZE\<rbrakk> \<Longrightarrow> mem (kva (fs ! i) + j) = image_byte m (sy_user_image sy) i j"
    and small: "boot_image sy \<le> 0x3F80"
  shows "in_window (user_window_new USERSPACE_IMAGE_BASE_VA (length fs * PAGE_SIZE)) (USERSPACE_IMAGE_BASE_VA + off) (length GREETING)"
    and "span_ok tr False (USERSPACE_IMAGE_BASE_VA + off) (USERSPACE_IMAGE_BASE_VA + off + length GREETING)"
    and "map (\<lambda>i. mem (user_loc tr (USERSPACE_IMAGE_BASE_VA + off + i))) [0..<length GREETING] = GREETING"
proof -
  let ?B = USERSPACE_IMAGE_BASE_VA
  have page: "x div PAGE_SIZE < boot_image sy" if "x < snd (sy_user_image sy)" for x
    using that div_ceil_le_iff [of "x div PAGE_SIZE" "snd (sy_user_image sy)"]
    by (auto simp: boot_image_def not_less [symmetric] PAGE_SIZE_def)
  have t: "tr (page_base (?B + x)) = Inr (fs ! (x div PAGE_SIZE), flags_user_execute)" if x: "x < snd (sy_user_image sy)" for x
  proof -
    have p: "x div PAGE_SIZE < boot_image sy" by (rule page [OF x])
    have "x div PAGE_SIZE * PAGE_SIZE < 0x3F80 * PAGE_SIZE" using p small by (simp add: PAGE_SIZE_def)
    then have "?B + x div PAGE_SIZE * PAGE_SIZE < 2 ^ 48" by (simp add: USERSPACE_IMAGE_BASE_VA_def PAGE_SIZE_def)
    moreover have "x div PAGE_SIZE * PAGE_SIZE < length fs * PAGE_SIZE" using p len by (simp add: PAGE_SIZE_def)
    ultimately show ?thesis using p tr [of "?B + x div PAGE_SIZE * PAGE_SIZE"] unfolding base_page(3) by (simp add: PAGE_SIZE_def)
  qed
  have x: "off + i < snd (sy_user_image sy)" if "i < length GREETING" for i
    using that g by (simp add: greeting_linked_def)
  have last: "off + length GREETING \<le> length fs * PAGE_SIZE"
  proof -
    have "off + length GREETING - 1 < snd (sy_user_image sy)" "0 < length GREETING"
      using g by (simp_all add: greeting_linked_def GREETING_def)
    then have "(off + length GREETING - 1) div PAGE_SIZE < length fs" using page len by fastforce
    then show ?thesis by (simp add: PAGE_SIZE_def)
  qed
  show "in_window (user_window_new ?B (length fs * PAGE_SIZE)) (?B + off) (length GREETING)"
    using last small len by (simp add: in_window_def user_window_new_def usize_max_def USERSPACE_IMAGE_BASE_VA_def PAGE_SIZE_def)
  show "span_ok tr False (?B + off) (?B + off + length GREETING)"
    unfolding span_ok_def
  proof (intro allI impI)
    fix a assume "?B + off \<le> a \<and> a < ?B + off + length GREETING"
    then obtain i where i: "i < length GREETING" "a = ?B + (off + i)" by (intro that [of "a - (?B + off)"]) auto
    show "page_ok tr False (page_base a)"
      using t [OF x [OF i(1)]] unfolding i(2)
      by (simp add: page_ok_def flags_user_execute_def mf_contains_def mf_union_def mf_USER_def mf_EXECUTE_def)
  qed
  show "map (\<lambda>i. mem (user_loc tr (?B + off + i))) [0..<length GREETING] = GREETING"
  proof (rule nth_equalityI)
    fix i assume "i < length (map (\<lambda>i. mem (user_loc tr (?B + off + i))) [0..<length GREETING])"
    then have i: "i < length GREETING" by simp
    have p: "(off + i) div PAGE_SIZE < length fs" using page [OF x [OF i]] len by simp
    have "user_loc tr (?B + (off + i)) = kva (fs ! ((off + i) div PAGE_SIZE)) + (off + i) mod PAGE_SIZE"
      using t [OF x [OF i]] by (simp add: user_loc_def base_page(2) kva_def KERNEL_HIGH_HALF_OFFSET_def)
    then have "mem (user_loc tr (?B + (off + i))) = image_byte m (sy_user_image sy) ((off + i) div PAGE_SIZE) ((off + i) mod PAGE_SIZE)"
      using mem [OF p, of "(off + i) mod PAGE_SIZE"] by (simp add: PAGE_SIZE_def)
    also have "\<dots> = GREETING ! i"
      using g i x [OF i] unfolding image_byte_def page_split by (simp add: greeting_linked_def)
    finally show "map (\<lambda>i. mem (user_loc tr (?B + off + i))) [0..<length GREETING] ! i = GREETING ! i"
      using i by (simp add: add.assoc)
  qed simp
qed

section \<open>The run\<close>

lemma run_stepI:
  assumes "sd_current (bd_sched (ks_board k)) = Some (boot_task i)"
  shows "\<lbrakk>i = 0; task_a (de_cntvct e) (f 0) k = Some (k', ph, sw)\<rbrakk> \<Longrightarrow>
      run_step e \<lparr>rn_statics = k, rn_phase = f\<rparr> = Some \<lparr>rn_statics = k', rn_phase = f(0 := ph)\<rparr>"
    and "\<lbrakk>i = 1; task_b (f 1) k = Some (k', ph, sw)\<rbrakk> \<Longrightarrow>
      run_step e \<lparr>rn_statics = k, rn_phase = f\<rparr> = Some \<lparr>rn_statics = k', rn_phase = f(1 := ph)\<rparr>"
    and "\<lbrakk>i = 3; user_task e (f 3) k = Some (k', ph, sw)\<rbrakk> \<Longrightarrow>
      run_step e \<lparr>rn_statics = k, rn_phase = f\<rparr> = Some \<lparr>rn_statics = k', rn_phase = f(3 := ph)\<rparr>"
  using assms by (simp_all add: run_step_def Let_def)

text \<open>The stretches of the run, in its order.\<close>

lemma stretch_b_waits:
  assumes "demo_at k0 (boot_task 1) (h # hs) Idle None log k"
  shows "\<exists>k' sw. task_b AtEntry k = Some (k', AfterRecv, Some sw) \<and>
    demo_at k0 h hs RecvWaiting (Some 1) (log @ line_b_waiting) k'"
proof -
  obtain k' sw where "side_recv SideB (print line_b_waiting k) = Some (k', RecvSwitch sw)"
      "demo_at k0 h hs RecvWaiting (Some (th_index (boot_task 1))) (log @ line_b_waiting) k'"
    using demo_recv_blocks [OF demo_print [OF assms], where w = SideB] by (fastforce simp: parked_def)
  then show ?thesis by (simp add: task_b_def)
qed

lemma stretch_a_sends:
  assumes "demo_at k0 (boot_task 0) (h # hs) RecvWaiting (Some 1) log k"
    and "sd_task_handles (bd_sched (ks_board k0)) ! 1 = Some (boot_task 1)"
  shows "\<exists>k' sw. task_a cnt AtEntry k = Some (k', AfterSend, Some sw) \<and>
    demo_at k0 h (hs @ [boot_task 1, boot_task 0]) (RecvComplete msg_a None) None (log @ line_a_sending) k'"
proof -
  obtain k' sw where "side_send SideA msg_a (print line_a_sending k) = Some (k', Some sw)"
      "demo_at k0 h (hs @ [boot_task 1, boot_task 0]) (RecvComplete msg_a None) None (log @ line_a_sending) k'"
    using demo_send_wakes [OF demo_print [OF assms(1)] _ assms(2), where w = SideA and msg = msg_a] by fastforce
  then show ?thesis by (simp add: task_a_def)
qed

lemma stretch_b_replies:
  assumes "demo_at k0 (boot_task 1) (h # hs) (RecvComplete msg_a None) None log k"
  shows "\<exists>k' sw. task_b AfterRecv k = Some (k', AfterYield, Some sw) \<and>
    demo_at k0 h (hs @ [boot_task 1]) (SendPending msg_b None) None (log @ line_b_received 0xAAAA) k'"
proof -
  obtain k1 where k1: "side_resume SideB k = Some (k1, Received msg_a None)" "demo_at k0 (boot_task 1) (h # hs) Idle None log k1"
    using demo_recv_now(2) [OF assms, where msg = msg_a and w = SideB] by (auto simp: parked_def)
  obtain k2 where k2: "side_send SideB msg_b (print (line_b_received 0xAAAA) k1) = Some (k2, None)"
      "demo_at k0 (boot_task 1) (h # hs) (SendPending msg_b None) None (log @ line_b_received 0xAAAA) k2"
    using demo_send_queued [OF demo_print [OF k1(2)], where w = SideB] by blast
  obtain k3 sw where k3: "side_yield k2 = Some (k3, Some sw)"
      "demo_at k0 h (hs @ [boot_task 1]) (SendPending msg_b None) None (log @ line_b_received 0xAAAA) k3"
    using demo_yields [OF k2(2)] by fastforce
  then show ?thesis using k1(1) k2(1) by (simp add: task_b_def b_received_def b_sent_def msg_a_def)
qed

lemma stretch_a_ends:
  assumes "demo_at k0 (boot_task 0) hs (SendPending msg_b None) None log k" and now: "now_ns (ks_cpu k0) cnt = Some t"
  shows "\<exists>k'. task_a cnt AfterSend k = Some (k', Ended, None) \<and>
    demo_at k0 (boot_task 0) hs Idle None
      (log @ line_a_received 0xBBBB @ line_complete @ line_elapsed (if ks_boot_ns k0 \<le> t then t - ks_boot_ns k0 else 0)) k'"
proof -
  let ?ns = "if ks_boot_ns k0 \<le> t then t - ks_boot_ns k0 else 0"
  obtain k1 where k1: "side_recv SideA k = Some (k1, RecvDone (Received msg_b None))" "demo_at k0 (boot_task 0) hs Idle None log k1"
    using demo_recv_now(1) [OF assms(1), where msg = msg_b and w = SideA] by (auto simp: parked_def)
  let ?k2 = "print line_complete (print (line_a_received 0xBBBB) k1)"
  note d = demo_print [OF demo_print [OF demo_print [OF k1(2)]]]
  have c: "ks_cpu k1 = ks_cpu k0" "ks_boot_ns k1 = ks_boot_ns k0" using k1(2) by (simp_all add: demo_at_def Let_def)
  have "a_received cnt k1 (Received msg_b None) = Some (print (line_elapsed ?ns) ?k2, Ended, None)"
    using now c by (simp add: a_received_def Let_def msg_b_def print_def)
  then show ?thesis
    using k1(1) d [of "line_a_received 0xBBBB" line_complete "line_elapsed ?ns"] by (simp add: task_a_def a_sent_def)
qed

text \<open>The documented output, with the elapsed time as its last line.\<close>

definition documented_trace :: "bool \<Rightarrow> 64 word \<Rightarrow> 8 word list" where
  "documented_trace debug ns =
     text_bytes ''tyrne: task B '' @ em_dash @ text_bytes '' waiting for IPC'' @ newline @
     text_bytes ''tyrne: task A -- sending IPC'' @ newline @
     (if debug then text_bytes ''hello from userspace'' @ newline else []) @
     text_bytes ''tyrne: userspace task exited'' @ newline @
     text_bytes ''tyrne: task B '' @ em_dash @ text_bytes '' received IPC (label=0xaaaa); replying'' @ newline @
     text_bytes ''tyrne: task A '' @ em_dash @ text_bytes '' received reply (label=0xbbbb); done'' @ newline @
     text_bytes ''tyrne: all tasks complete'' @ newline @
     text_bytes ''tyrne: boot-to-end elapsed = '' @ radix_digits 10 (unat ns) @ text_bytes '' ns'' @ newline"

lemma label_digits: "radix_digits 16 0xAAAA = text_bytes ''aaaa''" "radix_digits 16 0xBBBB = text_bytes ''bbbb''"
  by (simp_all add: radix_digits.simps digit_byte_def text_bytes_def)

lemma text_bytes_append: "text_bytes (s @ t) = text_bytes s @ text_bytes t"
  by (simp add: text_bytes_def)

lemma trace_lines:
  "line_b_waiting @ line_a_sending @ (if debug then GREETING else []) @ exit_banner @ line_b_received 0xAAAA @
     line_a_received 0xBBBB @ line_complete @ line_elapsed ns = documented_trace debug ns"
proof -
  have "GREETING = text_bytes ''hello from userspace'' @ newline"
    "exit_banner = text_bytes ''tyrne: userspace task exited'' @ newline"
    by (simp_all add: GREETING_def exit_banner_def text_bytes_def newline_def)
  moreover have "text_bytes '' received IPC (label=0x'' @ text_bytes ''aaaa'' @ text_bytes ''); replying'' @ x =
      text_bytes '' received IPC (label=0xaaaa); replying'' @ x"
    "text_bytes '' received reply (label=0x'' @ text_bytes ''bbbb'' @ text_bytes ''); done'' @ x =
      text_bytes '' received reply (label=0xbbbb); done'' @ x" for x
    by (simp_all add: text_bytes_def)
  ultimately show ?thesis
    by (simp add: documented_trace_def line_b_waiting_def line_a_sending_def line_b_received_def line_a_received_def
        line_complete_def line_elapsed_def label_digits del: text_bytes_def)
qed

text \<open>The booted state is a state of the run.\<close>

lemma now_ns_total: "0 < cpu_frequency_hz c \<Longrightarrow> \<exists>t. now_ns c cnt = Some t"
  by (cases "cpu_frequency_hz c = 0") (auto simp: now_ns_def ticks_to_ns_def Let_def)

lemma run_steps_add: "run_steps e (n + p) x = do { y \<leftarrow> run_steps e n x; run_steps e p y }"
  by (induction n arbitrary: x) (simp_all split: bind_split)

lemma run_steps_stay: "run_step e d = Some d \<Longrightarrow> run_steps e n d = Some d"
  by (induction n) simp_all

text \<open>The user's stretch, as the run meets it.\<close>

definition user_greets :: "run_env \<Rightarrow> 'c statics \<Rightarrow> bool" where
  "user_greets e k0 \<longleftrightarrow>
     (\<forall>h hs st log k. demo_at k0 (boot_task 3) (h # hs) st None log k \<longrightarrow>
        (\<exists>k' sw. user_task e AtEntry k = Some (k', Ended, Some sw) \<and>
           demo_at k0 h hs st None (log @ (if de_debug e then GREETING else []) @ exit_banner) k'))"

lemma five_stretches:
  assumes start: "demo_at k (boot_task 1) [boot_task 0, boot_task 3] Idle None [] k"
    and one: "sd_task_handles (bd_sched (ks_board k)) ! 1 = Some (boot_task 1)"
    and user: "user_greets e k" and now: "now_ns (ks_cpu k) (de_cntvct e) = Some t"
  shows "\<exists>d. (\<forall>n \<ge> 5. run_steps e n \<lparr>rn_statics = k, rn_phase = \<lambda>_. AtEntry\<rparr> = Some d) \<and>
    demo_at k (boot_task 0) [boot_task 1] Idle None
      (documented_trace (de_debug e) (if ks_boot_ns k \<le> t then t - ks_boot_ns k else 0)) (rn_statics d) \<and> rn_phase d 3 = Ended"
proof -
  let ?ns = "if ks_boot_ns k \<le> t then t - ks_boot_ns k else 0"
  let ?out = "if de_debug e then GREETING else []"
  obtain k1 sw1 where k1: "task_b AtEntry k = Some (k1, AfterRecv, Some sw1)"
      "demo_at k (boot_task 0) [boot_task 3] RecvWaiting (Some 1) ([] @ line_b_waiting) k1"
    using stretch_b_waits [OF start] by blast
  obtain k2 sw2 where k2: "task_a (de_cntvct e) AtEntry k1 = Some (k2, AfterSend, Some sw2)"
      "demo_at k (boot_task 3) ([] @ [boot_task 1, boot_task 0]) (RecvComplete msg_a None) None
         (([] @ line_b_waiting) @ line_a_sending) k2"
    using stretch_a_sends [OF k1(2) one] by blast
  obtain k3 sw3 where k3: "user_task e AtEntry k2 = Some (k3, Ended, Some sw3)"
      "demo_at k (boot_task 1) [boot_task 0] (RecvComplete msg_a None) None
         ((([] @ line_b_waiting) @ line_a_sending) @ ?out @ exit_banner) k3"
    using user k2(2) unfolding user_greets_def append_Nil by blast
  obtain k4 sw4 where k4: "task_b AfterRecv k3 = Some (k4, AfterYield, Some sw4)"
      "demo_at k (boot_task 0) ([] @ [boot_task 1]) (SendPending msg_b None) None
         (((([] @ line_b_waiting) @ line_a_sending) @ ?out @ exit_banner) @ line_b_received 0xAAAA) k4"
    using stretch_b_replies [OF k3(2)] by blast
  obtain k5 where k5: "task_a (de_cntvct e) AfterSend k4 = Some (k5, Ended, None)"
      "demo_at k (boot_task 0) ([] @ [boot_task 1]) Idle None
         ((((([] @ line_b_waiting) @ line_a_sending) @ ?out @ exit_banner) @ line_b_received 0xAAAA) @
            line_a_received 0xBBBB @ line_complete @ line_elapsed ?ns) k5"
    using stretch_a_ends [OF k4(2) now] by blast
  let ?p1 = "(\<lambda>_. AtEntry)(1 := AfterRecv) :: nat \<Rightarrow> demo_phase"
  let ?p2 = "?p1(0 := AfterSend)" let ?p3 = "?p2(3 := Ended)" let ?p4 = "?p3(1 := AfterYield)" let ?p5 = "?p4(0 := Ended)"
  let ?d = "\<lparr>rn_statics = k5, rn_phase = ?p5\<rparr>"
  have "run_step e \<lparr>rn_statics = k, rn_phase = \<lambda>_. AtEntry\<rparr> = Some \<lparr>rn_statics = k1, rn_phase = ?p1\<rparr>"
    by (rule run_stepI(2) [OF demo_atD(2) [OF start]]) (use k1(1) in simp_all)
  moreover have "run_step e \<lparr>rn_statics = k1, rn_phase = ?p1\<rparr> = Some \<lparr>rn_statics = k2, rn_phase = ?p2\<rparr>"
    by (rule run_stepI(1) [OF demo_atD(2) [OF k1(2)]]) (use k2(1) in simp_all)
  moreover have "run_step e \<lparr>rn_statics = k2, rn_phase = ?p2\<rparr> = Some \<lparr>rn_statics = k3, rn_phase = ?p3\<rparr>"
    by (rule run_stepI(3) [OF demo_atD(2) [OF k2(2)]]) (use k3(1) in simp_all)
  moreover have "run_step e \<lparr>rn_statics = k3, rn_phase = ?p3\<rparr> = Some \<lparr>rn_statics = k4, rn_phase = ?p4\<rparr>"
    by (rule run_stepI(2) [OF demo_atD(2) [OF k3(2)]]) (use k4(1) in simp_all)
  moreover have "run_step e \<lparr>rn_statics = k4, rn_phase = ?p4\<rparr> = Some ?d"
    by (rule run_stepI(1) [OF demo_atD(2) [OF k4(2)]]) (use k5(1) in simp_all)
  ultimately have d5: "run_steps e 5 \<lparr>rn_statics = k, rn_phase = \<lambda>_. AtEntry\<rparr> = Some ?d"
    by (simp add: numeral_eq_Suc del: fun_upd_apply)
  have spin: "run_step e ?d = Some ?d"
    using run_stepI(1) [OF demo_atD(2) [OF k5(2)], of e ?p5 k5 Ended None] by (simp add: task_a_def fun_upd_idem)
  have "run_steps e (5 + p) \<lparr>rn_statics = k, rn_phase = \<lambda>_. AtEntry\<rparr> = Some ?d" for p
    unfolding run_steps_add d5 by (simp only: bind.bind_lunit run_steps_stay [OF spin])
  then have "run_steps e n \<lparr>rn_statics = k, rn_phase = \<lambda>_. AtEntry\<rparr> = Some ?d" if "5 \<le> n" for n
    using that by (metis le_add_diff_inverse)
  then show ?thesis
    using k5(2) trace_lines [of "de_debug e" ?ns] by (intro exI [of _ ?d]) simp
qed

lemma greets_when_loaded:
  assumes t: "bd_tables (ks_board k) p = Some ut" "only_root console_cap ut"
    and s: "sd_cap_tables (bd_sched (ks_board k)) ! 3 = Some p" "sd_user_windows (bd_sched (ks_board k)) ! 3 = Some w"
      "sd_as_handles (bd_sched (ks_board k)) ! 3 = Some h" "get_address_space (bd_as_arena (ks_board k)) h = Some asp"
    and g: "frames_reachable (de_translate e (as_inner asp) (bd_memory (ks_board k)))"
      "in_window w (de_greeting e) (length GREETING)"
      "span_ok (de_translate e (as_inner asp) (bd_memory (ks_board k))) False (de_greeting e) (de_greeting e + length GREETING)"
      "map (\<lambda>i. bd_memory (ks_board k) (user_loc (de_translate e (as_inner asp) (bd_memory (ks_board k))) (de_greeting e + i)))
         [0..<length GREETING] = GREETING"
  shows "user_greets e k"
  unfolding user_greets_def
proof (intro allI impI)
  fix h' hs st log k2 assume d: "demo_at k (boot_task 3) (h' # hs) st None log k2"
  have same: "bd_tables (ks_board k2) = bd_tables (ks_board k)" "bd_memory (ks_board k2) = bd_memory (ks_board k)"
    "bd_as_arena (ks_board k2) = bd_as_arena (ks_board k)"
    "sd_cap_tables (bd_sched (ks_board k2)) = sd_cap_tables (bd_sched (ks_board k))"
    "sd_user_windows (bd_sched (ks_board k2)) = sd_user_windows (bd_sched (ks_board k))"
    "sd_as_handles (bd_sched (ks_board k2)) = sd_as_handles (bd_sched (ks_board k))"
    using d by (simp_all add: demo_at_def Let_def)
  have rc: "running_context (ks_board k2) = Some (p, w, as_inner asp)"
    using demo_atD(2) [OF d] s by (simp add: running_context_def same)
  have fit: "de_greeting e + length GREETING < 2 ^ 64" using g(2) by (simp add: in_window_def usize_max_def)
  show "\<exists>k' sw. user_task e AtEntry k2 = Some (k', Ended, Some sw) \<and>
      demo_at k h' hs st None (log @ (if de_debug e then GREETING else []) @ exit_banner) k'"
    by (rule demo_user [OF d rc _ t(2)]) (simp_all only: same t(1) g fit)
qed

text \<open>
  C9: The system runs as documented. From what the linker and the start code leave, in
  a debug and in a release build, the boot and five stretches of tasks (B waits, A
  sends, the user program greets and exits, B receives and replies, A receives) print
  exactly the lines that the README lists from there on, in its order, the greeting in a
  debug build only; the banners of the boot itself are not modelled. Then task A spins for ever, B is runnable and the user task is gone. Nothing
  on the way panics.
\<close>

theorem demonstration_runs_as_documented:
  fixes cpu :: "'c cpu"
  assumes r: "boot_ready bf sy hw m" and g: "greeting_linked sy m off"
    and e: "de_translate e = qemu_translator" "de_greeting e = USERSPACE_IMAGE_BASE_VA + off"
  shows "\<exists>k sw d t. kernel_main_high cpu sy hw m = Some (k, sw) \<and> bd_console (ks_board k) = [] \<and>
    now_ns (ks_cpu k) (de_cntvct e) = Some t \<and>
    (\<forall>n \<ge> 5. run_steps e n \<lparr>rn_statics = k, rn_phase = \<lambda>_. AtEntry\<rparr> = Some d) \<and>
    bd_console (ks_board (rn_statics d)) =
      documented_trace (de_debug e) (if ks_boot_ns k \<le> t then t - ks_boot_ns k else 0) \<and>
    sd_current (bd_sched (ks_board (rn_statics d))) = Some (boot_task 0) \<and>
    queued (bd_sched (ks_board (rn_statics d))) = [boot_task 1] \<and> rn_phase d 3 = Ended"
proof (rule boot_runs [OF r, of cpu])
  fix k :: "'c statics" and sw h fs as_cap task_cap
  assume run: "kernel_main_high cpu sy hw m = Some (k, sw)" and ok: "board_ok qemu_translator (ks_board k)" "qemu_vm_ok (ks_vm k)"
    and s: "sd_current (bd_sched (ks_board k)) = Some (boot_task 1)" "queued (bd_sched (ks_board k)) = [boot_task 0, boot_task 3]"
      "sd_idle (bd_sched (ks_board k)) = Some (boot_task 2)"
    and ep: "get_endpoint (bd_ep_arena (ks_board k)) = [boot_endpoint \<mapsto> \<lparr>ep_id = 0\<rparr>]"
    and own: "only_root ep_cap (ks_table_a k)" "ks_ep_cap_a k = root_handle" "only_root ep_cap (ks_table_b k)" "ks_ep_cap_b k = root_handle"
    and user: "\<exists>t. bd_tables (ks_board k) = [sy_user_task_table sy \<mapsto> t] \<and> only_root console_cap t"
      "sd_cap_tables (bd_sched (ks_board k)) = (replicate TASK_ARENA_CAPACITY None)[3 := Some (sy_user_task_table sy)]"
      "sd_user_windows (bd_sched (ks_board k)) = (replicate TASK_ARENA_CAPACITY None)
       [3 := Some (user_window_new USERSPACE_IMAGE_BASE_VA (length fs * PAGE_SIZE))]"
      "sd_as_handles (bd_sched (ks_board k)) ! 3 = Some h"
    and fs: "length fs = boot_image sy + 1"
    and tr: "\<And>va. va < 2 ^ 48 \<Longrightarrow> vm_translates (ks_vm k) h va = Some
       (if USERSPACE_IMAGE_BASE_VA \<le> va \<and> va < USERSPACE_IMAGE_BASE_VA + length fs * PAGE_SIZE
        then Inr (fs ! ((va - USERSPACE_IMAGE_BASE_VA) div PAGE_SIZE),
                  if (va - USERSPACE_IMAGE_BASE_VA) div PAGE_SIZE < boot_image sy then flags_user_execute else flags_user_write)
        else Inl NotMapped)"
    and mem: "\<And>i j. \<lbrakk>i < length fs; j < PAGE_SIZE\<rbrakk> \<Longrightarrow> bd_memory (ks_board k) (kva (fs ! i) + j) = image_byte m (sy_user_image sy) i j"
    and rest: "\<And>ep i. \<not> blocked_on (bd_sched (ks_board k)) ep i" "bd_console (ks_board k) = []" "bd_queues (ks_board k) = ipc_queues_new"
      "cpu_frequency_hz (ks_cpu k) = hw_cntfrq hw"
  let ?b = "ks_board k"
  have one: "sd_task_handles (bd_sched ?b) ! 1 = Some (boot_task 1)"
    using sched_wfD(5) [OF board_okD(1) [OF ok(1)] s(1)] by (simp add: runnable_def bound_task_def)
  have "get_endpoint (bd_ep_arena ?b) boot_endpoint \<noteq> None" unfolding ep by simp
  then have live: "ep_live (bd_ep_arena ?b) boot_endpoint" by (simp add: ep_live_def get_endpoint_def)
  have idle: "ep_state ipc_queues_new boot_endpoint = Idle"
    by (simp add: ep_state_def ipc_queues_new_def boot_endpoint_def ep_index_def first_slot_def ENDPOINT_ARENA_CAPACITY_def)
  have start: "demo_at k (boot_task 1) [boot_task 0, boot_task 3] Idle None [] k"
    using board_okD(1,4) [OF ok(1)] s own rest live idle by (simp add: demo_at_def Let_def)
  obtain t where now: "now_ns (ks_cpu k) (de_cntvct e) = Some t"
    using now_ns_total [of "ks_cpu k" "de_cntvct e"] rest(4) r by (auto simp: boot_ready_def)
  obtain ut where ut: "bd_tables ?b = [sy_user_task_table sy \<mapsto> ut]" "only_root console_cap ut" using user(1) by blast
  obtain asp where asp: "get_address_space (bd_as_arena ?b) h = Some asp"
    using tr [of 0] by (auto simp: vm_translates_def ks_vm_def bind_eq_Some_conv)
  have tr': "qemu_translator (as_inner asp) (bd_memory ?b) va =
       (if USERSPACE_IMAGE_BASE_VA \<le> va \<and> va < USERSPACE_IMAGE_BASE_VA + length fs * PAGE_SIZE
        then Inr (fs ! ((va - USERSPACE_IMAGE_BASE_VA) div PAGE_SIZE),
                  if (va - USERSPACE_IMAGE_BASE_VA) div PAGE_SIZE < boot_image sy then flags_user_execute else flags_user_write)
        else Inl NotMapped)" if "va < 2 ^ 48" for va
  proof -
    have "vm_translates (ks_vm k) h va = qemu_translate (bd_memory ?b) (as_inner asp) va"
      using asp by (simp add: vm_translates_def ks_vm_def)
    from this [symmetric] show ?thesis unfolding qemu_translator_def tr [OF that] by (simp only: option.case)
  qed
  have small: "boot_image sy \<le> 0x3F80" using image_small(1) [OF r] by (simp add: boot_image_def)
  have "user_greets e k"
    by (rule greets_when_loaded [where asp = asp])
      (use ut asp user(2-4) greeting_readable [OF fs g tr' mem small] board_okD(8) [OF ok(1) asp] in
        \<open>simp_all add: e TASK_ARENA_CAPACITY_def\<close>)
  from five_stretches [OF start one this now] obtain d where
    d: "\<forall>n \<ge> 5. run_steps e n \<lparr>rn_statics = k, rn_phase = \<lambda>_. AtEntry\<rparr> = Some d" "rn_phase d 3 = Ended"
      "demo_at k (boot_task 0) [boot_task 1] Idle None
        (documented_trace (de_debug e) (if ks_boot_ns k \<le> t then t - ks_boot_ns k else 0)) (rn_statics d)" by blast
  show ?thesis
    by (intro exI [of _ k] exI [of _ sw] exI [of _ d] exI [of _ t] conjI)
      (use run rest(2) now d demo_atD(2,3,9) [OF d(3)] in simp_all)
qed

text \<open>An instance: the concrete board of the boot, with the greeting 64 bytes into the image.\<close>

lemma write_blocks_other:
  "\<lbrakk>limit \<le> 512; a < t \<or> t + 4096 \<le> a\<rbrakk> \<Longrightarrow> write_blocks m t idx limit pa b a = m a"
proof (induction m t idx limit pa b rule: write_blocks.induct)
  case (1 m t idx limit pa b)
  then show ?case
    by (subst write_blocks.simps) (auto simp: write_entry_def write_u64_def)
qed

lemma boot_keeps_bytes:
  assumes "\<forall>t \<in> set (frames_of bf). a < t \<or> t + 4096 \<le> a"
  shows "fst (high_half_activate bf (mmu_bootstrap bf (m, r))) a = m a"
proof -
  have "write_entry n t j v a = n a" if "t \<in> set (frames_of bf)" "j < 512" for n t j v
    using assms that by (auto simp: write_entry_def write_u64_def)
  moreover have "write_blocks n t i l pa b a = n a" if "t \<in> set (frames_of bf)" "l \<le> 512" for n t i l pa b
    using assms that write_blocks_other by blast
  moreover have "boot_pt_l0 bf \<in> set (frames_of bf)" "boot_pt_l1 bf \<in> set (frames_of bf)" "boot_pt_l2_low bf \<in> set (frames_of bf)"
    "boot_pt_l2_high bf \<in> set (frames_of bf)" "boot_pt_l0_hh bf \<in> set (frames_of bf)" "boot_pt_l1_hh bf \<in> set (frames_of bf)"
    by (simp_all add: frames_of_def)
  ultimately show ?thesis
    by (simp add: high_half_activate_def mmu_bootstrap_def high_half_tables_def bootstrap_tables_def Let_def boot_numbers del: of_nat_add)
qed

definition greeting_memory :: memory where
  "greeting_memory = (\<lambda>a. if 0x40100040 \<le> a \<and> a < 0x40100040 + length GREETING then GREETING ! (a - 0x40100040) else 0)"

definition demo_env :: run_env where
  "demo_env = \<lparr>de_debug = True, de_translate = qemu_translator, de_greeting = USERSPACE_IMAGE_BASE_VA + 64, de_frame = demo_frame,
     de_between = id, de_cntvct = 62500000\<rparr>"

theorem demonstration_runs_as_documented_witness:
  "\<exists>k sw d ns. kernel_main_high demo_cpu demo_symbols demo_boot_hw (boot_memory_from greeting_memory) = Some (k, sw) \<and>
     run_steps demo_env 5 \<lparr>rn_statics = k, rn_phase = \<lambda>_. AtEntry\<rparr> = Some d \<and>
     bd_console (ks_board (rn_statics d)) = documented_trace True ns"
proof -
  have "boot_zeroed demo_frames greeting_memory"
    by (auto simp: boot_zeroed_def frames_of_def demo_frames_def greeting_memory_def GREETING_def)
  note r = boot_ready_from [OF this]
  have "boot_memory_from greeting_memory (fst (sy_user_image demo_symbols) + (64 + i)) = GREETING ! i" if "i < length GREETING" for i
    using that unfolding boot_memory_from_def
    by (subst boot_keeps_bytes) (auto simp: frames_of_def demo_frames_def demo_symbols_def greeting_memory_def GREETING_def)
  then have g: "greeting_linked demo_symbols (boot_memory_from greeting_memory) 64"
    by (simp add: greeting_linked_def demo_symbols_def) (simp add: GREETING_def)
  have "de_translate demo_env = qemu_translator" "de_greeting demo_env = USERSPACE_IMAGE_BASE_VA + 64" by (simp_all add: demo_env_def)
  from demonstration_runs_as_documented [OF r g this, of demo_cpu] show ?thesis
    by (auto simp: demo_env_def)
qed

end
