(* ===== verification/CpuContext.thy ===== *)
theory CpuContext
  imports Sched
begin

text \<open>
  The CPU handle's registers and context switch (\<open>bsp-qemu-virt/src/cpu.rs\<close>) and
  the interrupt guard around it (\<open>hal/src/cpu.rs\<close>). The registers these routines
  touch are a record; each instruction sequence is a function on it. A write to a
  \<open>d\<close> register clears the upper half of its \<open>v\<close> register, as the architecture says.

  The scheduler's side of a switch (the guard, the save, the restore and what runs
  when the task comes back) is composed here, over the slots of
  \<^const>\<open>sd_contexts\<close>; the value a guard keeps lives on the stack of the task that
  made it, so it is a map from slots.
\<close>

unbundle bit_operations_syntax

section \<open>Registers and contexts\<close>

record cpu_regs =
  rg_x :: "nat \<Rightarrow> 64 word"
  rg_v :: "nat \<Rightarrow> 128 word"
  rg_sp :: "64 word"
  rg_pc :: "64 word"
  rg_daif :: "64 word"
  rg_el :: nat
  rg_sp_el0 :: "64 word"
  rg_elr_el1 :: "64 word"
  rg_spsr_el1 :: "64 word"
  rg_fpcr :: "64 word"
  rg_fpsr :: "64 word"
  rg_tpidr_el0 :: "64 word"
  rg_tpidrro_el0 :: "64 word"

record aarch64_task_context =
  cx_x19_x28 :: "64 word list"
  cx_fp :: "64 word"
  cx_lr :: "64 word"
  cx_sp :: "64 word"
  cx_d8_d15 :: "64 word list"

definition context_default :: aarch64_task_context where
  "context_default = \<lparr>cx_x19_x28 = replicate 10 0, cx_fp = 0, cx_lr = 0, cx_sp = 0, cx_d8_d15 = replicate 8 0\<rparr>"

section \<open>Interrupt masking\<close>

text \<open>The four mask bits, where \<open>MRS\<close> and \<open>MSR DAIF\<close> show them.\<close>

definition DAIF_MASK :: "64 word" where "DAIF_MASK = 0x3C0"

definition disable_irqs :: "cpu_regs \<Rightarrow> cpu_regs \<times> 64 word" where
  "disable_irqs r = (r\<lparr>rg_daif := rg_daif r OR DAIF_MASK\<rparr>, rg_daif r)"

definition restore_irq_state :: "64 word \<Rightarrow> cpu_regs \<Rightarrow> cpu_regs" where
  "restore_irq_state state r = r\<lparr>rg_daif := state AND DAIF_MASK\<rparr>"

definition irq_guard_new :: "cpu_regs \<Rightarrow> cpu_regs \<times> 64 word" where
  "irq_guard_new r = disable_irqs r"

definition irq_guard_drop :: "64 word \<Rightarrow> cpu_regs \<Rightarrow> cpu_regs" where
  "irq_guard_drop prev r = restore_irq_state prev r"

text \<open>\<open>MSR DAIFClr, #2\<close> of the boot.\<close>

definition unmask_irq :: "cpu_regs \<Rightarrow> cpu_regs" where
  "unmask_irq r = r\<lparr>rg_daif := rg_daif r AND NOT 0x80\<rparr>"

definition current_core_id :: "64 word \<Rightarrow> 32 word" where
  "current_core_id mpidr = ucast (mpidr AND 0xFF)"

definition current_el :: "64 word \<Rightarrow> 8 word" where
  "current_el raw = ucast (drop_bit 2 raw AND 3)"

section \<open>The switch\<close>

definition context_save :: "cpu_regs \<Rightarrow> aarch64_task_context" where
  "context_save r =
     \<lparr>cx_x19_x28 = map (rg_x r) [19..<29], cx_fp = rg_x r 29, cx_lr = rg_x r 30, cx_sp = rg_sp r,
      cx_d8_d15 = map (\<lambda>i. ucast (rg_v r i)) [8..<16]\<rparr>"

definition context_restore :: "aarch64_task_context \<Rightarrow> cpu_regs \<Rightarrow> cpu_regs" where
  "context_restore c r =
     r\<lparr>rg_v := (\<lambda>i. if 8 \<le> i \<and> i < 16 then ucast (cx_d8_d15 c ! (i - 8)) else rg_v r i),
       rg_x := (\<lambda>i. if 19 \<le> i \<and> i < 29 then cx_x19_x28 c ! (i - 19)
                    else if i = 29 then cx_fp c else if i = 30 then cx_lr c
                    else if i = 8 then cx_sp c else rg_x r i),
       rg_sp := cx_sp c, rg_pc := cx_lr c\<rparr>"

text \<open>Saved through one pointer, restored through the other, in this order.\<close>

definition context_switch ::
    "nat \<Rightarrow> nat \<Rightarrow> aarch64_task_context list \<times> cpu_regs \<Rightarrow> aarch64_task_context list \<times> cpu_regs" where
  "context_switch current next = (\<lambda>(cs, r).
     let cs' = cs[current := context_save r] in (cs', context_restore (cs' ! next) r))"

section \<open>The first run of a task\<close>

definition init_context :: "aarch64_task_context \<Rightarrow> nat \<Rightarrow> nat \<Rightarrow> aarch64_task_context" where
  "init_context ctx entry stack_top = ctx\<lparr>cx_lr := of_nat entry, cx_sp := of_nat stack_top\<rparr>"

text \<open>\<open>enter\<close> is the address of \<open>enter_el0\<close>.\<close>

definition init_user_context :: "nat \<Rightarrow> aarch64_task_context \<Rightarrow> nat \<Rightarrow> nat \<Rightarrow> nat \<Rightarrow> aarch64_task_context" where
  "init_user_context enter ctx user_entry user_sp kernel_stack_top =
     ctx\<lparr>cx_x19_x28 := (cx_x19_x28 ctx)[0 := of_nat user_entry, 1 := of_nat user_sp],
         cx_lr := of_nat enter, cx_sp := of_nat kernel_stack_top\<rparr>"

definition qemu_cpu :: "nat \<Rightarrow> aarch64_task_context cpu" where
  "qemu_cpu enter =
     \<lparr>cpu_default = context_default, cpu_init_context = init_context, cpu_init_user_context = init_user_context enter\<rparr>"

text \<open>\<open>ERET\<close>: the exception level and the masks come from \<open>SPSR_EL1\<close>.\<close>

definition eret :: "cpu_regs \<Rightarrow> cpu_regs" where
  "eret r = r\<lparr>rg_pc := rg_elr_el1 r, rg_daif := rg_spsr_el1 r AND DAIF_MASK,
              rg_el := unat (drop_bit 2 (rg_spsr_el1 r) AND 3)\<rparr>"

definition enter_el0 :: "cpu_regs \<Rightarrow> cpu_regs" where
  "enter_el0 r =
     (let r1 = r\<lparr>rg_sp_el0 := rg_x r 20, rg_elr_el1 := rg_x r 19, rg_spsr_el1 := 0x3C0\<rparr>;
          r2 = r1\<lparr>rg_x := (\<lambda>i. if i \<le> 30 then 0 else rg_x r1 i), rg_v := (\<lambda>i. if i \<le> 31 then 0 else rg_v r1 i),
                  rg_fpcr := 0, rg_fpsr := 0, rg_tpidr_el0 := 0, rg_tpidrro_el0 := 0\<rparr>
      in eret r2)"

section \<open>A switch as the scheduler makes it\<close>

record machine =
  mc_regs :: cpu_regs
  mc_contexts :: "aarch64_task_context list"
  mc_guards :: "nat \<rightharpoonup> 64 word"

text \<open>
  What runs first in the slot that was restored: the end of the call that switched
  away, which drops its guard, or, the first time, the task itself.
\<close>

definition after_switch :: "nat \<Rightarrow> machine \<Rightarrow> machine" where
  "after_switch next m =
     (case mc_guards m next of
        None \<Rightarrow> m
      | Some prev \<Rightarrow> m\<lparr>mc_regs := irq_guard_drop prev (mc_regs m), mc_guards := (mc_guards m)(next := None)\<rparr>)"

text \<open>The window of \<open>yield_now\<close> and \<open>ipc_recv_and_yield\<close>.\<close>

definition guarded_switch :: "nat \<Rightarrow> nat \<Rightarrow> machine \<Rightarrow> machine" where
  "guarded_switch current next m =
     (let (r, prev) = irq_guard_new (mc_regs m);
          (cs, r) = context_switch current next (mc_contexts m, r)
      in after_switch next \<lparr>mc_regs = r, mc_contexts = cs, mc_guards = (mc_guards m)(current \<mapsto> prev)\<rparr>)"

text \<open>
  The window of \<open>run_dispatched\<close>: the guard and the context saved are those of a
  frame that never runs again.
\<close>

definition dispatch_switch :: "nat \<Rightarrow> machine \<Rightarrow> machine" where
  "dispatch_switch next m =
     (let (r, _) = irq_guard_new (mc_regs m)
      in after_switch next (m\<lparr>mc_regs := context_restore (mc_contexts m ! next) r\<rparr>))"

definition run_switch :: "switch \<Rightarrow> machine \<Rightarrow> machine" where
  "run_switch sw m =
     (case sw_save sw of None \<Rightarrow> dispatch_switch (sw_restore sw) m | Some i \<Rightarrow> guarded_switch i (sw_restore sw) m)"

end
