(* ===== verification/CpuContext_Claims.thy ===== *)
theory CpuContext_Claims
  imports CpuContext
begin

text \<open>
  A switch is invisible to the tasks: whatever ran in between, a task comes back
  with the registers its caller relies on and its own interrupt mask. Its other
  side is that a mask once set stays: nothing in the kernel clears it after the
  first dispatch.
\<close>

unbundle bit_operations_syntax

section \<open>What a switch keeps\<close>

text \<open>The callee-saved state: \<open>x19\<close> to \<open>x30\<close>, the stack pointer and \<open>d8\<close> to \<open>d15\<close>.\<close>

definition callee_saved :: "cpu_regs \<Rightarrow> 64 word list \<times> 64 word \<times> 64 word list" where
  "callee_saved r = (map (rg_x r) [19..<31], rg_sp r, map (\<lambda>i. ucast (rg_v r i)) [8..<16])"

lemma ucast_down_up: "ucast (ucast (x :: 64 word) :: 128 word) = x"
  by (rule bit_eqI) (auto simp: bit_ucast_iff dest: bit_imp_le_length)

lemma restored_saved:
  "callee_saved (context_restore (context_save r) r') = callee_saved r"
  "rg_pc (context_restore (context_save r) r') = rg_x r 30" "rg_daif (context_restore c r') = rg_daif r'"
  by (simp_all add: callee_saved_def context_restore_def context_save_def ucast_down_up upt_conv_Cons nth_map_upt)

lemma callee_saved_daif: "callee_saved (r\<lparr>rg_daif := d\<rparr>) = callee_saved r"
  by (simp add: callee_saved_def)

lemma save_daif: "context_save (r\<lparr>rg_daif := d\<rparr>) = context_save r"
  by (simp add: context_save_def)

text \<open>A guard that is made and dropped around anything that leaves the mask alone changes nothing.\<close>

lemma irq_guard_neutral:
  "\<lbrakk>rg_daif r AND DAIF_MASK = rg_daif r; irq_guard_new r = (r', prev)\<rbrakk> \<Longrightarrow> irq_guard_drop prev r' = r"
  by (auto simp: irq_guard_new_def disable_irqs_def irq_guard_drop_def restore_irq_state_def)

section \<open>Runs of the machine\<close>

text \<open>
  The runs from \<open>start\<close> on: the running task computes, that is changes its registers
  at will (the interrupt mask only if \<open>w\<close>), a context that no task has left is
  initialised, or a switch is made, away from the running task or abandoning it.
  \<open>left\<close> records with which registers each task last left.
\<close>

definition switch_fits :: "nat \<Rightarrow> switch \<Rightarrow> bool" where
  "switch_fits i sw \<longleftrightarrow>
     sw_restore sw < TASK_ARENA_CAPACITY \<and> (sw_save sw = None \<or> sw_save sw = Some i \<and> sw_restore sw \<noteq> i)"

inductive machine_reach :: "bool \<Rightarrow> nat \<Rightarrow> machine \<Rightarrow> (nat \<rightharpoonup> cpu_regs) \<Rightarrow> bool" for w where
  start: "\<lbrakk>length (mc_contexts m) = TASK_ARENA_CAPACITY; mc_guards m = Map.empty; i < TASK_ARENA_CAPACITY;
      rg_daif (mc_regs m) AND DAIF_MASK = rg_daif (mc_regs m)\<rbrakk> \<Longrightarrow>
    machine_reach w i (dispatch_switch i m) Map.empty"
| compute: "\<lbrakk>machine_reach w i m left; w \<or> rg_daif r = rg_daif (mc_regs m); rg_daif r AND DAIF_MASK = rg_daif r\<rbrakk> \<Longrightarrow>
    machine_reach w i (m\<lparr>mc_regs := r\<rparr>) left"
| register: "\<lbrakk>machine_reach w i m left; left j = None\<rbrakk> \<Longrightarrow>
    machine_reach w i (m\<lparr>mc_contexts := (mc_contexts m)[j := c]\<rparr>) left"
| switch: "\<lbrakk>machine_reach w i m left; switch_fits i sw\<rbrakk> \<Longrightarrow>
    machine_reach w (sw_restore sw) (run_switch sw m)
      ((if sw_save sw = None then left else left(i \<mapsto> mc_regs m))(sw_restore sw := None))"

text \<open>What the machine holds of each task that left.\<close>

definition parked :: "nat \<Rightarrow> machine \<Rightarrow> (nat \<rightharpoonup> cpu_regs) \<Rightarrow> bool" where
  "parked i m left \<longleftrightarrow>
     length (mc_contexts m) = TASK_ARENA_CAPACITY \<and> i < TASK_ARENA_CAPACITY \<and> left i = None \<and>
     rg_daif (mc_regs m) AND DAIF_MASK = rg_daif (mc_regs m) \<and>
     (\<forall>j. case left j of
        None \<Rightarrow> mc_guards m j = None
      | Some r \<Rightarrow> j < TASK_ARENA_CAPACITY \<and> mc_contexts m ! j = context_save r \<and> mc_guards m j = Some (rg_daif r) \<and>
          rg_daif r AND DAIF_MASK = rg_daif r)"

lemma parkedD:
  assumes "parked i m left"
  shows "length (mc_contexts m) = TASK_ARENA_CAPACITY" "i < TASK_ARENA_CAPACITY" "left i = None"
    "rg_daif (mc_regs m) AND DAIF_MASK = rg_daif (mc_regs m)" "left j = None \<Longrightarrow> mc_guards m j = None"
    "left j = Some r \<Longrightarrow> j < TASK_ARENA_CAPACITY \<and> mc_contexts m ! j = context_save r \<and> mc_guards m j = Some (rg_daif r) \<and>
          rg_daif r AND DAIF_MASK = rg_daif r"
  using assms by (auto simp: parked_def split: option.splits dest: spec [of _ j])

lemma parkedI:
  assumes "length (mc_contexts m) = TASK_ARENA_CAPACITY" "i < TASK_ARENA_CAPACITY" "left i = None"
    "rg_daif (mc_regs m) AND DAIF_MASK = rg_daif (mc_regs m)" "\<And>j. left j = None \<Longrightarrow> mc_guards m j = None"
    "\<And>j r. left j = Some r \<Longrightarrow> j < TASK_ARENA_CAPACITY \<and> mc_contexts m ! j = context_save r \<and> mc_guards m j = Some (rg_daif r) \<and>
          rg_daif r AND DAIF_MASK = rg_daif r"
  shows "parked i m left"
  using assms unfolding parked_def by (simp split: option.split)

text \<open>One switch, from the parked state.\<close>

lemma masked_or [simp]: "d AND DAIF_MASK = d \<Longrightarrow> d OR DAIF_MASK = DAIF_MASK"
proof -
  assume "d AND DAIF_MASK = d"
  then have "bit d n \<Longrightarrow> bit DAIF_MASK n" for n using bit_and_iff [of d DAIF_MASK n] by simp
  then show "d OR DAIF_MASK = DAIF_MASK" by (intro bit_eqI) (auto simp: bit_or_iff)
qed

lemma dispatch_regs:
  "mc_guards m j = None \<Longrightarrow>
     dispatch_switch j m = m\<lparr>mc_regs := context_restore (mc_contexts m ! j) (fst (irq_guard_new (mc_regs m)))\<rparr>"
  "mc_guards m j = Some d \<Longrightarrow>
     dispatch_switch j m = m\<lparr>mc_regs := irq_guard_drop d (context_restore (mc_contexts m ! j) (fst (irq_guard_new (mc_regs m)))),
       mc_guards := (mc_guards m)(j := None)\<rparr>"
  by (simp_all add: dispatch_switch_def after_switch_def split_def Let_def)

lemma guarded_regs:
  assumes "i \<noteq> j"
  shows "mc_guards m j = None \<Longrightarrow>
     guarded_switch i j m = \<lparr>mc_regs = context_restore (mc_contexts m ! j) (fst (irq_guard_new (mc_regs m))),
       mc_contexts = (mc_contexts m)[i := context_save (mc_regs m)], mc_guards = (mc_guards m)(i \<mapsto> rg_daif (mc_regs m))\<rparr>"
    "mc_guards m j = Some d \<Longrightarrow>
     guarded_switch i j m = \<lparr>mc_regs = irq_guard_drop d (context_restore (mc_contexts m ! j) (fst (irq_guard_new (mc_regs m)))),
       mc_contexts = (mc_contexts m)[i := context_save (mc_regs m)],
       mc_guards = (mc_guards m)(i \<mapsto> rg_daif (mc_regs m), j := None)\<rparr>"
  using assms
  by (simp_all add: guarded_switch_def after_switch_def context_switch_def irq_guard_new_def disable_irqs_def save_daif)

lemma machine_parked: "machine_reach w i m left \<Longrightarrow> parked i m left"
proof (induction rule: machine_reach.induct)
  case (start m i)
  then show ?case
    by (intro parkedI) (simp_all add: dispatch_regs irq_guard_new_def disable_irqs_def restored_saved)
next
  case (compute i m left r)
  note D = parkedD [OF compute.IH]
  show ?case by (rule parkedI) (use D compute.hyps in simp_all)
next
  case (register i m left j c)
  note D = parkedD [OF register.IH]
  have "(mc_contexts m)[j := c] ! k = mc_contexts m ! k" if "left k = Some r" for k r
    using that register.hyps(2) by (cases "k = j") auto
  then show ?case by (intro parkedI) (use D in auto)
next
  case (switch i m left sw)
  note D = parkedD [OF switch.IH]
  let ?j = "sw_restore sw"
  have j: "?j < TASK_ARENA_CAPACITY" using switch.hyps(2) by (simp add: switch_fits_def)
  have daif: "fst (irq_guard_new (mc_regs m)) = (mc_regs m)\<lparr>rg_daif := DAIF_MASK\<rparr>"
    using D(4) by (simp add: irq_guard_new_def disable_irqs_def)
  show ?case
  proof (cases "sw_save sw")
    case None
    show ?thesis
    proof (cases "left ?j")
      case n: None
      then show ?thesis
        using None D j by (intro parkedI) (simp_all add: run_switch_def dispatch_regs daif restored_saved split: if_splits)
    next
      case (Some r)
      then show ?thesis
        using None D j
        by (intro parkedI) (auto simp: run_switch_def dispatch_regs irq_guard_drop_def restore_irq_state_def and.assoc split: if_splits)
    qed
  next
    case (Some k)
    then have k: "k = i" "i \<noteq> ?j" using switch.hyps(2) by (auto simp: switch_fits_def)
    have run: "run_switch sw m = guarded_switch i ?j m" using Some k by (simp add: run_switch_def)
    show ?thesis
    proof (cases "left ?j")
      case n: None
      have g: "guarded_switch i ?j m = \<lparr>mc_regs = context_restore (mc_contexts m ! ?j) (fst (irq_guard_new (mc_regs m))),
         mc_contexts = (mc_contexts m)[i := context_save (mc_regs m)], mc_guards = (mc_guards m)(i \<mapsto> rg_daif (mc_regs m))\<rparr>"
        by (rule guarded_regs(1) [OF k(2) D(5) [OF n]])
      show ?thesis unfolding run g
        by (rule parkedI) (use Some D j k(2) n in \<open>auto simp: daif restored_saved nth_list_update split: if_splits\<close>)
    next
      case s: (Some r)
      have g: "guarded_switch i ?j m = \<lparr>mc_regs = irq_guard_drop (rg_daif r) (context_restore (mc_contexts m ! ?j) (fst (irq_guard_new (mc_regs m)))),
         mc_contexts = (mc_contexts m)[i := context_save (mc_regs m)], mc_guards = (mc_guards m)(i \<mapsto> rg_daif (mc_regs m), ?j := None)\<rparr>"
        by (rule guarded_regs(2) [OF k(2)]) (use D(6) [OF s] in simp)
      show ?thesis unfolding run g
        by (rule parkedI) (use Some D j k(2) s in
          \<open>auto simp: irq_guard_drop_def restore_irq_state_def and.assoc nth_list_update split: if_splits\<close>)
    qed
  qed
qed

text \<open>
  C22: A switch is invisible to the task that was switched away from. In every run of
  the machine from the first dispatch, whatever the other tasks did to the registers
  meanwhile and whichever way the processor comes back (a yield, a blocking receive or
  another task's end), a task resumes at its return address with \<open>x19\<close> to \<open>x30\<close>, the
  stack pointer, \<open>d8\<close> to \<open>d15\<close> and the interrupt mask it left with.
\<close>

theorem tasks_resume_where_they_left:
  assumes "machine_reach w i m left" "switch_fits i sw" "left (sw_restore sw) = Some r"
  shows "callee_saved (mc_regs (run_switch sw m)) = callee_saved r \<and> rg_pc (mc_regs (run_switch sw m)) = rg_x r 30 \<and>
    rg_daif (mc_regs (run_switch sw m)) = rg_daif r"
proof -
  note D = parkedD(6) [OF machine_parked [OF assms(1)] assms(3)]
  have resumed: "callee_saved x = callee_saved r \<and> rg_pc x = rg_x r 30 \<and> rg_daif x = rg_daif r"
    if "x = irq_guard_drop (rg_daif r) (context_restore (mc_contexts m ! sw_restore sw) y)" for x y
    using D unfolding that by (simp add: irq_guard_drop_def restore_irq_state_def callee_saved_daif restored_saved)
  show ?thesis
  proof (cases "sw_save sw")
    case None
    then show ?thesis
      using D dispatch_regs(2) [of m "sw_restore sw" "rg_daif r"] by (intro resumed) (simp add: run_switch_def)
  next
    case (Some k)
    then have "k = i" "i \<noteq> sw_restore sw" using assms(2) by (auto simp: switch_fits_def)
    then show ?thesis
      using Some D guarded_regs(2) [of i "sw_restore sw" m "rg_daif r"] by (intro resumed) (simp add: run_switch_def)
  qed
qed

text \<open>
  C39: After the first dispatch the kernel never takes an interrupt of its own accord. Even
  though the boot clears the interrupt mask, as long as no task writes the mask itself
  every task runs with all four masks set, from its first instruction on and after every
  switch: the guard of the first dispatch is never dropped, and every later guard gives
  back a masked state.
\<close>

theorem interrupts_stay_masked:
  assumes "machine_reach False i m left"
  shows "rg_daif (mc_regs m) = DAIF_MASK \<and> (\<forall>j r. left j = Some r \<longrightarrow> rg_daif r = DAIF_MASK)"
  using assms
proof (induction rule: machine_reach.induct)
  case (start m i)
  then show ?case by (simp add: dispatch_regs irq_guard_new_def disable_irqs_def restored_saved)
next
  case (switch i m left sw)
  note P = parkedD [OF machine_parked [OF switch.hyps(1)]]
  have daif: "fst (irq_guard_new (mc_regs m)) = (mc_regs m)\<lparr>rg_daif := DAIF_MASK\<rparr>"
    using switch.IH by (simp add: irq_guard_new_def disable_irqs_def)
  let ?j = "sw_restore sw"
  have "rg_daif (mc_regs (run_switch sw m)) = DAIF_MASK"
  proof (cases "left ?j")
    case None
    then have g: "mc_guards m ?j = None" by (rule P(5))
    show ?thesis
    proof (cases "sw_save sw")
      case None
      then show ?thesis using dispatch_regs(1) [OF g] by (simp add: run_switch_def daif restored_saved)
    next
      case (Some k)
      then have "k = i" "i \<noteq> ?j" using switch.hyps(2) by (auto simp: switch_fits_def)
      then show ?thesis using Some guarded_regs(1) [of i ?j m, OF _ g] by (simp add: run_switch_def daif restored_saved)
    qed
  next
    case s: (Some r)
    then have g: "mc_guards m ?j = Some DAIF_MASK" using P(6) [OF s] switch.IH by simp
    show ?thesis
    proof (cases "sw_save sw")
      case None
      then show ?thesis using dispatch_regs(2) [OF g] by (simp add: run_switch_def irq_guard_drop_def restore_irq_state_def)
    next
      case (Some k)
      then have "k = i" "i \<noteq> ?j" using switch.hyps(2) by (auto simp: switch_fits_def)
      then show ?thesis using Some guarded_regs(2) [of i ?j m, OF _ g]
        by (simp add: run_switch_def irq_guard_drop_def restore_irq_state_def)
    qed
  qed
  then show ?case using switch.IH by auto
qed (auto split: if_splits)

text \<open>A run: task 1 is dispatched with the interrupt unmasked at boot, then yields to task 0.\<close>

definition demo_regs :: cpu_regs where
  "demo_regs = \<lparr>rg_x = \<lambda>i. of_nat i, rg_v = \<lambda>i. of_nat i, rg_sp = 0x8000, rg_pc = 0x100, rg_daif = 0x340, rg_el = 1,
     rg_sp_el0 = 0, rg_elr_el1 = 0, rg_spsr_el1 = 0, rg_fpcr = 0, rg_fpsr = 0, rg_tpidr_el0 = 0, rg_tpidrro_el0 = 0\<rparr>"

definition demo_machine :: machine where
  "demo_machine = \<lparr>mc_regs = demo_regs, mc_contexts = replicate TASK_ARENA_CAPACITY context_default, mc_guards = Map.empty\<rparr>"

definition demo_yield :: "nat \<Rightarrow> nat \<Rightarrow> switch" where
  "demo_yield i j = \<lparr>sw_save = Some i, sw_restore = j, sw_activate = None\<rparr>"

lemma demo_machine_run:
  "machine_reach False 0 (run_switch (demo_yield 1 0) (dispatch_switch 1 demo_machine))
     [1 \<mapsto> mc_regs (dispatch_switch 1 demo_machine)]"
proof -
  have a: "machine_reach False 1 (dispatch_switch 1 demo_machine) Map.empty"
    by (rule machine_reach.start) (simp_all add: demo_machine_def demo_regs_def DAIF_MASK_def TASK_ARENA_CAPACITY_def)
  have "switch_fits 1 (demo_yield 1 0)" by (simp add: switch_fits_def demo_yield_def TASK_ARENA_CAPACITY_def)
  from machine_reach.switch [OF a this] show ?thesis by (simp add: demo_yield_def)
qed

theorem tasks_resume_where_they_left_witness:
  "callee_saved (mc_regs (run_switch (demo_yield 0 1) (run_switch (demo_yield 1 0) (dispatch_switch 1 demo_machine)))) =
     callee_saved (mc_regs (dispatch_switch 1 demo_machine))"
proof -
  have "switch_fits 0 (demo_yield 0 1)" by (simp add: switch_fits_def demo_yield_def TASK_ARENA_CAPACITY_def)
  then show ?thesis using tasks_resume_where_they_left [OF demo_machine_run] by (simp add: demo_yield_def)
qed

theorem interrupts_stay_masked_witness:
  "rg_daif (mc_regs demo_machine) \<noteq> DAIF_MASK \<and>
   rg_daif (mc_regs (run_switch (demo_yield 1 0) (dispatch_switch 1 demo_machine))) = DAIF_MASK"
  using interrupts_stay_masked [OF demo_machine_run] by (simp add: demo_machine_def demo_regs_def DAIF_MASK_def)

end
