(* ===== verification/UserEntry_Claims.thy ===== *)
theory UserEntry_Claims
  imports Boot_Claims CpuContext_Claims
begin

text \<open>
  How the user task gets to run: the context that the boot registered for it, the
  first switch to it and the trampoline \<open>enter_el0\<close>, put together.
\<close>

unbundle bit_operations_syntax

text \<open>A switch to slot \<open>j\<close> from another task, or with no task left behind.\<close>

definition switch_to :: "nat \<Rightarrow> switch \<Rightarrow> bool" where
  "switch_to j sw \<longleftrightarrow> sw_restore sw = j \<and> sw_save sw \<noteq> Some j"

lemma first_switch:
  assumes "switch_to j sw" "mc_guards m j = None"
  shows "\<exists>r. mc_regs (run_switch sw m) = context_restore (mc_contexts m ! j) (r\<lparr>rg_daif := rg_daif r OR DAIF_MASK\<rparr>)"
proof (cases "sw_save sw")
  case None
  then show ?thesis
    using assms dispatch_regs(1) [of m j] by (auto simp: run_switch_def switch_to_def irq_guard_new_def disable_irqs_def)
next
  case (Some i)
  then have "i \<noteq> j" using assms(1) by (auto simp: switch_to_def)
  then show ?thesis
    using assms Some guarded_regs(1) [of i j m] by (auto simp: run_switch_def switch_to_def irq_guard_new_def disable_irqs_def)
qed

text \<open>The state in which the user program starts.\<close>

definition fresh_user :: "64 word \<Rightarrow> 64 word \<Rightarrow> 64 word \<Rightarrow> cpu_regs \<Rightarrow> bool" where
  "fresh_user pc usp ksp r \<longleftrightarrow>
     rg_el r = 0 \<and> rg_pc r = pc \<and> rg_sp_el0 r = usp \<and> rg_sp r = ksp \<and> rg_daif r = DAIF_MASK \<and>
     (\<forall>i \<le> 30. rg_x r i = 0) \<and> (\<forall>i \<le> 31. rg_v r i = 0) \<and>
     rg_fpcr r = 0 \<and> rg_fpsr r = 0 \<and> rg_tpidr_el0 r = 0 \<and> rg_tpidrro_el0 r = 0"

lemma enter_el0_fresh:
  "fresh_user (rg_x r 19) (rg_x r 20) (rg_sp r) (enter_el0 r)"
  by (simp add: fresh_user_def enter_el0_def eret_def Let_def DAIF_MASK_def)

lemma user_context_restored:
  assumes "length (cx_x19_x28 c) = 10"
  shows "rg_pc (context_restore (init_user_context enter c e usp ksp) r) = of_nat enter"
    "rg_x (context_restore (init_user_context enter c e usp ksp) r) 19 = of_nat e"
    "rg_x (context_restore (init_user_context enter c e usp ksp) r) 20 = of_nat usp"
    "rg_sp (context_restore (init_user_context enter c e usp ksp) r) = of_nat ksp"
  using assms by (simp_all add: context_restore_def init_user_context_def)

text \<open>
  C23: The user task starts in user mode with nothing of the kernel's. Whenever the
  processor is first switched to the task that the boot registered for the image,
  from whatever task and with whatever registers, it goes to the trampoline on the
  task's kernel stack; the trampoline ends at exception level 0 with the interrupts
  masked, at the first byte of the image, which is mapped executable and not
  writable, with the stack pointer at the top of the one stack page, which is mapped
  writable and not executable. Every general and vector register, the floating-point
  control and status and both thread registers are zero.
\<close>

theorem user_task_enters_el0:
  assumes r: "boot_ready bf sy hw m"
  shows "\<exists>k sw h f g usp. kernel_main_high (qemu_cpu enter) sy hw m = Some (k, sw) \<and>
    sd_as_handles (bd_sched (ks_board k)) ! 3 = Some h \<and>
    vm_translates (ks_vm k) h USERSPACE_IMAGE_BASE_VA = Some (Inr (f, flags_user_execute)) \<and>
    vm_translates (ks_vm k) h (usp - 16) = Some (Inr (g, flags_user_write)) \<and> usp mod PAGE_SIZE = 0 \<and>
    vm_translates (ks_vm k) h usp = Some (Inl NotMapped) \<and>
    (\<forall>mc t. mc_contexts mc ! 3 = sd_contexts (bd_sched (ks_board k)) ! 3 \<longrightarrow> mc_guards mc 3 = None \<longrightarrow> switch_to 3 t \<longrightarrow>
       rg_pc (mc_regs (run_switch t mc)) = of_nat enter \<and>
       fresh_user (of_nat USERSPACE_IMAGE_BASE_VA) (of_nat usp) (of_nat (stack_top (sy_user_stack sy)))
         (enter_el0 (mc_regs (run_switch t mc))))"
proof (rule boot_runs [OF r, of "qemu_cpu enter"])
  fix k :: "aarch64_task_context statics" and sw h and fs :: "phys_frame list" and as_cap task_cap :: cap_handle
  assume run: "kernel_main_high (qemu_cpu enter) sy hw m = Some (k, sw)"
    and h: "sd_as_handles (bd_sched (ks_board k)) ! 3 = Some h"
    and fs: "length fs = boot_image sy + 1"
    and tr: "\<And>va. va < 2 ^ 48 \<Longrightarrow> vm_translates (ks_vm k) h va = Some
       (if USERSPACE_IMAGE_BASE_VA \<le> va \<and> va < USERSPACE_IMAGE_BASE_VA + length fs * PAGE_SIZE
        then Inr (fs ! ((va - USERSPACE_IMAGE_BASE_VA) div PAGE_SIZE),
                  if (va - USERSPACE_IMAGE_BASE_VA) div PAGE_SIZE < boot_image sy then flags_user_execute else flags_user_write)
        else Inl NotMapped)"
    and ctx: "sd_contexts (bd_sched (ks_board k)) ! 3 = cpu_init_user_context (qemu_cpu enter) (cpu_default (qemu_cpu enter))
       USERSPACE_IMAGE_BASE_VA (USERSPACE_IMAGE_BASE_VA + length fs * PAGE_SIZE) (stack_top (sy_user_stack sy))"
  let ?B = USERSPACE_IMAGE_BASE_VA and ?usp = "USERSPACE_IMAGE_BASE_VA + length fs * PAGE_SIZE"
  have img: "0 < boot_image sy" "boot_image sy \<le> 0x3F80" using image_small(1,2) [OF r] by (simp_all add: boot_image_def)
  have low: "?usp < 2 ^ 48" using img fs by (simp add: USERSPACE_IMAGE_BASE_VA_def PAGE_SIZE_def)
  have first: "vm_translates (ks_vm k) h ?B = Some (Inr (fs ! 0, flags_user_execute))"
    using tr [of ?B] low img fs by (simp add: PAGE_SIZE_def)
  have top: "(?usp - 16 - ?B) div PAGE_SIZE = boot_image sy" using fs by (simp add: PAGE_SIZE_def)
  have stack: "vm_translates (ks_vm k) h (?usp - 16) = Some (Inr (fs ! boot_image sy, flags_user_write))"
    using tr [of "?usp - 16"] low fs unfolding top by (simp add: PAGE_SIZE_def)
  have past: "vm_translates (ks_vm k) h ?usp = Some (Inl NotMapped)" using tr [OF low] by simp
  have al: "?usp mod PAGE_SIZE = 0" by (simp add: USERSPACE_IMAGE_BASE_VA_def PAGE_SIZE_def)
  have go: "rg_pc (mc_regs (run_switch t mc)) = of_nat enter \<and>
      fresh_user (of_nat ?B) (of_nat ?usp) (of_nat (stack_top (sy_user_stack sy))) (enter_el0 (mc_regs (run_switch t mc)))"
    if c: "mc_contexts mc ! 3 = sd_contexts (bd_sched (ks_board k)) ! 3" and g: "mc_guards mc 3 = None" and t: "switch_to 3 t" for mc t
  proof -
    let ?c = "init_user_context enter context_default ?B ?usp (stack_top (sy_user_stack sy))"
    obtain r' where regs: "mc_regs (run_switch t mc) = context_restore ?c (r'\<lparr>rg_daif := rg_daif r' OR DAIF_MASK\<rparr>)"
      using first_switch [OF t g] unfolding c ctx by (auto simp: qemu_cpu_def)
    have "length (cx_x19_x28 context_default) = 10" by (simp add: context_default_def)
    note u = user_context_restored [OF this, of enter ?B ?usp "stack_top (sy_user_stack sy)"]
    show ?thesis using enter_el0_fresh [of "mc_regs (run_switch t mc)"] unfolding regs u by simp
  qed
  show ?thesis
    by (rule exI [of _ k], rule exI [of _ sw], rule exI [of _ h], rule exI [of _ "fs ! 0"], rule exI [of _ "fs ! boot_image sy"],
        rule exI [of _ ?usp]) (intro conjI allI impI run h first stack past al conjunct1 [OF go] conjunct2 [OF go])
qed

theorem user_task_enters_el0_witness:
  "\<exists>k sw usp. kernel_main_high (qemu_cpu 0x40081000) demo_symbols demo_boot_hw demo_boot_memory = Some (k, sw) \<and>
     fresh_user 0x800000 usp 0x41000 (enter_el0 (mc_regs (run_switch \<lparr>sw_save = Some 0, sw_restore = 3, sw_activate = None\<rparr>
       \<lparr>mc_regs = demo_regs, mc_contexts = sd_contexts (bd_sched (ks_board k)), mc_guards = Map.empty\<rparr>)))"
proof -
  let ?t = "\<lparr>sw_save = Some 0, sw_restore = 3, sw_activate = None\<rparr>"
  have t: "switch_to 3 ?t" by (simp add: switch_to_def)
  have n: "of_nat USERSPACE_IMAGE_BASE_VA = (0x800000 :: 64 word)" "of_nat (stack_top (sy_user_stack demo_symbols)) = (0x41000 :: 64 word)"
    by (simp_all add: USERSPACE_IMAGE_BASE_VA_def demo_symbols_def stack_top_def)
  obtain k sw usp where k: "kernel_main_high (qemu_cpu 0x40081000) demo_symbols demo_boot_hw demo_boot_memory = Some (k, sw)"
    and go: "\<forall>mc t. mc_contexts mc ! 3 = sd_contexts (bd_sched (ks_board k)) ! 3 \<longrightarrow> mc_guards mc 3 = None \<longrightarrow> switch_to 3 t \<longrightarrow>
       rg_pc (mc_regs (run_switch t mc)) = of_nat 0x40081000 \<and>
       fresh_user 0x800000 (of_nat usp) 0x41000 (enter_el0 (mc_regs (run_switch t mc)))"
    using user_task_enters_el0 [OF demo_boot_ready, where enter = "0x40081000"] unfolding n by blast
  show ?thesis
    using k go [rule_format, of "\<lparr>mc_regs = demo_regs, mc_contexts = sd_contexts (bd_sched (ks_board k)), mc_guards = Map.empty\<rparr>" ?t]
      t by auto
qed

end
