(* ===== verification/Console.thy ===== *)
theory Console
  imports Gic Memory
begin

text \<open>
  The console driver (\<open>bsp-qemu-virt/src/console.rs\<close>), the formatting adapter of
  \<open>hal/src/console.rs\<close> and the console that the panic handler of
  \<open>bsp-qemu-virt/src/main.rs\<close> builds. As in \<^theory_text>\<open>Gic\<close>, the effect is the sequence of
  volatile accesses; the flag register may read differently each time, so its answer
  is a function of the accesses made so far. The driver polls it without a bound.
\<close>

unbundle bit_operations_syntax

section \<open>The driver\<close>

record pl011_uart =
  uart_base :: nat

definition UARTDR :: nat where "UARTDR = 0x00"
definition UARTFR :: nat where "UARTFR = 0x18"
definition UARTFR_TXFF :: "32 word" where "UARTFR_TXFF = push_bit 5 1"

definition pl011_new :: "nat \<Rightarrow> pl011_uart" where
  "pl011_new base = \<lparr>uart_base = base\<rparr>"

type_synonym uart_flags = "mmio_log \<Rightarrow> 32 word"

partial_function (option) wait_fifo :: "uart_flags \<Rightarrow> nat \<Rightarrow> mmio_log \<Rightarrow> mmio_log option" where
  "wait_fifo flags fr log =
     (if flags log AND UARTFR_TXFF \<noteq> 0 then wait_fifo flags fr (log @ [MmioRead fr]) else Some (log @ [MmioRead fr]))"

fun pl011_write_bytes :: "pl011_uart \<Rightarrow> uart_flags \<Rightarrow> 8 word list \<Rightarrow> mmio_log \<Rightarrow> mmio_log option" where
  "pl011_write_bytes u flags [] log = Some log"
| "pl011_write_bytes u flags (byte # rest) log = do {
     let fr = saturating_add (uart_base u) UARTFR;
     log \<leftarrow> wait_fifo flags fr log;
     let dr = saturating_add (uart_base u) UARTDR;
     pl011_write_bytes u flags rest (log @ [MmioWrite dr (ucast byte)])
   }"

text \<open>\<open>FmtWriter::write_str\<close>, on the UTF-8 bytes; it never fails.\<close>

definition fmt_write_str :: "pl011_uart \<Rightarrow> uart_flags \<Rightarrow> 8 word list \<Rightarrow> mmio_log \<Rightarrow> (mmio_log \<times> (unit + unit)) option" where
  "fmt_write_str u flags s log = do { log \<leftarrow> pl011_write_bytes u flags s log; Some (log, Inr ()) }"

section \<open>The console of the panic handler\<close>

definition PL011_UART_BASE :: nat where "PL011_UART_BASE = 0x09000000"

text \<open>The alias for the regime that the stack pointer shows; \<open>phys_to_kernel_va\<close> may assert.\<close>

definition panic_console :: "nat \<Rightarrow> pl011_uart option" where
  "panic_console sp = do {
     base \<leftarrow> (if KERNEL_HIGH_HALF_OFFSET \<le> sp then phys_to_kernel_va PL011_UART_BASE else Some PL011_UART_BASE);
     Some (pl011_new base)
   }"

text \<open>What the handler prints first, and \<open>info\<close>, the formatted message; then it spins.\<close>

definition panic_banner :: "8 word list" where
  "panic_banner = [10, 33, 33, 32, 116, 121, 114, 110, 101, 32, 112, 97, 110, 105, 99, 32, 33, 33, 10]"

definition panic_handler :: "nat \<Rightarrow> uart_flags \<Rightarrow> 8 word list \<Rightarrow> mmio_log \<Rightarrow> mmio_log option" where
  "panic_handler sp flags info log = do {
     u \<leftarrow> panic_console sp;
     log \<leftarrow> pl011_write_bytes u flags panic_banner log;
     (log, _) \<leftarrow> fmt_write_str u flags info log;
     (log, _) \<leftarrow> fmt_write_str u flags [10] log;
     Some log
   }"

end
