(* ===== verification/Console_Claims.thy ===== *)
theory Console_Claims
  imports Console BootMmu_Claims
begin

text \<open>
  Output arrives: the driver hands over every byte once and in order, never to a full
  FIFO, and in every stage of the boot the console of the panic handler is one whose
  registers are mapped.
\<close>

unbundle bit_operations_syntax

section \<open>The driver\<close>

text \<open>The bytes handed to the data register at \<open>dr\<close>.\<close>

definition handed :: "nat \<Rightarrow> mmio_log \<Rightarrow> 32 word list" where
  "handed dr acc = concat (map (\<lambda>x. case x of MmioWrite a v \<Rightarrow> if a = dr then [v] else [] | MmioRead _ \<Rightarrow> []) acc)"

text \<open>
  Only flag reads and data writes, and a write only right after a read that showed
  room: \<open>room\<close> is what the last access showed.
\<close>

fun polite :: "uart_flags \<Rightarrow> nat \<Rightarrow> nat \<Rightarrow> bool \<Rightarrow> mmio_log \<Rightarrow> mmio_log \<Rightarrow> bool" where
  "polite flags fr dr room log [] \<longleftrightarrow> True"
| "polite flags fr dr room log (MmioRead a # acc) \<longleftrightarrow>
     a = fr \<and> polite flags fr dr (flags log AND UARTFR_TXFF = 0) (log @ [MmioRead a]) acc"
| "polite flags fr dr room log (MmioWrite a v # acc) \<longleftrightarrow>
     room \<and> a = dr \<and> polite flags fr dr False (log @ [MmioWrite a v]) acc"

text \<open>The FIFO drains: whatever happened before, it has room after enough reads.\<close>

definition drains :: "uart_flags \<Rightarrow> bool" where
  "drains flags \<longleftrightarrow> (\<forall>log a. \<exists>n. flags (log @ replicate n (MmioRead a)) AND UARTFR_TXFF = 0)"

lemma wait_fifo_room:
  assumes "flags (log @ replicate n (MmioRead fr)) AND UARTFR_TXFF = 0"
  shows "\<exists>k. wait_fifo flags fr log = Some (log @ replicate (Suc k) (MmioRead fr)) \<and>
    flags (log @ replicate k (MmioRead fr)) AND UARTFR_TXFF = 0"
  using assms
proof (induction n arbitrary: log)
  case 0
  then show ?case by (intro exI [of _ 0]) (simp add: wait_fifo.simps [of flags fr log])
next
  case (Suc n)
  show ?case
  proof (cases "flags log AND UARTFR_TXFF = 0")
    case True
    then show ?thesis by (intro exI [of _ 0]) (simp add: wait_fifo.simps [of flags fr log])
  next
    case False
    then have "wait_fifo flags fr log = wait_fifo flags fr (log @ [MmioRead fr])" by (simp add: wait_fifo.simps [of flags fr log])
    then show ?thesis
      using Suc.IH [of "log @ [MmioRead fr]"] Suc.prems by (elim exE meta_impE) (auto intro!: exI [of _ "Suc k" for k])
  qed
qed

lemma polite_reads:
  assumes "flags (log @ replicate k (MmioRead fr)) AND UARTFR_TXFF = 0"
    and "polite flags fr dr False (log @ replicate (Suc k) (MmioRead fr) @ [MmioWrite dr v]) acc"
  shows "polite flags fr dr room log (replicate (Suc k) (MmioRead fr) @ MmioWrite dr v # acc)"
  using assms
proof (induction k arbitrary: log room)
  case (Suc k)
  then show ?case using Suc.IH [of "log @ [MmioRead fr]"] by simp
qed simp

lemma pl011_write_bytes_ok:
  assumes d: "drains flags" and b: "uart_base u + UARTFR \<le> usize_max"
  shows "\<exists>acc. pl011_write_bytes u flags bs log = Some (log @ acc) \<and> handed (uart_base u) acc = map ucast bs \<and>
    polite flags (uart_base u + UARTFR) (uart_base u) room log acc"
proof (induction bs arbitrary: log room)
  case Nil
  then show ?case by (simp add: handed_def)
next
  case (Cons byte rest)
  let ?fr = "uart_base u + UARTFR" and ?dr = "uart_base u"
  have a: "saturating_add (uart_base u) UARTFR = ?fr" "saturating_add (uart_base u) UARTDR = ?dr" "?fr \<noteq> ?dr"
    using b by (simp_all add: saturating_add_exact UARTDR_def) (simp add: UARTFR_def)
  obtain n where "flags (log @ replicate n (MmioRead ?fr)) AND UARTFR_TXFF = 0" using d by (auto simp: drains_def)
  then obtain k where k: "wait_fifo flags ?fr log = Some (log @ replicate (Suc k) (MmioRead ?fr))"
      "flags (log @ replicate k (MmioRead ?fr)) AND UARTFR_TXFF = 0"
    using wait_fifo_room by blast
  obtain acc where acc: "pl011_write_bytes u flags rest (log @ replicate (Suc k) (MmioRead ?fr) @ [MmioWrite ?dr (ucast byte)]) =
        Some ((log @ replicate (Suc k) (MmioRead ?fr) @ [MmioWrite ?dr (ucast byte)]) @ acc)"
      "handed ?dr acc = map ucast rest"
      "polite flags ?fr ?dr False (log @ replicate (Suc k) (MmioRead ?fr) @ [MmioWrite ?dr (ucast byte)]) acc"
    using Cons.IH [of "log @ replicate (Suc k) (MmioRead ?fr) @ [MmioWrite ?dr (ucast byte)]" False] by blast
  have h: "handed ?dr (replicate n (MmioRead ?fr) @ MmioWrite ?dr (ucast byte) # acc) = map ucast (byte # rest)" for n
    using acc(2) by (simp add: handed_def)
  show ?case
    by (rule exI [of _ "replicate (Suc k) (MmioRead ?fr) @ MmioWrite ?dr (ucast byte) # acc"])
      (use k acc(1) h [of "Suc k"] polite_reads [OF k(2) acc(3)] in \<open>simp add: a Let_def\<close>)
qed

lemma pl011_write_append:
  "pl011_write_bytes u flags (xs @ ys) log = do { log \<leftarrow> pl011_write_bytes u flags xs log; pl011_write_bytes u flags ys log }"
  by (induction xs arbitrary: log) (simp_all add: Let_def)

text \<open>A FIFO that stays full stops the driver for good.\<close>

lemma wait_fifo_only_room:
  assumes "wait_fifo flags fr log = Some log'"
  shows "\<exists>n. flags (log @ replicate n (MmioRead fr)) AND UARTFR_TXFF = 0"
  using assms
proof (rule wait_fifo.raw_induct
    [where P = "\<lambda>flags fr log _. \<exists>n. flags (log @ replicate n (MmioRead fr)) AND UARTFR_TXFF = 0", rotated])
  fix w :: "uart_flags \<Rightarrow> nat \<Rightarrow> mmio_log \<Rightarrow> mmio_log option" and flags fr log y
  assume ih: "\<And>flags fr log y. w flags fr log = Some y \<Longrightarrow> \<exists>n. flags (log @ replicate n (MmioRead fr)) AND UARTFR_TXFF = 0"
    and run: "(if flags log AND UARTFR_TXFF \<noteq> 0 then w flags fr (log @ [MmioRead fr]) else Some (log @ [MmioRead fr])) = Some y"
  show "\<exists>n. flags (log @ replicate n (MmioRead fr)) AND UARTFR_TXFF = 0"
  proof (cases "flags log AND UARTFR_TXFF = 0")
    case True
    then show ?thesis by (intro exI [of _ 0]) simp
  next
    case False
    then obtain n where "flags ((log @ [MmioRead fr]) @ replicate n (MmioRead fr)) AND UARTFR_TXFF = 0"
      using ih [of flags fr "log @ [MmioRead fr]" y] run by auto
    then show ?thesis by (intro exI [of _ "Suc n"]) simp
  qed
qed

section \<open>Where the registers are\<close>

text \<open>An access of the kernel to the device register at \<open>pa\<close>.\<close>

definition hits_device :: "hw_access \<Rightarrow> nat \<Rightarrow> bool" where
  "hits_device x pa \<longleftrightarrow> x = Flat pa \<or> x = Mapped pa 0 device_perms"

lemma uart_window:
  "PL011_UART_BASE \<le> pa \<Longrightarrow> pa < PL011_UART_BASE + 0x1000 \<Longrightarrow> boot_window pa = Mapped pa 0 device_perms"
  by (simp add: boot_window_def PL011_UART_BASE_def)

text \<open>
  The console that the panic handler builds: at the physical address while the stack
  is low, at the high alias when it is high.
\<close>

lemma panic_console_eq:
  "panic_console sp = Some (pl011_new (if KERNEL_HIGH_HALF_OFFSET \<le> sp then KERNEL_HIGH_HALF_OFFSET + PL011_UART_BASE else PL011_UART_BASE))"
  by (simp add: panic_console_def phys_to_kernel_va_eq PL011_UART_BASE_def KERNEL_HIGH_HALF_OFFSET_def)

lemma low_stage_device:
  assumes l: "boot_layout bf" "boot_zeroed bf m" and off: "\<not> bit (sctlr_el1 r) 0" and s: "s \<in> set (low_stages bf (m, r))"
    and pa: "PL011_UART_BASE \<le> pa" "pa < PL011_UART_BASE + 0x1000"
  shows "hits_device (hw_translate s pa) pa"
proof -
  note lo = bootstrap_says [OF l] and hi = high_half_says [OF l]
  note defs = bootstrap_regs_def bootstrap_enable_def high_half_root_def high_half_enable_def
  have small: "pa < 2 ^ 48" using pa(2) by (simp add: PL011_UART_BASE_def)
  have flat: "hits_device (hw_translate (n, q) pa) pa" if "\<not> bit (sctlr_el1 q) 0" for n q
    using that by (simp add: hw_translate_def hits_device_def)
  have on: "hits_device (hw_translate (n, q) pa) pa"
    if "says bf n low_entry \<or> says bf n high_entry" "bit (sctlr_el1 q) 0" "regime_48 (tcr_el1 q)"
      "\<not> bit (tcr_el1 q) 7" "mair_el1 q = MAIR_EL1_VALUE" "ttbr0_el1 q = of_nat (boot_pt_l0 bf)" for n q
    using low_regime [OF l(1) that small] uart_window [OF pa] by (simp add: hits_device_def)
  have "\<forall>s\<in>set (low_stages bf (m, r)). hits_device (hw_translate s pa) pa"
    using off by (simp add: low_stages_def defs Let_def enabled_bit tcr_regimes lo hi flat on del: bit_0)
  then show ?thesis using s by blast
qed

lemma high_stage_device:
  assumes l: "boot_layout bf" "boot_zeroed bf m" and s: "s \<in> set (high_stages bf (m, r))"
    and pa: "PL011_UART_BASE \<le> pa" "pa < PL011_UART_BASE + 0x1000"
  shows "hits_device (hw_translate s (KERNEL_HIGH_HALF_OFFSET + pa)) pa"
proof -
  note hi = high_half_says [OF l]
  note defs = bootstrap_regs_def bootstrap_enable_def high_half_root_def high_half_enable_def
  let ?va = "KERNEL_HIGH_HALF_OFFSET + pa"
  have va: "2 ^ 48 \<le> ?va" "?va < 2 ^ 64" using pa(2) by (simp_all add: KERNEL_HIGH_HALF_OFFSET_def PL011_UART_BASE_def)
  have on: "hits_device (hw_translate (n, q) ?va) pa"
    if "says bf n high_entry" "bit (sctlr_el1 q) 0" "regime_48 (tcr_el1 q)"
      "\<not> bit (tcr_el1 q) 23" "mair_el1 q = MAIR_EL1_VALUE" "ttbr1_el1 q = of_nat (boot_pt_l0_hh bf)" for n q
    using high_regime [OF l(1) that va] uart_window [OF pa] by (simp add: hits_device_def)
  have "\<forall>s\<in>set (high_stages bf (m, r)). hits_device (hw_translate s ?va) pa"
    by (simp add: high_stages_def mmu_bootstrap_def high_half_activate_def defs null_ttbr0_def disable_ttbr0_def
        enabled_bit tcr_regimes hi on del: bit_0)
  then show ?thesis using s by blast
qed

text \<open>What an access of the driver is, seen from the bus.\<close>

definition on_uart :: "regime \<Rightarrow> mmio \<Rightarrow> bool" where
  "on_uart s x \<longleftrightarrow>
     (case x of
        MmioRead a \<Rightarrow> hits_device (hw_translate s a) (PL011_UART_BASE + UARTFR)
      | MmioWrite a _ \<Rightarrow> hits_device (hw_translate s a) (PL011_UART_BASE + UARTDR))"

lemma polite_on_uart:
  "\<lbrakk>polite flags fr dr room log acc; hits_device (hw_translate s fr) (PL011_UART_BASE + UARTFR);
    hits_device (hw_translate s dr) (PL011_UART_BASE + UARTDR)\<rbrakk> \<Longrightarrow> \<forall>x \<in> set acc. on_uart s x"
  by (induction flags fr dr room log acc rule: polite.induct) (auto simp: on_uart_def)

text \<open>
  C40: A panic is heard. In every state the boot passes through, whether the stack is
  still low or already high, the console that the panic handler builds is one whose
  registers the state maps: every access of the handler's output reaches the flag or
  the data register of the UART. The bytes handed over are the banner, the message and
  a line end, each once and in order, each right after the FIFO showed room, and the
  output ends whenever the FIFO drains. A FIFO that never has room stops the driver
  at its first byte.
\<close>

theorem panic_is_heard:
  assumes l: "boot_layout bf" "boot_zeroed bf m" and off: "\<not> bit (sctlr_el1 r) 0"
    and s: "s \<in> set (low_stages bf (m, r)) \<and> sp < KERNEL_HIGH_HALF_OFFSET \<or>
      s \<in> set (high_stages bf (m, r)) \<and> KERNEL_HIGH_HALF_OFFSET \<le> sp"
  shows "\<exists>u. panic_console sp = Some u \<and>
    (drains flags \<longrightarrow> (\<exists>acc. panic_handler sp flags info log = Some (log @ acc) \<and>
       handed (uart_base u) acc = map ucast (panic_banner @ info @ [10]) \<and>
       polite flags (uart_base u + UARTFR) (uart_base u) False log acc \<and> (\<forall>x \<in> set acc. on_uart s x))) \<and>
    ((\<forall>n. flags (log @ replicate n (MmioRead (uart_base u + UARTFR))) AND UARTFR_TXFF \<noteq> 0) \<longrightarrow>
       panic_handler sp flags info log = None)"
proof -
  let ?b = "if KERNEL_HIGH_HALF_OFFSET \<le> sp then KERNEL_HIGH_HALF_OFFSET + PL011_UART_BASE else PL011_UART_BASE"
  let ?u = "pl011_new ?b"
  have u: "panic_console sp = Some ?u" by (rule panic_console_eq)
  have ub: "uart_base ?u = ?b" by (simp add: pl011_new_def)
  have fit: "uart_base ?u + UARTFR \<le> usize_max"
    unfolding ub by (simp add: UARTFR_def PL011_UART_BASE_def KERNEL_HIGH_HALF_OFFSET_def usize_max_def)
  have reg: "PL011_UART_BASE \<le> PL011_UART_BASE + UARTFR" "PL011_UART_BASE + UARTFR < PL011_UART_BASE + 0x1000"
    "PL011_UART_BASE \<le> PL011_UART_BASE + UARTDR" "PL011_UART_BASE + UARTDR < PL011_UART_BASE + 0x1000"
    by (simp_all add: UARTFR_def UARTDR_def)
  have hit: "hits_device (hw_translate s (uart_base ?u + UARTFR)) (PL011_UART_BASE + UARTFR)"
    "hits_device (hw_translate s (uart_base ?u)) (PL011_UART_BASE + UARTDR)"
  proof -
    have zero: "PL011_UART_BASE + UARTDR = PL011_UART_BASE" by (simp add: UARTDR_def)
    have "hits_device (hw_translate s (uart_base ?u + UARTFR)) (PL011_UART_BASE + UARTFR) \<and>
        hits_device (hw_translate s (uart_base ?u)) (PL011_UART_BASE + UARTDR)"
      using s
    proof
      assume a: "s \<in> set (low_stages bf (m, r)) \<and> sp < KERNEL_HIGH_HALF_OFFSET"
      show ?thesis
        using low_stage_device [OF l off conjunct1 [OF a] reg(1,2)] low_stage_device [OF l off conjunct1 [OF a] reg(3,4)] a
        unfolding ub zero by simp
    next
      assume a: "s \<in> set (high_stages bf (m, r)) \<and> KERNEL_HIGH_HALF_OFFSET \<le> sp"
      show ?thesis
        using high_stage_device [OF l conjunct1 [OF a] reg(1,2)] high_stage_device [OF l conjunct1 [OF a] reg(3,4)] a
        unfolding ub zero by (simp add: add.assoc)
    qed
    then show "hits_device (hw_translate s (uart_base ?u + UARTFR)) (PL011_UART_BASE + UARTFR)"
      "hits_device (hw_translate s (uart_base ?u)) (PL011_UART_BASE + UARTDR)" by blast+
  qed
  have all: "panic_handler sp flags info log = pl011_write_bytes ?u flags (panic_banner @ info @ [10]) log"
    by (simp add: panic_handler_def u pl011_write_append fmt_write_str_def bind_assoc)
  have ends: "\<exists>acc. panic_handler sp flags info log = Some (log @ acc) \<and>
       handed (uart_base ?u) acc = map ucast (panic_banner @ info @ [10]) \<and>
       polite flags (uart_base ?u + UARTFR) (uart_base ?u) False log acc \<and> (\<forall>x \<in> set acc. on_uart s x)" if d: "drains flags"
    using pl011_write_bytes_ok [OF d fit, of "panic_banner @ info @ [10]" log False] polite_on_uart [OF _ hit]
    unfolding all by blast
  have stuck: "panic_handler sp flags info log = None"
    if full: "\<forall>n. flags (log @ replicate n (MmioRead (uart_base ?u + UARTFR))) AND UARTFR_TXFF \<noteq> 0"
  proof -
    have "wait_fifo flags (uart_base ?u + UARTFR) log = None"
      using wait_fifo_only_room [of flags "uart_base ?u + UARTFR" log] full by (cases "wait_fifo flags (uart_base ?u + UARTFR) log") auto
    then show ?thesis
      using fit unfolding all by (simp add: panic_banner_def saturating_add_exact Let_def)
  qed
  show ?thesis using u ends stuck by blast
qed

text \<open>A FIFO that is full at every second read, in the last state of the boot.\<close>

theorem panic_is_heard_witness:
  "\<exists>log. panic_handler (KERNEL_HIGH_HALF_OFFSET + 0x40280000) (\<lambda>log. if even (length log) then UARTFR_TXFF else 0) [111, 107] [] = Some log \<and>
     handed (KERNEL_HIGH_HALF_OFFSET + PL011_UART_BASE) log = map ucast (panic_banner @ [111, 107, 10])"
proof -
  let ?f = "\<lambda>log :: mmio_log. if even (length log) then UARTFR_TXFF else 0"
  have "drains ?f"
    unfolding drains_def
  proof (intro allI)
    fix log :: mmio_log and a
    show "\<exists>n. ?f (log @ replicate n (MmioRead a)) AND UARTFR_TXFF = 0"
      by (cases "even (length log)") (rule exI [of _ 1], simp, rule exI [of _ 0], simp)
  qed
  moreover have "last (high_stages demo_frames (\<lambda>_. 0, reset_regs)) \<in> set (high_stages demo_frames (\<lambda>_. 0, reset_regs))"
    by (rule last_in_set) (simp add: high_stages_def split_def Let_def)
  moreover have "\<not> bit (sctlr_el1 reset_regs) 0" by (simp add: reset_regs_def)
  moreover have "panic_console (KERNEL_HIGH_HALF_OFFSET + 0x40280000) = Some u \<Longrightarrow> uart_base u = KERNEL_HIGH_HALF_OFFSET + PL011_UART_BASE" for u
    by (auto simp: panic_console_eq pl011_new_def)
  ultimately show ?thesis
    using panic_is_heard [OF demo_boot_layout, where r = reset_regs and sp = "KERNEL_HIGH_HALF_OFFSET + 0x40280000"
        and s = "last (high_stages demo_frames (\<lambda>_. 0, reset_regs))" and flags = ?f and info = "[111, 107]" and log = "[]"]
    by auto
qed

end
