(* ===== verification/TestHal.thy ===== *)
theory TestHal
  imports Mmu UserAccess CpuContext Gic
begin

text \<open>
  The test doubles of \<open>test-hal/src\<close>, on which the kernel's own tests run: the flat
  translation unit of \<open>mmu.rs\<close> with its two failure-injecting decorators and its
  fixture of user pages, and the recording console, processor, interrupt controller,
  timer and context switch. The mutexes are left out: a test's accesses are in order
  and no holder panics. The crate is built for tests only, where an arithmetic
  overflow panics; a counter that overflows is therefore \<^term>\<open>None\<close>.
\<close>

unbundle bit_operations_syntax

definition count_call :: "64 word \<Rightarrow> 64 word option" where
  "count_call n = (if n = U64_MAX then None else Some (n + 1))"

section \<open>Frames\<close>

text \<open>\<open>VecFrameProvider\<close> is the vector itself; frames are popped from its end and not zeroed.\<close>

type_synonym vec_frame_provider = "phys_frame list"

definition vec_remaining :: "vec_frame_provider \<Rightarrow> nat" where
  "vec_remaining fs = length fs"

definition vec_alloc_frame :: "vec_frame_provider frame_provider" where
  "vec_alloc_frame fs m = Some (if fs = [] then ((fs, m), None) else ((butlast fs, m), Some (last fs)))"

section \<open>The flat translation unit\<close>

record fake_address_space =
  fa_root :: phys_frame
  fa_mappings :: "nat \<Rightarrow> (phys_frame \<times> mapping_flags) option"

definition mapping_count :: "fake_address_space \<Rightarrow> nat" where
  "mapping_count as = card (dom (fa_mappings as))"

definition fake_lookup :: "fake_address_space \<Rightarrow> nat \<Rightarrow> (phys_frame \<times> mapping_flags) option" where
  "fake_lookup as va = fa_mappings as va"

definition fake_create_address_space :: "phys_frame \<Rightarrow> fake_address_space" where
  "fake_create_address_space root = \<lparr>fa_root = root, fa_mappings = Map.empty\<rparr>"

definition fake_address_space_root :: "fake_address_space \<Rightarrow> phys_frame" where
  "fake_address_space_root as = fa_root as"

definition fake_map ::
    "'p frame_provider \<Rightarrow> 'p \<Rightarrow> memory \<Rightarrow> fake_address_space \<Rightarrow> nat \<Rightarrow> phys_frame \<Rightarrow> mapping_flags \<Rightarrow>
       ('p \<times> memory \<times> fake_address_space, mmu_error, mapper_flush) outcome" where
  "fake_map alloc p m as va pa flags =
     (if va mod PAGE_SIZE \<noteq> 0 then Some ((p, m, as), Inl MisalignedAddress)
      else if mf_contains flags mf_DEVICE \<and> mf_contains flags mf_EXECUTE
      then Some ((p, m, as), Inl InvalidFlags)
      else if fa_mappings as va \<noteq> None then Some ((p, m, as), Inl AlreadyMapped)
      else Some ((p, m, as\<lparr>fa_mappings := (fa_mappings as)(va \<mapsto> (pa, flags))\<rparr>), Inr (MapperFlush va)))"

definition fake_unmap ::
    "memory \<Rightarrow> fake_address_space \<Rightarrow> nat \<Rightarrow>
       (memory \<times> fake_address_space, mmu_error, mapper_flush \<times> phys_frame) outcome" where
  "fake_unmap m as va =
     (if va mod PAGE_SIZE \<noteq> 0 then Some ((m, as), Inl MisalignedAddress)
      else Some ((m, as\<lparr>fa_mappings := (fa_mappings as)(va := None)\<rparr>),
                 ok_or (map_option (\<lambda>(pa, _). (MapperFlush va, pa)) (fa_mappings as va)) NotMapped))"

definition fake_translate :: "memory \<Rightarrow> fake_address_space \<Rightarrow> nat \<Rightarrow> translation option" where
  "fake_translate m as va = Some (ok_or (fake_lookup as (page_base va)) NotMapped)"

definition fake_mmu :: "(fake_address_space, 'p) mmu" where
  "fake_mmu =
     \<lparr>mmu_create_address_space = fake_create_address_space,
      mmu_address_space_root = fake_address_space_root,
      mmu_map = fake_map, mmu_unmap = fake_unmap, mmu_translate = fake_translate\<rparr>"

text \<open>What the double records of the calls that have no result.\<close>

record fake_mmu_state =
  fm_activated_root :: "phys_frame option"
  fm_tlb_address_invalidations :: "nat list"
  fm_tlb_all_count :: "64 word"

definition fake_mmu_new :: fake_mmu_state where
  "fake_mmu_new = \<lparr>fm_activated_root = None, fm_tlb_address_invalidations = [], fm_tlb_all_count = 0\<rparr>"

definition fake_activate :: "fake_address_space \<Rightarrow> fake_mmu_state \<Rightarrow> fake_mmu_state" where
  "fake_activate as s = s\<lparr>fm_activated_root := Some (fa_root as)\<rparr>"

definition fake_invalidate_tlb_address :: "nat \<Rightarrow> fake_mmu_state \<Rightarrow> fake_mmu_state" where
  "fake_invalidate_tlb_address va s = s\<lparr>fm_tlb_address_invalidations := fm_tlb_address_invalidations s @ [va]\<rparr>"

definition fake_invalidate_tlb_all :: "fake_mmu_state \<Rightarrow> fake_mmu_state option" where
  "fake_invalidate_tlb_all s = map_option (\<lambda>n. s\<lparr>fm_tlb_all_count := n\<rparr>) (count_call (fm_tlb_all_count s))"

section \<open>The decorators\<close>

text \<open>\<open>OutOfFramesMmu\<close>: the inner map first, then one frame, and the map undone when there is none.\<close>

definition out_of_frames_map ::
    "'p frame_provider \<Rightarrow> 'p \<Rightarrow> memory \<Rightarrow> fake_address_space \<Rightarrow> nat \<Rightarrow> phys_frame \<Rightarrow> mapping_flags \<Rightarrow>
       ('p \<times> memory \<times> fake_address_space, mmu_error, mapper_flush) outcome" where
  "out_of_frames_map alloc p m as va pa flags =
     try_bind (fake_map alloc p m as va pa flags) (\<lambda>(p, m, as) flush. do {
       ((p, m), frame) \<leftarrow> alloc p m;
       if frame = None
       then do { ((m, as), _) \<leftarrow> fake_unmap m as va; Some ((p, m, as), Inl MmuOutOfFrames) }
       else Some ((p, m, as), Inr flush)
     })"

definition out_of_frames_mmu :: "(fake_address_space, 'p) mmu" where
  "out_of_frames_mmu =
     \<lparr>mmu_create_address_space = fake_create_address_space,
      mmu_address_space_root = fake_address_space_root,
      mmu_map = out_of_frames_map, mmu_unmap = fake_unmap, mmu_translate = fake_translate\<rparr>"

text \<open>\<open>BlockMappedMmu\<close>, with the set of addresses it answers for itself.\<close>

definition block_va :: "nat \<Rightarrow> nat set \<Rightarrow> nat set" where
  "block_va va blocked = insert va blocked"

definition block_mapped_map ::
    "nat set \<Rightarrow> 'p frame_provider \<Rightarrow> 'p \<Rightarrow> memory \<Rightarrow> fake_address_space \<Rightarrow> nat \<Rightarrow> phys_frame \<Rightarrow> mapping_flags \<Rightarrow>
       ('p \<times> memory \<times> fake_address_space, mmu_error, mapper_flush) outcome" where
  "block_mapped_map blocked alloc p m as va pa flags =
     (if va \<in> blocked then Some ((p, m, as), Inl BlockMapped) else fake_map alloc p m as va pa flags)"

definition block_mapped_unmap ::
    "nat set \<Rightarrow> memory \<Rightarrow> fake_address_space \<Rightarrow> nat \<Rightarrow>
       (memory \<times> fake_address_space, mmu_error, mapper_flush \<times> phys_frame) outcome" where
  "block_mapped_unmap blocked m as va =
     (if va \<in> blocked then Some ((m, as), Inl BlockMapped) else fake_unmap m as va)"

definition block_mapped_translate :: "nat set \<Rightarrow> memory \<Rightarrow> fake_address_space \<Rightarrow> nat \<Rightarrow> translation option" where
  "block_mapped_translate blocked m as va =
     (if page_base va \<in> blocked then Some (Inl BlockMapped) else fake_translate m as va)"

definition block_mapped_mmu :: "nat set \<Rightarrow> (fake_address_space, 'p) mmu" where
  "block_mapped_mmu blocked =
     \<lparr>mmu_create_address_space = fake_create_address_space,
      mmu_address_space_root = fake_address_space_root,
      mmu_map = block_mapped_map blocked, mmu_unmap = block_mapped_unmap blocked,
      mmu_translate = block_mapped_translate blocked\<rparr>"

section \<open>User pages in host memory\<close>

record fake_user_mem =
  fu_ptr :: nat
  fu_base_va :: nat
  fu_npages :: nat
  fu_mmu :: fake_mmu_state
  fu_as :: fake_address_space

definition region_len :: "fake_user_mem \<Rightarrow> nat option" where
  "region_len u = checked_mul (fu_npages u) PAGE_SIZE"

text \<open>\<open>isize::MAX\<close>, which bounds a \<open>Layout\<close>.\<close>

definition ISIZE_MAX :: nat where
  "ISIZE_MAX = 2 ^ 63 - 1"

definition user_mem_map_page :: "nat \<Rightarrow> nat \<Rightarrow> mapping_flags \<Rightarrow> nat \<Rightarrow> fake_address_space \<Rightarrow> fake_address_space option" where
  "user_mem_map_page ptr base_va flags i as = do {
     offset \<leftarrow> checked_mul i PAGE_SIZE;
     host_page \<leftarrow> checked_add ptr offset;
     frame \<leftarrow> frame_from_aligned host_page;
     va \<leftarrow> checked_add base_va offset;
     ((_, _, as), r) \<leftarrow> fake_map vec_alloc_frame [] (\<lambda>_. 0) as va frame flags;
     if is_ok r then Some as else None
   }"

text \<open>\<open>ptr\<close> is what the allocator returns: \<^term>\<open>None\<close> is null.\<close>

definition user_mem_new :: "nat option \<Rightarrow> nat \<Rightarrow> nat \<Rightarrow> mapping_flags \<Rightarrow> memory \<Rightarrow> (memory \<times> fake_user_mem) option" where
  "user_mem_new ptr base_va npages flags m = do {
     _ \<leftarrow> (if npages \<ge> 1 then Some () else None);
     _ \<leftarrow> (if base_va mod PAGE_SIZE = 0 then Some () else None);
     size \<leftarrow> checked_mul npages PAGE_SIZE;
     _ \<leftarrow> (if size \<le> ISIZE_MAX - (PAGE_SIZE - 1) then Some () else None);
     ptr \<leftarrow> ptr;
     root \<leftarrow> frame_from_aligned 0x1000;
     as \<leftarrow> fold_opt (user_mem_map_page ptr base_va flags) [0..<npages] (fake_create_address_space root);
     Some (write_bytes m ptr 0 size, \<lparr>fu_ptr = ptr, fu_base_va = base_va, fu_npages = npages, fu_mmu = fake_mmu_new, fu_as = as\<rparr>)
   }"

definition user_mem_write :: "fake_user_mem \<Rightarrow> nat \<Rightarrow> 8 word list \<Rightarrow> memory \<Rightarrow> memory option" where
  "user_mem_write u off bytes m = do {
     e \<leftarrow> checked_add off (length bytes);
     n \<leftarrow> region_len u;
     if e \<le> n then Some (copy_bytes m (fu_ptr u + off) bytes) else None
   }"

definition user_mem_read :: "fake_user_mem \<Rightarrow> nat \<Rightarrow> nat \<Rightarrow> memory \<Rightarrow> 8 word list option" where
  "user_mem_read u off len m = do {
     e \<leftarrow> checked_add off len;
     n \<leftarrow> region_len u;
     if e \<le> n then Some (map (\<lambda>i. m (fu_ptr u + off + i)) [0..<len]) else None
   }"

section \<open>The console and the processor\<close>

type_synonym fake_console = "8 word list"

definition fake_write_bytes :: "8 word list \<Rightarrow> fake_console \<Rightarrow> fake_console" where
  "fake_write_bytes bytes captured = captured @ bytes"

record fake_cpu =
  fc_core_id :: "32 word"
  fc_irqs_enabled :: bool
  fc_wait_for_interrupt_count :: "64 word"
  fc_instruction_barrier_count :: "64 word"

definition fake_cpu_with_core_id :: "32 word \<Rightarrow> fake_cpu" where
  "fake_cpu_with_core_id core_id =
     \<lparr>fc_core_id = core_id, fc_irqs_enabled = True, fc_wait_for_interrupt_count = 0, fc_instruction_barrier_count = 0\<rparr>"

definition fake_cpu_new :: fake_cpu where
  "fake_cpu_new = fake_cpu_with_core_id 0"

definition fake_disable_irqs :: "fake_cpu \<Rightarrow> fake_cpu \<times> 64 word" where
  "fake_disable_irqs c = (c\<lparr>fc_irqs_enabled := False\<rparr>, of_bool (\<not> fc_irqs_enabled c))"

definition fake_restore_irq_state :: "64 word \<Rightarrow> fake_cpu \<Rightarrow> fake_cpu" where
  "fake_restore_irq_state state c = c\<lparr>fc_irqs_enabled := (state = 0)\<rparr>"

definition fake_wait_for_interrupt :: "fake_cpu \<Rightarrow> fake_cpu option" where
  "fake_wait_for_interrupt c =
     map_option (\<lambda>n. c\<lparr>fc_wait_for_interrupt_count := n\<rparr>) (count_call (fc_wait_for_interrupt_count c))"

definition fake_instruction_barrier :: "fake_cpu \<Rightarrow> fake_cpu option" where
  "fake_instruction_barrier c =
     map_option (\<lambda>n. c\<lparr>fc_instruction_barrier_count := n\<rparr>) (count_call (fc_instruction_barrier_count c))"

section \<open>The interrupt controller and the timer\<close>

definition FAKE_MAX_IRQ :: "32 word" where "FAKE_MAX_IRQ = 1020"

record fake_irq_controller =
  fi_enabled :: "irq_number set"
  fi_pending :: "irq_number list"
  fi_eoi_history :: "irq_number list"

definition fake_irq_new :: fake_irq_controller where
  "fake_irq_new = \<lparr>fi_enabled = {}, fi_pending = [], fi_eoi_history = []\<rparr>"

definition fake_inject :: "irq_number \<Rightarrow> fake_irq_controller \<Rightarrow> fake_irq_controller" where
  "fake_inject irq c = c\<lparr>fi_pending := fi_pending c @ [irq]\<rparr>"

definition fake_irq_enable :: "irq_number \<Rightarrow> fake_irq_controller \<Rightarrow> fake_irq_controller option" where
  "fake_irq_enable irq c =
     (if irq < FAKE_MAX_IRQ then Some (c\<lparr>fi_enabled := insert irq (fi_enabled c)\<rparr>) else None)"

definition fake_irq_disable :: "irq_number \<Rightarrow> fake_irq_controller \<Rightarrow> fake_irq_controller option" where
  "fake_irq_disable irq c =
     (if irq < FAKE_MAX_IRQ then Some (c\<lparr>fi_enabled := fi_enabled c - {irq}\<rparr>) else None)"

definition fake_acknowledge :: "fake_irq_controller \<Rightarrow> fake_irq_controller \<times> irq_number option" where
  "fake_acknowledge c =
     (case fi_pending c of [] \<Rightarrow> (c, None) | irq # rest \<Rightarrow> (c\<lparr>fi_pending := rest\<rparr>, Some irq))"

definition fake_end_of_interrupt :: "irq_number \<Rightarrow> fake_irq_controller \<Rightarrow> fake_irq_controller" where
  "fake_end_of_interrupt irq c = c\<lparr>fi_eoi_history := fi_eoi_history c @ [irq]\<rparr>"

record fake_timer =
  ft_resolution_ns :: "64 word"
  ft_now_ns :: "64 word"
  ft_armed_deadline :: "64 word option"
  ft_cancel_count :: "64 word"

definition fake_timer_new :: "64 word \<Rightarrow> fake_timer" where
  "fake_timer_new resolution = \<lparr>ft_resolution_ns = resolution, ft_now_ns = 0, ft_armed_deadline = None, ft_cancel_count = 0\<rparr>"

definition fake_advance :: "64 word \<Rightarrow> fake_timer \<Rightarrow> fake_timer" where
  "fake_advance delta t =
     t\<lparr>ft_now_ns := (if unat (ft_now_ns t) + unat delta < 2 ^ 64 then ft_now_ns t + delta else U64_MAX)\<rparr>"

definition fake_set_now :: "64 word \<Rightarrow> fake_timer \<Rightarrow> fake_timer" where
  "fake_set_now ns t = t\<lparr>ft_now_ns := ns\<rparr>"

definition fake_arm_deadline :: "64 word \<Rightarrow> fake_timer \<Rightarrow> fake_timer" where
  "fake_arm_deadline deadline t = t\<lparr>ft_armed_deadline := Some deadline\<rparr>"

definition fake_cancel_deadline :: "fake_timer \<Rightarrow> fake_timer option" where
  "fake_cancel_deadline t =
     map_option (\<lambda>n. t\<lparr>ft_armed_deadline := None, ft_cancel_count := n\<rparr>) (count_call (ft_cancel_count t))"

section \<open>The context switch\<close>

record fake_task_context =
  ctx_switched :: bool
  ctx_initialized :: bool
  ctx_is_user :: bool
  ctx_entry_addr :: nat
  ctx_user_sp :: nat
  ctx_stack_top :: nat

definition fake_context_default :: fake_task_context where
  "fake_context_default =
     \<lparr>ctx_switched = False, ctx_initialized = False, ctx_is_user = False, ctx_entry_addr = 0, ctx_user_sp = 0, ctx_stack_top = 0\<rparr>"

record fake_context_switch =
  fs_switch_count :: "64 word"
  fs_init_count :: "64 word"

definition fake_context_switch_new :: fake_context_switch where
  "fake_context_switch_new = \<lparr>fs_switch_count = 0, fs_init_count = 0\<rparr>"

definition fake_switch ::
    "fake_task_context \<Rightarrow> fake_context_switch \<Rightarrow> (fake_task_context \<times> fake_context_switch) option" where
  "fake_switch current s =
     map_option (\<lambda>n. (current\<lparr>ctx_switched := True\<rparr>, s\<lparr>fs_switch_count := n\<rparr>)) (count_call (fs_switch_count s))"

text \<open>What the two initialisers make of the context, and the call that is counted.\<close>

definition fake_seed :: "fake_task_context \<Rightarrow> nat \<Rightarrow> nat \<Rightarrow> fake_task_context" where
  "fake_seed ctx e stack_top =
     ctx\<lparr>ctx_initialized := True, ctx_is_user := False, ctx_user_sp := 0, ctx_entry_addr := e, ctx_stack_top := stack_top\<rparr>"

definition fake_seed_user :: "fake_task_context \<Rightarrow> nat \<Rightarrow> nat \<Rightarrow> nat \<Rightarrow> fake_task_context" where
  "fake_seed_user ctx user_entry user_sp kernel_stack_top =
     ctx\<lparr>ctx_initialized := True, ctx_is_user := True, ctx_entry_addr := user_entry, ctx_user_sp := user_sp,
        ctx_stack_top := kernel_stack_top\<rparr>"

definition fake_init_context ::
    "fake_task_context \<Rightarrow> nat \<Rightarrow> nat \<Rightarrow> fake_context_switch \<Rightarrow> (fake_task_context \<times> fake_context_switch) option" where
  "fake_init_context ctx e stack_top s =
     map_option (\<lambda>n. (fake_seed ctx e stack_top, s\<lparr>fs_init_count := n\<rparr>)) (count_call (fs_init_count s))"

definition fake_init_user_context ::
    "fake_task_context \<Rightarrow> nat \<Rightarrow> nat \<Rightarrow> nat \<Rightarrow> fake_context_switch \<Rightarrow> (fake_task_context \<times> fake_context_switch) option" where
  "fake_init_user_context ctx user_entry user_sp kernel_stack_top s =
     map_option (\<lambda>n. (fake_seed_user ctx user_entry user_sp kernel_stack_top, s\<lparr>fs_init_count := n\<rparr>)) (count_call (fs_init_count s))"

text \<open>The contexts alone, as the interface that the scheduler is generic in.\<close>

definition fake_switch_cpu :: "fake_task_context cpu" where
  "fake_switch_cpu =
     \<lparr>cpu_default = fake_context_default, cpu_init_context = fake_seed, cpu_init_user_context = fake_seed_user\<rparr>"

end
