(* ===== verification/TestHal_Claims.thy ===== *)
theory TestHal_Claims
  imports TestHal Mmu_Claims
begin

text \<open>
  What a test on the doubles says about the board. The flat translation unit answers
  every history of calls as the four-level walk does; the failures that the
  decorators inject keep the contract of the \<open>Mmu\<close> trait; the processor double masks
  interrupts as the board does; the fixture of user pages is what it says. Outside
  the 48-bit addresses, where the walk drops the upper bits, the two units differ.
\<close>

unbundle bit_operations_syntax

section \<open>Histories of any translation unit\<close>

fun mmu_step ::
    "('a, 'p) mmu \<Rightarrow> 'p frame_provider \<Rightarrow> 'p \<times> memory \<times> 'a \<Rightarrow> page_op \<Rightarrow> (('p \<times> memory \<times> 'a) \<times> page_result) option" where
  "mmu_step u alloc (p, m, as) (Page_map va pa fl) = do {
     (s, r) \<leftarrow> mmu_map u alloc p m as va pa fl;
     Some (s, case r of Inl e \<Rightarrow> Refused e | Inr _ \<Rightarrow> Mapped)
   }"
| "mmu_step u alloc (p, m, as) (Page_unmap va) = do {
     ((m', as'), r) \<leftarrow> mmu_unmap u m as va;
     Some ((p, m', as'), case r of Inl e \<Rightarrow> Refused e | Inr x \<Rightarrow> Unmapped (snd x))
   }"
| "mmu_step u alloc (p, m, as) (Page_translate va) = do {
     r \<leftarrow> mmu_translate u m as va;
     Some ((p, m, as), case r of Inl e \<Rightarrow> Refused e | Inr x \<Rightarrow> Translated (fst x) (snd x))
   }"

fun mmu_run ::
    "('a, 'p) mmu \<Rightarrow> 'p frame_provider \<Rightarrow> 'p \<times> memory \<times> 'a \<Rightarrow> page_op list \<Rightarrow> (('p \<times> memory \<times> 'a) \<times> page_result list) option" where
  "mmu_run u alloc s [] = Some (s, [])"
| "mmu_run u alloc s (op # ops) = do {
     (s1, r) \<leftarrow> mmu_step u alloc s op;
     (s2, rs) \<leftarrow> mmu_run u alloc s1 ops;
     Some (s2, r # rs)
   }"

lemma board_step:
  "mmu_step qemu_mmu pmm_alloc_frame (p, m, as) op = map_option (\<lambda>((p, m), r). ((p, m, as), r)) (page_step as (p, m) op)"
  by (cases op) (auto simp: qemu_mmu_def qemu_map_def qemu_unmap_def bind_eq_None_conv split: bind_split)

lemma board_run:
  "mmu_run qemu_mmu pmm_alloc_frame (p, m, as) ops = map_option (\<lambda>((p, m), r). ((p, m, as), r)) (page_run as (p, m) ops)"
proof (induction ops arbitrary: p m)
  case (Cons op ops)
  then show ?case by (auto simp: board_step bind_eq_None_conv simp del: page_step.simps split: bind_split)
qed simp

section \<open>The flat unit and the specification\<close>

text \<open>Addresses that the walk reads in full, and what the board makes of a double's answer.\<close>

fun op_canonical :: "page_op \<Rightarrow> bool" where
  "op_canonical (Page_map va pa fl) \<longleftrightarrow> va < 2 ^ 48"
| "op_canonical (Page_unmap va) \<longleftrightarrow> va < 2 ^ 48"
| "op_canonical (Page_translate va) \<longleftrightarrow> va < 2 ^ 48"

fun board_result :: "page_result \<Rightarrow> page_result" where
  "board_result (Translated frame fl) = Translated frame (mf_effective fl)"
| "board_result r = r"

definition flat_shows :: "page_map \<Rightarrow> fake_address_space \<Rightarrow> bool" where
  "flat_shows V as \<longleftrightarrow>
     (\<forall>va < 2 ^ 48. va mod PAGE_SIZE = 0 \<longrightarrow> V (page_number va) = map_option (apsnd mf_effective) (fa_mappings as va))"

lemma page_number_small: "va < 2 ^ 48 \<Longrightarrow> page_number va = va div 4096"
  by (simp add: page_number_def)

lemma page_base_small:
  assumes "va < 2 ^ 48"
  shows "page_base va < 2 ^ 48" "page_base va mod PAGE_SIZE = 0" "page_number (page_base va) = page_number va"
proof -
  show b: "page_base va < 2 ^ 48" using assms by (simp add: page_base_def PAGE_SIZE_def)
  show "page_base va mod PAGE_SIZE = 0" by (simp add: page_base_def)
  show "page_number (page_base va) = page_number va"
    unfolding page_number_small [OF b] page_number_small [OF assms] by (simp add: page_base_def PAGE_SIZE_def)
qed

lemma aligned_inj:
  "\<lbrakk>va < 2 ^ 48; w < 2 ^ 48; va mod PAGE_SIZE = 0; w mod PAGE_SIZE = 0\<rbrakk> \<Longrightarrow> page_number va = page_number w \<longleftrightarrow> va = w"
  unfolding page_number_small PAGE_SIZE_def by (metis dvd_div_eq_iff dvd_eq_mod_eq_0)

lemma flat_shows_upd:
  assumes "flat_shows V as" "va < 2 ^ 48" "va mod PAGE_SIZE = 0"
  shows "flat_shows (V(page_number va := map_option (apsnd mf_effective) x)) (as\<lparr>fa_mappings := (fa_mappings as)(va := x)\<rparr>)"
  unfolding flat_shows_def
proof (intro allI impI)
  fix w :: nat assume w: "w < 2 ^ 48" "w mod PAGE_SIZE = 0"
  show "(V(page_number va := map_option (apsnd mf_effective) x)) (page_number w) =
      map_option (apsnd mf_effective) (fa_mappings (as\<lparr>fa_mappings := (fa_mappings as)(va := x)\<rparr>) w)"
    using assms(1) w aligned_inj [OF assms(2) w(1) assms(3) w(2)] by (auto simp: flat_shows_def)
qed

lemma flat_step:
  assumes "flat_shows V as" "op_canonical op" "map_step V op r = Some V'" "r \<noteq> Refused MmuOutOfFrames"
  shows "\<exists>as' fr. mmu_step fake_mmu alloc (q, n, as) op = Some ((q, n, as'), fr) \<and> board_result fr = r \<and> flat_shows V' as'"
proof (cases op)
  case (Page_map va pa fl)
  show ?thesis
  proof (cases "va mod PAGE_SIZE = 0")
    case True
    have v: "V (page_number va) = map_option (apsnd mf_effective) (fa_mappings as va)"
      using assms(1,2) True Page_map by (simp add: flat_shows_def)
    have "flat_shows (V(page_number va \<mapsto> (pa, mf_effective fl))) (as\<lparr>fa_mappings := (fa_mappings as)(va \<mapsto> (pa, fl))\<rparr>)"
      using flat_shows_upd [OF assms(1) _ True, of "Some (pa, fl)"] assms(2) Page_map by simp
    then show ?thesis
      using assms v True Page_map by (auto simp: fake_mmu_def fake_map_def split: if_splits)
  qed (use assms Page_map in \<open>auto simp: fake_mmu_def fake_map_def split: if_splits\<close>)
next
  case (Page_unmap va)
  show ?thesis
  proof (cases "va mod PAGE_SIZE = 0")
    case True
    have v: "V (page_number va) = map_option (apsnd mf_effective) (fa_mappings as va)"
      using assms(1,2) True Page_unmap by (simp add: flat_shows_def)
    have u: "flat_shows (V(page_number va := None)) (as\<lparr>fa_mappings := (fa_mappings as)(va := None)\<rparr>)"
      using flat_shows_upd [OF assms(1) _ True, of None] assms(2) Page_unmap by simp
    show ?thesis
    proof (cases "fa_mappings as va")
      case None
      then have "V(page_number va := None) = V" using v by auto
      then show ?thesis
        using assms(3) u v None True Page_unmap by (auto simp: fake_mmu_def fake_unmap_def ok_or_def split: if_splits)
    qed (use assms(3) u v True Page_unmap in \<open>auto simp: fake_mmu_def fake_unmap_def ok_or_def split: if_splits\<close>)
  qed (use assms Page_unmap in \<open>auto simp: fake_mmu_def fake_unmap_def split: if_splits\<close>)
next
  case (Page_translate va)
  then have "V (page_number va) = map_option (apsnd mf_effective) (fa_mappings as (page_base va))"
    using assms(1,2) page_base_small [of va] unfolding flat_shows_def by force
  then show ?thesis
    using assms(1,3) Page_translate
    by (cases "fa_mappings as (page_base va)")
      (auto simp: fake_mmu_def fake_translate_def fake_lookup_def ok_or_def split: if_splits)
qed

lemma flat_run:
  "\<lbrakk>flat_shows V as; list_all op_canonical ops; map_run V ops rs = Some V'; Refused MmuOutOfFrames \<notin> set rs\<rbrakk> \<Longrightarrow>
     \<exists>as' frs. mmu_run fake_mmu alloc (q, n, as) ops = Some ((q, n, as'), frs) \<and> rs = map board_result frs \<and> flat_shows V' as'"
proof (induction ops arbitrary: V as rs)
  case Nil
  then show ?case by (cases rs) auto
next
  case (Cons op ops)
  from Cons.prems(3) obtain r rs' V1 where r: "rs = r # rs'" "map_step V op r = Some V1" "map_run V1 ops rs' = Some V'"
    by (cases rs) (auto simp: bind_eq_Some_conv simp del: map_step.simps)
  have "op_canonical op" "r \<noteq> Refused MmuOutOfFrames" using Cons.prems(2,4) r(1) by auto
  from flat_step [OF Cons.prems(1) this(1) r(2) this(2), of alloc q n] obtain as1 fr where
    s: "mmu_step fake_mmu alloc (q, n, as) op = Some ((q, n, as1), fr)" "board_result fr = r" "flat_shows V1 as1" by blast
  from Cons.IH [OF s(3) _ r(3)] Cons.prems(2,4) r(1) obtain as' frs where
    "mmu_run fake_mmu alloc (q, n, as1) ops = Some ((q, n, as'), frs)" "rs' = map board_result frs" "flat_shows V' as'" by auto
  then show ?case using s(1,2) r(1) by (auto simp del: mmu_step.simps)
qed

lemma flat_translate:
  assumes "flat_shows V as" "va < 2 ^ 48"
  shows "map_option (map_sum id (apsnd mf_effective)) (fake_translate n as va) = Some (shown V va)"
proof -
  have "V (page_number va) = map_option (apsnd mf_effective) (fa_mappings as (page_base va))"
    using assms page_base_small [OF assms(2)] unfolding flat_shows_def by force
  then show ?thesis
    by (cases "fa_mappings as (page_base va)") (simp_all add: fake_translate_def fake_lookup_def ok_or_def shown_def)
qed

section \<open>The flat unit and the walk\<close>

text \<open>
  C26: A test on the flat translation unit sees what the board would do. Take any
  sequence of map, unmap and translate calls on addresses below 2^48, whatever the
  frames, the flags and the misuse, and run it on the board's page-table walk, with a
  root from the memory manager, and on the double, with any provider. Neither
  panics. Unless the board runs out of frames for its tables, which it does not with
  three frames for each call, every call has the same result on both, errors
  included, except that the board's translate drops the flag bits that its
  descriptors do not hold; and afterwards the two translate every address below 2^48
  alike.
\<close>

theorem flat_unit_agrees_with_walk:
  assumes "pmm_wf p" "direct_mapped p" "pmm_alloc_frame p m = Some ((p1, m1), Some root)"
    and "list_all page_op_valid ops" "list_all op_canonical ops"
  shows "\<exists>p' m' board rs.
    mmu_run qemu_mmu pmm_alloc_frame (p1, m1, qemu_create_address_space root) ops = Some ((p', m', board), rs) \<and>
    (3 * length ops < st_free_frames (pmm_get_stats p1) \<longrightarrow> Refused MmuOutOfFrames \<notin> set rs) \<and>
    (Refused MmuOutOfFrames \<notin> set rs \<longrightarrow>
      (\<exists>double frs.
         mmu_run fake_mmu alloc (q, n, fake_create_address_space other) ops = Some ((q, n, double), frs) \<and>
         rs = map board_result frs \<and>
         (\<forall>va < 2 ^ 48. qemu_translate m' board va =
            map_option (map_sum id (apsnd mf_effective)) (fake_translate n double va))))"
proof -
  have "pmm_inv p" using assms(1,2) by (simp add: pmm_inv_def)
  from page_run_ok [OF fresh_space(1) [OF this assms(3)] assms(4)] obtain p' m' rs V where
    r: "page_run (qemu_create_address_space root) (p1, m1) ops = Some ((p', m'), rs)" "map_run Map.empty ops rs = Some V"
      "history_ok (qemu_create_address_space root) (p', m') V" "Refused MmuOutOfFrames \<in> set rs \<longrightarrow> pm_free_count p' = 0" by auto
  have room: "3 * length ops < st_free_frames (pmm_get_stats p1) \<longrightarrow> Refused MmuOutOfFrames \<notin> set rs"
    using page_run_uses [OF fresh_space(1) [OF \<open>pmm_inv p\<close> assms(3)] assms(4) r(1)] r(4) by (auto simp: pmm_get_stats_def)
  have t: "qemu_translate m' (qemu_create_address_space root) va = Some (shown V va)" for va
    using r(3) translate_spec [of m' "qemu_create_address_space root" va] by (simp add: history_ok_def space_ok_def)
  have e: "flat_shows Map.empty (fake_create_address_space other)"
    by (simp add: flat_shows_def fake_create_address_space_def)
  have d: "\<exists>double frs. mmu_run fake_mmu alloc (q, n, fake_create_address_space other) ops = Some ((q, n, double), frs) \<and>
      rs = map board_result frs \<and> (\<forall>va < 2 ^ 48. qemu_translate m' (qemu_create_address_space root) va =
        map_option (map_sum id (apsnd mf_effective)) (fake_translate n double va))" if "Refused MmuOutOfFrames \<notin> set rs"
  proof -
    from flat_run [OF e assms(5) r(2) that, of alloc q n] obtain double frs where
      x: "mmu_run fake_mmu alloc (q, n, fake_create_address_space other) ops = Some ((q, n, double), frs)"
        "rs = map board_result frs" "flat_shows V double" by blast
    have "\<forall>va < 2 ^ 48. qemu_translate m' (qemu_create_address_space root) va =
        map_option (map_sum id (apsnd mf_effective)) (fake_translate n double va)"
    proof (intro allI impI)
      fix va :: nat assume "va < 2 ^ 48"
      from flat_translate [OF x(3) this, of n] show "qemu_translate m' (qemu_create_address_space root) va =
          map_option (map_sum id (apsnd mf_effective)) (fake_translate n double va)" unfolding t by (rule sym)
    qed
    then show ?thesis using x(1,2) by blast
  qed
  have "mmu_run qemu_mmu pmm_alloc_frame (p1, m1, qemu_create_address_space root) ops =
      Some ((p', m', qemu_create_address_space root), rs)" using r(1) by (simp add: board_run)
  then show ?thesis using d room by blast
qed

text \<open>A history with a map, a second one, an unmap of another page and a read inside the page.\<close>

definition demo_history :: "page_op list" where
  "demo_history =
     [Page_map 0x400000 (PhysFrame 0x80000000) mf_USER, Page_map 0x400000 (PhysFrame 0x80001000) mf_WRITE,
      Page_unmap 0x401000, Page_translate 0x400abc]"

theorem flat_unit_agrees_with_walk_witness:
  "\<exists>p1 m1 root p' m' board rs. pmm_alloc_frame demo_pmm (\<lambda>_. 0) = Some ((p1, m1), Some root) \<and>
     mmu_run qemu_mmu pmm_alloc_frame (p1, m1, qemu_create_address_space root) demo_history = Some ((p', m', board), rs) \<and>
     rs = [Mapped, Refused AlreadyMapped, Refused NotMapped, Translated (PhysFrame 0x80000000) (mf_effective mf_USER)]"
proof -
  have "pmm_inv demo_pmm" using demo_pmm_facts(1,2) by (simp add: pmm_inv_def)
  then obtain p1 m1 root where a: "pmm_alloc_frame demo_pmm (\<lambda>_. 0) = Some ((p1, m1), Some root)" "pm_free_count p1 = 13"
    using pmm_provides [of demo_pmm "\<lambda>_. 0"] by (auto simp: demo_pmm_def)
  have "list_all page_op_valid demo_history" "list_all op_canonical demo_history"
    by (simp_all add: demo_history_def PAGE_SIZE_def)
  from flat_unit_agrees_with_walk [OF demo_pmm_facts(1,2) a(1) this, of vec_alloc_frame "[]" "\<lambda>_. 0" "PhysFrame 0x1000"]
  obtain p' m' board rs where r:
      "mmu_run qemu_mmu pmm_alloc_frame (p1, m1, qemu_create_address_space root) demo_history = Some ((p', m', board), rs)"
      "3 * length demo_history < st_free_frames (pmm_get_stats p1) \<longrightarrow> Refused MmuOutOfFrames \<notin> set rs"
      "Refused MmuOutOfFrames \<notin> set rs \<Longrightarrow> \<exists>s frs.
         mmu_run fake_mmu vec_alloc_frame ([], \<lambda>_. 0, fake_create_address_space (PhysFrame 0x1000)) demo_history =
           Some (s, frs) \<and> rs = map board_result frs" by blast
  have flags: "\<not> (mf_contains mf_USER mf_DEVICE \<and> mf_contains mf_USER mf_EXECUTE)" "\<not> (mf_contains mf_WRITE mf_DEVICE \<and> mf_contains mf_WRITE mf_EXECUTE)"
    by (simp_all add: mf_contains_def mf_consts)
  have "snd (the (mmu_run fake_mmu vec_alloc_frame ([], \<lambda>_. 0, fake_create_address_space (PhysFrame 0x1000)) demo_history)) =
      [Mapped, Refused AlreadyMapped, Refused NotMapped, Translated (PhysFrame 0x80000000) mf_USER]"
    using flags by (simp add: demo_history_def fake_mmu_def fake_create_address_space_def fake_map_def fake_unmap_def
        fake_translate_def fake_lookup_def ok_or_def page_base_def PAGE_SIZE_def)
  moreover have "Refused MmuOutOfFrames \<notin> set rs" using r(2) a(2) by (simp add: demo_history_def pmm_get_stats_def)
  from r(3) [OF this] obtain s frs where
      x: "mmu_run fake_mmu vec_alloc_frame ([], \<lambda>_. 0, fake_create_address_space (PhysFrame 0x1000)) demo_history =
           Some (s, frs)" "rs = map board_result frs" by blast
  ultimately have "rs = [Mapped, Refused AlreadyMapped, Refused NotMapped, Translated (PhysFrame 0x80000000) (mf_effective mf_USER)]"
    by simp
  then show ?thesis using a(1) r(1) by blast
qed

text \<open>
  Above 2^48 the two differ: the walk indexes with bits 47:12, so an address and its
  alias are one page, where the double keys its map with the whole address.
\<close>

lemma flat_unit_misses_aliases:
  assumes "pmm_wf p" "direct_mapped p" "pmm_alloc_frame p m = Some ((p1, m1), Some root)"
    and "list_all page_op_valid [Page_map va pa fl, Page_map (va + 2 ^ 48) pa fl]" "va mod PAGE_SIZE = 0"
    and "\<not> (mf_contains fl mf_DEVICE \<and> mf_contains fl mf_EXECUTE)"
  shows "\<exists>r1 r2. map_option snd (mmu_run qemu_mmu pmm_alloc_frame (p1, m1, qemu_create_address_space root)
        [Page_map va pa fl, Page_map (va + 2 ^ 48) pa fl]) = Some [r1, r2] \<and> (r1 = Mapped \<longrightarrow> r2 = Refused AlreadyMapped)"
    "map_option snd (mmu_run fake_mmu alloc (q, n, fake_create_address_space other)
        [Page_map va pa fl, Page_map (va + 2 ^ 48) pa fl]) = Some [Mapped, Mapped]"
proof -
  have al: "(va + 2 ^ 48) mod PAGE_SIZE = 0" using assms(5) by (auto simp: PAGE_SIZE_def mod_add_eq [symmetric] simp del: mod_add_eq)
  have pn: "page_number (va + 2 ^ 48) = page_number va"
  proof -
    have "(va + 2 ^ 48) div 4096 = va div 4096 + 2 ^ 36" by simp
    then show ?thesis by (simp add: page_number_def)
  qed
  have "pmm_inv p" using assms(1,2) by (simp add: pmm_inv_def)
  from page_run_ok [OF fresh_space(1) [OF this assms(3)] assms(4)] obtain p' m' rs V where
    r: "page_run (qemu_create_address_space root) (p1, m1) [Page_map va pa fl, Page_map (va + 2 ^ 48) pa fl] = Some ((p', m'), rs)"
      "map_run Map.empty [Page_map va pa fl, Page_map (va + 2 ^ 48) pa fl] rs = Some V" by auto
  then obtain r1 r2 where "rs = [r1, r2]" by (cases rs; cases "tl rs") (auto simp: bind_eq_Some_conv simp del: map_step.simps)
  with r show "\<exists>r1 r2. map_option snd (mmu_run qemu_mmu pmm_alloc_frame (p1, m1, qemu_create_address_space root)
        [Page_map va pa fl, Page_map (va + 2 ^ 48) pa fl]) = Some [r1, r2] \<and> (r1 = Mapped \<longrightarrow> r2 = Refused AlreadyMapped)"
    using al pn assms(5,6) by (auto simp: board_run bind_eq_Some_conv simp del: page_run.simps mmu_run.simps split: if_splits)
  show "map_option snd (mmu_run fake_mmu alloc (q, n, fake_create_address_space other)
        [Page_map va pa fl, Page_map (va + 2 ^ 48) pa fl]) = Some [Mapped, Mapped]"
    using assms(5,6) al by (simp add: fake_mmu_def fake_map_def fake_create_address_space_def)
qed

section \<open>Injected failures\<close>

text \<open>
  \<open>OutOfFrames\<close> is reported exactly when a map that the inner unit accepts meets an
  empty provider; every refusal leaves the address space and the provider alone, and
  an accepted map takes one frame.
\<close>

lemma out_of_frames_contract:
  "\<exists>fs' as' r. out_of_frames_map vec_alloc_frame fs m as va pa fl = Some ((fs', m, as'), r) \<and>
     (r = Inl MmuOutOfFrames \<longleftrightarrow> fs = [] \<and> is_ok (snd (the (fake_map vec_alloc_frame fs m as va pa fl)))) \<and>
     (case r of
        Inl _ \<Rightarrow> fs' = fs \<and> as' = as
      | Inr tok \<Rightarrow> tok = MapperFlush va \<and> length fs = Suc (length fs') \<and>
          fa_mappings as va = None \<and> as' = as\<lparr>fa_mappings := (fa_mappings as)(va \<mapsto> (pa, fl))\<rparr>)"
proof -
  consider "\<not> is_ok (snd (the (fake_map vec_alloc_frame fs m as va pa fl)))"
    | "va mod PAGE_SIZE = 0" "\<not> (mf_contains fl mf_DEVICE \<and> mf_contains fl mf_EXECUTE)" "fa_mappings as va = None"
  proof (cases "va mod PAGE_SIZE = 0 \<and> \<not> (mf_contains fl mf_DEVICE \<and> mf_contains fl mf_EXECUTE) \<and> fa_mappings as va = None")
    case False
    then have "\<not> is_ok (snd (the (fake_map vec_alloc_frame fs m as va pa fl)))" by (auto simp: fake_map_def)
    then show ?thesis by (rule that(1))
  qed (use that(2) in simp)
  then show ?thesis
  proof cases
    case 1
    then show ?thesis by (auto simp: out_of_frames_map_def fake_map_def split: if_splits)
  next
    case 2
    have "as\<lparr>fa_mappings := (fa_mappings as)(va := None)\<rparr> = as" using 2(3) by (cases as) auto
    then show ?thesis
      using 2 by (cases "fs = []") (auto simp: out_of_frames_map_def fake_map_def fake_unmap_def vec_alloc_frame_def)
  qed
qed

text \<open>
  \<open>BlockMapped\<close> is reported exactly on the registered addresses, by map, unmap and
  translate, with nothing changed; everywhere else the inner unit answers.
\<close>

lemma block_mapped_contract:
  "mmu_map (block_mapped_mmu blocked) alloc p m as va pa fl =
     (if va \<in> blocked then Some ((p, m, as), Inl BlockMapped) else mmu_map fake_mmu alloc p m as va pa fl)"
  "mmu_unmap (block_mapped_mmu blocked :: (_, 'p) mmu) m as va =
     (if va \<in> blocked then Some ((m, as), Inl BlockMapped) else mmu_unmap (fake_mmu :: (_, 'p) mmu) m as va)"
  "mmu_translate (block_mapped_mmu blocked :: (_, 'p) mmu) m as va =
     (if page_base va \<in> blocked then Some (Inl BlockMapped) else mmu_translate (fake_mmu :: (_, 'p) mmu) m as va)"
  "is_ok (snd (the (fake_unmap m as va))) \<or> snd (the (fake_unmap m as va)) \<noteq> Inl BlockMapped"
  "snd (the (fake_map alloc p m as va pa fl)) \<noteq> Inl BlockMapped"
  by (auto simp: block_mapped_mmu_def block_mapped_map_def block_mapped_unmap_def block_mapped_translate_def fake_mmu_def
      fake_unmap_def fake_map_def ok_or_def split: option.splits)

section \<open>Interrupt masks and lines\<close>

text \<open>A history of the masks: mask and keep what was saved, or write back the \<open>k\<close>-th saved state.\<close>

datatype mask_op = Mask_all | Restore_saved nat

fun mask_step :: "('r \<Rightarrow> 'r \<times> 64 word) \<Rightarrow> (64 word \<Rightarrow> 'r \<Rightarrow> 'r) \<Rightarrow> mask_op \<Rightarrow> 'r \<times> 64 word list \<Rightarrow> 'r \<times> 64 word list" where
  "mask_step disable restore Mask_all (r, saved) = (let (r', s) = disable r in (r', saved @ [s]))"
| "mask_step disable restore (Restore_saved k) (r, saved) =
     (if k < length saved then (restore (saved ! k) r, saved) else (r, saved))"

text \<open>The double's flag is the board's \<open>I\<close> bit, and its saved states are zero where the board's have it clear.\<close>

definition masks_agree :: "cpu_regs \<times> 64 word list \<Rightarrow> fake_cpu \<times> 64 word list \<Rightarrow> bool" where
  "masks_agree b d \<longleftrightarrow>
     (fc_irqs_enabled (fst d) \<longleftrightarrow> \<not> bit (rg_daif (fst b)) 7) \<and>
     list_all2 (\<lambda>s t. t = 0 \<longleftrightarrow> \<not> bit s 7) (snd b) (snd d)"

lemma bit_DAIF_MASK_7: "bit DAIF_MASK 7"
  by (simp add: DAIF_MASK_def bit_numeral_rec)

lemma mask_step_agrees:
  assumes "masks_agree b d"
  shows "masks_agree (mask_step disable_irqs restore_irq_state op b) (mask_step fake_disable_irqs fake_restore_irq_state op d)"
proof -
  obtain r saved c saved' where e: "b = (r, saved)" "d = (c, saved')" by (cases b, cases d)
  show ?thesis
  proof (cases op)
    case Mask_all
    then show ?thesis
      using assms unfolding e
      by (auto simp: masks_agree_def disable_irqs_def fake_disable_irqs_def bit_or_iff bit_DAIF_MASK_7
          intro!: list_all2_appendI)
  next
    case (Restore_saved k)
    then show ?thesis
      using assms unfolding e
      by (auto simp: masks_agree_def restore_irq_state_def fake_restore_irq_state_def bit_and_iff bit_DAIF_MASK_7
          list_all2_conv_all_nth)
  qed
qed

lemma mask_history_agrees:
  "masks_agree b d \<Longrightarrow>
     masks_agree (fold (mask_step disable_irqs restore_irq_state) ops b) (fold (mask_step fake_disable_irqs fake_restore_irq_state) ops d)"
  by (induction ops arbitrary: b d) (simp_all add: mask_step_agrees)

text \<open>The controller's double refuses the lines that the board refuses.\<close>

lemma irq_lines_agree:
  "fake_irq_enable irq c = None \<longleftrightarrow> gic_enable g irq log = None"
  "fake_irq_disable irq c = None \<longleftrightarrow> gic_disable g irq log = None"
  by (simp_all add: fake_irq_enable_def fake_irq_disable_def gic_enable_def gic_disable_def FAKE_MAX_IRQ_def GIC_MAX_IRQ_def Let_def)

section \<open>The fixture of user pages\<close>

lemma user_mem_pages:
  assumes "ptr mod PAGE_SIZE = 0" "base_va mod PAGE_SIZE = 0" "ptr + k * PAGE_SIZE \<le> usize_max" "base_va + k * PAGE_SIZE \<le> usize_max"
    and "\<not> (mf_contains fl mf_DEVICE \<and> mf_contains fl mf_EXECUTE)" "fa_mappings as = Map.empty"
  shows "\<exists>as'. fold_opt (user_mem_map_page ptr base_va fl) [0..<k] as = Some as' \<and>
    (\<forall>i < k. fa_mappings as' (base_va + i * PAGE_SIZE) = Some (PhysFrame (ptr + i * PAGE_SIZE), fl)) \<and>
    (\<forall>va. (\<forall>i < k. va \<noteq> base_va + i * PAGE_SIZE) \<longrightarrow> fa_mappings as' va = None)"
  using assms(3,4)
proof (induction k)
  case (Suc k)
  then obtain as' where a: "fold_opt (user_mem_map_page ptr base_va fl) [0..<k] as = Some as'"
      "\<forall>i < k. fa_mappings as' (base_va + i * PAGE_SIZE) = Some (PhysFrame (ptr + i * PAGE_SIZE), fl)"
      "\<forall>va. (\<forall>i < k. va \<noteq> base_va + i * PAGE_SIZE) \<longrightarrow> fa_mappings as' va = None" by auto
  have new: "base_va + k * PAGE_SIZE \<noteq> base_va + i * PAGE_SIZE" if "i < k" for i using that by (simp add: PAGE_SIZE_def)
  have step: "user_mem_map_page ptr base_va fl k as' =
      Some (as'\<lparr>fa_mappings := (fa_mappings as')(base_va + k * PAGE_SIZE \<mapsto> (PhysFrame (ptr + k * PAGE_SIZE), fl))\<rparr>)"
    using Suc.prems assms(1,2,5) a(3) new
    by (simp add: user_mem_map_page_def checked_mul_def checked_add_def frame_from_aligned_def fake_map_def)
  show ?case
    using a(2,3) new step unfolding upt_Suc_append [OF le0] fold_opt_append a(1) by (auto simp: less_Suc_eq)
qed (use assms(6) in simp)

text \<open>
  The fixture maps every address of its region to the byte of host memory at the same
  offset, with the flags asked for, and nothing else; and what is written at an offset
  is read back there.
\<close>

lemma user_mem_faithful:
  assumes "ptr mod PAGE_SIZE = 0" "base_va mod PAGE_SIZE = 0" "1 \<le> k" "k * PAGE_SIZE \<le> ISIZE_MAX - (PAGE_SIZE - 1)"
    and "ptr + k * PAGE_SIZE \<le> usize_max" "base_va + k * PAGE_SIZE \<le> usize_max"
    and "\<not> (mf_contains fl mf_DEVICE \<and> mf_contains fl mf_EXECUTE)"
  shows "\<exists>m' u. user_mem_new (Some ptr) base_va k fl m = Some (m', u) \<and> fu_ptr u = ptr \<and> fu_npages u = k \<and>
    (\<forall>x < k * PAGE_SIZE. m' (ptr + x) = 0 \<and>
       (\<exists>f. fake_translate m' (fu_as u) (base_va + x) = Some (Inr (f, fl)) \<and> frame_addr f + x mod PAGE_SIZE = ptr + x)) \<and>
    (\<forall>va. va < base_va \<or> base_va + k * PAGE_SIZE \<le> va \<longrightarrow> fake_translate m' (fu_as u) va = Some (Inl NotMapped))"
proof -
  define as0 where "as0 = fake_create_address_space (PhysFrame 0x1000)"
  have e: "fa_mappings as0 = Map.empty" by (simp add: as0_def fake_create_address_space_def)
  from user_mem_pages [OF assms(1,2,5,6,7) e] obtain as' where
    a: "fold_opt (user_mem_map_page ptr base_va fl) [0..<k] as0 = Some as'"
      "\<And>i. i < k \<Longrightarrow> fa_mappings as' (base_va + i * PAGE_SIZE) = Some (PhysFrame (ptr + i * PAGE_SIZE), fl)"
      "\<And>va. \<forall>i < k. va \<noteq> base_va + i * PAGE_SIZE \<Longrightarrow> fa_mappings as' va = None" by blast
  have n: "user_mem_new (Some ptr) base_va k fl m = Some (write_bytes m ptr 0 (k * PAGE_SIZE),
      \<lparr>fu_ptr = ptr, fu_base_va = base_va, fu_npages = k, fu_mmu = fake_mmu_new, fu_as = as'\<rparr>)"
    using assms a(1) unfolding as0_def
    by (simp add: user_mem_new_def checked_mul_def frame_from_aligned_def) (simp add: PAGE_SIZE_def)
  obtain b where b: "base_va = b * PAGE_SIZE" using assms(2) by (metis dvd_eq_mod_eq_0 dvd_div_mult_self)
  have pb: "page_base (base_va + x) = base_va + x div PAGE_SIZE * PAGE_SIZE" for x
    by (simp add: page_base_def b PAGE_SIZE_def algebra_simps)
  have inside: "fake_translate m' as' (base_va + x) = Some (Inr (PhysFrame (ptr + x div PAGE_SIZE * PAGE_SIZE), fl))"
    if "x < k * PAGE_SIZE" for x m'
  proof -
    have "x div PAGE_SIZE < k" using that by (simp add: less_mult_imp_div_less)
    from a(2) [OF this] show ?thesis by (simp add: fake_translate_def fake_lookup_def pb ok_or_def)
  qed
  have outside: "fake_translate m' as' va = Some (Inl NotMapped)" if "va < base_va \<or> base_va + k * PAGE_SIZE \<le> va" for va m'
  proof -
    have "page_base va \<noteq> base_va + i * PAGE_SIZE" if "i < k" for i
    proof
      assume q: "page_base va = base_va + i * PAGE_SIZE"
      have "page_base va \<le> va" "va < page_base va + PAGE_SIZE" by (simp_all add: page_base_def PAGE_SIZE_def)
      moreover have "i * PAGE_SIZE + PAGE_SIZE \<le> k * PAGE_SIZE" using that mult_le_mono1 [of "Suc i" k PAGE_SIZE] by simp
      ultimately show False using q \<open>va < base_va \<or> _\<close> by linarith
    qed
    then have "fa_mappings as' (page_base va) = None" by (intro a(3)) blast
    then show ?thesis by (simp add: fake_translate_def fake_lookup_def ok_or_def)
  qed
  show ?thesis using n inside outside by (simp add: write_bytes_def)
qed

lemma user_mem_roundtrip:
  assumes "off + length bytes \<le> fu_npages u * PAGE_SIZE" "fu_npages u * PAGE_SIZE \<le> usize_max"
  shows "\<exists>m'. user_mem_write u off bytes m = Some m' \<and> user_mem_read u off (length bytes) m' = Some bytes \<and>
    (\<forall>a. a < fu_ptr u + off \<or> fu_ptr u + off + length bytes \<le> a \<longrightarrow> m' a = m a)"
  using assms by (auto simp: user_mem_write_def user_mem_read_def checked_add_def region_len_def checked_mul_def copy_bytes_def
      intro: nth_equalityI)

end
