(* ===== verification/Exceptions.thy ===== *)
theory Exceptions
  imports Demo Console
begin

text \<open>
  The rest of \<open>bsp-qemu-virt/src/exceptions.rs\<close>: the frame that the vectors push and
  the fatal handler of every exception that no vector handles. What the panic prints
  goes through \<^const>\<open>panic_handler\<close>; the core library puts the place of the panic
  before the message, which is an argument.
\<close>

section \<open>The trap frame\<close>

record trap_frame =
  tf_x0_x1 :: "64 word \<times> 64 word"
  tf_x2_x3 :: "64 word \<times> 64 word"
  tf_x4_x5 :: "64 word \<times> 64 word"
  tf_x6_x7 :: "64 word \<times> 64 word"
  tf_x8_x9 :: "64 word \<times> 64 word"
  tf_x10_x11 :: "64 word \<times> 64 word"
  tf_x12_x13 :: "64 word \<times> 64 word"
  tf_x14_x15 :: "64 word \<times> 64 word"
  tf_x16_x17 :: "64 word \<times> 64 word"
  tf_x18_lr :: "64 word \<times> 64 word"
  tf_elr_spsr :: "64 word \<times> 64 word"
  tf_reserved :: "64 word \<times> 64 word"

text \<open>The fields that \<open>Debug\<close> shows, in order; the padding is a fixed text.\<close>

datatype debug_field = Shown "64 word \<times> 64 word" | Redacted string

definition trap_frame_debug :: "trap_frame \<Rightarrow> (string \<times> debug_field) list" where
  "trap_frame_debug f =
     [(''x0_x1'', Shown (tf_x0_x1 f)), (''x2_x3'', Shown (tf_x2_x3 f)), (''x4_x5'', Shown (tf_x4_x5 f)),
      (''x6_x7'', Shown (tf_x6_x7 f)), (''x8_x9'', Shown (tf_x8_x9 f)), (''x10_x11'', Shown (tf_x10_x11 f)),
      (''x12_x13'', Shown (tf_x12_x13 f)), (''x14_x15'', Shown (tf_x14_x15 f)), (''x16_x17'', Shown (tf_x16_x17 f)),
      (''x18_lr'', Shown (tf_x18_lr f)), (''elr_spsr'', Shown (tf_elr_spsr f)),
      (''_reserved'', Redacted ''<uninitialised; redacted>'')]"

lemma trap_frame_debug_redacts:
  "trap_frame_debug f = trap_frame_debug g \<longleftrightarrow> (\<exists>r. g = f\<lparr>tf_reserved := r\<rparr>)"
proof
  assume "trap_frame_debug f = trap_frame_debug g"
  then have "g = f\<lparr>tf_reserved := tf_reserved g\<rparr>" by (cases f, cases g) (simp add: trap_frame_debug_def)
  then show "\<exists>r. g = f\<lparr>tf_reserved := r\<rparr>" ..
qed (auto simp: trap_frame_debug_def)

section \<open>Fatal exceptions\<close>

definition panic_class_as_str :: "panic_class \<Rightarrow> string" where
  "panic_class_as_str c =
     (case c of
        PanicGeneric \<Rightarrow> ''unhandled-class exception''
      | PanicUnhandledIrqMode \<Rightarrow> ''IRQ taken from unsupported mode (not curr_el_spx)'')"

text \<open>\<open>{:#018x}\<close>: the prefix and the digits, filled with zeros to eighteen characters.\<close>

definition hex_alternate :: "nat \<Rightarrow> nat \<Rightarrow> 8 word list" where
  "hex_alternate width n =
     (let ds = radix_digits 16 n in text_bytes ''0x'' @ replicate (width - 2 - length ds) 48 @ ds)"

definition panic_entry_message :: "64 word \<Rightarrow> 64 word \<Rightarrow> 8 word list" where
  "panic_entry_message class esr =
     text_bytes ''tyrne: '' @ text_bytes (panic_class_as_str (panic_class_from_u64 class)) @ text_bytes ''; ESR_EL1 = '' @
     hex_alternate 18 (unat esr) @ text_bytes ''; class id = '' @ radix_digits 10 (unat class)"

definition panic_entry :: "nat \<Rightarrow> uart_flags \<Rightarrow> 8 word list \<Rightarrow> 64 word \<Rightarrow> 64 word \<Rightarrow> mmio_log \<Rightarrow> mmio_log option" where
  "panic_entry sp flags place class esr log = panic_handler sp flags (place @ panic_entry_message class esr) log"

section \<open>The report can be read back\<close>

lemma digit_byte_inj: "\<lbrakk>d < 16; e < 16; digit_byte d = digit_byte e\<rbrakk> \<Longrightarrow> d = e"
proof -
  assume a: "d < 16" "e < 16" "digit_byte d = digit_byte e"
  have u: "unat (digit_byte d) = (if d < 10 then 48 + d else 87 + d)" if "d < 16" for d
    using that by (simp add: digit_byte_def unat_of_nat)
  show "d = e" using arg_cong [OF a(3), of unat] a(1,2) by (simp add: u split: if_splits)
qed

text \<open>The value of a digit and of a text of digits.\<close>

definition digit_value :: "8 word \<Rightarrow> nat" where
  "digit_value b = (if unat b < 58 then unat b - 48 else unat b - 87)"

definition digits_value :: "nat \<Rightarrow> 8 word list \<Rightarrow> nat" where
  "digits_value b ds = foldl (\<lambda>n d. n * b + digit_value d) 0 ds"

lemma digit_value_byte: "d < 16 \<Longrightarrow> digit_value (digit_byte d) = d"
  by (simp add: digit_value_def digit_byte_def unat_of_nat)

lemma digits_value_radix: "\<lbrakk>2 \<le> b; b \<le> 16\<rbrakk> \<Longrightarrow> digits_value b (radix_digits b n) = n"
proof (induction b n rule: radix_digits.induct)
  case (1 b n)
  have "n mod b < 16" using 1(2,3) mod_less_divisor [of b n] by linarith
  then show ?case
    using 1 unfolding radix_digits.simps [of b n] by (auto simp: digits_value_def digit_value_byte)
qed

lemma digits_value_zeros: "digits_value b (replicate k 48 @ ds) = digits_value b ds"
  by (induction k) (simp_all add: digits_value_def digit_value_def)

lemma radix_length: "n < 16 ^ k \<Longrightarrow> 0 < k \<Longrightarrow> length (radix_digits 16 n) \<le> k"
proof (induction k arbitrary: n)
  case (Suc k)
  show ?case
  proof (cases "n < 16")
    case False
    then have "0 < k" using Suc.prems(1) by (cases k) auto
    moreover have "n div 16 < 16 ^ k" using Suc.prems(1) by (simp add: less_mult_imp_div_less mult.commute)
    ultimately show ?thesis using Suc.IH [of "n div 16"] False by (simp add: radix_digits.simps [of 16 n])
  qed (simp add: radix_digits.simps)
qed simp

lemma hex_alternate_length: "n < 2 ^ 64 \<Longrightarrow> length (hex_alternate 18 n) = 18"
  using radix_length [of n 16] by (simp add: hex_alternate_def Let_def text_bytes_def)

text \<open>
  The message has the syndrome at a fixed distance and the class at its end: two
  fatal exceptions print the same message only if they are the same.
\<close>

lemma panic_message_determines:
  assumes "panic_entry_message c1 e1 = panic_entry_message c2 e2"
  shows "c1 = c2 \<and> e1 = e2"
proof -
  have hex: "digits_value 16 (drop 2 (hex_alternate 18 n)) = n" for n
    by (simp add: hex_alternate_def Let_def text_bytes_def digits_value_zeros digits_value_radix)
  have cls: "panic_class_from_u64 c1 = panic_class_from_u64 c2"
  proof (rule ccontr)
    assume n: "panic_class_from_u64 c1 \<noteq> panic_class_from_u64 c2"
    have "panic_entry_message c1 e1 ! 7 = panic_entry_message c2 e2 ! 7" using assms by simp
    then show False
      using n by (cases "panic_class_from_u64 c1"; cases "panic_class_from_u64 c2")
        (simp_all add: panic_entry_message_def panic_class_as_str_def text_bytes_def)
  qed
  have l: "length (hex_alternate 18 (unat e)) = 18" for e :: "64 word"
    using hex_alternate_length [of "unat e"] unsigned_less [of e] by simp
  have "hex_alternate 18 (unat e1) = hex_alternate 18 (unat e2) \<and> radix_digits 10 (unat c1) = radix_digits 10 (unat c2)"
    using assms l unfolding panic_entry_message_def cls by (simp only: append_eq_append_conv append_assoc simp_thms)
  then have e: "hex_alternate 18 (unat e1) = hex_alternate 18 (unat e2)" and c: "radix_digits 10 (unat c1) = radix_digits 10 (unat c2)"
    by (rule conjunct1, rule conjunct2)
  have "unat e1 = unat e2" using arg_cong [OF e, of "\<lambda>x. digits_value 16 (drop 2 x)"] by (simp only: hex)
  moreover have "unat c1 = unat c2" using arg_cong [OF c, of "digits_value 10"] digits_value_radix [of 10] by simp
  ultimately show ?thesis by (simp only: word_unat_eq_iff)
qed

end
