(* ===== verification/PerfBench.thy ===== *)
theory PerfBench
  imports SyscallEntry Timer
begin

text \<open>
  The hook that the measurement build (\<open>bsp-qemu-virt/src/perf_bench.rs\<close>) puts after
  every system call: it times the round trips of a user task that does nothing else,
  and ends the task when it has enough. Its three atomics are a record; \<open>now\<close> is what
  the clock reads. The rest of that file is another boot and two tasks that repeat
  the scheduler's calls; it is not modelled.
\<close>

definition N_EL0_ROUNDTRIPS :: "64 word" where "N_EL0_ROUNDTRIPS = 50000"
definition EL0_WARMUP :: "64 word" where "EL0_WARMUP = 256"

record el0_bench =
  EL0_PREV_NS :: "64 word"
  EL0_ENTRY_COUNT :: "64 word"
  EL0_ACCUM_NS :: "64 word"

definition el0_bench_new :: el0_bench where
  "el0_bench_new = \<lparr>EL0_PREV_NS = 0, EL0_ENTRY_COUNT = 0, EL0_ACCUM_NS = 0\<rparr>"

text \<open>The report: the mean and the total. \<open>swap\<close> and \<open>fetch_add\<close> answer the old value and wrap.\<close>

definition el0_roundtrip_tick ::
    "64 word \<Rightarrow> syscall_effect \<Rightarrow> el0_bench \<Rightarrow> el0_bench \<times> (64 word \<times> 64 word) option \<times> syscall_effect" where
  "el0_roundtrip_tick now effect s =
     (let prev = EL0_PREV_NS s;
          n = EL0_ENTRY_COUNT s;
          s = s\<lparr>EL0_PREV_NS := now, EL0_ENTRY_COUNT := n + 1\<rparr>
      in if n = 0 \<or> n \<le> EL0_WARMUP then (s, None, effect)
         else
           let s = s\<lparr>EL0_ACCUM_NS := EL0_ACCUM_NS s + (if prev \<le> now then now - prev else 0)\<rparr>
           in if EL0_WARMUP + N_EL0_ROUNDTRIPS \<le> n
              then let total = EL0_ACCUM_NS s in (s, Some (total div N_EL0_ROUNDTRIPS, total), Terminate 0)
              else (s, None, effect))"

text \<open>The hook after each of several calls, up to the \<open>k\<close>-th.\<close>

fun ticks :: "(nat \<Rightarrow> 64 word) \<Rightarrow> syscall_effect \<Rightarrow> nat \<Rightarrow> el0_bench" where
  "ticks clock effect 0 = el0_bench_new"
| "ticks clock effect (Suc k) = fst (el0_roundtrip_tick (clock k) effect (ticks clock effect k))"

lemma ticks_state:
  assumes "k \<le> 60000" "\<And>i. i < k \<Longrightarrow> clock i \<le> clock (Suc i)"
  shows "EL0_ENTRY_COUNT (ticks clock effect k) = of_nat k \<and>
    (0 < k \<longrightarrow> EL0_PREV_NS (ticks clock effect k) = clock (k - 1)) \<and>
    EL0_ACCUM_NS (ticks clock effect k) = (if k \<le> 257 then 0 else clock (k - 1) - clock 256)"
  using assms
proof (induction k)
  case (Suc k)
  have IH: "EL0_ENTRY_COUNT (ticks clock effect k) = of_nat k"
      "0 < k \<Longrightarrow> EL0_PREV_NS (ticks clock effect k) = clock (k - 1)"
      "EL0_ACCUM_NS (ticks clock effect k) = (if k \<le> 257 then 0 else clock (k - 1) - clock 256)"
    using Suc.IH Suc.prems by auto
  have small: "(of_nat k :: 64 word) \<le> EL0_WARMUP \<longleftrightarrow> k \<le> 256"
    using Suc.prems(1) by (simp add: EL0_WARMUP_def word_le_nat_alt unat_of_nat)
  have step: "clock (k - 1) \<le> clock k" if "0 < k" using Suc.prems(2) [of "k - 1"] that by simp
  show ?case
  proof (cases "k \<le> 256")
    case True
    then show ?thesis using IH small by (simp add: el0_roundtrip_tick_def Let_def)
  next
    case False
    then have "of_nat k \<noteq> (0 :: 64 word)" using small by (auto simp: EL0_WARMUP_def)
    moreover have "k = 257 \<or> 257 < k" using False by auto
    ultimately show ?thesis using IH small step False by (auto simp: el0_roundtrip_tick_def Let_def)
  qed
qed (simp add: el0_bench_new_def)

text \<open>
  With a clock that does not go back, the calls up to the 50257th change nothing the
  task sees; that one ends the task, and reports the time between the end of the
  warm-up and now: exactly \<open>N_EL0_ROUNDTRIPS\<close> round trips.
\<close>

lemma el0_bench_measures_exactly:
  assumes "\<And>i. i < k \<Longrightarrow> clock i \<le> clock (Suc i)" "k \<le> 50256"
  shows "snd (el0_roundtrip_tick (clock k) effect (ticks clock effect k)) =
    (if k < 50256 then (None, effect)
     else (Some ((clock k - clock 256) div N_EL0_ROUNDTRIPS, clock k - clock 256), Terminate 0))"
proof -
  have k: "k \<le> 60000" using assms(2) by simp
  note t = ticks_state [OF k, of clock effect]
  have w: "(of_nat k :: 64 word) \<le> EL0_WARMUP \<longleftrightarrow> k \<le> 256" "EL0_WARMUP + N_EL0_ROUNDTRIPS \<le> (of_nat k :: 64 word) \<longleftrightarrow> 50256 \<le> k"
    using k by (simp_all add: EL0_WARMUP_def N_EL0_ROUNDTRIPS_def word_le_nat_alt unat_of_nat)
  show ?thesis
  proof (cases "k \<le> 256")
    case True
    then show ?thesis using t assms(1) w by (simp add: el0_roundtrip_tick_def Let_def)
  next
    case False
    then have "of_nat k \<noteq> (0 :: 64 word)" using w(1) by (auto simp: EL0_WARMUP_def)
    moreover have "clock (k - 1) \<le> clock k" using assms(1) [of "k - 1"] False by simp
    moreover have "EL0_PREV_NS (ticks clock effect k) = clock (k - 1)" "EL0_ENTRY_COUNT (ticks clock effect k) = of_nat k"
      "50256 \<le> k \<Longrightarrow> EL0_ACCUM_NS (ticks clock effect k) = clock (k - 1) - clock 256"
      using t assms(1) False by auto
    ultimately show ?thesis using w False assms(2) by (auto simp: el0_roundtrip_tick_def Let_def)
  qed
qed

end
