(* ===== verification/Spec2Isabelle.thy ===== *)
theory Spec2Isabelle
  imports SyscallEntry_Claims TaskLoader_Claims Gic_Claims BootMmu_Claims Activate_Claims Demo_Claims UserEntry_Claims Console_Claims TestHal_Claims
    Exceptions PerfBench
begin

text \<open>
  A verification of the Tyrne microkernel: a capability kernel for one aarch64 core
  with a cooperative scheduler (\<open>kernel/src\<close>, named below by path), its hardware
  interface (\<open>hal/src\<close>), its board (\<open>bsp-qemu-virt/src\<close>), its first user program
  (\<open>userland/\<close>) and the doubles its tests run on (\<open>test-hal/src\<close>).

  \<^bold>\<open>The program.\<close> Tasks hold capabilities in per-task tables. A
  capability names a kernel object that lives in a generation-tagged arena.
  Endpoints pass messages, and capabilities with them, between tasks; the
  scheduler blocks and wakes the tasks that take part. Frames come from a bitmap
  allocator, address spaces are trees of translation tables built from those
  frames, the loader fills an address space with an image. A user task reaches
  all of it through the registers of a system call. The board starts the processor
  under two boot translations, builds all of this and dispatches the first task.

  \<^bold>\<open>Conventions.\<close> Described in \<open>Prelude\<close>: a panic or a loop that does not end is
  \<^term>\<open>None\<close>, a \<open>Result\<close> is a sum, \<open>&mut\<close> is state passing, a \<open>usize\<close> is a
  natural number with the saturating, checked and wrapping operations of the
  source written out, registers and descriptors are words, memory is a function
  from addresses to bytes. A driver is the sequence of its device accesses; what the
  device answers is an argument.

  \<^bold>\<open>The kernel's objects.\<close>
  \<^item> \<open>Store_Spec\<close>, \<open>Arena\<close>, \<open>Objects\<close>: \<open>obj/arena.rs\<close>, \<open>task.rs\<close>, \<open>endpoint.rs\<close>,
    \<open>notification.rs\<close>. \<open>Store_Spec\<close> states the contract of a generation-tagged
    store as the locales \<open>gen_store\<close> and \<open>total_store\<close>; the arena and the capability
    table interpret them.
  \<^item> \<open>Rights\<close>, \<open>CapTable\<close>: \<open>cap/rights.rs\<close>, \<open>cap/mod.rs\<close>, \<open>cap/table.rs\<close>.
    \<open>CapTree\<close> is the abstract derivation forest, and \<open>CapTable_Props\<close>,
    \<open>CapRevoke\<close>, \<open>CapTable_Claims\<close> show that every operation refines it and that no
    history widens authority. Revocation is a breadth-first walk; its measure is the
    number of nodes not yet collected.
  \<^item> \<open>Ipc\<close>, \<open>Ipc_Props\<close>, \<open>Ipc_Claims\<close>: \<open>ipc/mod.rs\<close>, refined to the rendezvous
    machine of an endpoint, with histories over many tables.

  \<^bold>\<open>Memory.\<close>
  \<^item> \<open>Memory\<close>, \<open>Pmm\<close>, \<open>Pmm_Props\<close>, \<open>Pmm_Claims\<close>: the direct map of
    \<open>hal/src/mmu/mod.rs\<close> and \<open>mm/mod.rs\<close>, and \<open>mm/pmm.rs\<close>. \<open>pmm_owned\<close> are the frames
    taken, reserved ones included, so that a new frame is outside it; \<open>pmm_returnable\<close>
    are those handed out, which a release accepts.
  \<^item> \<open>Vmsav8\<close>, \<open>Mmu\<close>: \<open>hal/src/mmu/vmsav8.rs\<close> and the walk of
    \<open>bsp-qemu-virt/src/mmu.rs\<close>. \<open>PageTables\<close> reads the tables in memory as a
    tree and states that every entry is one the encoders build (\<open>written\<close>), \<open>PageWalk\<close>
    proves the walk over the locale \<open>frame_provider\<close>, and \<open>Mmu_Claims\<close> interprets it on
    the frame allocator (\<open>pmm_frames\<close>).
  \<^item> \<open>AddressSpace\<close>, \<open>Mmu_Contract\<close>, \<open>AddressSpace_Claims\<close>: \<open>mm/address_space.rs\<close>,
    proved over the locale \<open>translation_unit\<close>, which states what the \<open>Mmu\<close> trait
    promises, and interpreted on the walk of the board: \<open>qemu\<close> with the allocator's
    invariant, \<open>qemu_laid\<close> (over \<open>pmm_laid\<close>) with a fixed layout of the allocator, which
    the loader needs.
  \<^item> \<open>TaskLoader\<close>, \<open>TaskLoader_Props\<close>, \<open>TaskLoader_Undo\<close>, \<open>TaskLoader_Claims\<close>:
    \<open>obj/task_loader.rs\<close>: the frame budget suffices, a load is exact or leaves nothing
    behind, the undo frees what was mapped.
  \<^item> \<open>BootMmu\<close>, \<open>BootMmu_Claims\<close>, \<open>Activate_Claims\<close>: \<open>mmu_bootstrap.rs\<close>, the register
    constants and \<open>activate\<close>. The processor is \<open>hw_translate\<close>, written from the
    architecture's descriptor bits without the kernel's masks, indices or decoders. The
    six boot tables translate exactly the device and RAM windows, no step unmaps the
    running code, and in an activated address space the processor reaches the frames,
    with the permissions, that the calls of \<open>map\<close> and \<open>unmap\<close> ask for.

  \<^bold>\<open>System calls and scheduling.\<close>
  \<^item> \<open>SyscallAbi\<close>, \<open>UserAccess\<close>, \<open>UserAccess_Props\<close>, \<open>UserAccess_Claims\<close>, \<open>Dispatch\<close>,
    \<open>Dispatch_Claims\<close>: \<open>syscall/abi.rs\<close>, \<open>error.rs\<close>, \<open>user_access.rs\<close>, \<open>dispatch.rs\<close>.
  \<^item> \<open>Sched\<close>, \<open>Sched_Queue\<close>, \<open>Sched_Props\<close>, \<open>Sched_Claims\<close>: \<open>sched/mod.rs\<close>, each
    operation up to its context switch and from its resumption; the ready queue
    interprets the locale \<open>bounded_fifo\<close>.
  \<^item> \<open>SyscallEntry\<close>, \<open>SyscallEntry_Claims\<close>: \<open>bsp-qemu-virt/src/syscall.rs\<close> over the
    board's statics as one record.
  \<^item> \<open>CpuContext\<close>, \<open>CpuContext_Claims\<close>: \<open>cpu.rs\<close>, the guard of \<open>hal/src/cpu.rs\<close> and the
    switch windows of the scheduler, on a record of registers: a task resumes as it
    left, and interrupts stay masked from the first dispatch on.

  \<^bold>\<open>The board.\<close>
  \<^item> \<open>Timer\<close>, \<open>Gic\<close>, \<open>Gic_Claims\<close>: \<open>hal/src/timer.rs\<close>, the timer of \<open>cpu.rs\<close>,
    \<open>gic.rs\<close> and the interrupt handler of \<open>exceptions.rs\<close>, against the documented
    registers of the controller in any state it may have at reset. \<open>Exceptions\<close>: the
    rest of \<open>exceptions.rs\<close>.
  \<^item> \<open>Console\<close>, \<open>Console_Claims\<close>: \<open>console.rs\<close>, \<open>hal/src/console.rs\<close> and the panic
    handler of \<open>main.rs\<close>, heard in every stage of the boot.
  \<^item> \<open>Boot\<close>, \<open>Boot_Props\<close>, \<open>Boot_Claims\<close>: \<open>kernel_main_high\<close> of \<open>main.rs\<close>, step by
    step. Its end state satisfies the invariants that the properties of the system
    calls, the address spaces and the scheduler assume.
  \<^item> \<open>UserEntry_Claims\<close>: the first switch to the user task, from the context that the
    boot registered to the first instruction of the image.
  \<^item> \<open>Userland\<close>, \<open>Demo\<close>, \<open>Demo_Props\<close>, \<open>Demo_Claims\<close>: \<open>userland/\<close> and the tasks of
    \<open>main.rs\<close>, run together from the first dispatch to the last printed line.
  \<^item> \<open>PerfBench\<close>: the timing hook of \<open>perf_bench.rs\<close>.
  \<^item> \<open>TestHal\<close>, \<open>TestHal_Claims\<close>: \<open>test-hal/src\<close>. The flat translation unit agrees
    with the page-table walk on 48-bit addresses, and differs beyond them.

  \<^bold>\<open>Bounds.\<close> Capacities are those of the source (64 capabilities per table, 16
  tasks, endpoints and notifications, 8 address spaces, derivation depth 16); the
  frame allocator is proved for any bitmap size, and the boot for any placement of
  the kernel image that the linker script allows. No definition of the program uses
  fuel: loops are structural recursions, functions with a measure, or partial
  functions proved to return; the console's wait returns when the device drains. The
  run of the demonstration is a number of stretches, and its property holds for every
  number from five on. Generations are 32-bit and wrap; the properties on stale
  handles are stated for fewer than 2^32 releases of a slot.

  \<^bold>\<open>Not modelled.\<close> The assembly of \<open>boot.s\<close> and \<open>vectors.s\<close> and the compiled code of
  the user program: the registers and linker symbols that they leave are arguments.
  Caches, barriers and TLB invalidations have no effect on the modelled memory; the
  flushes the kernel asks for are a log. Banners of the boot and the core library's
  formatting, except for the numbers that the demonstration and the fatal handler
  print. The alternative boot and tasks of the measurement build, which repeat
  modelled steps around a clock. Trait declarations have no bodies, and \<open>kernel/src/lib.rs\<close>
  and \<open>syscall/mod.rs\<close> no operations of their own.
\<close>

end
